(* ===== verification/Py_Prelude.thy ===== *)
theory Py_Prelude
  imports Main "HOL-Library.AList"
begin

text \<open>
  What every component theory shares: Python's integer division idioms, Python dictionaries as
  insertion-ordered association lists, error results, and the collections of rewrite rules the
  component proofs use.

  Python's integers are unbounded and its \<open>//\<close> and \<open>%\<close> round towards minus infinity, as
  \<open>div\<close> and \<open>mod\<close> on \<open>int\<close> do. A dictionary that the code iterates over is an association list
  with distinct keys: \<open>AList.update\<close> replaces in place or appends at the end and
  \<open>AList.delete\<close> is \<open>pop\<close>, which is the insertion order Python guarantees.
\<close>

named_theorems py_arith \<open>Python integer arithmetic\<close>
named_theorems py_dict \<open>insertion-ordered dictionaries\<close>

section \<open>Results\<close>

text \<open>A call that may raise: \<open>Inl\<close> the exception, \<open>Inr\<close> the value.\<close>

type_synonym ('e, 'a) result = "'e + 'a"

fun bind_res :: "('e, 'a) result \<Rightarrow> ('a \<Rightarrow> ('e, 'b) result) \<Rightarrow> ('e, 'b) result" where
  "bind_res (Inl e) f = Inl e"
| "bind_res (Inr x) f = f x"

lemma bind_res_Inr_iff: "bind_res r f = Inr y \<longleftrightarrow> (\<exists>x. r = Inr x \<and> f x = Inr y)"
  by (cases r) auto

lemma if_Inl_eq_Inr [simp]: "((if b then Inl e else r) = Inr x) \<longleftrightarrow> \<not> b \<and> r = Inr x"
  by simp

text \<open>A list comprehension whose element expression may raise stops at the first exception.\<close>

fun map_res :: "('a \<Rightarrow> ('e, 'b) result) \<Rightarrow> 'a list \<Rightarrow> ('e, 'b list) result" where
  "map_res f [] = Inr []"
| "map_res f (x # xs) = bind_res (f x) (\<lambda>y. bind_res (map_res f xs) (\<lambda>ys. Inr (y # ys)))"

lemma map_res_Inr_iff:
  "map_res f xs = Inr ys \<longleftrightarrow> list_all2 (\<lambda>x y. f x = Inr y) xs ys"
  by (induction xs arbitrary: ys)
    (auto simp: bind_res_Inr_iff list_all2_Cons1)

lemma map_res_Inr_length: "map_res f xs = Inr ys \<Longrightarrow> length ys = length xs"
  by (simp add: map_res_Inr_iff list_all2_lengthD)

lemma map_res_all_Inr: "(\<And>x. x \<in> set xs \<Longrightarrow> f x = Inr (g x)) \<Longrightarrow> map_res f xs = Inr (map g xs)"
  by (induction xs) auto

text \<open>\<open>all(f(x) for x in xs)\<close> with an \<open>f\<close> that may raise: it stops at the first false value.\<close>

fun all_res :: "('a \<Rightarrow> ('e, bool) result) \<Rightarrow> 'a list \<Rightarrow> ('e, bool) result" where
  "all_res f [] = Inr True"
| "all_res f (x # xs) = bind_res (f x) (\<lambda>b. if b then all_res f xs else Inr False)"

lemma all_res_True_iff: "all_res f xs = Inr True \<longleftrightarrow> (\<forall>x \<in> set xs. f x = Inr True)"
  by (induction xs) (auto simp: bind_res_Inr_iff)

section \<open>Ceiling division\<close>

text \<open>The idiom \<open>-(-a // b)\<close>.\<close>

definition cdiv :: "int \<Rightarrow> int \<Rightarrow> int" where
  "cdiv a b = - ((- a) div b)"

lemma cdiv_lower [py_arith]: "0 < b \<Longrightarrow> a \<le> cdiv a b * b"
proof -
  assume b: "0 < b"
  have "(- a) div b * b \<le> - a"
    using b by (metis add.commute add_diff_cancel_left' div_mult_mod_eq le_add_same_cancel2
        minus_mult_div_eq_mod pos_mod_sign mult.commute)
  then show ?thesis by (simp add: cdiv_def)
qed

lemma cdiv_upper [py_arith]: "0 < b \<Longrightarrow> cdiv a b * b < a + b"
proof -
  assume b: "0 < b"
  have "(- a) mod b < b" using b by simp
  moreover have "(- a) div b * b = - a - (- a) mod b"
    by (simp add: minus_mod_eq_div_mult)
  ultimately show ?thesis by (simp add: cdiv_def)
qed

lemma cdiv_le_iff: "0 < b \<Longrightarrow> cdiv a b \<le> k \<longleftrightarrow> a \<le> k * b"
proof
  assume b: "0 < b" and "cdiv a b \<le> k"
  then have "cdiv a b * b \<le> k * b" by (simp add: mult_right_mono)
  with cdiv_lower [OF b, of a] show "a \<le> k * b" by linarith
next
  assume b: "0 < b" and "a \<le> k * b"
  with cdiv_upper [OF b, of a] have "cdiv a b * b < (k + 1) * b" by (simp add: algebra_simps)
  with b show "cdiv a b \<le> k" by (simp add: mult_less_cancel_right)
qed

lemma cdiv_mono: "0 < b \<Longrightarrow> a \<le> a' \<Longrightarrow> cdiv a b \<le> cdiv a' b"
  using cdiv_le_iff [of b a "cdiv a' b"] cdiv_lower [of b a'] by linarith

lemma cdiv_exact: "0 < b \<Longrightarrow> cdiv (k * b) b = k"
  by (simp add: cdiv_def minus_mult_left del: mult_minus_left)

lemma cdiv_dvd_mult: "0 < b \<Longrightarrow> b dvd a \<Longrightarrow> cdiv a b * b = a"
  by (auto elim!: dvdE simp: cdiv_exact mult.commute [of b])

section \<open>Slices\<close>

text \<open>\<open>xs[-n:]\<close> for a positive \<open>n\<close>: the last \<open>n\<close> elements (\<open>xs[-0:]\<close> is the whole list).\<close>

definition last_n :: "nat \<Rightarrow> 'a list \<Rightarrow> 'a list" where
  "last_n n xs = (if n = 0 then xs else drop (length xs - n) xs)"

lemma length_last_n: "0 < n \<Longrightarrow> length (last_n n xs) = min n (length xs)"
  by (auto simp: last_n_def)

lemma set_last_n: "set (last_n n xs) \<subseteq> set xs"
  by (auto simp: last_n_def dest: in_set_dropD)

lemma last_n_id: "length xs \<le> n \<Longrightarrow> last_n n xs = xs"
  by (simp add: last_n_def)

lemma sorted_last_n: "sorted xs \<Longrightarrow> sorted (last_n n xs)"
  by (auto simp: last_n_def sorted_wrt_drop)

lemma map_last_n: "map f (last_n n xs) = last_n n (map f xs)"
  by (simp add: last_n_def drop_map)

text \<open>\<open>xs[i]\<close>: a negative index counts from the end. Callers keep \<open>-len(xs) <= i < len(xs)\<close>.\<close>

definition py_nth :: "'a list \<Rightarrow> int \<Rightarrow> 'a" where
  "py_nth xs i = xs ! nat (if i < 0 then int (length xs) + i else i)"

section \<open>Dictionaries\<close>

abbreviation dict_get :: "('k \<times> 'v) list \<Rightarrow> 'k \<Rightarrow> 'v option" where
  "dict_get d k \<equiv> map_of d k"

abbreviation dict_set :: "'k \<Rightarrow> 'v \<Rightarrow> ('k \<times> 'v) list \<Rightarrow> ('k \<times> 'v) list" where
  "dict_set k v d \<equiv> AList.update k v d"

abbreviation dict_pop :: "'k \<Rightarrow> ('k \<times> 'v) list \<Rightarrow> ('k \<times> 'v) list" where
  "dict_pop k d \<equiv> AList.delete k d"

abbreviation dict_wf :: "('k \<times> 'v) list \<Rightarrow> bool" where
  "dict_wf d \<equiv> distinct (map fst d)"

lemma dict_wf_set [py_dict]: "dict_wf d \<Longrightarrow> dict_wf (dict_set k v d)"
  by (rule distinct_update)

lemma dict_wf_pop [py_dict]: "dict_wf d \<Longrightarrow> dict_wf (dict_pop k d)"
  by (rule distinct_delete)

lemma dict_wf_filter [py_dict]: "dict_wf d \<Longrightarrow> dict_wf (filter P d)"
  by (induction d) auto

lemma dict_get_set [py_dict]: "dict_get (dict_set k v d) k' = (if k' = k then Some v else dict_get d k')"
  by (simp add: update_conv')

lemma dict_get_pop [py_dict]: "dict_get (dict_pop k d) k' = (if k' = k then None else dict_get d k')"
  by (simp add: delete_conv')

lemma dict_set_split:
  assumes "dict_wf d" and "dict_get d k = Some v"
  obtains ds es where "d = ds @ (k, v) # es" and "k \<notin> fst ` set ds" and "k \<notin> fst ` set es"
    and "\<And>w. dict_set k w d = ds @ (k, w) # es"
proof -
  from map_of_SomeD [OF assms(2)] obtain ds es where d: "d = ds @ (k, v) # es"
    by (meson split_list)
  with assms(1) have nin: "k \<notin> fst ` set ds" "k \<notin> fst ` set es" by auto
  have "dict_set k w d = ds @ (k, w) # es" for w
    unfolding d using nin(1) by (induction ds) auto
  with d nin show thesis using that by blast
qed

lemma dict_set_new: "dict_get d k = None \<Longrightarrow> dict_set k v d = d @ [(k, v)]"
  by (induction d) (auto split: if_splits)

lemma dict_get_filter_key:
  "dict_get (filter (\<lambda>(k, v). P k) d) k = (if P k then dict_get d k else None)"
  by (induction d) auto

end
