(* ===== verification/Py_Float.thy ===== *)
theory Py_Float
  imports Complex_Main Py_Prelude "HOL-Library.Log_Nat"
begin

text \<open>
  Python's \<open>float\<close>: IEEE 754 binary64 with round-to-nearest, ties to even. A finite value is the
  rational number it denotes, so the type has one zero (Python's \<open>-0.0 == 0.0\<close>) and one NaN.
  Arithmetic computes the exact rational result and rounds it once (\<open>round64\<close>); an overflow is an
  infinity. Comparisons with NaN are false, and \<open>py_max\<close> is Python's two-argument \<open>max\<close>, which keeps
  its first argument unless the second is greater. The lemmas say that rounding is monotone, fixes the
  representable values and hence keeps signs, and what follows for the operations.
\<close>

section \<open>Rounding\<close>

definition ilog2 :: "rat \<Rightarrow> int" where
  \<comment> \<open>the exponent of a positive rational: \<open>2^e \<le> x < 2^(e+1)\<close>\<close>
  "ilog2 x = (let (n, d) = quotient_of x; k = bitlen n - bitlen d
              in if 2 powi k \<le> x then k else k - 1)"

definition round_half_even :: "rat \<Rightarrow> int" where
  "round_half_even x =
     (let f = \<lfloor>x\<rfloor>; r = x - of_int f
      in if r < 1 / 2 then f else if 1 / 2 < r then f + 1 else if even f then f else f + 1)"

definition ulp_exp :: "rat \<Rightarrow> int" where
  \<comment> \<open>53 significant bits, and no bit below \<open>2^-1074\<close>\<close>
  "ulp_exp x = max (ilog2 \<bar>x\<bar> - 52) (-1074)"

definition rnd :: "rat \<Rightarrow> rat" where
  \<comment> \<open>round to a multiple of the unit in the last place (unbounded exponent range upwards)\<close>
  "rnd x = (if x = 0 then 0
            else of_int (round_half_even (x / 2 powi (ulp_exp x))) * 2 powi (ulp_exp x))"

definition float_limit :: rat where
  "float_limit = 2 ^ 1024"

section \<open>Values and operations\<close>

datatype pyfloat = Fin rat | PInf | NInf | NaN

definition round64 :: "rat \<Rightarrow> pyfloat" where
  "round64 x = (let y = rnd x in if y \<ge> float_limit then PInf else if y \<le> - float_limit then NInf else Fin y)"

fun is_finite :: "pyfloat \<Rightarrow> bool" where
  "is_finite (Fin _) = True"
| "is_finite _ = False"

definition inf_of_sign :: "rat \<Rightarrow> pyfloat" where
  "inf_of_sign s = (if s = 0 then NaN else if 0 < s then PInf else NInf)"

text \<open>The conversion \<open>float(n)\<close> of an integer.\<close>

definition float_of_int :: "int \<Rightarrow> pyfloat" where
  "float_of_int n = round64 (of_int n)"

instantiation pyfloat :: "{plus, minus, times, uminus, abs, ord, zero, one}"
begin

definition zero_pyfloat :: pyfloat where
  "zero_pyfloat = Fin 0"

definition one_pyfloat :: pyfloat where
  "one_pyfloat = Fin 1"

fun uminus_pyfloat :: "pyfloat \<Rightarrow> pyfloat" where
  "uminus_pyfloat (Fin a) = Fin (- a)"
| "uminus_pyfloat PInf = NInf"
| "uminus_pyfloat NInf = PInf"
| "uminus_pyfloat NaN = NaN"

fun abs_pyfloat :: "pyfloat \<Rightarrow> pyfloat" where
  "abs_pyfloat (Fin a) = Fin \<bar>a\<bar>"
| "abs_pyfloat PInf = PInf"
| "abs_pyfloat NInf = PInf"
| "abs_pyfloat NaN = NaN"

fun plus_pyfloat :: "pyfloat \<Rightarrow> pyfloat \<Rightarrow> pyfloat" where
  "plus_pyfloat (Fin a) (Fin b) = round64 (a + b)"
| "plus_pyfloat NaN _ = NaN"
| "plus_pyfloat _ NaN = NaN"
| "plus_pyfloat PInf NInf = NaN"
| "plus_pyfloat NInf PInf = NaN"
| "plus_pyfloat PInf _ = PInf"
| "plus_pyfloat _ PInf = PInf"
| "plus_pyfloat NInf _ = NInf"
| "plus_pyfloat _ NInf = NInf"

definition minus_pyfloat :: "pyfloat \<Rightarrow> pyfloat \<Rightarrow> pyfloat" where
  "minus_pyfloat a b = a + - b"

fun times_pyfloat :: "pyfloat \<Rightarrow> pyfloat \<Rightarrow> pyfloat" where
  "times_pyfloat (Fin a) (Fin b) = round64 (a * b)"
| "times_pyfloat NaN _ = NaN"
| "times_pyfloat _ NaN = NaN"
| "times_pyfloat PInf PInf = PInf"
| "times_pyfloat NInf NInf = PInf"
| "times_pyfloat PInf NInf = NInf"
| "times_pyfloat NInf PInf = NInf"
| "times_pyfloat PInf (Fin b) = inf_of_sign b"
| "times_pyfloat NInf (Fin b) = inf_of_sign (- b)"
| "times_pyfloat (Fin a) PInf = inf_of_sign a"
| "times_pyfloat (Fin a) NInf = inf_of_sign (- a)"

fun less_eq_pyfloat :: "pyfloat \<Rightarrow> pyfloat \<Rightarrow> bool" where
  "less_eq_pyfloat (Fin a) (Fin b) = (a \<le> b)"
| "less_eq_pyfloat NaN _ = False"
| "less_eq_pyfloat _ NaN = False"
| "less_eq_pyfloat NInf _ = True"
| "less_eq_pyfloat _ PInf = True"
| "less_eq_pyfloat _ _ = False"

fun less_pyfloat :: "pyfloat \<Rightarrow> pyfloat \<Rightarrow> bool" where
  "less_pyfloat (Fin a) (Fin b) = (a < b)"
| "less_pyfloat NaN _ = False"
| "less_pyfloat _ NaN = False"
| "less_pyfloat NInf NInf = False"
| "less_pyfloat PInf PInf = False"
| "less_pyfloat NInf _ = True"
| "less_pyfloat _ PInf = True"
| "less_pyfloat _ _ = False"

instance ..

end

text \<open>Division. \<open>x / y\<close> on floats raises on a zero divisor, so every caller tests it first;
  \<open>a / b\<close> on integers is the correctly rounded quotient.\<close>

fun fdiv :: "pyfloat \<Rightarrow> pyfloat \<Rightarrow> pyfloat" where
  "fdiv (Fin a) (Fin b) = round64 (a / b)"
| "fdiv NaN _ = NaN"
| "fdiv _ NaN = NaN"
| "fdiv (Fin _) _ = Fin 0"
| "fdiv PInf (Fin b) = (if 0 \<le> b then PInf else NInf)"
| "fdiv NInf (Fin b) = (if 0 \<le> b then NInf else PInf)"
| "fdiv _ _ = NaN"

definition int_div :: "int \<Rightarrow> int \<Rightarrow> pyfloat" where
  "int_div a b = round64 (of_int a / of_int b)"

definition py_max :: "pyfloat \<Rightarrow> pyfloat \<Rightarrow> pyfloat" where
  "py_max a b = (if a < b then b else a)"

fun py_max_list :: "pyfloat list \<Rightarrow> pyfloat" where
  \<comment> \<open>\<open>max(xs)\<close> of a nonempty list; the empty list raises and is excluded by every caller\<close>
  "py_max_list [] = NaN"
| "py_max_list (x # xs) = fold (\<lambda>v m. py_max m v) xs x"

text \<open>Python's \<open>==\<close> on floats.\<close>

definition float_eq :: "pyfloat \<Rightarrow> pyfloat \<Rightarrow> bool" where
  "float_eq a b \<longleftrightarrow> a \<le> b \<and> b \<le> a"

section \<open>Rounding is monotone and fixes the representable values\<close>

lemma ilog2_bounds:
  assumes "0 < x"
  shows "2 powi (ilog2 x) \<le> x" and "x < 2 powi (ilog2 x + 1)"
proof -
  obtain n d where nd: "quotient_of x = (n, d)" by fastforce
  have d: "0 < d" using quotient_of_denom_pos [OF nd] .
  have x: "x = of_int n / of_int d" by (rule quotient_of_div [OF nd])
  have n: "0 < n" using assms d by (simp add: x zero_less_divide_iff)
  define k where "k = bitlen n - bitlen d"
  have bn: "0 < bitlen n" and bd: "0 < bitlen d"
    using n d by (simp_all add: bitlen_alt_def)
  have pw: "(of_int (2 ^ nat j) :: rat) = 2 powi j" if "0 \<le> j" for j
    using that by (simp add: power_int_def)
  have "(2::rat) powi (bitlen n - 1) \<le> of_int n" and nu: "of_int n < (2::rat) powi (bitlen n)"
    using bitlen_bounds [OF n] bn by (simp_all flip: pw)
  moreover have dl: "(2::rat) powi (bitlen d - 1) \<le> of_int d" and "of_int d < (2::rat) powi (bitlen d)"
    using bitlen_bounds [OF d] bd by (simp_all flip: pw)
  ultimately have lo: "(2::rat) powi (bitlen n - 1) / 2 powi (bitlen d) \<le> x"
    unfolding x using n d by (intro frac_le) auto
  have hi: "x < (2::rat) powi (bitlen n) / 2 powi (bitlen d - 1)"
    unfolding x using nu dl d n by (intro frac_less) auto
  have lo': "2 powi (k - 1) \<le> x"
    using lo by (simp add: k_def algebra_simps flip: power_int_diff)
  have hi': "x < 2 powi (k + 1)"
    using hi by (simp add: k_def algebra_simps flip: power_int_diff)
  show "2 powi (ilog2 x) \<le> x" and "x < 2 powi (ilog2 x + 1)"
    using lo' hi' by (auto simp: ilog2_def nd k_def Let_def)
qed

lemma powi_less_imp_less: "(2::rat) powi a < 2 powi b \<Longrightarrow> a < b"
  by (meson not_le one_le_numeral power_int_increasing)

lemma ilog2_mono: "0 < x \<Longrightarrow> x \<le> y \<Longrightarrow> ilog2 x \<le> ilog2 y"
proof -
  assume "0 < x" and "x \<le> y"
  then have "(2::rat) powi (ilog2 x) < 2 powi (ilog2 y + 1)"
    using ilog2_bounds(1) [of x] ilog2_bounds(2) [of y] by linarith
  then show ?thesis using powi_less_imp_less by fastforce
qed

lemma round_half_even_of_int [simp]: "round_half_even (of_int n) = n"
  by (simp add: round_half_even_def)

lemma round_half_even_bounds: "\<lfloor>x\<rfloor> \<le> round_half_even x" "round_half_even x \<le> \<lfloor>x\<rfloor> + 1"
  by (auto simp: round_half_even_def Let_def)

lemma round_half_even_mono: "x \<le> y \<Longrightarrow> round_half_even x \<le> round_half_even y"
proof -
  assume xy: "x \<le> y"
  then have "\<lfloor>x\<rfloor> \<le> \<lfloor>y\<rfloor>" by (rule floor_mono)
  then consider "\<lfloor>x\<rfloor> = \<lfloor>y\<rfloor>" | "\<lfloor>x\<rfloor> + 1 \<le> \<lfloor>y\<rfloor>" by linarith
  then show ?thesis
  proof cases
    case 1
    with xy show ?thesis by (auto simp: round_half_even_def Let_def)
  next
    case 2
    then show ?thesis using round_half_even_bounds(2) [of x] round_half_even_bounds(1) [of y] by linarith
  qed
qed

lemma round_half_even_minus: "round_half_even (- x) = - round_half_even x"
proof (cases "x = of_int \<lfloor>x\<rfloor>")
  case True
  then show ?thesis by (metis of_int_minus round_half_even_of_int)
next
  case False
  then have "\<lfloor>- x\<rfloor> = - \<lfloor>x\<rfloor> - 1"
    by (metis ceiling_altdef floor_minus minus_diff_eq minus_minus diff_minus_eq_add add.commute uminus_add_conv_diff)
  then show ?thesis by (auto simp: round_half_even_def Let_def)
qed

lemma round_half_even_le_int: "x \<le> of_int n \<Longrightarrow> round_half_even x \<le> n"
  using round_half_even_mono [of x "of_int n"] by simp

lemma round_half_even_ge_int: "of_int n \<le> x \<Longrightarrow> n \<le> round_half_even x"
  using round_half_even_mono [of "of_int n" x] by simp

lemma powi_int: "0 \<le> j \<Longrightarrow> \<exists>n. (2::rat) powi j = of_int n"
  by (rule exI [of _ "2 ^ nat j"]) (simp add: power_int_def)

lemma rnd_le_powi: "0 < x \<Longrightarrow> x \<le> 2 powi E \<Longrightarrow> ulp_exp x \<le> E \<Longrightarrow> rnd x \<le> 2 powi E"
proof -
  assume x: "0 < x" "x \<le> 2 powi E" and u: "ulp_exp x \<le> E"
  obtain n where n: "(2::rat) powi (E - ulp_exp x) = of_int n" using powi_int [of "E - ulp_exp x"] u by auto
  then have E: "2 powi E = of_int n * (2::rat) powi ulp_exp x" by (metis add_diff_cancel diff_add_cancel power_int_add zero_neq_numeral)
  with x have "x / 2 powi ulp_exp x \<le> of_int n" by (simp add: divide_le_eq)
  then have "round_half_even (x / 2 powi ulp_exp x) \<le> n" by (rule round_half_even_le_int)
  with x E show ?thesis by (simp add: rnd_def mult_right_mono)
qed

lemma rnd_ge_powi: "0 < x \<Longrightarrow> 2 powi E \<le> x \<Longrightarrow> ulp_exp x \<le> E \<Longrightarrow> 2 powi E \<le> rnd x"
proof -
  assume x: "0 < x" "2 powi E \<le> x" and u: "ulp_exp x \<le> E"
  obtain n where n: "(2::rat) powi (E - ulp_exp x) = of_int n" using powi_int [of "E - ulp_exp x"] u by auto
  then have E: "2 powi E = of_int n * (2::rat) powi ulp_exp x" by (metis add_diff_cancel diff_add_cancel power_int_add zero_neq_numeral)
  with x have "of_int n \<le> x / 2 powi ulp_exp x" by (simp add: le_divide_eq)
  then have "n \<le> round_half_even (x / 2 powi ulp_exp x)" by (rule round_half_even_ge_int)
  with x E show ?thesis by (simp add: rnd_def mult_right_mono)
qed

lemma rnd_zero [simp]: "rnd 0 = 0"
  by (simp add: rnd_def)

lemma rnd_minus: "rnd (- x) = - rnd x"
  by (simp add: rnd_def ulp_exp_def round_half_even_minus)

lemma rnd_mono_pos:
  assumes "0 < x" and "x \<le> y"
  shows "rnd x \<le> rnd y"
proof (cases "ulp_exp x = ulp_exp y")
  case True
  have "x / 2 powi ulp_exp x \<le> y / 2 powi ulp_exp y"
    using assms True by (simp add: divide_right_mono)
  then show ?thesis using assms True round_half_even_mono by (simp add: rnd_def mult_right_mono)
next
  case False
  have il: "ilog2 x \<le> ilog2 y" using assms by (rule ilog2_mono)
  with False assms have lt: "ilog2 x < ilog2 y" and uy: "ulp_exp y = ilog2 y - 52"
    and ux: "ulp_exp x \<le> ilog2 y"
    by (auto simp: ulp_exp_def max_def split: if_splits)
  have "x \<le> 2 powi (ilog2 y)"
  proof -
    have "x < 2 powi (ilog2 x + 1)" using assms(1) by (rule ilog2_bounds)
    also have "\<dots> \<le> 2 powi (ilog2 y)" using lt by (intro power_int_increasing) auto
    finally show ?thesis by simp
  qed
  then have "rnd x \<le> 2 powi (ilog2 y)" using assms ux by (intro rnd_le_powi)
  also have "\<dots> \<le> rnd y" using assms uy ilog2_bounds(1) [of y] by (intro rnd_ge_powi) auto
  finally show ?thesis .
qed

lemma rnd_nonneg: "0 \<le> x \<Longrightarrow> 0 \<le> rnd x"
  using round_half_even_ge_int [of 0 "x / 2 powi ulp_exp x"] by (auto simp: rnd_def)

lemma rnd_mono: "x \<le> y \<Longrightarrow> rnd x \<le> rnd y"
proof (cases "0 < x")
  case True
  then show "x \<le> y \<Longrightarrow> ?thesis" by (rule rnd_mono_pos)
next
  case False
  assume xy: "x \<le> y"
  have nx: "rnd x \<le> 0" using rnd_nonneg [of "- x"] False by (simp add: rnd_minus)
  show ?thesis
  proof (cases "0 \<le> y")
    case True
    with nx show ?thesis using rnd_nonneg [of y] by linarith
  next
    case False
    with xy have "rnd (- y) \<le> rnd (- x)" by (intro rnd_mono_pos) auto
    then show ?thesis by (simp add: rnd_minus)
  qed
qed

lemma rnd_representable:
  assumes "\<bar>m\<bar> < 2 ^ 53" and "-1074 \<le> e"
  shows "rnd (of_int m * 2 powi e) = of_int m * 2 powi e" (is "rnd ?x = ?x")
proof (cases "m = 0")
  case False
  have x0: "?x \<noteq> 0" using False by simp
  have ax: "\<bar>?x\<bar> = of_int \<bar>m\<bar> * 2 powi e" by (simp add: abs_mult)
  have "(of_int \<bar>m\<bar> :: rat) < 2 powi 53" using assms(1) by (simp add: power_int_def flip: of_int_abs)
  then have "\<bar>?x\<bar> < 2 powi 53 * 2 powi e" unfolding ax by (intro mult_strict_right_mono) auto
  then have "\<bar>?x\<bar> < 2 powi (53 + e)" by (simp add: power_int_add)
  moreover have "2 powi ilog2 \<bar>?x\<bar> \<le> \<bar>?x\<bar>" using x0 by (intro ilog2_bounds) simp
  ultimately have "ilog2 \<bar>?x\<bar> < 53 + e" using powi_less_imp_less by (meson order.strict_trans1)
  then have u: "ulp_exp ?x \<le> e" using assms(2) by (simp add: ulp_exp_def)
  obtain n where n: "(2::rat) powi (e - ulp_exp ?x) = of_int n" using powi_int [of "e - ulp_exp ?x"] u by auto
  have "?x / 2 powi ulp_exp ?x = of_int (m * n)"
    by (simp add: power_int_diff flip: n)
  then have "round_half_even (?x / 2 powi ulp_exp ?x) = m * n" by (metis round_half_even_of_int)
  then have "rnd ?x = of_int (m * n) * 2 powi ulp_exp ?x" using x0 by (simp add: rnd_def)
  also have "\<dots> = ?x" by (simp add: power_int_diff flip: n)
  finally show ?thesis .
qed simp

lemma rnd_of_int: "\<bar>n\<bar> < 2 ^ 53 \<Longrightarrow> rnd (of_int n) = of_int n"
  using rnd_representable [of n 0] by simp

lemma rnd_one [simp]: "rnd 1 = 1"
  using rnd_of_int [of 1] by simp

section \<open>Order and arithmetic on the values\<close>

named_theorems py_float \<open>rounding and comparison of floats\<close>

lemma zero_float_Fin [py_float]: "(0::pyfloat) = Fin 0" and one_float_Fin [py_float]: "(1::pyfloat) = Fin 1"
  by (simp_all add: zero_pyfloat_def one_pyfloat_def)

lemma float_le_refl [simp]: "(x::pyfloat) \<le> x \<longleftrightarrow> x \<noteq> NaN"
  by (cases x) auto

lemma float_le_trans: "(x::pyfloat) \<le> y \<Longrightarrow> y \<le> z \<Longrightarrow> x \<le> z"
  by (cases x; cases y; cases z) auto

lemma float_less_le: "(x::pyfloat) < y \<longleftrightarrow> x \<le> y \<and> \<not> y \<le> x"
  by (cases x; cases y) auto

lemma float_linear: "x \<noteq> NaN \<Longrightarrow> y \<noteq> NaN \<Longrightarrow> (x::pyfloat) \<le> y \<or> y \<le> x"
  by (cases x; cases y) auto

lemma float_not_le: "x \<noteq> NaN \<Longrightarrow> y \<noteq> NaN \<Longrightarrow> \<not> (x::pyfloat) \<le> y \<longleftrightarrow> y < x"
  by (cases x; cases y) auto

lemma is_finite_iff: "is_finite x \<longleftrightarrow> (\<exists>a. x = Fin a)"
  by (cases x) auto

lemma round64_not_NaN [simp]: "round64 x \<noteq> NaN"
  by (simp add: round64_def Let_def)

lemma float_limit_pos: "0 < float_limit"
  by (simp add: float_limit_def)

lemma round64_zero [simp]: "round64 0 = Fin 0"
  using float_limit_pos by (simp add: round64_def)

lemma round64_mono: "x \<le> y \<Longrightarrow> round64 x \<le> round64 y"
  using rnd_mono [of x y] float_limit_pos by (auto simp: round64_def Let_def)

lemma round64_of_int: "\<bar>n\<bar> < 2 ^ 53 \<Longrightarrow> round64 (of_int n) = Fin (of_int n)"
proof -
  assume n: "\<bar>n\<bar> < 2 ^ 53"
  have "(of_int \<bar>n\<bar> :: rat) < of_int (2 ^ 53)" using n by (simp only: of_int_less_iff)
  then have "\<bar>of_int n :: rat\<bar> < 2 ^ 53" by simp
  moreover have "(2::rat) ^ 53 < float_limit" by (simp add: float_limit_def)
  ultimately show ?thesis by (auto simp: round64_def rnd_of_int [OF n] Let_def abs_less_iff)
qed

lemma round64_one [simp]: "round64 1 = Fin 1"
  using round64_of_int [of 1] by simp

lemma round64_nonneg [py_float]: "0 \<le> x \<Longrightarrow> Fin 0 \<le> round64 x"
  using round64_mono [of 0 x] by simp

lemma float_add_nonneg: "Fin 0 \<le> x \<Longrightarrow> Fin 0 \<le> y \<Longrightarrow> Fin 0 \<le> x + y"
  by (cases x; cases y) (auto intro: round64_nonneg)

lemma float_mult_nonneg: "is_finite x \<Longrightarrow> is_finite y \<Longrightarrow> Fin 0 \<le> x \<Longrightarrow> Fin 0 \<le> y \<Longrightarrow> Fin 0 \<le> x * y"
  by (cases x; cases y) (auto intro: round64_nonneg)

lemma float_diff_nonneg: "is_finite x \<Longrightarrow> is_finite y \<Longrightarrow> y \<le> x \<Longrightarrow> Fin 0 \<le> x - y"
  by (cases x; cases y) (auto simp: minus_pyfloat_def intro!: round64_nonneg)

lemma float_abs_nonneg: "x \<noteq> NaN \<Longrightarrow> Fin 0 \<le> \<bar>x\<bar>" for x :: pyfloat
  by (cases x) auto

lemma int_div_unit:
  assumes "0 \<le> a" and "a \<le> b" and "0 < b"
  shows "\<exists>q. int_div a b = Fin q \<and> 0 \<le> q \<and> q \<le> 1"
proof -
  have "0 \<le> (of_int a :: rat) / of_int b" and "(of_int a :: rat) / of_int b \<le> 1"
    using assms by simp_all
  then have "Fin 0 \<le> int_div a b" and "int_div a b \<le> Fin 1"
    unfolding int_div_def using round64_mono [of _ 1] by (auto intro: round64_nonneg)
  then show ?thesis by (cases "int_div a b") auto
qed

lemma int_div_mono: "0 < b \<Longrightarrow> a \<le> a' \<Longrightarrow> int_div a b \<le> int_div a' b"
  by (auto simp: int_div_def intro!: round64_mono divide_right_mono)

lemma int_div_not_NaN [simp]: "int_div a b \<noteq> NaN"
  by (simp add: int_div_def)

lemma py_max_ge: "a \<noteq> NaN \<Longrightarrow> b \<noteq> NaN \<Longrightarrow> a \<le> py_max a b \<and> b \<le> py_max a b"
  by (cases a; cases b) (auto simp: py_max_def)

lemma py_max_zero_nonneg: "Fin 0 \<le> py_max (Fin 0) x"
  by (cases x) (auto simp: py_max_def)

lemma py_max_cases: "py_max a b = a \<or> py_max a b = b"
  by (simp add: py_max_def)

lemma fold_py_max_in: "fold (\<lambda>v m. py_max m v) xs x \<in> insert x (set xs)"
  by (induction xs arbitrary: x) (auto, metis py_max_cases insert_iff)

lemma fold_py_max_ge:
  assumes "NaN \<notin> set (x # xs)" and "v \<in> set (x # xs)"
  shows "v \<le> fold (\<lambda>v m. py_max m v) xs x"
  using assms
proof (induction xs arbitrary: x v)
  case (Cons y xs)
  have m: "py_max x y \<noteq> NaN" using Cons.prems(1) by (metis list.set_intros py_max_cases set_subset_Cons subsetD)
  have ge: "x \<le> py_max x y" "y \<le> py_max x y" using Cons.prems(1) py_max_ge [of x y] by auto
  have IH: "w \<le> fold (\<lambda>v m. py_max m v) xs (py_max x y)" if "w \<in> set (py_max x y # xs)" for w
    using Cons.prems(1) m that by (intro Cons.IH) auto
  from Cons.prems(2) consider "v = x" | "v = y" | "v \<in> set xs" by auto
  then show ?case
  proof cases
    case 3
    then show ?thesis using IH by simp
  qed (use ge IH [of "py_max x y"] float_le_trans in auto)
qed auto

lemma py_max_list_in: "xs \<noteq> [] \<Longrightarrow> py_max_list xs \<in> set xs"
  using fold_py_max_in by (cases xs) auto

lemma py_max_list_ge: "NaN \<notin> set xs \<Longrightarrow> v \<in> set xs \<Longrightarrow> v \<le> py_max_list xs"
  by (cases xs) (auto intro!: fold_py_max_ge)

end
