(* ===== verification/Py_Json.thy ===== *)
theory Py_Json
  imports Py_Float "HOL-Library.List_Lexorder" "HOL-Library.Char_ord"
begin

text \<open>
  Dynamically typed values: what \<open>json.loads\<close> returns and what \<open>json.dumps\<close> writes. A \<open>bool\<close> is not
  an integer for \<open>_is_int\<close>, an object is an insertion-ordered dictionary, and \<open>canonical_json\<close> is the one
  serialization the code hashes (sorted keys, no white space, ASCII only, no NaN or infinity). The text of
  a finite float is an argument of it: CPython's shortest round-trip representation.
\<close>

section \<open>Values\<close>

datatype json =
    JNull
  | JBool bool
  | JInt int
  | JFloat pyfloat
  | JStr string
  | JList "json list"
  | JObj "(string \<times> json) list"

type_synonym obj = "(string \<times> json) list"

text \<open>Characters are compared and sorted by code point.\<close>

fun is_int :: "json \<Rightarrow> bool" where
  "is_int (JInt _) = True"
| "is_int _ = False"

fun the_int :: "json \<Rightarrow> int" where
  "the_int (JInt n) = n"
| "the_int _ = 0"

fun the_str :: "json \<Rightarrow> string" where
  "the_str (JStr s) = s"
| "the_str _ = []"

lemma is_int_iff: "is_int v \<longleftrightarrow> (\<exists>n. v = JInt n)"
  by (cases v) auto

text \<open>The number a JSON value denotes for comparisons: Python compares integers and floats exactly, and a
  \<open>bool\<close> as 0 or 1.\<close>

fun num_value :: "json \<Rightarrow> rat option" where
  "num_value (JInt n) = Some (of_int n)"
| "num_value (JBool b) = Some (if b then 1 else 0)"
| "num_value (JFloat (Fin a)) = Some a"
| "num_value _ = None"

text \<open>Python's \<open>==\<close> on the scalars the code compares.\<close>

definition json_eq :: "json \<Rightarrow> json \<Rightarrow> bool" where
  "json_eq a b \<longleftrightarrow>
     (case (num_value a, num_value b) of
        (Some x, Some y) \<Rightarrow> x = y
      | (None, None) \<Rightarrow> a = b \<and> a \<noteq> JFloat NaN
      | _ \<Rightarrow> False)"

lemma json_eq_int [simp]: "json_eq (JInt a) (JInt b) \<longleftrightarrow> a = b"
  by (simp add: json_eq_def)

lemma json_eq_str [simp]: "json_eq (JStr a) (JStr b) \<longleftrightarrow> a = b"
  by (simp add: json_eq_def)

lemma json_eq_str_iff: "json_eq v (JStr s) \<longleftrightarrow> v = JStr s"
  by (auto simp: json_eq_def split: option.splits)

section \<open>Canonical JSON\<close>

fun digit_char :: "nat \<Rightarrow> char" where
  "digit_char n = char_of (48 + n)"

fun show_nat :: "nat \<Rightarrow> string" where
  "show_nat n = (if n < 10 then [digit_char n] else show_nat (n div 10) @ [digit_char (n mod 10)])"

declare show_nat.simps [simp del]

definition show_int :: "int \<Rightarrow> string" where
  "show_int n = (if n < 0 then ''-'' @ show_nat (nat (- n)) else show_nat (nat n))"

definition hex_char :: "nat \<Rightarrow> char" where
  "hex_char n = (if n < 10 then char_of (48 + n) else char_of (87 + n))"

definition escape_char :: "char \<Rightarrow> string" where
  "escape_char c =
     (let n = of_char c :: nat; bs = CHR 0x5C in
      if n = 0x22 then [bs, CHR 0x22]
      else if n = 0x5C then [bs, bs]
      else if n = 0x0A then [bs, CHR ''n'']
      else if n = 0x0D then [bs, CHR ''r'']
      else if n = 0x09 then [bs, CHR ''t'']
      else if n = 0x0C then [bs, CHR ''f'']
      else if n = 0x08 then [bs, CHR ''b'']
      else if 0x20 \<le> n \<and> n \<le> 0x7E then [c]
      else [bs, CHR ''u'', CHR ''0'', CHR ''0'', hex_char (n div 16), hex_char (n mod 16)])"

definition json_string :: "string \<Rightarrow> string" where
  "json_string s = [CHR 0x22] @ concat (map escape_char s) @ [CHR 0x22]"

fun join :: "string \<Rightarrow> string list \<Rightarrow> string" where
  "join sep [] = []"
| "join sep [x] = x"
| "join sep (x # xs) = x @ sep @ join sep xs"

function canonical_json :: "(rat \<Rightarrow> string) \<Rightarrow> json \<Rightarrow> string option" where
  "canonical_json fmt JNull = Some ''null''"
| "canonical_json fmt (JBool b) = Some (if b then ''true'' else ''false'')"
| "canonical_json fmt (JInt n) = Some (show_int n)"
| "canonical_json fmt (JFloat x) = (case x of Fin a \<Rightarrow> Some (fmt a) | _ \<Rightarrow> None)"
| "canonical_json fmt (JStr s) = Some (json_string s)"
| "canonical_json fmt (JList xs) =
     map_option (\<lambda>ss. ''['' @ join '','' ss @ '']'') (those (map (canonical_json fmt) xs))"
| "canonical_json fmt (JObj kvs) =
     map_option (\<lambda>ss. ''{'' @ join '','' ss @ ''}'')
       (those (map (\<lambda>kv. map_option (\<lambda>s. json_string (fst kv) @ '':'' @ s) (canonical_json fmt (snd kv)))
                (sort_key fst kvs)))"
  by pat_completeness auto
termination
proof (relation "measure (\<lambda>(f, j). size j)", goal_cases)
  case (2 fmt xs x)
  then show ?case by (auto dest: size_list_estimation' [of x xs "size x" size])
next
  case (3 fmt kvs kv)
  then have "kv \<in> set kvs" by simp
  then have "size (snd kv) \<le> size_list (size_prod (\<lambda>x. 0) size) kvs"
    by (rule size_list_estimation') (simp add: size_prod_simp)
  then show ?case by simp
qed auto

end
