(* ===== verification/Clock.thy ===== *)
theory Clock
  imports Py_Json
begin

text \<open>
  The receipt clocks of \<^verbatim>\<open>forecasting/clock.py\<close>. The wall clock is the environment: each reading of
  \<open>ReceiptClock\<close> takes the value its source returned. The interface \<open>receipt_clock\<close> is what the journal
  relies on (times it commits never decrease); both clocks of the module provide it.
\<close>

section \<open>The two clocks\<close>

datatype clock_error = ClockError

text \<open>\<open>ReceiptClock\<close>: the last time handed out, if any.\<close>

type_synonym receipt_clock_state = "int option"

definition bad_time :: "json \<Rightarrow> bool" where
  "bad_time v \<longleftrightarrow> \<not> is_int v \<or> the_int v < 0"

definition receipt_now_ms :: "json \<Rightarrow> receipt_clock_state \<Rightarrow> clock_error + (int \<times> receipt_clock_state)" where
  "receipt_now_ms v last_ms =
     (if bad_time v then Inl ClockError
      else let t = (case last_ms of None \<Rightarrow> the_int v | Some l \<Rightarrow> max l (the_int v)) in Inr (t, Some t))"

definition manual_clock_new :: "json \<Rightarrow> clock_error + int" where
  "manual_clock_new start = (if bad_time start then Inl ClockError else Inr (the_int start))"

definition manual_set :: "json \<Rightarrow> int \<Rightarrow> clock_error + int" where
  "manual_set ms now = (if \<not> is_int ms \<or> the_int ms < now then Inl ClockError else Inr (the_int ms))"

definition manual_advance :: "int \<Rightarrow> int \<Rightarrow> clock_error + int" where
  "manual_advance ms now = manual_set (JInt (now + ms)) now"

section \<open>Monotone time as an interface\<close>

text \<open>
  A clock as its user sees it: \<open>tick e s\<close> is the state after the environment event \<open>e\<close> (\<open>None\<close> when the
  call raised and the state stayed as it was), \<open>time s\<close> the time it then reports.
\<close>

locale monotone_clock =
  fixes tick :: "'e \<Rightarrow> 's \<Rightarrow> 's option"
    and time :: "'s \<Rightarrow> int"
  assumes tick_forward: "tick e s = Some s' \<Longrightarrow> time s \<le> time s'"
begin

fun run :: "'e list \<Rightarrow> 's \<Rightarrow> 's list" where
  "run [] s = []"
| "run (e # es) s = (case tick e s of None \<Rightarrow> run es s | Some s' \<Rightarrow> s' # run es s')"

lemma run_lower: "s' \<in> set (run es s) \<Longrightarrow> time s \<le> time s'"
proof (induction es arbitrary: s)
  case (Cons e es)
  show ?case
  proof (cases "tick e s")
    case None
    with Cons show ?thesis by simp
  next
    case (Some u)
    have "time s \<le> time u" using Some by (rule tick_forward)
    with Cons Some show ?thesis by fastforce
  qed
qed simp

lemma run_sorted: "sorted (map time (run es s))"
  by (induction es arbitrary: s) (auto split: option.splits dest: run_lower)

end

definition receipt_tick :: "json \<Rightarrow> receipt_clock_state \<Rightarrow> receipt_clock_state option" where
  "receipt_tick v s = (case receipt_now_ms v s of Inl _ \<Rightarrow> None | Inr (_, s') \<Rightarrow> Some s')"

definition receipt_time :: "receipt_clock_state \<Rightarrow> int" where
  "receipt_time s = (case s of None \<Rightarrow> 0 | Some t \<Rightarrow> t)"

definition manual_tick :: "json \<Rightarrow> int \<Rightarrow> int option" where
  "manual_tick v s = (case manual_set v s of Inl _ \<Rightarrow> None | Inr s' \<Rightarrow> Some s')"

interpretation rc: monotone_clock receipt_tick receipt_time
  by unfold_locales
    (auto simp: receipt_tick_def receipt_now_ms_def receipt_time_def bad_time_def Let_def
      split: if_splits option.splits)

interpretation mc: monotone_clock manual_tick "\<lambda>t. t"
  by unfold_locales (auto simp: manual_tick_def manual_set_def split: if_splits)

section \<open>Every time handed out\<close>

text \<open>The times \<open>now_ms()\<close> returned for a list of source readings (readings that raise return none).\<close>

fun receipt_times :: "json list \<Rightarrow> receipt_clock_state \<Rightarrow> int list" where
  "receipt_times [] s = []"
| "receipt_times (v # vs) s =
     (case receipt_now_ms v s of Inl _ \<Rightarrow> receipt_times vs s | Inr (t, s') \<Rightarrow> t # receipt_times vs s')"

lemma receipt_times_run: "receipt_times vs s = map receipt_time (rc.run vs s)"
  by (induction vs arbitrary: s)
    (auto simp: receipt_tick_def receipt_now_ms_def receipt_time_def Let_def split: sum.splits)

section \<open>Properties\<close>

text \<open>Whatever the wall clock reads (steps back, garbage), the times the receipt clock hands out never decrease, none is
  before the time the clock already stood at, and a reading that is not a non-negative integer hands out nothing.\<close>

theorem receipt_clock_never_goes_back:
  "sorted (receipt_times vs s) \<and> (\<forall>t \<in> set (receipt_times vs s). receipt_time s \<le> t) \<and>
   length (receipt_times vs s) = length (filter (\<lambda>v. \<not> bad_time v) vs)"
proof -
  have "length (receipt_times vs s) = length (filter (\<lambda>v. \<not> bad_time v) vs)"
    by (induction vs arbitrary: s) (auto simp: receipt_now_ms_def Let_def split: if_splits)
  moreover have "\<forall>t \<in> set (receipt_times vs s). receipt_time s \<le> t"
    using rc.run_lower by (auto simp: receipt_times_run)
  ultimately show ?thesis using rc.run_sorted by (auto simp: receipt_times_run)
qed

theorem receipt_clock_never_goes_back_witness:
  "receipt_times [JInt 5, JInt 3, JStr ''x'', JInt 9] (Some 4) = [5, 5, 9] \<and> sorted (receipt_times [JInt 5, JInt 3, JStr ''x'', JInt 9] (Some 4))"
  using receipt_clock_never_goes_back [of "[JInt 5, JInt 3, JStr ''x'', JInt 9]" "Some 4"]
  by (simp add: receipt_now_ms_def bad_time_def)

end
