(* ===== verification/Contracts_Settings.thy ===== *)
theory Contracts_Settings
  imports Py_Json
begin

text \<open>
  The settings half of \<^verbatim>\<open>forecasting/contracts.py\<close>: the settings dataclasses, \<open>resolve_settings\<close> on a live
  autoscaler object, its cross-field checks, and the settings fingerprint. Every refusal of the code is a
  value of \<open>contract_error\<close>; the text of the message is replaced by a name for the \<open>raise\<close>.
\<close>

section \<open>Constants\<close>

definition ALLOWED_INTERVALS :: "int list" where
  "ALLOWED_INTERVALS = [60, 120, 180, 240, 300, 360, 480, 600]"

definition LEGACY_LSTM_INTERVAL :: int where "LEGACY_LSTM_INTERVAL = 600"
definition MAX_HORIZON_SECONDS :: int where "MAX_HORIZON_SECONDS = 3600"
definition MAX_STEPS :: int where "MAX_STEPS = 60"
definition MAX_HISTORY_DAYS :: int where "MAX_HISTORY_DAYS = 28"
definition BPS :: int where "BPS = 10000"

definition ENGINES :: "string list" where "ENGINES = [''statistical'', ''legacyLstm'']"
definition SEASONALITIES :: "string list" where "SEASONALITIES = [''daily'']"

lemmas contract_consts = LEGACY_LSTM_INTERVAL_def MAX_HORIZON_SECONDS_def MAX_STEPS_def
  MAX_HISTORY_DAYS_def BPS_def

section \<open>Refusals\<close>

datatype contract_error =
    NotAnObject string                     \<comment> \<open>a nested value is not an object\<close>
  | UnknownSettings string "string list"   \<comment> \<open>group and the unknown keys\<close>
  | OutOfRange string string               \<comment> \<open>group and key of an integer setting\<close>
  | Refused string                         \<comment> \<open>every other \<open>raise ContractRefused\<close>, by name\<close>
  | IntTooLargeForFloat                    \<comment> \<open>\<open>math.isfinite\<close> of an integer beyond the float range\<close>
  | PyTypeError                            \<comment> \<open>a regular expression applied to a value that is not a string\<close>
  | PyIndexError                           \<comment> \<open>the first element of an empty list\<close>
  | PyTimeOutOfRange                       \<comment> \<open>\<open>datetime.fromtimestamp\<close> outside the years 1 to 9999\<close>

section \<open>The settings dataclasses\<close>

record risk_settings =
  miscoverage_bps :: int

record calibration_settings =
  cs_min_windows :: int
  cs_max_scores :: int
  cs_retention_days :: int
  cs_eta_bps :: int
  cs_min_miscoverage_bps :: int
  cs_max_miscoverage_bps :: int

record trust_settings =
  min_shadow_hours :: int
  min_prospective_windows :: int
  coverage_tolerance_bps :: int
  worst_day_min_outcomes :: int
  min_availability_bps :: int
  acute_consecutive_misses :: int
  acute_recent_windows :: int
  repromotion_hours :: int
  repromotion_windows :: int
  challenger_min_pairs :: int
  challenger_min_hours :: int
  challenger_loss_ratio_bps :: int
  challenger_exit_loss_ratio_bps :: int
  challenger_cost_ratio_bps :: int
  max_fit_age_hours :: int

record predictive_extra_settings =
  max_replicas :: int
  max_percent :: int

record forecast_settings =
  engine :: string
  sample_interval_seconds :: int
  seasonality :: string
  history_days :: int
  horizon_seconds :: int
  settlement_seconds :: int
  outcome_grace_seconds :: int
  risk :: risk_settings
  calibration :: calibration_settings
  trust :: trust_settings
  predictive_extra :: predictive_extra_settings

definition default_settings :: forecast_settings where
  "default_settings =
     \<lparr> engine = ''statistical'', sample_interval_seconds = 300, seasonality = ''daily'', history_days = 14,
       horizon_seconds = 3600, settlement_seconds = 120, outcome_grace_seconds = 600,
       risk = \<lparr> miscoverage_bps = 1000 \<rparr>,
       calibration = \<lparr> cs_min_windows = 128, cs_max_scores = 512, cs_retention_days = 7, cs_eta_bps = 50,
                       cs_min_miscoverage_bps = 100, cs_max_miscoverage_bps = 2500 \<rparr>,
       trust = \<lparr> min_shadow_hours = 48, min_prospective_windows = 64, coverage_tolerance_bps = 500,
                 worst_day_min_outcomes = 24, min_availability_bps = 9500, acute_consecutive_misses = 5,
                 acute_recent_windows = 32, repromotion_hours = 24, repromotion_windows = 32,
                 challenger_min_pairs = 64, challenger_min_hours = 48, challenger_loss_ratio_bps = 9500,
                 challenger_exit_loss_ratio_bps = 10000, challenger_cost_ratio_bps = 10200,
                 max_fit_age_hours = 12 \<rparr>,
       predictive_extra = \<lparr> max_replicas = 2, max_percent = 50 \<rparr> \<rparr>"

definition freshness_seconds :: "forecast_settings \<Rightarrow> int" where
  "freshness_seconds s = settlement_seconds s + 2 * sample_interval_seconds s"

definition steps :: "forecast_settings \<Rightarrow> int" where
  "steps s = horizon_seconds s div sample_interval_seconds s"

section \<open>Integer groups\<close>

text \<open>One row per setting: key, inclusive lower and upper bound. The attribute a key sets is the field
  the constructor below reads under that key.\<close>

type_synonym group_spec = "(string \<times> int \<times> int) list"

definition RISK_SPEC :: group_spec where
  "RISK_SPEC = [(''miscoverageBps'', 100, 2500)]"

definition CALIBRATION_SPEC :: group_spec where
  "CALIBRATION_SPEC = [(''minWindows'', 16, 4096), (''maxScores'', 16, 4096), (''retentionDays'', 1, 28),
     (''etaBps'', 1, 1000), (''minMiscoverageBps'', 1, 5000), (''maxMiscoverageBps'', 1, 5000)]"

definition TRUST_SPEC :: group_spec where
  "TRUST_SPEC = [(''minShadowHours'', 1, 24 * 28), (''minProspectiveWindows'', 1, 4096),
     (''coverageToleranceBps'', 0, 2500), (''worstDayMinOutcomes'', 1, 1440),
     (''minAvailabilityBps'', 0, BPS), (''acuteConsecutiveMisses'', 1, 1000),
     (''acuteRecentWindows'', 1, 4096), (''repromotionHours'', 0, 24 * 28),
     (''repromotionWindows'', 1, 4096), (''challengerMinPairs'', 1, 4096),
     (''challengerMinHours'', 1, 24 * 28), (''challengerLossRatioBps'', 1, BPS),
     (''challengerExitLossRatioBps'', 1, 2 * BPS), (''challengerCostRatioBps'', BPS, 2 * BPS),
     (''maxFitAgeHours'', 1, 24)]"

definition EXTRA_SPEC :: group_spec where
  "EXTRA_SPEC = [(''maxReplicas'', 0, 1000), (''maxPercent'', 0, 1000)]"

definition TOP_KEYS :: "string list" where
  "TOP_KEYS = [''engine'', ''sampleIntervalSeconds'', ''seasonality'', ''historyDays'', ''settlementSeconds'',
     ''outcomeGraceSeconds'', ''risk'', ''calibration'', ''trust'', ''predictiveExtra'']"

definition LEGACY_PREDICTION_KEYS :: "string list" where
  "LEGACY_PREDICTION_KEYS = [''enabled'', ''horizonMinutes'', ''leadTimeMinutes'', ''updateIntervalSeconds'']"

definition object_of :: "obj \<Rightarrow> string \<Rightarrow> string \<Rightarrow> contract_error + obj" where
  "object_of parent key wh =
     (case dict_get parent key of
        None \<Rightarrow> Inr []
      | Some JNull \<Rightarrow> Inr []
      | Some (JObj kvs) \<Rightarrow> Inr kvs
      | Some _ \<Rightarrow> Inl (NotAnObject (wh @ ''.'' @ key)))"

fun group_values :: "obj \<Rightarrow> group_spec \<Rightarrow> string \<Rightarrow> contract_error + (string \<times> int) list" where
  "group_values ob [] wh = Inr []"
| "group_values ob ((key, lo, hi) # spec) wh =
     (case dict_get ob key of
        None \<Rightarrow> group_values ob spec wh
      | Some v \<Rightarrow>
          if \<not> is_int v \<or> \<not> (lo \<le> the_int v \<and> the_int v \<le> hi) then Inl (OutOfRange wh key)
          else bind_res (group_values ob spec wh) (\<lambda>vs. Inr ((key, the_int v) # vs)))"

definition unknown_keys :: "obj \<Rightarrow> string list \<Rightarrow> string list" where
  "unknown_keys ob known = sort (filter (\<lambda>k. k \<notin> set known) (map fst ob))"

definition int_group :: "obj \<Rightarrow> group_spec \<Rightarrow> string \<Rightarrow> contract_error + (string \<times> int) list" where
  "int_group ob spec wh =
     (let unknown = unknown_keys ob (map fst spec)
      in if unknown \<noteq> [] then Inl (UnknownSettings wh unknown) else group_values ob spec wh)"

text \<open>\<open>cls(**values)\<close>: the given values over the dataclass defaults.\<close>

definition val_or :: "(string \<times> int) list \<Rightarrow> string \<Rightarrow> int \<Rightarrow> int" where
  "val_or vs key d = (case dict_get vs key of None \<Rightarrow> d | Some v \<Rightarrow> v)"

definition make_risk :: "(string \<times> int) list \<Rightarrow> risk_settings" where
  "make_risk vs = \<lparr> miscoverage_bps = val_or vs ''miscoverageBps'' 1000 \<rparr>"

definition make_calibration :: "(string \<times> int) list \<Rightarrow> calibration_settings" where
  "make_calibration vs =
     \<lparr> cs_min_windows = val_or vs ''minWindows'' 128, cs_max_scores = val_or vs ''maxScores'' 512,
       cs_retention_days = val_or vs ''retentionDays'' 7, cs_eta_bps = val_or vs ''etaBps'' 50,
       cs_min_miscoverage_bps = val_or vs ''minMiscoverageBps'' 100,
       cs_max_miscoverage_bps = val_or vs ''maxMiscoverageBps'' 2500 \<rparr>"

definition make_trust :: "(string \<times> int) list \<Rightarrow> trust_settings" where
  "make_trust vs =
     \<lparr> min_shadow_hours = val_or vs ''minShadowHours'' 48,
       min_prospective_windows = val_or vs ''minProspectiveWindows'' 64,
       coverage_tolerance_bps = val_or vs ''coverageToleranceBps'' 500,
       worst_day_min_outcomes = val_or vs ''worstDayMinOutcomes'' 24,
       min_availability_bps = val_or vs ''minAvailabilityBps'' 9500,
       acute_consecutive_misses = val_or vs ''acuteConsecutiveMisses'' 5,
       acute_recent_windows = val_or vs ''acuteRecentWindows'' 32,
       repromotion_hours = val_or vs ''repromotionHours'' 24,
       repromotion_windows = val_or vs ''repromotionWindows'' 32,
       challenger_min_pairs = val_or vs ''challengerMinPairs'' 64,
       challenger_min_hours = val_or vs ''challengerMinHours'' 48,
       challenger_loss_ratio_bps = val_or vs ''challengerLossRatioBps'' 9500,
       challenger_exit_loss_ratio_bps = val_or vs ''challengerExitLossRatioBps'' 10000,
       challenger_cost_ratio_bps = val_or vs ''challengerCostRatioBps'' 10200,
       max_fit_age_hours = val_or vs ''maxFitAgeHours'' 12 \<rparr>"

definition make_extra :: "(string \<times> int) list \<Rightarrow> predictive_extra_settings" where
  "make_extra vs = \<lparr> max_replicas = val_or vs ''maxReplicas'' 2, max_percent = val_or vs ''maxPercent'' 50 \<rparr>"

section \<open>Cross-field checks\<close>

text \<open>\<open>_rank\<close>: k = ceil((n+1)(1-a)) in exact integer arithmetic.\<close>

definition rank_bps :: "int \<Rightarrow> int \<Rightarrow> int" where
  "rank_bps n miscov = - ((- (n + 1) * (BPS - miscov)) div BPS)"

definition check_feasible :: "forecast_settings \<Rightarrow> contract_error + unit" where
  "check_feasible s =
     (let c = calibration s; t = trust s; nominal = miscoverage_bps (risk s) in
      if \<not> (cs_min_miscoverage_bps c \<le> nominal \<and> nominal \<le> cs_max_miscoverage_bps c) then Inl (Refused ''NominalOutsideBounds'')
      else if cs_max_miscoverage_bps c \<le> cs_min_miscoverage_bps c then Inl (Refused ''BoundsNotOrdered'')
      else if cs_max_scores c < cs_min_windows c then Inl (Refused ''BufferTooSmall'')
      else if rank_bps (cs_min_windows c) (cs_min_miscoverage_bps c) > cs_min_windows c then Inl (Refused ''RankInfeasible'')
      else if (cs_retention_days c * 86400) div horizon_seconds s < cs_min_windows c then Inl (Refused ''RetentionTooShort'')
      else if acute_recent_windows t > cs_max_scores c \<or> min_prospective_windows t > cs_max_scores c
        then Inl (Refused ''TrustCountsExceedBuffer'')
      else if challenger_exit_loss_ratio_bps t < challenger_loss_ratio_bps t then Inl (Refused ''ExitBelowEntry'')
      else if min_shadow_hours t > cs_retention_days c * 24 then Inl (Refused ''ShadowExceedsRetention'')
      else Inr ())"

section \<open>resolve_settings\<close>

definition get_default :: "obj \<Rightarrow> string \<Rightarrow> json \<Rightarrow> json" where
  "get_default ob key d = (case dict_get ob key of None \<Rightarrow> d | Some v \<Rightarrow> v)"

text \<open>The four nested groups, in the order the code reads them.\<close>

definition resolve_groups ::
  "obj \<Rightarrow> contract_error + (risk_settings \<times> calibration_settings \<times> trust_settings \<times> predictive_extra_settings)" where
  "resolve_groups pred =
     bind_res (object_of pred ''risk'' ''spec.prediction'') (\<lambda>r.
     bind_res (int_group r RISK_SPEC ''spec.prediction.risk'') (\<lambda>rv.
     bind_res (object_of pred ''calibration'' ''spec.prediction'') (\<lambda>c.
     bind_res (int_group c CALIBRATION_SPEC ''spec.prediction.calibration'') (\<lambda>cv.
     bind_res (object_of pred ''trust'' ''spec.prediction'') (\<lambda>t.
     bind_res (int_group t TRUST_SPEC ''spec.prediction.trust'') (\<lambda>tv.
     bind_res (object_of pred ''predictiveExtra'' ''spec.prediction'') (\<lambda>e.
     bind_res (int_group e EXTRA_SPEC ''spec.prediction.predictiveExtra'') (\<lambda>ev.
       Inr (make_risk rv, make_calibration cv, make_trust tv, make_extra ev)))))))))"

definition resolve_prediction :: "obj \<Rightarrow> contract_error + forecast_settings" where
  "resolve_prediction pred =
     (let d = default_settings;
          unknown = unknown_keys pred (TOP_KEYS @ LEGACY_PREDICTION_KEYS);
          eng = get_default pred ''engine'' (JStr (engine d));
          season = get_default pred ''seasonality'' (JStr (seasonality d));
          interval = get_default pred ''sampleIntervalSeconds'' (JInt (sample_interval_seconds d));
          horizon_min = get_default pred ''horizonMinutes'' (JInt (horizon_seconds d div 60));
          hist = get_default pred ''historyDays'' (JInt (history_days d));
          settle = get_default pred ''settlementSeconds'' (JInt (settlement_seconds d));
          grace = get_default pred ''outcomeGraceSeconds'' (JInt (outcome_grace_seconds d));
          dt = the_int interval;
          horizon = the_int horizon_min * 60 in
      if unknown \<noteq> [] then Inl (UnknownSettings ''spec.prediction'' unknown)
      else if get_default pred ''enabled'' (JBool True) \<noteq> JBool True then Inl (Refused ''ForecastingDisabled'')
      else if eng \<notin> JStr ` set ENGINES then Inl (Refused ''BadEngine'')
      else if season \<notin> JStr ` set SEASONALITIES then Inl (Refused ''BadSeasonality'')
      else if \<not> is_int interval \<or> dt \<notin> set ALLOWED_INTERVALS then Inl (Refused ''BadInterval'')
      else if eng = JStr ''legacyLstm'' \<and> dt \<noteq> LEGACY_LSTM_INTERVAL then Inl (Refused ''LegacyGrid'')
      else if \<not> is_int horizon_min \<or> the_int horizon_min \<le> 0 then Inl (Refused ''BadHorizonMinutes'')
      else if horizon > MAX_HORIZON_SECONDS \<or> horizon mod dt \<noteq> 0 \<or> horizon div dt > MAX_STEPS then Inl (Refused ''BadHorizon'')
      else if \<not> is_int hist \<or> \<not> (1 \<le> the_int hist \<and> the_int hist \<le> MAX_HISTORY_DAYS) then Inl (Refused ''BadHistoryDays'')
      else if \<not> is_int settle \<or> \<not> (0 \<le> the_int settle \<and> the_int settle \<le> 900) then Inl (Refused ''BadSettlement'')
      else if \<not> is_int grace \<or> \<not> (0 \<le> the_int grace \<and> the_int grace \<le> 3600) then Inl (Refused ''BadGrace'')
      else bind_res (resolve_groups pred) (\<lambda>(r, c, t, e).
        let s = \<lparr> engine = the_str eng, sample_interval_seconds = dt, seasonality = the_str season,
                  history_days = the_int hist, horizon_seconds = horizon, settlement_seconds = the_int settle,
                  outcome_grace_seconds = the_int grace, risk = r, calibration = c, trust = t,
                  predictive_extra = e \<rparr>
        in bind_res (check_feasible s) (\<lambda>_. Inr s)))"

definition resolve_settings :: "json \<Rightarrow> contract_error + forecast_settings" where
  "resolve_settings pa =
     (case pa of
        JObj kvs \<Rightarrow> bind_res (object_of kvs ''spec'' []) (\<lambda>spec.
                     bind_res (object_of spec ''prediction'' ''spec'') resolve_prediction)
      | _ \<Rightarrow> Inl (Refused ''AutoscalerNotObject''))"

section \<open>What a resolved setting satisfies\<close>

definition risk_ok :: "risk_settings \<Rightarrow> bool" where
  "risk_ok r \<longleftrightarrow> 100 \<le> miscoverage_bps r \<and> miscoverage_bps r \<le> 2500"

definition calibration_ok :: "calibration_settings \<Rightarrow> bool" where
  "calibration_ok c \<longleftrightarrow>
     16 \<le> cs_min_windows c \<and> cs_min_windows c \<le> 4096 \<and> 16 \<le> cs_max_scores c \<and> cs_max_scores c \<le> 4096 \<and>
     1 \<le> cs_retention_days c \<and> cs_retention_days c \<le> 28 \<and> 1 \<le> cs_eta_bps c \<and> cs_eta_bps c \<le> 1000 \<and>
     1 \<le> cs_min_miscoverage_bps c \<and> cs_min_miscoverage_bps c \<le> 5000 \<and>
     1 \<le> cs_max_miscoverage_bps c \<and> cs_max_miscoverage_bps c \<le> 5000"

definition trust_ok :: "trust_settings \<Rightarrow> bool" where
  "trust_ok t \<longleftrightarrow>
     1 \<le> min_shadow_hours t \<and> min_shadow_hours t \<le> 672 \<and> 1 \<le> min_prospective_windows t \<and>
     0 \<le> coverage_tolerance_bps t \<and> coverage_tolerance_bps t \<le> 2500 \<and> 1 \<le> worst_day_min_outcomes t \<and>
     0 \<le> min_availability_bps t \<and> min_availability_bps t \<le> BPS \<and> 1 \<le> acute_consecutive_misses t \<and>
     1 \<le> acute_recent_windows t \<and> 0 \<le> repromotion_hours t \<and> 1 \<le> repromotion_windows t \<and>
     1 \<le> challenger_min_pairs t \<and> 1 \<le> challenger_min_hours t \<and> 1 \<le> challenger_loss_ratio_bps t \<and>
     challenger_loss_ratio_bps t \<le> challenger_exit_loss_ratio_bps t \<and>
     challenger_exit_loss_ratio_bps t \<le> 2 * BPS \<and> BPS \<le> challenger_cost_ratio_bps t \<and>
     1 \<le> max_fit_age_hours t \<and> max_fit_age_hours t \<le> 24"

definition grid_ok :: "forecast_settings \<Rightarrow> bool" where
  "grid_ok s \<longleftrightarrow>
     sample_interval_seconds s \<in> set ALLOWED_INTERVALS \<and> sample_interval_seconds s dvd 86400 \<and>
     sample_interval_seconds s dvd horizon_seconds s \<and> sample_interval_seconds s \<le> horizon_seconds s \<and>
     horizon_seconds s \<le> 3600 \<and> 1 \<le> steps s \<and> steps s \<le> 60 \<and>
     1 \<le> history_days s \<and> history_days s \<le> 28 \<and> 0 \<le> settlement_seconds s \<and> settlement_seconds s \<le> 900 \<and>
     0 \<le> outcome_grace_seconds s \<and> outcome_grace_seconds s \<le> 3600 \<and>
     engine s \<in> set ENGINES \<and> seasonality s \<in> set SEASONALITIES \<and>
     (engine s = ''legacyLstm'' \<longrightarrow> sample_interval_seconds s = 600)"

definition feasible :: "forecast_settings \<Rightarrow> bool" where
  "feasible s \<longleftrightarrow>
     (let c = calibration s; t = trust s in
      cs_min_miscoverage_bps c \<le> miscoverage_bps (risk s) \<and>
      miscoverage_bps (risk s) \<le> cs_max_miscoverage_bps c \<and>
      cs_min_miscoverage_bps c < cs_max_miscoverage_bps c \<and> cs_min_windows c \<le> cs_max_scores c \<and>
      rank_bps (cs_min_windows c) (cs_min_miscoverage_bps c) \<le> cs_min_windows c \<and>
      cs_min_windows c * horizon_seconds s \<le> cs_retention_days c * 86400 \<and>
      acute_recent_windows t \<le> cs_max_scores c \<and> min_prospective_windows t \<le> cs_max_scores c \<and>
      min_shadow_hours t \<le> cs_retention_days c * 24)"

definition settings_ok :: "forecast_settings \<Rightarrow> bool" where
  "settings_ok s \<longleftrightarrow>
     grid_ok s \<and> risk_ok (risk s) \<and> calibration_ok (calibration s) \<and> trust_ok (trust s) \<and> feasible s"

lemma group_values_range:
  "group_values ob spec wh = Inr vs \<Longrightarrow> (key, v) \<in> set vs \<Longrightarrow>
   \<exists>lo hi. (key, lo, hi) \<in> set spec \<and> lo \<le> v \<and> v \<le> hi"
proof (induction ob spec wh arbitrary: vs rule: group_values.induct)
  case (2 ob k lo hi spec wh)
  show ?case
  proof (cases "dict_get ob k")
    case None
    with 2 show ?thesis by fastforce
  next
    case (Some u)
    with "2.prems"(1) obtain ws where u: "lo \<le> the_int u" "the_int u \<le> hi"
      and ws: "group_values ob spec wh = Inr ws" and vs: "vs = (k, the_int u) # ws"
      by (auto simp: bind_res_Inr_iff split: if_splits)
    from "2.prems"(2) vs consider "key = k" "v = the_int u" | "(key, v) \<in> set ws" by auto
    then show ?thesis
    proof cases
      case 1
      with u show ?thesis by auto
    next
      case 2
      with "2.IH"(2) [OF Some _ ws] u Some "2.prems"(1) show ?thesis by (fastforce split: if_splits)
    qed
  qed
qed simp

lemma int_group_range:
  assumes "int_group ob spec wh = Inr vs" and "distinct (map fst spec)" and "(key, lo, hi) \<in> set spec"
    and "lo \<le> d" and "d \<le> hi"
  shows "lo \<le> val_or vs key d \<and> val_or vs key d \<le> hi"
proof (cases "dict_get vs key")
  case (Some v)
  from assms(1) have "group_values ob spec wh = Inr vs" by (auto simp: int_group_def Let_def split: if_splits)
  from group_values_range [OF this map_of_SomeD [OF Some]] obtain lo' hi'
    where "(key, lo', hi') \<in> set spec" and v: "lo' \<le> v" "v \<le> hi'" by auto
  with assms(2,3) have "(lo', hi') = (lo, hi)" by (metis map_of_is_SomeI option.inject)
  with v Some show ?thesis by (simp add: val_or_def)
qed (use assms in \<open>simp add: val_or_def\<close>)

lemma make_risk_ok: "int_group ob RISK_SPEC wh = Inr vs \<Longrightarrow> risk_ok (make_risk vs)"
  using int_group_range [of ob RISK_SPEC wh vs "''miscoverageBps''" 100 2500 1000]
  by (simp add: risk_ok_def make_risk_def RISK_SPEC_def)

lemma make_calibration_ok:
  assumes "int_group ob CALIBRATION_SPEC wh = Inr vs"
  shows "calibration_ok (make_calibration vs)"
proof -
  note range = int_group_range [OF assms]
  have "distinct (map fst CALIBRATION_SPEC)" by (simp add: CALIBRATION_SPEC_def)
  note range = range [OF this]
  show ?thesis
    using range [of "''minWindows''" 16 4096 128] range [of "''maxScores''" 16 4096 512]
      range [of "''retentionDays''" 1 28 7] range [of "''etaBps''" 1 1000 50]
      range [of "''minMiscoverageBps''" 1 5000 100] range [of "''maxMiscoverageBps''" 1 5000 2500]
    by (simp add: calibration_ok_def make_calibration_def CALIBRATION_SPEC_def)
qed

lemma make_trust_ok:
  assumes "int_group ob TRUST_SPEC wh = Inr vs"
    and "challenger_loss_ratio_bps (make_trust vs) \<le> challenger_exit_loss_ratio_bps (make_trust vs)"
  shows "trust_ok (make_trust vs)"
proof -
  note range = int_group_range [OF assms(1)]
  have "distinct (map fst TRUST_SPEC)" by (simp add: TRUST_SPEC_def)
  note range = range [OF this]
  have "1 \<le> val_or vs ''minShadowHours'' 48 \<and> val_or vs ''minShadowHours'' 48 \<le> 672"
    and "0 \<le> val_or vs ''repromotionHours'' 24 \<and> val_or vs ''repromotionHours'' 24 \<le> 672"
    and "1 \<le> val_or vs ''challengerMinHours'' 48 \<and> val_or vs ''challengerMinHours'' 48 \<le> 672"
    and "1 \<le> val_or vs ''minProspectiveWindows'' 64 \<and> val_or vs ''minProspectiveWindows'' 64 \<le> 4096"
    and "0 \<le> val_or vs ''coverageToleranceBps'' 500 \<and> val_or vs ''coverageToleranceBps'' 500 \<le> 2500"
    and "1 \<le> val_or vs ''worstDayMinOutcomes'' 24 \<and> val_or vs ''worstDayMinOutcomes'' 24 \<le> 1440"
    and "0 \<le> val_or vs ''minAvailabilityBps'' 9500 \<and> val_or vs ''minAvailabilityBps'' 9500 \<le> BPS"
    and "1 \<le> val_or vs ''acuteConsecutiveMisses'' 5 \<and> val_or vs ''acuteConsecutiveMisses'' 5 \<le> 1000"
    and "1 \<le> val_or vs ''acuteRecentWindows'' 32 \<and> val_or vs ''acuteRecentWindows'' 32 \<le> 4096"
    and "1 \<le> val_or vs ''repromotionWindows'' 32 \<and> val_or vs ''repromotionWindows'' 32 \<le> 4096"
    and "1 \<le> val_or vs ''challengerMinPairs'' 64 \<and> val_or vs ''challengerMinPairs'' 64 \<le> 4096"
    and "1 \<le> val_or vs ''challengerLossRatioBps'' 9500 \<and> val_or vs ''challengerLossRatioBps'' 9500 \<le> BPS"
    and "1 \<le> val_or vs ''challengerExitLossRatioBps'' 10000 \<and> val_or vs ''challengerExitLossRatioBps'' 10000 \<le> 2 * BPS"
    and "BPS \<le> val_or vs ''challengerCostRatioBps'' 10200 \<and> val_or vs ''challengerCostRatioBps'' 10200 \<le> 2 * BPS"
    and "1 \<le> val_or vs ''maxFitAgeHours'' 12 \<and> val_or vs ''maxFitAgeHours'' 12 \<le> 24"
    by (rule range; simp add: TRUST_SPEC_def BPS_def)+
  with assms(2) show ?thesis by (simp add: trust_ok_def make_trust_def)
qed

lemma check_feasible_feasible:
  assumes "check_feasible s = Inr ()" and "0 < horizon_seconds s"
  shows "feasible s" and "challenger_loss_ratio_bps (trust s) \<le> challenger_exit_loss_ratio_bps (trust s)"
proof -
  have "cs_min_windows (calibration s) \<le> (cs_retention_days (calibration s) * 86400) div horizon_seconds s"
    using assms(1) by (simp add: check_feasible_def Let_def not_le not_less split: if_splits)
  then have "cs_min_windows (calibration s) * horizon_seconds s
      \<le> (cs_retention_days (calibration s) * 86400) div horizon_seconds s * horizon_seconds s"
    using assms(2) by (simp add: mult_right_mono)
  also have "\<dots> \<le> cs_retention_days (calibration s) * 86400"
    using assms(2) by (metis div_mult_mod_eq le_add_same_cancel1 pos_mod_sign)
  finally show "feasible s"
    using assms(1) by (simp add: feasible_def check_feasible_def Let_def split: if_splits)
  show "challenger_loss_ratio_bps (trust s) \<le> challenger_exit_loss_ratio_bps (trust s)"
    using assms(1) by (simp add: check_feasible_def Let_def split: if_splits)
qed

lemma allowed_interval:
  "dt \<in> set ALLOWED_INTERVALS \<Longrightarrow> 60 \<le> dt \<and> dt \<le> 600 \<and> dt dvd 86400"
  by (auto simp: ALLOWED_INTERVALS_def)

lemma resolve_groups_ok:
  assumes "resolve_groups pred = Inr (r, c, t, e)"
    and "challenger_loss_ratio_bps t \<le> challenger_exit_loss_ratio_bps t"
  shows "risk_ok r \<and> calibration_ok c \<and> trust_ok t"
  using assms unfolding resolve_groups_def
  by (auto simp: bind_res_Inr_iff intro: make_risk_ok make_calibration_ok make_trust_ok)

lemma resolve_prediction_Inr:
  assumes "resolve_prediction pred = Inr s"
  obtains hm where
    "sample_interval_seconds s \<in> set ALLOWED_INTERVALS" and "horizon_seconds s = hm * 60" and "0 < hm"
    and "hm * 60 \<le> 3600" and "hm * 60 mod sample_interval_seconds s = 0"
    and "hm * 60 div sample_interval_seconds s \<le> 60"
    and "engine s \<in> set ENGINES" and "seasonality s \<in> set SEASONALITIES"
    and "engine s = ''legacyLstm'' \<longrightarrow> sample_interval_seconds s = 600"
    and "1 \<le> history_days s" and "history_days s \<le> 28"
    and "0 \<le> settlement_seconds s" and "settlement_seconds s \<le> 900"
    and "0 \<le> outcome_grace_seconds s" and "outcome_grace_seconds s \<le> 3600"
    and "resolve_groups pred = Inr (risk s, calibration s, trust s, predictive_extra s)"
    and "check_feasible s = Inr ()"
proof -
  define hm where "hm = the_int (get_default pred ''horizonMinutes'' (JInt 60))"
  from assms show thesis
    unfolding resolve_prediction_def Let_def
    by (clarsimp simp: default_settings_def contract_consts bind_res_Inr_iff image_iff)
      (rule that [of hm]; force simp: hm_def)
qed

lemma resolve_prediction_ok:
  assumes "resolve_prediction pred = Inr s"
  shows "settings_ok s"
  using assms
proof (rule resolve_prediction_Inr)
  fix hm
  let ?dt = "sample_interval_seconds s"
  assume dt: "?dt \<in> set ALLOWED_INTERVALS" and h: "horizon_seconds s = hm * 60"
    and hm: "0 < hm" "hm * 60 \<le> 3600" "hm * 60 mod ?dt = 0" "hm * 60 div ?dt \<le> 60"
    and strs: "engine s \<in> set ENGINES" "seasonality s \<in> set SEASONALITIES"
      "engine s = ''legacyLstm'' \<longrightarrow> ?dt = 600"
    and days: "1 \<le> history_days s" "history_days s \<le> 28"
    and settle: "0 \<le> settlement_seconds s" "settlement_seconds s \<le> 900"
    and grace: "0 \<le> outcome_grace_seconds s" "outcome_grace_seconds s \<le> 3600"
    and groups: "resolve_groups pred = Inr (risk s, calibration s, trust s, predictive_extra s)"
    and feas: "check_feasible s = Inr ()"
  have dvd: "?dt dvd hm * 60" using hm(3) by (simp add: mod_eq_0_iff_dvd)
  have le: "?dt \<le> hm * 60" using dvd hm(1) by (simp add: zdvd_imp_le)
  then have "1 \<le> hm * 60 div ?dt"
    using allowed_interval [OF dt] by (simp add: pos_imp_zdiv_pos_iff int_one_le_iff_zero_less)
  with dvd le have "grid_ok s"
    using dt h hm strs days settle grace allowed_interval [OF dt] by (simp add: grid_ok_def steps_def)
  moreover have "0 < horizon_seconds s" using hm h by simp
  note checked = check_feasible_feasible [OF feas this]
  ultimately show "settings_ok s"
    using checked(1) resolve_groups_ok [OF groups checked(2)] by (simp add: settings_ok_def)
qed

lemma resolve_settings_ok: "resolve_settings pa = Inr s \<Longrightarrow> settings_ok s"
  by (auto simp: resolve_settings_def bind_res_Inr_iff split: json.splits intro: resolve_prediction_ok)

text \<open>An object with no settings at all resolves to the documented defaults.\<close>

lemma resolve_settings_empty: "resolve_settings (JObj []) = Inr default_settings"
  by code_simp

section \<open>Properties\<close>



end
