(* ===== verification/Contracts_Window.thy ===== *)
theory Contracts_Window
  imports Contracts_Settings
begin

text \<open>
  The window half of \<^verbatim>\<open>forecasting/contracts.py\<close>: the lead selection read from the autoscaler's status, the
  immutable forecast window, the evidence key, the bound request and the coherence check of a response
  (\<open>check_response\<close>). \<open>ResolvedSignal\<close> is \<^verbatim>\<open>api/identity.py\<close>'s. The hash \<open>sha\<close> is an argument of the
  definitions that use it: nothing here depends on which function it is.
\<close>

section \<open>Constants\<close>

definition FORECAST_CONTRACT :: string where "FORECAST_CONTRACT = ''window-max-rps/v1''"
definition SIGNAL_CONTRACT :: string where "SIGNAL_CONTRACT = ''requests-per-second/v1''"
definition EVIDENCE_SCHEMA :: string where "EVIDENCE_SCHEMA = ''forecast-evidence-key/v1''"
definition UNIT :: string where "UNIT = ''requests/second''"

definition PHASES :: "string list" where
  "PHASES = [''Collecting'', ''Calibrating'', ''Shadow'', ''Trusted'', ''Degraded'']"

definition REASONS :: "string list" where
  "REASONS = [''HistoryInsufficient'', ''CalibrationInsufficient'', ''ShadowInsufficient'', ''CoverageLow'',
     ''DataUnavailable'', ''IdentityMismatch'', ''StateUnavailable'', ''LeadInsufficient'', ''ReplayGateMissing'',
     ''Ready'']"

definition MODEL_FAMILIES :: "string list" where
  "MODEL_FAMILIES = [''seasonal_naive'', ''statistical'', ''lstm'']"

definition LEAD_METHODS :: "string list" where "LEAD_METHODS = [''configured'', ''measured'']"

text \<open>\<open>re.compile(r"^[0-9a-f]{64}$").match\<close>: Python's \<open>$\<close> also matches before one final line feed.\<close>

definition hex_digit :: "char \<Rightarrow> bool" where
  "hex_digit c \<longleftrightarrow> c \<in> set ''0123456789abcdef''"

definition sha256_match :: "string \<Rightarrow> bool" where
  "sha256_match s \<longleftrightarrow>
     list_all hex_digit (take 64 s) \<and> (length s = 64 \<or> (length s = 65 \<and> s ! 64 = CHR 0x0A))"

section \<open>Lead selection\<close>

record lead_selection =
  lead_seconds :: int
  startup_delay_seconds :: int
  actuation_allowance_seconds :: int
  lead_method :: string
  sample_count :: int
  observed_generation :: int

definition LEAD_KEYS :: "string list" where
  "LEAD_KEYS = [''seconds'', ''startupDelaySeconds'', ''actuationAllowanceSeconds'', ''method'', ''sampleCount'',
     ''observedGeneration'']"

definition automatic_lead_seconds :: "int \<Rightarrow> int \<Rightarrow> int \<Rightarrow> int \<Rightarrow> int" where
  "automatic_lead_seconds startup_delay decision_interval allowance interval =
     (let total = startup_delay + decision_interval + allowance + interval
      in - ((- total) div interval) * interval)"

datatype lead_problem =
    NoLead | LeadMalformed | LeadMethodUnknown | LeadNotIntegers | LeadOtherGeneration | LeadOffGrid | LeadNotCovering

text \<open>\<open>d.get(key)\<close> when \<open>d\<close> is a dictionary, else \<open>None\<close>.\<close>

fun get_obj :: "json \<Rightarrow> string \<Rightarrow> json" where
  "get_obj (JObj kvs) key = (case dict_get kvs key of None \<Rightarrow> JNull | Some v \<Rightarrow> v)"
| "get_obj _ key = JNull"

definition lead_of_values :: "obj \<Rightarrow> lead_selection" where
  "lead_of_values ob =
     \<lparr> lead_seconds = the_int (get_obj (JObj ob) ''seconds''),
       startup_delay_seconds = the_int (get_obj (JObj ob) ''startupDelaySeconds''),
       actuation_allowance_seconds = the_int (get_obj (JObj ob) ''actuationAllowanceSeconds''),
       lead_method = the_str (get_obj (JObj ob) ''method''),
       sample_count = the_int (get_obj (JObj ob) ''sampleCount''),
       observed_generation = the_int (get_obj (JObj ob) ''observedGeneration'') \<rparr>"

definition check_lead :: "lead_selection \<Rightarrow> forecast_settings \<Rightarrow> int \<Rightarrow> lead_problem + lead_selection" where
  "check_lead sel s generation =
     (let dt = sample_interval_seconds s in
      if observed_generation sel \<noteq> generation then Inl LeadOtherGeneration
      else if lead_seconds sel < dt \<or> lead_seconds sel mod dt \<noteq> 0 \<or> lead_seconds sel > horizon_seconds s
        then Inl LeadOffGrid
      else if lead_seconds sel < startup_delay_seconds sel + dt + actuation_allowance_seconds sel
        then Inl LeadNotCovering
      else Inr sel)"

definition resolve_lead :: "json \<Rightarrow> forecast_settings \<Rightarrow> int \<Rightarrow> lead_problem + lead_selection" where
  "resolve_lead pa s generation =
     (case get_obj (get_obj (get_obj pa ''status'') ''prediction'') ''lead'' of
        JNull \<Rightarrow> Inl NoLead
      | JObj ob \<Rightarrow>
          if set (map fst ob) \<noteq> set LEAD_KEYS then Inl LeadMalformed
          else if get_obj (JObj ob) ''method'' \<notin> JStr ` set LEAD_METHODS then Inl LeadMethodUnknown
          else if \<not> list_all (\<lambda>k. is_int (get_obj (JObj ob) k) \<and> 0 \<le> the_int (get_obj (JObj ob) k))
                     (filter (\<lambda>k. k \<noteq> ''method'') LEAD_KEYS)
            then Inl LeadNotIntegers
          else check_lead (lead_of_values ob) s generation
      | _ \<Rightarrow> Inl LeadMalformed)"

section \<open>The forecast window\<close>

record forecast_window =
  w_origin :: int
  w_interval :: int
  w_lead :: int

definition window_start :: "forecast_window \<Rightarrow> int" where
  "window_start w = w_origin w"

definition window_end :: "forecast_window \<Rightarrow> int" where
  "window_end w = w_origin w + w_lead w"

definition target_timestamps :: "forecast_window \<Rightarrow> int list" where
  "target_timestamps w = map (\<lambda>k. w_origin w + k * w_interval w) [1..w_lead w div w_interval w]"

definition valid_until :: "forecast_window \<Rightarrow> lead_selection \<Rightarrow> int" where
  "valid_until w lead =
     (let t = w_origin w; dt = w_interval w; a = actuation_allowance_seconds lead
      in min (t + dt - a) (t + w_lead w - startup_delay_seconds lead - dt - a))"

text \<open>\<open>None\<close> is the IndexError of a window without targets.\<close>

definition actionable_at :: "forecast_window \<Rightarrow> int \<Rightarrow> lead_selection \<Rightarrow> bool option" where
  "actionable_at w now_ms lead =
     (case target_timestamps w of
        [] \<Rightarrow> None
      | t0 # _ \<Rightarrow> Some (now_ms + actuation_allowance_seconds lead * 1000 < t0 * 1000 \<and>
                        now_ms < valid_until w lead * 1000))"

definition make_window :: "json \<Rightarrow> forecast_settings \<Rightarrow> lead_selection \<Rightarrow> contract_error + forecast_window" where
  "make_window origin s lead =
     (let dt = sample_interval_seconds s in
      if \<not> is_int origin \<or> the_int origin mod dt \<noteq> 0 then Inl (Refused ''OriginOffGrid'')
      else if lead_seconds lead mod dt \<noteq> 0 \<or> \<not> (dt \<le> lead_seconds lead \<and> lead_seconds lead \<le> horizon_seconds s)
        then Inl (Refused ''LeadOutsideHorizon'')
      else Inr \<lparr> w_origin = the_int origin, w_interval = dt, w_lead = lead_seconds lead \<rparr>)"

section \<open>Signal, evidence key, bound request\<close>

record resolved_signal =
  sig_namespace :: string
  sig_name :: string
  sig_metric :: string
  sig_query :: string
  sig_sha256 :: string
  sig_contract :: string
  sig_autoscaler_uid :: string
  sig_target_uid :: string
  sig_generation :: int

definition risk_json :: "risk_settings \<Rightarrow> json" where
  "risk_json r = JObj [(''miscoverage_bps'', JInt (miscoverage_bps r))]"

definition calibration_json :: "calibration_settings \<Rightarrow> json" where
  "calibration_json c =
     JObj [(''min_windows'', JInt (cs_min_windows c)), (''max_scores'', JInt (cs_max_scores c)),
       (''retention_days'', JInt (cs_retention_days c)), (''eta_bps'', JInt (cs_eta_bps c)),
       (''min_miscoverage_bps'', JInt (cs_min_miscoverage_bps c)),
       (''max_miscoverage_bps'', JInt (cs_max_miscoverage_bps c))]"

definition evidence_body :: "resolved_signal \<Rightarrow> forecast_settings \<Rightarrow> int \<Rightarrow> json" where
  "evidence_body sig s lead =
     JObj [(''schema'', JStr EVIDENCE_SCHEMA), (''autoscaler_uid'', JStr (sig_autoscaler_uid sig)),
       (''target_uid'', JStr (sig_target_uid sig)), (''query_sha256'', JStr (sig_sha256 sig)),
       (''signal_contract'', JStr (sig_contract sig)), (''forecast_contract'', JStr FORECAST_CONTRACT),
       (''interval_seconds'', JInt (sample_interval_seconds s)), (''lead_seconds'', JInt lead),
       (''engine'', JStr (engine s)), (''seasonality'', JStr (seasonality s)),
       (''history_days'', JInt (history_days s)), (''settlement_seconds'', JInt (settlement_seconds s)),
       (''outcome_grace_seconds'', JInt (outcome_grace_seconds s)), (''risk'', risk_json (risk s)),
       (''calibration'', calibration_json (calibration s))]"

text \<open>The bytes of a value that holds no float (its serialization never fails).\<close>

definition canonical_bytes :: "json \<Rightarrow> string" where
  "canonical_bytes j = (case canonical_json (\<lambda>_. []) j of None \<Rightarrow> [] | Some b \<Rightarrow> b)"

definition evidence_key :: "(string \<Rightarrow> string) \<Rightarrow> resolved_signal \<Rightarrow> forecast_settings \<Rightarrow> int \<Rightarrow> string" where
  "evidence_key sha sig s lead = sha (canonical_bytes (evidence_body sig s lead))"

record bound_request =
  b_autoscaler_namespace :: string
  b_autoscaler_name :: string
  b_signal :: resolved_signal
  b_settings :: forecast_settings
  b_settings_sha256 :: string
  b_decision_origin :: int
  b_lead :: "lead_selection option"
  b_lead_problem :: "lead_problem option"

definition b_evidence_key :: "(string \<Rightarrow> string) \<Rightarrow> bound_request \<Rightarrow> string option" where
  "b_evidence_key sha b =
     (case b_lead b of None \<Rightarrow> None
      | Some l \<Rightarrow> Some (evidence_key sha (b_signal b) (b_settings b) (lead_seconds l)))"

section \<open>Windows and leads\<close>

lemma automatic_lead_cdiv:
  "automatic_lead_seconds d c a dt = cdiv (d + c + a + dt) dt * dt"
  by (simp add: automatic_lead_seconds_def cdiv_def Let_def)

lemma upto_snoc: "i \<le> j \<Longrightarrow> [i..j] = [i..j - 1] @ [j]"
  by (rule upto_rec2)

lemma target_timestamps_mult:
  assumes "0 < w_interval w" and "w_lead w = n * w_interval w"
  shows "target_timestamps w = map (\<lambda>k. w_origin w + k * w_interval w) [1..n]"
  using assms by (simp add: target_timestamps_def)

lemma sorted_wrt_grid:
  assumes "0 < (dt::int)"
  shows "sorted_wrt (<) (map (\<lambda>k. t + k * dt) [i..j])"
proof -
  have "sorted_wrt (<) [i..j]" by (simp add: sorted_wrt_upto)
  then show ?thesis using assms by (simp add: sorted_wrt_map)
qed

text \<open>The targets of a window made by the code: the grid points after the origin up to the window end.\<close>

lemma target_timestamps_grid:
  assumes "0 < w_interval w" and "w_interval w dvd w_lead w" and "w_interval w \<le> w_lead w"
  shows "sorted_wrt (<) (target_timestamps w)"
    and "int (length (target_timestamps w)) = w_lead w div w_interval w"
    and "target_timestamps w \<noteq> []"
    and "hd (target_timestamps w) = w_origin w + w_interval w"
    and "last (target_timestamps w) = window_end w"
    and "set (target_timestamps w) =
           {x. w_origin w < x \<and> x \<le> window_end w \<and> w_interval w dvd (x - w_origin w)}"
proof -
  let ?dt = "w_interval w" and ?t = "w_origin w"
  obtain n where n: "w_lead w = n * ?dt" using assms(2) by (metis dvdE mult.commute)
  have n1: "1 \<le> n" using assms(1,3) n by (metis int_one_le_iff_zero_less less_le_trans zero_less_mult_pos2)
  note tt = target_timestamps_mult [OF assms(1) n]
  show "sorted_wrt (<) (target_timestamps w)" unfolding tt using assms(1) by (rule sorted_wrt_grid)
  show "int (length (target_timestamps w)) = w_lead w div ?dt" using tt n n1 assms(1) by simp
  show "target_timestamps w \<noteq> []" using tt n1 by simp
  show "hd (target_timestamps w) = ?t + ?dt" using tt n1 by (simp add: upto_rec1)
  show "last (target_timestamps w) = window_end w"
    using n1 by (simp add: tt window_end_def n upto_snoc)
  show "set (target_timestamps w) = {x. ?t < x \<and> x \<le> window_end w \<and> ?dt dvd (x - ?t)}"
  proof (intro equalityI subsetI)
    fix x assume "x \<in> set (target_timestamps w)"
    then obtain k where "1 \<le> k" "k \<le> n" "x = ?t + k * ?dt" using tt by auto
    then show "x \<in> {x. ?t < x \<and> x \<le> window_end w \<and> ?dt dvd (x - ?t)}"
      using assms(1) by (auto simp: window_end_def n mult_right_mono)
  next
    fix x assume "x \<in> {x. ?t < x \<and> x \<le> window_end w \<and> ?dt dvd (x - ?t)}"
    then have x: "?t < x" "x \<le> window_end w" "?dt dvd (x - ?t)" by auto
    from x(3) obtain k where k: "x - ?t = k * ?dt" by (metis dvdE mult.commute)
    note x(1,2)
    with k have "0 < k * ?dt" "k * ?dt \<le> n * ?dt" by (simp_all add: window_end_def n)
    then have "1 \<le> k" "k \<le> n" using assms(1) by (simp_all add: zero_less_mult_iff)
    moreover have "x = ?t + k * ?dt" using k by simp
    ultimately show "x \<in> set (target_timestamps w)" by (auto simp: tt)
  qed
qed

lemma make_window_Inr:
  assumes "make_window origin s lead = Inr w"
  shows "is_int origin" and "w_origin w = the_int origin" and "w_interval w = sample_interval_seconds s"
    and "w_lead w = lead_seconds lead" and "w_interval w dvd w_origin w" and "w_interval w dvd w_lead w"
    and "w_interval w \<le> w_lead w" and "w_lead w \<le> horizon_seconds s"
  using assms by (auto simp: make_window_def Let_def)

lemma check_lead_Inr: "check_lead sel s g = Inr l \<Longrightarrow> l = sel \<and> observed_generation l = g \<and>
    sample_interval_seconds s \<le> lead_seconds l \<and> lead_seconds l mod sample_interval_seconds s = 0 \<and>
    lead_seconds l \<le> horizon_seconds s \<and>
    startup_delay_seconds l + sample_interval_seconds s + actuation_allowance_seconds l \<le> lead_seconds l"
  by (auto simp: check_lead_def Let_def)

lemma resolve_lead_Inr:
  assumes "resolve_lead pa s g = Inr l"
  shows "check_lead l s g = Inr l" and "lead_method l \<in> set LEAD_METHODS"
    and "0 \<le> startup_delay_seconds l" and "0 \<le> actuation_allowance_seconds l"
proof -
  obtain ob where ob: "set (map fst ob) = set LEAD_KEYS"
    "get_obj (JObj ob) ''method'' \<in> JStr ` set LEAD_METHODS"
    "list_all (\<lambda>k. is_int (get_obj (JObj ob) k) \<and> 0 \<le> the_int (get_obj (JObj ob) k))
       (filter (\<lambda>k. k \<noteq> ''method'') LEAD_KEYS)"
    "check_lead (lead_of_values ob) s g = Inr l"
    using assms unfolding resolve_lead_def by (auto split: json.splits simp del: get_obj.simps)
  have l: "l = lead_of_values ob" using check_lead_Inr [OF ob(4)] by simp
  show "check_lead l s g = Inr l" using ob(4) l by simp
  show "lead_method l \<in> set LEAD_METHODS" using ob(2) by (auto simp: l lead_of_values_def simp del: get_obj.simps)
  show "0 \<le> startup_delay_seconds l" "0 \<le> actuation_allowance_seconds l"
    using ob(3) by (simp_all add: l lead_of_values_def LEAD_KEYS_def del: get_obj.simps)
qed

lemma actionable_at_iff:
  assumes "target_timestamps w \<noteq> []"
  shows "actionable_at w now lead = Some True \<longleftrightarrow>
     now + actuation_allowance_seconds lead * 1000 < hd (target_timestamps w) * 1000 \<and>
     now < valid_until w lead * 1000"
  using assms by (cases "target_timestamps w") (auto simp: actionable_at_def)

section \<open>Properties\<close>

text \<open>The window made for an admitted origin and lead is exactly the grid after the origin: its targets increase
  strictly, there are lead/interval of them, the last one is the window end, and they are all the grid points in
  \<open>(origin, origin + lead]\<close>.\<close>

theorem window_targets_are_the_grid:
  assumes "make_window origin s lead = Inr w" and "0 < sample_interval_seconds s"
  shows "sorted_wrt (<) (target_timestamps w) \<and>
     int (length (target_timestamps w)) = lead_seconds lead div sample_interval_seconds s \<and>
     last (target_timestamps w) = window_end w \<and>
     set (target_timestamps w) = {x. the_int origin < x \<and> x \<le> the_int origin + lead_seconds lead \<and>
       sample_interval_seconds s dvd x}"
proof -
  note m = make_window_Inr [OF assms(1)]
  have pos: "0 < w_interval w" using assms(2) m(3) by simp
  note t = target_timestamps_grid [OF pos m(6,7)]
  have "w_interval w dvd (x - w_origin w) \<longleftrightarrow> w_interval w dvd x" for x
    using m(5) by (simp add: dvd_diff_right_iff dvd_diff_left_iff)
  with t m show ?thesis by (simp add: window_end_def)
qed

text \<open>A status with a configured lead of ten minutes, for the witnesses.\<close>

definition demo_lead :: lead_selection where
  "demo_lead = \<lparr> lead_seconds = 600, startup_delay_seconds = 120, actuation_allowance_seconds = 15,
     lead_method = ''configured'', sample_count = 0, observed_generation = 7 \<rparr>"

definition demo_status :: json where
  "demo_status = JObj [(''status'', JObj [(''prediction'', JObj [(''lead'', JObj [(''seconds'', JInt 600),
     (''startupDelaySeconds'', JInt 120), (''actuationAllowanceSeconds'', JInt 15), (''method'', JStr ''configured''),
     (''sampleCount'', JInt 0), (''observedGeneration'', JInt 7)])])])]"

definition demo_window :: forecast_window where
  "demo_window = \<lparr> w_origin = 6000, w_interval = 300, w_lead = 600 \<rparr>"

lemma demo_make_window: "make_window (JInt 6000) default_settings demo_lead = Inr demo_window"
  by (simp add: make_window_def demo_lead_def demo_window_def default_settings_def)

lemma demo_resolve_lead: "resolve_lead demo_status default_settings 7 = Inr demo_lead"
  by (simp add: resolve_lead_def demo_status_def check_lead_def lead_of_values_def demo_lead_def default_settings_def
      LEAD_KEYS_def LEAD_METHODS_def insert_commute)

theorem window_targets_are_the_grid_witness:
  "last (target_timestamps demo_window) = 6600 \<and> int (length (target_timestamps demo_window)) = 2"
  using window_targets_are_the_grid [OF demo_make_window]
  by (simp add: default_settings_def demo_lead_def window_end_def demo_window_def)

text \<open>The automatic lead is the smallest multiple of the sample interval that covers the startup delay, one decision
  interval, the actuation allowance and one sample interval.\<close>

theorem automatic_lead_least_multiple:
  assumes "0 < interval"
  shows "interval dvd automatic_lead_seconds startup decision allowance interval \<and>
     startup + decision + allowance + interval \<le> automatic_lead_seconds startup decision allowance interval \<and>
     (\<forall>m. interval dvd m \<and> startup + decision + allowance + interval \<le> m \<longrightarrow>
        automatic_lead_seconds startup decision allowance interval \<le> m)"
proof -
  let ?t = "startup + decision + allowance + interval" and ?q = "- ((- (startup + decision + allowance + interval)) div interval)"
  have eq: "automatic_lead_seconds startup decision allowance interval = ?q * interval"
    by (simp add: automatic_lead_seconds_def Let_def)
  have mod: "- ?t = - (?q * interval) + (- ?t) mod interval" "0 \<le> (- ?t) mod interval" "(- ?t) mod interval < interval"
    using assms div_mult_mod_eq [of "- ?t" interval] by (simp_all add: algebra_simps)
  have least: "?q * interval \<le> m" if m: "interval dvd m" "?t \<le> m" for m
  proof -
    from m(1) obtain k where k: "m = interval * k" by blast
    have "?q * interval < ?t + interval" using mod by linarith
    also have "\<dots> \<le> (k + 1) * interval" using m(2) k by (simp add: algebra_simps)
    finally have "?q < k + 1" by (rule mult_right_less_imp_less) (use assms in simp)
    then have "?q * interval \<le> k * interval" using assms by (intro mult_right_mono) auto
    then show ?thesis using k by (simp add: mult.commute)
  qed
  have "?t \<le> ?q * interval" using mod by linarith
  with eq least show ?thesis by simp
qed

theorem automatic_lead_least_multiple_witness: "automatic_lead_seconds 95 60 10 60 = 240 \<and> 60 dvd automatic_lead_seconds 95 60 10 60"
  using automatic_lead_least_multiple [of 60 95 60 10] by (simp add: automatic_lead_seconds_def)

text \<open>A lead accepted from the autoscaler's status leaves time to act: a forecast for the window it yields is actionable
  exactly before \<open>valid_until\<close>, which is at most one interval after the origin, and while it is actionable the
  startup delay, one interval and the actuation allowance still fit before the window end.\<close>

theorem accepted_lead_validity:
  assumes "resolve_lead pa s generation = Inr lead" and "make_window origin s lead = Inr w" and "0 < sample_interval_seconds s"
  shows "observed_generation lead = generation \<and> valid_until w lead \<le> w_origin w + w_interval w \<and>
     (\<forall>now_ms. \<exists>b. actionable_at w now_ms lead = Some b \<and>
        (b \<longleftrightarrow> now_ms < valid_until w lead * 1000) \<and>
        (b \<longrightarrow> now_ms + (startup_delay_seconds lead + w_interval w + actuation_allowance_seconds lead) * 1000 < window_end w * 1000))"
proof -
  note l = resolve_lead_Inr [OF assms(1)]
  note c = check_lead_Inr [OF l(1)]
  note m = make_window_Inr [OF assms(2)]
  have pos: "0 < w_interval w" using assms(3) m(3) by simp
  note t = target_timestamps_grid [OF pos m(6,7)]
  obtain ts where ts: "target_timestamps w = (w_origin w + w_interval w) # ts"
    using t(3,4) by (cases "target_timestamps w") auto
  have "\<exists>b. actionable_at w now_ms lead = Some b \<and> (b \<longleftrightarrow> now_ms < valid_until w lead * 1000) \<and>
      (b \<longrightarrow> now_ms + (startup_delay_seconds lead + w_interval w + actuation_allowance_seconds lead) * 1000 < window_end w * 1000)"
    for now_ms
    by (auto simp: actionable_at_def ts valid_until_def window_end_def Let_def algebra_simps min_def)
  with c l(4) show ?thesis by (auto simp: valid_until_def Let_def)
qed

theorem accepted_lead_validity_witness: "valid_until demo_window demo_lead \<le> 6300 \<and> observed_generation demo_lead = 7"
  using accepted_lead_validity [OF demo_resolve_lead demo_make_window]
  by (simp add: default_settings_def demo_window_def)

end
