(* ===== verification/Contracts_Response.thy ===== *)
theory Contracts_Response
  imports Contracts_Window
begin

text \<open>
  \<open>V2Response\<close> and \<open>check_response\<close> of \<^verbatim>\<open>forecasting/contracts.py\<close>. Fields that \<open>response_from_wire\<close> copies
  from the decoded JSON without parsing are JSON values here; the times it parses are integers. The checks
  are grouped in the order the code makes them, and the first that fails is the refusal.
\<close>

record v2_response =
  r_autoscaler_namespace :: json
  r_autoscaler_name :: json
  r_autoscaler_uid :: json
  r_autoscaler_generation :: json
  r_target_namespace :: json
  r_target_name :: json
  r_target_uid :: json
  r_metric_query_sha256 :: json
  r_contract :: json
  r_settings_sha256 :: json
  r_forecast_contract :: json
  r_unit :: json
  r_issuance_id :: json
  r_issued_at_ms :: int
  r_input_end :: int
  r_input_received_through_ms :: int
  r_fit_cutoff :: "int option"
  r_model_family :: json
  r_model_recipe :: json
  r_artifact_sha256 :: json
  r_calibration_epoch :: json
  r_checkpoint_sha256 :: json
  r_decision_origin :: int
  r_window_start :: int
  r_window_end :: int
  r_target_timestamps :: "int list"
  r_sample_interval_seconds :: json
  r_lead_seconds :: json
  r_startup_delay_seconds :: json
  r_actuation_allowance_seconds :: json
  r_valid_until :: int
  r_point_rps :: "json list"
  r_base_window_max_rps :: json
  r_upper_window_max_rps :: json
  r_nominal_miscoverage_bps :: json
  r_working_miscoverage_ratio :: json
  r_calibration_windows :: json
  r_prospective_windows :: json
  r_gate_coverage_ratio :: json
  r_missing_outcome_ratio :: json
  r_selected_candidate :: json
  r_trust_state :: json
  r_reason :: json
  r_predictive_eligible :: json
  r_evidence_cutoff :: "int option"

section \<open>Values\<close>

text \<open>\<open>_finite_nonneg\<close>. \<open>math.isfinite\<close> converts an integer to a float and raises when it does not fit.\<close>

fun finite_nonneg :: "json \<Rightarrow> (contract_error, bool) result" where
  "finite_nonneg (JInt n) = (if is_finite (float_of_int n) then Inr (0 \<le> n) else Inl IntTooLargeForFloat)"
| "finite_nonneg (JFloat x) = Inr (is_finite x \<and> 0 \<le> x)"
| "finite_nonneg _ = Inr False"

definition rat_of :: "json \<Rightarrow> rat" where
  "rat_of j = (case num_value j of None \<Rightarrow> 0 | Some x \<Rightarrow> x)"

fun rat_max :: "rat list \<Rightarrow> rat" where
  "rat_max [] = 0"
| "rat_max (x # xs) = fold max xs x"

fun truthy :: "json \<Rightarrow> bool" where
  "truthy JNull = False"
| "truthy (JBool b) = b"
| "truthy (JInt n) = (n \<noteq> 0)"
| "truthy (JFloat x) = (x \<noteq> Fin 0)"
| "truthy (JStr s) = (s \<noteq> [])"
| "truthy (JList xs) = (xs \<noteq> [])"
| "truthy (JObj kvs) = (kvs \<noteq> [])"

text \<open>\<open>_SHA256.match(v or "")\<close>.\<close>

definition sha_field :: "string \<Rightarrow> json \<Rightarrow> contract_error + unit" where
  "sha_field name v =
     (case v of
        JStr s \<Rightarrow> if sha256_match s then Inr () else Inl (Refused name)
      | _ \<Rightarrow> if truthy v then Inl PyTypeError else Inl (Refused name))"

definition nonneg_int :: "json \<Rightarrow> bool" where
  "nonneg_int v \<longleftrightarrow> is_int v \<and> 0 \<le> the_int v"

definition in_strs :: "json \<Rightarrow> string list \<Rightarrow> bool" where
  "in_strs v xs \<longleftrightarrow> v \<in> JStr ` set xs"

definition r_lead :: "v2_response \<Rightarrow> lead_selection" where
  "r_lead r = \<lparr> lead_seconds = the_int (r_lead_seconds r),
                startup_delay_seconds = the_int (r_startup_delay_seconds r),
                actuation_allowance_seconds = the_int (r_actuation_allowance_seconds r),
                lead_method = ''configured'', sample_count = 0, observed_generation = 0 \<rparr>"

definition r_window :: "v2_response \<Rightarrow> forecast_window" where
  "r_window r = \<lparr> w_origin = r_decision_origin r, w_interval = the_int (r_sample_interval_seconds r),
                  w_lead = the_int (r_lead_seconds r) \<rparr>"

section \<open>The checks, in order\<close>

definition check_fields :: "v2_response \<Rightarrow> contract_error + unit" where
  "check_fields r =
     (if \<not> json_eq (r_forecast_contract r) (JStr FORECAST_CONTRACT) \<or>
         \<not> json_eq (r_contract r) (JStr SIGNAL_CONTRACT) \<or> \<not> json_eq (r_unit r) (JStr UNIT)
      then Inl (Refused ''contract'')
      else if \<not> list_all nonneg_int
          [r_autoscaler_generation r, r_sample_interval_seconds r, r_lead_seconds r, r_startup_delay_seconds r,
           r_actuation_allowance_seconds r, r_nominal_miscoverage_bps r, r_calibration_windows r,
           r_prospective_windows r, JInt (r_issued_at_ms r), JInt (r_input_received_through_ms r),
           JInt (r_input_end r), JInt (r_decision_origin r), JInt (r_window_start r), JInt (r_window_end r),
           JInt (r_valid_until r)]
        then Inl (Refused ''non-negative integer'')
      else if r_predictive_eligible r \<notin> {JBool True, JBool False} then Inl (Refused ''predictive_eligible'')
      else if \<not> in_strs (r_trust_state r) PHASES \<or> \<not> in_strs (r_reason r) REASONS
        then Inl (Refused ''trust state or reason'')
      else if \<not> in_strs (r_model_family r) MODEL_FAMILIES \<or> \<not> in_strs (r_selected_candidate r) MODEL_FAMILIES
        then Inl (Refused ''model family'')
      else bind_res (sha_field ''metric_query_sha256'' (r_metric_query_sha256 r))
             (\<lambda>_. sha_field ''settings_sha256'' (r_settings_sha256 r)))"

definition check_grid :: "v2_response \<Rightarrow> contract_error + unit" where
  "check_grid r =
     (let dt = the_int (r_sample_interval_seconds r); ld = the_int (r_lead_seconds r); win = r_window r in
      if dt \<notin> set ALLOWED_INTERVALS \<or> r_decision_origin r mod dt \<noteq> 0 \<or> ld mod dt \<noteq> 0 \<or> ld < dt
        then Inl (Refused ''admitted grid'')
      else if (r_window_start r, r_window_end r, r_target_timestamps r) \<noteq>
              (window_start win, window_end win, target_timestamps win)
        then Inl (Refused ''window bounds'')
      else if r_valid_until r \<noteq> valid_until win (r_lead r) then Inl (Refused ''valid_until'')
      else Inr ())"

definition check_ratio :: "string \<Rightarrow> json \<Rightarrow> contract_error + unit" where
  "check_ratio name x =
     (if x = JNull then Inr ()
      else bind_res (finite_nonneg x) (\<lambda>ok. if \<not> (ok \<and> rat_of x \<le> 1) then Inl (Refused name) else Inr ()))"

definition check_rates :: "v2_response \<Rightarrow> contract_error + unit" where
  "check_rates r =
     (if length (r_point_rps r) \<noteq> length (r_target_timestamps r) then Inl (Refused ''point_rps'')
      else bind_res (all_res finite_nonneg (r_point_rps r)) (\<lambda>pts.
        if \<not> pts then Inl (Refused ''point_rps'')
        else bind_res (finite_nonneg (r_base_window_max_rps r)) (\<lambda>base.
          if \<not> base \<or> rat_of (r_base_window_max_rps r) \<noteq> rat_max (map rat_of (r_point_rps r))
            then Inl (Refused ''base_window_max_rps'')
          else bind_res (if r_upper_window_max_rps r = JNull then Inr True
                         else finite_nonneg (r_upper_window_max_rps r)) (\<lambda>upper.
            if \<not> upper then Inl (Refused ''upper_window_max_rps'')
            else bind_res (check_ratio ''gate_coverage_ratio'' (r_gate_coverage_ratio r)) (\<lambda>_.
                 bind_res (check_ratio ''missing_outcome_ratio'' (r_missing_outcome_ratio r)) (\<lambda>_.
                 bind_res (check_ratio ''working_miscoverage_ratio'' (r_working_miscoverage_ratio r)) (\<lambda>_.
                   if r_gate_coverage_ratio r \<noteq> JNull \<and> the_int (r_calibration_windows r) = 0 \<and>
                      the_int (r_prospective_windows r) = 0
                   then Inl (Refused ''coverage without any scored window'') else Inr ())))))))"

definition check_times :: "v2_response \<Rightarrow> contract_error + unit" where
  "check_times r =
     (if r_input_end r > r_decision_origin r \<or>
         (case r_fit_cutoff r of None \<Rightarrow> False | Some c \<Rightarrow> c > r_input_end r)
        then Inl (Refused ''input or fit cutoff'')
      else if r_input_received_through_ms r > r_issued_at_ms r \<or> r_issued_at_ms r < r_decision_origin r * 1000
        then Inl (Refused ''issue/receipt order'')
      else if (case r_evidence_cutoff r of None \<Rightarrow> False | Some c \<Rightarrow> c * 1000 > r_issued_at_ms r)
        then Inl (Refused ''evidence cutoff'')
      else if \<not> json_eq (r_target_namespace r) (r_autoscaler_namespace r) then Inl (Refused ''target namespace'')
      else case r_target_timestamps r of
             [] \<Rightarrow> Inl PyIndexError
           | t0 # _ \<Rightarrow> if r_issued_at_ms r \<ge> t0 * 1000 then Inl (Refused ''hindcast'') else Inr ())"

definition check_eligible :: "v2_response \<Rightarrow> contract_error + unit" where
  "check_eligible r =
     (if r_predictive_eligible r \<noteq> JBool True then Inr ()
      else if r_upper_window_max_rps r = JNull \<or> r_trust_state r \<noteq> JStr ''Trusted'' \<or> r_reason r \<noteq> JStr ''Ready''
        then Inl (Refused ''eligible without evidence'')
      else if actionable_at (r_window r) (r_issued_at_ms r) (r_lead r) \<noteq> Some True
        then Inl (Refused ''eligible but not actionable'')
      else Inr ())"

definition check_bound :: "(string \<Rightarrow> string) \<Rightarrow> v2_response \<Rightarrow> bound_request \<Rightarrow> contract_error + unit" where
  "check_bound sha r b =
     (let s = b_signal b;
          echo = [r_autoscaler_namespace r, r_autoscaler_name r, r_autoscaler_uid r, r_autoscaler_generation r,
                  r_target_namespace r, r_target_name r, r_target_uid r, r_metric_query_sha256 r,
                  r_settings_sha256 r, JInt (r_decision_origin r), r_sample_interval_seconds r,
                  r_nominal_miscoverage_bps r];
          want = [JStr (b_autoscaler_namespace b), JStr (b_autoscaler_name b), JStr (sig_autoscaler_uid s),
                  JInt (sig_generation s), JStr (sig_namespace s), JStr (sig_name s), JStr (sig_target_uid s),
                  JStr (sig_sha256 s), JStr (b_settings_sha256 b), JInt (b_decision_origin b),
                  JInt (sample_interval_seconds (b_settings b)),
                  JInt (miscoverage_bps (risk (b_settings b)))] in
      if \<not> list_all2 json_eq echo want then Inl (Refused ''echo'')
      else case b_lead b of
             None \<Rightarrow> Inl (Refused ''lead'')
           | Some l \<Rightarrow>
               if (the_int (r_lead_seconds r), the_int (r_startup_delay_seconds r),
                   the_int (r_actuation_allowance_seconds r)) \<noteq>
                  (lead_seconds l, startup_delay_seconds l, actuation_allowance_seconds l)
                 then Inl (Refused ''lead'')
               else if \<not> json_eq (r_calibration_epoch r)
                       (JStr (evidence_key sha s (b_settings b) (lead_seconds l)))
                 then Inl (Refused ''calibration epoch'')
               else Inr ())"

definition check_response ::
  "(string \<Rightarrow> string) \<Rightarrow> v2_response \<Rightarrow> bound_request option \<Rightarrow> contract_error + unit" where
  "check_response sha r bound =
     bind_res (check_fields r) (\<lambda>_.
     bind_res (check_grid r) (\<lambda>_.
     bind_res (check_rates r) (\<lambda>_.
     bind_res (check_times r) (\<lambda>_.
     bind_res (check_eligible r) (\<lambda>_.
       case bound of None \<Rightarrow> Inr () | Some b \<Rightarrow> check_bound sha r b)))))"

section \<open>What an accepted response satisfies\<close>

lemma fold_max_ge: "(x::rat) \<in> set (y # ys) \<Longrightarrow> x \<le> fold max ys y"
proof (induction ys arbitrary: x y)
  case (Cons z zs)
  have "max y z \<le> fold max zs (max y z)" using Cons.IH [of "max y z" "max y z"] by simp
  with Cons show ?case by (fastforce simp: max.commute)
qed simp

lemma fold_max_in: "fold max ys (y::rat) \<in> set (y # ys)"
proof (induction ys arbitrary: y)
  case (Cons a ys)
  show ?case using Cons [of "max a y"] by (auto simp: max_def split: if_splits)
qed simp

lemma rat_max_Max: "xs \<noteq> [] \<Longrightarrow> rat_max xs = Max (set xs)"
  using fold_max_in fold_max_ge by (cases xs) (auto intro!: Max_eqI [symmetric])

definition finite_rate :: "json \<Rightarrow> bool" where
  "finite_rate j \<longleftrightarrow> finite_nonneg j = Inr True"

lemma finite_rate_num: "finite_rate j \<Longrightarrow> num_value j = Some (rat_of j) \<and> 0 \<le> rat_of j"
  by (cases j rule: finite_nonneg.cases)
    (auto simp: finite_rate_def rat_of_def is_finite_iff zero_pyfloat_def split: if_splits)

text \<open>The window facts of an accepted response.\<close>

lemma check_grid_Inr:
  assumes "check_grid r = Inr ()"
  shows "w_interval (r_window r) \<in> set ALLOWED_INTERVALS"
    and "w_interval (r_window r) dvd w_origin (r_window r)" and "w_interval (r_window r) dvd w_lead (r_window r)"
    and "w_interval (r_window r) \<le> w_lead (r_window r)"
    and "r_window_start r = window_start (r_window r)" and "r_window_end r = window_end (r_window r)"
    and "r_target_timestamps r = target_timestamps (r_window r)"
    and "r_valid_until r = valid_until (r_window r) (r_lead r)"
  using assms by (auto simp: check_grid_def r_window_def Let_def)

lemma check_rates_Inr:
  assumes "check_rates r = Inr ()" and "r_target_timestamps r \<noteq> []"
  shows "length (r_point_rps r) = length (r_target_timestamps r)"
    and "\<forall>p \<in> set (r_point_rps r). finite_rate p"
    and "finite_rate (r_base_window_max_rps r)"
    and "rat_of (r_base_window_max_rps r) = Max (rat_of ` set (r_point_rps r))"
    and "r_upper_window_max_rps r = JNull \<or> finite_rate (r_upper_window_max_rps r)"
proof -
  have len: "length (r_point_rps r) = length (r_target_timestamps r)"
    and pts: "\<forall>p \<in> set (r_point_rps r). finite_rate p"
    and base: "finite_rate (r_base_window_max_rps r)"
    and mx: "rat_of (r_base_window_max_rps r) = rat_max (map rat_of (r_point_rps r))"
    and up: "r_upper_window_max_rps r = JNull \<or> finite_rate (r_upper_window_max_rps r)"
    using assms(1) by (auto simp: check_rates_def bind_res_Inr_iff finite_rate_def all_res_True_iff split: if_splits)
  then show "length (r_point_rps r) = length (r_target_timestamps r)"
    "\<forall>p \<in> set (r_point_rps r). finite_rate p" "finite_rate (r_base_window_max_rps r)"
    "r_upper_window_max_rps r = JNull \<or> finite_rate (r_upper_window_max_rps r)" by blast+
  have "map rat_of (r_point_rps r) \<noteq> []" using len assms(2) by auto
  from rat_max_Max [OF this] mx
  show "rat_of (r_base_window_max_rps r) = Max (rat_of ` set (r_point_rps r))" by simp
qed

lemma check_response_parts:
  assumes "check_response sha r bound = Inr ()"
  shows "check_fields r = Inr ()" and "check_grid r = Inr ()" and "check_rates r = Inr ()"
    and "check_times r = Inr ()" and "check_eligible r = Inr ()"
    and "bound = Some b \<Longrightarrow> check_bound sha r b = Inr ()"
  using assms by (auto simp: check_response_def bind_res_Inr_iff)

lemma accepted_window:
  assumes "check_response sha r bound = Inr ()"
  shows "0 < w_interval (r_window r)" and "r_target_timestamps r \<noteq> []"
    and "hd (r_target_timestamps r) = r_decision_origin r + w_interval (r_window r)"
    and "last (r_target_timestamps r) = r_window_end r"
    and "sorted_wrt (<) (r_target_timestamps r)"
proof -
  note g = check_grid_Inr [OF check_response_parts(2) [OF assms]]
  show pos: "0 < w_interval (r_window r)" using allowed_interval [OF g(1)] by simp
  note t = target_timestamps_grid [OF pos g(3,4)]
  show "r_target_timestamps r \<noteq> []" "hd (r_target_timestamps r) = r_decision_origin r + w_interval (r_window r)"
    "last (r_target_timestamps r) = r_window_end r" "sorted_wrt (<) (r_target_timestamps r)"
    using t g(6,7) by (simp_all add: r_window_def)
qed

lemma accepted_times:
  assumes "check_response sha r bound = Inr ()"
  shows "r_input_end r \<le> r_decision_origin r" and "r_input_received_through_ms r \<le> r_issued_at_ms r"
    and "r_decision_origin r * 1000 \<le> r_issued_at_ms r"
    and "r_issued_at_ms r < hd (r_target_timestamps r) * 1000"
  using check_response_parts(4) [OF assms] accepted_window(2) [OF assms]
  by (auto simp: check_times_def split: list.splits)

lemma accepted_eligible:
  assumes "check_response sha r bound = Inr ()" and "r_predictive_eligible r = JBool True"
  shows "r_upper_window_max_rps r \<noteq> JNull" and "r_trust_state r = JStr ''Trusted''" and "r_reason r = JStr ''Ready''"
    and "actionable_at (r_window r) (r_issued_at_ms r) (r_lead r) = Some True"
  using check_response_parts(5) [OF assms(1)] assms(2) by (auto simp: check_eligible_def)

section \<open>Properties\<close>

text \<open>C20: a response accepted by the coherence check states one consistent forecast: the targets are the window's grid, every
  rate is finite and non-negative, the base is the maximum of the points, the input ends by the origin and was
  received by the issue, the issue lies between the origin and the first target (never a hindcast), and an eligible
  response carries a bound, is Trusted and Ready, and was issued while still actionable.\<close>

theorem accepted_response_coherent:
  assumes "check_response sha r bound = Inr ()"
  shows "r_target_timestamps r = target_timestamps (r_window r) \<and>
     length (r_point_rps r) = length (r_target_timestamps r) \<and> (\<forall>p \<in> set (r_point_rps r). finite_rate p) \<and>
     rat_of (r_base_window_max_rps r) = Max (rat_of ` set (r_point_rps r)) \<and>
     r_input_end r \<le> r_decision_origin r \<and> r_input_received_through_ms r \<le> r_issued_at_ms r \<and>
     r_decision_origin r * 1000 \<le> r_issued_at_ms r \<and> r_issued_at_ms r < hd (r_target_timestamps r) * 1000 \<and>
     (r_predictive_eligible r = JBool True \<longrightarrow>
        finite_rate (r_upper_window_max_rps r) \<and> r_trust_state r = JStr ''Trusted'' \<and> r_reason r = JStr ''Ready'' \<and>
        r_issued_at_ms r < r_valid_until r * 1000)"
proof -
  note parts = check_response_parts [OF assms]
  note g = check_grid_Inr [OF parts(2)] and w = accepted_window [OF assms] and t = accepted_times [OF assms]
  note rates = check_rates_Inr [OF parts(3) w(2)]
  have "finite_rate (r_upper_window_max_rps r) \<and> r_issued_at_ms r < r_valid_until r * 1000"
    if "r_predictive_eligible r = JBool True"
    using accepted_eligible [OF assms that] rates(5) g(8) by (auto simp: actionable_at_def split: list.splits)
  with accepted_eligible [OF assms] g(7) rates t show ?thesis by simp
qed

text \<open>A response accepted for a bound request answers that request: the same origin, interval, risk and lead, and the
  calibration epoch is the evidence key of the request's signal and settings.\<close>

theorem accepted_response_answers_request:
  assumes "check_response sha r (Some b) = Inr ()"
  shows "r_decision_origin r = b_decision_origin b \<and>
     w_interval (r_window r) = sample_interval_seconds (b_settings b) \<and>
     r_autoscaler_uid r = JStr (sig_autoscaler_uid (b_signal b)) \<and> r_settings_sha256 r = JStr (b_settings_sha256 b) \<and>
     (\<exists>l. b_lead b = Some l \<and> w_lead (r_window r) = lead_seconds l \<and>
        r_valid_until r = valid_until (r_window r) l \<and> b_evidence_key sha b = Some (the_str (r_calibration_epoch r)))"
proof -
  note parts = check_response_parts [OF assms]
  have ints: "is_int (r_sample_interval_seconds r)"
    using parts(1) by (auto simp: check_fields_def nonneg_int_def split: if_splits)
  have "check_bound sha r b = Inr ()" using parts(6) by simp
  then obtain l where l: "b_lead b = Some l" "the_int (r_lead_seconds r) = lead_seconds l"
    "the_int (r_startup_delay_seconds r) = startup_delay_seconds l"
    "the_int (r_actuation_allowance_seconds r) = actuation_allowance_seconds l"
    and eqs: "json_eq (r_calibration_epoch r) (JStr (evidence_key sha (b_signal b) (b_settings b) (lead_seconds l)))"
    "json_eq (JInt (r_decision_origin r)) (JInt (b_decision_origin b))"
    "json_eq (r_sample_interval_seconds r) (JInt (sample_interval_seconds (b_settings b)))"
    "json_eq (r_autoscaler_uid r) (JStr (sig_autoscaler_uid (b_signal b)))"
    "json_eq (r_settings_sha256 r) (JStr (b_settings_sha256 b))"
    by (auto simp: check_bound_def Let_def split: if_splits option.splits)
  have str: "json_eq v (JStr x) \<Longrightarrow> v = JStr x" for v x by (simp add: json_eq_str_iff)
  have int: "is_int v \<Longrightarrow> json_eq v (JInt i) \<Longrightarrow> the_int v = i" for v i by (cases v) (auto simp: json_eq_def)
  have "valid_until (r_window r) (r_lead r) = valid_until (r_window r) l"
    using l by (simp add: valid_until_def r_lead_def Let_def)
  then show ?thesis
    using l eqs str [OF eqs(1)] str [OF eqs(4)] str [OF eqs(5)] int [OF ints eqs(3)] check_grid_Inr(8) [OF parts(2)]
    by (auto simp: b_evidence_key_def r_window_def)
qed

text \<open>A response and the request it answers, for the witnesses.\<close>

definition demo_sha :: "string \<Rightarrow> string" where
  "demo_sha s = replicate 64 CHR ''a''"

definition demo_response :: v2_response where
  "demo_response =
     \<lparr> r_autoscaler_namespace = JStr ''ns'', r_autoscaler_name = JStr ''pa'', r_autoscaler_uid = JStr ''u1'',
       r_autoscaler_generation = JInt 7, r_target_namespace = JStr ''ns'', r_target_name = JStr ''app'',
       r_target_uid = JStr ''u2'', r_metric_query_sha256 = JStr (demo_sha []), r_contract = JStr SIGNAL_CONTRACT,
       r_settings_sha256 = JStr (demo_sha []), r_forecast_contract = JStr FORECAST_CONTRACT, r_unit = JStr UNIT,
       r_issuance_id = JStr ''i'', r_issued_at_ms = 6100000, r_input_end = 6000, r_input_received_through_ms = 6090000,
       r_fit_cutoff = Some 3000, r_model_family = JStr ''statistical'', r_model_recipe = JStr ''r'',
       r_artifact_sha256 = JNull, r_calibration_epoch = JStr (demo_sha []), r_checkpoint_sha256 = JNull,
       r_decision_origin = 6000, r_window_start = 6000, r_window_end = 6600, r_target_timestamps = [6300, 6600],
       r_sample_interval_seconds = JInt 300, r_lead_seconds = JInt 600, r_startup_delay_seconds = JInt 120,
       r_actuation_allowance_seconds = JInt 15, r_valid_until = 6165, r_point_rps = [JInt 3, JInt 5],
       r_base_window_max_rps = JInt 5, r_upper_window_max_rps = JInt 9, r_nominal_miscoverage_bps = JInt 1000,
       r_working_miscoverage_ratio = JNull, r_calibration_windows = JInt 128, r_prospective_windows = JInt 64,
       r_gate_coverage_ratio = JInt 1, r_missing_outcome_ratio = JInt 0, r_selected_candidate = JStr ''statistical'',
       r_trust_state = JStr ''Trusted'', r_reason = JStr ''Ready'', r_predictive_eligible = JBool True,
       r_evidence_cutoff = Some 5400 \<rparr>"

definition demo_bound :: bound_request where
  "demo_bound =
     \<lparr> b_autoscaler_namespace = ''ns'', b_autoscaler_name = ''pa'',
       b_signal = \<lparr> sig_namespace = ''ns'', sig_name = ''app'', sig_metric = ''m'', sig_query = ''q'',
         sig_sha256 = demo_sha [], sig_contract = SIGNAL_CONTRACT, sig_autoscaler_uid = ''u1'', sig_target_uid = ''u2'',
         sig_generation = 7 \<rparr>,
       b_settings = default_settings, b_settings_sha256 = demo_sha [], b_decision_origin = 6000,
       b_lead = Some demo_lead, b_lead_problem = None \<rparr>"

lemma demo_sha_ok: "sha256_match (demo_sha x)"
  by (simp add: demo_sha_def sha256_match_def hex_digit_def numeral_eq_Suc)

lemma demo_targets: "target_timestamps (r_window demo_response) = [6300, 6600]"
  by (simp add: target_timestamps_def r_window_def demo_response_def upto_rec1)

lemma finite_small_int: "\<bar>n\<bar> < 2 ^ 53 \<Longrightarrow> is_finite (float_of_int n)"
  by (simp add: float_of_int_def round64_of_int)

lemma demo_rates: "list_all (\<lambda>n. finite_nonneg (JInt n) = Inr True) [0, 1, 3, 5, 9]"
  by (simp add: finite_small_int)

lemma demo_accepted: "check_response demo_sha demo_response (Some demo_bound) = Inr ()"
proof -
  note resp = demo_response_def
  have "check_fields demo_response = Inr ()"
    by (simp add: check_fields_def resp nonneg_int_def in_strs_def PHASES_def REASONS_def MODEL_FAMILIES_def
        sha_field_def demo_sha_ok)
  moreover have "check_grid demo_response = Inr ()"
    using demo_targets
    by (simp add: check_grid_def resp ALLOWED_INTERVALS_def window_start_def window_end_def valid_until_def r_window_def
        r_lead_def)
  moreover have "check_rates demo_response = Inr ()"
    using demo_rates by (simp add: check_rates_def resp check_ratio_def rat_of_def del: finite_nonneg.simps)
  moreover have "check_times demo_response = Inr ()"
    by (simp add: check_times_def resp)
  moreover have "check_eligible demo_response = Inr ()"
    using demo_targets
    by (simp add: check_eligible_def actionable_at_def resp valid_until_def r_window_def r_lead_def)
  moreover have "check_bound demo_sha demo_response demo_bound = Inr ()"
    by (simp add: check_bound_def resp demo_bound_def demo_lead_def default_settings_def evidence_key_def demo_sha_def)
  ultimately show ?thesis by (simp add: check_response_def)
qed

theorem accepted_response_coherent_witness:
  "rat_of (r_base_window_max_rps demo_response) = Max (rat_of ` set (r_point_rps demo_response)) \<and>
   r_issued_at_ms demo_response < r_valid_until demo_response * 1000"
proof -
  have "r_predictive_eligible demo_response = JBool True" by (simp add: demo_response_def)
  with accepted_response_coherent [OF demo_accepted] show ?thesis by simp
qed

theorem accepted_response_answers_request_witness:
  "b_evidence_key demo_sha demo_bound = Some (the_str (r_calibration_epoch demo_response))"
  using accepted_response_answers_request [OF demo_accepted] by blast

end
