(* ===== verification/Maturation.thy ===== *)
theory Maturation
  imports Contracts_Window
begin

text \<open>
  \<^verbatim>\<open>forecasting/maturation.py\<close>: when an issued window becomes a terminal outcome and what that outcome is.
  \<open>received\<close> is the journal's first receipts (event time to value and receipt time), \<open>excluded\<close> names the
  declared exclusion covering a time (the empty string is none). The outcome payload is a datatype with one
  constructor per payload the code builds. The interface \<open>receipts\<close> at the end is what the journal promises
  about two reads of the same series, and the stability of outcomes rests on it.
\<close>

datatype mat_error = ValueError | KeyError

section \<open>Issued bundles\<close>

record cand =
  c_recipe :: string
  c_point_rps :: "pyfloat list"
  c_base :: pyfloat
  c_upper :: "pyfloat option"

text \<open>The key \<open>candidates\<close> of a bundle: absent, not an object, or an object whose entries may not be objects.\<close>

datatype candidates_field = NoCandidates | NotADict | Candidates "(string \<times> cand option) list"

record issued_bundle =
  bd_evidence_mode :: string
  bd_decision_origin :: int
  bd_targets :: "int list"
  bd_interval :: int
  bd_candidates :: candidates_field
  bd_model_family :: "string option"
  bd_single :: "cand option"          \<comment> \<open>the top-level values; \<open>None\<close> when a key is missing\<close>

definition candidate :: "issued_bundle \<Rightarrow> string \<Rightarrow> mat_error + cand" where
  "candidate b model =
     (case bd_candidates b of
        Candidates cs \<Rightarrow> (case dict_get cs model of Some (Some c) \<Rightarrow> Inr c | _ \<Rightarrow> Inl ValueError)
      | NotADict \<Rightarrow> Inl ValueError
      | NoCandidates \<Rightarrow>
          if bd_model_family b \<noteq> Some model then Inl ValueError
          else (case bd_single b of None \<Rightarrow> Inl KeyError | Some c \<Rightarrow> Inr c))"

section \<open>Outcomes\<close>

record scored_payload =
  y_window_max_rps :: pyfloat
  sp_targets :: nat
  sp_targets_sha256 :: string
  base_window_max_rps :: pyfloat
  upper_window_max_rps :: "pyfloat option"
  covered :: "bool option"
  residual_rps :: pyfloat
  abs_error_rps :: pyfloat
  sp_values :: "pyfloat list"
  sp_values_sha256 :: string
  completed_at_ms :: int

datatype outcome_payload =
    Excluded nat nat string int string int   \<comment> \<open>excluded targets, targets, digest, first, exclusion, deadline\<close>
  | MissingTruth nat nat string int int      \<comment> \<open>missing targets, targets, digest, first missing, deadline\<close>
  | Scored scored_payload

definition status_of :: "outcome_payload \<Rightarrow> string" where
  "status_of p = (case p of Scored _ \<Rightarrow> ''scored'' | _ \<Rightarrow> ''unscorable'')"

definition truth_deadline_ms :: "int \<Rightarrow> int \<Rightarrow> int \<Rightarrow> int" where
  "truth_deadline_ms we settlement grace = (we + settlement + grace) * 1000"

text \<open>The set of steps between neighbours, as a list.\<close>

definition target_steps :: "int list \<Rightarrow> int list" where
  "target_steps targets = map2 (\<lambda>a b. b - a) targets (tl targets)"

definition check_window :: "int list \<Rightarrow> mat_error + unit" where
  "check_window targets =
     (if targets = [] then Inl ValueError
      else case target_steps targets of
             [] \<Rightarrow> Inr ()
           | d # ds \<Rightarrow> if \<not> list_all (\<lambda>e. e = d) ds \<or> d \<le> 0 then Inl ValueError else Inr ())"

definition targets_sha256 :: "(string \<Rightarrow> string) \<Rightarrow> int list \<Rightarrow> string" where
  "targets_sha256 sha targets = sha (canonical_bytes (JList (map JInt targets)))"

type_synonym receipt_map = "int \<rightharpoonup> pyfloat \<times> int"

text \<open>The loop over the targets: values admitted, targets missing, and the newest receipt among the admitted.\<close>

definition admitted :: "receipt_map \<Rightarrow> int \<Rightarrow> int \<Rightarrow> bool" where
  "admitted received cutoff t = (case received t of None \<Rightarrow> False | Some (v, rms) \<Rightarrow> rms \<le> cutoff)"

fun collect :: "receipt_map \<Rightarrow> int \<Rightarrow> int list \<Rightarrow> pyfloat list \<times> int list \<times> int \<Rightarrow> pyfloat list \<times> int list \<times> int" where
  "collect received cutoff [] acc = acc"
| "collect received cutoff (t # ts) (values, missing, completed) =
     (case received t of
        None \<Rightarrow> collect received cutoff ts (values, missing @ [t], completed)
      | Some (v, rms) \<Rightarrow>
          if rms > cutoff then collect received cutoff ts (values, missing @ [t], completed)
          else collect received cutoff ts (values @ [v], missing, max completed rms))"

definition window_outcome ::
  "(string \<Rightarrow> string) \<Rightarrow> (rat \<Rightarrow> string) \<Rightarrow> int list \<Rightarrow> pyfloat \<Rightarrow> pyfloat option \<Rightarrow> receipt_map \<Rightarrow> int \<Rightarrow> int \<Rightarrow> int
   \<Rightarrow> (int \<Rightarrow> string) option \<Rightarrow> mat_error + outcome_payload option" where
  "window_outcome sha fmt targets base upper received now_ms settlement grace excluded =
     bind_res (check_window targets) (\<lambda>_.
       let we = last targets;
           close_ms = (we + settlement) * 1000;
           deadline = truth_deadline_ms we settlement grace;
           hits = (case excluded of None \<Rightarrow> [] | Some ex \<Rightarrow> filter (\<lambda>t. ex t \<noteq> []) targets);
           (vals, missing, completed) = collect received (min now_ms deadline) targets ([], [], 0)
       in if now_ms < close_ms then Inr None
          else if hits \<noteq> [] then
            Inr (Some (Excluded (length hits) (length targets) (targets_sha256 sha targets) (hd hits)
                         (case excluded of None \<Rightarrow> [] | Some ex \<Rightarrow> ex (hd hits)) deadline))
          else if missing \<noteq> [] then
            (if now_ms < deadline then Inr None
             else Inr (Some (MissingTruth (length missing) (length targets) (targets_sha256 sha targets)
                               (hd missing) deadline)))
          else
            let y = py_max_list vals in
            case canonical_json fmt (JList (map JFloat vals)) of
              None \<Rightarrow> Inl ValueError
            | Some bytes \<Rightarrow>
                Inr (Some (Scored \<lparr> y_window_max_rps = y, sp_targets = length targets,
                       sp_targets_sha256 = targets_sha256 sha targets, base_window_max_rps = base,
                       upper_window_max_rps = upper,
                       covered = (case upper of None \<Rightarrow> None | Some u \<Rightarrow> Some (y \<le> u)),
                       residual_rps = y - base, abs_error_rps = \<bar>y - base\<bar>, sp_values = vals,
                       sp_values_sha256 = sha bytes, completed_at_ms = completed \<rparr>)))"

definition issued_outcome ::
  "(string \<Rightarrow> string) \<Rightarrow> (rat \<Rightarrow> string) \<Rightarrow> issued_bundle \<Rightarrow> string \<Rightarrow> receipt_map \<Rightarrow> int \<Rightarrow> int \<Rightarrow> int
   \<Rightarrow> (int \<Rightarrow> string) option \<Rightarrow> mat_error + outcome_payload option" where
  "issued_outcome sha fmt b model received now_ms settlement grace excluded =
     bind_res (candidate b model) (\<lambda>c.
       window_outcome sha fmt (bd_targets b) (c_base c) (c_upper c) received now_ms settlement grace excluded)"

section \<open>Evenly spaced targets\<close>

lemma check_window_Inr_spacing:
  assumes "check_window targets = Inr ()"
  obtains d where "0 < d" and "\<And>i. Suc i < length targets \<Longrightarrow> targets ! Suc i = targets ! i + d"
proof (cases "target_steps targets")
  case Nil
  then have "length targets \<le> 1" by (cases targets; cases "tl targets") (auto simp: target_steps_def)
  then show thesis using that [of 1] by auto
next
  case (Cons d ds)
  with assms have pos: "0 < d" and all: "\<forall>e \<in> set (target_steps targets). e = d"
    by (auto simp: check_window_def list_all_iff split: if_splits)
  have "targets ! Suc i = targets ! i + d" if "Suc i < length targets" for i
  proof -
    have len: "i < length (target_steps targets)" using that by (simp add: target_steps_def)
    have "target_steps targets ! i = targets ! Suc i - targets ! i"
      using that by (simp add: target_steps_def nth_tl)
    with all len show ?thesis by (metis add.commute diff_add_cancel nth_mem)
  qed
  with pos show thesis by (rule that)
qed

lemma check_window_sorted:
  assumes "check_window targets = Inr ()"
  shows "sorted_wrt (<) targets" and "targets \<noteq> []"
proof -
  obtain d where d: "0 < d" "\<And>i. Suc i < length targets \<Longrightarrow> targets ! Suc i = targets ! i + d"
    using check_window_Inr_spacing [OF assms] by blast
  have "targets ! i < targets ! Suc i" if "Suc i < length targets" for i
    using d that by simp
  then show "sorted_wrt (<) targets"
    by (simp add: sorted_wrt_iff_nth_Suc_transp transp_on_less)
  show "targets \<noteq> []" using assms by (auto simp: check_window_def)
qed

section \<open>The admission loop\<close>

lemma collect_eq:
  "collect received cutoff ts (vs, ms, c) =
     (vs @ map (\<lambda>t. fst (the (received t))) (filter (admitted received cutoff) ts),
      ms @ filter (\<lambda>t. \<not> admitted received cutoff t) ts,
      fold max (map (\<lambda>t. snd (the (received t))) (filter (admitted received cutoff) ts)) c)"
  by (induction ts arbitrary: vs ms c)
    (auto simp: admitted_def max.commute split: option.splits)

lemmas collect_simps = collect_eq [of _ _ _ "[]" "[]" 0, simplified]

section \<open>The outcome by cases\<close>

declare canonical_json.simps [simp del]

definition missing_targets :: "receipt_map \<Rightarrow> int \<Rightarrow> int list \<Rightarrow> int list" where
  "missing_targets received cutoff targets = filter (\<lambda>t. \<not> admitted received cutoff t) targets"

definition target_values :: "receipt_map \<Rightarrow> int list \<Rightarrow> pyfloat list" where
  "target_values received targets = map (\<lambda>t. fst (the (received t))) targets"

definition target_receipts :: "receipt_map \<Rightarrow> int list \<Rightarrow> int list" where
  "target_receipts received targets = map (\<lambda>t. snd (the (received t))) targets"

definition excluded_targets :: "(int \<Rightarrow> string) option \<Rightarrow> int list \<Rightarrow> int list" where
  "excluded_targets excluded targets =
     (case excluded of None \<Rightarrow> [] | Some ex \<Rightarrow> filter (\<lambda>t. ex t \<noteq> []) targets)"

lemma missing_targets_Nil: "missing_targets received cutoff ts = [] \<longleftrightarrow> (\<forall>t \<in> set ts. admitted received cutoff t)"
  by (auto simp: missing_targets_def filter_empty_conv)

lemma window_outcome_Scored_iff:
  "window_outcome sha fmt targets base upper received now_ms settlement grace excluded = Inr (Some (Scored p)) \<longleftrightarrow>
   (\<exists>bytes. check_window targets = Inr () \<and> (last targets + settlement) * 1000 \<le> now_ms \<and>
     excluded_targets excluded targets = [] \<and>
     missing_targets received (min now_ms (truth_deadline_ms (last targets) settlement grace)) targets = [] \<and>
     canonical_json fmt (JList (map JFloat (target_values received targets))) = Some bytes \<and>
     p = \<lparr> y_window_max_rps = py_max_list (target_values received targets), sp_targets = length targets,
           sp_targets_sha256 = targets_sha256 sha targets, base_window_max_rps = base,
           upper_window_max_rps = upper,
           covered = map_option (\<lambda>u. py_max_list (target_values received targets) \<le> u) upper,
           residual_rps = py_max_list (target_values received targets) - base,
           abs_error_rps = \<bar>py_max_list (target_values received targets) - base\<bar>,
           sp_values = target_values received targets, sp_values_sha256 = sha bytes,
           completed_at_ms = fold max (target_receipts received targets) 0 \<rparr>)"
proof -
  let ?cut = "min now_ms (truth_deadline_ms (last targets) settlement grace)"
  show ?thesis
  proof (cases "missing_targets received ?cut targets = []")
    case True
    then have all: "filter (admitted received ?cut) targets = targets" by (simp add: missing_targets_Nil)
    show ?thesis
      using True all
      by (auto simp: window_outcome_def Let_def collect_simps bind_res_Inr_iff missing_targets_def [symmetric]
          target_values_def target_receipts_def excluded_targets_def map_option_case split: option.splits if_splits)
  next
    case False
    then show ?thesis
      by (auto simp: window_outcome_def Let_def collect_simps bind_res_Inr_iff missing_targets_def [symmetric]
          split: if_splits)
  qed
qed

lemma window_outcome_Missing_iff:
  "window_outcome sha fmt targets base upper received now_ms settlement grace excluded =
     Inr (Some (MissingTruth n k d f dl)) \<longleftrightarrow>
   (check_window targets = Inr () \<and> (last targets + settlement) * 1000 \<le> now_ms \<and>
     excluded_targets excluded targets = [] \<and> dl = truth_deadline_ms (last targets) settlement grace \<and>
     dl \<le> now_ms \<and> missing_targets received dl targets \<noteq> [] \<and>
     n = length (missing_targets received dl targets) \<and> k = length targets \<and>
     d = targets_sha256 sha targets \<and> f = hd (missing_targets received dl targets))"
  by (auto simp: window_outcome_def Let_def collect_simps bind_res_Inr_iff missing_targets_def [symmetric]
      min_absorb2 excluded_targets_def split: option.splits if_splits)

lemma window_outcome_Excluded_iff:
  "window_outcome sha fmt targets base upper received now_ms settlement grace excluded =
     Inr (Some (Excluded n k d f why dl)) \<longleftrightarrow>
   (\<exists>ex. check_window targets = Inr () \<and> (last targets + settlement) * 1000 \<le> now_ms \<and>
     excluded = Some ex \<and> excluded_targets excluded targets \<noteq> [] \<and>
     n = length (excluded_targets excluded targets) \<and> k = length targets \<and> d = targets_sha256 sha targets \<and>
     f = hd (excluded_targets excluded targets) \<and> why = ex f \<and>
     dl = truth_deadline_ms (last targets) settlement grace)"
  by (auto simp: window_outcome_def Let_def collect_simps bind_res_Inr_iff
      excluded_targets_def split: option.splits if_splits)

section \<open>First receipts as an interface\<close>

text \<open>
  What the journal promises the maturation between two evaluations: a first receipt is kept as it is, and a
  receipt that was not there before arrived after the earlier evaluation.
\<close>

locale first_receipts =
  fixes reads :: "'s \<Rightarrow> receipt_map"
    and now_of :: "'s \<Rightarrow> int"
    and later :: "'s \<Rightarrow> 's \<Rightarrow> bool"
  assumes later_now: "later s s' \<Longrightarrow> now_of s \<le> now_of s'"
    and keeps: "later s s' \<Longrightarrow> reads s t = Some e \<Longrightarrow> reads s' t = Some e"
    and fresh: "later s s' \<Longrightarrow> reads s t = None \<Longrightarrow> reads s' t = Some (v, rms) \<Longrightarrow> now_of s < rms"
begin

lemma admitted_later:
  assumes "later s s'" and "cutoff \<le> now_of s" and "cutoff \<le> cutoff'"
  shows "admitted (reads s) cutoff t \<Longrightarrow> admitted (reads s') cutoff' t \<and> reads s' t = reads s t"
  using keeps [OF assms(1)] assms(3) by (fastforce simp: admitted_def split: option.splits)

lemma admitted_same_cutoff:
  assumes "later s s'" and "cutoff \<le> now_of s"
  shows "admitted (reads s') cutoff t = admitted (reads s) cutoff t"
proof (cases "reads s t")
  case None
  then show ?thesis using fresh [OF assms(1) None] assms(2) by (force simp: admitted_def split: option.splits)
next
  case (Some e)
  then show ?thesis using keeps [OF assms(1) Some] by (simp add: admitted_def)
qed

lemma outcome_stable:
  assumes later: "later s s'"
    and out: "window_outcome sha fmt targets base upper (reads s) (now_of s) settlement grace excluded = Inr (Some p)"
  shows "window_outcome sha fmt targets base upper (reads s') (now_of s') settlement grace excluded = Inr (Some p)"
proof -
  let ?dl = "truth_deadline_ms (last targets) settlement grace"
  have le: "now_of s \<le> now_of s'" using later by (rule later_now)
  show ?thesis
  proof (cases p)
    case (Scored q)
    note sc = out [unfolded Scored window_outcome_Scored_iff]
    have adm: "admitted (reads s) (min (now_of s) ?dl) t" if "t \<in> set targets" for t
      using sc that by (auto simp: missing_targets_Nil)
    have now: "admitted (reads s') (min (now_of s') ?dl) t \<and> reads s' t = reads s t" if "t \<in> set targets" for t
      using admitted_later [OF later _ _ adm [OF that]] le by auto
    have "target_values (reads s') targets = target_values (reads s) targets"
      using now by (simp add: target_values_def)
    moreover have "target_receipts (reads s') targets = target_receipts (reads s) targets"
      using now by (simp add: target_receipts_def)
    moreover have "missing_targets (reads s') (min (now_of s') ?dl) targets = []"
      using now by (simp add: missing_targets_Nil)
    ultimately show ?thesis
      using sc le unfolding Scored window_outcome_Scored_iff by (elim exE conjE, intro exI conjI) simp_all
  next
    case (MissingTruth n k d f dl)
    note ms = out [unfolded MissingTruth window_outcome_Missing_iff]
    have "missing_targets (reads s') dl targets = missing_targets (reads s) dl targets"
      using admitted_same_cutoff [OF later, of dl] ms by (simp add: missing_targets_def)
    with ms le show ?thesis unfolding MissingTruth window_outcome_Missing_iff by auto
  next
    case (Excluded n k d f why dl)
    with out le show ?thesis by (auto simp: window_outcome_Excluded_iff)
  qed
qed

end

section \<open>Completeness of the outcome after the deadline\<close>

lemma canonical_json_floats:
  "(\<forall>v \<in> set vs. is_finite v) \<Longrightarrow> \<exists>bytes. canonical_json fmt (JList (map JFloat vs)) = Some bytes"
proof -
  assume fin: "\<forall>v \<in> set vs. is_finite v"
  have "\<exists>ss. those (map (canonical_json fmt) (map JFloat vs)) = Some ss"
    using fin by (induction vs) (auto simp: is_finite_iff canonical_json.simps)
  then show ?thesis by (auto simp: canonical_json.simps)
qed

lemma scored_when_complete:
  assumes "check_window targets = Inr ()" and "(last targets + settlement) * 1000 \<le> now_ms"
    and "excluded_targets excluded targets = []"
    and no: "missing_targets received (min now_ms (truth_deadline_ms (last targets) settlement grace)) targets = []"
    and fin: "\<forall>t v rms. received t = Some (v, rms) \<longrightarrow> is_finite v"
  shows "\<exists>p. window_outcome sha fmt targets base upper received now_ms settlement grace excluded = Inr (Some (Scored p)) \<and>
     sp_values p = target_values received targets \<and> y_window_max_rps p = py_max_list (target_values received targets)"
proof -
  have "is_finite v" if "v \<in> set (target_values received targets)" for v
    using that no fin by (fastforce simp: target_values_def missing_targets_Nil admitted_def split: option.splits)
  then obtain bytes where "canonical_json fmt (JList (map JFloat (target_values received targets))) = Some bytes"
    using canonical_json_floats by blast
  with assms show ?thesis unfolding window_outcome_Scored_iff by simp
qed

lemma excluded_when_declared:
  assumes "check_window targets = Inr ()" and "(last targets + settlement) * 1000 \<le> now_ms"
    and ne: "excluded_targets excluded targets \<noteq> []"
  shows "\<exists>n k d f why. f \<in> set targets \<and>
     window_outcome sha fmt targets base upper received now_ms settlement grace excluded =
       Inr (Some (Excluded n k d f why (truth_deadline_ms (last targets) settlement grace)))"
proof -
  obtain g where g: "excluded = Some g" using ne by (auto simp: excluded_targets_def split: option.splits)
  have "hd (excluded_targets excluded targets) \<in> set targets"
    using hd_in_set [OF ne] by (auto simp: excluded_targets_def split: option.splits)
  with assms g show ?thesis unfolding window_outcome_Excluded_iff by auto
qed

lemma open_before_close:
  assumes "check_window targets = Inr ()" and "now_ms < (last targets + settlement) * 1000"
  shows "window_outcome sha fmt targets base upper received now_ms settlement grace excluded = Inr None"
  using assms by (simp add: window_outcome_def Let_def split: prod.splits)

lemma open_before_deadline:
  assumes "check_window targets = Inr ()" and "now_ms < truth_deadline_ms (last targets) settlement grace"
    and "excluded_targets excluded targets = []"
    and "missing_targets received (min now_ms (truth_deadline_ms (last targets) settlement grace)) targets \<noteq> []"
  shows "window_outcome sha fmt targets base upper received now_ms settlement grace excluded = Inr None"
  using assms
  by (simp add: window_outcome_def Let_def collect_simps missing_targets_def [symmetric]
      excluded_targets_def [symmetric])

section \<open>Properties\<close>

text \<open>The outcome of a window is decided case by case: nothing before the settlement; then excluded if a declared
  exclusion covers a target; otherwise scored as soon as every target was received by the cutoff, with the maximum of the
  received values; and if a target is still missing, open until the deadline and unscorable from the deadline on.
  Hence at the deadline there is always an outcome.\<close>

theorem window_outcome_decision:
  assumes "check_window targets = Inr ()" and "0 \<le> grace"
    and "\<forall>t v rms. received t = Some (v, rms) \<longrightarrow> is_finite v"
  shows "let out = window_outcome sha fmt targets base upper received now_ms settlement grace excluded;
       deadline = truth_deadline_ms (last targets) settlement grace;
       missing = missing_targets received (min now_ms deadline) targets
     in if now_ms < (last targets + settlement) * 1000 then out = Inr None
     else if excluded_targets excluded targets \<noteq> [] then
       \<exists>n k d f why. f \<in> set targets \<and> out = Inr (Some (Excluded n k d f why deadline))
     else if missing = [] then
       \<exists>p. out = Inr (Some (Scored p)) \<and> sp_values p = target_values received targets \<and>
         y_window_max_rps p = py_max_list (target_values received targets)
     else if now_ms < deadline then out = Inr None
     else \<exists>k d. out = Inr (Some (MissingTruth (length missing) k d (hd missing) deadline))"
proof -
  define dl where "dl = truth_deadline_ms (last targets) settlement grace"
  let ?out = "window_outcome sha fmt targets base upper received now_ms settlement grace excluded"
    and ?ms = "missing_targets received (min now_ms dl) targets"
  have "\<exists>k d. ?out = Inr (Some (MissingTruth (length ?ms) k d (hd ?ms) dl))"
    if "\<not> now_ms < (last targets + settlement) * 1000" "excluded_targets excluded targets = []" "?ms \<noteq> []" "\<not> now_ms < dl"
    using that assms(1) unfolding window_outcome_Missing_iff dl_def [symmetric] by (simp add: min_absorb2)
  then show ?thesis
    using open_before_close [OF assms(1), of now_ms settlement sha fmt base upper received grace excluded]
      open_before_deadline [OF assms(1), of now_ms settlement grace excluded received sha fmt base upper]
      excluded_when_declared [OF assms(1), of settlement now_ms excluded sha fmt base upper received grace]
      scored_when_complete [OF assms(1) _ _ _ assms(3), of settlement now_ms excluded grace sha fmt base upper]
    unfolding dl_def by (simp add: Let_def not_less)
qed

theorem window_outcome_decision_witness:
  "\<exists>p. window_outcome (\<lambda>_. ''h'') (\<lambda>_. ''0'') [60, 120] 0 (Some (Fin 5))
     [60 \<mapsto> (Fin 3, 61000), 120 \<mapsto> (Fin 4, 125000)] 130000 0 60 None = Inr (Some (Scored p)) \<and> sp_values p = [Fin 3, Fin 4]"
proof -
  have "check_window [60, 120] = Inr ()" by (simp add: check_window_def target_steps_def)
  moreover have "\<forall>t v rms. [60 \<mapsto> (Fin 3, 61000), 120 \<mapsto> (Fin 4, 125000)] t = Some (v, rms) \<longrightarrow> is_finite v"
    by (auto simp: is_finite_iff split: if_splits)
  ultimately show ?thesis
    using window_outcome_decision [of "[60, 120]" 60 "[60 \<mapsto> (Fin 3, 61000), 120 \<mapsto> (Fin 4, 125000)]"
        "\<lambda>_. ''h''" "\<lambda>_. ''0''" 0 "Some (Fin 5)" 130000 0 None]
    by (auto simp: Let_def missing_targets_def admitted_def excluded_targets_def truth_deadline_ms_def target_values_def)
qed

end
