(* ===== verification/Calibration.thy ===== *)
theory Calibration
  imports Contracts_Settings "HOL-Library.Product_Lexorder"
begin

text \<open>
  \<^verbatim>\<open>forecasting/calibration.py\<close>: the calibrated upper bound of the window maximum. The state dictionary is a
  record; the working level is an integer in units of 1e-8 as in the code; scores are floats. \<open>apply_record\<close> is
  the code's \<open>apply\<close>. \<open>CalibrationRecord.from_journal\<close> is in \<open>Evidence\<close>, after the journal.
\<close>

section \<open>Policy, state, records\<close>

definition E8 :: int where "E8 = 100000000"

datatype calibration_error = CalibrationError string

record calibration_policy =
  p_lead_seconds :: int
  p_nominal_bps :: int
  p_eta_bps :: int
  p_min_bps :: int
  p_max_bps :: int
  p_min_windows :: int
  p_max_scores :: int
  p_retention_seconds :: int

text \<open>\<open>__post_init__\<close>: the policies that can be constructed.\<close>

definition policy_ok :: "calibration_policy \<Rightarrow> bool" where
  "policy_ok p \<longleftrightarrow>
     \<not> (\<not> (0 < p_min_bps p \<and> p_min_bps p \<le> p_nominal_bps p \<and> p_nominal_bps p \<le> p_max_bps p \<and> p_max_bps p < BPS) \<or>
        p_lead_seconds p \<le> 0 \<or> p_min_windows p < 1 \<or> p_max_scores p < p_min_windows p \<or>
        \<not> (0 \<le> p_eta_bps p \<and> p_eta_bps p \<le> BPS))"

definition policy_from_settings :: "forecast_settings \<Rightarrow> int \<Rightarrow> unit + calibration_policy" where
  \<comment> \<open>\<open>Inl ()\<close> is the ValueError of \<open>__post_init__\<close>\<close>
  "policy_from_settings s lead =
     (let c = calibration s;
          p = \<lparr> p_lead_seconds = lead, p_nominal_bps = miscoverage_bps (risk s), p_eta_bps = cs_eta_bps c,
                p_min_bps = cs_min_miscoverage_bps c, p_max_bps = cs_max_miscoverage_bps c,
                p_min_windows = cs_min_windows c, p_max_scores = cs_max_scores c,
                p_retention_seconds = cs_retention_days c * 86400 \<rparr>
      in if policy_ok p then Inr p else Inl ())"

definition nominal_ratio :: "calibration_policy \<Rightarrow> pyfloat" where
  "nominal_ratio p = int_div (p_nominal_bps p) BPS"

definition rank :: "int \<Rightarrow> int \<Rightarrow> int" where
  "rank n a_e8 = - ((- (n + 1) * (E8 - a_e8)) div E8)"

definition in_cohort :: "int \<Rightarrow> int \<Rightarrow> bool" where
  "in_cohort origin lead \<longleftrightarrow> origin mod lead = 0"

definition pinball_rps :: "pyfloat \<Rightarrow> pyfloat \<Rightarrow> pyfloat \<Rightarrow> pyfloat" where
  "pinball_rps y upper miscoverage =
     (let tau = 1 - miscoverage
      in if upper \<le> y then tau * (y - upper) else (1 - tau) * (upper - y))"

text \<open>The counters \<open>all\<close> and \<open>gate\<close>; the sum is \<open>abs_error_sum_rps\<close> for the first, \<open>pinball_sum_rps\<close> for
  the second.\<close>

record counters =
  k_scored :: int
  k_unscorable :: int
  k_bounded :: int
  k_covered :: int
  k_sum_rps :: pyfloat

definition zero_counters :: counters where
  "zero_counters = \<lparr> k_scored = 0, k_unscorable = 0, k_bounded = 0, k_covered = 0, k_sum_rps = 0 \<rparr>"

record cal_state =
  s_epoch :: string
  s_model :: string
  s_recipe :: string
  a_e8 :: int
  scores :: "(int \<times> pyfloat) list"
  last_seq :: int
  newest_window_end :: "int option"
  all_counts :: counters
  gate_counts :: counters
  level_updates :: int
  at_bound :: int

definition cal_initial :: "calibration_policy \<Rightarrow> string \<Rightarrow> string \<Rightarrow> string \<Rightarrow> cal_state" where
  "cal_initial p epoch model recipe =
     \<lparr> s_epoch = epoch, s_model = model, s_recipe = recipe, a_e8 = p_nominal_bps p * BPS, scores = [],
       last_seq = 0, newest_window_end = None, all_counts = zero_counters, gate_counts = zero_counters,
       level_updates = 0, at_bound = 0 \<rparr>"

record cal_record =
  cr_seq :: int
  cr_epoch :: string
  cr_model :: string
  cr_recipe :: string
  cr_issuance_id :: string
  cr_origin :: int
  cr_window_end :: int
  cr_base :: pyfloat
  cr_upper :: "pyfloat option"
  cr_status :: string
  cr_y :: "pyfloat option"

section \<open>The bound\<close>

text \<open>The order of the floats a score can be (scores are differences of finite values, never NaN).\<close>

fun float_key :: "pyfloat \<Rightarrow> int \<times> rat" where
  "float_key (Fin a) = (0, a)"
| "float_key NInf = (-1, 0)"
| "float_key PInf = (1, 0)"
| "float_key NaN = (2, 0)"

definition sorted_floats :: "pyfloat list \<Rightarrow> pyfloat list" where
  "sorted_floats xs = sort_key float_key xs"

definition buffered_scores :: "cal_state \<Rightarrow> calibration_policy \<Rightarrow> int \<Rightarrow> pyfloat list" where
  "buffered_scores st p now =
     last_n (nat (p_max_scores p))
       (map snd (filter (\<lambda>(we, e). now - p_retention_seconds p < we \<and> we \<le> now) (scores st)))"

datatype unavailable = CalibrationInsufficient | RankOverflow

record bound_info =
  i_n :: int
  i_rank :: int
  i_working :: pyfloat
  i_unavailable :: "unavailable option"
  i_quantile :: "pyfloat option"

definition upper_bound ::
  "cal_state \<Rightarrow> calibration_policy \<Rightarrow> pyfloat \<Rightarrow> int \<Rightarrow> calibration_error + pyfloat option \<times> bound_info" where
  "upper_bound st p base now =
     (if \<not> is_finite base \<or> base < 0 then Inl (CalibrationError ''base'')
      else
        let sc = sorted_floats (buffered_scores st p now);
            n = int (length sc);
            a = a_e8 st;
            k = rank n a;
            info = \<lparr> i_n = n, i_rank = k, i_working = int_div a E8, i_unavailable = None, i_quantile = None \<rparr>
        in if n < p_min_windows p then Inr (None, info\<lparr>i_unavailable := Some CalibrationInsufficient\<rparr>)
           else if k > n then Inr (None, info\<lparr>i_unavailable := Some RankOverflow\<rparr>)
           else let q = py_nth sc (k - 1)
                in Inr (Some (py_max 0 (base + q)), info\<lparr>i_quantile := Some q\<rparr>))"

section \<open>Applying a matured record\<close>

definition newest_of :: "int option \<Rightarrow> int \<Rightarrow> int" where
  \<comment> \<open>\<open>max(w, newest or w)\<close>: a stored 0 is falsy\<close>
  "newest_of newest w = max w (case newest of None \<Rightarrow> w | Some n \<Rightarrow> if n = 0 then w else n)"

text \<open>The buffer after a cohort score: placed by window end, pruned by retention, at most \<open>max_scores\<close>.\<close>

definition push_score :: "calibration_policy \<Rightarrow> int \<Rightarrow> pyfloat \<Rightarrow> cal_state \<Rightarrow> cal_state" where
  "push_score p w e st =
     (let newest = newest_of (newest_window_end st) w;
          placed = sort_key fst (scores st @ [(w, e)])
      in st\<lparr> newest_window_end := Some newest,
             scores := last_n (nat (p_max_scores p))
                         (filter (\<lambda>x. newest - p_retention_seconds p < fst x) placed) \<rparr>)"

text \<open>The adaptive level after a cohort window with an issued bound.\<close>

definition move_level :: "calibration_policy \<Rightarrow> pyfloat \<Rightarrow> pyfloat \<Rightarrow> cal_state \<Rightarrow> cal_state" where
  "move_level p y u st =
     (let miss = (if u < y then 1 else 0 :: int);
          g = gate_counts st;
          a = a_e8 st + p_eta_bps p * (p_nominal_bps p - miss * BPS);
          lo = p_min_bps p * BPS; hi = p_max_bps p * BPS
      in st\<lparr> gate_counts := g\<lparr> k_bounded := k_bounded g + 1, k_covered := k_covered g + (1 - miss),
                                k_sum_rps := k_sum_rps g + pinball_rps y u (nominal_ratio p) \<rparr>,
             at_bound := at_bound st + (if a \<le> lo \<or> hi \<le> a then 1 else 0),
             a_e8 := min hi (max lo a),
             level_updates := level_updates st + 1 \<rparr>)"

definition count_scored :: "pyfloat \<Rightarrow> pyfloat \<Rightarrow> pyfloat option \<Rightarrow> counters \<Rightarrow> counters" where
  "count_scored y b u c =
     (let c1 = c\<lparr> k_scored := k_scored c + 1, k_sum_rps := k_sum_rps c + \<bar>y - b\<bar> \<rparr>
      in case u of None \<Rightarrow> c1
         | Some v \<Rightarrow> c1\<lparr> k_bounded := k_bounded c + 1, k_covered := k_covered c + (if y \<le> v then 1 else 0) \<rparr>)"

definition apply_scored :: "calibration_policy \<Rightarrow> cal_record \<Rightarrow> pyfloat \<Rightarrow> cal_state \<Rightarrow> cal_state" where
  "apply_scored p r y st =
     (let st1 = st\<lparr> all_counts := count_scored y (cr_base r) (cr_upper r) (all_counts st) \<rparr>
      in if \<not> in_cohort (cr_origin r) (p_lead_seconds p) then st1
         else
           let st2 = st1\<lparr> gate_counts := (gate_counts st1)\<lparr> k_scored := k_scored (gate_counts st1) + 1 \<rparr> \<rparr>;
               st3 = push_score p (cr_window_end r) (y - cr_base r) st2
           in case cr_upper r of None \<Rightarrow> st3 | Some u \<Rightarrow> move_level p y u st3)"

definition apply_unscorable :: "calibration_policy \<Rightarrow> cal_record \<Rightarrow> cal_state \<Rightarrow> cal_state" where
  "apply_unscorable p r st =
     (let st1 = st\<lparr> all_counts := (all_counts st)\<lparr> k_unscorable := k_unscorable (all_counts st) + 1 \<rparr> \<rparr>
      in if in_cohort (cr_origin r) (p_lead_seconds p)
         then st1\<lparr> gate_counts := (gate_counts st1)\<lparr> k_unscorable := k_unscorable (gate_counts st1) + 1 \<rparr> \<rparr>
         else st1)"

definition apply_record :: "cal_state \<Rightarrow> cal_record \<Rightarrow> calibration_policy \<Rightarrow> calibration_error + cal_state" where
  "apply_record st r p =
     (if cr_epoch r \<noteq> s_epoch st then Inl (CalibrationError ''epoch'')
      else if (cr_model r, cr_recipe r) \<noteq> (s_model st, s_recipe st) then Inl (CalibrationError ''model or recipe'')
      else if cr_seq r \<le> last_seq st then Inr st
      else if cr_status r \<notin> {''scored'', ''unscorable''} then Inl (CalibrationError ''status'')
      else
        let s1 = st\<lparr> last_seq := cr_seq r \<rparr> in
        if cr_status r = ''unscorable'' then Inr (apply_unscorable p r s1)
        else case cr_y r of
               None \<Rightarrow> Inl (CalibrationError ''y'')
             | Some y \<Rightarrow> if \<not> is_finite y then Inl (CalibrationError ''y'') else Inr (apply_scored p r y s1))"

text \<open>Coverage over issued bounds; nothing bounded is no ratio.\<close>

definition cal_coverage :: "counters \<Rightarrow> int \<times> int \<times> pyfloat option" where
  "cal_coverage c =
     (k_covered c, k_bounded c, if k_bounded c \<noteq> 0 then Some (int_div (k_covered c) (k_bounded c)) else None)"

section \<open>Ranks\<close>

lemma rank_cdiv: "rank n a = cdiv ((n + 1) * (E8 - a)) E8"
  by (simp add: rank_def cdiv_def minus_mult_left del: mult_minus_left)

lemma E8_pos: "0 < E8"
  by (simp add: E8_def)

lemma rank_le_iff: "rank n a \<le> n \<longleftrightarrow> E8 \<le> (n + 1) * a"
  using cdiv_le_iff [OF E8_pos, of "(n + 1) * (E8 - a)" n] by (simp add: rank_cdiv algebra_simps)

lemma rank_bps_le_iff: "rank_bps n m \<le> n \<longleftrightarrow> BPS \<le> (n + 1) * m"
proof -
  have "rank_bps n m = cdiv ((n + 1) * (BPS - m)) BPS"
    by (simp add: rank_bps_def cdiv_def minus_mult_left del: mult_minus_left)
  then show ?thesis using cdiv_le_iff [of BPS "(n + 1) * (BPS - m)" n] by (simp add: BPS_def algebra_simps)
qed

lemma rank_pos: "0 \<le> n \<Longrightarrow> a < E8 \<Longrightarrow> 1 \<le> rank n a"
proof -
  assume "0 \<le> n" and "a < E8"
  then have "\<not> (n + 1) * (E8 - a) \<le> 0 * E8" by (simp add: not_le)
  then have "\<not> rank n a \<le> 0" using cdiv_le_iff [OF E8_pos] unfolding rank_cdiv by blast
  then show ?thesis by simp
qed

text \<open>A feasible minimum level is feasible for every larger buffer and every larger level.\<close>

lemma rank_feasible:
  assumes "rank_bps w m \<le> w" and "0 \<le> m" and "0 \<le> w" and "w \<le> n" and "m * BPS \<le> a"
  shows "rank n a \<le> n"
proof -
  have "E8 = BPS * BPS" by (simp add: E8_def BPS_def)
  also have "\<dots> \<le> (w + 1) * m * BPS"
    using assms(1) by (simp add: rank_bps_le_iff BPS_def mult.commute)
  also have "\<dots> \<le> (n + 1) * (m * BPS)"
    using assms(2,4) by (simp add: BPS_def mult_left_mono mult.commute)
  also have "\<dots> \<le> (n + 1) * a"
    using assms(3,4,5) by (intro mult_left_mono) simp_all
  finally show ?thesis by (simp add: rank_le_iff)
qed

section \<open>Order statistics\<close>

lemma float_key_le: "x \<noteq> NaN \<Longrightarrow> y \<noteq> NaN \<Longrightarrow> float_key x \<le> float_key y \<longleftrightarrow> x \<le> y"
  by (cases x; cases y) auto

lemma length_filter_sorted_floats: "length (filter P (sorted_floats xs)) = length (filter P xs)"
  by (simp add: sorted_floats_def filter_sort)

lemma sorted_floats_nth_le:
  assumes "NaN \<notin> set xs" and "i \<le> j" and "j < length xs"
  shows "sorted_floats xs ! i \<le> sorted_floats xs ! j"
proof -
  have "sorted (map float_key (sorted_floats xs))" by (simp add: sorted_floats_def)
  then have "float_key (sorted_floats xs ! i) \<le> float_key (sorted_floats xs ! j)"
    using assms by (simp add: sorted_floats_def sorted_iff_nth_mono)
  moreover have "sorted_floats xs ! k \<noteq> NaN" if "k < length xs" for k
    using assms(1) that nth_mem [of k "sorted_floats xs"] by (auto simp: sorted_floats_def)
  ultimately show ?thesis using assms(2,3) by (simp add: float_key_le)
qed

text \<open>At least \<open>k\<close> scores are at or below the \<open>k\<close>-th smallest, fewer than \<open>k\<close> strictly below it.\<close>

lemma kth_smallest:
  assumes nan: "NaN \<notin> set xs" and k: "1 \<le> k" "k \<le> length xs"
  defines "q \<equiv> sorted_floats xs ! (k - 1)"
  shows "q \<in> set xs" and "k \<le> length (filter (\<lambda>e. e \<le> q) xs)" and "length (filter (\<lambda>e. e < q) xs) < k"
proof -
  let ?s = "sorted_floats xs"
  have len: "length ?s = length xs" by (simp add: sorted_floats_def)
  have "q \<in> set ?s" unfolding q_def using k len by (intro nth_mem) simp
  then show "q \<in> set xs" by (simp add: sorted_floats_def)
  have "filter (\<lambda>e. e \<le> q) (take k ?s) = take k ?s"
    using sorted_floats_nth_le [OF nan] k
    by (auto simp: filter_id_conv in_set_conv_nth q_def sorted_floats_def)
  then have "k \<le> length (filter (\<lambda>e. e \<le> q) (take k ?s @ drop k ?s))"
    using k len by (simp only: filter_append) simp
  then show "k \<le> length (filter (\<lambda>e. e \<le> q) xs)" by (simp add: length_filter_sorted_floats)
  have ge: "\<not> e < q" if e: "e \<in> set (drop (k - 1) ?s)" for e
  proof -
    obtain i where "i < length (drop (k - 1) ?s)" "e = drop (k - 1) ?s ! i"
      using e unfolding in_set_conv_nth by blast
    then have i: "i < length xs - (k - 1)" "e = ?s ! (k - 1 + i)"
      using k len by simp_all
    then have "q \<le> e" using sorted_floats_nth_le [OF nan, of "k - 1" "k - 1 + i"] k by (simp add: q_def)
    then show ?thesis by (simp add: float_less_le)
  qed
  then have "filter (\<lambda>e. e < q) (drop (k - 1) ?s) = []" by (simp add: filter_empty_conv)
  then have "length (filter (\<lambda>e. e < q) (take (k - 1) ?s @ drop (k - 1) ?s)) \<le> k - 1"
    using length_filter_le [of "\<lambda>e. e < q" "take (k - 1) ?s"] by (simp only: filter_append) simp
  then show "length (filter (\<lambda>e. e < q) xs) < k"
    using k by (simp add: length_filter_sorted_floats)
qed

section \<open>Invariant\<close>

definition counters_ok :: "counters \<Rightarrow> bool" where
  "counters_ok c \<longleftrightarrow>
     0 \<le> k_covered c \<and> k_covered c \<le> k_bounded c \<and> k_bounded c \<le> k_scored c \<and> 0 \<le> k_unscorable c"

definition counters_le :: "counters \<Rightarrow> counters \<Rightarrow> bool" where
  "counters_le g a \<longleftrightarrow>
     k_scored g \<le> k_scored a \<and> k_unscorable g \<le> k_unscorable a \<and> k_bounded g \<le> k_bounded a \<and>
     k_covered g \<le> k_covered a"

definition level_ok :: "calibration_policy \<Rightarrow> cal_state \<Rightarrow> bool" where
  "level_ok p st \<longleftrightarrow> p_min_bps p * BPS \<le> a_e8 st \<and> a_e8 st \<le> p_max_bps p * BPS"

definition buffer_wf :: "calibration_policy \<Rightarrow> (int \<times> pyfloat) list \<Rightarrow> int option \<Rightarrow> bool" where
  "buffer_wf p sc newest \<longleftrightarrow>
     sorted (map fst sc) \<and> length sc \<le> nat (p_max_scores p) \<and> list_all (\<lambda>x. snd x \<noteq> NaN) sc \<and>
     (case newest of
        None \<Rightarrow> sc = []
      | Some n \<Rightarrow> 0 \<le> n \<and> list_all (\<lambda>x. n - p_retention_seconds p < fst x \<and> fst x \<le> n) sc)"

definition buffer_ok :: "calibration_policy \<Rightarrow> cal_state \<Rightarrow> bool" where
  "buffer_ok p st \<longleftrightarrow> buffer_wf p (scores st) (newest_window_end st)"

definition cal_inv :: "calibration_policy \<Rightarrow> cal_state \<Rightarrow> bool" where
  "cal_inv p st \<longleftrightarrow>
     level_ok p st \<and> buffer_ok p st \<and> counters_ok (all_counts st) \<and> counters_ok (gate_counts st) \<and>
     counters_le (gate_counts st) (all_counts st) \<and> level_updates st = k_bounded (gate_counts st)"

definition record_ok :: "cal_record \<Rightarrow> bool" where
  \<comment> \<open>what \<open>from_journal\<close> gives: journal windows end at non-negative times and JSON numbers are finite\<close>
  "record_ok r \<longleftrightarrow> 0 \<le> cr_window_end r \<and> is_finite (cr_base r) \<and> cr_upper r \<noteq> Some NaN"

lemma policy_okD: "policy_ok p \<Longrightarrow> 0 < p_min_bps p \<and> p_min_bps p \<le> p_nominal_bps p \<and>
    p_nominal_bps p \<le> p_max_bps p \<and> p_max_bps p < BPS \<and> 0 < p_lead_seconds p \<and> 1 \<le> p_min_windows p \<and>
    p_min_windows p \<le> p_max_scores p \<and> 0 \<le> p_eta_bps p \<and> p_eta_bps p \<le> BPS"
  by (auto simp: policy_ok_def)

lemma cal_inv_initial: "policy_ok p \<Longrightarrow> cal_inv p (cal_initial p epoch model recipe)"
  by (auto dest!: policy_okD simp: cal_inv_def cal_initial_def level_ok_def buffer_ok_def buffer_wf_def counters_ok_def
      counters_le_def zero_counters_def BPS_def)

lemma push_score_buffer_ok:
  assumes "buffer_ok p st" and "policy_ok p" and "0 \<le> w" and "e \<noteq> NaN"
  shows "buffer_ok p (push_score p w e st)"
proof -
  let ?n = "newest_of (newest_window_end st) w"
  let ?sorted = "sort_key fst (scores st @ [(w, e)])"
  let ?kept = "filter (\<lambda>x. ?n - p_retention_seconds p < fst x) ?sorted"
  let ?m = "nat (p_max_scores p)"
  have st: "scores (push_score p w e st) = last_n ?m ?kept" "newest_window_end (push_score p w e st) = Some ?n"
    by (simp_all add: push_score_def Let_def)
  have m: "0 < ?m" using policy_okD [OF assms(2)] by simp
  have n0: "0 \<le> ?n" using assms(3) by (simp add: newest_of_def)
  have sub: "set (last_n ?m ?kept) \<subseteq> set ?kept" by (rule set_last_n)
  have "sorted (map fst ?kept)" by (simp add: sorted_filter)
  then have srt: "sorted (map fst (last_n ?m ?kept))" by (simp add: map_last_n sorted_last_n)
  have len: "length (last_n ?m ?kept) \<le> ?m" using m by (simp add: length_last_n)
  have elem: "?n - p_retention_seconds p < fst x \<and> fst x \<le> ?n \<and> snd x \<noteq> NaN" if "x \<in> set ?kept" for x
  proof -
    have "fst x \<le> ?n" if "x \<in> set (scores st)"
      using assms(1,3) that
      by (fastforce simp: buffer_ok_def buffer_wf_def list_all_iff newest_of_def split: option.splits)
    moreover have "w \<le> ?n" by (simp add: newest_of_def)
    moreover have "snd x \<noteq> NaN" if "x \<in> set (scores st)"
      using assms(1) that by (simp add: buffer_ok_def buffer_wf_def list_all_iff)
    ultimately show ?thesis using that assms(4) by auto
  qed
  have "list_all (\<lambda>x. ?n - p_retention_seconds p < fst x \<and> fst x \<le> ?n) (last_n ?m ?kept)"
    and "list_all (\<lambda>x. snd x \<noteq> NaN) (last_n ?m ?kept)"
    using elem sub unfolding list_all_iff by blast+
  with srt len n0 show ?thesis by (simp only: buffer_ok_def st buffer_wf_def option.case simp_thms)
qed

lemma move_level_ok: "policy_ok p \<Longrightarrow> level_ok p (move_level p y u st)"
  by (auto dest!: policy_okD simp: level_ok_def move_level_def Let_def BPS_def min_def max_def)

lemma push_score_fields [simp]:
  "all_counts (push_score p w e st) = all_counts st" "gate_counts (push_score p w e st) = gate_counts st"
  "a_e8 (push_score p w e st) = a_e8 st" "level_updates (push_score p w e st) = level_updates st"
  "last_seq (push_score p w e st) = last_seq st" "s_epoch (push_score p w e st) = s_epoch st"
  "s_model (push_score p w e st) = s_model st" "s_recipe (push_score p w e st) = s_recipe st"
  by (simp_all add: push_score_def Let_def)

lemma move_level_fields [simp]:
  "all_counts (move_level p y u st) = all_counts st" "scores (move_level p y u st) = scores st"
  "newest_window_end (move_level p y u st) = newest_window_end st"
  "last_seq (move_level p y u st) = last_seq st" "s_epoch (move_level p y u st) = s_epoch st"
  "s_model (move_level p y u st) = s_model st" "s_recipe (move_level p y u st) = s_recipe st"
  by (simp_all add: move_level_def Let_def)

lemma float_minus_not_NaN: "is_finite y \<Longrightarrow> is_finite b \<Longrightarrow> y - b \<noteq> NaN" for y b :: pyfloat
  by (cases y; cases b) (auto simp: minus_pyfloat_def)

lemma count_scored_ok: "counters_ok c \<Longrightarrow> counters_ok (count_scored y b u c)"
  by (auto simp: counters_ok_def count_scored_def Let_def split: option.splits)

lemma apply_scored_inv:
  assumes inv: "cal_inv p st" and p: "policy_ok p" and r: "record_ok r" and y: "is_finite y"
  shows "cal_inv p (apply_scored p r y st)"
proof -
  let ?st1 = "st\<lparr> all_counts := count_scored y (cr_base r) (cr_upper r) (all_counts st) \<rparr>"
  let ?st2 = "?st1\<lparr> gate_counts := (gate_counts ?st1)\<lparr> k_scored := k_scored (gate_counts ?st1) + 1 \<rparr> \<rparr>"
  let ?st3 = "push_score p (cr_window_end r) (y - cr_base r) ?st2"
  have nn: "y - cr_base r \<noteq> NaN" using r y by (intro float_minus_not_NaN) (auto simp: record_ok_def)
  have buf: "buffer_ok p st" "buffer_ok p ?st2" using inv by (simp_all add: cal_inv_def buffer_ok_def)
  have buf3: "buffer_ok p ?st3" using push_score_buffer_ok [OF buf(2) p _ nn] r by (simp add: record_ok_def)
  have lev: "level_ok p st" using inv by (simp add: cal_inv_def)
  have cnt: "counters_ok (all_counts st)" "counters_ok (gate_counts st)"
    "counters_le (gate_counts st) (all_counts st)" "level_updates st = k_bounded (gate_counts st)"
    using inv by (simp_all add: cal_inv_def)
  show ?thesis
  proof (cases "in_cohort (cr_origin r) (p_lead_seconds p)")
    case False
    then show ?thesis using lev buf(1) cnt count_scored_ok [OF cnt(1)]
      by (auto simp: apply_scored_def Let_def cal_inv_def level_ok_def buffer_ok_def counters_le_def
          count_scored_def counters_ok_def split: option.splits)
  next
    case True
    show ?thesis
    proof (cases "cr_upper r")
      case None
      with True show ?thesis using lev buf3 cnt count_scored_ok [OF cnt(1)]
        by (auto simp: apply_scored_def Let_def cal_inv_def level_ok_def counters_le_def
            count_scored_def counters_ok_def)
    next
      case (Some u)
      have "y \<noteq> NaN" "u \<noteq> NaN" using y r Some by (auto simp: record_ok_def)
      then have yu: "\<not> u < y \<longleftrightarrow> y \<le> u" by (cases y; cases u) auto
      have "buffer_ok p (move_level p y u ?st3)"
        using buf3 by (simp add: buffer_ok_def)
      with True Some show ?thesis using move_level_ok [OF p, of y u ?st3] cnt yu
        by (auto simp: apply_scored_def Let_def cal_inv_def counters_le_def
            count_scored_def counters_ok_def move_level_def)
    qed
  qed
qed

lemma apply_record_inv:
  assumes "cal_inv p st" and "policy_ok p" and "record_ok r" and "apply_record st r p = Inr st'"
  shows "cal_inv p st'"
proof -
  let ?s1 = "st\<lparr> last_seq := cr_seq r \<rparr>"
  have s1: "cal_inv p ?s1" using assms(1) by (simp add: cal_inv_def level_ok_def buffer_ok_def)
  from assms(4) consider "st' = st" | "st' = apply_unscorable p r ?s1"
    | y where "is_finite y" "st' = apply_scored p r y ?s1"
    by (auto simp: apply_record_def Let_def split: if_splits option.splits)
  then show ?thesis
  proof cases
    case 2
    with s1 show ?thesis
      by (auto simp: apply_unscorable_def Let_def cal_inv_def level_ok_def buffer_ok_def counters_ok_def counters_le_def)
  next
    case 3
    with apply_scored_inv [OF s1 assms(2,3)] show ?thesis by simp
  qed (use assms(1) in simp)
qed

section \<open>Exactly once\<close>

fun apply_all :: "cal_state \<Rightarrow> cal_record list \<Rightarrow> calibration_policy \<Rightarrow> calibration_error + cal_state" where
  "apply_all st [] p = Inr st"
| "apply_all st (r # rs) p = bind_res (apply_record st r p) (\<lambda>st'. apply_all st' rs p)"

lemma apply_scored_fields:
  "last_seq (apply_scored p r y st) = last_seq st" "s_epoch (apply_scored p r y st) = s_epoch st"
  "s_model (apply_scored p r y st) = s_model st" "s_recipe (apply_scored p r y st) = s_recipe st"
  by (simp_all add: apply_scored_def Let_def split: option.splits)

lemma apply_unscorable_fields:
  "last_seq (apply_unscorable p r st) = last_seq st" "s_epoch (apply_unscorable p r st) = s_epoch st"
  "s_model (apply_unscorable p r st) = s_model st" "s_recipe (apply_unscorable p r st) = s_recipe st"
  by (simp_all add: apply_unscorable_def Let_def)

lemma apply_record_fields:
  assumes "apply_record st r p = Inr st'"
  shows "last_seq st' = max (last_seq st) (cr_seq r)" and "s_epoch st' = s_epoch st"
    and "s_model st' = s_model st" and "s_recipe st' = s_recipe st"
    and "cr_epoch r = s_epoch st" and "cr_model r = s_model st" and "cr_recipe r = s_recipe st"
  using assms
  by (auto simp: apply_record_def Let_def apply_scored_fields apply_unscorable_fields
      split: if_splits option.splits)

lemma apply_record_old:
  assumes "cr_seq r \<le> last_seq st" and "cr_epoch r = s_epoch st" and "cr_model r = s_model st"
    and "cr_recipe r = s_recipe st"
  shows "apply_record st r p = Inr st"
  using assms by (simp add: apply_record_def)

lemma apply_all_fields:
  "apply_all st rs p = Inr st' \<Longrightarrow> last_seq st \<le> last_seq st' \<and> s_epoch st' = s_epoch st \<and>
     s_model st' = s_model st \<and> s_recipe st' = s_recipe st \<and>
     (\<forall>r \<in> set rs. cr_seq r \<le> last_seq st' \<and> cr_epoch r = s_epoch st \<and> cr_model r = s_model st \<and>
        cr_recipe r = s_recipe st)"
proof (induction rs arbitrary: st)
  case (Cons r rs)
  then obtain st1 where st1: "apply_record st r p = Inr st1" "apply_all st1 rs p = Inr st'"
    by (auto simp: bind_res_Inr_iff)
  from Cons.IH [OF st1(2)] apply_record_fields [OF st1(1)] show ?case by auto
qed simp

lemma apply_all_old:
  assumes "\<forall>r \<in> set rs. cr_seq r \<le> last_seq st \<and> cr_epoch r = s_epoch st \<and> cr_model r = s_model st \<and>
        cr_recipe r = s_recipe st"
  shows "apply_all st rs p = Inr st"
  using assms by (induction rs) (auto simp: apply_record_old)

lemma apply_all_inv:
  "cal_inv p st \<Longrightarrow> policy_ok p \<Longrightarrow> \<forall>r \<in> set rs. record_ok r \<Longrightarrow> apply_all st rs p = Inr st' \<Longrightarrow> cal_inv p st'"
  by (induction rs arbitrary: st) (auto simp: bind_res_Inr_iff dest: apply_record_inv)

section \<open>What moves the level\<close>

lemma move_level_a: "a_e8 (move_level p y u st) =
    min (p_max_bps p * BPS) (max (p_min_bps p * BPS)
      (a_e8 st + p_eta_bps p * (p_nominal_bps p - (if u < y then BPS else 0))))"
  by (simp add: move_level_def Let_def)

section \<open>The bound is the promised order statistic\<close>

lemma buffered_scores_set:
  "e \<in> set (buffered_scores st p now) \<Longrightarrow>
     \<exists>we. (we, e) \<in> set (scores st) \<and> now - p_retention_seconds p < we \<and> we \<le> now"
  unfolding buffered_scores_def by (drule set_last_n [THEN subsetD]) auto

lemma buffered_scores_no_NaN: "cal_inv p st \<Longrightarrow> NaN \<notin> set (buffered_scores st p now)"
  using buffered_scores_set [of NaN st p now]
  by (fastforce simp: cal_inv_def buffer_ok_def buffer_wf_def list_all_iff)

lemma level_below_one: "cal_inv p st \<Longrightarrow> policy_ok p \<Longrightarrow> a_e8 st < E8"
  by (auto dest!: policy_okD simp: cal_inv_def level_ok_def E8_def BPS_def)

lemma length_sorted_floats [simp]: "length (sorted_floats xs) = length xs"
  by (simp add: sorted_floats_def)

lemma upper_bound_Some:
  assumes "upper_bound st p base now = Inr (Some u, info)"
  defines "xs \<equiv> buffered_scores st p now"
  defines "k \<equiv> rank (int (length xs)) (a_e8 st)"
  shows "is_finite base" and "\<not> base < 0" and "p_min_windows p \<le> int (length xs)" and "k \<le> int (length xs)"
    and "i_n info = int (length xs)" and "i_rank info = k"
    and "u = py_max 0 (base + py_nth (sorted_floats xs) (k - 1))"
    and "i_quantile info = Some (py_nth (sorted_floats xs) (k - 1))"
  using assms(1) by (auto simp: upper_bound_def Let_def xs_def k_def split: if_splits)

text \<open>C15: the issued upper bound is the base plus the \<open>k\<close>-th smallest buffered error, floored at zero, with \<open>k\<close> the
  smallest integer at or above \<open>(n + 1) (1 - a)\<close>.\<close>

theorem upper_bound_order_statistic:
  assumes "cal_inv p st" and "policy_ok p" and "upper_bound st p base now = Inr (Some u, info)"
  shows "\<exists>q. i_quantile info = Some q \<and> u = py_max 0 (base + q) \<and> 0 \<le> u \<and>
     q \<in> set (buffered_scores st p now) \<and>
     i_rank info \<le> int (length (filter (\<lambda>e. e \<le> q) (buffered_scores st p now))) \<and>
     int (length (filter (\<lambda>e. e < q) (buffered_scores st p now))) < i_rank info \<and>
     (\<forall>j. i_rank info \<le> j \<longleftrightarrow> (i_n info + 1) * (E8 - a_e8 st) \<le> j * E8)"
proof -
  let ?xs = "buffered_scores st p now"
  let ?k = "rank (int (length ?xs)) (a_e8 st)"
  let ?q = "sorted_floats ?xs ! (nat ?k - 1)"
  note ub = upper_bound_Some [OF assms(3)]
  have k: "1 \<le> ?k" "?k \<le> int (length ?xs)"
    using rank_pos [OF _ level_below_one [OF assms(1,2)]] ub(4) by simp_all
  have nth: "py_nth (sorted_floats ?xs) (?k - 1) = ?q"
    using k by (simp add: py_nth_def nat_diff_distrib)
  have "1 \<le> nat ?k" "nat ?k \<le> length ?xs" using k by linarith+
  note kth = kth_smallest [OF buffered_scores_no_NaN [OF assms(1)] this]
  have "i_rank info \<le> j \<longleftrightarrow> (i_n info + 1) * (E8 - a_e8 st) \<le> j * E8" for j
    unfolding ub(5,6) rank_cdiv by (rule cdiv_le_iff [OF E8_pos])
  moreover have "0 \<le> u" using ub(7) py_max_zero_nonneg by (simp add: zero_float_Fin)
  moreover have "?k \<le> int (length (filter (\<lambda>e. e \<le> ?q) ?xs))" "int (length (filter (\<lambda>e. e < ?q) ?xs)) < ?k"
    using kth(2,3) k by linarith+
  ultimately show ?thesis using ub(6,7,8) kth(1) unfolding nth by (intro exI [of _ ?q]) simp
qed

text \<open>A small concrete run for the witnesses.\<close>

definition demo_policy :: calibration_policy where
  "demo_policy = \<lparr> p_lead_seconds = 600, p_nominal_bps = 5000, p_eta_bps = 50, p_min_bps = 5000, p_max_bps = 5000,
     p_min_windows = 1, p_max_scores = 8, p_retention_seconds = 604800 \<rparr>"

definition demo_record :: "int \<Rightarrow> cal_record" where
  "demo_record k = \<lparr> cr_seq = k, cr_epoch = ''e'', cr_model = ''m'', cr_recipe = ''r'', cr_issuance_id = ''i'',
     cr_origin = 600, cr_window_end = 1200, cr_base = Fin 3, cr_upper = None, cr_status = ''scored'',
     cr_y = Some (Fin 3) \<rparr>"

definition demo_cal :: cal_state where
  "demo_cal = (case apply_all (cal_initial demo_policy ''e'' ''m'' ''r'') [demo_record 1] demo_policy of
     Inr st \<Rightarrow> st | Inl _ \<Rightarrow> cal_initial demo_policy [] [] [])"

lemma demo_policy_ok: "policy_ok demo_policy"
  by (simp add: policy_ok_def demo_policy_def BPS_def)

lemma demo_record_ok: "record_ok (demo_record k)"
  by (simp add: record_ok_def demo_record_def)

lemmas demo_cal_simps = demo_policy_def demo_record_def cal_initial_def apply_record_def apply_scored_def
  count_scored_def in_cohort_def push_score_def newest_of_def last_n_def Let_def minus_pyfloat_def

lemma demo_cal_run: "apply_all (cal_initial demo_policy ''e'' ''m'' ''r'') [demo_record 1] demo_policy = Inr demo_cal"
proof -
  have "\<not> isl (apply_all (cal_initial demo_policy ''e'' ''m'' ''r'') [demo_record 1] demo_policy)"
    by (simp add: demo_cal_simps)
  then show ?thesis unfolding demo_cal_def
    by (cases "apply_all (cal_initial demo_policy ''e'' ''m'' ''r'') [demo_record 1] demo_policy") auto
qed

lemma demo_cal_inv: "cal_inv demo_policy demo_cal"
  by (rule apply_all_inv [OF cal_inv_initial [OF demo_policy_ok] demo_policy_ok _ demo_cal_run])
    (simp add: demo_record_ok)

lemma demo_bound: "upper_bound demo_cal demo_policy (Fin 7) 1800 =
    Inr (Some (Fin 7), \<lparr> i_n = 1, i_rank = 1, i_working = int_div 50000000 E8, i_unavailable = None,
           i_quantile = Some (Fin 0) \<rparr>)"
proof -
  have "scores demo_cal = [(1200, Fin 0)]" "a_e8 demo_cal = 50000000"
    by (simp_all add: demo_cal_def demo_cal_simps BPS_def)
  moreover have "round64 7 = Fin 7" using round64_of_int [of 7] by simp
  ultimately show ?thesis
    by (simp add: upper_bound_def Let_def buffered_scores_def demo_policy_def last_n_def sorted_floats_def rank_def
        E8_def py_nth_def py_max_def py_float)
qed

theorem upper_bound_order_statistic_witness:
  "\<exists>q info. upper_bound demo_cal demo_policy (Fin 7) 1800 = Inr (Some (Fin 7), info) \<and> i_quantile info = Some q \<and>
     q \<in> set (buffered_scores demo_cal demo_policy 1800)"
  using upper_bound_order_statistic [OF demo_cal_inv demo_policy_ok demo_bound] demo_bound by auto

lemma policy_from_settings_Inr:
  assumes "settings_ok s" and "0 < lead"
  shows "\<exists>p. policy_from_settings s lead = Inr p \<and> policy_ok p \<and>
     rank_bps (p_min_windows p) (p_min_bps p) \<le> p_min_windows p"
proof -
  have "policy_ok \<lparr> p_lead_seconds = lead, p_nominal_bps = miscoverage_bps (risk s),
      p_eta_bps = cs_eta_bps (calibration s), p_min_bps = cs_min_miscoverage_bps (calibration s),
      p_max_bps = cs_max_miscoverage_bps (calibration s), p_min_windows = cs_min_windows (calibration s),
      p_max_scores = cs_max_scores (calibration s),
      p_retention_seconds = cs_retention_days (calibration s) * 86400 \<rparr>"
    using assms by (simp add: settings_ok_def risk_ok_def calibration_ok_def feasible_def policy_ok_def BPS_def Let_def)
  with assms show ?thesis
    by (auto simp: policy_from_settings_def Let_def settings_ok_def feasible_def)
qed

text \<open>A policy resolved from accepted settings can always be built, and with it a bound is unavailable only
  while there are too few scored windows; the rank never overflows the buffer.\<close>

theorem bound_available_iff_enough_windows:
  assumes "resolve_settings pa = Inr s" and "0 < lead" and "is_finite base" and "0 \<le> base"
  shows "\<exists>p. policy_from_settings s lead = Inr p \<and> policy_ok p \<and>
     (\<forall>st. cal_inv p st \<longrightarrow>
       (if int (length (buffered_scores st p now)) < p_min_windows p
        then \<exists>info. upper_bound st p base now = Inr (None, info) \<and>
               i_unavailable info = Some CalibrationInsufficient
        else \<exists>u info. upper_bound st p base now = Inr (Some u, info)))"
proof -
  obtain p where p: "policy_from_settings s lead = Inr p" "policy_ok p"
      "rank_bps (p_min_windows p) (p_min_bps p) \<le> p_min_windows p"
    using policy_from_settings_Inr [OF resolve_settings_ok [OF assms(1)] assms(2)] by blast
  have "rank (int (length (buffered_scores st p now))) (a_e8 st) \<le> int (length (buffered_scores st p now))"
    if "cal_inv p st" "\<not> int (length (buffered_scores st p now)) < p_min_windows p" for st
    using that policy_okD [OF p(2)]
    by (intro rank_feasible [OF p(3)]) (simp_all add: cal_inv_def level_ok_def)
  moreover have "\<not> base < 0" using assms(4) by (simp add: float_less_le)
  ultimately show ?thesis using p(1,2) assms(3)
    by (intro exI [of _ p]) (auto simp: upper_bound_def Let_def not_less not_le dest: leD)
qed

theorem bound_available_iff_enough_windows_witness:
  "\<exists>p info. policy_from_settings default_settings 600 = Inr p \<and>
     upper_bound (cal_initial p ''e'' ''m'' ''r'') p (Fin 7) 1800 = Inr (None, info) \<and>
     i_unavailable info = Some CalibrationInsufficient"
proof -
  obtain p where p: "policy_from_settings default_settings 600 = Inr p" "policy_ok p"
    and bound: "\<forall>st. cal_inv p st \<longrightarrow> (if int (length (buffered_scores st p 1800)) < p_min_windows p
        then \<exists>info. upper_bound st p (Fin 7) 1800 = Inr (None, info) \<and>
               i_unavailable info = Some CalibrationInsufficient
        else \<exists>u info. upper_bound st p (Fin 7) 1800 = Inr (Some u, info))"
    using bound_available_iff_enough_windows [OF resolve_settings_empty, of 600 "Fin 7" 1800]
    by (auto simp: zero_pyfloat_def)
  have "int (length (buffered_scores (cal_initial p ''e'' ''m'' ''r'') p 1800)) < p_min_windows p"
    using policy_okD [OF p(2)] by (simp add: buffered_scores_def cal_initial_def last_n_def)
  with bound cal_inv_initial [OF p(2)] p(1) show ?thesis by (smt (verit))
qed

text \<open>C17: folding records from the initial state keeps the level in its band, the buffer sorted and bounded, and the
  counters consistent.\<close>

theorem calibration_run_invariant:
  assumes "policy_ok p" and "\<forall>r \<in> set rs. record_ok r"
    and "apply_all (cal_initial p epoch model recipe) rs p = Inr st"
  shows "cal_inv p st"
  using apply_all_inv [OF cal_inv_initial [OF assms(1)] assms(1,2,3)] .

theorem calibration_run_invariant_witness:
  "cal_inv demo_policy demo_cal \<and>
   apply_all (cal_initial demo_policy ''e'' ''m'' ''r'') [demo_record 1] demo_policy = Inr demo_cal"
  using calibration_run_invariant [OF demo_policy_ok _ demo_cal_run] demo_record_ok demo_cal_run by simp

text \<open>Replaying any already folded records changes nothing.\<close>

theorem calibration_exactly_once:
  assumes "apply_all st rs p = Inr st'" and "set rs' \<subseteq> set rs"
  shows "apply_all st' rs' p = Inr st'"
  using apply_all_fields [OF assms(1)] assms(2) by (intro apply_all_old) auto

theorem calibration_exactly_once_witness: "apply_all demo_cal [demo_record 1, demo_record 1] demo_policy = Inr demo_cal"
  using calibration_exactly_once [OF demo_cal_run, of "[demo_record 1, demo_record 1]"]
  by (simp del: apply_all.simps)

text \<open>The adaptive level moves only on a new scored window of the gate cohort that had an issued bound, by
  \<open>eta * nominal\<close> up after a covered window and \<open>eta * (1 - nominal)\<close> down after a miss, clamped.\<close>

theorem level_moves_only_on_bounded_cohort_windows:
  assumes "apply_record st r p = Inr st'" and "a_e8 st' \<noteq> a_e8 st"
  shows "last_seq st < cr_seq r \<and> cr_status r = ''scored'' \<and> in_cohort (cr_origin r) (p_lead_seconds p) \<and>
     (\<exists>y u. cr_y r = Some y \<and> cr_upper r = Some u \<and>
        a_e8 st' = min (p_max_bps p * BPS) (max (p_min_bps p * BPS)
          (a_e8 st + p_eta_bps p * (p_nominal_bps p - (if u < y then BPS else 0)))))"
  using assms
  by (auto simp: apply_record_def Let_def apply_scored_def apply_unscorable_def move_level_a
      split: if_splits option.splits)

theorem level_moves_only_on_bounded_cohort_windows_witness:
  "\<exists>p st'. apply_record (cal_initial p ''e'' ''m'' ''r'') ((demo_record 1)\<lparr> cr_upper := Some (Fin 2) \<rparr>) p = Inr st' \<and>
     a_e8 st' \<noteq> a_e8 (cal_initial p ''e'' ''m'' ''r'') \<and> in_cohort 600 (p_lead_seconds p)"
proof -
  let ?p = "demo_policy\<lparr> p_min_bps := 100 \<rparr>"
  let ?r = "(demo_record 1)\<lparr> cr_upper := Some (Fin 2) \<rparr>"
  let ?st = "cal_initial ?p ''e'' ''m'' ''r''"
  obtain st' where st': "apply_record ?st ?r ?p = Inr st'" "a_e8 st' \<noteq> a_e8 ?st"
    by (simp add: demo_cal_simps move_level_def BPS_def)
  have "in_cohort 600 (p_lead_seconds ?p)"
    using level_moves_only_on_bounded_cohort_windows [OF st'] by (simp add: demo_record_def)
  with st' show ?thesis by blast
qed

end
