(* ===== verification/Trust_Ledger.thy ===== *)
theory Trust_Ledger
  imports Calibration
begin

text \<open>
  The evidence half of \<^verbatim>\<open>forecasting/trust.py\<close>: the per-candidate ledgers (hourly buckets, pending windows,
  recent outcomes, totals), their trailing-window sums, availability, and the paired challenger evidence.
  Dictionaries keyed by \<open>str(int)\<close> are association lists with integer keys, in insertion order.
\<close>

section \<open>Constants, records, ledgers\<close>

definition HOUR :: int where "HOUR = 3600"
definition DAY :: int where "DAY = 86400"
definition NAIVE :: string where "NAIVE = ''seasonal_naive''"
definition MODES :: "string list" where "MODES = [''prospective'', ''replay'']"
definition FALLBACK_ORDER :: "string list" where
  "FALLBACK_ORDER = [''lstm'', ''statistical'', ''seasonal_naive'']"

datatype trust_error = TrustError string | TrustTypeError

record evidence_record =
  e_cal :: cal_record
  e_mode :: string
  e_committed_at_ms :: int
  e_step_abs_errors :: "(pyfloat \<times> pyfloat \<times> pyfloat) option"

text \<open>The fields \<open>_FIELDS\<close> of an hourly bucket.\<close>

record bucket =
  iss :: int
  g_iss :: int
  sc :: int
  un :: int
  g_sc :: int
  g_un :: int
  a_bd :: int
  a_cv :: int
  g_bd :: int
  g_cv :: int
  n_step :: int
  pin :: pyfloat
  abs_err :: pyfloat
  bias :: pyfloat
  st0 :: pyfloat
  st1 :: pyfloat
  st2 :: pyfloat
  r_iss :: int
  r_sc :: int
  r_un :: int
  r_bd :: int
  r_cv :: int

definition zero_bucket :: bucket where
  "zero_bucket = \<lparr> iss = 0, g_iss = 0, sc = 0, un = 0, g_sc = 0, g_un = 0, a_bd = 0, a_cv = 0, g_bd = 0, g_cv = 0,
     n_step = 0, pin = 0, abs_err = 0, bias = 0, st0 = 0, st1 = 0, st2 = 0,
     r_iss = 0, r_sc = 0, r_un = 0, r_bd = 0, r_cv = 0 \<rparr>"

record totals =
  t_issued :: int
  t_covered :: int
  t_missed :: int
  t_unscorable :: int
  t_prospective_gate_bounded :: int
  t_replay_gate_bounded :: int

record ledger =
  l_epoch :: string
  l_model :: string
  l_recipe :: string
  l_interval_s :: int
  l_buckets :: "(int \<times> bucket) list"
  l_pending :: "(int \<times> int) list"
  l_recent :: "int list"
  l_consecutive_misses :: int
  l_first_prospective_s :: "int option"
  l_first_issue_s :: "int option"
  l_last_prospective_outcome_s :: "int option"
  l_last_outcome_seq :: int
  l_last_issuance_seq :: int
  l_newest_s :: "int option"
  l_totals :: totals

definition new_ledger :: "string \<Rightarrow> string \<Rightarrow> string \<Rightarrow> int \<Rightarrow> ledger" where
  "new_ledger epoch model recipe interval_s =
     \<lparr> l_epoch = epoch, l_model = model, l_recipe = recipe, l_interval_s = interval_s, l_buckets = [],
       l_pending = [], l_recent = [], l_consecutive_misses = 0, l_first_prospective_s = None,
       l_first_issue_s = None, l_last_prospective_outcome_s = None, l_last_outcome_seq = 0,
       l_last_issuance_seq = 0, l_newest_s = None,
       l_totals = \<lparr> t_issued = 0, t_covered = 0, t_missed = 0, t_unscorable = 0,
                    t_prospective_gate_bounded = 0, t_replay_gate_bounded = 0 \<rparr> \<rparr>"

text \<open>\<open>_bucket\<close> gives the bucket of a time, created when absent; the update the caller makes through the returned
  reference is \<open>f\<close>.\<close>

definition in_bucket :: "int \<Rightarrow> (bucket \<Rightarrow> bucket) \<Rightarrow> ledger \<Rightarrow> ledger" where
  "in_bucket t f s =
     (let key = t div HOUR;
          b = (case dict_get (l_buckets s) key of None \<Rightarrow> zero_bucket | Some b \<Rightarrow> b)
      in s\<lparr> l_buckets := dict_set key (f b) (l_buckets s) \<rparr>)"

definition prune :: "int \<Rightarrow> int \<Rightarrow> ledger \<Rightarrow> ledger" where
  "prune now_s retention_s s =
     (let newest = newest_of (l_newest_s s) now_s;
          floor_key = (newest - retention_s) div HOUR
      in s\<lparr> l_newest_s := Some newest,
            l_buckets := filter (\<lambda>(k, v). floor_key < k) (l_buckets s),
            l_pending := filter (\<lambda>(k, v). newest - DAY < k) (l_pending s) \<rparr>)"

definition same_identity :: "ledger \<Rightarrow> string \<Rightarrow> string \<Rightarrow> string \<Rightarrow> bool" where
  "same_identity s epoch model recipe \<longleftrightarrow> (epoch, model, recipe) = (l_epoch s, l_model s, l_recipe s)"

section \<open>Issuances and outcomes\<close>

text \<open>The keyword arguments of \<open>note_issuance\<close>.\<close>

record issuance_note =
  n_seq :: int
  n_issuance_id :: string
  n_epoch :: string
  n_model :: string
  n_recipe :: string
  n_origin :: int
  n_window_end :: int
  n_deadline_s :: int
  n_mode :: string
  n_bounded :: bool

definition of_bool_int :: "bool \<Rightarrow> int" where
  "of_bool_int b = (if b then 1 else 0)"

definition first_set :: "int option \<Rightarrow> bool \<Rightarrow> int \<Rightarrow> int option" where
  "first_set old b v = (if b \<and> old = None then Some v else old)"

definition note_prospective_issuance :: "issuance_note \<Rightarrow> int \<Rightarrow> ledger \<Rightarrow> ledger" where
  "note_prospective_issuance n lead_s s =
     (let s1 = in_bucket (n_origin n)
                 (\<lambda>b. b\<lparr> iss := iss b + 1, g_iss := g_iss b + of_bool_int (in_cohort (n_origin n) lead_s) \<rparr>) s
      in s1\<lparr> l_totals := (l_totals s1)\<lparr> t_issued := t_issued (l_totals s1) + 1 \<rparr>,
             l_pending := dict_set (n_window_end n) (n_deadline_s n) (l_pending s1),
             l_first_issue_s := first_set (l_first_issue_s s1) True (n_origin n),
             l_first_prospective_s := first_set (l_first_prospective_s s1) (n_bounded n) (n_origin n) \<rparr>)"

definition note_issuance :: "ledger \<Rightarrow> issuance_note \<Rightarrow> int \<Rightarrow> int \<Rightarrow> trust_error + ledger" where
  "note_issuance s n lead_s retention_s =
     (if \<not> same_identity s (n_epoch n) (n_model n) (n_recipe n) then Inl (TrustError ''identity'')
      else if n_seq n \<le> l_last_issuance_seq s then Inr s
      else if n_mode n \<notin> set MODES then Inl (TrustError ''mode'')
      else
        let s1 = s\<lparr> l_last_issuance_seq := n_seq n \<rparr>;
            s2 = (if n_mode n = ''replay'' then in_bucket (n_origin n) (\<lambda>b. b\<lparr> r_iss := r_iss b + 1 \<rparr>) s1
                  else note_prospective_issuance n lead_s s1)
        in Inr (prune (n_origin n) retention_s s2))"

definition note_replay_outcome :: "cal_record \<Rightarrow> bool \<Rightarrow> bool \<Rightarrow> bool \<Rightarrow> ledger \<Rightarrow> ledger" where
  "note_replay_outcome c gate scored covered s =
     (let s1 = in_bucket (cr_window_end c)
                 (\<lambda>b. if scored then b\<lparr> r_sc := r_sc b + 1 \<rparr> else b\<lparr> r_un := r_un b + 1 \<rparr>) s
      in if scored \<and> gate \<and> cr_upper c \<noteq> None
         then (in_bucket (cr_window_end c)
                 (\<lambda>b. b\<lparr> r_bd := r_bd b + 1, r_cv := r_cv b + of_bool_int covered \<rparr>) s1)
              \<lparr> l_totals := (l_totals s1)\<lparr> t_replay_gate_bounded := t_replay_gate_bounded (l_totals s1) + 1 \<rparr> \<rparr>
         else s1)"

definition note_unscorable :: "cal_record \<Rightarrow> bool \<Rightarrow> ledger \<Rightarrow> ledger" where
  "note_unscorable c gate s =
     (let s1 = in_bucket (cr_window_end c)
                 (\<lambda>b. b\<lparr> un := un b + 1, g_un := g_un b + of_bool_int gate \<rparr>) s
      in s1\<lparr> l_totals := (l_totals s1)\<lparr> t_unscorable := t_unscorable (l_totals s1) + 1 \<rparr> \<rparr>)"

text \<open>The bucket counts of a scored prospective outcome.\<close>

definition count_steps :: "(pyfloat \<times> pyfloat \<times> pyfloat) option \<Rightarrow> bucket \<Rightarrow> bucket" where
  "count_steps errs b =
     (case errs of None \<Rightarrow> b
      | Some (v0, v1, v2) \<Rightarrow> b\<lparr> n_step := n_step b + 1, st0 := st0 b + v0, st1 := st1 b + v1, st2 := st2 b + v2 \<rparr>)"

definition count_outcome :: "evidence_record \<Rightarrow> bool \<Rightarrow> pyfloat \<Rightarrow> bucket \<Rightarrow> bucket" where
  "count_outcome r gate y b =
     (let base = cr_base (e_cal r)
      in count_steps (e_step_abs_errors r)
           (b\<lparr> sc := sc b + 1, g_sc := g_sc b + of_bool_int gate,
               abs_err := abs_err b + \<bar>y - base\<bar>, bias := bias b + (base - y) \<rparr>))"

definition count_bound :: "bool \<Rightarrow> bool \<Rightarrow> pyfloat \<Rightarrow> pyfloat \<Rightarrow> pyfloat \<Rightarrow> bucket \<Rightarrow> bucket" where
  "count_bound gate covered y u nominal b =
     (let b1 = b\<lparr> a_bd := a_bd b + 1, a_cv := a_cv b + of_bool_int covered \<rparr>
      in if gate then b1\<lparr> g_bd := g_bd b + 1, g_cv := g_cv b + of_bool_int covered,
                          pin := pin b + pinball_rps y u nominal \<rparr>
         else b1)"

definition note_bounded :: "cal_record \<Rightarrow> bool \<Rightarrow> bool \<Rightarrow> nat \<Rightarrow> ledger \<Rightarrow> ledger" where
  "note_bounded c gate covered recent_n s =
     (let t = l_totals s;
          t1 = (if covered then t\<lparr> t_covered := t_covered t + 1 \<rparr> else t\<lparr> t_missed := t_missed t + 1 \<rparr>)
      in if gate
         then s\<lparr> l_totals := t1\<lparr> t_prospective_gate_bounded := t_prospective_gate_bounded t1 + 1 \<rparr>,
                 l_recent := last_n recent_n (l_recent s @ [of_bool_int covered]),
                 l_consecutive_misses := (if covered then 0 else l_consecutive_misses s + 1),
                 l_last_prospective_outcome_s := Some (cr_window_end c) \<rparr>
         else s\<lparr> l_totals := t1 \<rparr>)"

definition note_scored :: "evidence_record \<Rightarrow> bool \<Rightarrow> pyfloat \<Rightarrow> pyfloat \<Rightarrow> nat \<Rightarrow> ledger \<Rightarrow> ledger" where
  "note_scored r gate y nominal recent_n s =
     (let c = e_cal r; s1 = in_bucket (cr_window_end c) (count_outcome r gate y) s
      in case cr_upper c of
           None \<Rightarrow> s1
         | Some u \<Rightarrow>
             note_bounded c gate (y \<le> u) recent_n
               (in_bucket (cr_window_end c) (count_bound gate (y \<le> u) y u nominal) s1))"

definition note_outcome ::
  "ledger \<Rightarrow> evidence_record \<Rightarrow> int \<Rightarrow> pyfloat \<Rightarrow> nat \<Rightarrow> int \<Rightarrow> trust_error + ledger" where
  "note_outcome s r lead_s nominal recent_n retention_s =
     (let c = e_cal r in
      if \<not> same_identity s (cr_epoch c) (cr_model c) (cr_recipe c) then Inl (TrustError ''identity'')
      else if cr_seq c \<le> l_last_outcome_seq s then Inr s
      else
        let s1 = s\<lparr> l_last_outcome_seq := cr_seq c, l_pending := dict_pop (cr_window_end c) (l_pending s) \<rparr>;
            gate = in_cohort (cr_origin c) lead_s;
            scored = (cr_status c = ''scored'')
        in if e_mode r = ''replay''
           then if scored \<and> cr_upper c \<noteq> None \<and> cr_y c = None then Inl TrustTypeError
                else let covered = (case (cr_upper c, cr_y c) of (Some u, Some y) \<Rightarrow> scored \<and> y \<le> u | _ \<Rightarrow> False)
                     in Inr (prune (cr_window_end c) retention_s (note_replay_outcome c gate scored covered s1))
           else if \<not> scored then Inr (prune (cr_window_end c) retention_s (note_unscorable c gate s1))
           else case cr_y c of
                  None \<Rightarrow> Inl TrustTypeError
                | Some y \<Rightarrow> Inr (prune (cr_window_end c) retention_s (note_scored r gate y nominal recent_n s1)))"

section \<open>Trailing windows\<close>

definition hours :: "int \<Rightarrow> int \<Rightarrow> int \<times> int" where
  "hours now_s seconds = (cdiv (now_s - seconds) HOUR, now_s div HOUR)"

definition in_hours :: "int \<Rightarrow> int \<Rightarrow> int \<Rightarrow> bool" where
  "in_hours now_s seconds k \<longleftrightarrow> fst (hours now_s seconds) \<le> k \<and> k \<le> snd (hours now_s seconds)"

definition add_bucket :: "bucket \<Rightarrow> bucket \<Rightarrow> bucket" where
  "add_bucket x v = \<lparr> iss = iss x + iss v, g_iss = g_iss x + g_iss v, sc = sc x + sc v, un = un x + un v,
     g_sc = g_sc x + g_sc v, g_un = g_un x + g_un v, a_bd = a_bd x + a_bd v, a_cv = a_cv x + a_cv v,
     g_bd = g_bd x + g_bd v, g_cv = g_cv x + g_cv v, n_step = n_step x + n_step v, pin = pin x + pin v,
     abs_err = abs_err x + abs_err v, bias = bias x + bias v, st0 = st0 x + st0 v, st1 = st1 x + st1 v,
     st2 = st2 x + st2 v, r_iss = r_iss x + r_iss v, r_sc = r_sc x + r_sc v, r_un = r_un x + r_un v,
     r_bd = r_bd x + r_bd v, r_cv = r_cv x + r_cv v \<rparr>"

definition window_sums :: "ledger \<Rightarrow> int \<Rightarrow> int \<Rightarrow> bucket" where
  "window_sums s now_s seconds =
     foldl (\<lambda>acc (k, v). if in_hours now_s seconds k then add_bucket acc v else acc) zero_bucket (l_buckets s)"

definition overdue :: "ledger \<Rightarrow> int \<Rightarrow> int \<Rightarrow> int" where
  "overdue s now_s seconds =
     int (length (filter (\<lambda>(e, deadline). in_hours now_s seconds (e div HOUR) \<and> deadline \<le> now_s) (l_pending s)))"

definition expected_opportunities :: "ledger \<Rightarrow> int \<Rightarrow> int \<Rightarrow> int" where
  "expected_opportunities s now_s seconds =
     (case l_first_issue_s s of
        None \<Rightarrow> 0
      | Some first \<Rightarrow>
          let dt = l_interval_s s;
              start = cdiv (max (fst (hours now_s seconds) * HOUR) first) dt * dt;
              final = now_s div dt * dt
          in if start \<le> final then (final - start) div dt + 1 else 0)"

definition ratio :: "int \<Rightarrow> int \<Rightarrow> pyfloat option" where
  "ratio num den = (if den \<noteq> 0 then Some (int_div num den) else None)"

record availability_info =
  av_outcomes :: "pyfloat option"
  av_predictions :: "pyfloat option"
  av_overdue :: int

definition availability :: "ledger \<Rightarrow> int \<Rightarrow> int \<Rightarrow> availability_info" where
  "availability s now_s seconds =
     (let w = window_sums s now_s seconds;
          late = overdue s now_s seconds;
          expected = expected_opportunities s now_s seconds
      in \<lparr> av_outcomes = ratio (sc w) (sc w + un w + late),
           av_predictions = ratio (min (iss w) expected) expected,
           av_overdue = late \<rparr>)"

definition add_day :: "int \<times> bucket \<Rightarrow> (int \<times> int \<times> int) list \<Rightarrow> (int \<times> int \<times> int) list" where
  "add_day kv days =
     (let d = fst kv * HOUR div DAY; v = snd kv
      in case dict_get days d of
           None \<Rightarrow> dict_set d (0 + g_bd v, 0 + g_cv v) days
         | Some (bd, cv) \<Rightarrow> dict_set d (bd + g_bd v, cv + g_cv v) days)"

definition daily_gate_coverage :: "ledger \<Rightarrow> int \<Rightarrow> int \<Rightarrow> (int \<times> int \<times> int) list" where
  "daily_gate_coverage s now_s seconds =
     sort_key fst (fold add_day (filter (\<lambda>(k, v). in_hours now_s seconds k) (l_buckets s)) [])"

section \<open>Paired challenger evidence\<close>

record pair_bucket =
  pb_n :: int
  pb_chal :: pyfloat
  pb_base :: pyfloat
  pb_first :: int
  pb_last :: int

record pairs =
  pr_epoch :: string
  pr_challenger :: string
  pr_baseline :: string
  pr_recipes :: "(string \<times> string) list"
  pr_pending :: "(int \<times> (string \<times> pyfloat \<times> string)) list"
  pr_buckets :: "(int \<times> pair_bucket) list"
  pr_last_seq :: int

definition new_pairs :: "string \<Rightarrow> string \<Rightarrow> string \<Rightarrow> string \<Rightarrow> string \<Rightarrow> pairs" where
  "new_pairs epoch challenger challenger_recipe baseline_recipe baseline =
     \<lparr> pr_epoch = epoch, pr_challenger = challenger, pr_baseline = baseline,
       pr_recipes = dict_set baseline baseline_recipe (dict_set challenger challenger_recipe []),
       pr_pending = [], pr_buckets = [], pr_last_seq = 0 \<rparr>"

definition add_pair :: "int \<Rightarrow> pyfloat \<Rightarrow> pyfloat \<Rightarrow> (int \<times> pair_bucket) list \<Rightarrow> (int \<times> pair_bucket) list" where
  "add_pair w chal base bs =
     (let key = w div HOUR;
          b = (case dict_get bs key of
                 None \<Rightarrow> \<lparr> pb_n = 0, pb_chal = 0, pb_base = 0, pb_first = w, pb_last = w \<rparr> | Some b \<Rightarrow> b)
      in dict_set key \<lparr> pb_n = pb_n b + 1, pb_chal = pb_chal b + chal, pb_base = pb_base b + base,
                        pb_first = min (pb_first b) w, pb_last = max (pb_last b) w \<rparr> bs)"

definition prune_pairs :: "int \<Rightarrow> int \<Rightarrow> pairs \<Rightarrow> pairs" where
  "prune_pairs w retention_s s =
     s\<lparr> pr_buckets := filter (\<lambda>(k, v). (w - retention_s) div HOUR < k) (pr_buckets s),
        pr_pending := filter (\<lambda>(k, v). w - DAY < k) (pr_pending s) \<rparr>"

definition pair_up :: "cal_record \<Rightarrow> pyfloat \<Rightarrow> pairs \<Rightarrow> pairs" where
  "pair_up c loss s =
     (let w = cr_window_end c;
          s1 = s\<lparr> pr_pending := dict_pop w (pr_pending s) \<rparr>;
          waiting = s1\<lparr> pr_pending := dict_set w (cr_model c, loss, cr_issuance_id c) (pr_pending s1) \<rparr>
      in case dict_get (pr_pending s) w of
           None \<Rightarrow> waiting
         | Some (m, l, iid) \<Rightarrow>
             if m = cr_model c \<or> iid \<noteq> cr_issuance_id c then waiting
             else let (chal, base) = (if cr_model c = pr_challenger s then (loss, l) else (l, loss))
                  in s1\<lparr> pr_buckets := add_pair w chal base (pr_buckets s) \<rparr>)"

definition note_pair :: "pairs \<Rightarrow> evidence_record \<Rightarrow> int \<Rightarrow> pyfloat \<Rightarrow> int \<Rightarrow> trust_error + pairs" where
  "note_pair s r lead_s nominal retention_s =
     (let c = e_cal r in
      if cr_epoch c \<noteq> pr_epoch s \<or> dict_get (pr_recipes s) (cr_model c) = None \<or> cr_seq c \<le> pr_last_seq s then Inr s
      else if dict_get (pr_recipes s) (cr_model c) \<noteq> Some (cr_recipe c) then Inl (TrustError ''recipe'')
      else
        let s1 = s\<lparr> pr_last_seq := cr_seq c \<rparr> in
        if e_mode r \<noteq> ''prospective'' \<or> cr_status c \<noteq> ''scored'' \<or> cr_upper c = None \<or>
           \<not> in_cohort (cr_origin c) lead_s then Inr s1
        else case (cr_y c, cr_upper c) of
               (Some y, Some u) \<Rightarrow>
                 Inr (prune_pairs (cr_window_end c) retention_s (pair_up c (pinball_rps y u nominal) s1))
             | _ \<Rightarrow> Inl TrustTypeError)"

record pair_totals =
  ps_n :: int
  ps_chal :: pyfloat
  ps_base :: pyfloat
  ps_first :: "int option"
  ps_last :: "int option"

definition opt_with :: "(int \<Rightarrow> int \<Rightarrow> int) \<Rightarrow> int option \<Rightarrow> int \<Rightarrow> int option" where
  "opt_with f old v = Some (case old of None \<Rightarrow> v | Some w \<Rightarrow> f w v)"

definition pair_sums :: "pairs \<Rightarrow> int \<Rightarrow> int \<Rightarrow> pair_totals" where
  "pair_sums s now_s seconds =
     foldl (\<lambda>out (k, v).
        if in_hours now_s seconds k
        then \<lparr> ps_n = ps_n out + pb_n v, ps_chal = ps_chal out + pb_chal v, ps_base = ps_base out + pb_base v,
               ps_first = opt_with min (ps_first out) (pb_first v),
               ps_last = opt_with max (ps_last out) (pb_last v) \<rparr>
        else out)
       \<lparr> ps_n = 0, ps_chal = 0, ps_base = 0, ps_first = None, ps_last = None \<rparr> (pr_buckets s)"

definition pair_span :: "pair_totals \<Rightarrow> int" where
  \<comment> \<open>\<open>last - first if n else 0\<close>; the ends are set together with the first bucket counted\<close>
  "pair_span ps = (case (ps_first ps, ps_last ps) of (Some f, Some l) \<Rightarrow> if ps_n ps \<noteq> 0 then l - f else 0 | _ \<Rightarrow> 0)"

section \<open>Buckets\<close>

definition bucket_at :: "ledger \<Rightarrow> int \<Rightarrow> bucket" where
  "bucket_at s k = (case dict_get (l_buckets s) k of None \<Rightarrow> zero_bucket | Some b \<Rightarrow> b)"

definition bucket_ok :: "bucket \<Rightarrow> bool" where
  "bucket_ok b \<longleftrightarrow>
     0 \<le> g_iss b \<and> g_iss b \<le> iss b \<and> 0 \<le> g_un b \<and> g_un b \<le> un b \<and>
     0 \<le> g_cv b \<and> g_cv b \<le> g_bd b \<and> g_bd b \<le> g_sc b \<and> g_sc b \<le> sc b \<and>
     g_cv b \<le> a_cv b \<and> a_cv b \<le> a_bd b \<and> g_bd b \<le> a_bd b \<and> a_bd b \<le> sc b \<and>
     a_bd b - g_bd b \<le> sc b - g_sc b \<and> a_cv b - g_cv b \<le> a_bd b - g_bd b \<and>
     0 \<le> n_step b \<and> n_step b \<le> sc b \<and> 0 \<le> r_iss b \<and> 0 \<le> r_un b \<and> 0 \<le> r_cv b \<and>
     r_cv b \<le> r_bd b \<and> r_bd b \<le> r_sc b"

lemma bucket_ok_zero [simp]: "bucket_ok zero_bucket"
  by (simp add: bucket_ok_def zero_bucket_def)

lemma bucket_ok_add: "bucket_ok x \<Longrightarrow> bucket_ok v \<Longrightarrow> bucket_ok (add_bucket x v)"
  by (simp add: bucket_ok_def add_bucket_def)

lemma bucket_at_in_bucket: "bucket_at (in_bucket t f s) k = (if k = t div HOUR then f (bucket_at s k) else bucket_at s k)"
  by (auto simp: bucket_at_def in_bucket_def Let_def py_dict split: option.splits)

lemma in_bucket_twice: "in_bucket t f (in_bucket t g s) = in_bucket t (\<lambda>b. f (g b)) s"
  by (simp add: in_bucket_def Let_def py_dict)

lemma in_bucket_fields [simp]:
  "l_epoch (in_bucket t f s) = l_epoch s" "l_model (in_bucket t f s) = l_model s"
  "l_recipe (in_bucket t f s) = l_recipe s" "l_pending (in_bucket t f s) = l_pending s"
  "l_interval_s (in_bucket t f s) = l_interval_s s"
  "l_recent (in_bucket t f s) = l_recent s" "l_newest_s (in_bucket t f s) = l_newest_s s"
  "l_consecutive_misses (in_bucket t f s) = l_consecutive_misses s"
  "l_first_prospective_s (in_bucket t f s) = l_first_prospective_s s"
  "l_first_issue_s (in_bucket t f s) = l_first_issue_s s"
  "l_last_outcome_seq (in_bucket t f s) = l_last_outcome_seq s"
  "l_last_issuance_seq (in_bucket t f s) = l_last_issuance_seq s" "l_totals (in_bucket t f s) = l_totals s"
  by (simp_all add: in_bucket_def Let_def)

lemma prune_fields [simp]:
  "l_epoch (prune t r s) = l_epoch s" "l_model (prune t r s) = l_model s" "l_recipe (prune t r s) = l_recipe s"
  "l_interval_s (prune t r s) = l_interval_s s" "l_recent (prune t r s) = l_recent s"
  "l_consecutive_misses (prune t r s) = l_consecutive_misses s"
  "l_first_prospective_s (prune t r s) = l_first_prospective_s s"
  "l_first_issue_s (prune t r s) = l_first_issue_s s"
  "l_last_outcome_seq (prune t r s) = l_last_outcome_seq s"
  "l_last_issuance_seq (prune t r s) = l_last_issuance_seq s" "l_totals (prune t r s) = l_totals s"
  "l_newest_s (prune t r s) = Some (newest_of (l_newest_s s) t)"
  by (simp_all add: prune_def Let_def)

lemma bucket_at_prune:
  "bucket_at (prune t r s) k =
     (if (newest_of (l_newest_s s) t - r) div HOUR < k then bucket_at s k else zero_bucket)"
  by (simp add: bucket_at_def prune_def Let_def dict_get_filter_key)

text \<open>The integer sums of a trailing window, hour by hour.\<close>

lemma foldl_dict_sum:
  fixes f :: "bucket \<Rightarrow> int"
  assumes "dict_wf bs" and "\<And>x v. f (add_bucket x v) = f x + f v"
  shows "f (foldl (\<lambda>acc (k, v). if P k then add_bucket acc v else acc) a bs) =
     f a + (\<Sum>k \<in> {k \<in> fst ` set bs. P k}. f (the (map_of bs k)))"
  using assms(1)
proof (induction bs arbitrary: a)
  case (Cons kv bs)
  obtain k v where kv: "kv = (k, v)" by (cases kv)
  let ?K = "{j \<in> fst ` set bs. P j}"
  have k: "k \<notin> ?K" using Cons.prems kv by auto
  have rest: "(\<Sum>j \<in> ?K. f (the (map_of (kv # bs) j))) = (\<Sum>j \<in> ?K. f (the (map_of bs j)))"
    using k by (intro sum.cong) (auto simp: kv)
  have keys: "{j \<in> fst ` set (kv # bs). P j} = (if P k then insert k ?K else ?K)"
    by (auto simp: kv)
  show ?case
    using Cons k rest unfolding keys by (auto simp: kv assms(2))
qed simp

lemma window_sums_field:
  fixes f :: "bucket \<Rightarrow> int"
  assumes "dict_wf (l_buckets s)" and "\<And>x v. f (add_bucket x v) = f x + f v" and "f zero_bucket = 0"
  shows "f (window_sums s now_s seconds) =
     (\<Sum>k = fst (hours now_s seconds)..snd (hours now_s seconds). f (bucket_at s k))"
proof -
  let ?K = "{k \<in> fst ` set (l_buckets s). in_hours now_s seconds k}"
  have "f (window_sums s now_s seconds) = (\<Sum>k \<in> ?K. f (the (map_of (l_buckets s) k)))"
    unfolding window_sums_def foldl_dict_sum [OF assms(1,2)] using assms(3) by simp
  also have "\<dots> = (\<Sum>k \<in> ?K. f (bucket_at s k))"
    by (intro sum.cong) (auto simp: bucket_at_def dest!: iffD2 [OF not_None_eq] split: option.splits
        simp: map_of_eq_None_iff image_iff)
  also have "\<dots> = (\<Sum>k = fst (hours now_s seconds)..snd (hours now_s seconds). f (bucket_at s k))"
    using assms(3) by (intro sum.mono_neutral_left)
      (auto simp: in_hours_def bucket_at_def map_of_eq_None_iff split: option.splits dest: map_of_SomeD
        intro: rev_image_eqI)
  finally show ?thesis .
qed

lemma window_sums_ok:
  assumes "\<forall>(k, b) \<in> set (l_buckets s). bucket_ok b"
  shows "bucket_ok (window_sums s now_s seconds)"
proof -
  have "bucket_ok (foldl (\<lambda>acc (k, v). if in_hours now_s seconds k then add_bucket acc v else acc) a bs)"
    if "bucket_ok a" "\<forall>(k, b) \<in> set bs. bucket_ok b" for a bs
    using that by (induction bs arbitrary: a) (auto simp: bucket_ok_add)
  then show ?thesis using assms unfolding window_sums_def by simp
qed

section \<open>The ledger invariant\<close>

definition keys_ok :: "int \<Rightarrow> ledger \<Rightarrow> bool" where
  "keys_ok retention_s s \<longleftrightarrow>
     (case l_newest_s s of
        None \<Rightarrow> l_buckets s = [] \<and> l_pending s = []
      | Some n \<Rightarrow> 0 \<le> n \<and> (\<forall>k \<in> fst ` set (l_buckets s). (n - retention_s) div HOUR < k \<and> k \<le> n div HOUR) \<and>
                  (\<forall>k \<in> fst ` set (l_pending s). n - DAY < k))"

definition totals_ok :: "totals \<Rightarrow> bool" where
  "totals_ok t \<longleftrightarrow> 0 \<le> t_issued t \<and> 0 \<le> t_covered t \<and> 0 \<le> t_missed t \<and> 0 \<le> t_unscorable t \<and>
     0 \<le> t_prospective_gate_bounded t \<and> 0 \<le> t_replay_gate_bounded t \<and>
     t_prospective_gate_bounded t \<le> t_covered t + t_missed t"

definition recent_ok :: "nat \<Rightarrow> ledger \<Rightarrow> bool" where
  "recent_ok recent_n s \<longleftrightarrow> length (l_recent s) \<le> recent_n \<and> set (l_recent s) \<subseteq> {0, 1} \<and> 0 \<le> l_consecutive_misses s"

definition ledger_ok :: "nat \<Rightarrow> int \<Rightarrow> ledger \<Rightarrow> bool" where
  "ledger_ok recent_n retention_s s \<longleftrightarrow>
     dict_wf (l_buckets s) \<and> dict_wf (l_pending s) \<and> (\<forall>k. bucket_ok (bucket_at s k)) \<and>
     keys_ok retention_s s \<and> totals_ok (l_totals s) \<and> recent_ok recent_n s"

lemma ledger_ok_buckets: "ledger_ok n r s \<Longrightarrow> \<forall>(k, b) \<in> set (l_buckets s). bucket_ok b"
proof (clarify)
  fix k b
  assume "ledger_ok n r s" and "(k, b) \<in> set (l_buckets s)"
  moreover from this have "bucket_at s k = b" by (simp add: ledger_ok_def bucket_at_def)
  ultimately show "bucket_ok b" by (auto simp: ledger_ok_def)
qed

lemma ledger_ok_new: "ledger_ok n r (new_ledger e m c dt)"
  by (simp add: ledger_ok_def new_ledger_def bucket_at_def keys_ok_def totals_ok_def recent_ok_def)

text \<open>One fold of an event is: bookkeeping, bucket updates at one time, and a prune at that time.\<close>

lemma newest_of_ge: "t \<le> newest_of n t" "0 \<le> t \<Longrightarrow> 0 \<le> newest_of n t"
    "0 \<le> t \<Longrightarrow> n = Some m \<Longrightarrow> 0 \<le> m \<Longrightarrow> m \<le> newest_of n t"
  by (auto simp: newest_of_def split: option.splits)

lemma prune_keys_ok:
  assumes "0 \<le> t" and "keys_ok r s0" and "l_newest_s s = l_newest_s s0"
    and "fst ` set (l_buckets s) \<subseteq> insert (t div HOUR) (fst ` set (l_buckets s0))"
  shows "keys_ok r (prune t r s)"
proof -
  let ?n = "newest_of (l_newest_s s) t"
  have up: "k \<le> ?n div HOUR" if "k \<in> fst ` set (l_buckets s)" for k
  proof (cases "k = t div HOUR")
    case True
    then show ?thesis using newest_of_ge(1) by (simp add: zdiv_mono1 HOUR_def)
  next
    case False
    then have "k \<in> fst ` set (l_buckets s0)" using that assms(4) by auto
    then obtain m where m: "l_newest_s s0 = Some m" "0 \<le> m" "k \<le> m div HOUR"
      using assms(2) by (auto simp: keys_ok_def split: option.splits)
    then have "m \<le> ?n" using newest_of_ge(3) [OF assms(1)] assms(3) by simp
    then have "m div HOUR \<le> ?n div HOUR" by (simp add: zdiv_mono1 HOUR_def)
    with m show ?thesis by simp
  qed
  then show ?thesis
    using newest_of_ge(2) [OF assms(1)] unfolding keys_ok_def by (auto simp: prune_def Let_def)
qed

lemma prune_ok:
  assumes "ledger_ok n r s0" and "0 \<le> t" and "l_newest_s s = l_newest_s s0"
    and "fst ` set (l_buckets s) \<subseteq> insert (t div HOUR) (fst ` set (l_buckets s0))"
    and "dict_wf (l_buckets s)" and "dict_wf (l_pending s)" and "\<forall>k. bucket_ok (bucket_at s k)"
    and "totals_ok (l_totals s)" and "recent_ok n s"
  shows "ledger_ok n r (prune t r s)"
proof -
  have "keys_ok r (prune t r s)" using assms(1-4) by (intro prune_keys_ok) (auto simp: ledger_ok_def)
  moreover have "dict_wf (l_buckets (prune t r s))" "dict_wf (l_pending (prune t r s))"
    using assms(5,6) by (simp_all add: prune_def Let_def dict_wf_filter)
  moreover have "recent_ok n (prune t r s)" using assms(9) by (simp add: recent_ok_def)
  ultimately show ?thesis using assms(7,8) by (simp add: ledger_ok_def bucket_at_prune)
qed

lemma in_bucket_keys: "fst ` set (l_buckets (in_bucket t f s)) = insert (t div HOUR) (fst ` set (l_buckets s))"
  by (auto simp: in_bucket_def Let_def dom_update)

lemma fold_event_ok:
  assumes s0: "ledger_ok n r s0" and "0 \<le> t"
    and bks: "l_buckets s = l_buckets (in_bucket t f s0)" and f: "\<And>b. bucket_ok b \<Longrightarrow> bucket_ok (f b)"
    and "l_newest_s s = l_newest_s s0" and "dict_wf (l_pending s)"
    and "totals_ok (l_totals s)" and "recent_ok n s"
  shows "ledger_ok n r (prune t r s)"
proof (rule prune_ok [OF s0 assms(2,5) _ _ assms(6) _ assms(7,8)])
  show "fst ` set (l_buckets s) \<subseteq> insert (t div HOUR) (fst ` set (l_buckets s0))"
    by (simp add: bks in_bucket_keys)
  show "dict_wf (l_buckets s)"
    using s0 by (simp add: bks in_bucket_def Let_def ledger_ok_def dict_wf_set)
  have "bucket_at s k = bucket_at (in_bucket t f s0) k" for k by (simp add: bucket_at_def bks)
  then show "\<forall>k. bucket_ok (bucket_at s k)"
    using s0 f by (simp add: bucket_at_in_bucket ledger_ok_def)
qed

lemma ledger_ok_book:
  assumes ok: "ledger_ok n r s" and eqs: "l_buckets s' = l_buckets s" "l_newest_s s' = l_newest_s s"
      "l_totals s' = l_totals s" "l_recent s' = l_recent s" "l_consecutive_misses s' = l_consecutive_misses s"
    and pend: "dict_wf (l_pending s')" "fst ` set (l_pending s') \<subseteq> fst ` set (l_pending s)"
  shows "ledger_ok n r s'"
proof -
  have "bucket_at s' k = bucket_at s k" for k by (simp add: bucket_at_def eqs)
  moreover have "keys_ok r s'"
  proof (cases "l_newest_s s")
    case None
    then show ?thesis using ok pend(2) by (simp add: ledger_ok_def keys_ok_def eqs)
  next
    case (Some m)
    then have "\<forall>k \<in> fst ` set (l_pending s). m - DAY < k" using ok by (simp add: ledger_ok_def keys_ok_def)
    then have "\<forall>k \<in> fst ` set (l_pending s'). m - DAY < k" using pend(2) by (meson subsetD)
    then show ?thesis using ok Some by (simp add: ledger_ok_def keys_ok_def eqs)
  qed
  ultimately show ?thesis using ok pend(1) by (simp add: ledger_ok_def recent_ok_def eqs)
qed

lemma note_issuance_ok:
  assumes "ledger_ok n r s" and "0 \<le> n_origin i" and "note_issuance s i lead r = Inr s'"
  shows "ledger_ok n r s'"
proof -
  let ?s1 = "s\<lparr> l_last_issuance_seq := n_seq i \<rparr>"
  have ok: "dict_wf (l_pending s)" "totals_ok (l_totals s)" "recent_ok n s" using assms(1) by (simp_all add: ledger_ok_def)
  have s1: "ledger_ok n r ?s1" by (rule ledger_ok_book [OF assms(1)]) (simp_all add: ok)
  from assms(3) consider "s' = s" | "s' = prune (n_origin i) r (in_bucket (n_origin i) (\<lambda>b. b\<lparr> r_iss := r_iss b + 1 \<rparr>) ?s1)"
    | "s' = prune (n_origin i) r (note_prospective_issuance i lead ?s1)"
    by (auto simp: note_issuance_def Let_def split: if_splits)
  then show ?thesis
  proof cases
    case 2
    show ?thesis unfolding 2
      by (rule fold_event_ok [OF s1 assms(2) refl]) (use ok in \<open>auto simp: bucket_ok_def recent_ok_def\<close>)
  next
    case 3
    show ?thesis unfolding 3
      by (rule fold_event_ok [OF s1 assms(2), where f = "\<lambda>b. b\<lparr> iss := iss b + 1,
              g_iss := g_iss b + of_bool_int (in_cohort (n_origin i) lead) \<rparr>"])
        (use ok in \<open>auto simp: note_prospective_issuance_def Let_def bucket_ok_def recent_ok_def of_bool_int_def
           totals_ok_def dict_wf_set in_bucket_def\<close>)
  qed (use assms(1) in simp)
qed

lemma count_outcome_ints:
  "iss (count_outcome r gate y b) = iss b" "g_iss (count_outcome r gate y b) = g_iss b"
  "sc (count_outcome r gate y b) = sc b + 1" "g_sc (count_outcome r gate y b) = g_sc b + of_bool_int gate"
  "un (count_outcome r gate y b) = un b" "g_un (count_outcome r gate y b) = g_un b"
  "a_bd (count_outcome r gate y b) = a_bd b" "a_cv (count_outcome r gate y b) = a_cv b"
  "g_bd (count_outcome r gate y b) = g_bd b" "g_cv (count_outcome r gate y b) = g_cv b"
  "n_step (count_outcome r gate y b) = n_step b + of_bool_int (e_step_abs_errors r \<noteq> None)"
  "r_iss (count_outcome r gate y b) = r_iss b" "r_sc (count_outcome r gate y b) = r_sc b"
  "r_un (count_outcome r gate y b) = r_un b" "r_bd (count_outcome r gate y b) = r_bd b"
  "r_cv (count_outcome r gate y b) = r_cv b"
  by (auto simp: count_outcome_def count_steps_def Let_def of_bool_int_def split: option.splits)

definition scored_bucket :: "evidence_record \<Rightarrow> bool \<Rightarrow> pyfloat \<Rightarrow> pyfloat \<Rightarrow> bucket \<Rightarrow> bucket" where
  "scored_bucket r gate y nominal b =
     (case cr_upper (e_cal r) of
        None \<Rightarrow> count_outcome r gate y b
      | Some u \<Rightarrow> count_bound gate (y \<le> u) y u nominal (count_outcome r gate y b))"

lemma scored_bucket_ok: "bucket_ok b \<Longrightarrow> bucket_ok (scored_bucket r gate y nominal b)"
  by (auto simp: scored_bucket_def count_bound_def Let_def bucket_ok_def count_outcome_ints of_bool_int_def
      split: option.splits)

lemma note_bounded_fields [simp]:
  "l_buckets (note_bounded c gate cov rn s) = l_buckets s" "l_pending (note_bounded c gate cov rn s) = l_pending s"
  "l_newest_s (note_bounded c gate cov rn s) = l_newest_s s"
  "l_epoch (note_bounded c gate cov rn s) = l_epoch s" "l_model (note_bounded c gate cov rn s) = l_model s"
  "l_recipe (note_bounded c gate cov rn s) = l_recipe s"
  "l_interval_s (note_bounded c gate cov rn s) = l_interval_s s"
  "l_first_prospective_s (note_bounded c gate cov rn s) = l_first_prospective_s s"
  "l_first_issue_s (note_bounded c gate cov rn s) = l_first_issue_s s"
  "l_last_outcome_seq (note_bounded c gate cov rn s) = l_last_outcome_seq s"
  "l_last_issuance_seq (note_bounded c gate cov rn s) = l_last_issuance_seq s"
  by (simp_all add: note_bounded_def Let_def)

lemma note_scored_buckets:
  "l_buckets (note_scored r gate y nominal rn s) =
     l_buckets (in_bucket (cr_window_end (e_cal r)) (scored_bucket r gate y nominal) s)"
proof (cases "cr_upper (e_cal r)")
  case None
  then have "scored_bucket r gate y nominal = count_outcome r gate y" by (simp add: fun_eq_iff scored_bucket_def)
  then show ?thesis using None by (simp add: note_scored_def Let_def)
next
  case (Some u)
  then have "scored_bucket r gate y nominal =
      (\<lambda>b. count_bound gate (y \<le> u) y u nominal (count_outcome r gate y b))"
    by (simp add: fun_eq_iff scored_bucket_def)
  then show ?thesis using Some by (simp add: note_scored_def Let_def in_bucket_twice)
qed

lemma note_scored_fields:
  "l_pending (note_scored r gate y nom rn s) = l_pending s" "l_newest_s (note_scored r gate y nom rn s) = l_newest_s s"
  "l_epoch (note_scored r gate y nom rn s) = l_epoch s" "l_model (note_scored r gate y nom rn s) = l_model s"
  "l_recipe (note_scored r gate y nom rn s) = l_recipe s"
  "l_interval_s (note_scored r gate y nom rn s) = l_interval_s s"
  "l_first_prospective_s (note_scored r gate y nom rn s) = l_first_prospective_s s"
  "l_first_issue_s (note_scored r gate y nom rn s) = l_first_issue_s s"
  "l_last_outcome_seq (note_scored r gate y nom rn s) = l_last_outcome_seq s"
  "l_last_issuance_seq (note_scored r gate y nom rn s) = l_last_issuance_seq s"
  by (simp_all add: note_scored_def Let_def split: option.splits)

lemma note_scored_totals_recent:
  assumes "0 < rn" and "totals_ok (l_totals s)" and "recent_ok rn s"
  shows "totals_ok (l_totals (note_scored r gate y nom rn s))" and "recent_ok rn (note_scored r gate y nom rn s)"
proof -
  have "set (last_n rn (l_recent s @ [x])) \<subseteq> {0, 1}" if "x \<in> {0, 1}" for x
    using set_last_n [of rn "l_recent s @ [x]"] assms(3) that by (auto simp: recent_ok_def)
  then show "recent_ok rn (note_scored r gate y nom rn s)"
    using assms(1,3)
    by (auto simp: note_scored_def note_bounded_def Let_def recent_ok_def length_last_n of_bool_int_def
        split: option.splits)
  show "totals_ok (l_totals (note_scored r gate y nom rn s))"
    using assms(2) by (auto simp: note_scored_def note_bounded_def Let_def totals_ok_def split: option.splits)
qed

definition replay_bucket :: "cal_record \<Rightarrow> bool \<Rightarrow> bool \<Rightarrow> bool \<Rightarrow> bucket \<Rightarrow> bucket" where
  "replay_bucket c gate scored covered b =
     (let b1 = (if scored then b\<lparr> r_sc := r_sc b + 1 \<rparr> else b\<lparr> r_un := r_un b + 1 \<rparr>)
      in if scored \<and> gate \<and> cr_upper c \<noteq> None
         then b1\<lparr> r_bd := r_bd b1 + 1, r_cv := r_cv b1 + of_bool_int covered \<rparr> else b1)"

lemma note_replay_buckets:
  "l_buckets (note_replay_outcome c gate scored covered s) =
     l_buckets (in_bucket (cr_window_end c) (replay_bucket c gate scored covered) s)"
  by (auto simp: note_replay_outcome_def Let_def in_bucket_twice replay_bucket_def intro!: arg_cong [where f = l_buckets]
      arg_cong2 [where f = "\<lambda>f. in_bucket (cr_window_end c) f"])

lemma note_replay_fields:
  "l_pending (note_replay_outcome c gate scored cov s) = l_pending s"
  "l_newest_s (note_replay_outcome c gate scored cov s) = l_newest_s s"
  "l_epoch (note_replay_outcome c gate scored cov s) = l_epoch s"
  "l_model (note_replay_outcome c gate scored cov s) = l_model s"
  "l_recipe (note_replay_outcome c gate scored cov s) = l_recipe s"
  "l_recent (note_replay_outcome c gate scored cov s) = l_recent s"
  "l_consecutive_misses (note_replay_outcome c gate scored cov s) = l_consecutive_misses s"
  "l_first_prospective_s (note_replay_outcome c gate scored cov s) = l_first_prospective_s s"
  "l_first_issue_s (note_replay_outcome c gate scored cov s) = l_first_issue_s s"
  "l_interval_s (note_replay_outcome c gate scored cov s) = l_interval_s s"
  "l_last_outcome_seq (note_replay_outcome c gate scored cov s) = l_last_outcome_seq s"
  "l_last_issuance_seq (note_replay_outcome c gate scored cov s) = l_last_issuance_seq s"
  "t_issued (l_totals (note_replay_outcome c gate scored cov s)) = t_issued (l_totals s)"
  "t_covered (l_totals (note_replay_outcome c gate scored cov s)) = t_covered (l_totals s)"
  "t_missed (l_totals (note_replay_outcome c gate scored cov s)) = t_missed (l_totals s)"
  "t_unscorable (l_totals (note_replay_outcome c gate scored cov s)) = t_unscorable (l_totals s)"
  "t_prospective_gate_bounded (l_totals (note_replay_outcome c gate scored cov s)) = t_prospective_gate_bounded (l_totals s)"
  by (simp_all add: note_replay_outcome_def Let_def)

lemma replay_bucket_ok: "bucket_ok b \<Longrightarrow> bucket_ok (replay_bucket c gate scored covered b)"
  by (simp add: replay_bucket_def Let_def bucket_ok_def of_bool_int_def)

lemma note_replay_totals: "totals_ok (l_totals s) \<Longrightarrow> totals_ok (l_totals (note_replay_outcome c gate scored cov s))"
  by (simp add: note_replay_outcome_def Let_def totals_ok_def)

lemma note_outcome_cases [consumes 1, case_names old replay unscorable scored]:
  assumes "note_outcome s r lead nom rn ret = Inr s'"
  defines "c \<equiv> e_cal r"
  defines "s1 \<equiv> s\<lparr> l_last_outcome_seq := cr_seq c, l_pending := dict_pop (cr_window_end c) (l_pending s) \<rparr>"
  defines "gate \<equiv> in_cohort (cr_origin c) lead"
  assumes "same_identity s (cr_epoch c) (cr_model c) (cr_recipe c) \<Longrightarrow> cr_seq c \<le> l_last_outcome_seq s \<Longrightarrow> s' = s \<Longrightarrow> P"
    and "\<And>cov. same_identity s (cr_epoch c) (cr_model c) (cr_recipe c) \<Longrightarrow> l_last_outcome_seq s < cr_seq c \<Longrightarrow>
       e_mode r = ''replay'' \<Longrightarrow>
       s' = prune (cr_window_end c) ret (note_replay_outcome c gate (cr_status c = ''scored'') cov s1) \<Longrightarrow> P"
    and "same_identity s (cr_epoch c) (cr_model c) (cr_recipe c) \<Longrightarrow> l_last_outcome_seq s < cr_seq c \<Longrightarrow>
       e_mode r \<noteq> ''replay'' \<Longrightarrow> cr_status c \<noteq> ''scored'' \<Longrightarrow>
       s' = prune (cr_window_end c) ret (note_unscorable c gate s1) \<Longrightarrow> P"
    and "\<And>y. same_identity s (cr_epoch c) (cr_model c) (cr_recipe c) \<Longrightarrow> l_last_outcome_seq s < cr_seq c \<Longrightarrow>
       e_mode r \<noteq> ''replay'' \<Longrightarrow> cr_status c = ''scored'' \<Longrightarrow> cr_y c = Some y \<Longrightarrow>
       s' = prune (cr_window_end c) ret (note_scored r gate y nom rn s1) \<Longrightarrow> P"
  shows P
proof -
  let ?scored = "cr_status c = ''scored''"
  note def = assms(1) [unfolded note_outcome_def Let_def, folded c_def, folded s1_def gate_def]
  have id: "same_identity s (cr_epoch c) (cr_model c) (cr_recipe c)" using def by (auto split: if_splits)
  show P
  proof (cases "cr_seq c \<le> l_last_outcome_seq s")
    case True
    with id def have "s' = s" by simp
    then show P by (rule assms(5) [OF id True])
  next
    case False
    then have new: "l_last_outcome_seq s < cr_seq c" by simp
    show P
    proof (cases "e_mode r = ''replay''")
      case True
      with id False def have "\<exists>cov. s' = prune (cr_window_end c) ret (note_replay_outcome c gate ?scored cov s1)"
        by (simp split: if_splits) blast+
      then show P using assms(6) [OF id new True] by blast
    next
      case mode: False
      show P
      proof (cases ?scored)
        case True
        with mode id False def obtain y where "cr_y c = Some y"
          "s' = prune (cr_window_end c) ret (note_scored r gate y nom rn s1)"
          by (simp split: option.splits)
        then show P by (rule assms(8) [OF id new mode True])
      next
        case unsc: False
        with mode id False def have "s' = prune (cr_window_end c) ret (note_unscorable c gate s1)" by simp
        then show P by (rule assms(7) [OF id new mode unsc])
      qed
    qed
  qed
qed

lemma note_outcome_ok:
  assumes "ledger_ok rn ret s" and "0 < rn" and "0 \<le> cr_window_end (e_cal r)"
    and "note_outcome s r lead nom rn ret = Inr s'"
  shows "ledger_ok rn ret s'"
proof -
  let ?c = "e_cal r"
  let ?s1 = "s\<lparr> l_last_outcome_seq := cr_seq ?c, l_pending := dict_pop (cr_window_end ?c) (l_pending s) \<rparr>"
  have s1: "ledger_ok rn ret ?s1"
    by (rule ledger_ok_book [OF assms(1)]) (use assms(1) in \<open>simp_all add: ledger_ok_def dict_wf_pop dom_delete_subset\<close>)
  have ok: "dict_wf (l_pending ?s1)" "totals_ok (l_totals ?s1)" "recent_ok rn ?s1"
    using s1 by (simp_all add: ledger_ok_def)
  from assms(4) show ?thesis
  proof (cases rule: note_outcome_cases)
    case (replay cov)
    show ?thesis unfolding replay(4)
      by (rule fold_event_ok [OF s1 assms(3) note_replay_buckets])
        (use ok replay_bucket_ok in \<open>simp_all add: note_replay_fields note_replay_totals recent_ok_def\<close>)
  next
    case unscorable
    show ?thesis unfolding unscorable(5)
      by (rule fold_event_ok [OF s1 assms(3), where
            f = "\<lambda>b. b\<lparr> un := un b + 1, g_un := g_un b + of_bool_int (in_cohort (cr_origin ?c) lead) \<rparr>"])
        (use ok in \<open>auto simp: note_unscorable_def Let_def bucket_ok_def recent_ok_def of_bool_int_def totals_ok_def\<close>)
  next
    case (scored y)
    show ?thesis unfolding scored(6)
      by (rule fold_event_ok [OF s1 assms(3) note_scored_buckets scored_bucket_ok])
        (use ok note_scored_totals_recent [OF assms(2) ok(2,3)] in \<open>simp_all add: note_scored_fields\<close>)
  qed (use assms(1) in simp)
qed

section \<open>Runs of a ledger\<close>

datatype ledger_event = Issued issuance_note | Matured evidence_record

record ledger_params =
  lp_lead_s :: int
  lp_nominal :: pyfloat
  lp_recent_n :: nat
  lp_retention_s :: int

fun fold_event :: "ledger_params \<Rightarrow> ledger_event \<Rightarrow> ledger \<Rightarrow> trust_error + ledger" where
  "fold_event p (Issued n) s = note_issuance s n (lp_lead_s p) (lp_retention_s p)"
| "fold_event p (Matured r) s = note_outcome s r (lp_lead_s p) (lp_nominal p) (lp_recent_n p) (lp_retention_s p)"

fun ledger_run :: "ledger_params \<Rightarrow> ledger_event list \<Rightarrow> ledger \<Rightarrow> trust_error + ledger" where
  "ledger_run p [] s = Inr s"
| "ledger_run p (e # es) s = bind_res (fold_event p e s) (ledger_run p es)"

fun event_time :: "ledger_event \<Rightarrow> int" where
  "event_time (Issued n) = n_origin n"
| "event_time (Matured r) = cr_window_end (e_cal r)"

lemma fold_event_ledger_ok:
  "ledger_ok (lp_recent_n p) (lp_retention_s p) s \<Longrightarrow> 0 < lp_recent_n p \<Longrightarrow> 0 \<le> event_time e \<Longrightarrow>
   fold_event p e s = Inr s' \<Longrightarrow> ledger_ok (lp_recent_n p) (lp_retention_s p) s'"
  by (cases e) (auto intro: note_issuance_ok note_outcome_ok)

lemma ledger_run_ok:
  "ledger_ok (lp_recent_n p) (lp_retention_s p) s \<Longrightarrow> 0 < lp_recent_n p \<Longrightarrow> \<forall>e \<in> set es. 0 \<le> event_time e \<Longrightarrow>
   ledger_run p es s = Inr s' \<Longrightarrow> ledger_ok (lp_recent_n p) (lp_retention_s p) s'"
proof (induction es arbitrary: s)
  case (Cons e es)
  then obtain s1 where "fold_event p e s = Inr s1" "ledger_run p es s1 = Inr s'" by (auto simp: bind_res_Inr_iff)
  with Cons.prems Cons.IH [of s1] fold_event_ledger_ok [of p s e s1] show ?case by simp
qed simp

lemma bucket_count_bound:
  assumes "ledger_ok n ret s"
  shows "int (length (l_buckets s)) \<le> max 0 (cdiv ret HOUR)"
proof (cases "l_newest_s s")
  case None
  then show ?thesis using assms by (simp add: ledger_ok_def keys_ok_def)
next
  case (Some m)
  let ?K = "fst ` set (l_buckets s)"
  have wf: "dict_wf (l_buckets s)" using assms by (simp add: ledger_ok_def)
  have "?K \<subseteq> {(m - ret) div HOUR + 1..m div HOUR}"
    using assms Some by (force simp: ledger_ok_def keys_ok_def)
  then have "card ?K \<le> card {(m - ret) div HOUR + 1..m div HOUR}" by (intro card_mono) auto
  also have "card ?K = length (l_buckets s)" using distinct_card [OF wf] by simp
  finally have "int (length (l_buckets s)) \<le> max 0 (m div HOUR - (m - ret) div HOUR)" by simp
  moreover have "m div HOUR - cdiv ret HOUR \<le> (m - ret) div HOUR"
  proof -
    have "(m - cdiv ret HOUR * HOUR) div HOUR \<le> (m - ret) div HOUR"
      using cdiv_lower [of HOUR ret] by (intro zdiv_mono1) (simp_all add: HOUR_def)
    moreover have "(m - cdiv ret HOUR * HOUR) div HOUR = m div HOUR - cdiv ret HOUR"
      using div_mult_self1 [of HOUR m "- cdiv ret HOUR"] by (simp add: HOUR_def algebra_simps)
    ultimately show ?thesis by simp
  qed
  ultimately show ?thesis by linarith
qed

lemma expected_opportunities_nonneg: "0 < l_interval_s s \<Longrightarrow> 0 \<le> expected_opportunities s now sec"
  by (auto simp: expected_opportunities_def Let_def pos_imp_zdiv_nonneg_iff split: option.splits)

lemma ratio_unit: "0 \<le> a \<Longrightarrow> a \<le> b \<Longrightarrow> ratio a b = Some v \<Longrightarrow> Fin 0 \<le> v \<and> v \<le> Fin 1"
  using int_div_unit [of a b] by (auto simp: ratio_def split: if_splits)

lemma availability_ratios:
  assumes "ledger_ok n r s" and "0 < l_interval_s s"
  shows "av_outcomes (availability s now sec) = Some v \<Longrightarrow> Fin 0 \<le> v \<and> v \<le> Fin 1"
    and "av_predictions (availability s now sec) = Some v \<Longrightarrow> Fin 0 \<le> v \<and> v \<le> Fin 1"
proof -
  have w: "0 \<le> sc (window_sums s now sec)" "0 \<le> un (window_sums s now sec)" "0 \<le> iss (window_sums s now sec)"
    using window_sums_ok [OF ledger_ok_buckets [OF assms(1)], of now sec] by (auto simp: bucket_ok_def)
  have "0 \<le> overdue s now sec" by (simp add: overdue_def)
  with w show "av_outcomes (availability s now sec) = Some v \<Longrightarrow> Fin 0 \<le> v \<and> v \<le> Fin 1"
    using ratio_unit [of "sc (window_sums s now sec)"
        "sc (window_sums s now sec) + un (window_sums s now sec) + overdue s now sec" v]
    by (simp add: availability_def Let_def)
  show "av_predictions (availability s now sec) = Some v \<Longrightarrow> Fin 0 \<le> v \<and> v \<le> Fin 1"
    using w expected_opportunities_nonneg [OF assms(2), of now sec]
      ratio_unit [of "min (iss (window_sums s now sec)) (expected_opportunities s now sec)"
        "expected_opportunities s now sec" v]
    by (simp add: availability_def Let_def)
qed

section \<open>Exactly once\<close>

fun event_identity :: "ledger_event \<Rightarrow> string \<times> string \<times> string" where
  "event_identity (Issued n) = (n_epoch n, n_model n, n_recipe n)"
| "event_identity (Matured r) = (cr_epoch (e_cal r), cr_model (e_cal r), cr_recipe (e_cal r))"

fun folded :: "ledger \<Rightarrow> ledger_event \<Rightarrow> bool" where
  "folded s (Issued n) \<longleftrightarrow> n_seq n \<le> l_last_issuance_seq s"
| "folded s (Matured r) \<longleftrightarrow> cr_seq (e_cal r) \<le> l_last_outcome_seq s"

definition ledger_identity :: "ledger \<Rightarrow> string \<times> string \<times> string" where
  "ledger_identity s = (l_epoch s, l_model s, l_recipe s)"

lemma fold_event_old: "folded s e \<Longrightarrow> event_identity e = ledger_identity s \<Longrightarrow> fold_event p e s = Inr s"
  by (cases e) (auto simp: note_issuance_def note_outcome_def same_identity_def ledger_identity_def)

lemma note_issuance_seqs:
  assumes "note_issuance s i lead ret = Inr s'"
  shows "l_last_issuance_seq s' = max (l_last_issuance_seq s) (n_seq i) \<and> l_last_outcome_seq s' = l_last_outcome_seq s \<and>
     ledger_identity s' = ledger_identity s \<and> event_identity (Issued i) = ledger_identity s \<and>
     l_interval_s s' = l_interval_s s"
  using assms
  by (auto simp: note_issuance_def note_prospective_issuance_def Let_def same_identity_def ledger_identity_def
      split: if_splits)

lemma note_outcome_seqs:
  assumes "note_outcome s r lead nom rn ret = Inr s'"
  shows "l_last_outcome_seq s' = max (l_last_outcome_seq s) (cr_seq (e_cal r)) \<and>
     l_last_issuance_seq s' = l_last_issuance_seq s \<and>
     ledger_identity s' = ledger_identity s \<and> event_identity (Matured r) = ledger_identity s \<and>
     l_interval_s s' = l_interval_s s"
  using assms
  by (cases rule: note_outcome_cases)
    (simp_all add: note_replay_fields note_unscorable_def note_scored_fields Let_def same_identity_def ledger_identity_def)

lemma fold_event_seqs:
  assumes "fold_event p e s = Inr s'"
  shows "folded s' e" and "folded s e' \<Longrightarrow> folded s' e'" and "ledger_identity s' = ledger_identity s"
    and "event_identity e = ledger_identity s" and "l_interval_s s' = l_interval_s s"
  using assms note_issuance_seqs note_outcome_seqs by (cases e; cases e'; fastforce)+

lemma ledger_run_seqs:
  "ledger_run p es s = Inr s' \<Longrightarrow> (\<forall>e \<in> set es. folded s' e \<and> event_identity e = ledger_identity s) \<and>
     (\<forall>e. folded s e \<longrightarrow> folded s' e) \<and> ledger_identity s' = ledger_identity s \<and> l_interval_s s' = l_interval_s s"
proof (induction es arbitrary: s)
  case (Cons e es)
  then obtain s1 where "fold_event p e s = Inr s1" "ledger_run p es s1 = Inr s'" by (auto simp: bind_res_Inr_iff)
  with Cons.IH [of s1] fold_event_seqs [of p e s s1] show ?case by auto
qed simp

lemma ledger_run_old:
  "\<forall>e \<in> set es. folded s e \<and> event_identity e = ledger_identity s \<Longrightarrow> ledger_run p es s = Inr s"
  by (induction es) (auto simp: fold_event_old)

section \<open>Replay evidence is counted apart\<close>

fun is_replay :: "ledger_event \<Rightarrow> bool" where
  "is_replay (Issued n) \<longleftrightarrow> n_mode n = ''replay''"
| "is_replay (Matured r) \<longleftrightarrow> e_mode r = ''replay''"

definition prospective_counts :: "bucket \<Rightarrow> int list" where
  "prospective_counts b = [iss b, g_iss b, sc b, un b, g_sc b, g_un b, a_bd b, a_cv b, g_bd b, g_cv b]"

definition prospective_totals :: "ledger \<Rightarrow> int list" where
  "prospective_totals s = [t_issued (l_totals s), t_covered (l_totals s), t_missed (l_totals s),
     t_unscorable (l_totals s), t_prospective_gate_bounded (l_totals s)]"

text \<open>Two ledgers that agree on everything prospective above an hour.\<close>

definition agree :: "int \<Rightarrow> ledger \<Rightarrow> ledger \<Rightarrow> bool" where
  "agree h s s' \<longleftrightarrow>
     (\<forall>k > h. prospective_counts (bucket_at s k) = prospective_counts (bucket_at s' k)) \<and>
     l_recent s = l_recent s' \<and> l_consecutive_misses s = l_consecutive_misses s' \<and>
     l_first_prospective_s s = l_first_prospective_s s' \<and> l_first_issue_s s = l_first_issue_s s' \<and>
     prospective_totals s = prospective_totals s' \<and> ledger_identity s = ledger_identity s' \<and>
     l_last_outcome_seq s' \<le> l_last_outcome_seq s \<and> l_last_issuance_seq s' \<le> l_last_issuance_seq s"

definition newest_le :: "int \<Rightarrow> ledger \<Rightarrow> bool" where
  "newest_le now s \<longleftrightarrow> (case l_newest_s s of None \<Rightarrow> True | Some n \<Rightarrow> n \<le> now)"

lemma newest_of_le: "newest_le now s \<Longrightarrow> t \<le> now \<Longrightarrow> newest_of (l_newest_s s) t \<le> now"
  by (auto simp: newest_le_def newest_of_def split: option.splits)

lemma bucket_at_prune_recent:
  assumes "newest_of (l_newest_s s) t \<le> now" and "(now - r) div HOUR < k"
  shows "bucket_at (prune t r s) k = bucket_at s k"
proof -
  have "(newest_of (l_newest_s s) t - r) div HOUR \<le> (now - r) div HOUR"
    using assms(1) by (intro zdiv_mono1) (simp_all add: HOUR_def)
  then show ?thesis using assms(2) by (simp add: bucket_at_prune)
qed

lemma agree_prune:
  assumes "agree ((now - r) div HOUR) s s'" and "newest_of (l_newest_s s) t \<le> now"
  shows "agree ((now - r) div HOUR) (prune t r s) s'"
    and "newest_of (l_newest_s s') t \<le> now \<Longrightarrow> agree ((now - r) div HOUR) (prune t r s) (prune t r s')"
  using assms bucket_at_prune_recent
  by (simp_all add: agree_def prospective_totals_def ledger_identity_def)

text \<open>A bucket update that treats the prospective counts alike keeps the agreement.\<close>

lemma agree_buckets:
  assumes "agree h s s'" and "\<And>x y. prospective_counts x = prospective_counts y \<Longrightarrow>
      prospective_counts (f x) = prospective_counts (g y)"
    and "l_buckets t = l_buckets (in_bucket w f s)" and "l_buckets t' = l_buckets (in_bucket w g s')"
  shows "\<forall>k > h. prospective_counts (bucket_at t k) = prospective_counts (bucket_at t' k)"
proof -
  have "bucket_at t k = bucket_at (in_bucket w f s) k" "bucket_at t' k = bucket_at (in_bucket w g s') k" for k
    using assms(3,4) by (simp_all add: bucket_at_def)
  then show ?thesis using assms(1,2) by (simp add: agree_def bucket_at_in_bucket)
qed

lemma agree_replay:
  assumes "agree h s s'" and "\<And>x. prospective_counts (f x) = prospective_counts x"
    and "l_buckets t = l_buckets (in_bucket w f s)"
  shows "\<forall>k > h. prospective_counts (bucket_at t k) = prospective_counts (bucket_at s' k)"
proof -
  have "bucket_at t k = bucket_at (in_bucket w f s) k" for k using assms(3) by (simp add: bucket_at_def)
  then show ?thesis using assms(1,2) by (simp add: agree_def bucket_at_in_bucket)
qed

lemma replay_bucket_counts: "prospective_counts (replay_bucket c gate scored cov b) = prospective_counts b"
  by (simp add: replay_bucket_def Let_def prospective_counts_def)

lemma newest_after:
  "fold_event p e s = Inr s1 \<Longrightarrow> s1 = s \<or> l_newest_s s1 = Some (newest_of (l_newest_s s) (event_time e))"
proof (cases e)
  case (Matured r)
  assume "fold_event p e s = Inr s1"
  then have "note_outcome s r (lp_lead_s p) (lp_nominal p) (lp_recent_n p) (lp_retention_s p) = Inr s1"
    using Matured by simp
  then show ?thesis unfolding Matured event_time.simps
    by (cases rule: note_outcome_cases) (simp_all add: note_replay_fields note_scored_fields note_unscorable_def Let_def)
qed (auto simp: note_issuance_def note_prospective_issuance_def Let_def split: if_splits)

lemma fold_event_newest_le:
  assumes "fold_event p e s = Inr s1" and "newest_le now s" and "event_time e \<le> now"
  shows "newest_le now s1"
  using newest_after [OF assms(1)] newest_of_le [OF assms(2,3)] assms(2) by (auto simp: newest_le_def)

lemma agree_replay_event:
  assumes ag: "agree ((now - lp_retention_s p) div HOUR) s s'" and "is_replay e" and ev: "fold_event p e s = Inr s1"
    and now: "newest_le now s" "event_time e \<le> now"
  shows "agree ((now - lp_retention_s p) div HOUR) s1 s'"
proof (cases e)
  case (Issued i)
  let ?t = "in_bucket (n_origin i) (\<lambda>b. b\<lparr> r_iss := r_iss b + 1 \<rparr>) (s\<lparr> l_last_issuance_seq := n_seq i \<rparr>)"
  have "s1 = s \<or> (s1 = prune (n_origin i) (lp_retention_s p) ?t \<and> l_last_issuance_seq s < n_seq i)"
    using ev assms(2) Issued by (auto simp: note_issuance_def Let_def split: if_splits)
  moreover have "agree ((now - lp_retention_s p) div HOUR) ?t s'" if "l_last_issuance_seq s < n_seq i"
    using agree_replay [OF ag, of "\<lambda>b. b\<lparr> r_iss := r_iss b + 1 \<rparr>" ?t "n_origin i"] ag that
    by (simp add: agree_def prospective_counts_def prospective_totals_def ledger_identity_def in_bucket_def Let_def)
  ultimately show ?thesis
    using ag newest_of_le [OF now] Issued by (auto intro!: agree_prune(1))
next
  case (Matured r)
  let ?c = "e_cal r"
  let ?s1 = "s\<lparr> l_last_outcome_seq := cr_seq ?c, l_pending := dict_pop (cr_window_end ?c) (l_pending s) \<rparr>"
  from ev have "note_outcome s r (lp_lead_s p) (lp_nominal p) (lp_recent_n p) (lp_retention_s p) = Inr s1"
    using Matured by simp
  then show ?thesis
  proof (cases rule: note_outcome_cases)
    case (replay cov)
    let ?g = "in_cohort (cr_origin ?c) (lp_lead_s p)"
    let ?t = "note_replay_outcome ?c ?g (cr_status ?c = ''scored'') cov ?s1"
    have "l_buckets ?t = l_buckets (in_bucket (cr_window_end ?c) (replay_bucket ?c ?g (cr_status ?c = ''scored'') cov) s)"
      by (simp add: note_replay_buckets in_bucket_def Let_def)
    then have "agree ((now - lp_retention_s p) div HOUR) ?t s'"
      using agree_replay [OF ag replay_bucket_counts] ag replay(2)
      by (simp add: agree_def note_replay_fields prospective_totals_def ledger_identity_def)
    then show ?thesis unfolding replay(4)
      using newest_of_le [OF now] Matured by (intro agree_prune(1)) (simp_all add: note_replay_fields)
  qed (use ag assms(2) Matured in simp_all)
qed

text \<open>A prospective event that is new to both ledgers keeps the agreement.\<close>

lemma scored_bucket_counts:
  "prospective_counts x = prospective_counts y \<Longrightarrow>
     prospective_counts (scored_bucket r gate v nom x) = prospective_counts (scored_bucket r gate v nom y)"
  by (auto simp: prospective_counts_def scored_bucket_def count_bound_def Let_def count_outcome_ints split: option.splits)

lemma note_scored_bookkeeping:
  assumes "prospective_totals s = prospective_totals t"
    and "l_recent s = l_recent t" and "l_consecutive_misses s = l_consecutive_misses t"
  shows "prospective_totals (note_scored r gate y nom rn s) = prospective_totals (note_scored r gate y nom rn t) \<and>
     l_recent (note_scored r gate y nom rn s) = l_recent (note_scored r gate y nom rn t) \<and>
     l_consecutive_misses (note_scored r gate y nom rn s) = l_consecutive_misses (note_scored r gate y nom rn t)"
  using assms by (auto simp: note_scored_def note_bounded_def Let_def prospective_totals_def split: option.splits)

lemma agree_issuance:
  assumes ag: "agree ((now - lp_retention_s p) div HOUR) s s'" and mode: "n_mode i \<noteq> ''replay''"
    and new: "l_last_issuance_seq s < n_seq i"
    and ev: "note_issuance s i (lp_lead_s p) (lp_retention_s p) = Inr s1"
    and now: "newest_le now s" "newest_le now s'" "n_origin i \<le> now"
  shows "\<exists>s1'. note_issuance s' i (lp_lead_s p) (lp_retention_s p) = Inr s1' \<and>
     agree ((now - lp_retention_s p) div HOUR) s1 s1'"
proof -
  let ?h = "(now - lp_retention_s p) div HOUR"
  let ?f = "\<lambda>b. b\<lparr> iss := iss b + 1, g_iss := g_iss b + of_bool_int (in_cohort (n_origin i) (lp_lead_s p)) \<rparr>"
  let ?t = "note_prospective_issuance i (lp_lead_s p) (s\<lparr> l_last_issuance_seq := n_seq i \<rparr>)"
  let ?t' = "note_prospective_issuance i (lp_lead_s p) (s'\<lparr> l_last_issuance_seq := n_seq i \<rparr>)"
  have s1: "s1 = prune (n_origin i) (lp_retention_s p) ?t"
    and s1': "note_issuance s' i (lp_lead_s p) (lp_retention_s p) = Inr (prune (n_origin i) (lp_retention_s p) ?t')"
    using ev mode new ag
    by (auto simp: note_issuance_def Let_def same_identity_def agree_def ledger_identity_def split: if_splits)
  have b: "l_buckets ?t = l_buckets (in_bucket (n_origin i) ?f s)" "l_buckets ?t' = l_buckets (in_bucket (n_origin i) ?f s')"
    by (simp_all add: note_prospective_issuance_def Let_def in_bucket_def)
  have "\<forall>k > ?h. prospective_counts (bucket_at ?t k) = prospective_counts (bucket_at ?t' k)"
    by (rule agree_buckets [OF ag _ b]) (simp add: prospective_counts_def)
  then have "agree ?h ?t ?t'"
    using ag by (simp add: agree_def note_prospective_issuance_def Let_def prospective_totals_def ledger_identity_def)
  then have "agree ?h s1 (prune (n_origin i) (lp_retention_s p) ?t')" unfolding s1
    using newest_of_le now by (intro agree_prune(2)) (simp_all add: note_prospective_issuance_def Let_def)
  with s1' show ?thesis by blast
qed

lemma agree_outcome:
  assumes ag: "agree ((now - lp_retention_s p) div HOUR) s s'" and mode: "e_mode r \<noteq> ''replay''"
    and new: "l_last_outcome_seq s < cr_seq (e_cal r)"
    and ev: "note_outcome s r (lp_lead_s p) (lp_nominal p) (lp_recent_n p) (lp_retention_s p) = Inr s1"
    and now: "newest_le now s" "newest_le now s'" "cr_window_end (e_cal r) \<le> now"
  shows "\<exists>s1'. note_outcome s' r (lp_lead_s p) (lp_nominal p) (lp_recent_n p) (lp_retention_s p) = Inr s1' \<and>
     agree ((now - lp_retention_s p) div HOUR) s1 s1'"
proof -
  let ?h = "(now - lp_retention_s p) div HOUR" and ?c = "e_cal r"
  let ?book = "\<lambda>s. s\<lparr> l_last_outcome_seq := cr_seq ?c, l_pending := dict_pop (cr_window_end ?c) (l_pending s) \<rparr>"
  let ?gate = "in_cohort (cr_origin ?c) (lp_lead_s p)"
  let ?w = "cr_window_end ?c"
  have id: "same_identity s' (cr_epoch ?c) (cr_model ?c) (cr_recipe ?c) =
      same_identity s (cr_epoch ?c) (cr_model ?c) (cr_recipe ?c)" and new': "l_last_outcome_seq s' < cr_seq ?c"
    using ag new by (auto simp: agree_def same_identity_def ledger_identity_def)
  from ev show ?thesis
  proof (cases rule: note_outcome_cases)
    case unscorable
    let ?f = "\<lambda>b. b\<lparr> un := un b + 1, g_un := g_un b + of_bool_int ?gate \<rparr>"
    let ?t = "note_unscorable ?c ?gate (?book s)" and ?t' = "note_unscorable ?c ?gate (?book s')"
    have b: "l_buckets ?t = l_buckets (in_bucket ?w ?f s)" "l_buckets ?t' = l_buckets (in_bucket ?w ?f s')"
      by (simp_all add: note_unscorable_def Let_def in_bucket_def)
    have "\<forall>k > ?h. prospective_counts (bucket_at ?t k) = prospective_counts (bucket_at ?t' k)"
      by (rule agree_buckets [OF ag _ b]) (simp add: prospective_counts_def)
    then have "agree ?h ?t ?t'"
      using ag by (simp add: agree_def note_unscorable_def Let_def prospective_totals_def ledger_identity_def)
    then have "agree ?h s1 (prune ?w (lp_retention_s p) ?t')" unfolding unscorable(5)
      using newest_of_le now by (intro agree_prune(2)) (simp_all add: note_unscorable_def Let_def)
    moreover have "note_outcome s' r (lp_lead_s p) (lp_nominal p) (lp_recent_n p) (lp_retention_s p) =
        Inr (prune ?w (lp_retention_s p) ?t')"
      using unscorable(1-4) id new' by (simp add: note_outcome_def Let_def)
    ultimately show ?thesis by blast
  next
    case (scored y)
    let ?t = "note_scored r ?gate y (lp_nominal p) (lp_recent_n p) (?book s)"
    let ?t' = "note_scored r ?gate y (lp_nominal p) (lp_recent_n p) (?book s')"
    let ?f = "scored_bucket r ?gate y (lp_nominal p)"
    have b: "l_buckets ?t = l_buckets (in_bucket ?w ?f s)" "l_buckets ?t' = l_buckets (in_bucket ?w ?f s')"
      by (simp_all add: note_scored_buckets in_bucket_def Let_def)
    have "\<forall>k > ?h. prospective_counts (bucket_at ?t k) = prospective_counts (bucket_at ?t' k)"
      by (rule agree_buckets [OF ag scored_bucket_counts b])
    moreover have "prospective_totals (?book s) = prospective_totals (?book s')"
      "l_recent (?book s) = l_recent (?book s')" "l_consecutive_misses (?book s) = l_consecutive_misses (?book s')"
      using ag by (simp_all add: agree_def prospective_totals_def)
    ultimately have "agree ?h ?t ?t'"
      using ag note_scored_bookkeeping [of "?book s" "?book s'" r ?gate y "lp_nominal p" "lp_recent_n p"]
      by (simp add: agree_def note_scored_fields ledger_identity_def)
    then have "agree ?h s1 (prune ?w (lp_retention_s p) ?t')" unfolding scored(6)
      using newest_of_le now by (intro agree_prune(2)) (simp_all add: note_scored_fields)
    moreover have "note_outcome s' r (lp_lead_s p) (lp_nominal p) (lp_recent_n p) (lp_retention_s p) =
        Inr (prune ?w (lp_retention_s p) ?t')"
      using scored(1-5) id new' by (simp add: note_outcome_def Let_def)
    ultimately show ?thesis by blast
  qed (use new mode in simp_all)
qed

fun outcome_seqs :: "ledger_event list \<Rightarrow> int list" where
  "outcome_seqs [] = []"
| "outcome_seqs (Matured r # es) = cr_seq (e_cal r) # outcome_seqs es"
| "outcome_seqs (Issued n # es) = outcome_seqs es"

fun issuance_seqs :: "ledger_event list \<Rightarrow> int list" where
  "issuance_seqs [] = []"
| "issuance_seqs (Issued n # es) = n_seq n # issuance_seqs es"
| "issuance_seqs (Matured r # es) = issuance_seqs es"

lemma agree_run:
  assumes "agree ((now - lp_retention_s p) div HOUR) s s'" and "ledger_run p es s = Inr t"
    and "\<forall>e \<in> set es. event_time e \<le> now" and "newest_le now s" and "newest_le now s'"
    and "sorted_wrt (<) (l_last_outcome_seq s # outcome_seqs es)"
    and "sorted_wrt (<) (l_last_issuance_seq s # issuance_seqs es)"
  shows "\<exists>t'. ledger_run p (filter (\<lambda>e. \<not> is_replay e) es) s' = Inr t' \<and>
     agree ((now - lp_retention_s p) div HOUR) t t'"
  using assms
proof (induction es arbitrary: s s')
  case (Cons e es)
  let ?h = "(now - lp_retention_s p) div HOUR"
  from Cons.prems(2) obtain s1 where s1: "fold_event p e s = Inr s1" "ledger_run p es s1 = Inr t"
    by (auto simp: bind_res_Inr_iff)
  have time: "event_time e \<le> now" "\<forall>e \<in> set es. event_time e \<le> now" using Cons.prems(3) by simp_all
  have n1: "newest_le now s1" using fold_event_newest_le [OF s1(1) Cons.prems(4) time(1)] .
  have srt: "sorted_wrt (<) (l_last_outcome_seq s1 # outcome_seqs es)"
    "sorted_wrt (<) (l_last_issuance_seq s1 # issuance_seqs es)"
    using s1(1) Cons.prems(6,7) note_issuance_seqs note_outcome_seqs by (cases e; fastforce)+
  show ?case
  proof (cases "is_replay e")
    case True
    have "agree ?h s1 s'" by (rule agree_replay_event [OF Cons.prems(1) True s1(1) Cons.prems(4) time(1)])
    from Cons.IH [OF this s1(2) time(2) n1 Cons.prems(5) srt] True show ?thesis by simp
  next
    case False
    have "\<exists>s1'. fold_event p e s' = Inr s1' \<and> agree ?h s1 s1'"
      using agree_issuance [OF Cons.prems(1)] agree_outcome [OF Cons.prems(1)] False s1(1) Cons.prems(4-7) time(1)
      by (cases e) simp_all
    then obtain s1' where s1': "fold_event p e s' = Inr s1'" "agree ?h s1 s1'" by blast
    have "newest_le now s1'" using fold_event_newest_le [OF s1'(1) Cons.prems(5) time(1)] .
    from Cons.IH [OF s1'(2) s1(2) time(2) n1 this srt] s1'(1) False show ?thesis by simp
  qed
qed simp

lemma agree_refl: "agree h s s"
  by (simp add: agree_def)

lemma prospective_window_sums:
  assumes wf: "dict_wf (l_buckets s)" "dict_wf (l_buckets s')" and ag: "agree ((now - ret) div HOUR) s s'"
    and sec: "seconds \<le> ret" and off: "\<not> HOUR dvd now - ret"
  shows "prospective_counts (window_sums s now seconds) = prospective_counts (window_sums s' now seconds)"
proof -
  have "\<not> cdiv (now - ret) HOUR \<le> (now - ret) div HOUR"
    using off cdiv_le_iff [of HOUR "now - ret" "(now - ret) div HOUR"] minus_mod_eq_div_mult [of "now - ret" HOUR]
      pos_mod_sign [of HOUR "now - ret"]
    by (auto simp: HOUR_def dvd_eq_mod_eq_0)
  then have "(now - ret) div HOUR < cdiv (now - ret) HOUR" by simp
  also have "\<dots> \<le> fst (hours now seconds)"
    using sec by (simp add: hours_def HOUR_def cdiv_mono)
  finally have h: "(now - ret) div HOUR < k" if "k \<in> {fst (hours now seconds)..snd (hours now seconds)}" for k
    using that by simp
  have pc: "prospective_counts (bucket_at s k) = prospective_counts (bucket_at s' k)"
    if "k \<in> {fst (hours now seconds)..snd (hours now seconds)}" for k
    using ag h [OF that] by (simp add: agree_def)
  show ?thesis
    unfolding prospective_counts_def
    by (simp add: window_sums_field wf add_bucket_def zero_bucket_def)
      (intro conjI sum.cong refl; drule pc; simp add: prospective_counts_def)
qed

section \<open>Properties\<close>

definition demo_params :: ledger_params where
  "demo_params = \<lparr> lp_lead_s = 600, lp_nominal = Fin (1/8), lp_recent_n = 32, lp_retention_s = 7 * DAY \<rparr>"

definition demo_issued :: "int \<Rightarrow> int \<Rightarrow> string \<Rightarrow> ledger_event" where
  "demo_issued k origin mode = Issued \<lparr> n_seq = k, n_issuance_id = ''i'', n_epoch = ''e'', n_model = NAIVE,
     n_recipe = ''r'', n_origin = origin, n_window_end = origin + 1200, n_deadline_s = origin + 2400,
     n_mode = mode, n_bounded = True \<rparr>"

definition demo_matured :: "int \<Rightarrow> int \<Rightarrow> string \<Rightarrow> ledger_event" where
  "demo_matured k origin mode = Matured \<lparr>
     e_cal = \<lparr> cr_seq = k, cr_epoch = ''e'', cr_model = NAIVE, cr_recipe = ''r'', cr_issuance_id = ''i'',
               cr_origin = origin, cr_window_end = origin + 1200, cr_base = Fin 3, cr_upper = Some (Fin 5),
               cr_status = ''scored'', cr_y = Some (Fin 4) \<rparr>,
     e_mode = mode, e_committed_at_ms = 0, e_step_abs_errors = None \<rparr>"

definition demo_events :: "ledger_event list" where
  "demo_events = [demo_issued 1 600000 ''prospective'', demo_issued 2 600600 ''replay'',
     demo_matured 1 600000 ''prospective'', demo_matured 2 600600 ''replay'']"

definition demo_ledger :: ledger where
  "demo_ledger = (case ledger_run demo_params demo_events (new_ledger ''e'' NAIVE ''r'' 600) of
     Inr s \<Rightarrow> s | Inl _ \<Rightarrow> new_ledger [] [] [] 0)"

lemmas demo_simps = demo_params_def demo_events_def demo_issued_def demo_matured_def new_ledger_def NAIVE_def
  note_issuance_def note_outcome_def note_prospective_issuance_def note_replay_outcome_def note_scored_def
  note_bounded_def same_identity_def MODES_def in_bucket_def prune_def newest_of_def first_set_def of_bool_int_def
  in_cohort_def count_outcome_def count_steps_def count_bound_def last_n_def HOUR_def DAY_def Let_def

lemma demo_ledger_run: "ledger_run demo_params demo_events (new_ledger ''e'' NAIVE ''r'' 600) = Inr demo_ledger"
proof -
  have "\<not> isl (ledger_run demo_params demo_events (new_ledger ''e'' NAIVE ''r'' 600))"
    by (simp add: demo_simps)
  then show ?thesis unfolding demo_ledger_def
    by (cases "ledger_run demo_params demo_events (new_ledger ''e'' NAIVE ''r'' 600)") auto
qed

text \<open>Every ledger built from issuances and outcomes keeps consistent counts (gate counts within totals, covered
  within bounded within scored), at most one bucket per retained hour, at most \<open>recent_n\<close> recent outcomes, and
  availability ratios between 0 and 1.\<close>

theorem ledger_run_consistent:
  assumes "0 < lp_recent_n p" and "\<forall>e \<in> set es. 0 \<le> event_time e" and "0 < interval_s"
    and "ledger_run p es (new_ledger epoch model recipe interval_s) = Inr s"
  shows "(\<forall>now sec. bucket_ok (window_sums s now sec)) \<and>
     int (length (l_buckets s)) \<le> max 0 (cdiv (lp_retention_s p) HOUR) \<and>
     length (l_recent s) \<le> lp_recent_n p \<and>
     (\<forall>now sec v. av_outcomes (availability s now sec) = Some v \<longrightarrow> Fin 0 \<le> v \<and> v \<le> Fin 1) \<and>
     (\<forall>now sec v. av_predictions (availability s now sec) = Some v \<longrightarrow> Fin 0 \<le> v \<and> v \<le> Fin 1)"
proof -
  have ok: "ledger_ok (lp_recent_n p) (lp_retention_s p) s"
    by (rule ledger_run_ok [OF ledger_ok_new assms(1,2,4)])
  have "l_interval_s s = interval_s" using ledger_run_seqs [OF assms(4)] by (simp add: new_ledger_def)
  then show ?thesis
    using ok window_sums_ok [OF ledger_ok_buckets [OF ok]] bucket_count_bound [OF ok] availability_ratios [OF ok]
      assms(3) by (auto simp: ledger_ok_def recent_ok_def)
qed

theorem ledger_run_consistent_witness:
  "sc (window_sums demo_ledger 604000 DAY) = 1 \<and> bucket_ok (window_sums demo_ledger 604000 DAY)"
proof -
  have "sc (window_sums demo_ledger 604000 DAY) = 1"
    by (simp add: demo_ledger_def demo_simps window_sums_def in_hours_def hours_def cdiv_def zero_bucket_def add_bucket_def)
  moreover have "0 < lp_recent_n demo_params" "\<forall>e \<in> set demo_events. 0 \<le> event_time e"
    by (simp_all add: demo_params_def demo_events_def demo_issued_def demo_matured_def)
  note ledger_run_consistent [OF this _ demo_ledger_run]
  ultimately show ?thesis by simp
qed

text \<open>Evidence is folded in exactly once: presenting any of the already folded events again, in any order, leaves
  the ledger as it is.\<close>

theorem ledger_exactly_once:
  assumes "ledger_run p es s = Inr s'" and "set es' \<subseteq> set es"
  shows "ledger_run p es' s' = Inr s'"
  using ledger_run_seqs [OF assms(1)] assms(2) by (intro ledger_run_old) auto

theorem ledger_exactly_once_witness:
  "ledger_run demo_params (rev demo_events) demo_ledger = Inr demo_ledger \<and> length demo_events = 4"
  using ledger_exactly_once [OF demo_ledger_run, of "rev demo_events"] by (simp add: demo_events_def)

text \<open>Hindsight cannot stand in for prospective evidence: with journal sequence numbers strictly increasing, dropping
  every replay issuance and outcome from the stream leaves every prospective count of every trailing window, the
  recent outcomes, the consecutive misses, the prospective totals and the first issuance times the same.\<close>

theorem replay_evidence_counted_apart:
  assumes "ledger_run p es (new_ledger epoch model recipe interval_s) = Inr s"
    and "\<forall>e \<in> set es. 0 \<le> event_time e \<and> event_time e \<le> now" and "0 < lp_recent_n p"
    and "sorted_wrt (<) (0 # outcome_seqs es)" and "sorted_wrt (<) (0 # issuance_seqs es)"
    and "seconds \<le> lp_retention_s p" and "\<not> HOUR dvd now - lp_retention_s p"
  shows "\<exists>s'. ledger_run p (filter (\<lambda>e. \<not> is_replay e) es) (new_ledger epoch model recipe interval_s) = Inr s' \<and>
     prospective_counts (window_sums s now seconds) = prospective_counts (window_sums s' now seconds) \<and>
     l_recent s = l_recent s' \<and> l_consecutive_misses s = l_consecutive_misses s' \<and>
     prospective_totals s = prospective_totals s' \<and>
     l_first_prospective_s s = l_first_prospective_s s' \<and> l_first_issue_s s = l_first_issue_s s'"
proof -
  let ?s0 = "new_ledger epoch model recipe interval_s"
  have "newest_le now ?s0" "l_last_outcome_seq ?s0 = 0" "l_last_issuance_seq ?s0 = 0"
    by (simp_all add: newest_le_def new_ledger_def)
  with agree_run [OF agree_refl assms(1), of now] assms(2,4,5) obtain s' where
    s': "ledger_run p (filter (\<lambda>e. \<not> is_replay e) es) ?s0 = Inr s'" "agree ((now - lp_retention_s p) div HOUR) s s'"
    by auto
  have "ledger_ok (lp_recent_n p) (lp_retention_s p) s" "ledger_ok (lp_recent_n p) (lp_retention_s p) s'"
    using ledger_run_ok [OF ledger_ok_new assms(3) _ assms(1)] ledger_run_ok [OF ledger_ok_new assms(3) _ s'(1)] assms(2)
    by simp_all
  then have "prospective_counts (window_sums s now seconds) = prospective_counts (window_sums s' now seconds)"
    using s'(2) assms(6,7) by (intro prospective_window_sums) (simp_all add: ledger_ok_def)
  with s' show ?thesis by (auto simp: agree_def)
qed

theorem replay_evidence_counted_apart_witness:
  "\<exists>s'. ledger_run demo_params (filter (\<lambda>e. \<not> is_replay e) demo_events) (new_ledger ''e'' NAIVE ''r'' 600) = Inr s' \<and>
     prospective_counts (window_sums demo_ledger 604001 DAY) = prospective_counts (window_sums s' 604001 DAY)"
proof -
  have "\<forall>e \<in> set demo_events. 0 \<le> event_time e \<and> event_time e \<le> 604001"
    "0 < lp_recent_n demo_params" "sorted_wrt (<) (0 # outcome_seqs demo_events)"
    "sorted_wrt (<) (0 # issuance_seqs demo_events)" "DAY \<le> lp_retention_s demo_params"
    "\<not> HOUR dvd 604001 - lp_retention_s demo_params"
    by (simp_all add: demo_params_def demo_events_def demo_issued_def demo_matured_def DAY_def HOUR_def)
  from replay_evidence_counted_apart [OF demo_ledger_run this] show ?thesis by blast
qed

end
