(* ===== verification/Trust_Policy.thy ===== *)
theory Trust_Policy
  imports Trust_Ledger
begin

text \<open>
  The decision half of \<^verbatim>\<open>forecasting/trust.py\<close>: the gates of a candidate, its hysteresis, the paired challenger
  tests, the selection with its own hysteresis and \<open>evaluate\<close>. Mappings from model names are association lists in
  insertion order; \<open>costs\<close> maps a model to its named cost pairs.
\<close>

section \<open>Inputs, verdicts, states\<close>

record candidate_inputs =
  ci_model :: string
  ci_ledger :: ledger
  ci_bound_available :: bool
  ci_calibration_windows :: int
  ci_min_calibration_windows :: int
  ci_history_seconds :: int
  ci_required_history_seconds :: int
  ci_data_fresh :: bool
  ci_fit_age_seconds :: "int option"

definition ci_recipe :: "candidate_inputs \<Rightarrow> string" where
  "ci_recipe ci = l_recipe (ci_ledger ci)"

record global_inputs =
  gl_now_s :: int
  gl_lead_seconds :: int
  gl_nominal_miscoverage :: pyfloat
  gl_identity_ok :: bool
  gl_store_healthy :: bool
  gl_replay_suite_passed :: bool
  gl_startup_budget_valid :: bool

text \<open>The gates in the order of \<open>_GATE_REASON\<close>.\<close>

record gates =
  gt_identity :: bool
  gt_state :: bool
  gt_data :: bool
  gt_history :: bool
  gt_calibration :: bool
  gt_prospective :: bool
  gt_coverage :: bool
  gt_availability :: bool

datatype reason =
    IdentityMismatch | StateUnavailable | DataUnavailable | HistoryInsufficient | CalibrationInsufficientR
  | ShadowInsufficient | CoverageLow | LeadInsufficient | ReplayGateMissing | Ready

datatype phase = Collecting | Calibrating | Shadow | Trusted | Degraded

record gate_info =
  gi_coverage_gate :: "pyfloat option"
  gi_coverage_all :: "pyfloat option"
  gi_availability :: "pyfloat option"
  gi_prediction_availability :: "pyfloat option"
  gi_overdue :: int
  gi_prospective :: int
  gi_replay :: int
  gi_eta :: "int option"

record candidate_verdict =
  cv_model :: string
  cv_recipe :: string
  cv_gates :: gates
  cv_reason :: reason
  cv_phase :: phase
  cv_trusted :: bool
  cv_info :: gate_info
  cv_eta_seconds :: "int option"

record verdict =
  v_selected :: "string option"
  v_phase :: phase
  v_reason :: reason
  v_prediction_ready :: bool
  v_candidates :: "(string \<times> candidate_verdict) list"
  v_promoted :: "(string \<times> bool) list"

record hysteresis =
  h_epoch :: string
  h_recipe :: string
  h_trusted :: bool
  h_ever_trusted :: bool
  h_demoted_at_s :: "int option"
  h_bounds_at_demotion :: int
  h_gates_ok_since_s :: "int option"

definition new_hysteresis :: "string \<Rightarrow> string \<Rightarrow> hysteresis" where
  "new_hysteresis recipe epoch =
     \<lparr> h_epoch = epoch, h_recipe = recipe, h_trusted = False, h_ever_trusted = False, h_demoted_at_s = None,
       h_bounds_at_demotion = 0, h_gates_ok_since_s = None \<rparr>"

record selection =
  sel_epoch :: "string option"
  sel_selected :: "string option"
  sel_recipe :: "string option"
  sel_since_s :: "int option"
  sel_switches :: int
  sel_entry_since :: "((string \<times> string) \<times> int) list"

definition new_selection :: "string option \<Rightarrow> selection" where
  "new_selection epoch =
     \<lparr> sel_epoch = epoch, sel_selected = None, sel_recipe = None, sel_since_s = None, sel_switches = 0,
       sel_entry_since = [] \<rparr>"

section \<open>The gates\<close>

definition coverage_threshold :: "global_inputs \<Rightarrow> trust_settings \<Rightarrow> pyfloat" where
  "coverage_threshold g t = (1 - gl_nominal_miscoverage g) - int_div (coverage_tolerance_bps t) 10000"

definition at_least :: "pyfloat option \<Rightarrow> pyfloat \<Rightarrow> bool" where
  "at_least v x = (case v of None \<Rightarrow> False | Some r \<Rightarrow> x \<le> r)"

definition shadow_ok :: "ledger \<Rightarrow> int \<Rightarrow> trust_settings \<Rightarrow> bool" where
  "shadow_ok led now t =
     (case l_first_prospective_s led of
        None \<Rightarrow> False
      | Some first \<Rightarrow> min_shadow_hours t * HOUR \<le> now - first \<and>
                      min_prospective_windows t \<le> g_bd (window_sums led now (7 * DAY)))"

definition worst_day_ok :: "ledger \<Rightarrow> int \<Rightarrow> trust_settings \<Rightarrow> pyfloat \<Rightarrow> bool" where
  "worst_day_ok led now t threshold =
     list_all (\<lambda>(d, bd, cv). worst_day_min_outcomes t \<le> bd \<longrightarrow> threshold \<le> int_div cv bd)
       (daily_gate_coverage led now (7 * DAY))"

definition acute_ok :: "ledger \<Rightarrow> trust_settings \<Rightarrow> pyfloat \<Rightarrow> bool" where
  "acute_ok led t threshold \<longleftrightarrow>
     l_consecutive_misses led < acute_consecutive_misses t \<and>
     (int (length (l_recent led)) < acute_recent_windows t \<or>
      threshold \<le> int_div (sum_list (l_recent led)) (int (length (l_recent led))))"

definition fresh_fit :: "candidate_inputs \<Rightarrow> trust_settings \<Rightarrow> bool" where
  "fresh_fit ci t = (case ci_fit_age_seconds ci of None \<Rightarrow> True | Some age \<Rightarrow> age \<le> max_fit_age_hours t * HOUR)"

definition gates_of :: "candidate_inputs \<Rightarrow> global_inputs \<Rightarrow> trust_settings \<Rightarrow> gates" where
  "gates_of ci g t =
     (let led = ci_ledger ci; now = gl_now_s g;
          threshold = coverage_threshold g t;
          w7 = window_sums led now (7 * DAY);
          av = availability led now DAY;
          floor_ratio = int_div (min_availability_bps t) 10000
      in \<lparr> gt_identity = gl_identity_ok g, gt_state = gl_store_healthy g,
           gt_data = (ci_data_fresh ci \<and> fresh_fit ci t),
           gt_history = (ci_required_history_seconds ci \<le> ci_history_seconds ci),
           gt_calibration = ci_bound_available ci, gt_prospective = shadow_ok led now t,
           gt_coverage = (at_least (ratio (g_cv w7) (g_bd w7)) threshold \<and>
                          worst_day_ok led now t threshold \<and> acute_ok led t threshold),
           gt_availability = (at_least (av_outcomes av) floor_ratio \<and> at_least (av_predictions av) floor_ratio) \<rparr>)"

definition eta_of :: "candidate_inputs \<Rightarrow> global_inputs \<Rightarrow> trust_settings \<Rightarrow> bool \<Rightarrow> int option" where
  "eta_of ci g t coverage =
     (let led = ci_ledger ci; now = gl_now_s g;
          bd = g_bd (window_sums led now (7 * DAY));
          missing = max (max (ci_min_calibration_windows ci - ci_calibration_windows ci)
                             (min_prospective_windows t - bd)) 0;
          shadow_left = min_shadow_hours t * HOUR -
                        (case l_first_prospective_s led of None \<Rightarrow> 0 | Some first \<Rightarrow> now - first)
      in if \<not> coverage \<and> min_prospective_windows t \<le> bd then None
         else Some (max (max (missing * gl_lead_seconds g) shadow_left) 0))"

definition candidate_gates ::
  "candidate_inputs \<Rightarrow> global_inputs \<Rightarrow> trust_settings \<Rightarrow> gates \<times> gate_info" where
  "candidate_gates ci g t =
     (let led = ci_ledger ci; now = gl_now_s g;
          w7 = window_sums led now (7 * DAY);
          av = availability led now DAY;
          gs = gates_of ci g t
      in (gs, \<lparr> gi_coverage_gate = ratio (g_cv w7) (g_bd w7), gi_coverage_all = ratio (a_cv w7) (a_bd w7),
                gi_availability = av_outcomes av, gi_prediction_availability = av_predictions av,
                gi_overdue = av_overdue av, gi_prospective = g_bd w7, gi_replay = r_bd w7,
                gi_eta = eta_of ci g t (gt_coverage gs) \<rparr>))"

definition all_gates :: "gates \<Rightarrow> bool" where
  "all_gates gs \<longleftrightarrow> gt_identity gs \<and> gt_state gs \<and> gt_data gs \<and> gt_history gs \<and> gt_calibration gs \<and>
     gt_prospective gs \<and> gt_coverage gs \<and> gt_availability gs"

definition gate_reason :: "gates \<Rightarrow> reason" where
  "gate_reason gs =
     (if \<not> gt_identity gs then IdentityMismatch else if \<not> gt_state gs then StateUnavailable
      else if \<not> gt_data gs then DataUnavailable else if \<not> gt_history gs then HistoryInsufficient
      else if \<not> gt_calibration gs then CalibrationInsufficientR else if \<not> gt_prospective gs then ShadowInsufficient
      else if \<not> gt_coverage gs then CoverageLow else if \<not> gt_availability gs then DataUnavailable else Ready)"

section \<open>Hysteresis\<close>

definition hyst_step :: "hysteresis \<Rightarrow> bool \<Rightarrow> ledger \<Rightarrow> int \<Rightarrow> trust_settings \<Rightarrow> hysteresis" where
  "hyst_step hyst gates_ok led now_s t =
     (let same = ((h_epoch hyst, h_recipe hyst) = (l_epoch led, l_recipe led));
          h = (if same then hyst else new_hysteresis (l_recipe led) (l_epoch led));
          bounds = t_prospective_gate_bounded (l_totals led)
      in if h_trusted h
         then if \<not> gates_ok
              then h\<lparr> h_trusted := False, h_demoted_at_s := Some now_s, h_bounds_at_demotion := bounds,
                      h_gates_ok_since_s := None \<rparr>
              else h
         else if \<not> gates_ok then h\<lparr> h_gates_ok_since_s := None \<rparr>
         else
           let since = (case h_gates_ok_since_s h of None \<Rightarrow> now_s | Some v \<Rightarrow> v);
               h1 = h\<lparr> h_gates_ok_since_s := Some since \<rparr>
           in if \<not> h_ever_trusted h1 then h1\<lparr> h_trusted := True, h_ever_trusted := True \<rparr>
              else
                let held = (repromotion_hours t * HOUR \<le> now_s - since \<and>
                            (case h_demoted_at_s h1 of None \<Rightarrow> False | Some d \<Rightarrow> d < now_s))
                in if held \<and> repromotion_windows t \<le> bounds - h_bounds_at_demotion h1
                   then h1\<lparr> h_trusted := True \<rparr> else h1)"

section \<open>The challenger tests\<close>

type_synonym costs = "(string \<times> (pyfloat \<times> pyfloat)) list"

definition cost_ok :: "trust_settings \<Rightarrow> costs \<Rightarrow> string \<Rightarrow> bool" where
  "cost_ok t costs name =
     (case dict_get costs name of
        None \<Rightarrow> False
      | Some (chal, base) \<Rightarrow> is_finite chal \<and> is_finite base \<and>
          \<not> int_div (challenger_cost_ratio_bps t) 10000 * base < chal)"

definition paired_ok :: "pairs option \<Rightarrow> int \<Rightarrow> trust_settings \<Rightarrow> costs option \<Rightarrow> int \<Rightarrow> bool" where
  "paired_ok prs now_s t costs loss_ratio_bps =
     (case (prs, costs) of
        (Some p, Some c) \<Rightarrow>
          let ps = pair_sums p now_s (7 * DAY) in
          \<not> (ps_n ps < challenger_min_pairs t \<or> pair_span ps < challenger_min_hours t * HOUR) \<and>
          \<not> ps_base ps \<le> 0 \<and>
          \<not> fdiv (int_div loss_ratio_bps 10000 * ps_base ps) (float_of_int (ps_n ps))
              < fdiv (ps_chal ps) (float_of_int (ps_n ps)) \<and>
          cost_ok t c ''shortage'' \<and> cost_ok t c ''replica_time''
      | _ \<Rightarrow> False)"

definition challenger_promoted :: "pairs option \<Rightarrow> int \<Rightarrow> trust_settings \<Rightarrow> costs option \<Rightarrow> bool" where
  "challenger_promoted prs now_s t costs = paired_ok prs now_s t costs (challenger_loss_ratio_bps t)"

definition challenger_retained :: "pairs option \<Rightarrow> int \<Rightarrow> trust_settings \<Rightarrow> costs option \<Rightarrow> bool" where
  "challenger_retained prs now_s t costs = paired_ok prs now_s t costs (challenger_exit_loss_ratio_bps t)"

section \<open>Selection\<close>

type_synonym verdicts = "(string \<times> candidate_verdict) list"
type_synonym all_pairs = "(string \<times> pairs) list"
type_synonym all_costs = "(string \<times> costs) list"

definition naive_ok :: "verdicts \<Rightarrow> bool" where
  "naive_ok vs = (case dict_get vs NAIVE of None \<Rightarrow> False | Some v \<Rightarrow> cv_trusted v)"

definition entry_ok :: "verdicts \<Rightarrow> all_pairs \<Rightarrow> all_costs \<Rightarrow> int \<Rightarrow> trust_settings \<Rightarrow> string \<Rightarrow> bool" where
  "entry_ok vs prs costs now_s t m \<longleftrightarrow>
     naive_ok vs \<and> challenger_promoted (dict_get prs m) now_s t (dict_get costs m)"

text \<open>One turn of the entry loop: \<open>setdefault\<close> while the criteria hold, \<open>pop\<close> otherwise. The key
  \<open>f"{m}:{recipe}"\<close> is the pair.\<close>

definition note_entry ::
  "verdicts \<Rightarrow> all_pairs \<Rightarrow> all_costs \<Rightarrow> int \<Rightarrow> trust_settings \<Rightarrow> string \<times> candidate_verdict \<Rightarrow>
   ((string \<times> string) \<times> int) list \<Rightarrow> ((string \<times> string) \<times> int) list" where
  "note_entry vs prs costs now_s t mv es =
     (let m = fst mv; key = (m, cv_recipe (snd mv))
      in if m = NAIVE then es
         else if entry_ok vs prs costs now_s t m
              then (case dict_get es key of None \<Rightarrow> dict_set key now_s es | Some _ \<Rightarrow> es)
              else dict_pop key es)"

definition entry_flags :: "verdicts \<Rightarrow> all_pairs \<Rightarrow> all_costs \<Rightarrow> int \<Rightarrow> trust_settings \<Rightarrow> (string \<times> bool) list" where
  "entry_flags vs prs costs now_s t =
     map (\<lambda>(m, v). (m, entry_ok vs prs costs now_s t m)) (filter (\<lambda>(m, v). m \<noteq> NAIVE) vs)"

definition kept_current ::
  "selection \<Rightarrow> verdicts \<Rightarrow> all_pairs \<Rightarrow> all_costs \<Rightarrow> int \<Rightarrow> trust_settings \<Rightarrow> string option" where
  "kept_current s vs prs costs now_s t =
     (case sel_selected s of
        None \<Rightarrow> None
      | Some current \<Rightarrow>
          let safe = (case dict_get vs current of
                        None \<Rightarrow> False
                      | Some v \<Rightarrow> cv_trusted v \<and> Some (cv_recipe v) = sel_recipe s \<and> (current = NAIVE \<or> naive_ok vs));
              kept = (current = NAIVE \<or> challenger_retained (dict_get prs current) now_s t (dict_get costs current))
          in if safe \<and> kept then Some current else None)"

definition eligible_target ::
  "((string \<times> string) \<times> int) list \<Rightarrow> string option \<Rightarrow> verdicts \<Rightarrow> int \<Rightarrow> trust_settings \<Rightarrow> string \<Rightarrow> bool" where
  "eligible_target es current vs now_s t m =
     (case dict_get vs m of
        None \<Rightarrow> False
      | Some v \<Rightarrow>
          cv_trusted v \<and>
          (m = NAIVE \<or> (current = Some m \<and> naive_ok vs) \<or>
           (case dict_get es (m, cv_recipe v) of
              None \<Rightarrow> False | Some since \<Rightarrow> repromotion_hours t * HOUR \<le> now_s - since)))"

definition select ::
  "selection \<Rightarrow> verdicts \<Rightarrow> all_pairs \<Rightarrow> all_costs \<Rightarrow> int \<Rightarrow> trust_settings \<Rightarrow> selection \<times> (string \<times> bool) list" where
  "select sel vs prs costs now_s t =
     (let es = fold (note_entry vs prs costs now_s t) vs (sel_entry_since sel);
          s = sel\<lparr> sel_entry_since := es \<rparr>;
          current = kept_current s vs prs costs now_s t;
          target = List.find (eligible_target es current vs now_s t) FALLBACK_ORDER;
          s' = (if target \<noteq> sel_selected s
                then s\<lparr> sel_selected := target,
                        sel_recipe := (case target of None \<Rightarrow> None | Some m \<Rightarrow> map_option cv_recipe (dict_get vs m)),
                        sel_since_s := Some now_s, sel_switches := sel_switches s + 1 \<rparr>
                else s)
      in (s', entry_flags vs prs costs now_s t))"

section \<open>evaluate\<close>

text \<open>The state maps each model to its hysteresis, and \<open>_selection\<close> to the selection state.\<close>

record trust_state =
  ts_hyst :: "(string \<times> hysteresis) list"
  ts_selection :: "selection option"

definition candidate_verdict_of :: "candidate_inputs \<Rightarrow> gates \<Rightarrow> gate_info \<Rightarrow> hysteresis \<Rightarrow> candidate_verdict" where
  "candidate_verdict_of ci gs info h =
     (let reason0 = gate_reason gs;
          phase = (if h_trusted h then Trusted else if h_ever_trusted h then Degraded
                   else if \<not> gt_history gs then Collecting
                   else if \<not> gt_calibration gs then Calibrating else Shadow);
          reason1 = (if reason0 = Ready \<and> \<not> h_trusted h then ShadowInsufficient else reason0)
      in \<lparr> cv_model = ci_model ci, cv_recipe = ci_recipe ci, cv_gates = gs, cv_reason = reason1, cv_phase = phase,
           cv_trusted = h_trusted h, cv_info = info,
           cv_eta_seconds = (if h_trusted h then None else gi_eta info) \<rparr>)"

definition judge ::
  "(string \<times> hysteresis) list \<Rightarrow> global_inputs \<Rightarrow> trust_settings \<Rightarrow> candidate_inputs \<Rightarrow> hysteresis \<times> candidate_verdict" where
  "judge hyst g t ci =
     (let (gs, info) = candidate_gates ci g t;
          h0 = (case dict_get hyst (ci_model ci) of
                  None \<Rightarrow> new_hysteresis (ci_recipe ci) (l_epoch (ci_ledger ci)) | Some h \<Rightarrow> h);
          h = hyst_step h0 (all_gates gs) (ci_ledger ci) (gl_now_s g) t
      in (h, candidate_verdict_of ci gs info h))"

definition by_model :: "candidate_inputs list \<Rightarrow> (string \<times> candidate_inputs) list" where
  "by_model cands = fold (\<lambda>c d. dict_set (ci_model c) c d) cands []"

definition pairs_identity_ok :: "(string \<times> candidate_inputs) list \<Rightarrow> string option \<Rightarrow> string \<times> pairs \<Rightarrow> bool" where
  "pairs_identity_ok bm epoch mp =
     (let (m, p) = mp in
      case dict_get bm m of
        None \<Rightarrow> True
      | Some ci \<Rightarrow>
          m = NAIVE \<or>
          (Some (pr_epoch p), pr_challenger p, pr_baseline p, dict_get (pr_recipes p) m, dict_get (pr_recipes p) NAIVE) =
          (epoch, m, NAIVE, Some (ci_recipe ci), map_option ci_recipe (dict_get bm NAIVE)))"

definition reason_rank :: "reason \<Rightarrow> nat" where
  "reason_rank r =
     (case r of IdentityMismatch \<Rightarrow> 0 | StateUnavailable \<Rightarrow> 1 | DataUnavailable \<Rightarrow> 2 | HistoryInsufficient \<Rightarrow> 3
      | CalibrationInsufficientR \<Rightarrow> 4 | ShadowInsufficient \<Rightarrow> 5 | CoverageLow \<Rightarrow> 6 | LeadInsufficient \<Rightarrow> 7
      | ReplayGateMissing \<Rightarrow> 8 | Ready \<Rightarrow> 9)"

text \<open>\<open>max(ordered, key=...)\<close>: the first element of largest rank.\<close>

fun furthest :: "candidate_verdict list \<Rightarrow> candidate_verdict option" where
  "furthest [] = None"
| "furthest (v # vs) =
     Some (fold (\<lambda>w best. if reason_rank (cv_reason best) < reason_rank (cv_reason w) then w else best) vs v)"

definition unselected_verdict :: "verdicts \<Rightarrow> (string \<times> bool) list \<Rightarrow> verdict" where
  "unselected_verdict vs promoted =
     (case furthest (List.map_filter (dict_get vs) FALLBACK_ORDER) of
        None \<Rightarrow> \<lparr> v_selected = None, v_phase = Collecting, v_reason = HistoryInsufficient, v_prediction_ready = False,
                  v_candidates = vs, v_promoted = promoted \<rparr>
      | Some best \<Rightarrow>
          let (r, ph) = (if cv_trusted best then (ShadowInsufficient, Shadow) else (cv_reason best, cv_phase best))
          in \<lparr> v_selected = None, v_phase = ph, v_reason = r, v_prediction_ready = False,
               v_candidates = vs, v_promoted = promoted \<rparr>)"

definition selected_verdict :: "string \<Rightarrow> global_inputs \<Rightarrow> verdicts \<Rightarrow> (string \<times> bool) list \<Rightarrow> verdict" where
  "selected_verdict m g vs promoted =
     (let r = (if \<not> gl_replay_suite_passed g then ReplayGateMissing
               else if \<not> gl_startup_budget_valid g then LeadInsufficient else Ready)
      in \<lparr> v_selected = Some m, v_phase = Trusted, v_reason = r, v_prediction_ready = (r = Ready),
           v_candidates = vs, v_promoted = promoted \<rparr>)"

definition evaluate ::
  "candidate_inputs list \<Rightarrow> trust_state \<Rightarrow> global_inputs \<Rightarrow> trust_settings \<Rightarrow> all_pairs option \<Rightarrow>
   all_costs option \<Rightarrow> trust_error + verdict \<times> trust_state" where
  "evaluate cands hyst g t prs costs =
     (let bm = by_model cands;
          epoch = (case cands of [] \<Rightarrow> None | c # _ \<Rightarrow> Some (l_epoch (ci_ledger c)));
          ps = (case prs of None \<Rightarrow> [] | Some p \<Rightarrow> p);
          cs = (case costs of None \<Rightarrow> [] | Some c \<Rightarrow> c)
      in if \<not> list_all (\<lambda>(m, c). m \<in> set FALLBACK_ORDER) bm then Inl (TrustError ''unknown candidates'')
         else if \<not> list_all (\<lambda>c. Some (l_epoch (ci_ledger c)) = epoch \<and> l_model (ci_ledger c) = ci_model c) cands
         then Inl (TrustError ''different epochs or models'')
         else if \<not> list_all (pairs_identity_ok bm epoch) ps then Inl (TrustError ''paired evidence'')
         else
           let judged = map (\<lambda>(m, ci). (m, judge (ts_hyst hyst) g t ci)) bm;
               vs = map (\<lambda>(m, hv). (m, snd hv)) judged;
               prior = (case ts_selection hyst of
                          None \<Rightarrow> new_selection epoch
                        | Some s \<Rightarrow> if sel_epoch s \<noteq> epoch then new_selection epoch else s);
               (sel, promoted) = select prior vs ps cs (gl_now_s g) t;
               st = \<lparr> ts_hyst = map (\<lambda>(m, hv). (m, fst hv)) judged, ts_selection = Some sel \<rparr>
           in case sel_selected sel of
                None \<Rightarrow> Inr (unselected_verdict vs promoted, st)
              | Some m \<Rightarrow> Inr (selected_verdict m g vs promoted, st))"

section \<open>One hysteresis step\<close>

lemma hyst_step_trusted: "h_trusted (hyst_step h ok led now t) \<Longrightarrow> ok"
  by (auto simp: hyst_step_def Let_def new_hysteresis_def split: if_splits)

lemma hyst_step_identity [simp]:
  "h_epoch (hyst_step h ok led now t) = l_epoch led" "h_recipe (hyst_step h ok led now t) = l_recipe led"
  by (auto simp: hyst_step_def Let_def new_hysteresis_def)

section \<open>Selection picks only trusted candidates\<close>

text \<open>What the entry loop leaves for a model: the key is there exactly while its criteria hold.\<close>

lemma note_entry_get:
  "dict_get (note_entry vs prs costs now t mv es) (m, r) =
     (if fst mv = m \<and> m \<noteq> NAIVE \<and> cv_recipe (snd mv) = r
      then if entry_ok vs prs costs now t m
           then (case dict_get es (m, r) of None \<Rightarrow> Some now | Some x \<Rightarrow> Some x) else None
      else dict_get es (m, r))"
  by (auto simp: note_entry_def Let_def py_dict split: option.splits)

lemma fold_note_entry_other:
  assumes "m \<notin> fst ` set ws"
  shows "dict_get (fold (note_entry vs prs costs now t) ws es) (m, r) = dict_get es (m, r)"
  using assms by (induction ws arbitrary: es) (auto simp: note_entry_get)

lemma fold_note_entry_get:
  assumes "dict_wf ws" and "dict_get ws m = Some v" and "m \<noteq> NAIVE"
  shows "dict_get (fold (note_entry vs prs costs now t) ws es) (m, cv_recipe v) =
     (if entry_ok vs prs costs now t m
      then (case dict_get es (m, cv_recipe v) of None \<Rightarrow> Some now | Some x \<Rightarrow> Some x) else None)"
  using assms
proof (induction ws arbitrary: es)
  case (Cons w ws)
  show ?case
  proof (cases "fst w = m")
    case True
    with Cons.prems have "m \<notin> fst ` set ws" "snd w = v" by (auto split: if_splits)
    then show ?thesis using True Cons.prems(3) by (simp add: fold_note_entry_other note_entry_get)
  next
    case False
    then have "dict_get (note_entry vs prs costs now t w es) (m, cv_recipe v) = dict_get es (m, cv_recipe v)"
      by (simp add: note_entry_get)
    then show ?thesis using False Cons by (simp split: if_splits)
  qed
qed simp

lemma kept_current_Some:
  assumes "kept_current s vs prs costs now t = Some m"
  shows "m \<noteq> NAIVE \<Longrightarrow> challenger_retained (dict_get prs m) now t (dict_get costs m)"
    and "sel_selected s = Some m"
  using assms by (auto simp: kept_current_def Let_def split: option.splits if_splits)

definition selectable :: "verdicts \<Rightarrow> all_pairs \<Rightarrow> all_costs \<Rightarrow> int \<Rightarrow> trust_settings \<Rightarrow> string \<Rightarrow> bool" where
  "selectable vs prs costs now_s t m \<longleftrightarrow>
     m \<in> set FALLBACK_ORDER \<and> (\<exists>v. dict_get vs m = Some v \<and> cv_trusted v) \<and>
     (m \<noteq> NAIVE \<longrightarrow> naive_ok vs \<and>
        (challenger_promoted (dict_get prs m) now_s t (dict_get costs m) \<or>
         challenger_retained (dict_get prs m) now_s t (dict_get costs m)))"

lemma select_target:
  "sel_selected (fst (select sel vs prs costs now t)) =
     List.find (eligible_target (fold (note_entry vs prs costs now t) vs (sel_entry_since sel))
       (kept_current (sel\<lparr> sel_entry_since := fold (note_entry vs prs costs now t) vs (sel_entry_since sel) \<rparr>)
          vs prs costs now t) vs now t) FALLBACK_ORDER"
  by (auto simp: select_def Let_def)

lemma select_entry_since:
  "sel_entry_since (fst (select sel vs prs costs now t)) = fold (note_entry vs prs costs now t) vs (sel_entry_since sel)"
  by (simp add: select_def Let_def)

lemma select_selectable:
  assumes "dict_wf vs" and sel: "sel_selected (fst (select sel vs prs costs now t)) = Some m"
  shows "selectable vs prs costs now t m"
proof -
  let ?es = "fold (note_entry vs prs costs now t) vs (sel_entry_since sel)"
  let ?cur = "kept_current (sel\<lparr> sel_entry_since := ?es \<rparr>) vs prs costs now t"
  have "m \<in> set FALLBACK_ORDER" "eligible_target ?es ?cur vs now t m"
    using sel unfolding select_target find_Some_iff by auto
  then obtain v where v: "dict_get vs m = Some v" "cv_trusted v"
    and el: "m \<noteq> NAIVE \<Longrightarrow> (?cur = Some m \<and> naive_ok vs) \<or>
        (\<exists>since. dict_get ?es (m, cv_recipe v) = Some since)"
    by (auto simp: eligible_target_def split: option.splits)
  have "naive_ok vs \<and> (challenger_promoted (dict_get prs m) now t (dict_get costs m) \<or>
      challenger_retained (dict_get prs m) now t (dict_get costs m))" if "m \<noteq> NAIVE"
    using el [OF that] kept_current_Some(1) [OF _ that] fold_note_entry_get [OF assms(1) v(1) that]
    by (auto simp: entry_ok_def split: if_splits)
  with v \<open>m \<in> set FALLBACK_ORDER\<close> show ?thesis by (simp add: selectable_def)
qed

text \<open>The naive is the last resort: a trusted naive is always selected over nothing.\<close>

lemma select_naive:
  assumes "naive_ok vs"
  shows "sel_selected (fst (select sel vs prs costs now t)) \<noteq> None"
proof -
  have "eligible_target es cur vs now t NAIVE" for es cur
    using assms by (auto simp: naive_ok_def eligible_target_def split: option.splits)
  moreover have "NAIVE \<in> set FALLBACK_ORDER" by (simp add: NAIVE_def FALLBACK_ORDER_def)
  ultimately show ?thesis unfolding select_target find_None_iff by blast
qed

section \<open>evaluate\<close>

lemma by_model_wf: "dict_wf (by_model cands)"
proof -
  have "dict_wf d \<Longrightarrow> dict_wf (fold (\<lambda>c d. dict_set (ci_model c) c d) cs d)" for cs and d :: "(string \<times> candidate_inputs) list"
    by (induction cs arbitrary: d) (auto simp: dict_wf_set)
  then show ?thesis by (simp add: by_model_def)
qed

definition judged_verdicts ::
  "candidate_inputs list \<Rightarrow> trust_state \<Rightarrow> global_inputs \<Rightarrow> trust_settings \<Rightarrow> verdicts" where
  "judged_verdicts cands hyst g t = map (\<lambda>(m, ci). (m, snd (judge (ts_hyst hyst) g t ci))) (by_model cands)"

lemma judged_verdicts_wf: "dict_wf (judged_verdicts cands hyst g t)"
proof -
  have "map fst (judged_verdicts cands hyst g t) = map fst (by_model cands)"
    by (simp add: judged_verdicts_def case_prod_beta comp_def)
  then show ?thesis using by_model_wf by simp
qed

lemma judge_trusted:
  assumes "cv_trusted (snd (judge hyst g t ci))"
  shows "all_gates (cv_gates (snd (judge hyst g t ci)))" and "cv_gates (snd (judge hyst g t ci)) = gates_of ci g t"
  using assms hyst_step_trusted
  by (auto simp: judge_def candidate_gates_def candidate_verdict_of_def Let_def)

lemma judged_verdicts_trusted:
  assumes "dict_get (judged_verdicts cands hyst g t) m = Some v" and "cv_trusted v"
  shows "all_gates (cv_gates v)"
proof -
  obtain ci where "v = snd (judge (ts_hyst hyst) g t ci)"
    using map_of_SomeD [OF assms(1)] by (auto simp: judged_verdicts_def)
  then show ?thesis using assms(2) judge_trusted(1) by blast
qed

lemma evaluate_Inr:
  assumes "evaluate cands hyst g t prs costs = Inr (v, st)"
  defines "vs \<equiv> judged_verdicts cands hyst g t"
  obtains prior promoted where
    "v_candidates v = vs" and
    "ts_selection st = Some (fst (select prior vs (case prs of None \<Rightarrow> [] | Some p \<Rightarrow> p)
        (case costs of None \<Rightarrow> [] | Some c \<Rightarrow> c) (gl_now_s g) t))" and
    "v_selected v = sel_selected (fst (select prior vs (case prs of None \<Rightarrow> [] | Some p \<Rightarrow> p)
        (case costs of None \<Rightarrow> [] | Some c \<Rightarrow> c) (gl_now_s g) t))" and
    "v = (case v_selected v of None \<Rightarrow> unselected_verdict vs promoted | Some m \<Rightarrow> selected_verdict m g vs promoted)"
proof -
  have vs: "map (\<lambda>(m, hv). (m, snd hv)) (map (\<lambda>(m, ci). (m, judge (ts_hyst hyst) g t ci)) (by_model cands)) = vs"
    by (simp add: vs_def judged_verdicts_def case_prod_beta comp_def)
  have sel: "v_selected (unselected_verdict w pr) = None" "v_candidates (unselected_verdict w pr) = w"
    "v_selected (selected_verdict m g w pr) = Some m" "v_candidates (selected_verdict m g w pr) = w" for w pr m
    by (auto simp: unselected_verdict_def selected_verdict_def Let_def split: option.splits)
  show thesis
    using assms(1) that unfolding evaluate_def Let_def vs
    by (auto simp: sel case_prod_beta split: if_splits option.splits)
qed

section \<open>Hysteresis over a sequence of evaluations\<close>

text \<open>One evaluation as the hysteresis sees it: whether the gates held, the ledger and the time.\<close>

record evaluation =
  ev_ok :: bool
  ev_ledger :: ledger
  ev_now :: int

abbreviation ev_bounds :: "evaluation \<Rightarrow> int" where
  "ev_bounds e \<equiv> t_prospective_gate_bounded (l_totals (ev_ledger e))"

definition hyst_run :: "trust_settings \<Rightarrow> hysteresis \<Rightarrow> evaluation list \<Rightarrow> hysteresis" where
  "hyst_run t h es = foldl (\<lambda>h e. hyst_step h (ev_ok e) (ev_ledger e) (ev_now e) t) h es"

lemma hyst_run_snoc: "hyst_run t h (es @ [e]) = hyst_step (hyst_run t h es) (ev_ok e) (ev_ledger e) (ev_now e) t"
  by (simp add: hyst_run_def)

text \<open>What the hysteresis state remembers of the evaluations so far.\<close>

definition since_inv :: "hysteresis \<Rightarrow> evaluation list \<Rightarrow> bool" where
  "since_inv h es \<longleftrightarrow>
     (\<forall>x. h_gates_ok_since_s h = Some x \<longrightarrow>
        (\<exists>pre suf. es = pre @ suf \<and> suf \<noteq> [] \<and> (\<forall>e \<in> set suf. ev_ok e) \<and> ev_now (hd suf) = x))"

definition demotion_inv :: "trust_settings \<Rightarrow> hysteresis \<Rightarrow> hysteresis \<Rightarrow> evaluation list \<Rightarrow> bool" where
  "demotion_inv t h0 h es \<longleftrightarrow>
     (h_trusted h \<longrightarrow> h_ever_trusted h) \<and>
     (h_ever_trusted h \<and> \<not> h_trusted h \<longrightarrow>
        (\<exists>p1 d p2. es = p1 @ d # p2 \<and> h_trusted (hyst_run t h0 p1) \<and> \<not> ev_ok d \<and>
           h_demoted_at_s h = Some (ev_now d) \<and> h_bounds_at_demotion h = ev_bounds d))"

definition same_candidate :: "string \<Rightarrow> string \<Rightarrow> evaluation \<Rightarrow> bool" where
  "same_candidate epoch recipe e \<longleftrightarrow> l_epoch (ev_ledger e) = epoch \<and> l_recipe (ev_ledger e) = recipe"

lemma hyst_run_identity:
  assumes "\<forall>e \<in> set es. same_candidate epoch recipe e"
  shows "h_epoch (hyst_run t (new_hysteresis recipe epoch) es) = epoch"
    and "h_recipe (hyst_run t (new_hysteresis recipe epoch) es) = recipe"
  using assms
  by (induction es rule: rev_induct)
    (auto simp: hyst_run_snoc same_candidate_def, simp_all add: hyst_run_def new_hysteresis_def)

lemma hyst_step_cases [consumes 2, case_names keep demote fail first wait again]:
  assumes "h_epoch h = l_epoch led" and "h_recipe h = l_recipe led"
  obtains (keep) "h_trusted h" "ok" "hyst_step h ok led now t = h"
  | (demote) "h_trusted h" "\<not> ok"
      "hyst_step h ok led now t = h\<lparr> h_trusted := False, h_demoted_at_s := Some now,
         h_bounds_at_demotion := t_prospective_gate_bounded (l_totals led), h_gates_ok_since_s := None \<rparr>"
  | (fail) "\<not> h_trusted h" "\<not> ok" "hyst_step h ok led now t = h\<lparr> h_gates_ok_since_s := None \<rparr>"
  | (first) x where "\<not> h_trusted h" "ok" "\<not> h_ever_trusted h"
      "x = (case h_gates_ok_since_s h of None \<Rightarrow> now | Some v \<Rightarrow> v)"
      "hyst_step h ok led now t = h\<lparr> h_gates_ok_since_s := Some x, h_trusted := True, h_ever_trusted := True \<rparr>"
  | (wait) x where "\<not> h_trusted h" "ok" "h_ever_trusted h"
      "x = (case h_gates_ok_since_s h of None \<Rightarrow> now | Some v \<Rightarrow> v)"
      "hyst_step h ok led now t = h\<lparr> h_gates_ok_since_s := Some x \<rparr>"
  | (again) x d where "\<not> h_trusted h" "ok" "h_ever_trusted h"
      "x = (case h_gates_ok_since_s h of None \<Rightarrow> now | Some v \<Rightarrow> v)"
      "hyst_step h ok led now t = h\<lparr> h_gates_ok_since_s := Some x, h_trusted := True \<rparr>"
      "repromotion_hours t * HOUR \<le> now - x" "h_demoted_at_s h = Some d" "d < now"
      "repromotion_windows t \<le> t_prospective_gate_bounded (l_totals led) - h_bounds_at_demotion h"
proof -
  let ?x = "case h_gates_ok_since_s h of None \<Rightarrow> now | Some v \<Rightarrow> v"
  let ?b = "t_prospective_gate_bounded (l_totals led)"
  let ?held = "repromotion_hours t * HOUR \<le> now - ?x \<and>
    (case h_demoted_at_s h of None \<Rightarrow> False | Some d \<Rightarrow> d < now) \<and> repromotion_windows t \<le> ?b - h_bounds_at_demotion h"
  have same: "((h_epoch h, h_recipe h) = (l_epoch led, l_recipe led)) = True" using assms by simp
  note step = hyst_step_def [of h ok led now t, unfolded Let_def same if_True]
  consider "h_trusted h" "ok" | "h_trusted h" "\<not> ok" | "\<not> h_trusted h" "\<not> ok"
    | "\<not> h_trusted h" "ok" "\<not> h_ever_trusted h" | "\<not> h_trusted h" "ok" "h_ever_trusted h" "\<not> ?held"
    | "\<not> h_trusted h" "ok" "h_ever_trusted h" "?held" by blast
  then show thesis
  proof cases
    case 1 show thesis by (rule keep) (use 1 step in simp_all)
  next
    case 2 show thesis by (rule demote) (use 2 step in simp_all)
  next
    case 3 show thesis by (rule fail) (use 3 step in simp_all)
  next
    case 4 show thesis by (rule first [OF _ _ _ refl]) (use 4 step in simp_all)
  next
    case 5 show thesis by (rule wait [OF _ _ _ refl]) (use 5 step in simp_all)
  next
    case 6
    then obtain d where d: "h_demoted_at_s h = Some d" "d < now" by (auto split: option.splits)
    show thesis by (rule again [OF _ _ _ refl _ _ d]) (use 6 step in simp_all)
  qed
qed

lemma since_inv_step:
  assumes "since_inv h es" and "h_gates_ok_since_s h' = Some x" and "ev_ok e"
    and "x = (case h_gates_ok_since_s h of None \<Rightarrow> ev_now e | Some v \<Rightarrow> v)"
  shows "since_inv h' (es @ [e])"
proof (cases "h_gates_ok_since_s h")
  case None
  then show ?thesis using assms unfolding since_inv_def
    by (intro allI impI exI [of _ es] exI [of _ "[e]"]) simp
next
  case (Some v)
  then obtain pre suf where "es = pre @ suf" "suf \<noteq> []" "\<forall>e \<in> set suf. ev_ok e" "ev_now (hd suf) = v"
    using assms(1) by (auto simp: since_inv_def)
  then show ?thesis using assms Some unfolding since_inv_def
    by (intro allI impI exI [of _ pre] exI [of _ "suf @ [e]"]) auto
qed

lemma since_inv_keep:
  assumes "since_inv h es" and "ev_ok e"
  shows "since_inv h (es @ [e])"
proof (cases "h_gates_ok_since_s h")
  case (Some v)
  with since_inv_step [OF assms(1) Some assms(2)] show ?thesis by simp
qed (simp add: since_inv_def)

lemma demotion_inv_later:
  assumes "demotion_inv t h0 h es" and "\<not> h_trusted h" and "h_trusted h' = h_trusted h"
    and "h_ever_trusted h' = h_ever_trusted h"
    and "h_demoted_at_s h' = h_demoted_at_s h" and "h_bounds_at_demotion h' = h_bounds_at_demotion h"
  shows "demotion_inv t h0 h' (es @ [e])"
  using assms unfolding demotion_inv_def by (metis append_Cons append_assoc)

lemma hyst_invs:
  assumes "\<forall>e \<in> set es. same_candidate epoch recipe e"
  defines "h0 \<equiv> new_hysteresis recipe epoch"
  shows "since_inv (hyst_run t h0 es) es \<and> demotion_inv t h0 (hyst_run t h0 es) es"
  using assms(1)
proof (induction es rule: rev_induct)
  case Nil
  show ?case by (simp add: hyst_run_def h0_def new_hysteresis_def since_inv_def demotion_inv_def)
next
  case (snoc e es)
  let ?h = "hyst_run t h0 es"
  have si: "since_inv ?h es" and di: "demotion_inv t h0 ?h es" using snoc by auto
  have id: "h_epoch ?h = l_epoch (ev_ledger e)" "h_recipe ?h = l_recipe (ev_ledger e)"
    using snoc.prems hyst_run_identity [of es epoch recipe t] by (auto simp: h0_def same_candidate_def)
  from id show ?case
  proof (cases rule: hyst_step_cases [where ok = "ev_ok e" and now = "ev_now e" and t = t])
    case keep
    have "since_inv ?h (es @ [e])" by (rule since_inv_keep [OF si keep(2)])
    moreover have "demotion_inv t h0 ?h (es @ [e])" using di keep by (simp add: demotion_inv_def)
    ultimately show ?thesis using keep by (simp add: hyst_run_snoc)
  next
    case demote
    then show ?thesis using di by (auto simp: hyst_run_snoc since_inv_def demotion_inv_def)
  next
    case fail
    then show ?thesis using demotion_inv_later [OF di] by (simp add: hyst_run_snoc since_inv_def)
  next
    case (first x)
    then show ?thesis using since_inv_step [OF si] by (simp add: hyst_run_snoc demotion_inv_def)
  next
    case (wait x)
    then show ?thesis using since_inv_step [OF si] demotion_inv_later [OF di] by (simp add: hyst_run_snoc)
  next
    case (again x)
    then show ?thesis using since_inv_step [OF si] by (simp add: hyst_run_snoc demotion_inv_def)
  qed
qed

lemma split_after_failure:
  assumes "p1 @ d # p2 = pre @ suf" and "\<not> ev_ok d" and "\<forall>e \<in> set suf. ev_ok e"
  obtains q where "p2 = q @ suf"
  using assms by (auto simp: append_eq_append_conv2 Cons_eq_append_conv)

text \<open>A demoted candidate comes back only with its gates held and new evidence.\<close>

lemma repromotion:
  assumes same: "\<forall>x \<in> set (es @ [e]). same_candidate epoch recipe x"
    and was: "h_ever_trusted (hyst_run t (new_hysteresis recipe epoch) es)"
    and "\<not> h_trusted (hyst_run t (new_hysteresis recipe epoch) es)"
    and now: "h_trusted (hyst_run t (new_hysteresis recipe epoch) (es @ [e]))"
  shows "\<exists>p1 d q suf. es = p1 @ d # q @ suf \<and> h_trusted (hyst_run t (new_hysteresis recipe epoch) p1) \<and>
     \<not> ev_ok d \<and> ev_now d < ev_now e \<and> (\<forall>x \<in> set (suf @ [e]). ev_ok x) \<and>
     repromotion_hours t * HOUR \<le> ev_now e - ev_now (hd (suf @ [e])) \<and>
     repromotion_windows t \<le> ev_bounds e - ev_bounds d"
proof -
  let ?init = "new_hysteresis recipe epoch"
  let ?h = "hyst_run t ?init es"
  have inv: "since_inv ?h es" "demotion_inv t ?init ?h es" using hyst_invs same by auto
  then obtain p1 d p2 where d: "es = p1 @ d # p2" "h_trusted (hyst_run t ?init p1)" "\<not> ev_ok d"
    "h_demoted_at_s ?h = Some (ev_now d)" "h_bounds_at_demotion ?h = ev_bounds d"
    using assms(2,3) by (auto simp: demotion_inv_def)
  have id: "h_epoch ?h = l_epoch (ev_ledger e)" "h_recipe ?h = l_recipe (ev_ledger e)"
    using same hyst_run_identity [of es epoch recipe t] by (auto simp: same_candidate_def)
  from id show ?thesis
  proof (cases rule: hyst_step_cases [where ok = "ev_ok e" and now = "ev_now e" and t = t])
    case (again x dd)
    show ?thesis
    proof (cases "h_gates_ok_since_s ?h")
      case None
      then show ?thesis using d again by (intro exI [of _ p1] exI [of _ d] exI [of _ p2] exI [of _ "[]"]) simp
    next
      case (Some v)
      then obtain pre suf where suf: "es = pre @ suf" "suf \<noteq> []" "\<forall>e \<in> set suf. ev_ok e" "ev_now (hd suf) = x"
        using inv(1) again(4) by (auto simp: since_inv_def)
      moreover obtain q where "p2 = q @ suf" using split_after_failure [of p1 d p2 pre suf] d suf by metis
      ultimately show ?thesis using d again
        by (intro exI [of _ p1] exI [of _ d] exI [of _ q] exI [of _ suf]) auto
    qed
  qed (use assms(2-4) in \<open>simp_all add: hyst_run_snoc\<close>)
qed

section \<open>Entry implies retention\<close>

lemma int_div_pos: "0 < a \<Longrightarrow> a \<le> 20000 \<Longrightarrow> Fin 0 < int_div a 10000 \<and> is_finite (int_div a 10000)"
proof -
  assume a: "0 < a" "a \<le> 20000"
  let ?x = "of_int a / 10000 :: rat"
  have x: "0 < ?x" "?x \<le> 2" "1 / 10000 \<le> ?x" using a by (simp_all add: divide_simps)
  have "2 powi (-14) = (1 / 16384 :: rat)" by (simp add: power_int_def power_divide)
  with rnd_representable [of 1 "-14"] have "rnd (1 / 16384) = 1 / 16384" by simp
  moreover have "rnd (1 / 16384) \<le> rnd ?x" using x by (intro rnd_mono) simp
  moreover have "rnd ?x \<le> rnd 2" using x by (intro rnd_mono) simp
  moreover have "rnd 2 = 2" using rnd_of_int [of 2] by simp
  ultimately have "0 < rnd ?x" "rnd ?x \<le> 2" by linarith+
  moreover have "(2::rat) < float_limit" by (simp add: float_limit_def)
  ultimately show ?thesis by (simp add: int_div_def round64_def Let_def)
qed

lemma float_mult_mono:
  assumes "x \<le> y" and "Fin 0 < x" and "is_finite y" and "\<not> b \<le> (0::pyfloat)" and "b \<noteq> NaN"
  shows "x * b \<le> y * b"
proof -
  obtain u v where "x = Fin u" "y = Fin v" using assms(1-3) by (cases x; cases y) auto
  then show ?thesis
    using assms
    by (cases b) (auto simp: zero_pyfloat_def inf_of_sign_def intro!: round64_mono mult_right_mono)
qed

lemma float_pos_mult:
  assumes "Fin 0 < x" and "is_finite x" and "\<not> b \<le> (0::pyfloat)" and "b \<noteq> NaN"
  shows "Fin 0 \<le> x * b"
proof -
  obtain u where "x = Fin u" using assms(2) by (auto simp: is_finite_iff)
  then show ?thesis
    using assms by (cases b) (auto simp: zero_pyfloat_def inf_of_sign_def intro: round64_nonneg)
qed

lemma fdiv_not_less:
  assumes "x \<le> y" and "d = PInf \<or> (\<exists>k \<ge> 0. d = Fin k)" and "\<not> fdiv x d < c" and "Fin 0 \<le> x"
  shows "\<not> fdiv y d < c"
proof -
  have mono: "fdiv x (Fin k) \<le> fdiv y (Fin k)" if "0 \<le> k" for k
  proof (cases x)
    case (Fin a)
    show ?thesis using that assms(1) Fin
      by (cases y) (auto intro!: round64_mono divide_right_mono, simp_all add: round64_def Let_def)
  qed (use that assms(1) in \<open>cases y; simp; simp add: round64_def Let_def\<close>)+
  show ?thesis
  proof (cases "d = PInf")
    case True
    then show ?thesis using assms by (cases x; cases y) auto
  next
    case False
    then obtain k where "0 \<le> k" "d = Fin k" using assms(2) by blast
    with mono assms(3) show ?thesis by (metis float_le_trans float_less_le)
  qed
qed

lemma float_of_int_nonneg: "0 \<le> n \<Longrightarrow> float_of_int n = PInf \<or> (\<exists>k \<ge> 0. float_of_int n = Fin k)"
  using round64_nonneg [of "of_int n"] by (cases "float_of_int n") (auto simp: float_of_int_def)

lemma promoted_retained:
  assumes t: "trust_ok t" and "challenger_promoted prs now t costs"
  shows "challenger_retained prs now t costs"
proof -
  obtain p c where pc: "prs = Some p" "costs = Some c"
    using assms(2) by (auto simp: challenger_promoted_def paired_ok_def split: option.splits)
  let ?ps = "pair_sums p now (7 * DAY)"
  let ?x = "int_div (challenger_loss_ratio_bps t) 10000" and ?y = "int_div (challenger_exit_loss_ratio_bps t) 10000"
  let ?n = "float_of_int (ps_n ?ps)"
  note pr = assms(2) [unfolded challenger_promoted_def paired_ok_def pc, simplified Let_def option.case prod.case]
  have bps: "1 \<le> challenger_loss_ratio_bps t" "challenger_loss_ratio_bps t \<le> challenger_exit_loss_ratio_bps t"
    "challenger_exit_loss_ratio_bps t \<le> 20000"
    using t by (simp_all add: trust_ok_def BPS_def)
  have "\<not> fdiv (?y * ps_base ?ps) ?n < fdiv (ps_chal ?ps) ?n"
  proof (cases "ps_base ?ps = NaN")
    case True
    have "?y * NaN = NaN" by (cases ?y) simp_all
    then show ?thesis using True by simp
  next
    case False
    have base: "\<not> ps_base ?ps \<le> 0" and n: "0 \<le> ps_n ?ps"
      and le: "\<not> fdiv (?x * ps_base ?ps) ?n < fdiv (ps_chal ?ps) ?n"
      using pr t by (auto simp: trust_ok_def)
    have x: "Fin 0 < ?x" "is_finite ?x" "is_finite ?y" "?x \<le> ?y"
      using bps int_div_pos [of "challenger_loss_ratio_bps t"] int_div_pos [of "challenger_exit_loss_ratio_bps t"]
      by (simp_all add: int_div_mono)
    show ?thesis
      by (rule fdiv_not_less [OF float_mult_mono [OF x(4,1,3) base False] float_of_int_nonneg [OF n] le
            float_pos_mult [OF x(1,2) base False]])
  qed
  with pr pc show ?thesis by (simp add: challenger_retained_def paired_ok_def Let_def)
qed

section \<open>Properties\<close>

definition demo_trust :: trust_settings where
  "demo_trust = \<lparr> min_shadow_hours = 1, min_prospective_windows = 1, coverage_tolerance_bps = 0,
     worst_day_min_outcomes = 24, min_availability_bps = 0, acute_consecutive_misses = 5,
     acute_recent_windows = 32, repromotion_hours = 1, repromotion_windows = 1, challenger_min_pairs = 1,
     challenger_min_hours = 1, challenger_loss_ratio_bps = 9500, challenger_exit_loss_ratio_bps = 10000,
     challenger_cost_ratio_bps = 10200, max_fit_age_hours = 12 \<rparr>"

definition demo_evidence :: "int \<Rightarrow> ledger" where
  "demo_evidence bounded = (new_ledger ''e'' NAIVE ''r'' 600)\<lparr>
     l_buckets := [(166, zero_bucket\<lparr> iss := 1, sc := 1, g_sc := 1, a_bd := 1, a_cv := 1, g_bd := 1, g_cv := 1 \<rparr>)],
     l_first_prospective_s := Some 590000, l_first_issue_s := Some 590000,
     l_totals := (l_totals (new_ledger ''e'' NAIVE ''r'' 600))\<lparr> t_prospective_gate_bounded := bounded \<rparr> \<rparr>"

definition demo_candidate :: candidate_inputs where
  "demo_candidate = \<lparr> ci_model = NAIVE, ci_ledger = demo_evidence 1, ci_bound_available = True,
     ci_calibration_windows = 128, ci_min_calibration_windows = 128, ci_history_seconds = DAY,
     ci_required_history_seconds = DAY, ci_data_fresh = True, ci_fit_age_seconds = None \<rparr>"

definition demo_global :: global_inputs where
  "demo_global = \<lparr> gl_now_s = 600000, gl_lead_seconds = 600, gl_nominal_miscoverage = Fin 0, gl_identity_ok = True,
     gl_store_healthy = True, gl_replay_suite_passed = True, gl_startup_budget_valid = True \<rparr>"

lemma demo_gates: "all_gates (gates_of demo_candidate demo_global demo_trust)"
proof -
  have "window_sums (demo_evidence 1) 600000 (7 * DAY) = add_bucket zero_bucket
      (zero_bucket\<lparr> iss := 1, sc := 1, g_sc := 1, a_bd := 1, a_cv := 1, g_bd := 1, g_cv := 1 \<rparr>)"
    by (simp add: window_sums_def demo_evidence_def in_hours_def hours_def cdiv_def HOUR_def DAY_def)
  moreover have "window_sums (demo_evidence 1) 600000 DAY = add_bucket zero_bucket
      (zero_bucket\<lparr> iss := 1, sc := 1, g_sc := 1, a_bd := 1, a_cv := 1, g_bd := 1, g_cv := 1 \<rparr>)"
    by (simp add: window_sums_def demo_evidence_def in_hours_def hours_def cdiv_def HOUR_def DAY_def)
  moreover have "expected_opportunities (demo_evidence 1) 600000 DAY = 17"
    by (simp add: expected_opportunities_def demo_evidence_def hours_def cdiv_def HOUR_def DAY_def new_ledger_def)
  moreover have "daily_gate_coverage (demo_evidence 1) 600000 (7 * DAY) = [(6, 1, 1)]"
    by (simp add: daily_gate_coverage_def demo_evidence_def in_hours_def hours_def cdiv_def HOUR_def DAY_def
        add_day_def zero_bucket_def)
  ultimately show ?thesis
    by (simp add: all_gates_def gates_of_def Let_def demo_candidate_def demo_global_def demo_trust_def
        coverage_threshold_def shadow_ok_def worst_day_ok_def acute_ok_def fresh_fit_def at_least_def availability_def
        ratio_def int_div_def py_float minus_pyfloat_def round64_nonneg add_bucket_def zero_bucket_def overdue_def)
      (simp add: demo_evidence_def new_ledger_def HOUR_def)
qed

definition demo_state :: trust_state where
  "demo_state = \<lparr> ts_hyst = [], ts_selection = None \<rparr>"

lemma demo_evaluate:
  "\<exists>v st. evaluate [demo_candidate] demo_state demo_global demo_trust None None = Inr (v, st) \<and>
     v_selected v = Some NAIVE \<and> v_prediction_ready v"
proof -
  have "cv_trusted (snd (judge [] demo_global demo_trust demo_candidate))"
    using demo_gates
    by (simp add: judge_def candidate_gates_def Let_def candidate_verdict_of_def hyst_step_def ci_recipe_def
        new_hysteresis_def demo_candidate_def)
  moreover have "ci_model demo_candidate = NAIVE" "l_model (ci_ledger demo_candidate) = NAIVE"
    by (simp_all add: demo_candidate_def demo_evidence_def new_ledger_def)
  ultimately show ?thesis
    by (simp add: evaluate_def Let_def by_model_def demo_state_def FALLBACK_ORDER_def NAIVE_def select_def
        new_selection_def note_entry_def kept_current_def eligible_target_def case_prod_beta selected_verdict_def
        demo_global_def)
qed

text \<open>C5: a selected forecaster is safe to act on: it is trusted in this evaluation and every one of its gates
  (identity, storage, data, history, calibration, prospective evidence, coverage, availability) holds now; a
  challenger is selected only while the daily naive is itself trusted with all its gates and the challenger passes
  the paired entry or exit test now.\<close>

theorem selected_candidate_is_safe:
  assumes "evaluate cands hyst g t prs costs = Inr (v, st)" and "v_selected v = Some m"
  shows "m \<in> set FALLBACK_ORDER \<and>
     (\<exists>w. dict_get (v_candidates v) m = Some w \<and> cv_trusted w \<and> all_gates (cv_gates w)) \<and>
     (m \<noteq> NAIVE \<longrightarrow>
        (\<exists>w. dict_get (v_candidates v) NAIVE = Some w \<and> cv_trusted w \<and> all_gates (cv_gates w)) \<and>
        (\<exists>ps cs. prs = Some ps \<and> costs = Some cs \<and>
           (challenger_promoted (dict_get ps m) (gl_now_s g) t (dict_get cs m) \<or>
            challenger_retained (dict_get ps m) (gl_now_s g) t (dict_get cs m))))"
proof -
  let ?vs = "judged_verdicts cands hyst g t"
  let ?ps = "case prs of None \<Rightarrow> [] | Some p \<Rightarrow> p" and ?cs = "case costs of None \<Rightarrow> [] | Some c \<Rightarrow> c"
  from assms(1) obtain prior where cand: "v_candidates v = ?vs"
    and "v_selected v = sel_selected (fst (select prior ?vs ?ps ?cs (gl_now_s g) t))"
    by (rule evaluate_Inr)
  with assms(2) have "sel_selected (fst (select prior ?vs ?ps ?cs (gl_now_s g) t)) = Some m" by simp
  from select_selectable [OF judged_verdicts_wf this] have sel: "selectable ?vs ?ps ?cs (gl_now_s g) t m" .
  have naive: "\<exists>w. dict_get ?vs NAIVE = Some w \<and> cv_trusted w" if "m \<noteq> NAIVE"
    using sel that by (auto simp: selectable_def naive_ok_def split: option.splits)
  have "prs \<noteq> None \<and> costs \<noteq> None" if "m \<noteq> NAIVE"
    using sel that
    by (auto simp: selectable_def challenger_promoted_def challenger_retained_def paired_ok_def split: option.splits)
  with naive sel judged_verdicts_trusted [of cands hyst g t] show ?thesis
    unfolding cand by (auto simp: selectable_def)
qed

theorem selected_candidate_is_safe_witness:
  "\<exists>v st. evaluate [demo_candidate] demo_state demo_global demo_trust None None = Inr (v, st) \<and>
     v_selected v = Some NAIVE \<and> (\<exists>w. dict_get (v_candidates v) NAIVE = Some w \<and> all_gates (cv_gates w))"
  using demo_evaluate selected_candidate_is_safe [of "[demo_candidate]" demo_state demo_global demo_trust None None]
  by blast

text \<open>Without replay costs no challenger can ever be selected; only the trusted naive or nothing.\<close>

theorem without_costs_only_naive:
  assumes "evaluate cands hyst g t prs None = Inr (v, st)"
  shows "v_selected v = None \<or> v_selected v = Some NAIVE"
proof -
  let ?vs = "judged_verdicts cands hyst g t"
  let ?ps = "case prs of None \<Rightarrow> [] | Some p \<Rightarrow> p"
  from assms obtain prior where "v_selected v = sel_selected (fst (select prior ?vs ?ps [] (gl_now_s g) t))"
    by (rule evaluate_Inr) simp
  moreover have "m = NAIVE" if "sel_selected (fst (select prior ?vs ?ps [] (gl_now_s g) t)) = Some m" for m
    using select_selectable [OF judged_verdicts_wf that]
    by (auto simp: selectable_def challenger_promoted_def challenger_retained_def paired_ok_def split: option.splits)
  ultimately show ?thesis by (metis not_None_eq)
qed

theorem without_costs_only_naive_witness:
  "\<exists>v st. evaluate [demo_candidate] demo_state demo_global demo_trust None None = Inr (v, st) \<and>
     v_selected v \<noteq> None \<and> v_selected v = Some NAIVE"
  using demo_evaluate without_costs_only_naive by fastforce

text \<open>\<open>PredictionReady\<close> is reported exactly when a forecaster is selected, the replay suite passed and the startup
  budget is valid; the reason is \<open>Ready\<close> exactly then.\<close>

theorem prediction_ready_iff:
  assumes "evaluate cands hyst g t prs costs = Inr (v, st)"
  shows "(v_prediction_ready v \<longleftrightarrow> v_selected v \<noteq> None \<and> gl_replay_suite_passed g \<and> gl_startup_budget_valid g) \<and>
     (v_prediction_ready v \<longrightarrow> v_reason v = Ready \<and> v_phase v = Trusted)"
proof -
  from assms obtain promoted where "v = (case v_selected v of
      None \<Rightarrow> unselected_verdict (judged_verdicts cands hyst g t) promoted
    | Some m \<Rightarrow> selected_verdict m g (judged_verdicts cands hyst g t) promoted)"
    by (rule evaluate_Inr)
  moreover have "\<not> v_prediction_ready (unselected_verdict vs pr)" for vs pr
    by (auto simp: unselected_verdict_def Let_def split: option.splits)
  ultimately show ?thesis
    by (cases "v_selected v") (simp, simp_all add: selected_verdict_def Let_def split: if_splits)
qed

theorem prediction_ready_iff_witness:
  "\<exists>v st. evaluate [demo_candidate] demo_state demo_global demo_trust None None = Inr (v, st) \<and> v_reason v = Ready"
  using demo_evaluate prediction_ready_iff by blast


definition demo_run :: "evaluation list" where
  "demo_run = [\<lparr> ev_ok = True, ev_ledger = demo_evidence 1, ev_now = 600000 \<rparr>,
     \<lparr> ev_ok = False, ev_ledger = demo_evidence 1, ev_now = 600600 \<rparr>,
     \<lparr> ev_ok = True, ev_ledger = demo_evidence 1, ev_now = 601200 \<rparr>]"


text \<open>The entry test of a challenger is inside its exit band under every accepted setting, so a challenger that
  enters is not dropped by the band at the same evaluation: marginal superiority cannot make the selection flap.\<close>

theorem entry_test_inside_exit_band:
  assumes "resolve_settings pa = Inr s" and "challenger_promoted prs now (trust s) costs"
  shows "challenger_retained prs now (trust s) costs"
  using promoted_retained resolve_settings_ok [OF assms(1)] assms(2) by (simp add: settings_ok_def)

definition demo_pairs :: pairs where
  "demo_pairs = (new_pairs ''e'' ''lstm'' ''r'' ''n'' NAIVE)\<lparr> pr_buckets :=
     [(100, \<lparr> pb_n = 32, pb_chal = 0, pb_base = 1, pb_first = 360000, pb_last = 362400 \<rparr>),
      (160, \<lparr> pb_n = 32, pb_chal = 0, pb_base = 0, pb_first = 576000, pb_last = 578400 \<rparr>)] \<rparr>"

theorem entry_test_inside_exit_band_witness:
  "challenger_retained (Some demo_pairs) 600000 (trust default_settings)
     (Some [(''shortage'', (0, 0)), (''replica_time'', (0, 0))])"
proof -
  let ?c = "[(''shortage'', (0, 0)), (''replica_time'', (0, 0))] :: costs"
  note resolve_settings_empty
  moreover have "pair_sums demo_pairs 600000 (7 * DAY) =
      \<lparr> ps_n = 64, ps_chal = Fin 0, ps_base = Fin 1, ps_first = Some 360000, ps_last = Some 578400 \<rparr>"
    by (simp add: pair_sums_def demo_pairs_def in_hours_def hours_def cdiv_def HOUR_def DAY_def opt_with_def py_float)
  moreover have "\<not> fdiv (int_div 9500 10000 * Fin 1) (float_of_int 64) < Fin 0"
  proof -
    obtain a where "int_div 9500 10000 = Fin a" "0 < a"
      using int_div_pos [of 9500] by (auto simp: is_finite_iff)
    moreover have "float_of_int 64 = Fin 64" using round64_of_int [of 64] by (simp add: float_of_int_def)
    moreover obtain b where "round64 a = b" "Fin 0 \<le> b" using round64_nonneg [of a] \<open>0 < a\<close> by simp
    ultimately show ?thesis by (cases b) (auto simp: float_less_le intro!: round64_nonneg)
  qed
  moreover have "cost_ok (trust default_settings) ?c ''shortage''" "cost_ok (trust default_settings) ?c ''replica_time''"
    using int_div_pos [of 10200] by (auto simp: cost_ok_def default_settings_def py_float is_finite_iff)
  ultimately show ?thesis
    using entry_test_inside_exit_band [of "JObj []" default_settings "Some demo_pairs" 600000 "Some ?c"]
    by (simp add: challenger_promoted_def paired_ok_def default_settings_def pair_span_def HOUR_def py_float
        float_of_int_def round64_of_int [of 64, simplified])
qed

text \<open>The clock of a challenger's entry criteria is not reset by an evaluation that the challenger is absent from.\<close>

theorem absent_challenger_keeps_entry_clock:
  assumes "dict_get vs m = None"
  shows "dict_get (sel_entry_since (fst (select sel vs prs costs now t))) (m, r) = dict_get (sel_entry_since sel) (m, r)"
  using assms unfolding select_entry_since by (intro fold_note_entry_other) (simp add: map_of_eq_None_iff)

theorem absent_challenger_keeps_entry_clock_witness:
  "dict_get (sel_entry_since (fst (select ((new_selection (Some ''e''))\<lparr> sel_entry_since := [((''lstm'', ''r''), 5)] \<rparr>)
     [] [] [] 99 demo_trust))) (''lstm'', ''r'') = Some 5"
  using absent_challenger_keeps_entry_clock [of "[]" "''lstm''"] by simp

end
