(* ===== verification/Store.thy ===== *)
theory Store
  imports Contracts_Window
begin

text \<open>
  \<^verbatim>\<open>forecasting/store.py\<close>: the forecast journal. The SQLite file is the record \<open>db\<close>, one field per table
  (rows in the order of their AUTOINCREMENT key, with the key counter), the open store is the file plus the latched
  problem and the limits. A row keeps the bytes the code writes and, beside them, the object they encode, which is
  what \<open>json.loads\<close> of canonical bytes gives back. Constraints and triggers are guards of the inserts, updates and
  deletes they protect. What a call reads from outside is its \<open>env\<close>: the clock, the size of the file and a fault of
  SQLite inside the transaction. The hash and the text of floats are the parameter \<open>codec\<close>.
\<close>

section \<open>Constants and errors\<close>

definition SCHEMA_VERSION :: int where "SCHEMA_VERSION = 1"
definition MAX_OUTCOME_BYTES :: int where "MAX_OUTCOME_BYTES = 4096"
definition MAX_CHECKPOINT_BYTES :: int where "MAX_CHECKPOINT_BYTES = 1048576"
definition CHECKPOINTS_KEPT :: nat where "CHECKPOINTS_KEPT = 3"
definition MAX_MODELS :: nat where "MAX_MODELS = 3"
definition OUTCOME_STATUSES :: "string list" where "OUTCOME_STATUSES = [''scored'', ''unscorable'']"

datatype store_error =
    StoreError string
  | IntegrityConflict
  | RetiredKey
  | StoreUnavailable string
  | StoreFull
  | StoreCorrupt string
  | BuildError string          \<comment> \<open>an exception of the \<open>build\<close> callback, passed through\<close>

fun unavailable_error :: "store_error \<Rightarrow> bool" where
  "unavailable_error (StoreUnavailable _) = True"
| "unavailable_error StoreFull = True"
| "unavailable_error (StoreCorrupt _) = True"
| "unavailable_error _ = False"

record codec =
  cd_sha :: "string \<Rightarrow> string"
  cd_fmt :: "rat \<Rightarrow> string"

section \<open>Keys and rows\<close>

record issuance_key =
  ik_evidence_key :: string
  ik_decision_origin :: int
  ik_window_start :: int
  ik_window_end :: int
  ik_settings_sha256 :: string

text \<open>\<open>__post_init__\<close>: the keys that can be constructed.\<close>

definition issuance_key_ok :: "issuance_key \<Rightarrow> bool" where
  "issuance_key_ok k \<longleftrightarrow>
     sha256_match (ik_evidence_key k) \<and> sha256_match (ik_settings_sha256 k) \<and>
     0 \<le> ik_decision_origin k \<and> 0 \<le> ik_window_start k \<and> 0 \<le> ik_window_end k \<and>
     ik_window_start k = ik_decision_origin k \<and> \<not> ik_window_end k \<le> ik_window_start k"

definition key_sha256 :: "codec \<Rightarrow> issuance_key \<Rightarrow> string" where
  "key_sha256 cd k = cd_sha cd (canonical_bytes (JObj
     [(''schema'', JStr ''issuance-key/v1''), (''evidence_key'', JStr (ik_evidence_key k)),
      (''decision_origin'', JInt (ik_decision_origin k)), (''window_start'', JInt (ik_window_start k)),
      (''window_end'', JInt (ik_window_end k)), (''settings_sha256'', JStr (ik_settings_sha256 k))]))"

record issuance =
  is_seq :: int
  is_id :: string
  is_key_sha256 :: string
  is_key :: issuance_key
  is_bundle :: string
  is_payload :: json
  is_bundle_sha256 :: string
  is_models :: "string list"
  is_committed_at_ms :: int

record outcome =
  oc_seq :: int
  oc_issuance_id :: string
  oc_evidence_key :: string
  oc_window_end :: int
  oc_model :: string
  oc_status :: string
  oc_bytes :: string
  oc_payload :: json
  oc_payload_sha256 :: string
  oc_committed_at_ms :: int

record observation =
  ob_series :: string
  ob_event_time :: int
  ob_value :: pyfloat
  ob_received_ms :: int
  ob_source_sha256 :: string

record checkpoint =
  cp_seq :: int
  cp_evidence_key :: string
  cp_last_outcome_seq :: int
  cp_schema_version :: int
  cp_bytes :: string
  cp_state :: json
  cp_payload_sha256 :: string
  cp_created_at_ms :: int

record retention_row =
  rt_through_window_end :: int
  rt_issued :: int
  rt_scored :: int
  rt_unscorable :: int
  rt_digest :: string

record db =
  d_store_id :: string
  d_schema_version :: int
  d_created_at_ms :: int
  d_horizon :: int
  d_obs_extra :: int
  d_issuances :: "issuance list"
  d_issuance_seq :: int
  d_outcomes :: "outcome list"
  d_outcome_seq :: int
  d_observations :: "observation list"
  d_corrections :: "observation list"
  d_checkpoints :: "checkpoint list"
  d_checkpoint_seq :: int
  d_retention :: "(string \<times> retention_row) list"

record store =
  st_db :: db
  st_problem :: "string option"
  st_quota_bytes :: int
  st_retention_seconds :: int
  st_max_bundle_bytes :: int

datatype io_fault = DiskFull | Malformed | OtherIo

record env =
  en_now_ms :: int
  en_usage :: int
  en_fault :: "io_fault option"

section \<open>Lifecycle, guard, transaction\<close>

definition healthy :: "store \<Rightarrow> bool" where
  "healthy s \<longleftrightarrow> st_problem s = None"

definition fail :: "string \<Rightarrow> store \<Rightarrow> store" where
  "fail why s = (if st_problem s = None then s\<lparr> st_problem := Some why \<rparr> else s)"

definition require_healthy :: "store \<Rightarrow> store_error + unit" where
  "require_healthy s = (if st_problem s \<noteq> None then Inl (StoreUnavailable ''earlier failure'') else Inr ())"

text \<open>A guarded call: its result and the file it leaves; an unavailability is latched.\<close>

type_synonym 'a db_result = "(store_error + 'a) \<times> db"

definition guard :: "string \<Rightarrow> store \<Rightarrow> 'a db_result \<Rightarrow> (store_error + 'a) \<times> store" where
  "guard what s rd =
     (let s1 = s\<lparr> st_db := snd rd \<rparr>
      in (fst rd, case fst rd of Inl e \<Rightarrow> if unavailable_error e then fail what s1 else s1 | Inr _ \<Rightarrow> s1))"

fun fault_error :: "io_fault \<Rightarrow> store_error" where
  "fault_error DiskFull = StoreFull"
| "fault_error Malformed = StoreCorrupt ''malformed''"
| "fault_error OtherIo = StoreUnavailable ''operational error''"

text \<open>\<open>_tx\<close>: all statements or none.\<close>

definition transact :: "env \<Rightarrow> db \<Rightarrow> store_error + db \<Rightarrow> unit db_result" where
  "transact en db r =
     (case en_fault en of
        Some f \<Rightarrow> (Inl (fault_error f), db)
      | None \<Rightarrow> (case r of Inl e \<Rightarrow> (Inl e, db) | Inr db' \<Rightarrow> (Inr (), db')))"

definition fresh_db :: "string \<Rightarrow> int \<Rightarrow> int \<Rightarrow> db" where
  "fresh_db store_id now obs_extra =
     \<lparr> d_store_id = store_id, d_schema_version = SCHEMA_VERSION, d_created_at_ms = now, d_horizon = 0,
       d_obs_extra = obs_extra, d_issuances = [], d_issuance_seq = 0, d_outcomes = [], d_outcome_seq = 0,
       d_observations = [], d_corrections = [], d_checkpoints = [], d_checkpoint_seq = 0, d_retention = [] \<rparr>"

text \<open>Opening: a new file is created with the given identity (or a random one), an existing file is checked. A fault is
  what SQLite reports while opening (a failed \<open>quick_check\<close> is \<open>Malformed\<close>).\<close>

definition open_store ::
  "env \<Rightarrow> db option \<Rightarrow> string option \<Rightarrow> string \<Rightarrow> int \<Rightarrow> int \<Rightarrow> int \<Rightarrow> int \<Rightarrow> store_error + store" where
  "open_store en file store_id random_id quota retention_s observation_retention_s max_bundle =
     (if observation_retention_s - retention_s < 0 then Inl (StoreError ''observation retention'')
      else case en_fault en of
        Some f \<Rightarrow> Inl (fault_error f)
      | None \<Rightarrow>
          let db = (case file of
                      None \<Rightarrow> fresh_db (case store_id of None \<Rightarrow> random_id | Some i \<Rightarrow> if i = [] then random_id else i)
                                (en_now_ms en) (observation_retention_s - retention_s)
                    | Some d \<Rightarrow> d)
          in if d_schema_version db \<noteq> SCHEMA_VERSION then Inl (StoreCorrupt ''schema'')
             else if store_id \<noteq> None \<and> store_id \<noteq> Some (d_store_id db) then Inl (StoreCorrupt ''store identity'')
             else Inr \<lparr> st_db = db, st_problem = None, st_quota_bytes = quota, st_retention_seconds = retention_s,
                        st_max_bundle_bytes = max_bundle \<rparr>)"

definition check_quota :: "store \<Rightarrow> env \<Rightarrow> int \<Rightarrow> store_error + unit" where
  "check_quota s en incoming = (if st_quota_bytes s < en_usage en + incoming then Inl StoreFull else Inr ())"

section \<open>Issuances\<close>

definition issuance_id_for :: "codec \<Rightarrow> string \<Rightarrow> issuance_key \<Rightarrow> string" where
  "issuance_id_for cd store_id k = ''iss-'' @ take 32 (cd_sha cd (store_id @ [CHR 0x00] @ key_sha256 cd k))"

definition model_char :: "char \<Rightarrow> bool" where
  "model_char c \<longleftrightarrow> CHR ''a'' \<le> c \<and> c \<le> CHR ''z'' \<or> CHR ''0'' \<le> c \<and> c \<le> CHR ''9'' \<or> c = CHR ''_''"

text \<open>The regular expression \<open>^[a-z0-9_]{1,32}$\<close>; \<open>$\<close> also matches before a final newline.\<close>

definition model_match :: "string \<Rightarrow> bool" where
  "model_match m \<longleftrightarrow>
     (let b = (if m \<noteq> [] \<and> last m = CHR 0x0A then butlast m else m)
      in 1 \<le> length b \<and> length b \<le> 32 \<and> list_all model_char b)"

definition check_models :: "string list \<Rightarrow> store_error + string list" where
  "check_models models =
     (let out = sort (remdups models)
      in if length out \<noteq> length models \<or> \<not> (1 \<le> length out \<and> length out \<le> MAX_MODELS) \<or> \<not> list_all model_match out
         then Inl (StoreError ''models'') else Inr out)"

definition row_to_issuance :: "codec \<Rightarrow> issuance \<Rightarrow> store_error + issuance" where
  "row_to_issuance cd r =
     (if cd_sha cd (is_bundle r) \<noteq> is_bundle_sha256 r then Inl (StoreCorrupt ''issuance checksum'')
      else case check_models (is_models r) of
             Inl _ \<Rightarrow> Inl (StoreCorrupt ''issuance models'')
           | Inr ms \<Rightarrow> if issuance_key_ok (is_key r) then Inr (r\<lparr> is_models := ms \<rparr>) else Inl (StoreError ''key''))"

definition get_issuance :: "codec \<Rightarrow> issuance_key \<Rightarrow> db \<Rightarrow> store_error + issuance option" where
  "get_issuance cd k db =
     (case List.find (\<lambda>r. is_key_sha256 r = key_sha256 cd k) (d_issuances db) of
        None \<Rightarrow> Inr None
      | Some r \<Rightarrow> bind_res (row_to_issuance cd r) (\<lambda>i. Inr (Some i)))"

definition get_issuance_by_id :: "codec \<Rightarrow> string \<Rightarrow> db \<Rightarrow> store_error + issuance option" where
  "get_issuance_by_id cd iid db =
     (case List.find (\<lambda>r. is_id r = iid) (d_issuances db) of
        None \<Rightarrow> Inr None
      | Some r \<Rightarrow> bind_res (row_to_issuance cd r) (\<lambda>i. Inr (Some i)))"

definition encode :: "codec \<Rightarrow> json \<Rightarrow> int \<Rightarrow> store_error + string" where
  "encode cd payload cap =
     (case payload of
        JObj _ \<Rightarrow> (case canonical_json (cd_fmt cd) payload of
                     None \<Rightarrow> Inl (StoreError ''not canonical JSON'')
                   | Some data \<Rightarrow> if cap < int (length data) then Inl (StoreError ''cap'') else Inr data)
      | _ \<Rightarrow> Inl (StoreError ''not an object''))"

definition same_issuance :: "issuance \<Rightarrow> string \<Rightarrow> string list \<Rightarrow> store_error + issuance" where
  "same_issuance existing bundle models =
     (if is_bundle existing \<noteq> bundle \<or> is_models existing \<noteq> models then Inl IntegrityConflict else Inr existing)"

definition refuse_retired :: "issuance_key \<Rightarrow> db \<Rightarrow> store_error + unit" where
  "refuse_retired k db = (if ik_window_end k < d_horizon db then Inl RetiredKey else Inr ())"

text \<open>The INSERT with its unique columns and the trigger \<open>issuances_not_retired\<close>.\<close>

definition insert_issuance :: "issuance \<Rightarrow> db \<Rightarrow> store_error + db" where
  "insert_issuance r db =
     (if ik_window_end (is_key r) < d_horizon db \<or>
         list_ex (\<lambda>x. is_id x = is_id r \<or> is_key_sha256 x = is_key_sha256 r) (d_issuances db)
      then Inl (StoreError ''refused by the journal'')
      else Inr (db\<lparr> d_issuances := d_issuances db @ [r\<lparr> is_seq := d_issuance_seq db + 1 \<rparr>],
                    d_issuance_seq := d_issuance_seq db + 1 \<rparr>))"

text \<open>A re-read after the commit; its error does not undo the commit.\<close>

definition then_read :: "unit db_result \<Rightarrow> (db \<Rightarrow> store_error + 'a) \<Rightarrow> 'a db_result" where
  "then_read rd f = (case fst rd of Inl e \<Rightarrow> (Inl e, snd rd) | Inr _ \<Rightarrow> (f (snd rd), snd rd))"

definition commit_issuance_body ::
  "codec \<Rightarrow> env \<Rightarrow> issuance_key \<Rightarrow> string \<Rightarrow> json \<Rightarrow> string list \<Rightarrow> store \<Rightarrow> (issuance option \<times> bool) db_result" where
  "commit_issuance_body cd en k bundle payload expected s =
     (let db = st_db s in
      case bind_res (require_healthy s) (\<lambda>_. get_issuance cd k db) of
        Inl e \<Rightarrow> (Inl e, db)
      | Inr (Some existing) \<Rightarrow> (map_sum id (\<lambda>i. (Some i, False)) (same_issuance existing bundle expected), db)
      | Inr None \<Rightarrow>
          (case bind_res (refuse_retired k db) (\<lambda>_. check_quota s en (int (length bundle))) of
             Inl e \<Rightarrow> (Inl e, db)
           | Inr _ \<Rightarrow>
               then_read
                 (transact en db (insert_issuance
                    \<lparr> is_seq = 0, is_id = issuance_id_for cd (d_store_id db) k, is_key_sha256 = key_sha256 cd k,
                      is_key = k, is_bundle = bundle, is_payload = payload, is_bundle_sha256 = cd_sha cd bundle,
                      is_models = expected, is_committed_at_ms = en_now_ms en \<rparr> db))
                 (\<lambda>db'. bind_res (get_issuance cd k db') (\<lambda>i. Inr (i, True)))))"

definition commit_issuance ::
  "codec \<Rightarrow> env \<Rightarrow> issuance_key \<Rightarrow> json \<Rightarrow> string list \<Rightarrow> store \<Rightarrow> (store_error + issuance option \<times> bool) \<times> store" where
  "commit_issuance cd en k payload models s =
     (case bind_res (encode cd payload (st_max_bundle_bytes s)) (\<lambda>b. bind_res (check_models models) (\<lambda>ms. Inr (b, ms))) of
        Inl e \<Rightarrow> (Inl e, s)
      | Inr (bundle, expected) \<Rightarrow>
          guard ''commit issuance'' s (commit_issuance_body cd en k bundle payload expected s))"

definition get_or_issue ::
  "codec \<Rightarrow> env \<Rightarrow> issuance_key \<Rightarrow> (string \<Rightarrow> store_error + json) \<Rightarrow> string list \<Rightarrow> store \<Rightarrow>
   (store_error + issuance option \<times> bool) \<times> store" where
  "get_or_issue cd en k build models s =
     (let db = st_db s;
          refused = (\<lambda>e. guard ''issue'' s (Inl e, db)) in
      case bind_res (require_healthy s) (\<lambda>_. get_issuance cd k db) of
        Inl e \<Rightarrow> refused e
      | Inr (Some existing) \<Rightarrow>
          (case check_models models of
             Inl e \<Rightarrow> refused e
           | Inr ms \<Rightarrow> if is_models existing \<noteq> ms then refused IntegrityConflict
                       else guard ''issue'' s (Inr (Some existing, False), db))
      | Inr None \<Rightarrow>
          (case bind_res (refuse_retired k db) (\<lambda>_. build (issuance_id_for cd (d_store_id db) k)) of
             Inl e \<Rightarrow> refused e
           | Inr payload \<Rightarrow> commit_issuance cd en k payload models s))"

definition has_outcome :: "db \<Rightarrow> string \<Rightarrow> string \<Rightarrow> bool" where
  "has_outcome db iid model = list_ex (\<lambda>z. oc_issuance_id z = iid \<and> oc_model z = model) (d_outcomes db)"

definition open_issuances :: "codec \<Rightarrow> string \<Rightarrow> string \<Rightarrow> int \<Rightarrow> db \<Rightarrow> store_error + issuance list" where
  "open_issuances cd ek model at_most db =
     bind_res (map_res (row_to_issuance cd)
       (sort_key (\<lambda>r. ik_window_end (is_key r))
         (filter (\<lambda>r. ik_evidence_key (is_key r) = ek \<and> ik_window_end (is_key r) \<le> at_most \<and>
                      \<not> has_outcome db (is_id r) model) (d_issuances db))))
       (\<lambda>rs. Inr (filter (\<lambda>i. model \<in> set (is_models i)) rs))"

definition issuances_after :: "codec \<Rightarrow> string \<Rightarrow> int \<Rightarrow> db \<Rightarrow> store_error + issuance list" where
  "issuances_after cd ek after db =
     map_res (row_to_issuance cd)
       (filter (\<lambda>r. ik_evidence_key (is_key r) = ek \<and> after < is_seq r) (d_issuances db))"

definition issuances :: "codec \<Rightarrow> string option \<Rightarrow> db \<Rightarrow> store_error + issuance list" where
  "issuances cd ek db =
     map_res (row_to_issuance cd)
       (case ek of None \<Rightarrow> d_issuances db
        | Some k \<Rightarrow> if k = [] then d_issuances db
                    else filter (\<lambda>r. ik_evidence_key (is_key r) = k) (d_issuances db))"

section \<open>Outcomes\<close>

definition row_to_outcome :: "codec \<Rightarrow> outcome \<Rightarrow> store_error + outcome" where
  "row_to_outcome cd r =
     (if cd_sha cd (oc_bytes r) \<noteq> oc_payload_sha256 r then Inl (StoreCorrupt ''outcome checksum'') else Inr r)"

definition find_outcome :: "string \<Rightarrow> string \<Rightarrow> db \<Rightarrow> outcome option" where
  "find_outcome iid model db = List.find (\<lambda>z. oc_issuance_id z = iid \<and> oc_model z = model) (d_outcomes db)"

text \<open>The INSERT with its foreign key, its status check and the unique pair.\<close>

definition insert_outcome :: "outcome \<Rightarrow> db \<Rightarrow> store_error + db" where
  "insert_outcome r db =
     (if \<not> list_ex (\<lambda>i. is_id i = oc_issuance_id r) (d_issuances db) \<or> oc_status r \<notin> set OUTCOME_STATUSES \<or>
         has_outcome db (oc_issuance_id r) (oc_model r)
      then Inl (StoreError ''refused by the journal'')
      else Inr (db\<lparr> d_outcomes := d_outcomes db @ [r\<lparr> oc_seq := d_outcome_seq db + 1 \<rparr>],
                    d_outcome_seq := d_outcome_seq db + 1 \<rparr>))"

definition commit_outcome_body ::
  "codec \<Rightarrow> env \<Rightarrow> string \<Rightarrow> string \<Rightarrow> string \<Rightarrow> string \<Rightarrow> json \<Rightarrow> store \<Rightarrow> (outcome \<times> bool) db_result" where
  "commit_outcome_body cd en iid model status data payload s =
     (let db = st_db s in
      case require_healthy s of
        Inl e \<Rightarrow> (Inl e, db)
      | Inr _ \<Rightarrow>
          (case find_outcome iid model db of
             Some row \<Rightarrow>
               (bind_res (row_to_outcome cd row) (\<lambda>z.
                  if (oc_status z, oc_bytes z) \<noteq> (status, data) then Inl IntegrityConflict else Inr (z, False)), db)
           | None \<Rightarrow>
               (case get_issuance_by_id cd iid db of
                  Inl e \<Rightarrow> (Inl e, db)
                | Inr None \<Rightarrow> (Inl (StoreError ''no issuance''), db)
                | Inr (Some iss) \<Rightarrow>
                    if model \<notin> set (is_models iss) then (Inl (StoreError ''unexpected model''), db)
                    else (case check_quota s en (int (length data)) of
                            Inl e \<Rightarrow> (Inl e, db)
                          | Inr _ \<Rightarrow>
                              if en_now_ms en < ik_window_end (is_key iss) * 1000
                              then (Inl (StoreError ''before the window end''), db)
                              else
                                then_read
                                  (transact en db (insert_outcome
                                     \<lparr> oc_seq = 0, oc_issuance_id = iid, oc_evidence_key = ik_evidence_key (is_key iss),
                                       oc_window_end = ik_window_end (is_key iss), oc_model = model, oc_status = status,
                                       oc_bytes = data, oc_payload = payload, oc_payload_sha256 = cd_sha cd data,
                                       oc_committed_at_ms = en_now_ms en \<rparr> db))
                                  (\<lambda>db'. case find_outcome iid model db' of
                                           None \<Rightarrow> Inl (StoreError ''no row'')
                                         | Some row \<Rightarrow> bind_res (row_to_outcome cd row) (\<lambda>z. Inr (z, True)))))))"

definition commit_outcome ::
  "codec \<Rightarrow> env \<Rightarrow> string \<Rightarrow> string \<Rightarrow> string \<Rightarrow> json \<Rightarrow> store \<Rightarrow> (store_error + outcome \<times> bool) \<times> store" where
  "commit_outcome cd en iid model status payload s =
     (if status \<notin> set OUTCOME_STATUSES then (Inl (StoreError ''status''), s)
      else if model = [] then (Inl (StoreError ''model''), s)
      else case encode cd payload MAX_OUTCOME_BYTES of
             Inl e \<Rightarrow> (Inl e, s)
           | Inr data \<Rightarrow> guard ''commit outcome'' s (commit_outcome_body cd en iid model status data payload s))"

definition outcomes_after :: "codec \<Rightarrow> string \<Rightarrow> int \<Rightarrow> db \<Rightarrow> store_error + outcome list" where
  "outcomes_after cd ek after db =
     map_res (row_to_outcome cd) (filter (\<lambda>z. oc_evidence_key z = ek \<and> after < oc_seq z) (d_outcomes db))"

section \<open>Observations\<close>

definition sample_ok :: "int \<times> pyfloat \<times> int \<Rightarrow> bool" where
  "sample_ok x = (case x of (ts, v, received) \<Rightarrow> 0 \<le> v \<and> v \<noteq> PInf \<and> 0 \<le> received)"

definition find_observation :: "string \<Rightarrow> int \<Rightarrow> db \<Rightarrow> observation option" where
  "find_observation series ts db =
     List.find (\<lambda>z. ob_series z = series \<and> ob_event_time z = ts) (d_observations db)"

record receipt_counts =
  rc_new :: int
  rc_duplicate :: int
  rc_corrected :: int

definition record_sample ::
  "string \<Rightarrow> string \<Rightarrow> int \<times> pyfloat \<times> int \<Rightarrow> db \<times> receipt_counts \<Rightarrow> db \<times> receipt_counts" where
  "record_sample series source x dc =
     (let (ts, v, received) = x; (db, c) = dc;
          row = \<lparr> ob_series = series, ob_event_time = ts, ob_value = v, ob_received_ms = received,
                  ob_source_sha256 = source \<rparr>
      in case find_observation series ts db of
           None \<Rightarrow> (db\<lparr> d_observations := d_observations db @ [row] \<rparr>, c\<lparr> rc_new := rc_new c + 1 \<rparr>)
         | Some have \<Rightarrow>
             if float_eq (ob_value have) v then (db, c\<lparr> rc_duplicate := rc_duplicate c + 1 \<rparr>)
             else (db\<lparr> d_corrections := d_corrections db @ [row] \<rparr>, c\<lparr> rc_corrected := rc_corrected c + 1 \<rparr>))"

definition record_observations ::
  "env \<Rightarrow> string \<Rightarrow> (int \<times> pyfloat \<times> int) list \<Rightarrow> string \<Rightarrow> store \<Rightarrow> (store_error + receipt_counts) \<times> store" where
  "record_observations en series samples source s =
     (if \<not> sha256_match source then (Inl (StoreError ''source''), s)
      else if \<not> list_all sample_ok samples then (Inl (StoreError ''invalid observation''), s)
      else guard ''record observations'' s
        (let db = st_db s;
             (db', counts) = fold (record_sample series source) samples
                               (db, \<lparr> rc_new = 0, rc_duplicate = 0, rc_corrected = 0 \<rparr>)
         in case bind_res (require_healthy s) (\<lambda>_. check_quota s en (64 * int (length samples))) of
              Inl e \<Rightarrow> (Inl e, db)
            | Inr _ \<Rightarrow> then_read (transact en db (Inr db')) (\<lambda>_. Inr counts)))"

definition observations :: "string \<Rightarrow> int \<Rightarrow> int \<Rightarrow> db \<Rightarrow> (int \<times> pyfloat \<times> int) list" where
  "observations series lo hi db =
     sort_key fst (map (\<lambda>z. (ob_event_time z, ob_value z, ob_received_ms z))
       (filter (\<lambda>z. ob_series z = series \<and> lo \<le> ob_event_time z \<and> ob_event_time z \<le> hi) (d_observations db)))"

definition corrections :: "string \<Rightarrow> db \<Rightarrow> (int \<times> pyfloat \<times> int) list" where
  "corrections series db =
     map (\<lambda>z. (ob_event_time z, ob_value z, ob_received_ms z))
       (filter (\<lambda>z. ob_series z = series) (d_corrections db))"

section \<open>Checkpoints and recovery\<close>

definition epoch_checkpoints :: "string \<Rightarrow> checkpoint list \<Rightarrow> checkpoint list" where
  "epoch_checkpoints ek cps = filter (\<lambda>c. cp_evidence_key c = ek) cps"

definition latest_checkpoint :: "codec \<Rightarrow> string \<Rightarrow> db \<Rightarrow> store_error + checkpoint option" where
  "latest_checkpoint cd ek db =
     (case rev (epoch_checkpoints ek (d_checkpoints db)) of
        [] \<Rightarrow> Inr None
      | c # _ \<Rightarrow> if cp_schema_version c \<noteq> SCHEMA_VERSION \<or> cd_sha cd (cp_bytes c) \<noteq> cp_payload_sha256 c
                 then Inl (StoreCorrupt ''checkpoint'') else Inr (Some c))"

text \<open>The INSERT of a checkpoint and the DELETE of the epoch's checkpoints beyond the newest three.\<close>

definition add_checkpoint :: "checkpoint \<Rightarrow> db \<Rightarrow> db" where
  "add_checkpoint c db =
     (let ek = cp_evidence_key c;
          cps = d_checkpoints db @ [c\<lparr> cp_seq := d_checkpoint_seq db + 1 \<rparr>];
          newest = map cp_seq (last_n CHECKPOINTS_KEPT (epoch_checkpoints ek cps))
      in db\<lparr> d_checkpoints := filter (\<lambda>x. cp_evidence_key x \<noteq> ek \<or> cp_seq x \<in> set newest) cps,
             d_checkpoint_seq := d_checkpoint_seq db + 1 \<rparr>)"

definition write_checkpoint_body ::
  "codec \<Rightarrow> env \<Rightarrow> string \<Rightarrow> json \<Rightarrow> string \<Rightarrow> int \<Rightarrow> store \<Rightarrow> checkpoint option db_result" where
  "write_checkpoint_body cd en ek state data last_seq s =
     (let db = st_db s;
          row = \<lparr> cp_seq = 0, cp_evidence_key = ek, cp_last_outcome_seq = last_seq, cp_schema_version = SCHEMA_VERSION,
                  cp_bytes = data, cp_state = state, cp_payload_sha256 = cd_sha cd data,
                  cp_created_at_ms = en_now_ms en \<rparr>;
          write = (case check_quota s en (int (length data)) of
                     Inl e \<Rightarrow> (Inl e, db)
                   | Inr _ \<Rightarrow> then_read (transact en db (Inr (add_checkpoint row db))) (latest_checkpoint cd ek))
      in case bind_res (require_healthy s) (\<lambda>_. latest_checkpoint cd ek db) of
           Inl e \<Rightarrow> (Inl e, db)
         | Inr None \<Rightarrow> write
         | Inr (Some latest) \<Rightarrow>
             if last_seq < cp_last_outcome_seq latest then (Inl (StoreError ''checkpoint goes back''), db)
             else if (cp_last_outcome_seq latest, cp_payload_sha256 latest) = (last_seq, cd_sha cd data)
             then (Inr (Some latest), db)
             else write)"

definition write_checkpoint ::
  "codec \<Rightarrow> env \<Rightarrow> string \<Rightarrow> json \<Rightarrow> int \<Rightarrow> store \<Rightarrow> (store_error + checkpoint option) \<times> store" where
  "write_checkpoint cd en ek state last_seq s =
     (case encode cd state MAX_CHECKPOINT_BYTES of
        Inl e \<Rightarrow> (Inl e, s)
      | Inr data \<Rightarrow> guard ''write checkpoint'' s (write_checkpoint_body cd en ek state data last_seq s))"

definition recover ::
  "codec \<Rightarrow> string \<Rightarrow> (json \<Rightarrow> outcome \<Rightarrow> json) \<Rightarrow> json \<Rightarrow> db \<Rightarrow> store_error + json \<times> int \<times> int" where
  "recover cd ek fold_outcome initial db =
     bind_res (latest_checkpoint cd ek db) (\<lambda>cp.
       let (state, last_seq) = (case cp of None \<Rightarrow> (initial, 0) | Some c \<Rightarrow> (cp_state c, cp_last_outcome_seq c))
       in bind_res (outcomes_after cd ek last_seq db) (\<lambda>os.
            Inr (foldl (\<lambda>(st, l, n) z. (fold_outcome st z, oc_seq z, n + 1)) (state, last_seq, 0) os)))"

section \<open>Retention\<close>

record compaction =
  cm_issuances :: int
  cm_outcomes :: int
  cm_observations :: int
  cm_kept :: int

definition outcomes_of :: "db \<Rightarrow> string \<Rightarrow> outcome list" where
  "outcomes_of db iid = filter (\<lambda>z. oc_issuance_id z = iid) (d_outcomes db)"

text \<open>The last outcome covered by the latest checkpoint of each epoch that has old issuances.\<close>

definition coverage_of :: "codec \<Rightarrow> int \<Rightarrow> db \<Rightarrow> store_error + (string \<times> int) list" where
  "coverage_of cd horizon db =
     map_res (\<lambda>ek. bind_res (latest_checkpoint cd ek db) (\<lambda>cp.
                Inr (ek, case cp of None \<Rightarrow> 0 | Some c \<Rightarrow> cp_last_outcome_seq c)))
       (remdups (map (\<lambda>r. ik_evidence_key (is_key r))
          (filter (\<lambda>r. ik_window_end (is_key r) < horizon) (d_issuances db))))"

definition coverable :: "(string \<times> int) list \<Rightarrow> db \<Rightarrow> issuance \<Rightarrow> bool" where
  "coverable cov db i \<longleftrightarrow>
     set (map oc_model (outcomes_of db (is_id i))) = set (is_models i) \<and>
     list_all (\<lambda>z. \<not> (case dict_get cov (ik_evidence_key (is_key i)) of None \<Rightarrow> 0 | Some l \<Rightarrow> l) < oc_seq z)
       (outcomes_of db (is_id i))"

definition count_status :: "string \<Rightarrow> outcome list \<Rightarrow> int" where
  "count_status st os = int (length (filter (\<lambda>z. oc_status z = st) os))"

text \<open>The digest chain and counts of one epoch.\<close>

definition chain_digest :: "codec \<Rightarrow> string \<Rightarrow> issuance \<Rightarrow> outcome list \<Rightarrow> string" where
  "chain_digest cd digest i os =
     cd_sha cd (canonical_bytes (JList [JStr digest, JStr (is_id i), JStr (is_bundle_sha256 i),
       JList (map JStr (is_models i)), JList (map (\<lambda>z. JStr (oc_payload_sha256 z)) os)]))"

definition retire :: "codec \<Rightarrow> int \<Rightarrow> db \<Rightarrow> issuance \<Rightarrow> (string \<times> retention_row) list \<Rightarrow> (string \<times> retention_row) list" where
  "retire cd horizon db i rets =
     (let ek = ik_evidence_key (is_key i); os = outcomes_of db (is_id i);
          r = (case dict_get rets ek of
                 None \<Rightarrow> \<lparr> rt_through_window_end = horizon, rt_issued = 0, rt_scored = 0, rt_unscorable = 0,
                           rt_digest = replicate 64 CHR ''0'' \<rparr>
               | Some r \<Rightarrow> r)
      in dict_set ek \<lparr> rt_through_window_end = horizon, rt_issued = rt_issued r + 1,
           rt_scored = rt_scored r + count_status ''scored'' os,
           rt_unscorable = rt_unscorable r + count_status ''unscorable'' os,
           rt_digest = chain_digest cd (rt_digest r) i os \<rparr> rets)"

text \<open>The transaction of a compaction. The delete triggers refuse a row at or above the (raised) horizon.\<close>

definition compact_tx :: "codec \<Rightarrow> int \<Rightarrow> (string \<times> int) list \<Rightarrow> db \<Rightarrow> store_error + db \<times> compaction" where
  "compact_tx cd horizon cov db =
     bind_res (map_res (row_to_issuance cd) (filter (\<lambda>r. ik_window_end (is_key r) < horizon) (d_issuances db)))
       (\<lambda>gone.
          let going = filter (coverable cov db) gone;
              ids = map is_id going;
              dead = filter (\<lambda>z. oc_issuance_id z \<in> set ids) (d_outcomes db);
              old_obs = filter (\<lambda>z. ob_event_time z < horizon - d_obs_extra db) (d_observations db)
          in if horizon < d_horizon db \<or> list_ex (\<lambda>z. horizon \<le> oc_window_end z) dead
             then Inl (StoreError ''refused by the journal'')
             else Inr (db\<lparr> d_horizon := horizon,
                           d_issuances := filter (\<lambda>r. is_id r \<notin> set ids) (d_issuances db),
                           d_outcomes := filter (\<lambda>z. oc_issuance_id z \<notin> set ids) (d_outcomes db),
                           d_observations := filter (\<lambda>z. \<not> ob_event_time z < horizon - d_obs_extra db) (d_observations db),
                           d_retention := fold (retire cd horizon db) going (d_retention db) \<rparr>,
                       \<lparr> cm_issuances = int (length going), cm_outcomes = int (length dead),
                         cm_observations = int (length old_obs),
                         cm_kept = int (length gone) - int (length going) \<rparr>))"

definition compact :: "codec \<Rightarrow> env \<Rightarrow> int \<Rightarrow> store \<Rightarrow> (store_error + compaction) \<times> store" where
  "compact cd en now_s s =
     (let horizon = now_s - st_retention_seconds s; db = st_db s in
      guard ''compact'' s
        (case require_healthy s of
           Inl e \<Rightarrow> (Inl e, db)
         | Inr _ \<Rightarrow>
             if horizon \<le> d_horizon db
             then (Inr \<lparr> cm_issuances = 0, cm_outcomes = 0, cm_observations = 0, cm_kept = 0 \<rparr>, db)
             else (case bind_res (coverage_of cd horizon db) (\<lambda>cov. compact_tx cd horizon cov db) of
                     Inl e \<Rightarrow> (Inl e, db)
                   | Inr (db', counts) \<Rightarrow> then_read (transact en db (Inr db')) (\<lambda>_. Inr counts))))"

definition retention_summary :: "string \<Rightarrow> db \<Rightarrow> retention_row option" where
  "retention_summary ek db = dict_get (d_retention db) ek"

section \<open>Verification and export\<close>

text \<open>\<open>intact\<close> is SQLite's own \<open>integrity_check\<close>.\<close>

definition verify :: "codec \<Rightarrow> bool \<Rightarrow> db \<Rightarrow> store_error + unit" where
  "verify cd intact db =
     (if \<not> intact then Inl (StoreCorrupt ''integrity_check'')
      else bind_res (issuances cd None db) (\<lambda>_.
           bind_res (map_res (\<lambda>ek. outcomes_after cd ek 0 db) (remdups (map oc_evidence_key (d_outcomes db)))) (\<lambda>_.
           bind_res (map_res (\<lambda>ek. latest_checkpoint cd ek db) (remdups (map cp_evidence_key (d_checkpoints db)))) (\<lambda>_.
           Inr ()))))"

definition row_bytes :: "codec \<Rightarrow> json list \<Rightarrow> string" where
  "row_bytes cd row = (case canonical_json (cd_fmt cd) (JList row) of None \<Rightarrow> [] | Some b \<Rightarrow> b)"

definition models_text :: "string list \<Rightarrow> json" where
  "models_text ms = JStr (canonical_bytes (JList (map JStr ms)))"

definition observation_bytes :: "codec \<Rightarrow> observation \<Rightarrow> string" where
  "observation_bytes cd z = row_bytes cd [JStr (ob_series z), JInt (ob_event_time z), JFloat (ob_value z),
     JInt (ob_received_ms z), JStr (ob_source_sha256 z)]"

definition journal_digest :: "codec \<Rightarrow> db \<Rightarrow> string" where
  "journal_digest cd db = cd_sha cd (
     ''issuances'' @ concat (map (\<lambda>r. row_bytes cd [JStr (is_id r), JStr (is_key_sha256 r), JStr (is_bundle_sha256 r),
        models_text (is_models r), JInt (is_committed_at_ms r)]) (d_issuances db)) @
     ''outcomes'' @ concat (map (\<lambda>z. row_bytes cd [JStr (oc_issuance_id z), JStr (oc_model z), JStr (oc_status z),
        JStr (oc_payload_sha256 z), JInt (oc_committed_at_ms z)]) (d_outcomes db)) @
     ''checkpoints'' @ concat (map (\<lambda>c. row_bytes cd [JStr (cp_evidence_key c), JInt (cp_last_outcome_seq c),
        JStr (cp_payload_sha256 c), JInt (cp_created_at_ms c)]) (d_checkpoints db)) @
     ''observation_corrections'' @ concat (map (observation_bytes cd) (d_corrections db)) @
     ''observations'' @ concat (map (observation_bytes cd)
        (sort_key ob_series (sort_key ob_event_time (d_observations db)))) @
     ''retention'' @ concat (map (\<lambda>(ek, r). row_bytes cd [JStr ek, JInt (rt_through_window_end r), JInt (rt_issued r),
        JInt (rt_scored r), JInt (rt_unscorable r), JStr (rt_digest r)]) (sort_key fst (d_retention db))))"

record manifest =
  mf_store_id :: string
  mf_schema_version :: int
  mf_counts :: "(string \<times> nat) list"
  mf_journal_sha256 :: string

definition export_manifest :: "codec \<Rightarrow> db \<Rightarrow> manifest" where
  "export_manifest cd db =
     \<lparr> mf_store_id = d_store_id db, mf_schema_version = SCHEMA_VERSION,
       mf_counts = [(''issuances'', length (d_issuances db)), (''outcomes'', length (d_outcomes db)),
         (''observations'', length (d_observations db)), (''observation_corrections'', length (d_corrections db)),
         (''checkpoints'', length (d_checkpoints db))],
       mf_journal_sha256 = journal_digest cd db \<rparr>"

end
