(* ===== verification/Journal.thy ===== *)
theory Journal
  imports Store Maturation
begin

text \<open>
  What the journal of \<open>Store\<close> guarantees. \<open>db_step\<close> is the abstract transition system of the file: which rows may
  appear and which may go. Every operation of the code refines it (\<open>exec_db_step\<close>), so what holds for its runs holds
  for any interleaving of calls, faults and restarts.
\<close>

section \<open>Well-formed files\<close>

definition issuance_wf :: "codec \<Rightarrow> db \<Rightarrow> issuance \<Rightarrow> bool" where
  "issuance_wf cd db r \<longleftrightarrow>
     issuance_key_ok (is_key r) \<and> is_key_sha256 r = key_sha256 cd (is_key r) \<and>
     is_id r = issuance_id_for cd (d_store_id db) (is_key r) \<and> cd_sha cd (is_bundle r) = is_bundle_sha256 r \<and>
     check_models (is_models r) = Inr (is_models r)"

definition outcome_wf :: "codec \<Rightarrow> db \<Rightarrow> outcome \<Rightarrow> bool" where
  "outcome_wf cd db z \<longleftrightarrow>
     cd_sha cd (oc_bytes z) = oc_payload_sha256 z \<and> oc_status z \<in> set OUTCOME_STATUSES \<and>
     oc_window_end z * 1000 \<le> oc_committed_at_ms z \<and>
     (\<exists>r \<in> set (d_issuances db). is_id r = oc_issuance_id z \<and> ik_evidence_key (is_key r) = oc_evidence_key z \<and>
        ik_window_end (is_key r) = oc_window_end z \<and> oc_model z \<in> set (is_models r))"

definition checkpoint_wf :: "codec \<Rightarrow> checkpoint \<Rightarrow> bool" where
  "checkpoint_wf cd c \<longleftrightarrow> cp_schema_version c = SCHEMA_VERSION \<and> cd_sha cd (cp_bytes c) = cp_payload_sha256 c"

definition seqs_ok :: "int list \<Rightarrow> int \<Rightarrow> bool" where
  "seqs_ok xs m \<longleftrightarrow> sorted_wrt (<) xs \<and> (\<forall>x \<in> set xs. 0 < x \<and> x \<le> m) \<and> 0 \<le> m"

definition issuances_wf :: "codec \<Rightarrow> db \<Rightarrow> bool" where
  "issuances_wf cd db \<longleftrightarrow>
     seqs_ok (map is_seq (d_issuances db)) (d_issuance_seq db) \<and> distinct (map is_id (d_issuances db)) \<and>
     distinct (map is_key_sha256 (d_issuances db)) \<and> (\<forall>r \<in> set (d_issuances db). issuance_wf cd db r)"

definition outcomes_wf :: "codec \<Rightarrow> db \<Rightarrow> bool" where
  "outcomes_wf cd db \<longleftrightarrow>
     seqs_ok (map oc_seq (d_outcomes db)) (d_outcome_seq db) \<and>
     distinct (map (\<lambda>z. (oc_issuance_id z, oc_model z)) (d_outcomes db)) \<and>
     (\<forall>z \<in> set (d_outcomes db). outcome_wf cd db z)"

definition checkpoints_wf :: "codec \<Rightarrow> db \<Rightarrow> bool" where
  "checkpoints_wf cd db \<longleftrightarrow>
     seqs_ok (map cp_seq (d_checkpoints db)) (d_checkpoint_seq db) \<and>
     (\<forall>c \<in> set (d_checkpoints db). checkpoint_wf cd c) \<and>
     (\<forall>ek. sorted (map cp_last_outcome_seq (epoch_checkpoints ek (d_checkpoints db))) \<and>
           length (epoch_checkpoints ek (d_checkpoints db)) \<le> CHECKPOINTS_KEPT)"

definition observations_wf :: "db \<Rightarrow> bool" where
  "observations_wf db \<longleftrightarrow>
     distinct (map (\<lambda>z. (ob_series z, ob_event_time z)) (d_observations db)) \<and>
     (\<forall>z \<in> set (d_observations db). sample_ok (ob_event_time z, ob_value z, ob_received_ms z))"

definition db_wf :: "codec \<Rightarrow> db \<Rightarrow> bool" where
  "db_wf cd db \<longleftrightarrow> d_schema_version db = SCHEMA_VERSION \<and> issuances_wf cd db \<and> outcomes_wf cd db \<and>
     checkpoints_wf cd db \<and> observations_wf db"

lemma fresh_db_wf: "db_wf cd (fresh_db sid now extra)"
  by (simp add: db_wf_def fresh_db_def issuances_wf_def outcomes_wf_def checkpoints_wf_def observations_wf_def
      seqs_ok_def epoch_checkpoints_def)

section \<open>Reads of a well-formed file\<close>

lemma find_distinct:
  assumes "distinct (map f xs)" and "x \<in> set xs"
  shows "List.find (\<lambda>y. f y = f x) xs = Some x"
  using assms by (induction xs) (auto simp: rev_image_eqI)

lemma find_append: "List.find P (xs @ ys) = (case List.find P xs of None \<Rightarrow> List.find P ys | Some x \<Rightarrow> Some x)"
  by (induction xs) auto

lemma check_models_idem: "check_models ms = Inr out \<Longrightarrow> check_models out = Inr out"
  by (auto simp: check_models_def Let_def sorted_sort_id distinct_remdups_id)

lemma row_to_issuance_wf: "issuance_wf cd db r \<Longrightarrow> row_to_issuance cd r = Inr r"
  by (simp add: row_to_issuance_def issuance_wf_def)

lemma map_res_id: "(\<And>x. x \<in> set xs \<Longrightarrow> f x = Inr x) \<Longrightarrow> map_res f xs = Inr xs"
  by (induction xs) auto

lemma get_issuance_wf:
  assumes "issuances_wf cd db"
  shows "get_issuance cd k db = Inr (List.find (\<lambda>r. is_key_sha256 r = key_sha256 cd k) (d_issuances db))"
proof (cases "List.find (\<lambda>r. is_key_sha256 r = key_sha256 cd k) (d_issuances db)")
  case (Some r)
  then have "r \<in> set (d_issuances db)" by (auto simp: find_Some_iff)
  then have "row_to_issuance cd r = Inr r" using assms by (auto simp: issuances_wf_def intro: row_to_issuance_wf)
  with Some show ?thesis by (simp add: get_issuance_def)
qed (simp add: get_issuance_def)

lemma get_issuance_by_id_wf:
  assumes "issuances_wf cd db"
  shows "get_issuance_by_id cd iid db = Inr (List.find (\<lambda>r. is_id r = iid) (d_issuances db))"
proof (cases "List.find (\<lambda>r. is_id r = iid) (d_issuances db)")
  case (Some r)
  then have "r \<in> set (d_issuances db)" by (auto simp: find_Some_iff)
  then have "row_to_issuance cd r = Inr r" using assms by (auto simp: issuances_wf_def intro: row_to_issuance_wf)
  with Some show ?thesis by (simp add: get_issuance_by_id_def)
qed (simp add: get_issuance_by_id_def)

lemma row_to_outcome_wf: "outcome_wf cd db z \<Longrightarrow> row_to_outcome cd z = Inr z"
  by (simp add: row_to_outcome_def outcome_wf_def)

lemma outcomes_after_wf:
  assumes "outcomes_wf cd db"
  shows "outcomes_after cd ek after db =
     Inr (filter (\<lambda>z. oc_evidence_key z = ek \<and> after < oc_seq z) (d_outcomes db))"
  using assms unfolding outcomes_after_def
  by (intro map_res_id) (auto simp: outcomes_wf_def intro: row_to_outcome_wf)

definition newest_checkpoint :: "string \<Rightarrow> db \<Rightarrow> checkpoint option" where
  "newest_checkpoint ek db =
     (case rev (epoch_checkpoints ek (d_checkpoints db)) of [] \<Rightarrow> None | c # _ \<Rightarrow> Some c)"

lemma newest_checkpoint_in:
  "newest_checkpoint ek db = Some c \<Longrightarrow> c \<in> set (d_checkpoints db) \<and> cp_evidence_key c = ek"
proof -
  assume "newest_checkpoint ek db = Some c"
  then obtain cs where "rev (epoch_checkpoints ek (d_checkpoints db)) = c # cs"
    by (auto simp: newest_checkpoint_def split: list.splits)
  then have "c \<in> set (rev (epoch_checkpoints ek (d_checkpoints db)))" by (simp only: list.set_intros)
  then show ?thesis by (simp add: epoch_checkpoints_def)
qed

lemma latest_checkpoint_wf: "checkpoints_wf cd db \<Longrightarrow> latest_checkpoint cd ek db = Inr (newest_checkpoint ek db)"
  using newest_checkpoint_in [of ek db]
  by (auto simp: latest_checkpoint_def newest_checkpoint_def checkpoints_wf_def checkpoint_wf_def
      split: list.splits)

definition covered_seq :: "string \<Rightarrow> db \<Rightarrow> int" where
  "covered_seq ek db = (case newest_checkpoint ek db of None \<Rightarrow> 0 | Some c \<Rightarrow> cp_last_outcome_seq c)"

lemma coverage_of_wf:
  assumes "checkpoints_wf cd db"
  shows "coverage_of cd horizon db = Inr (map (\<lambda>ek. (ek, covered_seq ek db))
     (remdups (map (\<lambda>r. ik_evidence_key (is_key r)) (filter (\<lambda>r. ik_window_end (is_key r) < horizon) (d_issuances db)))))"
  unfolding coverage_of_def by (rule map_res_all_Inr) (simp add: latest_checkpoint_wf [OF assms] covered_seq_def)

section \<open>The abstract transitions\<close>

text \<open>An issuance may go only with all its outcomes, all of them covered by the epoch's newest checkpoint.\<close>

definition retirable :: "db \<Rightarrow> int \<Rightarrow> issuance \<Rightarrow> bool" where
  "retirable db horizon r \<longleftrightarrow>
     ik_window_end (is_key r) < horizon \<and> set (map oc_model (outcomes_of db (is_id r))) = set (is_models r) \<and>
     (\<forall>z \<in> set (outcomes_of db (is_id r)). oc_seq z \<le> covered_seq (ik_evidence_key (is_key r)) db)"

inductive db_step :: "codec \<Rightarrow> db \<Rightarrow> db \<Rightarrow> bool" for cd where
  issue: "db_step cd db (db\<lparr> d_issuances := d_issuances db @ [r], d_issuance_seq := d_issuance_seq db + 1 \<rparr>)"
  if "issuance_wf cd db r" and "is_seq r = d_issuance_seq db + 1" and "d_horizon db \<le> ik_window_end (is_key r)"
    and "is_id r \<notin> is_id ` set (d_issuances db)" and "is_key_sha256 r \<notin> is_key_sha256 ` set (d_issuances db)"
| mature: "db_step cd db (db\<lparr> d_outcomes := d_outcomes db @ [z], d_outcome_seq := d_outcome_seq db + 1 \<rparr>)"
  if "outcome_wf cd db z" and "oc_seq z = d_outcome_seq db + 1"
    and "(oc_issuance_id z, oc_model z) \<notin> (\<lambda>z. (oc_issuance_id z, oc_model z)) ` set (d_outcomes db)"
| observe: "db_step cd db (fst (fold (record_sample series source) samples (db, c)))"
  if "list_all sample_ok samples"
| checkpoint: "db_step cd db (add_checkpoint c db)"
  if "checkpoint_wf cd c" and "covered_seq (cp_evidence_key c) db \<le> cp_last_outcome_seq c \<or>
        newest_checkpoint (cp_evidence_key c) db = None"
| retire: "db_step cd db (db\<lparr> d_horizon := horizon,
      d_issuances := filter (\<lambda>r. is_id r \<notin> is_id ` G) (d_issuances db),
      d_outcomes := filter (\<lambda>z. oc_issuance_id z \<notin> is_id ` G) (d_outcomes db),
      d_observations := filter (\<lambda>z. \<not> ob_event_time z < horizon - d_obs_extra db) (d_observations db),
      d_retention := rets \<rparr>)"
  if "d_horizon db \<le> horizon" and "G \<subseteq> set (d_issuances db)" and "\<forall>r \<in> G. retirable db horizon r"

inductive_cases db_step_elim: "db_step cd db db'"

section \<open>Every transition keeps the file well-formed\<close>

lemma seqs_ok_snoc: "seqs_ok xs m \<Longrightarrow> seqs_ok (xs @ [m + 1]) (m + 1)"
  by (fastforce simp: seqs_ok_def sorted_wrt_append)

lemma seqs_ok_filter: "seqs_ok (map f xs) m \<Longrightarrow> seqs_ok (map f (filter P xs)) m"
  by (auto simp: seqs_ok_def sorted_wrt_map intro: sorted_wrt_filter)

lemma record_sample_fields:
  assumes "fold (record_sample series source) samples (db, c) = (db', c')"
  shows "d_issuances db' = d_issuances db" "d_outcomes db' = d_outcomes db" "d_checkpoints db' = d_checkpoints db"
    "d_issuance_seq db' = d_issuance_seq db" "d_outcome_seq db' = d_outcome_seq db" "d_store_id db' = d_store_id db"
    "d_checkpoint_seq db' = d_checkpoint_seq db" "d_schema_version db' = d_schema_version db"
    "d_horizon db' = d_horizon db" "d_obs_extra db' = d_obs_extra db" "d_retention db' = d_retention db"
  using assms
  by (induction samples arbitrary: db c)
    (auto simp: record_sample_def Let_def case_prod_beta split: option.splits if_splits prod.splits)

lemma record_sample_observations:
  assumes "fold (record_sample series source) samples (db, c) = (db', c')" and "observations_wf db"
    and "list_all sample_ok samples"
  shows "observations_wf db' \<and> (\<exists>new. d_observations db' = d_observations db @ new \<and>
     (\<forall>z \<in> set new. ob_series z = series \<and> (ob_event_time z, ob_value z, ob_received_ms z) \<in> set samples))"
  using assms
proof (induction samples arbitrary: db c)
  case (Cons x samples)
  obtain ts v received where x: "x = (ts, v, received)" by (cases x)
  obtain db1 c1 where step: "record_sample series source x (db, c) = (db1, c1)"
    by (cases "record_sample series source x (db, c)")
  have ok: "sample_ok x" "list_all sample_ok samples" using Cons.prems(3) by simp_all
  let ?row = "\<lparr> ob_series = series, ob_event_time = ts, ob_value = v, ob_received_ms = received,
      ob_source_sha256 = source \<rparr>"
  have db1: "d_observations db1 = d_observations db \<or>
      (d_observations db1 = d_observations db @ [?row] \<and> find_observation series ts db = None)"
    using step by (auto simp: x record_sample_def Let_def split: option.splits if_splits)
  have wf1: "observations_wf db1"
  proof (cases "d_observations db1 = d_observations db")
    case True
    with Cons.prems(2) show ?thesis by (simp add: observations_wf_def)
  next
    case False
    with db1 have "d_observations db1 = d_observations db @ [?row]" "find_observation series ts db = None" by auto
    with Cons.prems(2) ok(1) show ?thesis
      by (auto simp: observations_wf_def find_observation_def find_None_iff x)
  qed
  have "fold (record_sample series source) samples (db1, c1) = (db', c')" using Cons.prems(1) step by simp
  from Cons.IH [OF this wf1 ok(2)] obtain new where
    "observations_wf db'" "d_observations db' = d_observations db1 @ new"
    "\<forall>z \<in> set new. ob_series z = series \<and> (ob_event_time z, ob_value z, ob_received_ms z) \<in> set samples" by blast
  with db1 show ?case by (auto simp: x)
qed simp

lemma filter_suffix: "distinct (map f (ys @ zs)) \<Longrightarrow> filter (\<lambda>x. f x \<in> f ` set zs) (ys @ zs) = zs"
  by (auto simp: filter_empty_conv filter_id_conv)

lemma epoch_checkpoints_add:
  fixes c :: checkpoint
  assumes "seqs_ok (map cp_seq (d_checkpoints db)) (d_checkpoint_seq db)"
  defines "ek \<equiv> cp_evidence_key c"
  defines "new \<equiv> c\<lparr> cp_seq := d_checkpoint_seq db + 1 \<rparr>"
  shows "epoch_checkpoints ek (d_checkpoints (add_checkpoint c db)) =
           last_n CHECKPOINTS_KEPT (epoch_checkpoints ek (d_checkpoints db) @ [new])"
    and "e \<noteq> ek \<Longrightarrow> epoch_checkpoints e (d_checkpoints (add_checkpoint c db)) = epoch_checkpoints e (d_checkpoints db)"
proof -
  let ?cps = "d_checkpoints db @ [new]"
  let ?E = "epoch_checkpoints ek ?cps"
  have dist: "distinct (map cp_seq ?cps)"
    using seqs_ok_snoc [OF assms(1)] by (simp add: seqs_ok_def strict_sorted_iff new_def)
  then have distE: "distinct (map cp_seq ?E)" by (simp only: epoch_checkpoints_def distinct_map_filter)
  have add: "d_checkpoints (add_checkpoint c db) =
      filter (\<lambda>x. cp_evidence_key x \<noteq> ek \<or> cp_seq x \<in> set (map cp_seq (last_n CHECKPOINTS_KEPT ?E))) ?cps"
    by (simp add: add_checkpoint_def Let_def ek_def new_def)
  have "epoch_checkpoints ek (d_checkpoints (add_checkpoint c db)) =
      filter (\<lambda>x. cp_seq x \<in> set (map cp_seq (last_n CHECKPOINTS_KEPT ?E))) ?E"
    unfolding add epoch_checkpoints_def by (auto intro!: filter_cong simp: conj_commute)
  also have "\<dots> = last_n CHECKPOINTS_KEPT ?E"
  proof -
    have "filter (\<lambda>x. cp_seq x \<in> set (map cp_seq (drop n xs))) xs = drop n xs" if "distinct (map cp_seq xs)" for n xs
      using filter_suffix [of cp_seq "take n xs" "drop n xs"] that by simp
    from this [OF distE] show ?thesis by (simp add: last_n_def CHECKPOINTS_KEPT_def)
  qed
  also have "?E = epoch_checkpoints ek (d_checkpoints db) @ [new]"
    by (simp add: epoch_checkpoints_def new_def ek_def)
  finally show "epoch_checkpoints ek (d_checkpoints (add_checkpoint c db)) =
      last_n CHECKPOINTS_KEPT (epoch_checkpoints ek (d_checkpoints db) @ [new])" .
  show "e \<noteq> ek \<Longrightarrow> epoch_checkpoints e (d_checkpoints (add_checkpoint c db)) = epoch_checkpoints e (d_checkpoints db)"
    unfolding add epoch_checkpoints_def by (auto intro!: filter_cong simp: new_def ek_def)
qed

lemma newest_checkpoint_add:
  assumes "seqs_ok (map cp_seq (d_checkpoints db)) (d_checkpoint_seq db)"
  shows "newest_checkpoint ek (add_checkpoint c db) =
     (if ek = cp_evidence_key c then Some (c\<lparr> cp_seq := d_checkpoint_seq db + 1 \<rparr>) else newest_checkpoint ek db)"
  using epoch_checkpoints_add [OF assms, where c = c]
  by (auto simp: newest_checkpoint_def last_n_def CHECKPOINTS_KEPT_def split: list.splits nat.splits)

lemma newest_checkpoint_last:
  "newest_checkpoint ek db = (if epoch_checkpoints ek (d_checkpoints db) = [] then None
     else Some (last (epoch_checkpoints ek (d_checkpoints db))))"
  by (auto simp: newest_checkpoint_def split: list.splits dest!: arg_cong [where f = rev])

lemma add_checkpoint_fields [simp]:
  "d_issuances (add_checkpoint c db) = d_issuances db" "d_outcomes (add_checkpoint c db) = d_outcomes db"
  "d_issuance_seq (add_checkpoint c db) = d_issuance_seq db" "d_outcome_seq (add_checkpoint c db) = d_outcome_seq db"
  "d_store_id (add_checkpoint c db) = d_store_id db" "d_schema_version (add_checkpoint c db) = d_schema_version db"
  "d_horizon (add_checkpoint c db) = d_horizon db" "d_observations (add_checkpoint c db) = d_observations db"
  "d_obs_extra (add_checkpoint c db) = d_obs_extra db"
  "d_checkpoint_seq (add_checkpoint c db) = d_checkpoint_seq db + 1"
  by (simp_all add: add_checkpoint_def Let_def)

lemma add_checkpoint_wf:
  assumes wf: "checkpoints_wf cd db" and "checkpoint_wf cd c"
    and mono: "covered_seq (cp_evidence_key c) db \<le> cp_last_outcome_seq c \<or>
      newest_checkpoint (cp_evidence_key c) db = None"
  shows "checkpoints_wf cd (add_checkpoint c db)"
proof -
  let ?new = "c\<lparr> cp_seq := d_checkpoint_seq db + 1 \<rparr>" and ?ek = "cp_evidence_key c"
  let ?E = "epoch_checkpoints ?ek (d_checkpoints db)"
  have seqs: "seqs_ok (map cp_seq (d_checkpoints db)) (d_checkpoint_seq db)" using wf by (simp add: checkpoints_wf_def)
  have "seqs_ok (map cp_seq (d_checkpoints db @ [?new])) (d_checkpoint_seq db + 1)"
    using seqs_ok_snoc [OF seqs] by simp
  then have 1: "seqs_ok (map cp_seq (d_checkpoints (add_checkpoint c db))) (d_checkpoint_seq (add_checkpoint c db))"
    unfolding add_checkpoint_def Let_def by (simp add: seqs_ok_filter del: filter_append)
  have 2: "\<forall>x \<in> set (d_checkpoints (add_checkpoint c db)). checkpoint_wf cd x"
    using wf assms(2) by (auto simp: add_checkpoint_def Let_def checkpoints_wf_def checkpoint_wf_def)
  have E: "sorted (map cp_last_outcome_seq ?E)" using wf by (simp add: checkpoints_wf_def)
  have "x \<le> cp_last_outcome_seq c" if x: "x \<in> set (map cp_last_outcome_seq ?E)" for x
  proof -
    from x have ne: "?E \<noteq> []" by auto
    then have "map cp_last_outcome_seq ?E = map cp_last_outcome_seq (butlast ?E) @ [cp_last_outcome_seq (last ?E)]"
      by (metis append_butlast_last_id list.simps(8,9) map_append)
    with E x have "x \<le> cp_last_outcome_seq (last ?E)" by (auto simp: sorted_append)
    with mono ne show ?thesis by (auto simp: covered_seq_def newest_checkpoint_last)
  qed
  then have sE: "sorted (map cp_last_outcome_seq (?E @ [?new]))" using E by (simp add: sorted_append)
  have 3: "sorted (map cp_last_outcome_seq (epoch_checkpoints ek (d_checkpoints (add_checkpoint c db)))) \<and>
      length (epoch_checkpoints ek (d_checkpoints (add_checkpoint c db))) \<le> CHECKPOINTS_KEPT" for ek
  proof (cases "ek = ?ek")
    case True
    show ?thesis unfolding True epoch_checkpoints_add(1) [OF seqs]
      using sorted_last_n [OF sE, of CHECKPOINTS_KEPT]
      by (simp add: map_last_n length_last_n CHECKPOINTS_KEPT_def)
  next
    case False
    then show ?thesis using wf epoch_checkpoints_add(2) [OF seqs False] by (simp add: checkpoints_wf_def)
  qed
  from 1 2 3 show ?thesis by (simp add: checkpoints_wf_def)
qed

lemma issuance_wf_id_inj:
  assumes "issuances_wf cd db" and "r \<in> set (d_issuances db)" and "r' \<in> set (d_issuances db)" and "is_id r = is_id r'"
  shows "r = r'"
  using assms by (auto simp: issuances_wf_def distinct_map inj_on_def)

lemma wf_cong:
  assumes "d_issuances db' = d_issuances db" and "d_store_id db' = d_store_id db"
  shows "d_issuance_seq db' = d_issuance_seq db \<Longrightarrow> issuances_wf cd db' = issuances_wf cd db"
    and "d_outcomes db' = d_outcomes db \<Longrightarrow> d_outcome_seq db' = d_outcome_seq db \<Longrightarrow>
      outcomes_wf cd db' = outcomes_wf cd db"
  using assms by (simp_all only: issuances_wf_def issuance_wf_def outcomes_wf_def outcome_wf_def)

lemma db_step_wf:
  assumes "db_step cd db db'" and "db_wf cd db"
  shows "db_wf cd db'"
  using assms
proof cases
  case (issue r)
  have "seqs_ok (map is_seq (d_issuances db @ [r])) (d_issuance_seq db + 1)"
    using seqs_ok_snoc [of "map is_seq (d_issuances db)" "d_issuance_seq db"] issue(3) assms(2)
    by (simp add: db_wf_def issuances_wf_def)
  then show ?thesis using issue assms(2)
    by (auto simp: db_wf_def issuances_wf_def outcomes_wf_def checkpoints_wf_def observations_wf_def issuance_wf_def
        outcome_wf_def)
next
  case (mature z)
  have "seqs_ok (map oc_seq (d_outcomes db @ [z])) (d_outcome_seq db + 1)"
    using seqs_ok_snoc [of "map oc_seq (d_outcomes db)" "d_outcome_seq db"] mature(3) assms(2)
    by (simp add: db_wf_def outcomes_wf_def)
  then show ?thesis using mature assms(2)
    by (auto simp: db_wf_def issuances_wf_def outcomes_wf_def checkpoints_wf_def observations_wf_def issuance_wf_def
        outcome_wf_def)
next
  case (observe samples series source c)
  obtain c' where eq: "fold (record_sample series source) samples (db, c) = (db', c')"
    using observe(1) by (metis prod.collapse)
  note f = record_sample_fields [OF eq]
  have "observations_wf db'" using record_sample_observations [OF eq _ observe(2)] assms(2) by (simp add: db_wf_def)
  then show ?thesis using assms(2) wf_cong [of db' db cd] by (simp add: db_wf_def checkpoints_wf_def f)
next
  case (checkpoint c)
  have "checkpoints_wf cd (add_checkpoint c db)"
    using checkpoint(2,3) assms(2) by (intro add_checkpoint_wf) (auto simp: db_wf_def)
  then show ?thesis using assms(2) wf_cong [of "add_checkpoint c db" db cd] unfolding checkpoint(1)
    by (simp add: db_wf_def observations_wf_def)
next
  case (retire horizon G rets)
  have iss: "issuances_wf cd db" using assms(2) by (simp add: db_wf_def)
  have "outcome_wf cd db' z" if z: "z \<in> set (d_outcomes db')" for z
  proof -
    from z retire have "outcome_wf cd db z" "oc_issuance_id z \<notin> is_id ` G"
      using assms(2) by (auto simp: db_wf_def outcomes_wf_def)
    then obtain r where "r \<in> set (d_issuances db)" "is_id r \<notin> is_id ` G" "is_id r = oc_issuance_id z"
      "ik_evidence_key (is_key r) = oc_evidence_key z" "ik_window_end (is_key r) = oc_window_end z"
      "oc_model z \<in> set (is_models r)"
      by (auto simp: outcome_wf_def)
    moreover from this have "r \<in> set (d_issuances db')" unfolding retire(1) by simp
    ultimately show ?thesis using \<open>outcome_wf cd db z\<close> unfolding outcome_wf_def by blast
  qed
  then have "outcomes_wf cd db'"
    using retire assms(2) by (simp add: db_wf_def outcomes_wf_def seqs_ok_filter distinct_map_filter)
  moreover have "issuances_wf cd db'"
    using retire iss by (auto simp: issuances_wf_def seqs_ok_filter distinct_map_filter issuance_wf_def)
  ultimately show ?thesis using retire assms(2)
    by (auto simp: db_wf_def checkpoints_wf_def observations_wf_def distinct_map_filter)
qed

section \<open>The operations refine the transitions\<close>

datatype journal_op =
    CommitIssuance issuance_key json "string list"
  | GetOrIssue issuance_key "string \<Rightarrow> store_error + json" "string list"
  | CommitOutcome string string string json
  | RecordObservations string "(int \<times> pyfloat \<times> int) list" string
  | WriteCheckpoint string json int
  | Compact int
  | ReadFailed string          \<comment> \<open>a read that SQLite fails: the problem is latched\<close>
  | Restart                    \<comment> \<open>the process is replaced and reopens the file\<close>

fun op_key_ok :: "journal_op \<Rightarrow> bool" where
  "op_key_ok (CommitIssuance k _ _) = issuance_key_ok k"
| "op_key_ok (GetOrIssue k _ _) = issuance_key_ok k"
| "op_key_ok _ = True"

fun exec :: "codec \<Rightarrow> env \<Rightarrow> journal_op \<Rightarrow> store \<Rightarrow> store" where
  "exec cd en (CommitIssuance k payload models) s = snd (commit_issuance cd en k payload models s)"
| "exec cd en (GetOrIssue k build models) s = snd (get_or_issue cd en k build models s)"
| "exec cd en (CommitOutcome iid model status payload) s = snd (commit_outcome cd en iid model status payload s)"
| "exec cd en (RecordObservations series samples source) s = snd (record_observations en series samples source s)"
| "exec cd en (WriteCheckpoint ek state l) s = snd (write_checkpoint cd en ek state l s)"
| "exec cd en (Compact now_s) s = snd (compact cd en now_s s)"
| "exec cd en (ReadFailed why) s = fail why s"
| "exec cd en Restart s = s\<lparr> st_problem := None \<rparr>"

abbreviation db_stutter :: "codec \<Rightarrow> db \<Rightarrow> db \<Rightarrow> bool" where
  "db_stutter cd db db' \<equiv> db' = db \<or> db_step cd db db'"

lemma guard_db [simp]: "st_db (snd (guard what s rd)) = snd rd"
  by (auto simp: guard_def Let_def fail_def split: sum.splits)

lemma fst_guard [simp]: "fst (guard what s rd) = fst rd"
  by (simp add: guard_def Let_def)

lemma fail_db [simp]: "st_db (fail why s) = st_db s"
  by (simp add: fail_def)

lemma then_read_snd [simp]: "snd (then_read rd f) = snd rd"
  by (simp add: then_read_def split: sum.splits)

lemma transact_snd: "snd (transact en db r) = db \<or> (en_fault en = None \<and> r = Inr (snd (transact en db r)))"
  by (auto simp: transact_def split: option.splits sum.splits)

text \<open>The row \<open>commit_issuance\<close> inserts.\<close>

definition issuance_row :: "codec \<Rightarrow> env \<Rightarrow> db \<Rightarrow> issuance_key \<Rightarrow> string \<Rightarrow> json \<Rightarrow> string list \<Rightarrow> issuance" where
  "issuance_row cd en db k bytes payload ms =
     \<lparr> is_seq = 0, is_id = issuance_id_for cd (d_store_id db) k, is_key_sha256 = key_sha256 cd k,
       is_key = k, is_bundle = bytes, is_payload = payload, is_bundle_sha256 = cd_sha cd bytes,
       is_models = ms, is_committed_at_ms = en_now_ms en \<rparr>"

lemma insert_issuance_step:
  assumes "issuance_key_ok k" and ms: "check_models models = Inr ms"
  shows "db_stutter cd db (snd (transact en db (insert_issuance (issuance_row cd en db k bytes payload ms) db)))"
proof -
  let ?r = "issuance_row cd en db k bytes payload ms"
  have "db_step cd db db'" if ins: "insert_issuance ?r db = Inr db'" for db'
  proof -
    let ?r' = "?r\<lparr> is_seq := d_issuance_seq db + 1 \<rparr>"
    have new: "d_horizon db \<le> ik_window_end (is_key ?r')" "is_id ?r' \<notin> is_id ` set (d_issuances db)"
      "is_key_sha256 ?r' \<notin> is_key_sha256 ` set (d_issuances db)"
      and db': "db' = db\<lparr> d_issuances := d_issuances db @ [?r'], d_issuance_seq := d_issuance_seq db + 1 \<rparr>"
      using ins by (auto simp: insert_issuance_def list_ex_iff)
    have "issuance_wf cd db ?r'"
      using assms(1) check_models_idem [OF ms] by (simp add: issuance_wf_def issuance_row_def)
    from db_step.issue [OF this _ new] show ?thesis unfolding db' by simp
  qed
  with transact_snd [of en db "insert_issuance ?r db"] show ?thesis by metis
qed

lemma commit_issuance_body_row:
  "commit_issuance_body cd en k bytes payload ms s =
     (let db = st_db s in
      case bind_res (require_healthy s) (\<lambda>_. get_issuance cd k db) of
        Inl e \<Rightarrow> (Inl e, db)
      | Inr (Some existing) \<Rightarrow> (map_sum id (\<lambda>i. (Some i, False)) (same_issuance existing bytes ms), db)
      | Inr None \<Rightarrow>
          (case bind_res (refuse_retired k db) (\<lambda>_. check_quota s en (int (length bytes))) of
             Inl e \<Rightarrow> (Inl e, db)
           | Inr _ \<Rightarrow> then_read (transact en db (insert_issuance (issuance_row cd en db k bytes payload ms) db))
                        (\<lambda>db'. bind_res (get_issuance cd k db') (\<lambda>i. Inr (i, True)))))"
  unfolding commit_issuance_body_def issuance_row_def by (rule refl)

lemma commit_issuance_db:
  assumes "issuance_key_ok k"
  shows "db_stutter cd (st_db s) (st_db (snd (commit_issuance cd en k payload models s)))"
  using insert_issuance_step [OF assms, where models = models]
  by (auto simp: commit_issuance_def commit_issuance_body_row Let_def bind_res_Inr_iff
      split: sum.splits option.splits prod.splits)

lemma get_or_issue_db:
  assumes "issuance_key_ok k"
  shows "db_stutter cd (st_db s) (st_db (snd (get_or_issue cd en k build models s)))"
  using commit_issuance_db [OF assms]
  by (auto simp: get_or_issue_def Let_def split: sum.splits option.splits)

lemma commit_outcome_db:
  assumes "db_wf cd (st_db s)"
  shows "db_stutter cd (st_db s) (st_db (snd (commit_outcome cd en iid model status payload s)))"
proof -
  let ?db = "st_db s"
  have step: "db_stutter cd ?db (snd (transact en ?db (insert_outcome
      \<lparr> oc_seq = 0, oc_issuance_id = iid, oc_evidence_key = ik_evidence_key (is_key iss),
        oc_window_end = ik_window_end (is_key iss), oc_model = model, oc_status = status,
        oc_bytes = data, oc_payload = payload, oc_payload_sha256 = cd_sha cd data,
        oc_committed_at_ms = en_now_ms en \<rparr> ?db)))"
    (is "db_stutter cd ?db (snd (transact en ?db (insert_outcome ?r ?db)))")
    if got: "get_issuance_by_id cd iid ?db = Inr (Some iss)" and model: "model \<in> set (is_models iss)"
      and ended: "\<not> en_now_ms en < ik_window_end (is_key iss) * 1000" for data iss
  proof -
    have iss: "iss \<in> set (d_issuances ?db)" "is_id iss = iid"
      using got assms by (auto simp: get_issuance_by_id_wf db_wf_def find_Some_iff)
    have "db_step cd ?db db'" if ins: "insert_outcome ?r ?db = Inr db'" for db'
    proof -
      let ?r' = "?r\<lparr> oc_seq := d_outcome_seq ?db + 1 \<rparr>"
      have new: "(oc_issuance_id ?r', oc_model ?r') \<notin> (\<lambda>z. (oc_issuance_id z, oc_model z)) ` set (d_outcomes ?db)"
        and st: "status \<in> set OUTCOME_STATUSES"
        and db': "db' = ?db\<lparr> d_outcomes := d_outcomes ?db @ [?r'], d_outcome_seq := d_outcome_seq ?db + 1 \<rparr>"
        using ins by (auto simp: insert_outcome_def has_outcome_def list_ex_iff)
      have "outcome_wf cd ?db ?r'"
        using iss st model ended unfolding outcome_wf_def by (intro conjI bexI [of _ iss]) simp_all
      from db_step.mature [OF this _ new] show ?thesis unfolding db' by simp
    qed
    with transact_snd [of en ?db "insert_outcome ?r ?db"] show ?thesis by metis
  qed
  show ?thesis
    using step
    by (auto simp: commit_outcome_def commit_outcome_body_def Let_def split: sum.splits option.splits)
qed

lemma record_observations_db:
  assumes "db_wf cd (st_db s)"
  shows "db_stutter cd (st_db s) (st_db (snd (record_observations en series samples source s)))"
proof -
  let ?db = "st_db s"
  let ?c = "\<lparr> rc_new = 0, rc_duplicate = 0, rc_corrected = 0 \<rparr>"
  have "db_stutter cd ?db (snd (transact en ?db (Inr (fst (fold (record_sample series source) samples (?db, ?c))))))"
    if "list_all sample_ok samples"
    using transact_snd [of en ?db "Inr (fst (fold (record_sample series source) samples (?db, ?c)))"]
      db_step.observe [OF that, of cd ?db series source ?c] by auto
  then show ?thesis
    by (auto simp: record_observations_def Let_def case_prod_beta split: sum.splits)
qed

lemma write_checkpoint_db:
  assumes "db_wf cd (st_db s)"
  shows "db_stutter cd (st_db s) (st_db (snd (write_checkpoint cd en ek state l s)))"
proof -
  let ?db = "st_db s"
  have latest: "latest_checkpoint cd ek ?db = Inr (newest_checkpoint ek ?db)"
    using assms by (intro latest_checkpoint_wf) (simp add: db_wf_def)
  have step: "db_stutter cd ?db (snd (transact en ?db (Inr (add_checkpoint
      \<lparr> cp_seq = 0, cp_evidence_key = ek, cp_last_outcome_seq = l, cp_schema_version = SCHEMA_VERSION,
        cp_bytes = data, cp_state = state, cp_payload_sha256 = cd_sha cd data, cp_created_at_ms = en_now_ms en \<rparr> ?db))))"
    (is "db_stutter cd ?db (snd (transact en ?db (Inr (add_checkpoint ?c ?db))))")
    if "covered_seq ek ?db \<le> l \<or> newest_checkpoint ek ?db = None" for data
    using transact_snd [of en ?db "Inr (add_checkpoint ?c ?db)"] that db_step.checkpoint [of cd ?c ?db]
    by (auto simp: checkpoint_wf_def)
  have "db_stutter cd ?db (snd (write_checkpoint_body cd en ek state data l s))" for data
    using step [of data] latest
    by (auto simp: write_checkpoint_body_def Let_def covered_seq_def require_healthy_def
        split: sum.splits option.splits)
  then show ?thesis by (auto simp: write_checkpoint_def split: sum.splits)
qed

lemma compact_tx_retire:
  assumes wf: "db_wf cd db" and cov: "coverage_of cd horizon db = Inr cov" and "compact_tx cd horizon cov db = Inr (db', n)"
  shows "\<exists>G rets. d_horizon db \<le> horizon \<and> G \<subseteq> set (d_issuances db) \<and> (\<forall>r \<in> G. retirable db horizon r) \<and>
     db' = db\<lparr> d_horizon := horizon,
      d_issuances := filter (\<lambda>r. is_id r \<notin> is_id ` G) (d_issuances db),
      d_outcomes := filter (\<lambda>z. oc_issuance_id z \<notin> is_id ` G) (d_outcomes db),
      d_observations := filter (\<lambda>z. \<not> ob_event_time z < horizon - d_obs_extra db) (d_observations db),
      d_retention := rets \<rparr>"
proof -
  let ?old = "filter (\<lambda>r. ik_window_end (is_key r) < horizon) (d_issuances db)"
  let ?G = "set (filter (coverable cov db) ?old)"
  have rows: "map_res (row_to_issuance cd) ?old = Inr ?old"
    using wf by (intro map_res_id) (auto simp: db_wf_def issuances_wf_def intro: row_to_issuance_wf)
  have db': "db' = db\<lparr> d_horizon := horizon,
      d_issuances := filter (\<lambda>r. is_id r \<notin> is_id ` ?G) (d_issuances db),
      d_outcomes := filter (\<lambda>z. oc_issuance_id z \<notin> is_id ` ?G) (d_outcomes db),
      d_observations := filter (\<lambda>z. \<not> ob_event_time z < horizon - d_obs_extra db) (d_observations db),
      d_retention := fold (retire cd horizon db) (filter (coverable cov db) ?old) (d_retention db) \<rparr>"
    and h: "d_horizon db \<le> horizon"
    using assms(3) unfolding compact_tx_def rows by (auto simp: Let_def simp del: filter_filter split: if_splits)
  have "retirable db horizon r" if r: "r \<in> ?G" for r
  proof -
    have "dict_get cov (ik_evidence_key (is_key r)) = Some (covered_seq (ik_evidence_key (is_key r)) db)"
      using cov r coverage_of_wf [of cd db horizon] wf by (auto simp: db_wf_def map_of_map_restrict restrict_map_def)
    then show ?thesis using r by (auto simp: retirable_def coverable_def list_all_iff not_less)
  qed
  moreover have "?G \<subseteq> set (d_issuances db)" by auto
  ultimately show ?thesis using h db' by blast
qed

lemma compact_tx_step:
  assumes "db_wf cd db" and "coverage_of cd horizon db = Inr cov" and "compact_tx cd horizon cov db = Inr (db', n)"
  shows "db_step cd db db'"
  using compact_tx_retire [OF assms] by (auto intro: db_step.retire)

lemma compact_db:
  assumes "db_wf cd (st_db s)"
  shows "db_stutter cd (st_db s) (st_db (snd (compact cd en now_s s)))"
proof -
  let ?db = "st_db s" and ?h = "now_s - st_retention_seconds s"
  have "db_stutter cd ?db (snd (transact en ?db (Inr db')))"
    if "bind_res (coverage_of cd ?h ?db) (\<lambda>cov. compact_tx cd ?h cov ?db) = Inr (db', n)" for db' n
    using that compact_tx_step [OF assms] transact_snd [of en ?db "Inr db'"] by (auto simp: bind_res_Inr_iff)
  then show ?thesis
    by (auto simp: compact_def Let_def split: sum.splits)
qed

lemma exec_db_step:
  assumes "db_wf cd (st_db s)" and "op_key_ok x"
  shows "db_stutter cd (st_db s) (st_db (exec cd en x s))"
  using assms commit_issuance_db get_or_issue_db commit_outcome_db record_observations_db write_checkpoint_db compact_db
  by (cases x) (simp_all del: disj_not1)

section \<open>Runs\<close>

definition exec_step :: "codec \<Rightarrow> store \<Rightarrow> store \<Rightarrow> bool" where
  "exec_step cd s s' \<longleftrightarrow> (\<exists>en x. op_key_ok x \<and> s' = exec cd en x s)"

abbreviation runs :: "codec \<Rightarrow> store \<Rightarrow> store \<Rightarrow> bool" where
  "runs cd \<equiv> (exec_step cd)\<^sup>*\<^sup>*"

definition reachable :: "codec \<Rightarrow> store \<Rightarrow> bool" where
  "reachable cd s \<longleftrightarrow>
     (\<exists>en store_id random_id quota retention_s observation_retention_s max_bundle s0.
        open_store en None store_id random_id quota retention_s observation_retention_s max_bundle = Inr s0 \<and>
        runs cd s0 s)"

lemma exec_step_wf: "exec_step cd s s' \<Longrightarrow> db_wf cd (st_db s) \<Longrightarrow> db_wf cd (st_db s')"
  using exec_db_step db_step_wf unfolding exec_step_def by metis

lemma runs_wf: "runs cd s s' \<Longrightarrow> db_wf cd (st_db s) \<Longrightarrow> db_wf cd (st_db s')"
  by (induction rule: rtranclp_induct) (auto intro: exec_step_wf)

lemma open_store_fresh_wf:
  "open_store en None store_id random_id q r ob mb = Inr s0 \<Longrightarrow> db_wf cd (st_db s0)"
  by (auto simp: open_store_def Let_def fresh_db_wf split: option.splits if_splits)

lemma reachable_wf:
  assumes "reachable cd s"
  shows "db_wf cd (st_db s)"
proof -
  obtain en sid rid q r ob mb s0 where new: "open_store en None sid rid q r ob mb = Inr s0" and run: "runs cd s0 s"
    using assms unfolding reachable_def by blast
  from new have "db_wf cd (st_db s0)" by (rule open_store_fresh_wf)
  with run show ?thesis by (rule runs_wf)
qed

lemma reachable_runs: "reachable cd s \<Longrightarrow> runs cd s s' \<Longrightarrow> reachable cd s'"
  unfolding reachable_def by (meson rtranclp_trans)

lemma runs_db: "runs cd s s' \<Longrightarrow> db_wf cd (st_db s) \<Longrightarrow> (db_step cd)\<^sup>*\<^sup>* (st_db s) (st_db s')"
proof (induction rule: rtranclp_induct)
  case (step y z)
  obtain en x where "op_key_ok x" "z = exec cd en x y" using step(2) unfolding exec_step_def by blast
  then have "db_stutter cd (st_db y) (st_db z)"
    using exec_db_step [OF runs_wf [OF step(1) step.prems]] by simp
  with step.IH [OF step.prems] show ?case by (auto intro: rtranclp.rtrancl_into_rtrancl)
qed simp

lemma guard_config [simp]:
  "st_quota_bytes (snd (guard w s rd)) = st_quota_bytes s"
  "st_retention_seconds (snd (guard w s rd)) = st_retention_seconds s"
  "st_max_bundle_bytes (snd (guard w s rd)) = st_max_bundle_bytes s"
  by (auto simp: guard_def Let_def fail_def split: sum.splits)

lemma exec_max_bundle: "st_max_bundle_bytes (exec cd en x s) = st_max_bundle_bytes s"
  by (cases x) (auto simp: commit_issuance_def get_or_issue_def commit_outcome_def record_observations_def
      write_checkpoint_def compact_def fail_def Let_def split: sum.splits option.splits prod.splits)

lemma runs_max_bundle: "runs cd s s' \<Longrightarrow> st_max_bundle_bytes s' = st_max_bundle_bytes s"
  by (induction rule: rtranclp_induct) (auto simp: exec_step_def exec_max_bundle)

section \<open>What becomes of a row\<close>

lemma db_step_horizon: "db_step cd db db' \<Longrightarrow> d_horizon db \<le> d_horizon db'"
proof (cases rule: db_step.cases, assumption)
  fix samples series source c
  assume "db_step cd db db'" and "db' = fst (fold (record_sample series source) samples (db, c))"
  then show "d_horizon db \<le> d_horizon db'"
    using record_sample_fields(9) [of series source samples db c db'] by (metis order_refl prod.collapse)
qed auto

definition retired_issuance :: "db \<Rightarrow> issuance \<Rightarrow> bool" where
  "retired_issuance db r \<longleftrightarrow>
     ik_window_end (is_key r) < d_horizon db \<and> (\<forall>r' \<in> set (d_issuances db). is_key r' \<noteq> is_key r)"

lemma issuance_step_fate:
  assumes step: "db_step cd db db'" and wf: "db_wf cd db" and r: "issuance_wf cd db r"
  shows "r \<in> set (d_issuances db) \<Longrightarrow> r \<in> set (d_issuances db') \<or> retired_issuance db' r"
    and "retired_issuance db r \<Longrightarrow> retired_issuance db' r"
proof -
  have key: "r' = r" if "r \<in> set (d_issuances db)" "r' \<in> set (d_issuances db)" "is_key r' = is_key r" for r'
    using that wf by (auto simp: db_wf_def issuances_wf_def issuance_wf_def distinct_map inj_on_def)
  from step show "r \<in> set (d_issuances db) \<Longrightarrow> r \<in> set (d_issuances db') \<or> retired_issuance db' r"
  proof cases
    case (observe samples series source c)
    assume "r \<in> set (d_issuances db)"
    then show ?thesis using record_sample_fields(1) [of series source samples db c db'] observe(1)
      by (metis prod.collapse)
  next
    case (retire horizon G rets)
    assume r: "r \<in> set (d_issuances db)"
    show ?thesis
    proof (cases "is_id r \<in> is_id ` G")
      case True
      then obtain g where "g \<in> G" "is_id g = is_id r" by auto
      then have "g = r" using issuance_wf_id_inj [of cd db g r] wf r retire(3) by (auto simp: db_wf_def)
      with \<open>g \<in> G\<close> retire(4) have "ik_window_end (is_key r) < horizon" by (simp add: retirable_def)
      then have "retired_issuance db' r"
        using key [OF r] True unfolding retired_issuance_def retire(1) by auto
      then show ?thesis ..
    qed (use r retire(1) in simp)
  qed auto
  from step show "retired_issuance db r \<Longrightarrow> retired_issuance db' r"
  proof cases
    case (observe samples series source c)
    assume "retired_issuance db r"
    then show ?thesis using record_sample_fields(1,9) [of series source samples db c db'] observe(1)
      by (metis prod.collapse retired_issuance_def)
  qed (auto simp: retired_issuance_def)
qed

lemma issuance_fate:
  assumes "(db_step cd)\<^sup>*\<^sup>* db db'" and "db_wf cd db" and "issuance_wf cd db r" and "r \<in> set (d_issuances db)"
  shows "db_wf cd db' \<and> issuance_wf cd db' r \<and> (r \<in> set (d_issuances db') \<or> retired_issuance db' r)"
  using assms(1)
proof (induction rule: rtranclp_induct)
  case (step y z)
  have "d_store_id z = d_store_id y"
    using step(2)
  proof cases
    case (observe samples series source c)
    then show ?thesis using record_sample_fields(6) [of series source samples y c z] by (metis prod.collapse)
  qed simp_all
  then have "issuance_wf cd z r" using step.IH by (simp add: issuance_wf_def)
  with step issuance_step_fate [OF step(2)] db_step_wf [OF step(2)] show ?case by blast
qed (use assms in simp)

lemma outcome_fate:
  assumes "(db_step cd)\<^sup>*\<^sup>* db db'" and "db_wf cd db" and "z \<in> set (d_outcomes db)"
  shows "db_wf cd db' \<and> (z \<in> set (d_outcomes db') \<or> oc_window_end z < d_horizon db')"
  using assms(1)
proof (induction rule: rtranclp_induct)
  case (step x y)
  have wf: "db_wf cd x" and z: "z \<in> set (d_outcomes x) \<or> oc_window_end z < d_horizon x" using step.IH by auto
  from step(2) have "z \<in> set (d_outcomes x) \<Longrightarrow> z \<in> set (d_outcomes y) \<or> oc_window_end z < d_horizon y"
  proof cases
    case (observe samples series source c)
    assume "z \<in> set (d_outcomes x)"
    then show ?thesis using record_sample_fields(2) [of series source samples x c y] observe(1) by (metis prod.collapse)
  next
    case (retire horizon G rets)
    assume z: "z \<in> set (d_outcomes x)"
    show ?thesis
    proof (cases "oc_issuance_id z \<in> is_id ` G")
      case True
      then obtain g where g: "g \<in> G" "is_id g = oc_issuance_id z" by auto
      obtain r where "r \<in> set (d_issuances x)" "is_id r = oc_issuance_id z" "ik_window_end (is_key r) = oc_window_end z"
        using wf z by (auto simp: db_wf_def outcomes_wf_def outcome_wf_def)
      moreover have "g \<in> set (d_issuances x)" "ik_window_end (is_key g) < horizon"
        using g(1) retire(3,4) by (auto simp: retirable_def)
      ultimately have "oc_window_end z < horizon"
        using issuance_wf_id_inj [of cd x g r] wf g(2) by (auto simp: db_wf_def)
      then show ?thesis unfolding retire(1) by simp
    qed (use z retire(1) in simp)
  qed auto
  with z db_step_horizon [OF step(2)] db_step_wf [OF step(2) wf] show ?case by auto
qed (use assms in simp)

section \<open>Commits by cases\<close>

lemma get_issuance_of_row:
  assumes "db_wf cd db" and "r \<in> set (d_issuances db)"
  shows "get_issuance cd (is_key r) db = Inr (Some r)"
proof -
  have iw: "issuances_wf cd db" using assms(1) by (simp add: db_wf_def)
  then have "is_key_sha256 r = key_sha256 cd (is_key r)" using assms(2) by (simp add: issuances_wf_def issuance_wf_def)
  with find_distinct [of is_key_sha256 "d_issuances db" r] iw assms(2) show ?thesis
    unfolding get_issuance_wf [OF iw] by (simp add: issuances_wf_def)
qed

lemma store_same: "s\<lparr> st_db := st_db s \<rparr> = s" for s :: store
  by simp

lemma commit_issuance_existing:
  assumes "db_wf cd (st_db s)" and "r \<in> set (d_issuances (st_db s))" and "healthy s"
    and "encode cd payload (st_max_bundle_bytes s) = Inr bytes" and "check_models models = Inr ms"
  shows "commit_issuance cd en (is_key r) payload models s =
     ((if bytes = is_bundle r \<and> ms = is_models r then Inr (Some r, False) else Inl IntegrityConflict), s)"
  using assms(3-5) get_issuance_of_row [OF assms(1,2)]
  by (auto simp: commit_issuance_def commit_issuance_body_def Let_def require_healthy_def healthy_def
      same_issuance_def guard_def)

lemma get_or_issue_existing:
  assumes "db_wf cd (st_db s)" and "r \<in> set (d_issuances (st_db s))" and "healthy s" and "check_models models = Inr ms"
  shows "get_or_issue cd en (is_key r) build models s =
     ((if ms = is_models r then Inr (Some r, False) else Inl IntegrityConflict), s)"
  using assms(3,4) get_issuance_of_row [OF assms(1,2)]
  by (auto simp: get_or_issue_def Let_def require_healthy_def healthy_def guard_def)

text \<open>A successful commit: the row is in the file, with the key, bytes and models asked for.\<close>

lemma commit_issuance_Inr:
  assumes wf: "db_wf cd (st_db s)" and "issuance_key_ok k"
    and com: "commit_issuance cd en k payload models s = (Inr (ri, created), s')"
  shows "\<exists>r bytes ms. ri = Some r \<and> r \<in> set (d_issuances (st_db s')) \<and> is_key_sha256 r = key_sha256 cd k \<and>
     encode cd payload (st_max_bundle_bytes s) = Inr bytes \<and> check_models models = Inr ms \<and>
     is_bundle r = bytes \<and> is_models r = ms \<and>
     (created \<longrightarrow> is_key r = k \<and> d_horizon (st_db s) \<le> ik_window_end k \<and> r \<notin> set (d_issuances (st_db s)) \<and>
        st_db s' = (st_db s)\<lparr> d_issuances := d_issuances (st_db s) @ [r], d_issuance_seq := d_issuance_seq (st_db s) + 1 \<rparr>) \<and>
     (\<not> created \<longrightarrow> st_db s' = st_db s)"
proof -
  let ?db = "st_db s"
  have iw: "issuances_wf cd ?db" using wf by (simp add: db_wf_def)
  obtain bytes ms where enc: "encode cd payload (st_max_bundle_bytes s) = Inr bytes" "check_models models = Inr ms"
    and body: "guard ''commit issuance'' s (commit_issuance_body cd en k bytes payload ms s) = (Inr (ri, created), s')"
    using com by (auto simp: commit_issuance_def bind_res_Inr_iff split: sum.splits)
  have s': "st_db s' = snd (commit_issuance_body cd en k bytes payload ms s)"
    and res: "fst (commit_issuance_body cd en k bytes payload ms s) = Inr (ri, created)"
    using guard_db [of _ s "commit_issuance_body cd en k bytes payload ms s"]
      fst_guard [of _ s "commit_issuance_body cd en k bytes payload ms s"] body by (metis snd_conv, metis fst_conv)
  have ok: "st_problem s = None"
    using res by (rule_tac ccontr) (simp add: commit_issuance_body_def Let_def require_healthy_def)
  show ?thesis
  proof (cases "List.find (\<lambda>r. is_key_sha256 r = key_sha256 cd k) (d_issuances ?db)")
    case (Some r)
    then have r: "r \<in> set (d_issuances ?db)" "is_key_sha256 r = key_sha256 cd k" by (auto simp: find_Some_iff)
    have "commit_issuance_body cd en k bytes payload ms s =
        (map_sum id (\<lambda>i. (Some i, False)) (same_issuance r bytes ms), ?db)"
      by (simp add: commit_issuance_body_def Let_def get_issuance_wf [OF iw] require_healthy_def ok Some)
    then have "ri = Some r \<and> \<not> created \<and> st_db s' = ?db \<and> is_bundle r = bytes \<and> is_models r = ms"
      using res s' by (auto simp: same_issuance_def split: if_splits)
    with r enc show ?thesis by auto
  next
    case None
    let ?r = "issuance_row cd en ?db k bytes payload ms"
    let ?r' = "?r\<lparr> is_seq := d_issuance_seq ?db + 1 \<rparr>"
    let ?db' = "?db\<lparr> d_issuances := d_issuances ?db @ [?r'], d_issuance_seq := d_issuance_seq ?db + 1 \<rparr>"
    let ?read = "\<lambda>db'. bind_res (get_issuance cd k db') (\<lambda>i. Inr (i, True))"
    have eq: "commit_issuance_body cd en k bytes payload ms s =
        (case bind_res (refuse_retired k ?db) (\<lambda>_. check_quota s en (int (length bytes))) of
           Inl e \<Rightarrow> (Inl e, ?db) | Inr _ \<Rightarrow> then_read (transact en ?db (insert_issuance ?r ?db)) ?read)"
      by (simp add: commit_issuance_body_row Let_def get_issuance_wf [OF iw] require_healthy_def ok None)
    then have h: "d_horizon ?db \<le> ik_window_end k"
      and eq': "commit_issuance_body cd en k bytes payload ms s = then_read (transact en ?db (insert_issuance ?r ?db)) ?read"
      using res by (auto simp: refuse_retired_def split: sum.splits if_splits)
    have tx: "fst (transact en ?db (insert_issuance ?r ?db)) = Inr ()"
      using res unfolding eq' then_read_def by (auto split: sum.splits)
    then have db': "snd (transact en ?db (insert_issuance ?r ?db)) = ?db'"
      by (auto simp: transact_def insert_issuance_def split: option.splits if_splits)
    have created: created and db': "st_db s' = ?db'" and read: "get_issuance cd k ?db' = Inr ri"
      using res s' tx db' unfolding eq' then_read_def by (auto simp: bind_res_Inr_iff)
    have "List.find (\<lambda>r. is_key_sha256 r = key_sha256 cd k) (d_issuances ?db') = Some ?r'"
      using None by (simp add: find_append issuance_row_def)
    moreover have "row_to_issuance cd ?r' = Inr ?r'"
      using check_models_idem [OF enc(2)] assms(2) by (simp add: row_to_issuance_def issuance_row_def)
    ultimately have "ri = Some ?r'" using read by (simp add: get_issuance_def)
    moreover have "?r' \<notin> set (d_issuances ?db)" using None by (auto simp: find_None_iff issuance_row_def)
    ultimately show ?thesis using enc h created db' by (auto simp: issuance_row_def)
  qed
qed

lemma find_outcome_of_row:
  assumes "db_wf cd db" and "z \<in> set (d_outcomes db)"
  shows "find_outcome (oc_issuance_id z) (oc_model z) db = Some z"
  using find_distinct [of "\<lambda>z. (oc_issuance_id z, oc_model z)" "d_outcomes db" z] assms
  by (simp add: find_outcome_def db_wf_def outcomes_wf_def)

lemma commit_outcome_existing:
  assumes wf: "db_wf cd (st_db s)" and z: "z \<in> set (d_outcomes (st_db s))" and "healthy s"
    and "status \<in> set OUTCOME_STATUSES" and "oc_model z \<noteq> []" and "encode cd payload MAX_OUTCOME_BYTES = Inr bytes"
  shows "commit_outcome cd en (oc_issuance_id z) (oc_model z) status payload s =
     ((if status = oc_status z \<and> bytes = oc_bytes z then Inr (z, False) else Inl IntegrityConflict), s)"
proof -
  have "row_to_outcome cd z = Inr z"
    using wf z by (auto simp: db_wf_def outcomes_wf_def intro: row_to_outcome_wf)
  then show ?thesis
    using assms(3-6) find_outcome_of_row [OF wf z]
    by (auto simp: commit_outcome_def commit_outcome_body_def Let_def require_healthy_def healthy_def guard_def)
qed

lemma guard_Inr: "guard w s rd = (Inr x, s') \<Longrightarrow> fst rd = Inr x \<and> st_db s' = snd rd"
  using guard_db [of w s rd] fst_guard [of w s rd] by auto

lemma commit_outcome_Inr:
  assumes wf: "db_wf cd (st_db s)"
    and com: "commit_outcome cd en iid model status payload s = (Inr (z, created), s')"
  shows "z \<in> set (d_outcomes (st_db s')) \<and> oc_issuance_id z = iid \<and> oc_model z = model \<and> oc_status z = status \<and>
     model \<noteq> [] \<and> status \<in> set OUTCOME_STATUSES \<and> encode cd payload MAX_OUTCOME_BYTES = Inr (oc_bytes z)"
proof -
  let ?db = "st_db s"
  obtain bytes where enc: "encode cd payload MAX_OUTCOME_BYTES = Inr bytes" "model \<noteq> []" "status \<in> set OUTCOME_STATUSES"
    and body: "guard ''commit outcome'' s (commit_outcome_body cd en iid model status bytes payload s) = (Inr (z, created), s')"
    using com by (auto simp: commit_outcome_def split: sum.splits if_splits)
  note res = guard_Inr [OF body]
  have ok: "st_problem s = None"
    using res by (rule_tac ccontr) (simp add: commit_outcome_body_def Let_def require_healthy_def)
  show ?thesis
  proof (cases "find_outcome iid model ?db")
    case (Some row)
    then have row: "row \<in> set (d_outcomes ?db)" "oc_issuance_id row = iid" "oc_model row = model"
      by (auto simp: find_outcome_def find_Some_iff)
    have "row_to_outcome cd row = Inr row"
      using wf row(1) by (auto simp: db_wf_def outcomes_wf_def intro: row_to_outcome_wf)
    then have "commit_outcome_body cd en iid model status bytes payload s =
        ((if (oc_status row, oc_bytes row) \<noteq> (status, bytes) then Inl IntegrityConflict else Inr (row, False)), ?db)"
      by (simp add: commit_outcome_body_def Let_def require_healthy_def ok Some)
    then have "z = row \<and> st_db s' = ?db \<and> oc_status row = status \<and> oc_bytes row = bytes"
      using res by (auto split: if_splits)
    with row enc show ?thesis by auto
  next
    case None
    let ?read = "\<lambda>db'. case find_outcome iid model db' of None \<Rightarrow> Inl (StoreError ''no row'')
        | Some row \<Rightarrow> bind_res (row_to_outcome cd row) (\<lambda>z. Inr (z, True))"
    obtain iss where iss: "get_issuance_by_id cd iid ?db = Inr (Some iss)" "check_quota s en (int (length bytes)) = Inr ()"
      "model \<in> set (is_models iss)" "\<not> en_now_ms en < ik_window_end (is_key iss) * 1000"
      using res None ok
      by (auto simp: commit_outcome_body_def Let_def require_healthy_def split: sum.splits option.splits if_splits)
    have eq: "commit_outcome_body cd en iid model status bytes payload s =
        then_read (transact en ?db (insert_outcome
          \<lparr> oc_seq = 0, oc_issuance_id = iid, oc_evidence_key = ik_evidence_key (is_key iss),
            oc_window_end = ik_window_end (is_key iss), oc_model = model, oc_status = status,
            oc_bytes = bytes, oc_payload = payload, oc_payload_sha256 = cd_sha cd bytes,
            oc_committed_at_ms = en_now_ms en \<rparr> ?db)) ?read"
      (is "_ = then_read (transact en ?db (insert_outcome ?r ?db)) ?read")
      by (simp add: commit_outcome_body_def Let_def require_healthy_def None ok iss)
    let ?r' = "?r\<lparr> oc_seq := d_outcome_seq ?db + 1 \<rparr>"
    have tx: "fst (transact en ?db (insert_outcome ?r ?db)) = Inr ()"
      using res unfolding eq then_read_def by (auto split: sum.splits)
    then have db': "snd (transact en ?db (insert_outcome ?r ?db)) =
        ?db\<lparr> d_outcomes := d_outcomes ?db @ [?r'], d_outcome_seq := d_outcome_seq ?db + 1 \<rparr>"
      by (auto simp: transact_def insert_outcome_def split: option.splits if_splits)
    have "find_outcome iid model (snd (transact en ?db (insert_outcome ?r ?db))) = Some ?r'"
      using None unfolding db' by (simp add: find_outcome_def find_append)
    then have "z = ?r'" using res tx unfolding eq then_read_def by (simp add: row_to_outcome_def)
    moreover have "st_db s' = snd (transact en ?db (insert_outcome ?r ?db))" using res unfolding eq by simp
    ultimately show ?thesis using enc unfolding db' by simp
  qed
qed

section \<open>Unhealthy stores\<close>

text \<open>Every write refuses while a problem is latched, and changes nothing.\<close>

fun write_result :: "codec \<Rightarrow> env \<Rightarrow> journal_op \<Rightarrow> store \<Rightarrow> store_error option" where
  "write_result cd en (CommitIssuance k payload models) s =
     (case fst (commit_issuance cd en k payload models s) of Inl e \<Rightarrow> Some e | Inr _ \<Rightarrow> None)"
| "write_result cd en (GetOrIssue k build models) s =
     (case fst (get_or_issue cd en k build models s) of Inl e \<Rightarrow> Some e | Inr _ \<Rightarrow> None)"
| "write_result cd en (CommitOutcome iid model status payload) s =
     (case fst (commit_outcome cd en iid model status payload s) of Inl e \<Rightarrow> Some e | Inr _ \<Rightarrow> None)"
| "write_result cd en (RecordObservations series samples source) s =
     (case fst (record_observations en series samples source s) of Inl e \<Rightarrow> Some e | Inr _ \<Rightarrow> None)"
| "write_result cd en (WriteCheckpoint ek state l) s =
     (case fst (write_checkpoint cd en ek state l s) of Inl e \<Rightarrow> Some e | Inr _ \<Rightarrow> None)"
| "write_result cd en (Compact now_s) s = (case fst (compact cd en now_s s) of Inl e \<Rightarrow> Some e | Inr _ \<Rightarrow> None)"
| "write_result cd en (ReadFailed why) s = Some (StoreUnavailable why)"
| "write_result cd en Restart s = None"

lemma guard_unhealthy: "st_problem s \<noteq> None \<Longrightarrow> guard w s (Inl e, st_db s) = (Inl e, s)"
  by (simp add: guard_def fail_def)

lemma unhealthy_refuses:
  assumes "\<not> healthy s" and "x \<noteq> Restart"
  shows "write_result cd en x s \<noteq> None" and "exec cd en x s = s"
proof -
  have p: "st_problem s \<noteq> None" using assms(1) by (simp add: healthy_def)
  note simps = guard_unhealthy [OF p] require_healthy_def p commit_issuance_def commit_issuance_body_def get_or_issue_def
    commit_outcome_def commit_outcome_body_def record_observations_def write_checkpoint_def write_checkpoint_body_def
    compact_def fail_def Let_def case_prod_beta
  show "write_result cd en x s \<noteq> None"
    using assms(2) p by (cases x) (simp_all add: simps split: sum.split prod.split)
  show "exec cd en x s = s"
    using assms(2) p by (cases x) (simp_all add: simps split: sum.split prod.split)
qed

section \<open>Recovery\<close>

definition fold_outcomes :: "(json \<Rightarrow> outcome \<Rightarrow> json) \<Rightarrow> json \<Rightarrow> outcome list \<Rightarrow> json" where
  "fold_outcomes f init zs = foldl f init zs"

definition epoch_outcomes :: "string \<Rightarrow> outcome list \<Rightarrow> outcome list" where
  "epoch_outcomes ek zs = filter (\<lambda>z. oc_evidence_key z = ek) zs"

definition pending_outcomes :: "string \<Rightarrow> db \<Rightarrow> outcome list" where
  "pending_outcomes ek db = filter (\<lambda>z. oc_evidence_key z = ek \<and> covered_seq ek db < oc_seq z) (d_outcomes db)"

lemma foldl_recover:
  "foldl (\<lambda>(st, l, n) z. (f st z, oc_seq z, n + 1)) (st, l, n) zs =
     (foldl f st zs, (if zs = [] then l else oc_seq (last zs)), n + int (length zs))"
  by (induction zs arbitrary: st l n) auto

lemma recover_wf:
  assumes "db_wf cd db"
  shows "recover cd ek f init db =
     Inr (foldl f (case newest_checkpoint ek db of None \<Rightarrow> init | Some c \<Rightarrow> cp_state c) (pending_outcomes ek db),
          (if pending_outcomes ek db = [] then covered_seq ek db else oc_seq (last (pending_outcomes ek db))),
          int (length (pending_outcomes ek db)))"
proof -
  have "latest_checkpoint cd ek db = Inr (newest_checkpoint ek db)" using assms by (simp add: latest_checkpoint_wf db_wf_def)
  moreover have "outcomes_after cd ek l db = Inr (filter (\<lambda>z. oc_evidence_key z = ek \<and> l < oc_seq z) (d_outcomes db))" for l
    using assms by (simp add: outcomes_after_wf db_wf_def)
  ultimately show ?thesis
    unfolding recover_def pending_outcomes_def covered_seq_def
    by (cases "newest_checkpoint ek db") (simp_all add: foldl_recover)
qed

text \<open>A transition that leaves the epoch's newest checkpoint adds the new outcomes to the pending ones and drops none.\<close>

definition new_outcomes :: "db \<Rightarrow> db \<Rightarrow> outcome list" where
  "new_outcomes db db' = filter (\<lambda>z. d_outcome_seq db < oc_seq z) (d_outcomes db')"

lemma no_new_outcomes: "outcomes_wf cd db \<Longrightarrow> filter (\<lambda>z. d_outcome_seq db < oc_seq z) (filter P (d_outcomes db)) = []"
  by (auto simp: outcomes_wf_def seqs_ok_def filter_empty_conv)

lemma retired_covered:
  assumes wf: "db_wf cd db" and "G \<subseteq> set (d_issuances db)" and ret: "\<forall>r \<in> G. retirable db horizon r"
    and z: "z \<in> set (d_outcomes db)" "oc_issuance_id z \<in> is_id ` G"
  shows "oc_seq z \<le> covered_seq (oc_evidence_key z) db"
proof -
  obtain g where g: "g \<in> G" "is_id g = oc_issuance_id z" using z(2) by auto
  obtain r where r: "r \<in> set (d_issuances db)" "is_id r = oc_issuance_id z" "ik_evidence_key (is_key r) = oc_evidence_key z"
    using wf z(1) by (auto simp: db_wf_def outcomes_wf_def outcome_wf_def)
  have "g \<in> set (d_issuances db)" using g(1) assms(2) by auto
  then have "g = r" using issuance_wf_id_inj [of cd db g r] wf g(2) r by (simp add: db_wf_def)
  moreover have "z \<in> set (outcomes_of db (is_id g))" using z(1) g(2) by (simp add: outcomes_of_def)
  ultimately show ?thesis using ret g(1) r(3) by (auto simp: retirable_def)
qed

lemma retire_pending:
  assumes wf: "db_wf cd db" and G: "G \<subseteq> set (d_issuances db)" "\<forall>r \<in> G. retirable db horizon r"
    and db': "d_outcomes db' = filter (\<lambda>z. oc_issuance_id z \<notin> is_id ` G) (d_outcomes db)"
    and seq: "covered_seq ek db' = covered_seq ek db"
  shows "pending_outcomes ek db' = pending_outcomes ek db"
proof -
  have "oc_issuance_id z \<notin> is_id ` G"
    if "z \<in> set (d_outcomes db)" "oc_evidence_key z = ek" "covered_seq ek db < oc_seq z" for z
    using retired_covered [OF wf G that(1)] that(2,3) by auto
  then show ?thesis unfolding pending_outcomes_def seq db' filter_filter by (intro filter_cong) auto
qed

lemma step_pending:
  assumes wf: "db_wf cd db" and step: "db_step cd db db'"
    and same: "newest_checkpoint ek db' = newest_checkpoint ek db" and cov: "covered_seq ek db \<le> d_outcome_seq db"
  shows "pending_outcomes ek db' = pending_outcomes ek db @ epoch_outcomes ek (new_outcomes db db') \<and>
     d_outcome_seq db \<le> d_outcome_seq db' \<and>
     (\<forall>z \<in> set (new_outcomes db db'). oc_seq z \<le> d_outcome_seq db') \<and>
     sorted_wrt (\<lambda>a b. oc_seq a < oc_seq b) (new_outcomes db db')"
proof -
  have ow: "outcomes_wf cd db" using wf by (simp add: db_wf_def)
  have none: "filter (\<lambda>z. d_outcome_seq db < oc_seq z) (d_outcomes db) = []" using no_new_outcomes [OF ow, of "\<lambda>_. True"] by simp
  have seq: "covered_seq ek db' = covered_seq ek db" by (simp add: covered_seq_def same)
  from step show ?thesis
  proof cases
    case (issue r)
    then show ?thesis using none seq by (simp add: pending_outcomes_def new_outcomes_def epoch_outcomes_def)
  next
    case (mature z)
    then show ?thesis using none seq cov by (auto simp: pending_outcomes_def new_outcomes_def epoch_outcomes_def)
  next
    case (observe samples series source c)
    then have "d_outcomes db' = d_outcomes db" "d_outcome_seq db' = d_outcome_seq db"
      using record_sample_fields(2,5) [of series source samples db c db'] by (metis prod.collapse)+
    then show ?thesis using none seq by (simp add: pending_outcomes_def new_outcomes_def epoch_outcomes_def)
  next
    case (checkpoint c)
    then show ?thesis using none seq by (simp add: pending_outcomes_def new_outcomes_def epoch_outcomes_def)
  next
    case (retire horizon G rets)
    have db': "d_outcomes db' = filter (\<lambda>z. oc_issuance_id z \<notin> is_id ` G) (d_outcomes db)" "d_outcome_seq db' = d_outcome_seq db"
      unfolding retire(1) by simp_all
    have "pending_outcomes ek db' = pending_outcomes ek db" by (rule retire_pending [OF wf retire(3,4) db'(1) seq])
    moreover have "new_outcomes db db' = []" unfolding new_outcomes_def db'(1) by (rule no_new_outcomes [OF ow])
    ultimately show ?thesis using db'(2) by (simp add: epoch_outcomes_def)
  qed
qed

text \<open>
  The history of an epoch: every outcome ever committed, in commit order, with the condition that the epoch's
  checkpoints hold what recovery returned (the caller checkpoints the result of \<open>recover\<close>).
\<close>

inductive epoch_history :: "codec \<Rightarrow> string \<Rightarrow> (json \<Rightarrow> outcome \<Rightarrow> json) \<Rightarrow> json \<Rightarrow> store \<Rightarrow> outcome list \<Rightarrow> bool"
  for cd ek f init where
  opened: "epoch_history cd ek f init s []"
  if "open_store en None store_id random_id quota retention_s observation_retention_s max_bundle = Inr s"
| other: "epoch_history cd ek f init (exec cd en x s)
     (hist @ new_outcomes (st_db s) (st_db (exec cd en x s)))"
  if "epoch_history cd ek f init s hist" and "op_key_ok x" and "\<And>st l. x \<noteq> WriteCheckpoint ek st l"
| checkpointed: "epoch_history cd ek f init (exec cd en (WriteCheckpoint ek st l) s) hist"
  if "epoch_history cd ek f init s hist" and "recover cd ek f init (st_db s) = Inr (st, l, n)"

definition history_inv :: "string \<Rightarrow> (json \<Rightarrow> outcome \<Rightarrow> json) \<Rightarrow> json \<Rightarrow> db \<Rightarrow> outcome list \<Rightarrow> bool" where
  "history_inv ek f init db hist \<longleftrightarrow>
     sorted_wrt (\<lambda>a b. oc_seq a < oc_seq b) hist \<and> (\<forall>z \<in> set hist. 0 < oc_seq z \<and> oc_seq z \<le> d_outcome_seq db) \<and>
     0 \<le> covered_seq ek db \<and> covered_seq ek db \<le> d_outcome_seq db \<and>
     (case newest_checkpoint ek db of None \<Rightarrow> init | Some c \<Rightarrow> cp_state c) =
       foldl f init (filter (\<lambda>z. oc_seq z \<le> covered_seq ek db) (epoch_outcomes ek hist)) \<and>
     pending_outcomes ek db = filter (\<lambda>z. covered_seq ek db < oc_seq z) (epoch_outcomes ek hist)"

lemma split_by_seq:
  assumes "sorted_wrt (\<lambda>a b. oc_seq a < oc_seq b) zs"
  shows "filter (\<lambda>z. oc_seq z \<le> m) zs @ filter (\<lambda>z. m < oc_seq z) zs = zs"
  using assms
proof (induction zs)
  case (Cons z zs)
  show ?case
  proof (cases "oc_seq z \<le> m")
    case False
    then have "filter (\<lambda>z. oc_seq z \<le> m) zs = []" "filter (\<lambda>z. m < oc_seq z) zs = zs"
      using Cons.prems by (auto simp: filter_empty_conv filter_id_conv)
    with False show ?thesis by simp
  qed (use Cons in simp)
qed simp

lemma history_recover:
  assumes "history_inv ek f init db hist" and "db_wf cd db"
  shows "recover cd ek f init db =
     Inr (foldl f init (epoch_outcomes ek hist),
          (if pending_outcomes ek db = [] then covered_seq ek db else oc_seq (last (pending_outcomes ek db))),
          int (length (pending_outcomes ek db)))"
proof -
  have "sorted_wrt (\<lambda>a b. oc_seq a < oc_seq b) (epoch_outcomes ek hist)"
    using assms(1) by (simp add: history_inv_def epoch_outcomes_def sorted_wrt_filter)
  from split_by_seq [OF this, of "covered_seq ek db"] show ?thesis
    unfolding recover_wf [OF assms(2)] using assms(1)
    by (simp add: history_inv_def flip: foldl_append)
qed

text \<open>Only a write of an epoch's checkpoint changes its newest checkpoint.\<close>

lemma newest_checkpoint_cong: "d_checkpoints db' = d_checkpoints db \<Longrightarrow> newest_checkpoint ek db' = newest_checkpoint ek db"
  by (simp add: newest_checkpoint_def)

lemma exec_newest_checkpoint:
  assumes "db_wf cd (st_db s)" and "\<And>st l. x \<noteq> WriteCheckpoint ek st l"
  shows "newest_checkpoint ek (st_db (exec cd en x s)) = newest_checkpoint ek (st_db s)"
proof (cases x)
  case (WriteCheckpoint e st l)
  let ?db = "st_db s"
  have ne: "ek \<noteq> e" using assms(2) WriteCheckpoint by auto
  have seqs: "seqs_ok (map cp_seq (d_checkpoints ?db)) (d_checkpoint_seq ?db)"
    using assms(1) by (simp add: db_wf_def checkpoints_wf_def)
  have "newest_checkpoint ek (add_checkpoint c ?db) = newest_checkpoint ek ?db" if "cp_evidence_key c = e" for c
    using newest_checkpoint_add [OF seqs, of ek c] ne that by simp
  then have "newest_checkpoint ek (snd (transact en ?db (Inr (add_checkpoint c ?db)))) = newest_checkpoint ek ?db"
    if "cp_evidence_key c = e" for c
    using that transact_snd [of en ?db "Inr (add_checkpoint c ?db)"] by auto
  then have "newest_checkpoint ek (snd (write_checkpoint_body cd en e st data l s)) = newest_checkpoint ek ?db" for data
    by (auto simp: write_checkpoint_body_def Let_def split: sum.splits option.splits)
  then show ?thesis using WriteCheckpoint by (simp add: write_checkpoint_def split: sum.split)
next
  case (RecordObservations series samples source)
  have "d_checkpoints (fst (fold (record_sample series source) samples (db, c))) = d_checkpoints db" for db c
    using record_sample_fields(3) [of series source samples db c] by (metis prod.collapse)
  then show ?thesis unfolding RecordObservations
    by (auto simp: record_observations_def Let_def case_prod_beta transact_def intro!: newest_checkpoint_cong
        split: sum.splits option.splits)
next
  case (Compact now_s)
  have "d_checkpoints db' = d_checkpoints (st_db s)" if "compact_tx cd h cov (st_db s) = Inr (db', n)" for h cov db' n
    using that by (auto simp: compact_tx_def Let_def bind_res_Inr_iff split: if_splits)
  then show ?thesis unfolding Compact
    by (auto simp: compact_def Let_def transact_def bind_res_Inr_iff intro!: newest_checkpoint_cong
        split: sum.splits option.splits)
next
  case (CommitOutcome iid model status payload)
  then show ?thesis
    by (auto simp: commit_outcome_def commit_outcome_body_def transact_def insert_outcome_def Let_def
        intro!: newest_checkpoint_cong split: sum.splits option.splits if_splits)
next
  case (CommitIssuance k payload models)
  then show ?thesis
    by (auto simp: commit_issuance_def commit_issuance_body_def transact_def insert_issuance_def Let_def
        intro!: newest_checkpoint_cong split: sum.splits option.splits if_splits prod.splits)
next
  case (GetOrIssue k build models)
  then show ?thesis
    by (auto simp: get_or_issue_def commit_issuance_def commit_issuance_body_def transact_def insert_issuance_def Let_def
        intro!: newest_checkpoint_cong split: sum.splits option.splits if_splits prod.splits)
qed (simp_all add: newest_checkpoint_def)

lemma write_checkpoint_cases:
  assumes "db_wf cd (st_db s)"
  shows "st_db (exec cd en (WriteCheckpoint ek st l) s) = st_db s \<or>
     (\<exists>c. st_db (exec cd en (WriteCheckpoint ek st l) s) = add_checkpoint c (st_db s) \<and> cp_evidence_key c = ek \<and>
        cp_state c = st \<and> cp_last_outcome_seq c = l)"
proof -
  let ?db = "st_db s"
  let ?c = "\<lambda>data. \<lparr> cp_seq = 0, cp_evidence_key = ek, cp_last_outcome_seq = l, cp_schema_version = SCHEMA_VERSION,
      cp_bytes = data, cp_state = st, cp_payload_sha256 = cd_sha cd data, cp_created_at_ms = en_now_ms en \<rparr>"
  have "snd (write_checkpoint_body cd en ek st data l s) \<in> {?db, add_checkpoint (?c data) ?db}" for data
    using transact_snd [of en ?db "Inr (add_checkpoint (?c data) ?db)"]
    by (auto simp: write_checkpoint_body_def Let_def split: sum.splits option.splits)
  then show ?thesis
    by (cases "encode cd st MAX_CHECKPOINT_BYTES")
      (simp_all add: write_checkpoint_def, metis checkpoint.select_convs(2,3,6))
qed

lemma last_is_newest:
  assumes "sorted_wrt (\<lambda>a b. oc_seq a < oc_seq b) zs" and "z \<in> set zs"
  shows "oc_seq z \<le> oc_seq (last zs)"
  using assms by (induction zs) (auto split: if_splits intro: less_imp_le)

lemma recover_covers:
  assumes inv: "history_inv ek f init db hist" and wf: "db_wf cd db" and rec: "recover cd ek f init db = Inr (st, l, n)"
  shows "st = foldl f init (epoch_outcomes ek hist)" and "\<forall>z \<in> set (epoch_outcomes ek hist). oc_seq z \<le> l"
    and "covered_seq ek db \<le> l" and "l \<le> d_outcome_seq db"
    and "l = covered_seq ek db \<Longrightarrow> pending_outcomes ek db = []"
proof -
  let ?E = "epoch_outcomes ek hist"
  let ?P = "filter (\<lambda>z. covered_seq ek db < oc_seq z) ?E"
  have srt: "sorted_wrt (\<lambda>a b. oc_seq a < oc_seq b) ?P"
    using inv by (simp add: history_inv_def epoch_outcomes_def sorted_wrt_filter)
  have pend: "pending_outcomes ek db = ?P" using inv by (simp add: history_inv_def)
  show "st = foldl f init ?E" using rec history_recover [OF inv wf] by auto
  have l: "l = (if ?P = [] then covered_seq ek db else oc_seq (last ?P))"
    using rec history_recover [OF inv wf] pend by auto
  have lastP: "last ?P \<in> set ?P" if "?P \<noteq> []" using that by (rule last_in_set)
  show l_ge: "covered_seq ek db \<le> l"
    using lastP l by (cases "?P = []") auto
  show "l = covered_seq ek db \<Longrightarrow> pending_outcomes ek db = []"
    using lastP l pend by (cases "?P = []") auto
  show "l \<le> d_outcome_seq db"
  proof (cases "?P = []")
    case False
    then have "last ?P \<in> set hist" using lastP by (simp add: epoch_outcomes_def)
    with False l inv show ?thesis by (simp add: history_inv_def)
  qed (use l inv in \<open>simp add: history_inv_def\<close>)
  show "\<forall>z \<in> set ?E. oc_seq z \<le> l"
  proof
    fix z assume z: "z \<in> set ?E"
    show "oc_seq z \<le> l"
    proof (cases "covered_seq ek db < oc_seq z")
      case True
      then have "z \<in> set ?P" using z by simp
      moreover from this have "?P \<noteq> []" by force
      ultimately show ?thesis using last_is_newest [OF srt] l by simp
    qed (use l_ge in simp)
  qed
qed

lemma history_inv_checkpoint:
  assumes inv: "history_inv ek f init db hist" and wf: "db_wf cd db"
    and rec: "recover cd ek f init db = Inr (st, l, n)"
    and c: "cp_evidence_key c = ek" "cp_state c = st" "cp_last_outcome_seq c = l"
  shows "history_inv ek f init (add_checkpoint c db) hist" and "pending_outcomes ek (add_checkpoint c db) = []"
    and "covered_seq ek (add_checkpoint c db) = l"
proof -
  let ?E = "epoch_outcomes ek hist"
  note rc = recover_covers [OF inv wf rec]
  have cov: "covered_seq ek (add_checkpoint c db) = l" and
    state: "newest_checkpoint ek (add_checkpoint c db) = Some (c\<lparr> cp_seq := d_checkpoint_seq db + 1 \<rparr>)"
    using newest_checkpoint_add [of db ek c] wf c
    by (simp_all add: covered_seq_def db_wf_def checkpoints_wf_def)
  show "covered_seq ek (add_checkpoint c db) = l" by (rule cov)
  have all: "filter (\<lambda>z. oc_seq z \<le> l) ?E = ?E" "filter (\<lambda>z. l < oc_seq z) ?E = []"
    using rc(2) by (auto simp: filter_id_conv filter_empty_conv not_less)
  have "pending_outcomes ek (add_checkpoint c db) = filter (\<lambda>z. l < oc_seq z) (pending_outcomes ek db)"
    using rc(3) by (auto simp: pending_outcomes_def cov intro: filter_cong)
  also have "\<dots> = []" using inv rc(2) by (auto simp: history_inv_def filter_empty_conv not_less)
  finally show pend: "pending_outcomes ek (add_checkpoint c db) = []" .
  show "history_inv ek f init (add_checkpoint c db) hist"
    using inv rc c all pend unfolding history_inv_def cov state by auto
qed

lemma history_invariant:
  assumes "epoch_history cd ek f init s hist"
  shows "db_wf cd (st_db s) \<and> history_inv ek f init (st_db s) hist"
  using assms
proof (induction rule: epoch_history.induct)
  case (opened en sid rid q r ob mb s)
  have fresh: "history_inv ek f init (fresh_db i n e) []" for i n e
    by (simp add: history_inv_def fresh_db_def covered_seq_def newest_checkpoint_def epoch_checkpoints_def
        pending_outcomes_def epoch_outcomes_def)
  have "history_inv ek f init (st_db s) []"
    using opened by (auto simp: open_store_def Let_def fresh split: option.splits if_splits)
  with open_store_fresh_wf [OF opened] show ?case by simp
next
  case (other s hist x en)
  let ?db = "st_db s" and ?db' = "st_db (exec cd en x s)"
  have wf: "db_wf cd ?db" and inv: "history_inv ek f init ?db hist" using other.IH by auto
  have same: "newest_checkpoint ek ?db' = newest_checkpoint ek ?db" using exec_newest_checkpoint [OF wf other(3)] .
  have cov: "covered_seq ek ?db \<le> d_outcome_seq ?db" using inv by (simp add: history_inv_def)
  from exec_db_step [OF wf other(2)] show ?case
  proof
    assume eq: "?db' = ?db"
    have "new_outcomes ?db ?db = []"
      using no_new_outcomes [of cd ?db "\<lambda>_. True"] wf by (simp add: new_outcomes_def db_wf_def)
    with eq wf inv show ?thesis by simp
  next
    assume step: "db_step cd ?db ?db'"
    note sp = step_pending [OF wf step same cov]
    have new: "\<forall>z \<in> set (new_outcomes ?db ?db'). d_outcome_seq ?db < oc_seq z" by (simp add: new_outcomes_def)
    have cov': "covered_seq ek ?db' = covered_seq ek ?db" by (simp add: covered_seq_def same)
    have old: "filter (\<lambda>z. oc_seq z \<le> covered_seq ek ?db) (epoch_outcomes ek (new_outcomes ?db ?db')) = []"
      using new cov by (fastforce simp: filter_empty_conv epoch_outcomes_def)
    have young: "filter (\<lambda>z. covered_seq ek ?db < oc_seq z) (epoch_outcomes ek (new_outcomes ?db ?db')) =
          epoch_outcomes ek (new_outcomes ?db ?db')"
      unfolding epoch_outcomes_def filter_filter using new cov by (intro filter_cong) force+
    have 1: "sorted_wrt (\<lambda>a b. oc_seq a < oc_seq b) (hist @ new_outcomes ?db ?db')"
      using inv sp new by (fastforce simp: history_inv_def sorted_wrt_append)
    have 2: "\<forall>z \<in> set (hist @ new_outcomes ?db ?db'). 0 < oc_seq z \<and> oc_seq z \<le> d_outcome_seq ?db'"
      using inv sp new by (fastforce simp: history_inv_def)
    have "history_inv ek f init ?db' (hist @ new_outcomes ?db ?db')"
      using inv sp 1 2 old young unfolding history_inv_def cov' same by (simp add: epoch_outcomes_def)
    with db_step_wf [OF step wf] show ?thesis by simp
  qed
next
  case (checkpointed s hist st l n en)
  have wf: "db_wf cd (st_db s)" and inv: "history_inv ek f init (st_db s) hist" using checkpointed.IH by auto
  have "db_wf cd (st_db (exec cd en (WriteCheckpoint ek st l) s))"
    using exec_db_step [OF wf, of "WriteCheckpoint ek st l" en] db_step_wf wf by auto
  with write_checkpoint_cases [OF wf, of en ek st l] history_inv_checkpoint(1) [OF inv wf checkpointed(2)] inv
  show ?case by metis
qed

section \<open>Failed writes\<close>

lemma failed_commit_issuance:
  assumes wf: "db_wf cd (st_db s)" and k: "issuance_key_ok k"
    and "fst (commit_issuance cd en k payload models s) = Inl e"
  shows "st_db (snd (commit_issuance cd en k payload models s)) = st_db s"
proof (cases "bind_res (encode cd payload (st_max_bundle_bytes s)) (\<lambda>b. bind_res (check_models models) (\<lambda>ms. Inr (b, ms)))")
  case (Inr bm)
  obtain bytes ms where bm: "bm = (bytes, ms)" by (cases bm)
  then have ms: "check_models models = Inr ms" using Inr by (auto simp: bind_res_Inr_iff)
  let ?db = "st_db s" and ?body = "commit_issuance_body cd en k bytes payload ms s"
  have body: "commit_issuance cd en k payload models s = guard ''commit issuance'' s ?body"
    using Inr bm by (simp add: commit_issuance_def)
  have err: "fst ?body = Inl e" using assms(3) body by simp
  let ?tx = "transact en ?db (insert_issuance (issuance_row cd en ?db k bytes payload ms) ?db)"
  have "db_wf cd (snd ?tx)"
    using insert_issuance_step [OF k ms, where cd = cd and db = ?db and en = en and bytes = bytes and payload = payload] wf db_step_wf by auto
  then have read: "\<exists>x. get_issuance cd k (snd ?tx) = Inr x" by (simp add: get_issuance_wf db_wf_def)
  have tx_err: "snd ?tx = ?db" if "fst ?tx = Inl e'" for e'
    using that by (auto simp: transact_def split: option.splits sum.splits)
  have "snd ?body = ?db"
    using err read tx_err
    by (auto simp: commit_issuance_body_row Let_def then_read_def split: sum.splits option.splits)
  then show ?thesis by (simp add: body)
qed (simp add: commit_issuance_def)

lemma write_checkpoint_Inr:
  assumes wf: "db_wf cd (st_db s)" and "fst (write_checkpoint cd en ek st l s) = Inr co"
  shows "(st_db (exec cd en (WriteCheckpoint ek st l) s) = st_db s \<and> l = covered_seq ek (st_db s)) \<or>
     (\<exists>c. st_db (exec cd en (WriteCheckpoint ek st l) s) = add_checkpoint c (st_db s) \<and> cp_evidence_key c = ek \<and>
        cp_state c = st \<and> cp_last_outcome_seq c = l)"
proof -
  let ?db = "st_db s"
  obtain data where body: "write_checkpoint cd en ek st l s =
      guard ''write checkpoint'' s (write_checkpoint_body cd en ek st data l s)"
    using assms(2) by (auto simp: write_checkpoint_def split: sum.splits)
  let ?c = "\<lparr> cp_seq = 0, cp_evidence_key = ek, cp_last_outcome_seq = l, cp_schema_version = SCHEMA_VERSION,
      cp_bytes = data, cp_state = st, cp_payload_sha256 = cd_sha cd data, cp_created_at_ms = en_now_ms en \<rparr>"
  have latest: "latest_checkpoint cd ek ?db = Inr (newest_checkpoint ek ?db)"
    using wf by (simp add: latest_checkpoint_wf db_wf_def)
  have tx: "snd (transact en ?db (Inr (add_checkpoint ?c ?db))) = add_checkpoint ?c ?db"
    if "fst (transact en ?db (Inr (add_checkpoint ?c ?db))) = Inr ()"
    using that by (simp add: transact_def split: option.splits)
  have "fst (write_checkpoint_body cd en ek st data l s) = Inr co" using assms(2) body by simp
  then have "(snd (write_checkpoint_body cd en ek st data l s) = ?db \<and> l = covered_seq ek ?db) \<or>
      snd (write_checkpoint_body cd en ek st data l s) = add_checkpoint ?c ?db"
    using tx latest
    by (auto simp: write_checkpoint_body_def Let_def then_read_def covered_seq_def require_healthy_def
        split: sum.splits option.splits if_splits)
  then show ?thesis
    using body by (simp, metis checkpoint.select_convs(2,3,6))
qed

lemma compact_cases:
  assumes wf: "db_wf cd (st_db s)"
  shows "st_db (exec cd en (Compact now_s) s) = st_db s \<or>
     (\<exists>G horizon. G \<subseteq> set (d_issuances (st_db s)) \<and> (\<forall>r \<in> G. retirable (st_db s) horizon r) \<and>
        d_outcomes (st_db (exec cd en (Compact now_s) s)) =
          filter (\<lambda>z. oc_issuance_id z \<notin> is_id ` G) (d_outcomes (st_db s)))"
proof -
  let ?db = "st_db s" and ?h = "now_s - st_retention_seconds s"
  let ?r = "bind_res (coverage_of cd ?h ?db) (\<lambda>cov. compact_tx cd ?h cov ?db)"
  have "st_db (exec cd en (Compact now_s) s) = ?db \<or> (\<exists>n. ?r = Inr (st_db (exec cd en (Compact now_s) s), n))"
    by (auto simp: compact_def Let_def transact_def split: sum.splits option.splits)
  then show ?thesis
  proof
    assume "\<exists>n. ?r = Inr (st_db (exec cd en (Compact now_s) s), n)"
    then obtain cov n where "coverage_of cd ?h ?db = Inr cov"
      and tx: "compact_tx cd ?h cov ?db = Inr (st_db (exec cd en (Compact now_s) s), n)"
      by (auto simp: bind_res_Inr_iff simp del: exec.simps)
    from compact_tx_retire [OF wf this] obtain G rets where "G \<subseteq> set (d_issuances ?db)" "\<forall>r \<in> G. retirable ?db ?h r"
      and eq: "st_db (exec cd en (Compact now_s) s) = ?db\<lparr> d_horizon := ?h,
        d_issuances := filter (\<lambda>r. is_id r \<notin> is_id ` G) (d_issuances ?db),
        d_outcomes := filter (\<lambda>z. oc_issuance_id z \<notin> is_id ` G) (d_outcomes ?db),
        d_observations := filter (\<lambda>z. \<not> ob_event_time z < ?h - d_obs_extra ?db) (d_observations ?db),
        d_retention := rets \<rparr>" by blast
    moreover have "d_outcomes (st_db (exec cd en (Compact now_s) s)) =
        filter (\<lambda>z. oc_issuance_id z \<notin> is_id ` G) (d_outcomes ?db)"
      unfolding eq by simp
    ultimately show ?thesis by blast
  qed simp
qed

section \<open>First receipts\<close>

text \<open>What the maturation reads: the first receipts of a series in a range.\<close>

definition receipts :: "string \<Rightarrow> int \<Rightarrow> int \<Rightarrow> store \<Rightarrow> receipt_map" where
  "receipts series lo hi s = map_of (observations series lo hi (st_db s))"

fun arrives_after :: "int \<Rightarrow> journal_op \<Rightarrow> bool" where
  "arrives_after now (RecordObservations _ samples _) = list_all (\<lambda>(t, v, received). now < received) samples"
| "arrives_after now (Compact _) = False"
| "arrives_after now _ = True"

text \<open>A later evaluation of the same process or its successors: only samples received after \<open>now\<close> were recorded since,
  and nothing was removed by retention.\<close>

definition receive_step :: "codec \<Rightarrow> int \<Rightarrow> store \<Rightarrow> store \<Rightarrow> bool" where
  "receive_step cd now s s' \<longleftrightarrow> (\<exists>en x. op_key_ok x \<and> arrives_after now x \<and> s' = exec cd en x s)"

definition later_evaluation :: "codec \<Rightarrow> store \<times> int \<Rightarrow> store \<times> int \<Rightarrow> bool" where
  "later_evaluation cd sn sn' \<longleftrightarrow>
     db_wf cd (st_db (fst sn)) \<and> snd sn \<le> snd sn' \<and> (receive_step cd (snd sn))\<^sup>*\<^sup>* (fst sn) (fst sn')"

lemma exec_observations:
  assumes wf: "db_wf cd (st_db s)" and "op_key_ok x" and "arrives_after now x"
  shows "\<exists>new. d_observations (st_db (exec cd en x s)) = d_observations (st_db s) @ new \<and>
     (\<forall>z \<in> set new. now < ob_received_ms z)"
proof (cases x)
  case (RecordObservations series samples source)
  let ?db = "st_db s" and ?c = "\<lparr> rc_new = 0, rc_duplicate = 0, rc_corrected = 0 \<rparr>"
  let ?db' = "fst (fold (record_sample series source) samples (?db, ?c))"
  have "st_db (exec cd en x s) = ?db \<or> (st_db (exec cd en x s) = ?db' \<and> list_all sample_ok samples)"
    unfolding RecordObservations using transact_snd [of en ?db "Inr ?db'"]
    by (auto simp: record_observations_def Let_def case_prod_beta split: sum.splits)
  moreover have "\<exists>new. d_observations ?db' = d_observations ?db @ new \<and> (\<forall>z \<in> set new. now < ob_received_ms z)"
    if "list_all sample_ok samples"
  proof -
    obtain c' where eq: "fold (record_sample series source) samples (?db, ?c) = (?db', c')" by (metis prod.collapse)
    have "observations_wf ?db" using wf by (simp add: db_wf_def)
    from record_sample_observations [OF eq this that] assms(3) show ?thesis
      unfolding RecordObservations by (fastforce simp: list_all_iff)
  qed
  ultimately show ?thesis by auto
next
  case (WriteCheckpoint e st l)
  then show ?thesis using write_checkpoint_cases [OF wf, of en e st l] by auto
next
  case (CommitOutcome iid model status payload)
  then show ?thesis
    by (auto simp: commit_outcome_def commit_outcome_body_def transact_def insert_outcome_def Let_def
        split: sum.splits option.splits if_splits)
next
  case (CommitIssuance k payload models)
  then show ?thesis
    by (auto simp: commit_issuance_def commit_issuance_body_def transact_def insert_issuance_def Let_def
        split: sum.splits option.splits if_splits prod.splits)
next
  case (GetOrIssue k build models)
  then show ?thesis
    by (auto simp: get_or_issue_def commit_issuance_def commit_issuance_body_def transact_def insert_issuance_def Let_def
        split: sum.splits option.splits if_splits prod.splits)
qed (use assms in simp_all)

lemma receive_steps:
  assumes "(receive_step cd now)\<^sup>*\<^sup>* s s'" and "db_wf cd (st_db s)"
  shows "db_wf cd (st_db s') \<and> (\<exists>new. d_observations (st_db s') = d_observations (st_db s) @ new \<and>
     (\<forall>z \<in> set new. now < ob_received_ms z))"
  using assms(1)
proof (induction rule: rtranclp_induct)
  case (step y z)
  then obtain en x where x: "op_key_ok x" "arrives_after now x" "z = exec cd en x y" by (auto simp: receive_step_def)
  have wf: "db_wf cd (st_db y)" using step.IH by simp
  have "db_wf cd (st_db z)" using exec_step_wf [of cd y z] x wf by (auto simp: exec_step_def)
  moreover obtain new where "d_observations (st_db z) = d_observations (st_db y) @ new" "\<forall>z \<in> set new. now < ob_received_ms z"
    using exec_observations [OF wf x(1,2), of en] x(3) by auto
  ultimately show ?case using step.IH by auto
qed (use assms(2) in simp)

lemma receipts_Some:
  assumes "observations_wf (st_db s)"
  shows "receipts series lo hi s t = Some (v, ms) \<longleftrightarrow>
     (\<exists>z \<in> set (d_observations (st_db s)). ob_series z = series \<and> ob_event_time z = t \<and> lo \<le> t \<and> t \<le> hi \<and>
        ob_value z = v \<and> ob_received_ms z = ms)"
proof -
  let ?sel = "filter (\<lambda>z. ob_series z = series \<and> lo \<le> ob_event_time z \<and> ob_event_time z \<le> hi) (d_observations (st_db s))"
  have "inj_on ob_event_time (set ?sel)"
    using assms by (auto simp: observations_wf_def distinct_map inj_on_def)
  moreover have "distinct ?sel" using assms by (auto simp: observations_wf_def distinct_map)
  ultimately have "distinct (map ob_event_time ?sel)" by (simp add: distinct_map)
  then have "distinct (map fst (observations series lo hi (st_db s)))"
    unfolding observations_def by (auto simp: distinct_map inj_on_def)
  then have "receipts series lo hi s t = Some (v, ms) \<longleftrightarrow> (t, v, ms) \<in> set (observations series lo hi (st_db s))"
    by (simp add: receipts_def)
  then show ?thesis by (auto simp: observations_def image_iff)
qed

lemma receipts_later:
  assumes "later_evaluation cd sn sn'"
  shows "receipts series lo hi (fst sn) t = Some e \<Longrightarrow> receipts series lo hi (fst sn') t = Some e"
    and "receipts series lo hi (fst sn) t = None \<Longrightarrow> receipts series lo hi (fst sn') t = Some (v, ms) \<Longrightarrow> snd sn < ms"
proof -
  obtain new where wf: "observations_wf (st_db (fst sn))" "observations_wf (st_db (fst sn'))"
    and new: "d_observations (st_db (fst sn')) = d_observations (st_db (fst sn)) @ new" "\<forall>z \<in> set new. snd sn < ob_received_ms z"
    using receive_steps [of cd "snd sn" "fst sn" "fst sn'"] assms by (auto simp: later_evaluation_def db_wf_def)
  show "receipts series lo hi (fst sn) t = Some e \<Longrightarrow> receipts series lo hi (fst sn') t = Some e"
    using new(1) by (cases e) (auto simp: receipts_Some wf)
  assume none: "receipts series lo hi (fst sn) t = None" and some: "receipts series lo hi (fst sn') t = Some (v, ms)"
  then obtain z where z: "z \<in> set (d_observations (st_db (fst sn')))" "ob_series z = series" "ob_event_time z = t"
    "lo \<le> t" "t \<le> hi" "ob_value z = v" "ob_received_ms z = ms"
    by (auto simp: receipts_Some wf)
  have "z \<notin> set (d_observations (st_db (fst sn)))"
    using none z receipts_Some [OF wf(1), of series lo hi t v ms] by auto
  with z(1,7) new show "snd sn < ms" by auto
qed

interpretation jr: first_receipts "\<lambda>sn. receipts series lo hi (fst sn)" snd "later_evaluation cd"
proof unfold_locales
  fix sn sn' :: "store \<times> int"
  assume "later_evaluation cd sn sn'"
  then show "snd sn \<le> snd sn'" by (simp add: later_evaluation_def)
qed (use receipts_later in blast)+

section \<open>Properties\<close>

text \<open>A small journal for the witnesses: one issuance of one model, its outcome and a checkpoint.\<close>

definition demo_codec :: codec where
  "demo_codec = \<lparr> cd_sha = (\<lambda>_. replicate 64 CHR ''b''), cd_fmt = (\<lambda>_. ''0.0'') \<rparr>"

definition demo_env :: "int \<Rightarrow> env" where
  "demo_env now = \<lparr> en_now_ms = now, en_usage = 0, en_fault = None \<rparr>"

definition demo_key :: issuance_key where
  "demo_key = \<lparr> ik_evidence_key = replicate 64 CHR ''a'', ik_decision_origin = 600, ik_window_start = 600,
     ik_window_end = 1200, ik_settings_sha256 = replicate 64 CHR ''c'' \<rparr>"

definition demo_db :: db where
  "demo_db = fresh_db ''s'' 0 (1814400)"

definition demo_store :: store where
  "demo_store = \<lparr> st_db = demo_db, st_problem = None, st_quota_bytes = 1000000, st_retention_seconds = 604800,
     st_max_bundle_bytes = 8192 \<rparr>"

definition demo_issuance :: issuance where
  "demo_issuance = (issuance_row demo_codec (demo_env 700000) demo_db demo_key ''{}'' (JObj []) [''m''])\<lparr> is_seq := 1 \<rparr>"

definition demo_issued_store :: store where
  "demo_issued_store = demo_store\<lparr> st_db := demo_db\<lparr> d_issuances := [demo_issuance], d_issuance_seq := 1 \<rparr> \<rparr>"

lemma demo_open: "open_store (demo_env 0) None (Some ''s'') [] 1000000 604800 2419200 8192 = Inr demo_store"
  by (simp add: open_store_def demo_env_def demo_store_def demo_db_def fresh_db_def)

lemma demo_key_ok: "issuance_key_ok demo_key"
  by (simp add: issuance_key_ok_def demo_key_def sha256_match_def hex_digit_def numeral_eq_Suc)

lemma demo_encode: "encode demo_codec (JObj []) cap = (if cap < 2 then Inl (StoreError ''cap'') else Inr ''{}'')"
  by (simp add: encode_def canonical_json.simps)

lemma demo_models: "check_models [''m''] = Inr [''m'']"
  by (simp add: check_models_def MAX_MODELS_def model_match_def model_char_def less_eq_char_def)

lemma demo_commit: "commit_issuance demo_codec (demo_env 700000) demo_key (JObj []) [''m''] demo_store =
    (Inr (Some demo_issuance, True), demo_issued_store)"
proof -
  have "row_to_issuance demo_codec demo_issuance = Inr demo_issuance"
    by (simp add: row_to_issuance_def demo_issuance_def issuance_row_def demo_models demo_key_ok)
  moreover have "is_key_sha256 demo_issuance = key_sha256 demo_codec demo_key" "ik_window_end demo_key = 1200"
    by (simp_all add: demo_issuance_def issuance_row_def demo_key_def)
  moreover have "insert_issuance (issuance_row demo_codec (demo_env 700000) demo_db demo_key ''{}'' (JObj []) [''m'']) demo_db =
      Inr (st_db demo_issued_store)"
    by (simp add: insert_issuance_def demo_issued_store_def demo_store_def demo_issuance_def demo_db_def fresh_db_def
        issuance_row_def demo_key_def)
  ultimately show ?thesis
    by (simp add: commit_issuance_def demo_encode demo_models commit_issuance_body_row Let_def get_issuance_def
        require_healthy_def refuse_retired_def check_quota_def transact_def then_read_def guard_def
        demo_issued_store_def demo_store_def demo_db_def fresh_db_def demo_env_def)
qed

lemma demo_reachable: "reachable cd demo_store"
  unfolding reachable_def using demo_open by blast

lemma demo_runs: "runs demo_codec demo_store demo_issued_store"
proof -
  have "demo_issued_store = exec demo_codec (demo_env 700000) (CommitIssuance demo_key (JObj []) [''m'']) demo_store"
    using demo_commit by simp
  moreover have "op_key_ok (CommitIssuance demo_key (JObj []) [''m''])" using demo_key_ok by simp
  ultimately show ?thesis unfolding exec_step_def by blast
qed

lemma demo_issued_reachable: "reachable demo_codec demo_issued_store"
  using reachable_runs [OF demo_reachable demo_runs] .

definition demo_outcome :: outcome where
  "demo_outcome = \<lparr> oc_seq = 1, oc_issuance_id = is_id demo_issuance, oc_evidence_key = ik_evidence_key demo_key,
     oc_window_end = 1200, oc_model = ''m'', oc_status = ''scored'', oc_bytes = ''{}'', oc_payload = JObj [],
     oc_payload_sha256 = cd_sha demo_codec ''{}'', oc_committed_at_ms = 1300000 \<rparr>"

definition demo_matured_store :: store where
  "demo_matured_store = demo_issued_store\<lparr> st_db := (st_db demo_issued_store)\<lparr> d_outcomes := [demo_outcome],
     d_outcome_seq := 1 \<rparr> \<rparr>"

lemma demo_issuance_fields: "is_key demo_issuance = demo_key" "is_models demo_issuance = [''m'']"
    "row_to_issuance demo_codec demo_issuance = Inr demo_issuance" "ik_window_end demo_key = 1200"
  by (simp_all add: row_to_issuance_def demo_issuance_def issuance_row_def demo_models demo_key_ok)
    (simp add: demo_key_def)

lemma demo_mature: "commit_outcome demo_codec (demo_env 1300000) (is_id demo_issuance) ''m'' ''scored'' (JObj [])
    demo_issued_store = (Inr (demo_outcome, True), demo_matured_store)"
proof -
  have "st_db demo_issued_store = demo_db\<lparr> d_issuances := [demo_issuance], d_issuance_seq := 1 \<rparr>"
    "st_problem demo_issued_store = None" "st_quota_bytes demo_issued_store = 1000000"
    by (simp_all add: demo_issued_store_def demo_store_def)
  moreover have "row_to_outcome demo_codec demo_outcome = Inr demo_outcome"
    by (simp add: row_to_outcome_def demo_outcome_def)
  moreover have "insert_outcome (demo_outcome\<lparr> oc_seq := 0 \<rparr>) (demo_db\<lparr> d_issuances := [demo_issuance], d_issuance_seq := 1 \<rparr>) =
      Inr (st_db demo_matured_store)"
    by (simp add: insert_outcome_def demo_matured_store_def demo_issued_store_def demo_store_def demo_outcome_def
        demo_db_def fresh_db_def has_outcome_def OUTCOME_STATUSES_def)
  ultimately show ?thesis
    by (simp add: commit_outcome_def demo_encode commit_outcome_body_def Let_def get_issuance_by_id_def
        require_healthy_def check_quota_def transact_def then_read_def guard_def OUTCOME_STATUSES_def
        MAX_OUTCOME_BYTES_def find_outcome_def demo_issuance_fields demo_env_def demo_db_def fresh_db_def)
      (simp add: demo_outcome_def demo_matured_store_def)
qed

lemma demo_issuance_in: "demo_issuance \<in> set (d_issuances (st_db demo_issued_store))"
  by (simp add: demo_issued_store_def)

lemma demo_matured_step: "exec demo_codec (demo_env 1300000)
    (CommitOutcome (is_id demo_issuance) ''m'' ''scored'' (JObj [])) demo_issued_store = demo_matured_store"
  using demo_mature by simp

lemma demo_matured_reachable: "reachable demo_codec demo_matured_store"
proof -
  have "runs demo_codec demo_issued_store demo_matured_store"
    unfolding exec_step_def demo_matured_step [symmetric]
    by (intro r_into_rtranclp exI [of _ "demo_env 1300000"]
        exI [of _ "CommitOutcome (is_id demo_issuance) ''m'' ''scored'' (JObj [])"]) simp
  then show ?thesis using reachable_runs [OF demo_issued_reachable] by blast
qed

definition demo_fold :: "json \<Rightarrow> outcome \<Rightarrow> json" where
  "demo_fold st z = JObj []"

lemma demo_history: "epoch_history demo_codec (ik_evidence_key demo_key) demo_fold JNull demo_matured_store [demo_outcome]"
proof -
  have "epoch_history demo_codec (ik_evidence_key demo_key) demo_fold JNull demo_store []"
    by (rule epoch_history.opened [OF demo_open])
  from epoch_history.other [OF this, of "CommitIssuance demo_key (JObj []) [''m'']" "demo_env 700000"] demo_commit demo_key_ok
  have "epoch_history demo_codec (ik_evidence_key demo_key) demo_fold JNull demo_issued_store []"
    by (simp add: new_outcomes_def demo_issued_store_def demo_store_def demo_db_def fresh_db_def)
  from epoch_history.other [OF this, of "CommitOutcome (is_id demo_issuance) ''m'' ''scored'' (JObj [])" "demo_env 1300000",
      unfolded demo_matured_step]
  show ?thesis
    by (simp add: new_outcomes_def demo_matured_store_def demo_issued_store_def demo_store_def demo_db_def fresh_db_def
        demo_outcome_def)
qed

lemma demo_recover: "recover demo_codec (ik_evidence_key demo_key) demo_fold JNull (st_db demo_matured_store) =
    Inr (JObj [], 1, 1)"
  by (simp add: recover_def latest_checkpoint_def outcomes_after_def demo_matured_store_def demo_issued_store_def
      demo_store_def demo_db_def fresh_db_def demo_outcome_def row_to_outcome_def demo_fold_def epoch_checkpoints_def)

lemma demo_checkpoint: "\<exists>co. fst (write_checkpoint demo_codec (demo_env 1300000) (ik_evidence_key demo_key) (JObj []) 1
    demo_matured_store) = Inr co"
  by (simp add: write_checkpoint_def write_checkpoint_body_def demo_encode MAX_CHECKPOINT_BYTES_def demo_matured_store_def
      demo_issued_store_def demo_store_def demo_db_def fresh_db_def latest_checkpoint_def require_healthy_def
      check_quota_def transact_def then_read_def demo_env_def add_checkpoint_def Let_def epoch_checkpoints_def last_n_def
      CHECKPOINTS_KEPT_def)

definition demo_compacted_store :: store where
  "demo_compacted_store = demo_store\<lparr> st_db := demo_db\<lparr> d_horizon := 95200 \<rparr> \<rparr>"

lemma demo_compacted: "exec demo_codec (demo_env 700000000) (Compact 700000) demo_store = demo_compacted_store"
proof -
  have "coverage_of demo_codec 95200 demo_db = Inr []"
    by (simp add: coverage_of_def demo_db_def fresh_db_def)
  moreover have "\<exists>c. compact_tx demo_codec 95200 [] demo_db = Inr (demo_db\<lparr> d_horizon := 95200 \<rparr>, c)"
    by (simp add: compact_tx_def demo_db_def fresh_db_def)
  moreover have "d_horizon demo_db = 0" by (simp add: demo_db_def fresh_db_def)
  ultimately show ?thesis
    by (auto simp: demo_compacted_store_def demo_store_def compact_def demo_env_def guard_def
        require_healthy_def Let_def transact_def then_read_def)
qed

lemma demo_compacted_reachable: "reachable demo_codec demo_compacted_store"
proof -
  have "runs demo_codec demo_store demo_compacted_store"
    unfolding exec_step_def demo_compacted [symmetric]
    by (intro r_into_rtranclp exI [of _ "demo_env 700000000"] exI [of _ "Compact 700000"]) simp
  then show ?thesis using reachable_runs [OF demo_reachable] by blast
qed

text \<open>C4: every journal that any sequence of calls, faults and restarts can produce is well-formed: strictly increasing
  sequence numbers, unique issuance ids and keys, one outcome per issuance and model, every outcome attached to its
  issuance and committed after the window ended, valid checksums, and at most three checkpoints per epoch whose
  coverage never goes back.\<close>

theorem journal_well_formed:
  assumes "reachable cd s"
  shows "db_wf cd (st_db s)"
  using assms by (rule reachable_wf)

theorem journal_well_formed_witness: "db_wf demo_codec (st_db demo_issued_store)"
  using journal_well_formed [OF demo_issued_reachable] .

text \<open>C16: a committed issuance is never changed: whatever calls, faults and restarts follow, the journal still holds
  exactly that row, or its window lies below the retention horizon and no row carries its key again.\<close>

theorem issuance_immutable_until_retired:
  assumes "reachable cd s" and "r \<in> set (d_issuances (st_db s))" and "runs cd s s'"
  shows "r \<in> set (d_issuances (st_db s')) \<or>
     (ik_window_end (is_key r) < d_horizon (st_db s') \<and> (\<forall>r' \<in> set (d_issuances (st_db s')). is_key r' \<noteq> is_key r))"
proof -
  have wf: "db_wf cd (st_db s)" using assms(1) by (rule reachable_wf)
  then have "issuance_wf cd (st_db s) r" using assms(2) by (simp add: db_wf_def issuances_wf_def)
  from issuance_fate [OF runs_db [OF assms(3) wf] wf this assms(2)] show ?thesis
    by (simp add: retired_issuance_def)
qed

theorem issuance_immutable_until_retired_witness:
  "demo_issuance \<in> set (d_issuances (st_db (exec demo_codec (demo_env 0) (ReadFailed ''io'') demo_issued_store)))"
proof -
  have "runs demo_codec demo_issued_store (exec demo_codec (demo_env 0) (ReadFailed ''io'') demo_issued_store)"
    unfolding exec_step_def by (intro r_into_rtranclp exI [of _ "demo_env 0"] exI [of _ "ReadFailed ''io''"]) simp
  from issuance_immutable_until_retired [OF demo_issued_reachable demo_issuance_in this] show ?thesis
    by (auto simp: demo_issued_store_def demo_store_def demo_db_def fresh_db_def demo_issuance_def issuance_row_def
        demo_key_def)
qed

text \<open>C2: a retry never replaces what was answered: after a commit, any run later and as long as the key is not retired,
  a healthy journal answers the same request with the very same row and \<open>created = False\<close>, changing nothing, a
  request with other bytes or models is an IntegrityConflict, and \<open>get_or_issue\<close> returns the row without building.\<close>

theorem retry_returns_committed_issuance:
  assumes "reachable cd s" and "issuance_key_ok k"
    and "commit_issuance cd en k payload models s = (Inr (Some r, True), s1)" and "runs cd s1 s2" and "healthy s2"
    and "d_horizon (st_db s2) \<le> ik_window_end k"
  shows "commit_issuance cd en' k payload models s2 = (Inr (Some r, False), s2) \<and>
     (\<forall>payload' models' bytes ms. encode cd payload' (st_max_bundle_bytes s2) = Inr bytes \<longrightarrow>
        check_models models' = Inr ms \<longrightarrow> (bytes, ms) \<noteq> (is_bundle r, is_models r) \<longrightarrow>
        commit_issuance cd en' k payload' models' s2 = (Inl IntegrityConflict, s2)) \<and>
     (\<forall>build. get_or_issue cd en' k build models s2 = (Inr (Some r, False), s2))"
proof -
  have wf: "db_wf cd (st_db s)" using assms(1) by (rule reachable_wf)
  from commit_issuance_Inr [OF wf assms(2,3)] obtain bytes ms where r: "r \<in> set (d_issuances (st_db s1))" "is_key r = k"
    and enc: "encode cd payload (st_max_bundle_bytes s) = Inr bytes" "check_models models = Inr ms"
    and same: "is_bundle r = bytes" "is_models r = ms"
    by auto
  have run1: "runs cd s s1"
    using assms(2,3) unfolding exec_step_def
    by (intro r_into_rtranclp exI [of _ en] exI [of _ "CommitIssuance k payload models"]) simp
  have reach1: "reachable cd s1" using reachable_runs [OF assms(1) run1] .
  then have wf1: "db_wf cd (st_db s1)" by (rule reachable_wf)
  then have "issuance_wf cd (st_db s1) r" using r(1) by (simp add: db_wf_def issuances_wf_def)
  from issuance_fate [OF runs_db [OF assms(4) wf1] wf1 this r(1)] assms(6) r(2)
  have wf2: "db_wf cd (st_db s2)" and r2: "r \<in> set (d_issuances (st_db s2))"
    by (auto simp: retired_issuance_def)
  have cfg: "st_max_bundle_bytes s2 = st_max_bundle_bytes s"
    using runs_max_bundle [OF run1] runs_max_bundle [OF assms(4)] by simp
  show ?thesis
    using commit_issuance_existing [OF wf2 r2 assms(5)] get_or_issue_existing [OF wf2 r2 assms(5)] enc same cfg r(2)
    by auto
qed

theorem retry_returns_committed_issuance_witness:
  "commit_issuance demo_codec (demo_env 900000) demo_key (JObj []) [''m''] demo_issued_store =
     (Inr (Some demo_issuance, False), demo_issued_store)"
proof -
  have "healthy demo_issued_store" "d_horizon (st_db demo_issued_store) \<le> ik_window_end demo_key"
    by (simp_all add: healthy_def demo_issued_store_def demo_store_def demo_db_def fresh_db_def demo_key_def)
  with retry_returns_committed_issuance [OF demo_reachable demo_key_ok demo_commit rtranclp.rtrancl_refl]
  show ?thesis by blast
qed

text \<open>A key whose window lies below the retention horizon is retired: as long as no row carries its hash, committing it
  is refused with RetiredKey, the callback of \<open>get_or_issue\<close> is not used, and the file does
  not change.\<close>

theorem retired_key_refused:
  assumes "reachable cd s" and "healthy s" and "ik_window_end k < d_horizon (st_db s)"
    and "\<forall>r \<in> set (d_issuances (st_db s)). is_key_sha256 r \<noteq> key_sha256 cd k"
    and "encode cd payload (st_max_bundle_bytes s) = Inr bytes" and "check_models models = Inr ms"
  shows "commit_issuance cd en k payload models s = (Inl RetiredKey, s) \<and>
     get_or_issue cd en k build models s = (Inl RetiredKey, s)"
proof -
  have "List.find (\<lambda>r. is_key_sha256 r = key_sha256 cd k) (d_issuances (st_db s)) = None"
    using assms(4) by (auto simp: find_None_iff)
  then show ?thesis using assms(2,3,5,6)
    by (simp add: commit_issuance_def commit_issuance_body_row get_or_issue_def Let_def get_issuance_def
        require_healthy_def healthy_def refuse_retired_def guard_def)
qed

theorem retired_key_refused_witness:
  "commit_issuance demo_codec (demo_env 700000) demo_key (JObj []) [''m''] demo_compacted_store = (Inl RetiredKey, demo_compacted_store)"
proof -
  have "healthy demo_compacted_store" "ik_window_end demo_key < d_horizon (st_db demo_compacted_store)"
    "\<forall>r \<in> set (d_issuances (st_db demo_compacted_store)). is_key_sha256 r \<noteq> key_sha256 demo_codec demo_key"
    "encode demo_codec (JObj []) (st_max_bundle_bytes demo_compacted_store) = Inr ''{}''"
    by (simp_all add: demo_compacted_store_def healthy_def demo_store_def demo_db_def fresh_db_def demo_key_def demo_encode)
  from retired_key_refused [OF demo_compacted_reachable this demo_models] show ?thesis by simp
qed

text \<open>The outcome of an issuance and model is terminal: after its commit, any run later and as long as the window is
  not retired, a healthy journal answers the same commit with the very same row, and a commit with another status or
  other bytes is an IntegrityConflict.\<close>

theorem outcome_terminal:
  assumes "reachable cd s" and "commit_outcome cd en iid model status payload s = (Inr (z, created), s1)"
    and "runs cd s1 s2" and "healthy s2" and "d_horizon (st_db s2) \<le> oc_window_end z"
  shows "commit_outcome cd en' iid model status payload s2 = (Inr (z, False), s2) \<and>
     (\<forall>status' payload' bytes. status' \<in> set OUTCOME_STATUSES \<longrightarrow> encode cd payload' MAX_OUTCOME_BYTES = Inr bytes \<longrightarrow>
        (status', bytes) \<noteq> (oc_status z, oc_bytes z) \<longrightarrow>
        commit_outcome cd en' iid model status' payload' s2 = (Inl IntegrityConflict, s2))"
proof -
  have wf: "db_wf cd (st_db s)" using assms(1) by (rule reachable_wf)
  note z = commit_outcome_Inr [OF wf assms(2)]
  have "runs cd s s1"
    using assms(2) unfolding exec_step_def
    by (intro r_into_rtranclp exI [of _ en] exI [of _ "CommitOutcome iid model status payload"]) simp
  then have wf1: "db_wf cd (st_db s1)" using reachable_wf [OF reachable_runs [OF assms(1)]] by simp
  have z1: "z \<in> set (d_outcomes (st_db s1))" using z by simp
  from outcome_fate [OF runs_db [OF assms(3) wf1] wf1 z1] assms(5)
  have wf2: "db_wf cd (st_db s2)" and z2: "z \<in> set (d_outcomes (st_db s2))" by auto
  show ?thesis using commit_outcome_existing [OF wf2 z2 assms(4)] z by auto
qed

theorem outcome_terminal_witness:
  "commit_outcome demo_codec (demo_env 1400000) (is_id demo_issuance) ''m'' ''scored'' (JObj []) demo_matured_store =
     (Inr (demo_outcome, False), demo_matured_store) \<and>
   commit_outcome demo_codec (demo_env 1400000) (is_id demo_issuance) ''m'' ''unscorable'' (JObj []) demo_matured_store =
     (Inl IntegrityConflict, demo_matured_store)"
proof -
  have "healthy demo_matured_store" "d_horizon (st_db demo_matured_store) \<le> oc_window_end demo_outcome"
    by (simp_all add: healthy_def demo_matured_store_def demo_issued_store_def demo_store_def demo_db_def fresh_db_def
        demo_outcome_def)
  note t = outcome_terminal [OF demo_issued_reachable demo_mature rtranclp.rtrancl_refl this]
  have "''unscorable'' \<in> set OUTCOME_STATUSES" "encode demo_codec (JObj []) MAX_OUTCOME_BYTES = Inr ''{}''"
    "(''unscorable'', ''{}'') \<noteq> (oc_status demo_outcome, oc_bytes demo_outcome)"
    by (simp_all add: OUTCOME_STATUSES_def demo_encode MAX_OUTCOME_BYTES_def demo_outcome_def)
  with t [of "demo_env 1400000"] show ?thesis by blast
qed

text \<open>A journal with a latched problem refuses every write and changes nothing until the process restarts.\<close>

theorem unhealthy_until_restart:
  assumes "\<not> healthy s" and "x \<noteq> Restart"
  shows "write_result cd en x s \<noteq> None \<and> exec cd en x s = s"
  using unhealthy_refuses [OF assms] by simp

theorem unhealthy_until_restart_witness:
  "exec demo_codec (demo_env 0) (Compact 99999999) (fail ''io'' demo_issued_store) = fail ''io'' demo_issued_store"
proof -
  have "\<not> healthy (fail ''io'' demo_issued_store)" by (simp add: healthy_def fail_def)
  from unhealthy_until_restart [OF this, of "Compact 99999999"] show ?thesis by simp
qed

text \<open>An issuance commit that fails leaves the file as it was.\<close>

theorem failed_issuance_commit_is_atomic:
  assumes "reachable cd s" and "issuance_key_ok k" and "fst (commit_issuance cd en k payload models s) = Inl e"
  shows "st_db (snd (commit_issuance cd en k payload models s)) = st_db s"
  by (rule failed_commit_issuance [OF reachable_wf [OF assms(1)] assms(2,3)])

theorem failed_issuance_commit_is_atomic_witness:
  "st_db (snd (commit_issuance demo_codec ((demo_env 0)\<lparr> en_fault := Some DiskFull \<rparr>) demo_key (JObj []) [''m''] demo_store)) =
     st_db demo_store"
proof -
  have "fst (commit_issuance demo_codec ((demo_env 0)\<lparr> en_fault := Some DiskFull \<rparr>) demo_key (JObj []) [''m''] demo_store) =
      Inl (fault_error DiskFull)"
    by (simp add: commit_issuance_def demo_encode demo_models commit_issuance_body_row Let_def get_issuance_def
        require_healthy_def refuse_retired_def check_quota_def transact_def then_read_def guard_def
        demo_store_def demo_db_def fresh_db_def demo_env_def demo_key_def)
  from failed_issuance_commit_is_atomic [OF demo_reachable demo_key_ok this] show ?thesis .
qed

text \<open>C1: recovery folds every outcome exactly once: however calls, faults, restarts, compactions and checkpoints of
  recovered states interleave, recovering an epoch gives the fold of all outcomes ever committed for it, in commit
  order, including those retention has removed.\<close>

theorem recovery_folds_each_outcome_once:
  assumes "epoch_history cd ek f init s hist"
  shows "\<exists>l n. recover cd ek f init (st_db s) = Inr (foldl f init (epoch_outcomes ek hist), l, n)"
  using history_invariant [OF assms] history_recover by blast

theorem recovery_folds_each_outcome_once_witness:
  "\<exists>l n. recover demo_codec (ik_evidence_key demo_key) demo_fold JNull (st_db demo_matured_store) = Inr (JObj [], l, n)"
  using recovery_folds_each_outcome_once [OF demo_history] by (simp add: epoch_outcomes_def demo_outcome_def demo_fold_def)

text \<open>A checkpoint of the recovered state leaves nothing to replay: recovering again applies no outcome and returns the
  checkpointed state.\<close>

theorem checkpoint_then_recover_applies_nothing:
  assumes "epoch_history cd ek f init s hist" and "recover cd ek f init (st_db s) = Inr (st, l, n)"
    and "fst (write_checkpoint cd en ek st l s) = Inr co"
  shows "recover cd ek f init (st_db (snd (write_checkpoint cd en ek st l s))) = Inr (st, l, 0)"
proof -
  have wf: "db_wf cd (st_db s)" and inv: "history_inv ek f init (st_db s) hist"
    using history_invariant [OF assms(1)] by auto
  note rc = recover_covers [OF inv wf assms(2)]
  let ?s' = "exec cd en (WriteCheckpoint ek st l) s"
  have "epoch_history cd ek f init ?s' hist" using epoch_history.checkpointed [OF assms(1,2)] .
  then have wf': "db_wf cd (st_db ?s')" and inv': "history_inv ek f init (st_db ?s') hist"
    using history_invariant by auto
  have "pending_outcomes ek (st_db ?s') = [] \<and> covered_seq ek (st_db ?s') = l"
    using write_checkpoint_Inr [OF wf assms(3)] history_inv_checkpoint(2,3) [OF inv wf assms(2)] rc(5) by auto
  then have "recover cd ek f init (st_db ?s') = Inr (st, l, 0)"
    using history_recover [OF inv' wf'] rc(1) by simp
  then show ?thesis by simp
qed

theorem checkpoint_then_recover_applies_nothing_witness:
  "recover demo_codec (ik_evidence_key demo_key) demo_fold JNull (st_db (snd (write_checkpoint demo_codec
     (demo_env 1300000) (ik_evidence_key demo_key) (JObj []) 1 demo_matured_store))) = Inr (JObj [], 1, 0)"
  using checkpoint_then_recover_applies_nothing [OF demo_history demo_recover] demo_checkpoint by blast

text \<open>Compaction does not change what any fold recovers, for any epoch.\<close>

theorem compaction_keeps_recovery:
  assumes "reachable cd s"
  shows "recover cd ek f init (st_db (snd (compact cd en now_s s))) = recover cd ek f init (st_db s)"
proof -
  let ?db = "st_db s" and ?s' = "exec cd en (Compact now_s) s"
  have wf: "db_wf cd ?db" using assms by (rule reachable_wf)
  have same: "newest_checkpoint ek (st_db ?s') = newest_checkpoint ek ?db"
    by (rule exec_newest_checkpoint [OF wf]) simp
  have wf': "db_wf cd (st_db ?s')" using exec_db_step [OF wf, of "Compact now_s" en] db_step_wf wf by auto
  have cov: "covered_seq ek (st_db ?s') = covered_seq ek ?db" by (simp only: covered_seq_def same)
  have "pending_outcomes ek (st_db ?s') = pending_outcomes ek ?db"
    using compact_cases [OF wf, of en now_s] retire_pending [OF wf _ _ _ cov] by (auto simp del: exec.simps)
  then have "recover cd ek f init (st_db ?s') = recover cd ek f init ?db"
    by (simp only: recover_wf [OF wf] recover_wf [OF wf'] same cov)
  then show ?thesis by simp
qed

theorem compaction_keeps_recovery_witness:
  "recover demo_codec (ik_evidence_key demo_key) demo_fold JNull
     (st_db (snd (compact demo_codec (demo_env 0) 700000 demo_matured_store))) = Inr (JObj [], 1, 1)"
  unfolding compaction_keeps_recovery [OF demo_matured_reachable] by (rule demo_recover)

text \<open>C3: an outcome computed from the journal's first receipts is final: whatever is recorded afterwards (samples that
  arrive later, corrections, other commits, faults, restarts), the same window evaluated at any later time gives the
  same outcome, digests included.\<close>

theorem outcome_stable_in_journal:
  assumes "later_evaluation cd (s, now) (s', now')"
    and "window_outcome sha fmt targets base upper (receipts series lo hi s) now settlement grace excluded = Inr (Some p)"
  shows "window_outcome sha fmt targets base upper (receipts series lo hi s') now' settlement grace excluded = Inr (Some p)"
  using jr.outcome_stable [OF assms(1), of sha fmt targets base upper series lo hi settlement grace excluded p] assms(2) by simp

theorem outcome_stable_in_journal_witness:
  "window_outcome (\<lambda>_. ''h'') (\<lambda>_. ''0'') [600, 1200] 0 None
     (receipts ''q'' 0 1200 (exec demo_codec (demo_env 1300000)
        (RecordObservations ''q'' [(600, Fin 1, 1300000), (1200, Fin 2, 1300000)] ''m'') demo_store))
     1300000 0 60 None = Inr (Some (MissingTruth 2 2 ''h'' 600 1260000))"
proof -
  let ?x = "RecordObservations ''q'' [(600, Fin 1, 1300000), (1200, Fin 2, 1300000)] ''m''"
  have "receive_step demo_codec 1270000 demo_store (exec demo_codec (demo_env 1300000) ?x demo_store)"
    unfolding receive_step_def by (intro exI [of _ "demo_env 1300000"] exI [of _ ?x]) simp
  then have "later_evaluation demo_codec (demo_store, 1270000) (exec demo_codec (demo_env 1300000) ?x demo_store, 1300000)"
    using reachable_wf [OF demo_reachable] by (auto simp: later_evaluation_def simp del: exec.simps)
  moreover have "window_outcome (\<lambda>_. ''h'') (\<lambda>_. ''0'') [600, 1200] 0 None (receipts ''q'' 0 1200 demo_store)
      1270000 0 60 None = Inr (Some (MissingTruth 2 2 ''h'' 600 1260000))"
    by (simp add: window_outcome_Missing_iff check_window_def target_steps_def excluded_targets_def truth_deadline_ms_def
        missing_targets_def admitted_def receipts_def observations_def demo_store_def demo_db_def fresh_db_def
        targets_sha256_def)
  ultimately show ?thesis by (rule outcome_stable_in_journal)
qed

end
