(* ===== verification/Kernels.thy ===== *)
theory Kernels
  imports Py_Json
begin

text \<open>
  The statistical kernels of \<^verbatim>\<open>forecasting/statistical.py\<close>: daily seasonal-naive and E1-product (Holt-Winters
  averaged with a profile and an AR recursion). A series holds one rate per grid slot, \<open>NaN\<close> where nothing was
  observed. NumPy and SciPy are not part of the sources: the record \<open>numlib\<close> holds the routines the code calls (means,
  least squares, polynomial roots, the optimizer, the bytes of an array) and every definition that uses one takes it as
  an argument. Intervals are positive (\<open>KernelSettings\<close> is built from an admitted cadence).
\<close>

section \<open>Python and NumPy\<close>

text \<open>\<open>range(lo, hi + 1, step)\<close> for a positive step.\<close>

definition grid_range :: "int \<Rightarrow> int \<Rightarrow> int \<Rightarrow> int list" where
  "grid_range lo hi step = map (\<lambda>k. lo + k * step) [0..(hi - lo) div step]"

text \<open>\<open>xs[a:b]\<close>, negative bounds counted from the end.\<close>

definition slice_bound :: "int \<Rightarrow> int \<Rightarrow> nat" where
  "slice_bound n i = nat (if i < 0 then max 0 (i + n) else min i n)"

definition py_slice :: "'a list \<Rightarrow> int \<Rightarrow> int \<Rightarrow> 'a list" where
  "py_slice xs a b =
     (let lo = slice_bound (int (length xs)) a; hi = slice_bound (int (length xs)) b in take (hi - lo) (drop lo xs))"

text \<open>\<open>sum\<close> of floats in CPython 3.12: compensated summation, the correction added at the end when it is finite.\<close>

fun py_sum_loop :: "pyfloat list \<Rightarrow> pyfloat \<Rightarrow> pyfloat \<Rightarrow> pyfloat \<times> pyfloat" where
  "py_sum_loop [] acc corr = (acc, corr)"
| "py_sum_loop (x # xs) acc corr =
     (let t = acc + x;
          d = (if \<bar>x\<bar> \<le> \<bar>acc\<bar> then (acc - t) + x else (x - t) + acc)
      in py_sum_loop xs t (corr + d))"

definition py_sum :: "pyfloat list \<Rightarrow> pyfloat" where
  "py_sum xs = (case xs of
      [] \<Rightarrow> Fin 0
    | x # rest \<Rightarrow> (case py_sum_loop rest x (Fin 0) of
        (acc, corr) \<Rightarrow> if corr \<noteq> Fin 0 \<and> is_finite corr then acc + corr else acc))"

record min_result =
  mr_success :: bool
  mr_fun :: pyfloat
  mr_x :: "pyfloat list"

record numlib =
  np_mean :: "pyfloat list \<Rightarrow> pyfloat"
  np_nanmean :: "pyfloat list \<Rightarrow> pyfloat"
  np_clip01 :: "pyfloat \<Rightarrow> pyfloat"
  np_line :: "pyfloat list \<Rightarrow> pyfloat \<times> pyfloat"                     \<comment> \<open>\<open>pinv\<close> of the line through ten points, applied\<close>
  np_lstsq :: "pyfloat list list \<Rightarrow> pyfloat list \<Rightarrow> pyfloat list"
  np_root_moduli :: "pyfloat list \<Rightarrow> pyfloat list"                   \<comment> \<open>\<open>abs(np.roots(p))\<close>\<close>
  np_minimize :: "(pyfloat list \<Rightarrow> pyfloat) \<Rightarrow> pyfloat list \<Rightarrow> int \<Rightarrow> min_result"
  np_bytes :: "pyfloat list \<Rightarrow> string"

section \<open>Settings and series\<close>

datatype kernel_error = KernelUnavailable string | KernelValueError | KernelIndexError | KernelZeroDivision

abbreviation "history_missing \<equiv> KernelUnavailable ''history''"
abbreviation "not_numeric \<equiv> KernelUnavailable ''numeric''"

definition FAILURE_REASONS :: "string list" where
  "FAILURE_REASONS = [''history'', ''numeric'', ''timeout'', ''resource'', ''storage'']"

definition DAY_S :: int where "DAY_S = 86400"
definition RECIPE_NAIVE :: string where "RECIPE_NAIVE = ''seasonal-naive/daily/v1''"
definition RECIPE_E1 :: string where "RECIPE_E1 = ''e1-product/v1''"

definition HW_STARTS :: "(pyfloat \<times> pyfloat \<times> pyfloat) list" where
  "HW_STARTS =
     [(round64 (3/10), round64 (1/10), round64 (1/10)), (round64 (1/10), round64 (1/100), round64 (5/100)),
      (round64 (6/10), round64 (5/100), round64 (3/10))]"

definition AR_MAX_ROOT :: pyfloat where "AR_MAX_ROOT = round64 (999/1000)"

record kernel_settings =
  ks_interval_seconds :: int
  ks_season_seconds :: int
  ks_profile_days :: int
  ks_profile_min_support :: int
  ks_ar_order :: int
  ks_ar_window_days :: int
  ks_ar_min_rows :: int
  ks_ar_min_span_seconds :: int
  ks_hw_min_days :: int
  ks_hw_max_days :: int
  ks_hw_weight :: pyfloat
  ks_min_history_days :: int
  ks_min_observed_fraction :: pyfloat
  ks_hw_maxiter :: int

definition check_kernel_settings :: "kernel_settings \<Rightarrow> kernel_error + kernel_settings" where
  "check_kernel_settings ks =
     (if ks_interval_seconds ks = 0 then Inl KernelZeroDivision
      else if ks_season_seconds ks mod ks_interval_seconds ks \<noteq> 0 then Inl KernelValueError
      else Inr ks)"

definition default_kernel :: "int \<Rightarrow> kernel_error + kernel_settings" where
  "default_kernel interval =
     check_kernel_settings
       \<lparr> ks_interval_seconds = interval, ks_season_seconds = DAY_S, ks_profile_days = 7, ks_profile_min_support = 3,
         ks_ar_order = 3, ks_ar_window_days = 7, ks_ar_min_rows = 36, ks_ar_min_span_seconds = 6 * 3600,
         ks_hw_min_days = 2, ks_hw_max_days = 14, ks_hw_weight = round64 (1/2), ks_min_history_days = 7,
         ks_min_observed_fraction = round64 (95/100), ks_hw_maxiter = 200 \<rparr>"

definition ks_m :: "kernel_settings \<Rightarrow> int" where
  "ks_m ks = ks_season_seconds ks div ks_interval_seconds ks"

record series =
  sr_start :: int
  sr_interval :: int
  sr_values :: "pyfloat list"

definition rate_or_nan :: "pyfloat \<Rightarrow> bool" where
  "rate_or_nan v = (case v of Fin a \<Rightarrow> 0 \<le> a | NaN \<Rightarrow> True | _ \<Rightarrow> False)"

definition make_series :: "int \<Rightarrow> int \<Rightarrow> pyfloat list \<Rightarrow> kernel_error + series" where
  "make_series start interval values =
     (if list_all rate_or_nan values then Inr \<lparr> sr_start = start, sr_interval = interval, sr_values = values \<rparr>
      else Inl KernelValueError)"

fun put_points :: "int \<Rightarrow> int \<Rightarrow> int \<Rightarrow> (int \<times> pyfloat) list \<Rightarrow> pyfloat list \<Rightarrow> kernel_error + pyfloat list" where
  "put_points interval start end_t [] vs = Inr vs"
| "put_points interval start end_t ((t, x) # ps) vs =
     (if (t - start) mod interval \<noteq> 0 \<or> \<not> (start \<le> t \<and> t \<le> end_t) then Inl KernelValueError
      else put_points interval start end_t ps (vs[nat ((t - start) div interval) := x]))"

definition series_from_points :: "(int \<times> pyfloat) list \<Rightarrow> int \<Rightarrow> int \<Rightarrow> int \<Rightarrow> kernel_error + series" where
  "series_from_points points interval start end_t =
     (if (end_t - start) div interval + 1 < 0 then Inl KernelValueError
      else bind_res (put_points interval start end_t points (replicate (nat ((end_t - start) div interval + 1)) NaN))
        (make_series start interval))"

definition series_end :: "series \<Rightarrow> int" where
  "series_end s = sr_start s + (int (length (sr_values s)) - 1) * sr_interval s"

definition series_index :: "series \<Rightarrow> int \<Rightarrow> kernel_error + int" where
  "series_index s t =
     (if (t - sr_start s) mod sr_interval s \<noteq> 0 then Inl KernelValueError
      else Inr ((t - sr_start s) div sr_interval s))"

definition series_at :: "series \<Rightarrow> int \<Rightarrow> pyfloat" where
  "series_at s t =
     (let i = (t - sr_start s) div sr_interval s in
      if (t - sr_start s) mod sr_interval s = 0 \<and> 0 \<le> i \<and> i < int (length (sr_values s)) then sr_values s ! nat i
      else NaN)"

definition latest_observed :: "series \<Rightarrow> int option" where
  "latest_observed s =
     (case filter (\<lambda>i. is_finite (sr_values s ! i)) [0..<length (sr_values s)] of
        [] \<Rightarrow> None
      | idx \<Rightarrow> Some (sr_start s + int (last idx) * sr_interval s))"

definition series_digest :: "(string \<Rightarrow> string) \<Rightarrow> numlib \<Rightarrow> series \<Rightarrow> int \<Rightarrow> int \<Rightarrow> kernel_error + string" where
  "series_digest sha np s lo hi =
     bind_res (series_index s lo) (\<lambda>a. bind_res (series_index s hi) (\<lambda>b.
       Inr (sha (''series|'' @ show_int (sr_interval s) @ ''|'' @ show_int lo @ ''|'' @ show_int hi @ ''|'' @
                 np_bytes np (py_slice (sr_values s) a (b + 1))))))"

section \<open>Seasonal-naive\<close>

definition naive_point :: "series \<Rightarrow> int \<Rightarrow> kernel_settings \<Rightarrow> int \<Rightarrow> kernel_error + pyfloat" where
  "naive_point s input_end ks target =
     (let lag = target - ks_season_seconds ks; v = series_at s lag in
      if lag > input_end \<or> \<not> is_finite v then Inl history_missing else Inr v)"

definition seasonal_naive :: "series \<Rightarrow> int \<Rightarrow> int list \<Rightarrow> kernel_settings \<Rightarrow> kernel_error + pyfloat list" where
  "seasonal_naive s input_end targets ks = map_res (naive_point s input_end ks) targets"

section \<open>Holt-Winters\<close>

fun running_sums :: "pyfloat \<Rightarrow> pyfloat list \<Rightarrow> pyfloat list" where
  "running_sums c [] = [c]"
| "running_sums c (x # xs) = c # running_sums (c + x) xs"

definition float_ceil :: "pyfloat \<Rightarrow> int" where
  "float_ceil v = (case v of Fin a \<Rightarrow> \<lceil>a\<rceil> | _ \<Rightarrow> 0)"

text \<open>The centred moving average over \<open>m\<close> slots, and for an even \<open>m\<close> the mean of adjacent ones.\<close>

definition centred_mean :: "pyfloat list \<Rightarrow> int \<Rightarrow> pyfloat list" where
  "centred_mean x m =
     (let c = running_sums (Fin 0) x; n = int (length x) in
      map (\<lambda>i. let lo = i - m div 2 in
             if 0 \<le> lo \<and> lo + m \<le> n then fdiv (c ! nat (lo + m) - c ! nat lo) (float_of_int m) else NaN) [0..n - 1])"

definition centred_trend :: "pyfloat list \<Rightarrow> int \<Rightarrow> pyfloat list" where
  "centred_trend x m =
     (let t = centred_mean x m in
      if m mod 2 = 0
      then map2 (\<lambda>a b. fdiv (a + b) (Fin 2)) t (tl t) @ (if t = [] then [] else [NaN])
      else t)"

definition season_columns :: "pyfloat list \<Rightarrow> int \<Rightarrow> int \<Rightarrow> pyfloat list list" where
  "season_columns d k m =
     map (\<lambda>j. map (\<lambda>i. if i * m + j < int (length d) then d ! nat (i * m + j) else NaN) [0..k - 1]) [0..m - 1]"

definition heuristic_init :: "numlib \<Rightarrow> pyfloat list \<Rightarrow> int \<Rightarrow> kernel_error + pyfloat \<times> pyfloat \<times> pyfloat list" where
  "heuristic_init np y m =
     (let n = int (length y) in
      if n < 2 * m then Inl history_missing
      else if m = 0 then Inl KernelZeroDivision
      else
        let min_obs = 10 + 2 * (m div 2);
            k = max (min 5 (n div m)) (float_ceil (int_div min_obs m));
            x = py_slice y 0 (m * k);
            t = centred_trend x m;
            seasonal = map (np_nanmean np) (season_columns (map2 (-) x t) k m);
            mean = np_mean np seasonal;
            level_input = take 10 (filter is_finite t)
        in if length level_input < 10 then Inl KernelValueError
           else case np_line np level_input of (c0, c1) \<Rightarrow> Inr (c0, c1, map (\<lambda>v. v - mean) seasonal))"

record hw_loop_state =
  hl_sse :: pyfloat
  hl_level :: pyfloat
  hl_trend :: pyfloat
  hl_season :: "pyfloat list"
  hl_pos :: nat

definition hw_step :: "pyfloat \<Rightarrow> pyfloat \<Rightarrow> pyfloat \<Rightarrow> pyfloat \<Rightarrow> hw_loop_state \<Rightarrow> hw_loop_state" where
  "hw_step alpha beta gamma obs st =
     (let lv = hl_level st; b = hl_trend st; pos = hl_pos st; sp = hl_season st ! pos;
          err = obs - (lv + b + sp);
          l_new = alpha * (obs - sp) + (1 - alpha) * (lv + b);
          b_new = beta * (l_new - lv) + (1 - beta) * b
      in \<lparr> hl_sse = hl_sse st + err * err, hl_level = l_new, hl_trend = b_new,
           hl_season = (hl_season st)[pos := gamma * (obs - lv - b) + (1 - gamma) * sp],
           hl_pos = (if pos + 1 = length (hl_season st) then 0 else pos + 1) \<rparr>)"

definition hw_loop :: "pyfloat list \<Rightarrow> pyfloat \<Rightarrow> pyfloat \<Rightarrow> pyfloat \<Rightarrow> pyfloat \<Rightarrow> pyfloat \<Rightarrow> pyfloat list \<Rightarrow> hw_loop_state" where
  "hw_loop y alpha beta gamma level trend season =
     fold (hw_step alpha beta gamma) y
       \<lparr> hl_sse = Fin 0, hl_level = level, hl_trend = trend, hl_season = season, hl_pos = 0 \<rparr>"

definition rolled :: "hw_loop_state \<Rightarrow> pyfloat list" where
  "rolled st = drop (hl_pos st) (hl_season st) @ take (hl_pos st) (hl_season st)"

definition hw_run ::
  "pyfloat list \<Rightarrow> pyfloat \<Rightarrow> pyfloat \<Rightarrow> pyfloat \<Rightarrow> pyfloat \<Rightarrow> pyfloat \<Rightarrow> pyfloat list \<Rightarrow>
   kernel_error + pyfloat \<times> pyfloat \<times> pyfloat \<times> pyfloat list" where
  "hw_run y alpha beta gamma level trend season =
     (if season = [] \<and> y \<noteq> [] then Inl KernelIndexError
      else let st = hw_loop y alpha beta gamma level trend season
           in Inr (hl_sse st, hl_level st, hl_trend st, rolled st))"

definition hw_params :: "numlib \<Rightarrow> pyfloat list \<Rightarrow> pyfloat \<times> pyfloat \<times> pyfloat" where
  "hw_params np x =
     (let a = np_clip01 np (x ! 0) in (a, np_clip01 np (x ! 1) * a, np_clip01 np (x ! 2) * (1 - a)))"

record hw_state =
  hw_alpha :: pyfloat
  hw_beta :: pyfloat
  hw_gamma :: pyfloat
  hw_level :: pyfloat
  hw_trend :: pyfloat
  hw_season :: "pyfloat list"
  hw_sse :: pyfloat
  hw_n_train :: int
  hw_segment_start :: int

definition hw_objective :: "numlib \<Rightarrow> pyfloat list \<Rightarrow> pyfloat \<Rightarrow> pyfloat \<Rightarrow> pyfloat list \<Rightarrow> pyfloat list \<Rightarrow> pyfloat" where
  "hw_objective np obs level0 trend0 season0 x =
     (case hw_params np x of (al, be, ga) \<Rightarrow> hl_sse (hw_loop obs al be ga level0 trend0 season0))"

definition try_start ::
  "numlib \<Rightarrow> (pyfloat list \<Rightarrow> pyfloat) \<Rightarrow> int \<Rightarrow> pyfloat \<times> pyfloat \<times> pyfloat \<Rightarrow> min_result option \<Rightarrow> min_result option" where
  "try_start np objective maxiter start best =
     (case start of (a, b, g) \<Rightarrow>
        let x0 = [a, (if Fin 0 < a then fdiv b a else Fin 0), fdiv g (1 - a)];
            res = np_minimize np objective x0 maxiter
        in if \<not> mr_success res \<or> \<not> is_finite (mr_fun res) then best
           else case best of
                  None \<Rightarrow> Some res
                | Some r \<Rightarrow> if mr_fun res < mr_fun r then Some res else best)"

definition fit_hw :: "numlib \<Rightarrow> pyfloat list \<Rightarrow> int \<Rightarrow> int \<Rightarrow> int \<Rightarrow> kernel_error + hw_state" where
  "fit_hw np y m segment_start maxiter =
     (if \<not> list_all is_finite y then Inl history_missing
      else bind_res (heuristic_init np y m) (\<lambda>(level0, trend0, season0).
        case fold (try_start np (hw_objective np y level0 trend0 season0) maxiter) HW_STARTS None of
          None \<Rightarrow> Inl not_numeric
        | Some best \<Rightarrow>
            (case hw_params np (mr_x best) of (al, be, ga) \<Rightarrow>
               bind_res (hw_run y al be ga level0 trend0 season0) (\<lambda>(sse, level, trend, season).
                 if \<not> list_all is_finite (sse # level # trend # season) then Inl not_numeric
                 else Inr \<lparr> hw_alpha = al, hw_beta = be, hw_gamma = ga, hw_level = level, hw_trend = trend,
                            hw_season = season, hw_sse = sse, hw_n_train = int (length y),
                            hw_segment_start = segment_start \<rparr>))))"

section \<open>Profile and AR\<close>

definition profile :: "numlib \<Rightarrow> series \<Rightarrow> int \<Rightarrow> kernel_settings \<Rightarrow> pyfloat" where
  "profile np s t ks =
     (let vals = filter is_finite (map (\<lambda>d. series_at s (t - d * ks_season_seconds ks)) [1..ks_profile_days ks])
      in if int (length vals) \<ge> ks_profile_min_support ks then np_mean np vals else NaN)"

definition residual :: "numlib \<Rightarrow> series \<Rightarrow> int \<Rightarrow> kernel_settings \<Rightarrow> pyfloat" where
  "residual np s t ks =
     (let y = series_at s t; p = profile np s t ks in if is_finite y \<and> is_finite p then y - p else NaN)"

definition ar_roots_max :: "numlib \<Rightarrow> pyfloat list \<Rightarrow> pyfloat" where
  "ar_roots_max np coef =
     (let phi = tl coef in
      if list_all (\<lambda>c. c = Fin 0) phi then Fin 0 else py_max_list (np_root_moduli np (Fin 1 # map uminus phi)))"

definition ar_row :: "numlib \<Rightarrow> series \<Rightarrow> kernel_settings \<Rightarrow> int \<Rightarrow> int \<times> pyfloat \<times> pyfloat list" where
  "ar_row np s ks t =
     (t, residual np s t ks, map (\<lambda>k. residual np s (t - k * ks_interval_seconds ks) ks) [1..ks_ar_order ks])"

definition ar_rows :: "numlib \<Rightarrow> series \<Rightarrow> int \<Rightarrow> kernel_settings \<Rightarrow> (int \<times> pyfloat \<times> pyfloat list) list" where
  "ar_rows np s cutoff ks =
     (let p = ks_ar_order ks; dt = ks_interval_seconds ks;
          first = max (sr_start s + p * dt) (cutoff - ks_ar_window_days ks * DAY_S + dt + p * dt)
      in filter (\<lambda>(t, r, lags). is_finite r \<and> list_all is_finite lags)
           (map (ar_row np s ks) (grid_range first cutoff dt)))"

definition fit_ar :: "numlib \<Rightarrow> series \<Rightarrow> int \<Rightarrow> kernel_settings \<Rightarrow> kernel_error + pyfloat list \<times> int" where
  "fit_ar np s cutoff ks =
     (let rows = ar_rows np s cutoff ks; times = map fst rows in
      if int (length rows) < ks_ar_min_rows ks then Inl history_missing
      else if rows = [] then Inl KernelIndexError
      else if last times - hd times < ks_ar_min_span_seconds ks then Inl history_missing
      else
        let coef = np_lstsq np (map (\<lambda>(t, r, lags). Fin 1 # lags) rows) (map (\<lambda>(t, r, lags). r) rows)
        in if \<not> list_all is_finite coef then Inl not_numeric
           else if \<not> ar_roots_max np coef < AR_MAX_ROOT then Inl not_numeric
           else Inr (coef, int (length rows)))"

section \<open>E1-product\<close>

record e1_fit =
  ef_cutoff :: int
  ef_interval_seconds :: int
  ef_hw :: hw_state
  ef_ar_coef :: "pyfloat list"
  ef_ar_rows :: int
  ef_input_lo :: int
  ef_input_sha256 :: string
  ef_settings :: kernel_settings

fun segment_index :: "pyfloat list \<Rightarrow> int \<Rightarrow> int \<Rightarrow> nat \<Rightarrow> nat" where
  "segment_index vs i max_slots 0 = 0"
| "segment_index vs i max_slots (Suc j) =
     (if i - int j < max_slots \<and> is_finite (vs ! j) then segment_index vs i max_slots j else Suc j)"

definition complete_segment_start :: "series \<Rightarrow> int \<Rightarrow> int \<Rightarrow> kernel_error + int" where
  "complete_segment_start s cutoff max_slots =
     bind_res (series_index s cutoff) (\<lambda>i.
       if \<not> (0 \<le> i \<and> i < int (length (sr_values s))) then Inl KernelIndexError
       else let j = segment_index (sr_values s) i max_slots (nat i) in
            if \<not> is_finite (sr_values s ! nat i) then Inl history_missing
            else Inr (sr_start s + int j * sr_interval s))"

definition series_slice :: "series \<Rightarrow> int \<Rightarrow> int \<Rightarrow> kernel_error + pyfloat list" where
  "series_slice s lo hi =
     bind_res (series_index s lo) (\<lambda>a. bind_res (series_index s hi) (\<lambda>b. Inr (py_slice (sr_values s) a (b + 1))))"

definition fit_e1 :: "(string \<Rightarrow> string) \<Rightarrow> numlib \<Rightarrow> series \<Rightarrow> int \<Rightarrow> kernel_settings \<Rightarrow> kernel_error + e1_fit" where
  "fit_e1 sha np s cutoff ks =
     (let dt = ks_interval_seconds ks; m = ks_m ks in
      if sr_interval s \<noteq> dt \<or> cutoff mod dt \<noteq> 0 \<or> \<not> (sr_start s \<le> cutoff \<and> cutoff \<le> series_end s)
        then Inl history_missing
      else if cutoff - sr_start s + dt < ks_min_history_days ks * DAY_S then Inl history_missing
      else
        let w_lo = cutoff - ks_ar_window_days ks * DAY_S + dt in
        bind_res (series_slice s w_lo cutoff) (\<lambda>window.
        if np_mean np (map (\<lambda>v. if is_finite v then Fin 1 else Fin 0) window) < ks_min_observed_fraction ks
          then Inl history_missing
        else bind_res (complete_segment_start s cutoff (ks_hw_max_days ks * m)) (\<lambda>seg_lo.
        if (cutoff - seg_lo) div dt + 1 < ks_hw_min_days ks * m then Inl history_missing
        else bind_res (series_slice s seg_lo cutoff) (\<lambda>seg.
        bind_res (fit_hw np seg m seg_lo (ks_hw_maxiter ks)) (\<lambda>hw.
        bind_res (fit_ar np s cutoff ks) (\<lambda>(coef, rows).
          let lo = max (sr_start s) (min seg_lo (w_lo - ks_profile_days ks * DAY_S - ks_ar_order ks * dt)) in
          bind_res (series_digest sha np s lo cutoff) (\<lambda>digest.
            Inr \<lparr> ef_cutoff = cutoff, ef_interval_seconds = dt, ef_hw = hw, ef_ar_coef = coef, ef_ar_rows = rows,
                  ef_input_lo = lo, ef_input_sha256 = digest, ef_settings = ks \<rparr>)))))))"

text \<open>One step of the AR recursion on the newest residuals (newest first).\<close>

definition ar_next :: "pyfloat list \<Rightarrow> int \<Rightarrow> pyfloat list \<Rightarrow> pyfloat" where
  "ar_next c p hist = c ! 0 + py_sum (map (\<lambda>j. c ! nat (j + 1) * hist ! nat j) [0..p - 1])"

fun ar_forecast :: "pyfloat list \<Rightarrow> int \<Rightarrow> pyfloat list \<Rightarrow> nat \<Rightarrow> pyfloat list" where
  "ar_forecast c p hist 0 = []"
| "ar_forecast c p hist (Suc n) = (let nxt = ar_next c p hist in nxt # ar_forecast c p (nxt # butlast hist) n)"

record e1_forecast =
  fc_hw :: "pyfloat list"
  fc_profile_ar :: "pyfloat list"
  fc_points :: "pyfloat list"

definition profile_ar_point ::
  "numlib \<Rightarrow> series \<Rightarrow> kernel_settings \<Rightarrow> pyfloat list \<Rightarrow> int \<times> int \<Rightarrow> kernel_error + pyfloat" where
  "profile_ar_point np s ks ar tk =
     (case tk of (target, k) \<Rightarrow>
        let p = profile np s target ks in
        if \<not> is_finite p then Inl history_missing else Inr (p + ar ! nat (k - 1)))"

definition blend :: "kernel_settings \<Rightarrow> pyfloat \<Rightarrow> pyfloat \<Rightarrow> pyfloat" where
  "blend ks a b = py_max (Fin 0) (ks_hw_weight ks * a + (1 - ks_hw_weight ks) * b)"

definition forecast_e1 ::
  "numlib \<Rightarrow> e1_fit \<Rightarrow> series \<Rightarrow> int \<Rightarrow> int list \<Rightarrow> kernel_settings \<Rightarrow> kernel_error + e1_forecast" where
  "forecast_e1 np fit s input_end targets ks =
     (let dt = ks_interval_seconds ks; m = ks_m ks; h = ef_hw fit; c = ef_ar_coef fit; p = ks_ar_order ks in
      if ef_interval_seconds fit \<noteq> dt \<or> input_end < ef_cutoff fit \<or> (input_end - ef_cutoff fit) mod dt \<noteq> 0
        then Inl history_missing
      else if list_ex (\<lambda>t. t \<le> input_end \<or> (t - input_end) mod dt \<noteq> 0) targets then Inl history_missing
      else if list_ex (\<lambda>t. t - input_end > ks_season_seconds ks) targets then Inl history_missing
      else
        let since = map (series_at s) (grid_range (ef_cutoff fit + dt) input_end dt) in
        if \<not> list_all is_finite since \<or> \<not> is_finite (series_at s input_end) then Inl history_missing
        else bind_res (hw_run since (hw_alpha h) (hw_beta h) (hw_gamma h) (hw_level h) (hw_trend h) (hw_season h))
          (\<lambda>(sse, level, trend, season).
          let steps = map (\<lambda>t. (t - input_end) div dt) targets in
          if list_ex (\<lambda>k. int (length season) \<le> (k - 1) mod m) steps then Inl KernelIndexError
          else
            let hw = map (\<lambda>k. level + float_of_int k * trend + season ! nat ((k - 1) mod m)) steps;
                hist = map (\<lambda>k. residual np s (input_end - k * dt) ks) [0..p - 1]
            in if \<not> list_all is_finite hist then Inl history_missing
               else if targets = [] then Inl KernelValueError
               else if int (length c) \<le> p then Inl KernelIndexError
               else
                 let ar = ar_forecast c p hist (nat (Max (set steps))) in
                 bind_res (map_res (profile_ar_point np s ks ar) (zip targets steps)) (\<lambda>pa.
                   let points = map2 (blend ks) hw pa in
                   if \<not> list_all is_finite (hw @ pa @ points) then Inl not_numeric
                   else Inr \<lparr> fc_hw = hw, fc_profile_ar = pa, fc_points = points \<rparr>)))"

section \<open>Shadow candidates\<close>

datatype shadow_entry = NaivePoints string "pyfloat list" | E1Points string e1_forecast | ShadowUnavailable string string

text \<open>\<open>except KernelUnavailable\<close>: any other exception escapes.\<close>

definition shadow_of :: "string \<Rightarrow> ('a \<Rightarrow> shadow_entry) \<Rightarrow> kernel_error + 'a \<Rightarrow> kernel_error + shadow_entry" where
  "shadow_of recipe entry r =
     (case r of
        Inr v \<Rightarrow> Inr (entry v)
      | Inl (KernelUnavailable reason) \<Rightarrow> Inr (ShadowUnavailable recipe reason)
      | Inl e \<Rightarrow> Inl e)"

definition shadow_candidates ::
  "numlib \<Rightarrow> series \<Rightarrow> int \<Rightarrow> int list \<Rightarrow> kernel_settings \<Rightarrow> e1_fit option \<Rightarrow> kernel_error + (string \<times> shadow_entry) list" where
  "shadow_candidates np s input_end targets ks fit =
     bind_res (shadow_of RECIPE_NAIVE (NaivePoints RECIPE_NAIVE) (seasonal_naive s input_end targets ks)) (\<lambda>naive.
     bind_res (case fit of
                 None \<Rightarrow> Inr (ShadowUnavailable RECIPE_E1 ''history'')
               | Some f \<Rightarrow> shadow_of RECIPE_E1 (E1Points RECIPE_E1) (forecast_e1 np f s input_end targets ks))
       (\<lambda>stat. Inr [(''seasonal_naive'', naive), (''statistical'', stat)]))"

section \<open>Series that agree up to a time\<close>

text \<open>Two series on the same grid that hold the same values at every time up to \<open>t\<close>, and may differ after it.\<close>

definition same_until :: "int \<Rightarrow> series \<Rightarrow> series \<Rightarrow> bool" where
  "same_until t s s' \<longleftrightarrow> sr_start s = sr_start s' \<and> sr_interval s = sr_interval s' \<and> 0 < sr_interval s \<and>
     (\<forall>u \<le> t. series_at s u = series_at s' u)"

lemma same_until_at: "same_until t s s' \<Longrightarrow> u \<le> t \<Longrightarrow> series_at s u = series_at s' u"
  by (simp add: same_until_def)

lemma same_until_grid: "same_until t s s' \<Longrightarrow> sr_start s' = sr_start s \<and> sr_interval s' = sr_interval s"
  by (simp add: same_until_def)

lemma profile_same:
  assumes "same_until t s s'" and "0 \<le> ks_season_seconds ks" and "u - ks_season_seconds ks \<le> t"
  shows "profile np s u ks = profile np s' u ks"
proof -
  have "series_at s (u - d * ks_season_seconds ks) = series_at s' (u - d * ks_season_seconds ks)" if "1 \<le> d" for d
  proof (rule same_until_at [OF assms(1)])
    have "ks_season_seconds ks \<le> d * ks_season_seconds ks"
      using mult_right_mono [OF that assms(2)] by simp
    then show "u - d * ks_season_seconds ks \<le> t" using assms(3) by linarith
  qed
  then have "map (\<lambda>d. series_at s (u - d * ks_season_seconds ks)) [1..ks_profile_days ks] =
      map (\<lambda>d. series_at s' (u - d * ks_season_seconds ks)) [1..ks_profile_days ks]" by simp
  then show ?thesis by (simp only: profile_def)
qed

lemma residual_same:
  assumes "same_until t s s'" and "0 \<le> ks_season_seconds ks" and "u \<le> t"
  shows "residual np s u ks = residual np s' u ks"
proof -
  have "profile np s u ks = profile np s' u ks"
    using profile_same [OF assms(1,2)] assms(2,3) by (metis add_increasing diff_le_eq le_add_same_cancel1 order_trans)
  then show ?thesis using same_until_at [OF assms(1,3)] by (simp only: residual_def)
qed

lemma grid_range_le: "0 < step \<Longrightarrow> t \<in> set (grid_range lo hi step) \<Longrightarrow> lo \<le> t \<and> t \<le> hi"
proof -
  assume step: "0 < step" and "t \<in> set (grid_range lo hi step)"
  then obtain k where k: "t = lo + k * step" "0 \<le> k" "k \<le> (hi - lo) div step" by (auto simp: grid_range_def)
  have "k * step \<le> (hi - lo) div step * step" using k(3) step by (intro mult_right_mono) auto
  also have "\<dots> \<le> hi - lo" using step minus_mod_eq_div_mult [of "hi - lo" step] pos_mod_sign [OF step, of "hi - lo"] by linarith
  finally show ?thesis using k step by simp
qed

lemma series_at_nth:
  assumes "0 < sr_interval s" and "i < length (sr_values s)"
  shows "series_at s (sr_start s + int i * sr_interval s) = sr_values s ! i"
  using assms by (simp add: series_at_def)

text \<open>The stored values up to the index of a time both series contain are the same.\<close>

lemma same_until_take:
  assumes "same_until t s s'" and "n \<le> length (sr_values s)" and "n \<le> length (sr_values s')"
    and "sr_start s + (int n - 1) * sr_interval s \<le> t"
  shows "take n (sr_values s) = take n (sr_values s')"
proof (rule nth_equalityI)
  have pos: "0 < sr_interval s" using assms(1) by (simp add: same_until_def)
  fix i assume "i < length (take n (sr_values s))"
  then have i: "i < n" by simp
  have "int i * sr_interval s \<le> (int n - 1) * sr_interval s" using i pos by (intro mult_right_mono) auto
  then have "sr_start s + int i * sr_interval s \<le> t" using assms(4) by linarith
  from same_until_at [OF assms(1) this] same_until_grid [OF assms(1)] i assms(2,3) pos
  show "take n (sr_values s) ! i = take n (sr_values s') ! i"
    by (metis nth_take order_less_le_trans series_at_nth)
qed (use assms in simp)

lemma py_slice_take:
  assumes "0 \<le> a" and "0 \<le> b" and "b \<le> int (length xs)"
  shows "py_slice xs a b = drop (nat a) (take (nat b) xs)"
proof (cases "a \<le> int (length xs)")
  case True
  then show ?thesis using assms by (simp add: py_slice_def slice_bound_def Let_def drop_take min_def)
next
  case False
  then show ?thesis using assms by (simp add: py_slice_def slice_bound_def Let_def)
qed

lemma series_index_bounds:
  assumes "series_index s t = Inr i" and "0 < sr_interval s" and "sr_start s \<le> t" and "t \<le> series_end s"
  shows "0 \<le> i" and "i < int (length (sr_values s))" and "t = sr_start s + i * sr_interval s"
proof -
  have i: "i = (t - sr_start s) div sr_interval s" "(t - sr_start s) mod sr_interval s = 0"
    using assms(1) by (auto simp: series_index_def split: if_splits)
  show t: "t = sr_start s + i * sr_interval s" using i by (metis add_diff_cancel_left' diff_add_cancel add.commute div_mult_mod_eq add.right_neutral)
  show "0 \<le> i" using assms(2,3) i(1) by (simp add: pos_imp_zdiv_nonneg_iff)
  have "i * sr_interval s \<le> (int (length (sr_values s)) - 1) * sr_interval s"
    using assms(4) t by (simp add: series_end_def)
  then show "i < int (length (sr_values s))" using assms(2) by (simp add: mult_le_cancel_right)
qed

lemma series_slice_same:
  assumes "same_until hi s s'" and "sr_start s \<le> lo" and "sr_start s \<le> hi" and "hi \<le> series_end s" and "hi \<le> series_end s'"
  shows "series_slice s lo hi = series_slice s' lo hi" and "series_digest sha np s lo hi = series_digest sha np s' lo hi"
proof -
  note g = same_until_grid [OF assms(1)]
  have pos: "0 < sr_interval s" using assms(1) by (simp add: same_until_def)
  have idx: "series_index s' t = series_index s t" for t using g by (simp add: series_index_def)
  have slice: "py_slice (sr_values s) a (b + 1) = py_slice (sr_values s') a (b + 1)"
    if a: "series_index s lo = Inr a" and b: "series_index s hi = Inr b" for a b
  proof -
    have "0 \<le> a" using a assms(2) pos by (auto simp: series_index_def pos_imp_zdiv_nonneg_iff split: if_splits)
    moreover note sb = series_index_bounds [OF b pos assms(3,4)]
    have b': "b < int (length (sr_values s'))"
      using series_index_bounds(2) [of s' hi b] b idx g pos assms(3,5) by simp
    have "take (nat (b + 1)) (sr_values s) = take (nat (b + 1)) (sr_values s')"
      by (rule same_until_take [OF assms(1)]) (use sb b' in auto)
    ultimately show ?thesis using sb(1,2) b' by (simp add: py_slice_take)
  qed
  show "series_slice s lo hi = series_slice s' lo hi"
    unfolding series_slice_def idx by (cases "series_index s lo"; cases "series_index s hi") (auto simp: slice)
  show "series_digest sha np s lo hi = series_digest sha np s' lo hi"
    unfolding series_digest_def idx using g by (cases "series_index s lo"; cases "series_index s hi") (auto simp: slice)
qed

lemma segment_index_same:
  "j \<le> length vs \<Longrightarrow> j \<le> length vs' \<Longrightarrow> take j vs = take j vs' \<Longrightarrow> segment_index vs i mx j = segment_index vs' i mx j"
proof (induction j)
  case (Suc j)
  have "vs ! j = vs' ! j" using Suc.prems by (metis lessI nth_take)
  moreover have "take j vs = take j vs'" using Suc.prems(3) by (metis min.absorb1 n_not_Suc_n nat_le_linear not_less_eq_eq take_take)
  ultimately show ?case using Suc by simp
qed simp

lemma segment_start_same:
  assumes "same_until t s s'" and "sr_start s \<le> t" and "t \<le> series_end s" and "t \<le> series_end s'"
  shows "complete_segment_start s t mx = complete_segment_start s' t mx"
proof (cases "series_index s t")
  case (Inr i)
  note g = same_until_grid [OF assms(1)]
  have pos: "0 < sr_interval s" using assms(1) by (simp add: same_until_def)
  have idx: "series_index s' t = Inr i" using Inr g by (simp add: series_index_def)
  note b = series_index_bounds [OF Inr pos assms(2,3)]
  have b': "i < int (length (sr_values s'))" using series_index_bounds(2) [OF idx] g pos assms(2,4) by simp
  have tk: "take (nat i + 1) (sr_values s) = take (nat i + 1) (sr_values s')"
    by (rule same_until_take [OF assms(1)]) (use b b' in auto)
  then have "take (nat i) (sr_values s) = take (nat i) (sr_values s')" by (metis le_add1 min.absorb1 take_take)
  then have "segment_index (sr_values s) i mx (nat i) = segment_index (sr_values s') i mx (nat i)"
    by (intro segment_index_same) (use b b' in auto)
  moreover have "sr_values s ! nat i = sr_values s' ! nat i" using tk by (metis less_add_one nth_take)
  ultimately show ?thesis using Inr idx b b' g by (simp add: complete_segment_start_def)
next
  case (Inl e)
  moreover have "series_index s' t = series_index s t" using same_until_grid [OF assms(1)] by (simp add: series_index_def)
  ultimately show ?thesis by (simp add: complete_segment_start_def)
qed

lemma fit_ar_same:
  assumes "same_until t s s'" and "0 \<le> ks_season_seconds ks" and "0 < ks_interval_seconds ks"
  shows "fit_ar np s t ks = fit_ar np s' t ks"
proof -
  have "ar_row np s ks u = ar_row np s' ks u" if "u \<in> set (grid_range lo t (ks_interval_seconds ks))" for u lo
  proof -
    have u: "u \<le> t" using grid_range_le [OF assms(3) that] by simp
    have "u - k * ks_interval_seconds ks \<le> t" if "1 \<le> k" for k
      using u that assms(3) by (smt (verit) mult_nonneg_nonneg)
    then show ?thesis using residual_same [OF assms(1,2)] u by (simp add: ar_row_def)
  qed
  then have "ar_rows np s t ks = ar_rows np s' t ks"
    unfolding ar_rows_def Let_def same_until_grid [OF assms(1), THEN conjunct1]
    by (intro arg_cong [where f = "filter _"] map_cong) auto
  then show ?thesis by (simp only: fit_ar_def)
qed

lemma complete_segment_start_ge:
  assumes "complete_segment_start s t mx = Inr lo" and "0 < sr_interval s"
  shows "sr_start s \<le> lo"
  using assms by (auto simp: complete_segment_start_def bind_res_Inr_iff Let_def split: if_splits)

section \<open>Holt-Winters as a queue\<close>

text \<open>The reference recursion: the seasonal states are a queue, the oldest in front.\<close>

fun queue_step :: "pyfloat \<Rightarrow> pyfloat \<Rightarrow> pyfloat \<Rightarrow> pyfloat \<Rightarrow> pyfloat \<times> pyfloat \<times> pyfloat list \<Rightarrow> pyfloat \<times> pyfloat \<times> pyfloat list" where
  "queue_step alpha beta gamma obs (lv, b, q) =
     (let sp = hd q; l_new = alpha * (obs - sp) + (1 - alpha) * (lv + b)
      in (l_new, beta * (l_new - lv) + (1 - beta) * b, tl q @ [gamma * (obs - lv - b) + (1 - gamma) * sp]))"

definition loop_view :: "hw_loop_state \<Rightarrow> pyfloat \<times> pyfloat \<times> pyfloat list" where
  "loop_view st = (hl_level st, hl_trend st, rolled st)"

definition loop_ok :: "hw_loop_state \<Rightarrow> bool" where
  "loop_ok st \<longleftrightarrow> hl_pos st < length (hl_season st)"

lemma rolled_hd: "loop_ok st \<Longrightarrow> hd (rolled st) = hl_season st ! hl_pos st"
  by (simp add: loop_ok_def rolled_def hd_append hd_drop_conv_nth)

lemma rolled_update:
  assumes "pos < length q"
  shows "drop (if pos + 1 = length q then 0 else pos + 1) (q[pos := v]) @
      take (if pos + 1 = length q then 0 else pos + 1) (q[pos := v]) = tl (drop pos q @ take pos q) @ [v]"
proof -
  obtain xs x ys where q: "q = xs @ x # ys" "length xs = pos"
    using id_take_nth_drop [OF assms] assms by (metis length_take min.absorb4)
  show ?thesis unfolding q(1) by (cases ys) (simp_all add: q(2) [symmetric])
qed

lemma hw_step_view:
  assumes "loop_ok st"
  shows "loop_view (hw_step alpha beta gamma obs st) = queue_step alpha beta gamma obs (loop_view st)"
    and "loop_ok (hw_step alpha beta gamma obs st)"
proof -
  let ?v = "gamma * (obs - hl_level st - hl_trend st) + (1 - gamma) * (hl_season st ! hl_pos st)"
  have "rolled (hw_step alpha beta gamma obs st) = tl (rolled st) @ [?v]"
    using rolled_update [of "hl_pos st" "hl_season st" ?v] assms by (simp add: rolled_def hw_step_def Let_def loop_ok_def)
  then show "loop_view (hw_step alpha beta gamma obs st) = queue_step alpha beta gamma obs (loop_view st)"
    using rolled_hd [OF assms] by (simp add: loop_view_def Let_def) (simp add: hw_step_def Let_def)
  show "loop_ok (hw_step alpha beta gamma obs st)"
    using assms by (auto simp: loop_ok_def hw_step_def Let_def)
qed

lemma hw_fold_view:
  assumes "loop_ok st"
  shows "loop_view (fold (hw_step a b g) y st) = fold (queue_step a b g) y (loop_view st) \<and> loop_ok (fold (hw_step a b g) y st)"
  using assms by (induction y arbitrary: st) (simp_all add: hw_step_view)

lemma hw_run_queue:
  assumes "season \<noteq> []"
  shows "\<exists>sse. hw_run y a b g level trend season = Inr (sse, fold (queue_step a b g) y (level, trend, season))"
proof -
  let ?st = "\<lparr> hl_sse = Fin 0, hl_level = level, hl_trend = trend, hl_season = season, hl_pos = 0 \<rparr>"
  have "loop_ok ?st" "loop_view ?st = (level, trend, season)" using assms by (simp_all add: loop_ok_def loop_view_def rolled_def)
  with hw_fold_view [of ?st a b g y] have "loop_view (hw_loop y a b g level trend season) = fold (queue_step a b g) y (level, trend, season)"
    by (simp add: hw_loop_def)
  then show ?thesis using assms by (simp add: hw_run_def Let_def loop_view_def)
qed

lemma queue_length: "length (snd (snd (fold (queue_step a b g) y (level, trend, season)))) = length season" if "season \<noteq> []"
  using that by (induction y arbitrary: level trend season) (simp_all add: Let_def)

lemma bind_res_cong: "r = r' \<Longrightarrow> (\<And>x. r' = Inr x \<Longrightarrow> f x = g x) \<Longrightarrow> bind_res r f = bind_res r' g"
  by (cases r') auto

lemma map_res_cong: "(\<And>x. x \<in> set xs \<Longrightarrow> f x = g x) \<Longrightarrow> map_res f xs = map_res g xs"
  by (induction xs) auto

section \<open>What a fit and a forecast guarantee\<close>

lemma segment_index_complete:
  "j \<le> length vs \<Longrightarrow> segment_index vs i mx j \<le> j \<and> (\<forall>k. segment_index vs i mx j \<le> k \<and> k < j \<longrightarrow> is_finite (vs ! k))"
  by (induction j) (auto simp: less_Suc_eq)

lemma complete_segment:
  assumes "complete_segment_start s t mx = Inr lo" and "0 < sr_interval s"
  shows "sr_start s \<le> lo \<and> lo \<le> t \<and> (t - lo) mod sr_interval s = 0 \<and>
     (\<forall>u. lo \<le> u \<and> u \<le> t \<and> (u - lo) mod sr_interval s = 0 \<longrightarrow> is_finite (series_at s u))"
proof -
  obtain i where i: "series_index s t = Inr i" "0 \<le> i" "i < int (length (sr_values s))" "is_finite (sr_values s ! nat i)"
    and lo: "lo = sr_start s + int (segment_index (sr_values s) i mx (nat i)) * sr_interval s"
    using assms(1) by (auto simp: complete_segment_start_def bind_res_Inr_iff Let_def split: if_splits)
  let ?j = "segment_index (sr_values s) i mx (nat i)"
  have j: "?j \<le> nat i" "\<And>k. ?j \<le> k \<Longrightarrow> k < nat i \<Longrightarrow> is_finite (sr_values s ! k)"
    using segment_index_complete [of "nat i" "sr_values s" i mx] i(3) by auto
  have t: "t = sr_start s + i * sr_interval s"
    using i(1) by (auto simp: series_index_def split: if_splits)
  have tlo: "t - lo = (i - int ?j) * sr_interval s" using t lo by (simp add: algebra_simps)
  have fin: "is_finite (series_at s u)" if u: "lo \<le> u" "u \<le> t" "(u - lo) mod sr_interval s = 0" for u
  proof -
    from u(3) obtain k where k: "u = lo + k * sr_interval s" by (metis add.commute diff_add_cancel mult.commute mod_0_imp_dvd dvdE)
    have "0 \<le> k" using u(1) k assms(2) by (simp add: zero_le_mult_iff)
    moreover have "k \<le> i - int ?j" using u(2) k tlo assms(2) by (metis add_le_cancel_left diff_add_cancel add.commute mult_le_cancel_right not_less)
    moreover have "u = sr_start s + int (?j + nat k) * sr_interval s" using k lo calculation(1) by (simp add: algebra_simps)
    ultimately have "series_at s u = sr_values s ! (?j + nat k)" "?j + nat k \<le> nat i"
      using series_at_nth [OF assms(2), of "?j + nat k"] i(3) j(1) by auto
    then show ?thesis using j(2) [of "?j + nat k"] i(4) by (cases "?j + nat k = nat i") auto
  qed
  have "0 \<le> (i - int ?j) * sr_interval s" using j(1) i(2) assms(2) by simp
  then show ?thesis using fin tlo lo assms(2) by auto
qed

lemma fit_hw_Inr:
  assumes "fit_hw np y m lo maxiter = Inr hw"
  shows "hw_segment_start hw = lo \<and> hw_n_train hw = int (length y) \<and>
     list_all is_finite (hw_level hw # hw_trend hw # hw_season hw)"
  using assms by (auto simp: fit_hw_def bind_res_Inr_iff case_prod_beta split: if_splits option.splits)

lemma fit_ar_Inr:
  assumes "fit_ar np s cutoff ks = Inr (coef, rows)"
  shows "ks_ar_min_rows ks \<le> rows \<and> list_all is_finite coef \<and> ar_roots_max np coef < AR_MAX_ROOT"
  using assms by (auto simp: fit_ar_def Let_def split: if_splits)

lemma fit_e1_Inr:
  assumes "fit_e1 sha np s cutoff ks = Inr f"
  shows "\<exists>seg_lo seg. complete_segment_start s cutoff (ks_hw_max_days ks * ks_m ks) = Inr seg_lo \<and>
     series_slice s seg_lo cutoff = Inr seg \<and> fit_hw np seg (ks_m ks) seg_lo (ks_hw_maxiter ks) = Inr (ef_hw f) \<and>
     fit_ar np s cutoff ks = Inr (ef_ar_coef f, ef_ar_rows f) \<and> ef_cutoff f = cutoff \<and> ef_settings f = ks \<and>
     sr_interval s = ks_interval_seconds ks \<and> sr_start s \<le> cutoff \<and> cutoff \<le> series_end s \<and>
     ks_hw_min_days ks * ks_m ks \<le> (cutoff - seg_lo) div ks_interval_seconds ks + 1 \<and>
     ks_min_history_days ks * DAY_S \<le> cutoff - sr_start s + ks_interval_seconds ks"
  using assms by (auto simp: fit_e1_def Let_def bind_res_Inr_iff not_less case_prod_beta split: if_splits)

lemma forecast_e1_Inr:
  assumes "forecast_e1 np fit s input_end targets ks = Inr fc"
  shows "\<exists>ar. fc_points fc = map2 (blend ks) (fc_hw fc) (fc_profile_ar fc) \<and> length (fc_hw fc) = length targets \<and>
     list_all is_finite (fc_points fc) \<and>
     map_res (profile_ar_point np s ks ar) (zip targets (map (\<lambda>t. (t - input_end) div ks_interval_seconds ks) targets)) =
       Inr (fc_profile_ar fc)"
  using assms by (auto simp: forecast_e1_def Let_def bind_res_Inr_iff case_prod_beta split: if_splits)

section \<open>Properties\<close>

text \<open>C21: a forecast for an input end never looks past it: two series that agree up to the input end give the same
  seasonal-naive points and the same E1-product forecast, or the same refusal, whatever they hold afterwards.\<close>

theorem forecasts_read_no_future:
  assumes "same_until input_end s s'" and "0 < ks_interval_seconds ks" and "0 \<le> ks_season_seconds ks"
  shows "seasonal_naive s input_end targets ks = seasonal_naive s' input_end targets ks \<and>
     forecast_e1 np fit s input_end targets ks = forecast_e1 np fit s' input_end targets ks"
proof -
  let ?dt = "ks_interval_seconds ks"
  have "naive_point s input_end ks t = naive_point s' input_end ks t" for t
    using same_until_at [OF assms(1), of "t - ks_season_seconds ks"] by (auto simp: naive_point_def Let_def)
  then have naive: "seasonal_naive s input_end targets ks = seasonal_naive s' input_end targets ks"
    unfolding seasonal_naive_def by (intro map_res_cong)
  have since: "map (series_at s) (grid_range lo input_end ?dt) = map (series_at s') (grid_range lo input_end ?dt)" for lo
    using same_until_at [OF assms(1)] grid_range_le [OF assms(2)] by simp
  have "input_end - k * ?dt \<le> input_end" if "0 \<le> k" for k using that assms(2) by simp
  then have hist: "map (\<lambda>k. residual np s (input_end - k * ?dt) ks) [0..p - 1] =
      map (\<lambda>k. residual np s' (input_end - k * ?dt) ks) [0..p - 1]" for p
    using residual_same [OF assms(1,3)] by simp
  have pa: "map_res (profile_ar_point np s ks ar) (zip targets ks') = map_res (profile_ar_point np s' ks ar) (zip targets ks')"
    if "\<not> list_ex (\<lambda>t. t - input_end > ks_season_seconds ks) targets" for ar ks'
  proof -
    have "profile_ar_point np s ks ar tk = profile_ar_point np s' ks ar tk" if tk: "tk \<in> set (zip targets ks')" for tk
    proof -
      obtain t k where t: "tk = (t, k)" by (cases tk)
      then have "t \<in> set targets" using tk by (auto dest: set_zip_leftD)
      then have "t - ks_season_seconds ks \<le> input_end"
        using \<open>\<not> list_ex (\<lambda>t. t - input_end > ks_season_seconds ks) targets\<close> by (fastforce simp: list_ex_iff)
      from profile_same [OF assms(1,3) this, of np] show ?thesis by (simp add: profile_ar_point_def t)
    qed
    then show ?thesis by (rule map_res_cong)
  qed
  have "series_at s input_end = series_at s' input_end" using same_until_at [OF assms(1)] by simp
  then have "forecast_e1 np fit s input_end targets ks = forecast_e1 np fit s' input_end targets ks"
    unfolding forecast_e1_def Let_def since hist using pa by (auto intro!: arg_cong2 [where f = bind_res])
  with naive show ?thesis by simp
qed

text \<open>A numerical library and a ten-day daily series for the witnesses.\<close>

definition demo_numlib :: numlib where
  "demo_numlib = \<lparr> np_mean = (\<lambda>_. Fin 0), np_nanmean = (\<lambda>_. Fin 0), np_clip01 = (\<lambda>v. v), np_line = (\<lambda>_. (Fin 0, Fin 0)),
     np_lstsq = (\<lambda>_ _. [Fin 0, Fin 0]), np_root_moduli = (\<lambda>_. [Fin 0]),
     np_minimize = (\<lambda>_ _ _. \<lparr> mr_success = True, mr_fun = Fin 0, mr_x = [Fin 0, Fin 0, Fin 0] \<rparr>), np_bytes = (\<lambda>_. []) \<rparr>"

definition demo_kernel :: kernel_settings where
  "demo_kernel = \<lparr> ks_interval_seconds = 86400, ks_season_seconds = 86400, ks_profile_days = 1, ks_profile_min_support = 1,
     ks_ar_order = 1, ks_ar_window_days = 7, ks_ar_min_rows = 2, ks_ar_min_span_seconds = 86400, ks_hw_min_days = 2,
     ks_hw_max_days = 14, ks_hw_weight = Fin 0, ks_min_history_days = 7, ks_min_observed_fraction = Fin 0, ks_hw_maxiter = 200 \<rparr>"

definition demo_series :: series where
  "demo_series = \<lparr> sr_start = 0, sr_interval = 86400, sr_values = replicate 10 (Fin 0) \<rparr>"

definition demo_longer_series :: series where
  "demo_longer_series = \<lparr> sr_start = 0, sr_interval = 86400, sr_values = replicate 10 (Fin 0) @ [Fin 9] \<rparr>"

lemma demo_same_until: "same_until 777600 demo_series demo_longer_series"
proof -
  have "series_at demo_series u = series_at demo_longer_series u" if "u \<le> 777600" for u
  proof -
    have "u div 86400 \<le> 9" using zdiv_mono1 [OF that, of 86400] by simp
    then show ?thesis by (auto simp: series_at_def demo_series_def demo_longer_series_def Let_def nth_append)
  qed
  then show ?thesis by (simp add: same_until_def demo_series_def demo_longer_series_def)
qed

theorem forecasts_read_no_future_witness:
  "seasonal_naive demo_longer_series 777600 [864000] demo_kernel = Inr [Fin 0]"
proof -
  have "seasonal_naive demo_series 777600 [864000] demo_kernel = Inr [Fin 0]"
    by (simp add: seasonal_naive_def naive_point_def demo_kernel_def series_at_def demo_series_def)
  then show ?thesis
    using forecasts_read_no_future [OF demo_same_until, of demo_kernel "[864000]"] by (simp add: demo_kernel_def)
qed

lemma fit_e1_same:
  assumes "same_until cutoff s s'" and "cutoff \<le> series_end s" and "cutoff \<le> series_end s'"
    and "0 < ks_interval_seconds ks" and "0 \<le> ks_season_seconds ks" and "ks_ar_window_days ks \<le> ks_min_history_days ks"
  shows "fit_e1 sha np s cutoff ks = fit_e1 sha np s' cutoff ks"
proof (cases "sr_start s \<le> cutoff \<and> ks_min_history_days ks * DAY_S \<le> cutoff - sr_start s + ks_interval_seconds ks")
  case True
  let ?w = "cutoff - ks_ar_window_days ks * DAY_S + ks_interval_seconds ks"
  note g = same_until_grid [OF assms(1)]
  have pos: "0 < sr_interval s" using assms(1) by (simp add: same_until_def)
  have "ks_ar_window_days ks * DAY_S \<le> ks_min_history_days ks * DAY_S"
    using assms(6) by (simp add: DAY_S_def)
  then have w: "sr_start s \<le> ?w" using True by linarith
  note same = series_slice_same [OF assms(1) _ True [THEN conjunct1] assms(2,3)]
  have seg: "series_slice s lo cutoff = series_slice s' lo cutoff"
    if "complete_segment_start s cutoff mx = Inr lo" for lo mx
    using same(1) [OF complete_segment_start_ge [OF that pos]] .
  have cs: "complete_segment_start s' cutoff mx = complete_segment_start s cutoff mx" for mx
    using segment_start_same [OF assms(1) True [THEN conjunct1] assms(2,3)] by simp
  have ar: "fit_ar np s' cutoff ks = fit_ar np s cutoff ks" using fit_ar_same [OF assms(1,5,4)] by simp
  have dg: "series_digest sha np s' (max (sr_start s) x) cutoff = series_digest sha np s (max (sr_start s) x) cutoff" for x
    using same(2) [of "max (sr_start s) x"] by simp
  have sl: "series_slice s' ?w cutoff = series_slice s ?w cutoff" using same(1) [OF w] by simp
  show ?thesis
    unfolding fit_e1_def Let_def g [THEN conjunct1] g [THEN conjunct2] cs ar sl dg
    using assms(2,3) by (simp add: seg cong: bind_res_cong if_cong)
next
  case False
  then show ?thesis using same_until_grid [OF assms(1)] assms(2,3) by (auto simp: fit_e1_def Let_def)
qed

text \<open>C22: a fit at a cutoff never looks past it: two series that agree up to the cutoff give the same fit, digest of
  the input included, or the same refusal, whatever they hold afterwards.\<close>

theorem fit_reads_no_future:
  assumes "same_until cutoff s s'" and "cutoff \<le> series_end s" and "cutoff \<le> series_end s'"
    and "0 < ks_interval_seconds ks" and "0 \<le> ks_season_seconds ks" and "ks_ar_window_days ks \<le> ks_min_history_days ks"
  shows "fit_e1 sha np s cutoff ks = fit_e1 sha np s' cutoff ks"
  using fit_e1_same [OF assms] .

theorem fit_reads_no_future_witness:
  "fit_e1 (\<lambda>_. []) demo_numlib demo_series 777600 demo_kernel = fit_e1 (\<lambda>_. []) demo_numlib demo_longer_series 777600 demo_kernel"
  using fit_reads_no_future [OF demo_same_until] 
  by (simp add: series_end_def demo_series_def demo_longer_series_def demo_kernel_def)

text \<open>The Holt-Winters state kept at the fit cutoff can be advanced later: running through the observations up to the
  cutoff and then, from the returned level, trend and rolled season, through the later ones gives the level, trend and
  season of one run through all of them. The in-place rotating buffer is equal to a queue of seasonal states.\<close>

theorem hw_run_resumes:
  assumes "season \<noteq> []" and "hw_run ys alpha beta gamma level trend season = Inr (sse, level', trend', season')"
  shows "\<exists>sse1 sse2. hw_run zs alpha beta gamma level' trend' season' =
       Inr (sse1, fold (queue_step alpha beta gamma) (ys @ zs) (level, trend, season)) \<and>
     hw_run (ys @ zs) alpha beta gamma level trend season =
       Inr (sse2, fold (queue_step alpha beta gamma) (ys @ zs) (level, trend, season))"
proof -
  have st: "(level', trend', season') = fold (queue_step alpha beta gamma) ys (level, trend, season)"
    using hw_run_queue [OF assms(1), of ys alpha beta gamma level trend] assms(2) by auto
  then have "length season' = length season"
    using queue_length [OF assms(1), of alpha beta gamma ys level trend] by (metis snd_conv)
  then have "season' \<noteq> []" using assms(1) by auto
  from hw_run_queue [OF this, of zs alpha beta gamma level' trend'] hw_run_queue [OF assms(1), of "ys @ zs" alpha beta gamma level trend] st
  show ?thesis by simp
qed

theorem hw_run_resumes_witness:
  "\<exists>sse. hw_run [Fin 1] 1 0 0 (Fin 1) (Fin 0) [Fin 0, Fin 0] = Inr (sse, Fin 1, Fin 0, [Fin 0, Fin 0])"
proof -
  have "hw_run [] 1 0 0 (Fin 1) (Fin 0) [Fin 0, Fin 0] = Inr (Fin 0, Fin 1, Fin 0, [Fin 0, Fin 0])"
    by (simp add: hw_run_def hw_loop_def rolled_def)
  from hw_run_resumes [OF _ this, of "[Fin 1]"] show ?thesis
    by (auto simp: minus_pyfloat_def zero_pyfloat_def one_pyfloat_def Let_def)
qed

text \<open>A fit is made only from enough real data: the Holt-Winters segment ends at the cutoff, is long enough and has
  an observation in every slot (nothing is filled in), the history is long enough, the AR rows are enough, every fitted
  number is finite and the AR recursion is stable.\<close>

theorem fit_uses_complete_segment:
  assumes "fit_e1 sha np s cutoff ks = Inr f" and "0 < ks_interval_seconds ks"
  shows "\<exists>lo. hw_segment_start (ef_hw f) = lo \<and> sr_start s \<le> lo \<and> lo \<le> cutoff \<and>
     ks_hw_min_days ks * ks_m ks \<le> (cutoff - lo) div ks_interval_seconds ks + 1 \<and>
     (\<forall>u. lo \<le> u \<and> u \<le> cutoff \<and> (u - lo) mod ks_interval_seconds ks = 0 \<longrightarrow> is_finite (series_at s u)) \<and>
     ks_min_history_days ks * DAY_S \<le> cutoff - sr_start s + ks_interval_seconds ks \<and>
     ks_ar_min_rows ks \<le> ef_ar_rows f \<and> ar_roots_max np (ef_ar_coef f) < AR_MAX_ROOT \<and>
     list_all is_finite (hw_level (ef_hw f) # hw_trend (ef_hw f) # hw_season (ef_hw f) @ ef_ar_coef f)"
proof -
  obtain lo seg where f: "complete_segment_start s cutoff (ks_hw_max_days ks * ks_m ks) = Inr lo"
    "fit_hw np seg (ks_m ks) lo (ks_hw_maxiter ks) = Inr (ef_hw f)" "fit_ar np s cutoff ks = Inr (ef_ar_coef f, ef_ar_rows f)"
    "sr_interval s = ks_interval_seconds ks"
    "ks_hw_min_days ks * ks_m ks \<le> (cutoff - lo) div ks_interval_seconds ks + 1"
    "ks_min_history_days ks * DAY_S \<le> cutoff - sr_start s + ks_interval_seconds ks"
    using fit_e1_Inr [OF assms(1)] by blast
  have "0 < sr_interval s" using f(4) assms(2) by simp
  from complete_segment [OF f(1) this] fit_hw_Inr [OF f(2)] fit_ar_Inr [OF f(3)] f(4-6) show ?thesis by auto
qed

lemma demo_at: "0 \<le> i \<Longrightarrow> i < 10 \<Longrightarrow> series_at demo_series (i * 86400) = Fin 0"
  by (simp add: series_at_def demo_series_def)

lemma demo_segment: "complete_segment_start demo_series 777600 14 = Inr 0"
  by (simp add: complete_segment_start_def series_index_def demo_series_def numeral_eq_Suc)

lemma demo_residual: "1 \<le> i \<Longrightarrow> i < 10 \<Longrightarrow> residual demo_numlib demo_series (i * 86400) demo_kernel = Fin 0"
  using demo_at [of i] demo_at [of "i - 1"]
  by (simp add: residual_def profile_def demo_kernel_def demo_numlib_def minus_pyfloat_def algebra_simps)

lemma demo_fit_ar: "fit_ar demo_numlib demo_series 777600 demo_kernel = Inr ([Fin 0, Fin 0], 6)"
proof -
  have grid: "grid_range 345600 777600 86400 = [4 * 86400, 5 * 86400, 6 * 86400, 7 * 86400, 8 * 86400, 9 * 86400]"
    by (simp add: grid_range_def upto_rec1)
  have row: "ar_row demo_numlib demo_series demo_kernel (i * 86400) = (i * 86400, Fin 0, [Fin 0])" if "2 \<le> i" "i < 10" for i
    using demo_residual [of i] demo_residual [of "i - 1"] that
    by (simp add: ar_row_def demo_kernel_def [THEN arg_cong, of ks_interval_seconds] demo_kernel_def [THEN arg_cong, of ks_ar_order]
        algebra_simps)
  have "ar_rows demo_numlib demo_series 777600 demo_kernel = map (\<lambda>i. (i * 86400, Fin 0, [Fin 0])) [4, 5, 6, 7, 8, 9]"
    using row [of 4] row [of 5] row [of 6] row [of 7] row [of 8] row [of 9]
    by (simp add: ar_rows_def demo_kernel_def [THEN arg_cong, of ks_interval_seconds]
        demo_kernel_def [THEN arg_cong, of ks_ar_order] demo_kernel_def [THEN arg_cong, of ks_ar_window_days]
        demo_series_def [THEN arg_cong, of sr_start] DAY_S_def grid [simplified])
  moreover have "rnd (1/2) = 1/2" using rnd_representable [of 1 "- 1"] by (simp add: power_int_minus)
  then have "Fin 0 < AR_MAX_ROOT" using rnd_mono [of "1/2" "999/1000"] float_limit_pos by (auto simp: AR_MAX_ROOT_def round64_def Let_def)
  ultimately show ?thesis
    by (simp add: fit_ar_def demo_kernel_def demo_numlib_def ar_roots_max_def)
qed

lemma demo_heuristic: "heuristic_init demo_numlib (replicate 10 (Fin 0)) 1 = Inr (Fin 0, Fin 0, [Fin 0])"
proof -
  have "int_div 10 1 = Fin 10" using round64_of_int [of 10] by (simp add: int_div_def)
  moreover have "running_sums (Fin 0) (replicate n (Fin 0)) ! k = Fin 0" if "k \<le> n" for n k
    using that by (induction n arbitrary: k) (auto simp: nth_Cons split: nat.splits)
  moreover have "float_of_int 1 = Fin 1" by (simp add: float_of_int_def)
  ultimately have "centred_mean (replicate 10 (Fin 0)) 1 = map (\<lambda>_. Fin 0) [0..9]"
    unfolding centred_mean_def Let_def by (intro map_cong) (auto simp: minus_pyfloat_def)
  then have "centred_trend (replicate 10 (Fin 0)) 1 = replicate 10 (Fin 0)"
    by (simp add: centred_trend_def map_replicate_const)
  then show ?thesis using \<open>int_div 10 1 = Fin 10\<close>
    by (simp add: heuristic_init_def py_slice_def slice_bound_def float_ceil_def demo_numlib_def minus_pyfloat_def
        season_columns_def)
qed

lemma demo_fit_hw: "\<exists>hw. fit_hw demo_numlib (replicate 10 (Fin 0)) 1 0 200 = Inr hw"
proof -
  have best: "fold (try_start demo_numlib f 200) HW_STARTS None =
      Some \<lparr> mr_success = True, mr_fun = Fin 0, mr_x = [Fin 0, Fin 0, Fin 0] \<rparr>" for f
    by (simp add: HW_STARTS_def try_start_def demo_numlib_def)
  have "fold (hw_step (Fin 0) (Fin 0) (Fin 0)) (replicate n (Fin 0)) \<lparr> hl_sse = Fin 0, hl_level = Fin 0, hl_trend = Fin 0, hl_season = [Fin 0], hl_pos = 0 \<rparr> =
      \<lparr> hl_sse = Fin 0, hl_level = Fin 0, hl_trend = Fin 0, hl_season = [Fin 0], hl_pos = 0 \<rparr>" for n
    by (induction n) (simp_all add: hw_step_def minus_pyfloat_def one_pyfloat_def Let_def)
  then have "hw_run (replicate 10 (Fin 0)) (Fin 0) (Fin 0) (Fin 0) (Fin 0) (Fin 0) [Fin 0] = Inr (Fin 0, Fin 0, Fin 0, [Fin 0])"
    by (simp add: hw_run_def hw_loop_def rolled_def)
  moreover have "hw_params demo_numlib [Fin 0, Fin 0, Fin 0] = (Fin 0, Fin 0, Fin 0)"
    by (simp add: hw_params_def demo_numlib_def minus_pyfloat_def one_pyfloat_def Let_def)
  ultimately show ?thesis by (simp add: fit_hw_def demo_heuristic best list_all_iff)
qed

lemma demo_fits: "\<exists>f. fit_e1 (\<lambda>_. []) demo_numlib demo_series 777600 demo_kernel = Inr f"
proof -
  have slice: "series_slice demo_series 0 777600 = Inr (replicate 10 (Fin 0))" "\<exists>w. series_slice demo_series 259200 777600 = Inr w"
    by (simp_all add: series_slice_def series_index_def demo_series_def py_slice_def slice_bound_def)
  have dg: "\<exists>d. series_digest (\<lambda>_. []) demo_numlib demo_series 0 777600 = Inr d"
    by (simp add: series_digest_def series_index_def demo_series_def)
  have np: "np_mean demo_numlib xs = Fin 0" for xs by (simp add: demo_numlib_def)
  have ks: "ks_interval_seconds demo_kernel = 86400" "ks_m demo_kernel = 1" "ks_min_history_days demo_kernel = 7"
    "ks_ar_window_days demo_kernel = 7" "ks_min_observed_fraction demo_kernel = Fin 0" "ks_hw_max_days demo_kernel = 14"
    "ks_hw_min_days demo_kernel = 2" "ks_hw_maxiter demo_kernel = 200" "ks_profile_days demo_kernel = 1" "ks_ar_order demo_kernel = 1"
    by (simp_all add: demo_kernel_def ks_m_def)
  have sr: "sr_interval demo_series = 86400" "sr_start demo_series = 0" "series_end demo_series = 777600"
    by (simp_all add: demo_series_def series_end_def)
  from slice(2) demo_fit_hw dg show ?thesis
    by (auto simp: fit_e1_def Let_def ks sr DAY_S_def demo_segment slice(1) demo_fit_ar np)
qed

theorem fit_uses_complete_segment_witness:
  "\<exists>f. fit_e1 (\<lambda>_. []) demo_numlib demo_series 777600 demo_kernel = Inr f \<and> 2 \<le> ef_ar_rows f \<and>
     hw_segment_start (ef_hw f) \<le> 777600"
proof -
  obtain f where f: "fit_e1 (\<lambda>_. []) demo_numlib demo_series 777600 demo_kernel = Inr f" using demo_fits by blast
  have ks: "0 < ks_interval_seconds demo_kernel" "ks_ar_min_rows demo_kernel = 2" by (simp_all add: demo_kernel_def)
  from fit_uses_complete_segment [OF f ks(1)] f ks(2) show ?thesis by auto
qed

text \<open>A forecast that is returned has one point per target, every point finite and non-negative: the weighted mean of
  the two components cut off at zero, and for seasonal-naive exactly the value observed one season before, at or before
  the input end.\<close>

theorem forecast_points_sound:
  "(forecast_e1 np fit s input_end targets ks = Inr fc \<longrightarrow>
      length (fc_points fc) = length targets \<and> fc_points fc = map2 (blend ks) (fc_hw fc) (fc_profile_ar fc) \<and>
      (\<forall>p \<in> set (fc_points fc). is_finite p \<and> 0 \<le> p)) \<and>
   (seasonal_naive s input_end targets ks = Inr ps \<longrightarrow>
      ps = map (\<lambda>t. series_at s (t - ks_season_seconds ks)) targets \<and> list_all is_finite ps \<and>
      (\<forall>t \<in> set targets. t - ks_season_seconds ks \<le> input_end))"
proof -
  have e1: "length (fc_points fc) = length targets \<and> fc_points fc = map2 (blend ks) (fc_hw fc) (fc_profile_ar fc) \<and>
      (\<forall>p \<in> set (fc_points fc). is_finite p \<and> 0 \<le> p)" if "forecast_e1 np fit s input_end targets ks = Inr fc"
  proof -
    note ok = that
    obtain ar where fc: "fc_points fc = map2 (blend ks) (fc_hw fc) (fc_profile_ar fc)" "length (fc_hw fc) = length targets"
      "list_all is_finite (fc_points fc)"
      "map_res (profile_ar_point np s ks ar) (zip targets (map (\<lambda>t. (t - input_end) div ks_interval_seconds ks) targets)) =
         Inr (fc_profile_ar fc)"
      using forecast_e1_Inr [OF ok] by blast
    have "length (fc_profile_ar fc) = length targets" using map_res_Inr_length [OF fc(4)] by simp
    moreover have "\<forall>p \<in> set (fc_points fc). 0 \<le> p"
      unfolding fc(1) by (auto simp: blend_def py_max_zero_nonneg zero_float_Fin)
    ultimately show ?thesis using fc(1-3) by (auto simp: list_all_iff)
  qed
  have naive: "ps = map (\<lambda>t. series_at s (t - ks_season_seconds ks)) targets \<and> list_all is_finite ps \<and>
      (\<forall>t \<in> set targets. t - ks_season_seconds ks \<le> input_end)" if "seasonal_naive s input_end targets ks = Inr ps"
    using that unfolding seasonal_naive_def map_res_Inr_iff
    by (induction rule: list_all2_induct) (auto simp: naive_point_def Let_def split: if_splits)
  show ?thesis using e1 naive by blast
qed

definition demo_fit :: e1_fit where
  "demo_fit = \<lparr> ef_cutoff = 777600, ef_interval_seconds = 86400,
     ef_hw = \<lparr> hw_alpha = Fin 0, hw_beta = Fin 0, hw_gamma = Fin 0, hw_level = Fin 0, hw_trend = Fin 0, hw_season = [Fin 0],
       hw_sse = Fin 0, hw_n_train = 10, hw_segment_start = 0 \<rparr>,
     ef_ar_coef = [Fin 0, Fin 0], ef_ar_rows = 5, ef_input_lo = 0, ef_input_sha256 = [], ef_settings = demo_kernel \<rparr>"

lemma demo_forecast: "\<exists>fc. forecast_e1 demo_numlib demo_fit demo_series 777600 [864000] demo_kernel = Inr fc \<and> fc_points fc = [Fin 0]"
proof -
  have at: "series_at demo_series 777600 = Fin 0" "series_at demo_series 691200 = Fin 0"
    using demo_at [of 9] demo_at [of 8] by simp_all
  have "residual demo_numlib demo_series 777600 demo_kernel = Fin 0" "profile demo_numlib demo_series 864000 demo_kernel = Fin 0"
    by (simp_all add: residual_def profile_def demo_kernel_def demo_numlib_def at minus_pyfloat_def)
  then show ?thesis
    by (simp add: forecast_e1_def demo_fit_def demo_kernel_def [THEN arg_cong, of ks_interval_seconds]
        demo_kernel_def [THEN arg_cong, of ks_ar_order] demo_kernel_def [THEN arg_cong, of ks_season_seconds]
        demo_kernel_def [THEN arg_cong, of ks_hw_weight] ks_m_def grid_range_def at hw_run_def hw_loop_def rolled_def
        ar_next_def py_sum_def profile_ar_point_def blend_def py_max_def float_of_int_def minus_pyfloat_def
        one_pyfloat_def Let_def)
qed

theorem forecast_points_sound_witness:
  "(\<exists>fc. forecast_e1 demo_numlib demo_fit demo_series 777600 [864000] demo_kernel = Inr fc \<and> length (fc_points fc) = 1) \<and>
   seasonal_naive demo_series 777600 [864000] demo_kernel = Inr [series_at demo_series 777600]"
proof -
  obtain fc where fc: "forecast_e1 demo_numlib demo_fit demo_series 777600 [864000] demo_kernel = Inr fc"
    using demo_forecast by blast
  have ps: "seasonal_naive demo_series 777600 [864000] demo_kernel = Inr [Fin 0]"
    by (simp add: seasonal_naive_def naive_point_def demo_kernel_def series_at_def demo_series_def)
  have season: "ks_season_seconds demo_kernel = 86400" by (simp add: demo_kernel_def)
  from forecast_points_sound [of demo_numlib demo_fit demo_series 777600 "[864000]" demo_kernel fc "[Fin 0]"] fc ps season
  show ?thesis by auto
qed

end
