(* ===== verification/History.thy ===== *)
theory History
  imports Kernels Contracts_Response
begin

text \<open>
  \<^verbatim>\<open>forecasting/history.py\<close>: the strict reader of one signal's rates. The transport, the monotonic clock and the
  receipt clock are the environment of a read (\<open>read_env\<close>): the answer to every request, the value of every clock
  reading by its position. \<open>json.loads\<close> and \<open>float(text)\<close> are fields of the same record; a body that is not JSON
  or a text that is not a number is \<open>None\<close>.
\<close>

section \<open>Wall time and the watermark\<close>

datatype history_error = HistoryRefused | HistoryUnavailable | HistoryValueError | HistoryOverflow

datatype wall_time = WallNumber json | WallAware pyfloat | WallNaive

definition epoch_s :: "wall_time \<Rightarrow> history_error + pyfloat" where
  "epoch_s now = (case now of
      WallNaive \<Rightarrow> Inl HistoryValueError
    | WallAware t \<Rightarrow> Inr t
    | WallNumber (JInt n) \<Rightarrow> if is_finite (float_of_int n) then Inr (float_of_int n) else Inl HistoryOverflow
    | WallNumber (JFloat x) \<Rightarrow> if is_finite x then Inr x else Inl HistoryValueError
    | _ \<Rightarrow> Inl HistoryValueError)"

definition watermark :: "wall_time \<Rightarrow> int \<Rightarrow> int \<Rightarrow> history_error + int" where
  "watermark now interval settlement =
     bind_res (epoch_s now) (\<lambda>t.
       case fdiv (t - float_of_int settlement) (float_of_int interval) of
         Fin q \<Rightarrow> Inr (\<lfloor>q\<rfloor> * interval)
       | NaN \<Rightarrow> Inl HistoryValueError
       | _ \<Rightarrow> Inl HistoryOverflow)"

section \<open>Chunks\<close>

text \<open>The loop of \<open>plan_chunks\<close>; every caller has a positive interval (a negative one would not end).\<close>

function plan_loop :: "int \<Rightarrow> int \<Rightarrow> int \<Rightarrow> int \<Rightarrow> (int \<times> int) list" where
  "plan_loop s end_t interval max_points =
     (if s \<le> end_t \<and> 0 < interval \<and> 1 \<le> max_points
      then let e = min end_t (s + (max_points - 1) * interval)
           in (s, e) # plan_loop (e + interval) end_t interval max_points
      else [])"
  by auto
termination
proof (relation "measure (\<lambda>(s, end_t, interval, max_points). nat (end_t + 1 - s))")
  fix s end_t interval max_points e :: int
  assume g: "s \<le> end_t \<and> 0 < interval \<and> 1 \<le> max_points" and e: "e = min end_t (s + (max_points - 1) * interval)"
  have "0 \<le> (max_points - 1) * interval" using g by simp
  then have "s \<le> e" using g e by simp
  with g show "((e + interval, end_t, interval, max_points), s, end_t, interval, max_points)
      \<in> measure (\<lambda>(s, end_t, interval, max_points). nat (end_t + 1 - s))" by simp
qed simp

declare plan_loop.simps [simp del]

definition plan_chunks :: "int \<Rightarrow> int \<Rightarrow> int \<Rightarrow> int \<Rightarrow> history_error + (int \<times> int) list" where
  "plan_chunks start end_t interval max_points =
     (if (end_t - start) mod interval \<noteq> 0 \<or> end_t < start \<or> max_points < 1 then Inl HistoryValueError
      else Inr (plan_loop start end_t interval max_points))"

section \<open>The grid\<close>

record rps_grid =
  g_query_sha256 :: string
  g_interval_seconds :: int
  g_start :: int
  g_end :: int
  g_values :: "pyfloat option list"
  g_received_at_ms :: "int option list"
  g_read_completed_ms :: int
  g_response_sha256 :: string
  g_chunks :: nat

definition g_timestamps :: "rps_grid \<Rightarrow> int list" where
  "g_timestamps g = map (\<lambda>i. g_start g + int i * g_interval_seconds g) [0..<length (g_values g)]"

definition observed_count :: "rps_grid \<Rightarrow> int" where
  "observed_count g = int (length (filter (\<lambda>v. v \<noteq> None) (g_values g)))"

definition missing_count :: "rps_grid \<Rightarrow> int" where
  "missing_count g = int (length (g_values g)) - observed_count g"

definition observed_fraction :: "rps_grid \<Rightarrow> pyfloat" where
  "observed_fraction g = (if g_values g = [] then Fin 0 else int_div (observed_count g) (int (length (g_values g))))"

fun newest_index :: "'a option list \<Rightarrow> nat \<Rightarrow> nat option" where
  "newest_index vs 0 = None"
| "newest_index vs (Suc i) = (if vs ! i \<noteq> None then Some i else newest_index vs i)"

definition g_latest_observed :: "rps_grid \<Rightarrow> int option" where
  "g_latest_observed g =
     map_option (\<lambda>i. g_start g + int i * g_interval_seconds g) (newest_index (g_values g) (length (g_values g)))"

text \<open>Python compares a float with an integer exactly.\<close>

fun float_le_int :: "pyfloat \<Rightarrow> int \<Rightarrow> bool" where
  "float_le_int (Fin a) n = (a \<le> of_int n)"
| "float_le_int NInf n = True"
| "float_le_int _ n = False"

definition is_fresh :: "rps_grid \<Rightarrow> wall_time \<Rightarrow> int \<Rightarrow> history_error + bool" where
  "is_fresh g now settlement =
     (case g_latest_observed g of
        None \<Rightarrow> Inr False
      | Some latest \<Rightarrow> bind_res (epoch_s now) (\<lambda>t.
          Inr (float_le_int (t - float_of_int latest) (settlement + 2 * g_interval_seconds g))))"

definition series_from_grid :: "rps_grid \<Rightarrow> kernel_error + series" where
  "series_from_grid g =
     make_series (g_start g) (g_interval_seconds g) (map (\<lambda>v. case v of None \<Rightarrow> NaN | Some x \<Rightarrow> x) (g_values g))"

section \<open>One answer\<close>

definition sample_time :: "json \<Rightarrow> history_error + int" where
  "sample_time ts = (case ts of
      JInt n \<Rightarrow> if is_finite (float_of_int n) then Inr n else Inl HistoryOverflow
    | JFloat (Fin a) \<Rightarrow> if a = of_int \<lfloor>a\<rfloor> then Inr \<lfloor>a\<rfloor> else Inl HistoryRefused
    | _ \<Rightarrow> Inl HistoryRefused)"

definition sample_rate :: "(string \<Rightarrow> pyfloat option) \<Rightarrow> json \<Rightarrow> history_error + pyfloat" where
  "sample_rate float_text raw =
     bind_res (case raw of
         JStr s \<Rightarrow> (case float_text s of None \<Rightarrow> Inl HistoryRefused | Some x \<Rightarrow> Inr x)
       | JInt n \<Rightarrow> if is_finite (float_of_int n) then Inr (float_of_int n) else Inl HistoryOverflow
       | JFloat x \<Rightarrow> Inr x
       | _ \<Rightarrow> Inl HistoryRefused)
       (\<lambda>rps. if \<not> is_finite rps \<or> rps < 0 then Inl HistoryRefused else Inr rps)"

definition parse_sample ::
  "(string \<Rightarrow> pyfloat option) \<Rightarrow> int \<Rightarrow> int \<Rightarrow> int \<Rightarrow> int option \<Rightarrow> json \<Rightarrow> history_error + int \<times> pyfloat" where
  "parse_sample float_text lo hi interval last_ts sample =
     (case sample of
        JList [t, raw] \<Rightarrow>
          bind_res (sample_time t) (\<lambda>ts.
            if ts mod interval \<noteq> 0 then Inl HistoryRefused
            else if \<not> (lo \<le> ts \<and> ts \<le> hi) then Inl HistoryRefused
            else if (case last_ts of None \<Rightarrow> False | Some l \<Rightarrow> ts \<le> l) then Inl HistoryRefused
            else bind_res (sample_rate float_text raw) (\<lambda>rps. Inr (ts, rps)))
      | _ \<Rightarrow> Inl HistoryRefused)"

fun parse_samples ::
  "(string \<Rightarrow> pyfloat option) \<Rightarrow> int \<Rightarrow> int \<Rightarrow> int \<Rightarrow> int option \<Rightarrow> json list \<Rightarrow> history_error + (int \<times> pyfloat) list" where
  "parse_samples float_text lo hi interval last_ts [] = Inr []"
| "parse_samples float_text lo hi interval last_ts (s # ss) =
     bind_res (parse_sample float_text lo hi interval last_ts s) (\<lambda>p.
       bind_res (parse_samples float_text lo hi interval (Some (fst p)) ss) (\<lambda>ps. Inr (p # ps)))"

definition parse_chunk ::
  "(string \<Rightarrow> pyfloat option) \<Rightarrow> json \<Rightarrow> int \<Rightarrow> int \<Rightarrow> int \<Rightarrow> history_error + (int \<times> pyfloat) list" where
  "parse_chunk float_text doc lo hi interval =
     (case doc of
        JObj _ \<Rightarrow>
          if \<not> json_eq (get_obj doc ''status'') (JStr ''success'') then Inl HistoryRefused
          else if truthy (get_obj doc ''isPartial'') then Inl HistoryRefused
          else (case get_obj doc ''data'' of
            JObj data \<Rightarrow>
              if \<not> json_eq (get_obj (JObj data) ''resultType'') (JStr ''matrix'') then Inl HistoryRefused
              else (case get_obj (JObj data) ''result'' of
                JList [] \<Rightarrow> Inr []
              | JList [JObj r] \<Rightarrow> (case get_obj (JObj r) ''values'' of
                  JList samples \<Rightarrow> parse_samples float_text lo hi interval None samples
                | _ \<Rightarrow> Inl HistoryRefused)
              | _ \<Rightarrow> Inl HistoryRefused)
          | _ \<Rightarrow> Inl HistoryRefused)
      | _ \<Rightarrow> Inl HistoryRefused)"

section \<open>The read\<close>

datatype fetch_result = FetchTooLarge | FetchFailed | FetchAnswer int string

record range_query =
  rq_query :: string
  rq_start :: int
  rq_end :: int
  rq_step :: int

record read_env =
  re_fetch :: "range_query \<Rightarrow> pyfloat \<Rightarrow> int \<Rightarrow> fetch_result"   \<comment> \<open>request, seconds left, byte budget\<close>
  re_monotonic :: "nat \<Rightarrow> pyfloat"
  re_receipt_ms :: "nat \<Rightarrow> int"
  re_loads :: "string \<Rightarrow> json option"
  re_float :: "string \<Rightarrow> pyfloat option"

record read_limits =
  rl_deadline_s :: pyfloat
  rl_max_chunk_bytes :: int
  rl_max_total_bytes :: int
  rl_max_points :: int

definition default_limits :: read_limits where
  "default_limits = \<lparr> rl_deadline_s = Fin 20, rl_max_chunk_bytes = 8 * 2 ^ 20, rl_max_total_bytes = 32 * 2 ^ 20,
     rl_max_points = 10080 \<rparr>"

definition be8 :: "nat \<Rightarrow> string" where
  "be8 n = map (\<lambda>k. char_of (n div 256 ^ k mod 256)) [7, 6, 5, 4, 3, 2, 1, 0]"

record read_state =
  rs_values :: "pyfloat option list"
  rs_received :: "int option list"
  rs_hashed :: string
  rs_used :: int
  rs_last :: "int option"

text \<open>The loop over the samples of one chunk: later times only, each stored in its slot with the receipt time.\<close>

fun store_samples :: "int \<Rightarrow> int \<Rightarrow> int \<Rightarrow> (int \<times> pyfloat) list \<Rightarrow> read_state \<Rightarrow> history_error + read_state" where
  "store_samples start interval at_ms [] st = Inr st"
| "store_samples start interval at_ms ((ts, rps) # ps) st =
     (if (case rs_last st of None \<Rightarrow> False | Some l \<Rightarrow> ts \<le> l) then Inl HistoryRefused
      else let i = nat ((ts - start) div interval) in
           store_samples start interval at_ms ps
             (st\<lparr> rs_last := Some ts, rs_values := (rs_values st)[i := Some rps],
                  rs_received := (rs_received st)[i := Some at_ms] \<rparr>))"

definition read_chunk ::
  "read_env \<Rightarrow> read_limits \<Rightarrow> resolved_signal \<Rightarrow> int \<Rightarrow> int \<Rightarrow> nat \<Rightarrow> int \<times> int \<Rightarrow> read_state \<Rightarrow> history_error + read_state" where
  "read_chunk en lm sig interval start k chunk st =
     (case chunk of (cstart, cend) \<Rightarrow>
        let left = rl_deadline_s lm - (re_monotonic en (Suc k) - re_monotonic en 0) in
        if left \<le> 0 then Inl HistoryUnavailable
        else let budget = min (rl_max_chunk_bytes lm) (rl_max_total_bytes lm - rs_used st) in
        if budget \<le> 0 then Inl HistoryRefused
        else case re_fetch en \<lparr> rq_query = sig_query sig, rq_start = cstart, rq_end = cend, rq_step = interval \<rparr> left budget of
               FetchTooLarge \<Rightarrow> Inl HistoryRefused
             | FetchFailed \<Rightarrow> Inl HistoryUnavailable
             | FetchAnswer status body \<Rightarrow>
                 let at_ms = re_receipt_ms en k; used = rs_used st + int (length body) in
                 if status \<ge> 500 \<or> status \<in> {401, 403, 429} then Inl HistoryUnavailable
                 else if status \<noteq> 200 then Inl HistoryRefused
                 else if used > rl_max_total_bytes lm then Inl HistoryRefused
                 else (case re_loads en body of
                     None \<Rightarrow> Inl HistoryRefused
                   | Some doc \<Rightarrow>
                       bind_res (parse_chunk (re_float en) doc cstart cend interval) (\<lambda>ps.
                         store_samples start interval at_ms ps
                           (st\<lparr> rs_used := used, rs_hashed := rs_hashed st @ be8 (length body) @ body \<rparr>))))"

fun read_chunks ::
  "read_env \<Rightarrow> read_limits \<Rightarrow> resolved_signal \<Rightarrow> int \<Rightarrow> int \<Rightarrow> nat \<Rightarrow> (int \<times> int) list \<Rightarrow> read_state \<Rightarrow> history_error + read_state" where
  "read_chunks en lm sig interval start k [] st = Inr st"
| "read_chunks en lm sig interval start k (c # cs) st =
     bind_res (read_chunk en lm sig interval start k c st) (read_chunks en lm sig interval start (Suc k) cs)"

definition read_rps_history ::
  "(string \<Rightarrow> string) \<Rightarrow> read_env \<Rightarrow> read_limits \<Rightarrow> resolved_signal \<Rightarrow> wall_time \<Rightarrow> int \<Rightarrow> int \<Rightarrow> int \<Rightarrow> history_error + rps_grid" where
  "read_rps_history sha en lm sig now interval history_seconds settlement =
     (if sig_contract sig \<noteq> SIGNAL_CONTRACT \<or> sig_query sig = [] then Inl HistoryValueError
      else if sha (sig_query sig) \<noteq> sig_sha256 sig then Inl HistoryValueError
      else if interval \<notin> set ALLOWED_INTERVALS then Inl HistoryValueError
      else if history_seconds < interval \<or> history_seconds mod interval \<noteq> 0 \<or> history_seconds > MAX_HISTORY_DAYS * 86400
        then Inl HistoryValueError
      else if settlement < 0 then Inl HistoryValueError
      else bind_res (watermark now interval settlement) (\<lambda>end_t.
        let start = end_t - history_seconds + interval; n = nat (history_seconds div interval) in
        bind_res (plan_chunks start end_t interval (rl_max_points lm)) (\<lambda>plan.
        bind_res (read_chunks en lm sig interval start 0 plan
            \<lparr> rs_values = replicate n None, rs_received = replicate n None, rs_hashed = [], rs_used = 0, rs_last = None \<rparr>)
          (\<lambda>st.
            if rl_deadline_s lm < re_monotonic en (Suc (length plan)) - re_monotonic en 0 then Inl HistoryUnavailable
            else Inr \<lparr> g_query_sha256 = sig_sha256 sig, g_interval_seconds = interval, g_start = start, g_end = end_t,
                       g_values = rs_values st, g_received_at_ms = rs_received st,
                       g_read_completed_ms = re_receipt_ms en (length plan), g_response_sha256 = sha (rs_hashed st),
                       g_chunks = length plan \<rparr>))))"

section \<open>The chunk plan\<close>

lemma upto_conv_shift: "[n + 1..j + (n + 1)] = map (\<lambda>k. k + (n + 1)) [0..j]" for n j :: int
proof (cases "0 \<le> j")
  case True
  then show ?thesis by (intro nth_equalityI) (auto simp: nth_upto)
qed simp

lemma grid_range_append:
  assumes "0 < dt" and "0 \<le> n" and "lo + n * dt \<le> hi"
  shows "grid_range lo (lo + n * dt) dt @ grid_range (lo + n * dt + dt) hi dt = grid_range lo hi dt"
proof -
  have q: "n \<le> (hi - lo) div dt" using assms zdiv_mono1 [of "n * dt" "hi - lo" dt] by simp
  have "(hi - (lo + n * dt + dt)) div dt = (hi - lo) div dt - (n + 1)"
    using assms(1) div_mult_self1 [of dt "hi - lo" "- (n + 1)"] by (simp add: algebra_simps)
  moreover have "map (\<lambda>k. lo + n * dt + dt + k * dt) [0..j] = map (\<lambda>k. lo + k * dt) [n + 1..j + (n + 1)]" for j
    unfolding upto_conv_shift [of n j] by (simp add: o_def algebra_simps)
  ultimately have "grid_range (lo + n * dt + dt) hi dt = map (\<lambda>k. lo + k * dt) [n + 1..(hi - lo) div dt]"
    by (simp add: grid_range_def)
  moreover have "grid_range lo (lo + n * dt) dt = map (\<lambda>k. lo + k * dt) [0..n]" using assms(1) by (simp add: grid_range_def)
  moreover have "[0..n] @ [n + 1..(hi - lo) div dt] = [0..(hi - lo) div dt]" using assms(2) q by (simp add: upto_split2 [symmetric])
  ultimately show ?thesis by (simp add: grid_range_def flip: map_append)
qed

lemma plan_loop_cover:
  assumes "0 < dt" and "1 \<le> mp" and "(end_t - s) mod dt = 0"
  shows "concat (map (\<lambda>(a, b). grid_range a b dt) (plan_loop s end_t dt mp)) = grid_range s end_t dt \<and>
     (\<forall>(a, b) \<in> set (plan_loop s end_t dt mp). s \<le> a \<and> a \<le> b \<and> b \<le> end_t \<and> (a - s) mod dt = 0 \<and>
        (b - a) div dt + 1 \<le> mp)"
  using assms
proof (induction s end_t dt mp rule: plan_loop.induct)
  case (1 s end_t dt mp)
  show ?case
  proof (cases "s \<le> end_t")
    case False
    then have "(end_t - s) div dt < 0" using "1.prems"(1) by (simp add: pos_imp_zdiv_neg_iff)
    then show ?thesis using False by (simp add: plan_loop.simps [of s] grid_range_def)
  next
    case True
    have "dt dvd end_t - s" using "1.prems"(3) by (rule mod_0_imp_dvd)
    then obtain q where q: "end_t - s = q * dt" by (metis dvdE mult.commute)
    have "0 \<le> q" using q True "1.prems"(1) by (metis diff_ge_0_iff_ge mult_neg_pos not_le)
    define n where "n = min q (mp - 1)"
    let ?e = "min end_t (s + (mp - 1) * dt)"
    have n: "0 \<le> n" "n \<le> q" "n \<le> mp - 1" using \<open>0 \<le> q\<close> "1.prems"(2) by (auto simp: n_def)
    have e: "?e = s + n * dt"
    proof (cases "q \<le> mp - 1")
      case True
      then have "q * dt \<le> (mp - 1) * dt" using "1.prems"(1) by (intro mult_right_mono) auto
      then show ?thesis using q True by (simp add: n_def min_def)
    next
      case False
      then have "(mp - 1) * dt \<le> q * dt" using "1.prems"(1) by (intro mult_right_mono) auto
      then show ?thesis using q False by (simp add: n_def min_def)
    qed
    have le: "s + n * dt \<le> end_t" using e by (metis min.cobounded1)
    have mod: "(end_t - (?e + dt)) mod dt = 0"
    proof -
      have "end_t - (?e + dt) = (q - n - 1) * dt" using e q by (simp add: algebra_simps)
      then show ?thesis by simp
    qed
    have g: "s \<le> end_t \<and> 0 < dt \<and> 1 \<le> mp" using True "1.prems" by simp
    note IH = "1.IH" [OF g refl "1.prems"(1,2) mod]
    have unf: "plan_loop s end_t dt mp = (s, ?e) # plan_loop (?e + dt) end_t dt mp"
      using g by (simp add: plan_loop.simps [of s] Let_def)
    have "concat (map (\<lambda>(a, b). grid_range a b dt) (plan_loop s end_t dt mp)) = grid_range s end_t dt"
      using IH grid_range_append [OF "1.prems"(1) n(1) le] unfolding unf e by simp
    moreover have "s \<le> a \<and> a \<le> b \<and> b \<le> end_t \<and> (a - s) mod dt = 0 \<and> (b - a) div dt + 1 \<le> mp"
      if ab: "(a, b) \<in> set (plan_loop s end_t dt mp)" for a b
    proof (cases "(a, b) = (s, ?e)")
      case True
      then show ?thesis using e n "1.prems"(1) le by simp
    next
      case False
      then have r: "s + n * dt + dt \<le> a" "a \<le> b" "b \<le> end_t" "(a - (s + n * dt + dt)) mod dt = 0" "(b - a) div dt + 1 \<le> mp"
        using ab IH unfolding unf e by auto
      have "(a - s) mod dt = ((a - (s + n * dt + dt)) + (n + 1) * dt) mod dt" by (simp add: algebra_simps)
      also have "\<dots> = 0" using r(4) by (metis mod_mult_self1)
      finally have "(a - s) mod dt = 0" .
      moreover have "0 \<le> n * dt" using n(1) "1.prems"(1) by simp
      ultimately show ?thesis using r "1.prems"(1) by simp
    qed
    ultimately show ?thesis by blast
  qed
qed

section \<open>The watermark in exact arithmetic\<close>

lemma rnd_dyadic: "\<bar>m\<bar> < 2 ^ 53 \<Longrightarrow> j \<le> 1074 \<Longrightarrow> rnd (of_int m / 2 ^ j) = of_int m / 2 ^ j"
  using rnd_representable [of m "- int j"] by (simp add: power_int_minus field_simps)

lemma round64_grid:
  fixes L H :: int
  assumes "of_int L \<le> x" and "x \<le> of_int H / 2 ^ j" and "\<bar>L\<bar> < 2 ^ 53" and "\<bar>H\<bar> < 2 ^ 53" and "j \<le> 1074"
  shows "\<exists>y. round64 x = Fin y \<and> of_int L \<le> y \<and> y \<le> of_int H / 2 ^ j"
proof -
  have b: "of_int L \<le> rnd x" "rnd x \<le> of_int H / 2 ^ j"
    using rnd_mono [OF assms(1)] rnd_mono [OF assms(2)] rnd_of_int [OF assms(3)] rnd_dyadic [OF assms(4,5)] by simp_all
  have lim: "(2::rat) ^ 53 < float_limit" unfolding float_limit_def by (intro power_strict_increasing) simp_all
  have "(of_int (- (2 ^ 53)) :: rat) \<le> of_int L" using assms(3) unfolding of_int_le_iff by linarith
  moreover have "(of_int H :: rat) \<le> of_int (2 ^ 53)" using assms(4) unfolding of_int_le_iff by linarith
  then have "(of_int H :: rat) / 2 ^ j \<le> of_int (2 ^ 53) / 2 ^ j" by (intro divide_right_mono) simp_all
  moreover have "(2::rat) ^ 53 / 2 ^ j \<le> 2 ^ 53" by (simp add: divide_le_eq)
  ultimately have "- (2 ^ 53) \<le> (of_int L :: rat)" "(of_int H :: rat) / 2 ^ j \<le> 2 ^ 53" by simp_all
  then have "\<not> float_limit \<le> rnd x" "\<not> rnd x \<le> - float_limit" using b lim by linarith+
  then show ?thesis using b by (simp add: round64_def Let_def)
qed

text \<open>The three roundings of \<open>floor((ms / 1000 - settle) / interval)\<close> never move the result: a time is at least a
  millisecond away from the next grid point, which is far more than the roundings.\<close>

lemma watermark_quotient:
  fixes now_ms s dt :: int
  assumes now: "0 \<le> now_ms" "now_ms < 2 ^ 42" and s: "0 \<le> s" "s \<le> 2 ^ 20" and dt: "0 < dt" "dt \<le> 1024"
  shows "\<exists>K. K = (now_ms - 1000 * s) div (1000 * dt) \<and> 1000 * (dt * K) \<le> now_ms - 1000 * s \<and>
     now_ms - 1000 * s \<le> 1000 * (dt * K + dt) - 1 \<and> dt * K < 2 ^ 33 \<and> - (2 ^ 22) < dt * K \<and> K < 2 ^ 33 - 1 \<and> - (2 ^ 22) < K"
proof -
  define K where "K = (now_ms - 1000 * s) div (1000 * dt)"
  let ?r = "(now_ms - 1000 * s) mod (1000 * dt)"
  have "now_ms - 1000 * s = 1000 * dt * K + ?r" unfolding K_def by (metis mult_div_mod_eq)
  moreover have "0 \<le> ?r" "?r < 1000 * dt" using dt(1) by simp_all
  ultimately have N: "1000 * (dt * K) \<le> now_ms - 1000 * s" "now_ms - 1000 * s \<le> 1000 * (dt * K + dt) - 1"
    by (simp_all add: algebra_simps)
  have "1000 * p < 2 ^ 42 \<and> - (2 ^ 22) < p" if "1000 * p \<le> now_ms - 1000 * s" "now_ms - 1000 * s \<le> 1000 * (p + dt) - 1" for p
    using that now s dt by simp
  from this [OF N] have P: "1000 * (dt * K) < 2 ^ 42" "- (2 ^ 22) < dt * K" by simp_all
  have up: "K \<le> dt * K" if "0 \<le> K" using that dt(1) mult_right_mono [of 1 dt K] by simp
  have down: "dt * K \<le> K" if "K \<le> 0" using that dt(1) mult_right_mono_neg [of 1 dt K] by simp
  have "K < 2 ^ 33 - 1 \<and> - (2 ^ 22) < K" if "0 \<le> K \<Longrightarrow> K \<le> p" "K \<le> 0 \<Longrightarrow> p \<le> K" "1000 * p < 2 ^ 42" "- (2 ^ 22) < p" for p
    using that by (cases "0 \<le> K") simp_all
  from this [OF up down P] have "K < 2 ^ 33 - 1 \<and> - (2 ^ 22) < K" .
  then show ?thesis using N P K_def by (intro exI [of _ K]) simp
qed

lemma watermark_floor:
  fixes now_ms s dt :: int
  assumes now: "0 \<le> now_ms" "now_ms < 2 ^ 42" and s: "0 \<le> s" "s \<le> 2 ^ 20" and dt: "0 < dt" "dt \<le> 1024"
  shows "\<exists>a b c. round64 (of_int now_ms / 1000) = Fin a \<and> round64 (a - of_int s) = Fin b \<and>
     round64 (b / of_int dt) = Fin c \<and> \<lfloor>c\<rfloor> = (now_ms - 1000 * s) div (1000 * dt)"
proof -
  obtain K where K: "K = (now_ms - 1000 * s) div (1000 * dt)" "1000 * (dt * K) \<le> now_ms - 1000 * s"
    "now_ms - 1000 * s \<le> 1000 * (dt * K + dt) - 1" "dt * K < 2 ^ 33" "- (2 ^ 22) < dt * K" "K < 2 ^ 33 - 1" "- (2 ^ 22) < K"
    using watermark_quotient [OF assms] by blast
  define P where "P = dt * K"
  note N = K(2-5) [folded P_def]
  have bnd: "\<bar>P + s\<bar> < 2 ^ 53" "\<bar>(P + dt + s) * 1024 - 1\<bar> < 2 ^ 53" "\<bar>P\<bar> < 2 ^ 53" "\<bar>(P + dt) * 1024 - 1\<bar> < 2 ^ 53"
    "\<bar>K\<bar> < 2 ^ 53" "\<bar>(K + 1) * 2 ^ 20 - 1\<bar> < 2 ^ 53"
    using N(3,4) K(6,7) s dt by (simp_all add: abs_less_iff)
  have "(of_int (1000 * (P + s)) :: rat) \<le> of_int now_ms" "(of_int now_ms :: rat) \<le> of_int (1000 * (P + dt + s) - 1)"
    using N(1,2) unfolding of_int_le_iff by (simp_all add: algebra_simps)
  then have "of_int (P + s) \<le> (of_int now_ms / 1000 :: rat)" "of_int now_ms / 1000 \<le> (of_int ((P + dt + s) * 1024 - 1) / 2 ^ 10 :: rat)"
    by (simp_all add: field_simps)
  from round64_grid [OF this bnd(1,2)] obtain a where a: "round64 (of_int now_ms / 1000) = Fin a"
    "of_int (P + s) \<le> a" "a \<le> of_int ((P + dt + s) * 1024 - 1) / 2 ^ 10" by auto
  then have "of_int P \<le> a - of_int s" "a - of_int s \<le> of_int ((P + dt) * 1024 - 1) / 2 ^ 10" by (simp_all add: field_simps)
  from round64_grid [OF this bnd(3,4)] obtain b where b: "round64 (a - of_int s) = Fin b"
    "of_int P \<le> b" "b \<le> of_int ((P + dt) * 1024 - 1) / 2 ^ 10" by auto
  have dtr: "(0::rat) < of_int dt" "(of_int dt :: rat) \<le> of_int 1024" using dt unfolding of_int_le_iff by simp_all
  have lo: "of_int K \<le> b / of_int dt" using b(2) dtr(1) by (simp add: P_def field_simps)
  have "b * 1024 \<le> of_int dt * (of_int K + 1) * 1024 - 1" using b(3) by (simp add: P_def field_simps)
  then have "b \<le> of_int dt * (of_int K + 1) - 1 / 1024" by simp
  also have "\<dots> \<le> of_int dt * (of_int K + 1) - of_int dt / 2 ^ 20" using dtr(2) by simp
  also have "\<dots> = of_int dt * (of_int ((K + 1) * 2 ^ 20 - 1) / 2 ^ 20)" by (simp add: field_simps)
  finally have "b / of_int dt \<le> of_int ((K + 1) * 2 ^ 20 - 1) / 2 ^ 20" using dtr(1) by (simp add: pos_divide_le_eq mult.commute)
  from round64_grid [OF lo this bnd(5,6)] obtain c where c: "round64 (b / of_int dt) = Fin c" "of_int K \<le> c"
    "c \<le> of_int ((K + 1) * 2 ^ 20 - 1) / 2 ^ 20" by auto
  then have "\<lfloor>c\<rfloor> = K" by (intro floor_unique) (simp_all add: field_simps)
  with a(1) b(1) c(1) K(1) show ?thesis by blast
qed

section \<open>What a read stores\<close>

definition rate_ok :: "pyfloat \<Rightarrow> bool" where
  "rate_ok v \<longleftrightarrow> is_finite v \<and> 0 \<le> v"

text \<open>A slot holds a rate and the receipt time of the answer it came in, or nothing.\<close>

definition slot_ok :: "pyfloat option \<Rightarrow> int option \<Rightarrow> bool" where
  "slot_ok v r = (case v of None \<Rightarrow> r = None | Some x \<Rightarrow> rate_ok x \<and> r \<noteq> None)"

definition slots_ok :: "nat \<Rightarrow> read_state \<Rightarrow> bool" where
  "slots_ok n st \<longleftrightarrow> length (rs_values st) = n \<and> length (rs_received st) = n \<and>
     (\<forall>i < n. slot_ok (rs_values st ! i) (rs_received st ! i))"

lemma sample_rate_ok: "sample_rate ft raw = Inr v \<Longrightarrow> rate_ok v"
proof -
  have "0 \<le> v" if "is_finite v" "\<not> v < 0" for v :: pyfloat
    using that by (cases v) (auto simp: zero_pyfloat_def)
  then show "sample_rate ft raw = Inr v \<Longrightarrow> rate_ok v"
    by (auto simp: sample_rate_def bind_res_Inr_iff rate_ok_def split: if_splits)
qed

lemma parse_samples_ok:
  "parse_samples ft lo hi interval last_ts ss = Inr ps \<Longrightarrow>
   (\<forall>(t, v) \<in> set ps. lo \<le> t \<and> t \<le> hi \<and> t mod interval = 0 \<and> rate_ok v) \<and> sorted_wrt (<) (map fst ps) \<and>
   (\<forall>(t, v) \<in> set ps. \<forall>l. last_ts = Some l \<longrightarrow> l < t)"
proof (induction ss arbitrary: last_ts ps)
  case (Cons s ss)
  then obtain t v qs where ps: "ps = (t, v) # qs" and s: "parse_sample ft lo hi interval last_ts s = Inr (t, v)"
    and qs: "parse_samples ft lo hi interval (Some t) ss = Inr qs"
    by (auto simp: bind_res_Inr_iff)
  have "lo \<le> t \<and> t \<le> hi \<and> t mod interval = 0 \<and> rate_ok v \<and> (\<forall>l. last_ts = Some l \<longrightarrow> l < t)"
    using s by (auto simp: parse_sample_def bind_res_Inr_iff sample_rate_ok split: json.splits list.splits if_splits option.splits)
  with Cons.IH [OF qs] ps show ?case by fastforce
qed simp

lemma parse_chunk_ok:
  assumes "parse_chunk ft doc lo hi interval = Inr ps"
  shows "(\<forall>(t, v) \<in> set ps. lo \<le> t \<and> t \<le> hi \<and> t mod interval = 0 \<and> rate_ok v) \<and> sorted_wrt (<) (map fst ps)"
proof -
  have "ps = [] \<or> (\<exists>ss. parse_samples ft lo hi interval None ss = Inr ps)"
    using assms by (auto simp: parse_chunk_def simp del: get_obj.simps split: json.splits list.splits if_splits)
  then show ?thesis using parse_samples_ok by fastforce
qed

lemma store_samples_ok:
  assumes "store_samples start interval at_ms ps st = Inr st'" and "slots_ok n st" and "\<forall>(t, v) \<in> set ps. rate_ok v"
  shows "slots_ok n st'"
  using assms
proof (induction ps arbitrary: st)
  case (Cons p ps)
  obtain t v where p: "p = (t, v)" by (cases p)
  let ?i = "nat ((t - start) div interval)"
  let ?st = "st\<lparr> rs_last := Some t, rs_values := (rs_values st)[?i := Some v], rs_received := (rs_received st)[?i := Some at_ms] \<rparr>"
  have "slot_ok (Some v) (Some at_ms)" using Cons.prems(3) p by (simp add: slot_ok_def)
  then have "slots_ok n ?st" using Cons.prems(2)
    by (auto simp: slots_ok_def) (metis nth_list_update_eq nth_list_update_neq)
  moreover have "store_samples start interval at_ms ps ?st = Inr st'"
    using Cons.prems(1) p by (auto simp: Let_def split: if_splits)
  ultimately show ?case using Cons.IH Cons.prems(3) by simp
qed simp

lemma read_chunk_Inr:
  assumes "read_chunk en lm sig interval start k (a, b) st = Inr st'"
  shows "\<exists>doc ps body. parse_chunk (re_float en) doc a b interval = Inr ps \<and>
     rs_used st + int (length body) \<le> rl_max_total_bytes lm \<and>
     store_samples start interval (re_receipt_ms en k) ps
       (st\<lparr> rs_used := rs_used st + int (length body), rs_hashed := rs_hashed st @ be8 (length body) @ body \<rparr>) = Inr st'"
proof -
  obtain doc ps body where "parse_chunk (re_float en) doc a b interval = Inr ps"
    "\<not> rl_max_total_bytes lm < rs_used st + int (length body)"
    "store_samples start interval (re_receipt_ms en k) ps
       (st\<lparr> rs_used := rs_used st + int (length body), rs_hashed := rs_hashed st @ be8 (length body) @ body \<rparr>) = Inr st'"
    using assms
    by (auto simp: read_chunk_def Let_def bind_res_Inr_iff split: if_splits fetch_result.splits option.splits)
  then show ?thesis by (meson not_less)
qed

lemma store_samples_used: "store_samples start interval at_ms ps st = Inr st' \<Longrightarrow> rs_used st' = rs_used st"
  by (induction ps arbitrary: st) (auto simp: Let_def split: if_splits)

lemma read_chunks_ok:
  assumes "read_chunks en lm sig interval start k cs st = Inr st'" and "slots_ok n st" and "rs_used st \<le> rl_max_total_bytes lm"
  shows "slots_ok n st' \<and> rs_used st' \<le> rl_max_total_bytes lm"
  using assms
proof (induction cs arbitrary: k st)
  case (Cons c cs)
  obtain a b where c: "c = (a, b)" by (cases c)
  from Cons.prems(1) c obtain st1 where st1: "read_chunk en lm sig interval start k (a, b) st = Inr st1"
    and rest: "read_chunks en lm sig interval start (Suc k) cs st1 = Inr st'" by (auto simp: bind_res_Inr_iff)
  from read_chunk_Inr [OF st1] obtain doc ps body where
    parsed: "parse_chunk (re_float en) doc a b interval = Inr ps" and used: "rs_used st + int (length body) \<le> rl_max_total_bytes lm"
    and stored: "store_samples start interval (re_receipt_ms en k) ps
       (st\<lparr> rs_used := rs_used st + int (length body), rs_hashed := rs_hashed st @ be8 (length body) @ body \<rparr>) = Inr st1" by blast
  have "slots_ok n (st\<lparr> rs_used := rs_used st + int (length body), rs_hashed := rs_hashed st @ be8 (length body) @ body \<rparr>)"
    using Cons.prems(2) by (simp add: slots_ok_def)
  from store_samples_ok [OF stored this] parse_chunk_ok [OF parsed] have "slots_ok n st1" by fastforce
  moreover have "rs_used st1 \<le> rl_max_total_bytes lm" using store_samples_used [OF stored] used by simp
  ultimately show ?case using Cons.IH [OF rest] by blast
qed simp

section \<open>Properties\<close>

text \<open>The chunk plan reads every grid point exactly once: the chunks, in order, list the grid from start to end without
  gap or overlap, each within the bounds and of at most \<open>max_points\<close> points.\<close>

theorem plan_chunks_cover_once:
  assumes "plan_chunks start end_t interval max_points = Inr plan" and "0 < interval"
  shows "concat (map (\<lambda>(a, b). grid_range a b interval) plan) = grid_range start end_t interval \<and>
     (\<forall>(a, b) \<in> set plan. start \<le> a \<and> a \<le> b \<and> b \<le> end_t \<and> int (length (grid_range a b interval)) \<le> max_points)"
proof -
  have plan: "plan = plan_loop start end_t interval max_points" and g: "1 \<le> max_points" "(end_t - start) mod interval = 0"
    using assms(1) by (auto simp: plan_chunks_def split: if_splits)
  from plan_loop_cover [OF assms(2) g] show ?thesis unfolding plan
    using assms(2) by (auto simp: grid_range_def pos_imp_zdiv_nonneg_iff)
qed

theorem plan_chunks_cover_once_witness:
  "\<exists>plan. plan_chunks 0 600 60 4 = Inr plan \<and> concat (map (\<lambda>(a, b). grid_range a b 60) plan) = grid_range 0 600 60"
  using plan_chunks_cover_once [of 0 600 60 4 "plan_loop 0 600 60 4"] by (simp add: plan_chunks_def)

text \<open>The watermark computed in floating point from a millisecond clock is the exact one: the newest grid point at or
  before the time less the settlement, for every time until the year 2109.\<close>

theorem watermark_exact:
  assumes "0 \<le> now_ms" and "now_ms < 2 ^ 42" and "0 \<le> settlement" and "settlement \<le> 900" and "interval \<in> set ALLOWED_INTERVALS"
  shows "watermark (WallNumber (JFloat (int_div now_ms 1000))) interval settlement =
     Inr ((now_ms - 1000 * settlement) div (1000 * interval) * interval)"
proof -
  have dt: "0 < interval" "interval \<le> 1024" using assms(5) by (auto simp: ALLOWED_INTERVALS_def)
  have small: "float_of_int settlement = Fin (of_int settlement)" "float_of_int interval = Fin (of_int interval)"
    using assms(3,4) dt by (simp_all add: float_of_int_def round64_of_int)
  have "settlement \<le> 2 ^ 20" using assms(4) by simp
  from watermark_floor [OF assms(1-3) this dt] obtain a b c where "round64 (of_int now_ms / 1000) = Fin a"
    "round64 (a - of_int settlement) = Fin b" "round64 (b / of_int interval) = Fin c"
    "\<lfloor>c\<rfloor> = (now_ms - 1000 * settlement) div (1000 * interval)" by blast
  then show ?thesis by (simp add: watermark_def epoch_s_def int_div_def small minus_pyfloat_def)
qed

theorem watermark_exact_witness:
  "watermark (WallNumber (JFloat (int_div 1700000123456 1000))) 300 120 = Inr 1699999800"
  using watermark_exact [of 1700000123456 120 300] by (simp add: ALLOWED_INTERVALS_def)

text \<open>C23: a history that is read has one slot per grid point up to the watermark; a slot is either missing or holds a
  finite, non-negative rate with the time its answer was received (nothing is interpolated), and the grid ends at the
  watermark and spans the asked history.\<close>

theorem history_read_sound:
  assumes "read_rps_history sha en lm sig now interval history settlement = Inr g" and "0 \<le> rl_max_total_bytes lm"
  shows "int (length (g_values g)) * interval = history \<and> length (g_received_at_ms g) = length (g_values g) \<and>
     (\<forall>i < length (g_values g). slot_ok (g_values g ! i) (g_received_at_ms g ! i)) \<and>
     watermark now interval settlement = Inr (g_end g) \<and> g_start g = g_end g - history + interval \<and>
     (\<exists>s. series_from_grid g = Inr s \<and> series_end s = g_end g)"
proof -
  obtain end_t plan st where w: "watermark now interval settlement = Inr end_t" and iv: "interval \<in> set ALLOWED_INTERVALS"
    and h: "interval \<le> history" "history mod interval = 0"
    and rd: "read_chunks en lm sig interval (end_t - history + interval) 0 plan \<lparr> rs_values = replicate (nat (history div interval)) None,
       rs_received = replicate (nat (history div interval)) None, rs_hashed = [], rs_used = 0, rs_last = None \<rparr> = Inr st"
    and g: "g_values g = rs_values st" "g_received_at_ms g = rs_received st" "g_end g = end_t" "g_start g = end_t - history + interval"
      "g_interval_seconds g = interval"
    using assms(1) by (auto simp: read_rps_history_def Let_def bind_res_Inr_iff not_less split: if_splits)
  have pos: "0 < interval" using allowed_interval [OF iv] by simp
  have "slots_ok (nat (history div interval)) st"
    using read_chunks_ok [OF rd, of "nat (history div interval)"] assms(2) by (simp add: slots_ok_def slot_ok_def)
  then have st: "length (rs_values st) = nat (history div interval)" "length (rs_received st) = nat (history div interval)"
    "\<forall>i < nat (history div interval). slot_ok (rs_values st ! i) (rs_received st ! i)" by (simp_all add: slots_ok_def)
  have len: "int (nat (history div interval)) * interval = history"
    using h pos by (simp add: pos_imp_zdiv_nonneg_iff) (metis div_mult_mod_eq add.right_neutral)
  have "rate_or_nan (case v of None \<Rightarrow> NaN | Some x \<Rightarrow> x)" if "v \<in> set (rs_values st)" for v
    using that st by (auto simp: in_set_conv_nth slot_ok_def rate_ok_def rate_or_nan_def zero_pyfloat_def
        split: option.splits pyfloat.splits)
  then have "series_from_grid g = Inr \<lparr> sr_start = g_start g, sr_interval = interval,
      sr_values = map (\<lambda>v. case v of None \<Rightarrow> NaN | Some x \<Rightarrow> x) (rs_values st) \<rparr>"
    by (simp add: series_from_grid_def make_series_def g list_all_iff)
  moreover have "series_end \<lparr> sr_start = g_start g, sr_interval = interval,
      sr_values = map (\<lambda>v. case v of None \<Rightarrow> NaN | Some x \<Rightarrow> x) (rs_values st) \<rparr> = g_end g"
    using len st(1) by (simp add: series_end_def g left_diff_distrib)
  ultimately show ?thesis using w g st len by simp
qed

text \<open>A backend that answers every range query with no series, for the witness.\<close>

definition demo_read_env :: read_env where
  "demo_read_env = \<lparr> re_fetch = (\<lambda>_ _ _. FetchAnswer 200 ''{}''), re_monotonic = (\<lambda>_. Fin 0), re_receipt_ms = (\<lambda>_. 1700000123500),
     re_loads = (\<lambda>_. Some (JObj [(''status'', JStr ''success''),
       (''data'', JObj [(''resultType'', JStr ''matrix''), (''result'', JList [])])])), re_float = (\<lambda>_. None) \<rparr>"

lemma demo_history_read: "\<exists>g. read_rps_history demo_sha demo_read_env default_limits (b_signal demo_bound)
    (WallNumber (JFloat (int_div 1700000123456 1000))) 300 600 120 = Inr g"
proof -
  have w: "watermark (WallNumber (JFloat (int_div 1700000123456 1000))) 300 120 = Inr 1699999800"
    using watermark_exact [of 1700000123456 120 300] by (simp add: ALLOWED_INTERVALS_def)
  have p: "plan_loop 1699999500 1699999800 300 10080 = [(1699999500, 1699999800)]"
    by (simp add: plan_loop.simps)
  have "round64 20 = Fin 20" using round64_of_int [of 20] by simp
  moreover have "sig_contract (b_signal demo_bound) = SIGNAL_CONTRACT" "sig_query (b_signal demo_bound) = ''q''"
    "sig_sha256 (b_signal demo_bound) = demo_sha ''q''" by (simp_all add: demo_bound_def demo_sha_def)
  ultimately show ?thesis
    by (simp add: read_rps_history_def w plan_chunks_def p default_limits_def ALLOWED_INTERVALS_def MAX_HISTORY_DAYS_def
        read_chunk_def demo_read_env_def parse_chunk_def minus_pyfloat_def zero_pyfloat_def)
qed

theorem history_read_sound_witness:
  "\<exists>g. read_rps_history demo_sha demo_read_env default_limits (b_signal demo_bound)
     (WallNumber (JFloat (int_div 1700000123456 1000))) 300 600 120 = Inr g \<and> length (g_values g) = 2"
proof -
  obtain g where g: "read_rps_history demo_sha demo_read_env default_limits (b_signal demo_bound)
      (WallNumber (JFloat (int_div 1700000123456 1000))) 300 600 120 = Inr g" using demo_history_read by blast
  have "0 \<le> rl_max_total_bytes default_limits" by (simp add: default_limits_def)
  from history_read_sound [OF g this] g show ?thesis by auto
qed

end
