(* ===== verification/Timestamps.thy ===== *)
theory Timestamps
  imports Contracts_Window
begin

text \<open>
  The wire timestamps of \<^verbatim>\<open>forecasting/contracts.py\<close>: \<open>format_ts\<close>, \<open>format_ms\<close>, \<open>parse_ts\<close>, \<open>parse_ms\<close>, over the
  proleptic Gregorian calendar of Python's \<open>datetime\<close> (\<open>_ymd2ord\<close> and \<open>_ord2ymd\<close> of its standard library, which
  the code reaches through \<open>datetime.fromtimestamp\<close>, \<open>datetime(...)\<close> and \<open>timestamp()\<close>). The calendar is proved a
  bijection between the days of the years 1 to 9999 and their dates, and from it formatting and parsing are inverse
  to each other.
\<close>

section \<open>The calendar of \<open>datetime\<close>\<close>

definition is_leap :: "int \<Rightarrow> bool" where
  "is_leap y \<longleftrightarrow> y mod 4 = 0 \<and> (y mod 100 \<noteq> 0 \<or> y mod 400 = 0)"

definition month_lengths :: "int list" where
  "month_lengths = [31, 28, 31, 30, 31, 30, 31, 31, 30, 31, 30, 31]"

definition month_starts :: "int list" where
  "month_starts = [0, 31, 59, 90, 120, 151, 181, 212, 243, 273, 304, 334]"

definition days_in_month :: "bool \<Rightarrow> int \<Rightarrow> int" where
  "days_in_month leap m = (if m = 2 \<and> leap then 29 else month_lengths ! nat (m - 1))"

definition days_before_month :: "bool \<Rightarrow> int \<Rightarrow> int" where
  "days_before_month leap m = month_starts ! nat (m - 1) + (if m > 2 \<and> leap then 1 else 0)"

definition days_before_year :: "int \<Rightarrow> int" where
  "days_before_year y = (y - 1) * 365 + (y - 1) div 4 - (y - 1) div 100 + (y - 1) div 400"

definition ymd2ord :: "int \<Rightarrow> int \<Rightarrow> int \<Rightarrow> int" where
  "ymd2ord y m d = days_before_year y + days_before_month (is_leap y) m + d"

definition valid_date :: "int \<Rightarrow> int \<Rightarrow> int \<Rightarrow> bool" where
  "valid_date y m d \<longleftrightarrow> 1 \<le> y \<and> y \<le> 9999 \<and> 1 \<le> m \<and> m \<le> 12 \<and> 1 \<le> d \<and> d \<le> days_in_month (is_leap y) m"

text \<open>Month and day of a day of the year: the estimate \<open>(n + 50) >> 5\<close> is right or one too big.\<close>

definition month_day :: "bool \<Rightarrow> int \<Rightarrow> int \<times> int" where
  "month_day leap n =
     (let month = (n + 50) div 32; preceding = days_before_month leap month in
      if preceding > n then (month - 1, n - (preceding - days_in_month leap (month - 1)) + 1)
      else (month, n - preceding + 1))"

definition ord2ymd :: "int \<Rightarrow> int \<times> int \<times> int" where
  "ord2ymd ordinal =
     (let n = ordinal - 1; n400 = n div 146097; n = n mod 146097; n100 = n div 36524; n = n mod 36524;
          n4 = n div 1461; n = n mod 1461; n1 = n div 365; n = n mod 365;
          year = n400 * 400 + 1 + n100 * 100 + n4 * 4 + n1 in
      if n1 = 4 \<or> n100 = 4 then (year - 1, 12, 31)
      else (year, month_day (n1 = 3 \<and> (n4 \<noteq> 24 \<or> n100 = 3)) n))"

lemma month_tables:
  "days_before_month leap 1 = 0" "days_before_month leap 2 = 31"
  "days_before_month leap 3 = 59 + of_bool leap" "days_before_month leap 4 = 90 + of_bool leap"
  "days_before_month leap 5 = 120 + of_bool leap" "days_before_month leap 6 = 151 + of_bool leap"
  "days_before_month leap 7 = 181 + of_bool leap" "days_before_month leap 8 = 212 + of_bool leap"
  "days_before_month leap 9 = 243 + of_bool leap" "days_before_month leap 10 = 273 + of_bool leap"
  "days_before_month leap 11 = 304 + of_bool leap" "days_before_month leap 12 = 334 + of_bool leap"
  "days_in_month leap 1 = 31" "days_in_month leap 2 = 28 + of_bool leap" "days_in_month leap 3 = 31"
  "days_in_month leap 4 = 30" "days_in_month leap 5 = 31" "days_in_month leap 6 = 30" "days_in_month leap 7 = 31"
  "days_in_month leap 8 = 31" "days_in_month leap 9 = 30" "days_in_month leap 10 = 31" "days_in_month leap 11 = 30"
  "days_in_month leap 12 = 31"
  by (simp_all add: days_before_month_def days_in_month_def month_starts_def month_lengths_def)

lemma month_cases:
  assumes "1 \<le> (m::int)" and "m \<le> 12"
  obtains "m = 1" | "m = 2" | "m = 3" | "m = 4" | "m = 5" | "m = 6" | "m = 7" | "m = 8" | "m = 9" | "m = 10"
    | "m = 11" | "m = 12"
proof -
  have "m = 1 \<or> m = 2 \<or> m = 3 \<or> m = 4 \<or> m = 5 \<or> m = 6 \<or> m = 7 \<or> m = 8 \<or> m = 9 \<or> m = 10 \<or> m = 11 \<or> m = 12"
    using assms by arith
  then show thesis using that by blast
qed

lemma month_day_sound:
  assumes "0 \<le> n" and "n < 365 + of_bool leap" and md: "month_day leap n = (m, d)"
  shows "1 \<le> m \<and> m \<le> 12 \<and> 1 \<le> d \<and> d \<le> days_in_month leap m \<and> days_before_month leap m + d = n + 1"
proof -
  define q where "q = (n + 50) div 32"
  have "of_bool leap \<le> (1::int)" by simp
  then have q: "1 \<le> q" "q \<le> 12" "32 * q \<le> n + 50" "n + 50 < 32 * q + 32" using assms(1,2) unfolding q_def by linarith+
  have bool: "of_bool leap = (0::int) \<or> of_bool leap = (1::int)" by simp
  have "month_day leap n = (if days_before_month leap q > n
      then (q - 1, n - (days_before_month leap q - days_in_month leap (q - 1)) + 1)
      else (q, n - days_before_month leap q + 1))"
    by (simp add: month_day_def q_def Let_def)
  with md show ?thesis
    using q assms(1,2) bool
    by (cases rule: month_cases [OF q(1,2)]) (auto simp: month_tables split: if_splits)
qed

lemma days_before_year_cycle:
  assumes y: "y = 400 * a + 100 * b + 4 * c + d + 1" and r: "0 \<le> b" "b \<le> 3" "0 \<le> c" "c \<le> 24" "0 \<le> d" "d \<le> 3"
  shows "days_before_year y = 146097 * a + 36524 * b + 1461 * c + 365 * d"
    and "is_leap y \<longleftrightarrow> d = 3 \<and> (c \<noteq> 24 \<or> b = 3)"
proof -
  have "(y - 1) div 4 = 100 * a + 25 * b + c" by (rule int_div_pos_eq [where r = d]) (use y r in simp_all)
  moreover have "(y - 1) div 100 = 4 * a + b" by (rule int_div_pos_eq [where r = "4 * c + d"]) (use y r in simp_all)
  moreover have "(y - 1) div 400 = a"
    by (rule int_div_pos_eq [where r = "100 * b + 4 * c + d"]) (use y r in simp_all)
  ultimately show "days_before_year y = 146097 * a + 36524 * b + 1461 * c + 365 * d"
    unfolding days_before_year_def using y by simp
  have "y = (d + 1) + 4 * (100 * a + 25 * b + c)" using y by simp
  then have "y mod 4 = (d + 1) mod 4" by (simp only: mod_mult_self2)
  moreover have "d = 0 \<or> d = 1 \<or> d = 2 \<or> d = 3" using r(5,6) by arith
  ultimately have m4: "y mod 4 = 0 \<longleftrightarrow> d = 3" by auto
  have "y = (4 * c + d + 1) + 100 * (4 * a + b)" using y by simp
  then have "y mod 100 = (4 * c + d + 1) mod 100" by (simp only: mod_mult_self2)
  then have m100: "y mod 100 = 0 \<longleftrightarrow> c = 24" if "d = 3" using r(3,4) that by (cases "c = 24") simp_all
  have "y = (100 * b + 4 * c + d + 1) + 400 * (a)" using y by simp
  then have "y mod 400 = (100 * b + 4 * c + d + 1) mod 400" by (simp only: mod_mult_self2)
  then have m400: "y mod 400 = 0 \<longleftrightarrow> b = 3" if "d = 3" "c = 24" using r(1,2) that by (cases "b = 3") simp_all
  show "is_leap y \<longleftrightarrow> d = 3 \<and> (c \<noteq> 24 \<or> b = 3)" 
    unfolding is_leap_def using m4 m100 m400 by (cases "d = 3"; cases "c = 24") simp_all
qed

text \<open>The date of an ordinal is a date of its year, and its ordinal is the one it came from.\<close>

lemma ord2ymd_year:
  assumes "ord2ymd n = (y, m, d)"
  shows "1 \<le> m \<and> m \<le> 12 \<and> 1 \<le> d \<and> d \<le> days_in_month (is_leap y) m \<and> ymd2ord y m d = n"
proof -
  define a where "a = (n - 1) div 146097"
  define r1 where "r1 = (n - 1) mod 146097"
  define b where "b = r1 div 36524"
  define r2 where "r2 = r1 mod 36524"
  define c where "c = r2 div 1461"
  define r3 where "r3 = r2 mod 1461"
  define e where "e = r3 div 365"
  define r where "r = r3 mod 365"
  have eqs: "n - 1 = 146097 * a + r1" "r1 = 36524 * b + r2" "r2 = 1461 * c + r3" "r3 = 365 * e + r"
    by (simp_all add: a_def r1_def b_def r2_def c_def r3_def e_def r_def)
  have lows: "0 \<le> r1" "0 \<le> r2" "0 \<le> r3" "0 \<le> r" by (simp_all add: r1_def r2_def r3_def r_def)
  have highs: "r1 < 146097" "r2 < 36524" "r3 < 1461" "r < 365" by (simp_all add: r1_def r2_def r3_def r_def)
  have rng: "0 \<le> b" "b \<le> 4" "0 \<le> c" "c \<le> 24" "0 \<le> e" "e \<le> 4" using eqs lows highs by linarith+
  define Y where "Y = a * 400 + 1 + b * 100 + c * 4 + e"
  have ymd: "ord2ymd n = (if e = 4 \<or> b = 4 then (Y - 1, 12, 31)
      else (Y, month_day (e = 3 \<and> (c \<noteq> 24 \<or> b = 3)) r))"
    unfolding ord2ymd_def Let_def a_def [symmetric] r1_def [symmetric] b_def [symmetric] r2_def [symmetric]
      c_def [symmetric] r3_def [symmetric] e_def [symmetric] r_def [symmetric] Y_def by (rule refl)
  show ?thesis
  proof (cases "e = 4 \<or> b = 4")
    case True
    then have date: "y = Y - 1" "m = 12" "d = 31" using ymd assms by auto
    show ?thesis
    proof (cases "b = 4")
      case True
      with eqs lows highs rng have z: "c = 0" "e = 0" "r = 0" by linarith+
      have "y = 400 * a + 100 * 3 + 4 * 24 + 3 + 1" using date(1) True z by (simp add: Y_def)
      note cyc = days_before_year_cycle [OF this]
      show ?thesis using cyc date eqs True z by (simp add: ymd2ord_def month_tables)
    next
      case False
      with True have e4: "e = 4" by simp
      with eqs highs lows have r0: "r = 0" by linarith
      have b3: "b \<le> 3" using rng False by linarith
      have not24: "c \<noteq> 24" using eqs(3,4) highs(2) e4 r0 by linarith
      have y: "y = 400 * a + 100 * b + 4 * c + 3 + 1" using date(1) e4 by (simp add: Y_def)
      note cyc = days_before_year_cycle [OF y]
      have "is_leap y" using cyc(2) rng b3 not24 by simp
      moreover have "days_before_year y = 146097 * a + 36524 * b + 1461 * c + 1095" using cyc(1) rng b3 by simp
      ultimately show ?thesis using date eqs e4 r0 by (simp add: ymd2ord_def month_tables)
    qed
  next
    case False
    let ?leap = "e = 3 \<and> (c \<noteq> 24 \<or> b = 3)"
    from False ymd assms have date: "y = Y" "month_day ?leap r = (m, d)" by auto
    have b3: "b \<le> 3" and e3: "e \<le> 3" using rng False by linarith+
    have y: "y = 400 * a + 100 * b + 4 * c + e + 1" using date(1) by (simp add: Y_def)
    note cyc = days_before_year_cycle [OF y rng(1) b3 rng(3,4,5) e3]
    have "r < 365 + of_bool ?leap" using highs(4) by simp
    from month_day_sound [OF lows(4) this date(2)] show ?thesis
      using cyc eqs by (simp add: ymd2ord_def)
  qed
qed

lemma days_before_year_next: "days_before_year (y + 1) = days_before_year y + 365 + of_bool (is_leap y)"
proof -
  define a where "a = (y - 1) div 400"
  define r where "r = (y - 1) mod 400"
  define b where "b = r div 100"
  define r' where "r' = r mod 100"
  define c where "c = r' div 4"
  define d where "d = r' mod 4"
  have eqs: "y - 1 = 400 * a + r" "r = 100 * b + r'" "r' = 4 * c + d"
    by (simp_all add: a_def r_def b_def r'_def c_def d_def)
  have lows: "0 \<le> r" "0 \<le> r'" "0 \<le> d" and highs: "r < 400" "r' < 100" "d < 4"
    by (simp_all add: r_def r'_def d_def)
  have rng: "0 \<le> b" "b \<le> 3" "0 \<le> c" "c \<le> 24" "0 \<le> d" "d \<le> 3" using eqs lows highs by linarith+
  have y: "y = 400 * a + 100 * b + 4 * c + d + 1" using eqs by linarith
  note this_year = days_before_year_cycle [OF y rng]
  consider "d < 3" | "d = 3" "c < 24" | "d = 3" "c = 24" "b < 3" | "d = 3" "c = 24" "b = 3"
    using rng by linarith
  then show ?thesis
  proof cases
    case 1
    then have "y + 1 = 400 * a + 100 * b + 4 * c + (d + 1) + 1" using y by simp
    from days_before_year_cycle(1) [OF this] show ?thesis using rng 1 this_year by simp
  next
    case 2
    then have "y + 1 = 400 * a + 100 * b + 4 * (c + 1) + 0 + 1" using y by simp
    from days_before_year_cycle(1) [OF this] show ?thesis using rng 2 this_year by simp
  next
    case 3
    then have "y + 1 = 400 * a + 100 * (b + 1) + 4 * 0 + 0 + 1" using y by simp
    from days_before_year_cycle(1) [OF this] show ?thesis using rng 3 this_year by simp
  next
    case 4
    then have "y + 1 = 400 * (a + 1) + 100 * 0 + 4 * 0 + 0 + 1" using y by simp
    from days_before_year_cycle(1) [OF this] show ?thesis using 4 this_year by simp
  qed
qed

lemma days_before_year_mono: "y < y' \<Longrightarrow> days_before_year y + 365 + of_bool (is_leap y) \<le> days_before_year y'"
proof (induction "nat (y' - y)" arbitrary: y')
  case 0
  then show ?case by simp
next
  case (Suc n)
  show ?case
  proof (cases "y' = y + 1")
    case True
    then show ?thesis by (simp add: days_before_year_next)
  next
    case False
    then have "days_before_year y + 365 + of_bool (is_leap y) \<le> days_before_year (y' - 1)"
      using Suc by (intro Suc.hyps) simp_all
    moreover have "days_before_year y' = days_before_year (y' - 1) + 365 + of_bool (is_leap (y' - 1))"
      using days_before_year_next [of "y' - 1"] by simp
    ultimately show ?thesis by simp
  qed
qed

lemma day_of_year_bounds:
  assumes "1 \<le> m" "m \<le> 12" "1 \<le> d" "d \<le> days_in_month leap m"
  shows "1 \<le> days_before_month leap m + d" and "days_before_month leap m + d \<le> 365 + of_bool leap"
    and "m < m' \<Longrightarrow> m' \<le> 12 \<Longrightarrow> days_before_month leap m + d \<le> days_before_month leap m'"
proof -
  have bool: "of_bool leap = (0::int) \<or> of_bool leap = (1::int)" by simp
  show "1 \<le> days_before_month leap m + d" "days_before_month leap m + d \<le> 365 + of_bool leap"
    using assms bool by (cases rule: month_cases [OF assms(1,2)]; auto simp: month_tables)+
  assume m': "m < m'" "m' \<le> 12"
  then have "1 \<le> m'" using assms(1) by simp
  have "\<not> days_before_month leap m' < days_before_month leap (m + 1)"
    using m' assms(1)
    by (cases rule: month_cases [OF assms(1,2)]; cases rule: month_cases [OF \<open>1 \<le> m'\<close> m'(2)];
        hypsubst; simp add: month_tables)
  moreover have "days_before_month leap (m + 1) = days_before_month leap m + days_in_month leap m"
    using m' by (cases rule: month_cases [OF assms(1,2)]) (auto simp: month_tables)
  ultimately show "days_before_month leap m + d \<le> days_before_month leap m'" using assms(4) by linarith
qed

definition real_date :: "int \<Rightarrow> int \<Rightarrow> int \<Rightarrow> bool" where
  "real_date y m d \<longleftrightarrow> 1 \<le> m \<and> m \<le> 12 \<and> 1 \<le> d \<and> d \<le> days_in_month (is_leap y) m"

lemma ymd2ord_strict:
  assumes "real_date y m d" and "real_date y' m' d'" and "y < y' \<or> y = y' \<and> (m < m' \<or> m = m' \<and> d < d')"
  shows "ymd2ord y m d < ymd2ord y' m' d'"
proof -
  have b: "days_before_month (is_leap y) m + d \<le> 365 + of_bool (is_leap y)"
    using assms(1) day_of_year_bounds(2) by (simp add: real_date_def)
  have b': "1 \<le> days_before_month (is_leap y') m' + d'"
    using assms(2) day_of_year_bounds(1) by (simp add: real_date_def)
  consider "y < y'" | "y = y'" "m < m'" | "y = y'" "m = m'" "d < d'" using assms(3) by blast
  then show ?thesis
  proof cases
    case 1
    then show ?thesis using b b' days_before_year_mono [of y y'] by (simp add: ymd2ord_def)
  next
    case 2
    then have "days_before_month (is_leap y) m + d \<le> days_before_month (is_leap y) m'"
      using assms(1,2) day_of_year_bounds(3) [of m d "is_leap y" m'] by (simp add: real_date_def)
    then show ?thesis using assms(2) 2 by (simp add: ymd2ord_def real_date_def)
  next
    case 3
    then show ?thesis by (simp add: ymd2ord_def)
  qed
qed

lemma ord2ymd_ymd2ord:
  assumes "real_date y m d"
  shows "ord2ymd (ymd2ord y m d) = (y, m, d)"
proof -
  obtain y' m' d' where o': "ord2ymd (ymd2ord y m d) = (y', m', d')" by (cases "ord2ymd (ymd2ord y m d)") auto
  from ord2ymd_year [OF this] have r: "real_date y' m' d'" "ymd2ord y' m' d' = ymd2ord y m d"
    by (simp_all add: real_date_def)
  have "y = y'" "m = m'" "d = d'"
    using ymd2ord_strict [OF assms r(1)] ymd2ord_strict [OF r(1) assms] r(2) by (metis less_irrefl linorder_cases)+
  with o' show ?thesis by simp
qed

lemma ymd2ord_year_range:
  assumes "real_date y m d"
  shows "ymd2ord a 1 1 \<le> ymd2ord y m d \<longleftrightarrow> a \<le> y"
proof -
  have a: "real_date a 1 1" by (simp add: real_date_def month_tables)
  have "a \<le> y \<Longrightarrow> ymd2ord a 1 1 \<le> ymd2ord y m d"
    using ymd2ord_strict [OF a assms] assms by (cases "a = y"; cases "m = 1"; cases "d = 1") (auto simp: real_date_def)
  moreover have "y < a \<Longrightarrow> ymd2ord y m d < ymd2ord a 1 1" by (rule ymd2ord_strict [OF assms a]) simp
  ultimately show ?thesis by linarith
qed

section \<open>Formatting and parsing\<close>

type_synonym civil = "(int \<times> int \<times> int) \<times> int \<times> int \<times> int"

text \<open>\<open>datetime.fromtimestamp(s, tz=timezone.utc)\<close>: 719163 is the ordinal of 1970-01-01 and 3652059 of 9999-12-31.\<close>

definition fromtimestamp :: "int \<Rightarrow> contract_error + civil" where
  "fromtimestamp s =
     (let day = 719163 + s div 86400; sec = s mod 86400 in
      if 1 \<le> day \<and> day \<le> 3652059
      then Inr (ord2ymd day, sec div 3600, sec mod 3600 div 60, sec mod 60)
      else Inl PyTimeOutOfRange)"

text \<open>\<open>datetime(...)\<close> refuses a time that does not exist; \<open>timestamp()\<close> counts its seconds from the epoch (below
  \<open>2^53\<close>, so its float is exact).\<close>

definition to_timestamp :: "civil \<Rightarrow> int option" where
  "to_timestamp = (\<lambda>((y, m, d), h, mi, s).
     if valid_date y m d \<and> 0 \<le> h \<and> h \<le> 23 \<and> 0 \<le> mi \<and> mi \<le> 59 \<and> 0 \<le> s \<and> s \<le> 59
     then Some ((ymd2ord y m d - 719163) * 86400 + h * 3600 + mi * 60 + s) else None)"

definition dig :: "int \<Rightarrow> char" where
  "dig n = digit_char (nat n)"

definition pad2 :: "int \<Rightarrow> string" where
  "pad2 n = [dig (n div 10), dig (n mod 10)]"

definition pad3 :: "int \<Rightarrow> string" where
  "pad3 n = [dig (n div 100), dig (n div 10 mod 10), dig (n mod 10)]"

text \<open>\<open>strftime("%Y-%m-%dT%H:%M:%S")\<close>; the C library's \<open>%Y\<close> does not pad the year.\<close>

definition strftime :: "civil \<Rightarrow> string" where
  "strftime = (\<lambda>((y, m, d), h, mi, s).
     show_nat (nat y) @ ''-'' @ pad2 m @ ''-'' @ pad2 d @ ''T'' @ pad2 h @ '':'' @ pad2 mi @ '':'' @ pad2 s)"

definition format_ts :: "json \<Rightarrow> contract_error + string" where
  "format_ts epoch_s =
     (if \<not> is_int epoch_s then Inl (Refused ''grid time'')
      else bind_res (fromtimestamp (the_int epoch_s)) (\<lambda>c. Inr (strftime c @ ''Z'')))"

definition format_ms :: "json \<Rightarrow> contract_error + string" where
  "format_ms epoch_ms =
     (if \<not> is_int epoch_ms then Inl (Refused ''receipt time'')
      else let s = the_int epoch_ms div 1000; ms = the_int epoch_ms mod 1000
           in bind_res (fromtimestamp s) (\<lambda>c. Inr (strftime c @ ''.'' @ pad3 ms @ ''Z'')))"

text \<open>The pattern \<open>_TS\<close>, as a template in which \<open>d\<close> stands for a digit.\<close>

definition is_digit :: "char \<Rightarrow> bool" where
  "is_digit c \<longleftrightarrow> 48 \<le> (of_char c :: nat) \<and> (of_char c :: nat) \<le> 57"

definition fits :: "char \<Rightarrow> char \<Rightarrow> bool" where
  "fits t c \<longleftrightarrow> (if t = CHR ''d'' then is_digit c else c = t)"

definition read_digits :: "string \<Rightarrow> int" where
  "read_digits = foldl (\<lambda>a c. 10 * a + (int (of_char c) - 48)) 0"

definition chomp :: "string \<Rightarrow> string" where
  "chomp s = (if s \<noteq> [] \<and> last s = CHR 0x0A then butlast s else s)"

definition civil_of :: "string \<Rightarrow> civil" where
  "civil_of t = ((read_digits (take 4 t), read_digits (take 2 (drop 5 t)), read_digits (take 2 (drop 8 t))),
     read_digits (take 2 (drop 11 t)), read_digits (take 2 (drop 14 t)), read_digits (take 2 (drop 17 t)))"

definition ts_match :: "string \<Rightarrow> (civil \<times> int option) option" where
  "ts_match s =
     (let t = chomp s in
      if list_all2 fits ''dddd-dd-ddTdd:dd:ddZ'' t then Some (civil_of t, None)
      else if list_all2 fits ''dddd-dd-ddTdd:dd:dd.dddZ'' t
        then Some (civil_of t, Some (read_digits (take 3 (drop 20 t))))
      else None)"

definition parse_stamp :: "json \<Rightarrow> string \<Rightarrow> contract_error + int \<times> int option" where
  "parse_stamp text what =
     (case text of
        JStr s \<Rightarrow>
          (case ts_match s of
             None \<Rightarrow> Inl (Refused what)
           | Some (c, fr) \<Rightarrow>
               (case to_timestamp c of None \<Rightarrow> Inl (Refused what) | Some ts \<Rightarrow> Inr (ts, fr)))
      | _ \<Rightarrow> Inl (Refused what))"

definition parse_ts :: "json \<Rightarrow> string \<Rightarrow> contract_error + int" where
  "parse_ts text what =
     bind_res (parse_stamp text what)
       (\<lambda>(s, fr). if fr \<noteq> None then Inl (Refused what) else Inr s)"

definition parse_ms :: "json \<Rightarrow> string \<Rightarrow> contract_error + int" where
  "parse_ms text what =
     bind_res (parse_stamp text what)
       (\<lambda>(s, fr). case fr of None \<Rightarrow> Inl (Refused what) | Some f \<Rightarrow> Inr (s * 1000 + f))"

section \<open>Formatting and parsing are inverse\<close>

lemma of_char_dig: "0 \<le> n \<Longrightarrow> n \<le> 9 \<Longrightarrow> int (of_char (dig n)) = 48 + n"
  by (simp add: dig_def nat_less_iff)

lemma is_digit_dig: "0 \<le> n \<Longrightarrow> n \<le> 9 \<Longrightarrow> is_digit (dig n)"
  using of_char_dig [of n] by (simp add: is_digit_def)

lemma is_digit_cases:
  assumes "is_digit c"
  obtains x where "c = dig x" "0 \<le> x" "x \<le> 9"
proof (rule that)
  have "48 + nat (int (of_char c) - 48) = (of_char c :: nat)" using assms by (simp add: is_digit_def nat_diff_distrib)
  then have "dig (int (of_char c) - 48) = char_of (of_char c :: nat)" by (simp add: dig_def)
  then show "c = dig (int (of_char c) - 48)" by simp
qed (use assms in \<open>simp_all add: is_digit_def\<close>)

lemma decimal_split: "0 \<le> y \<Longrightarrow> y \<le> 9 \<Longrightarrow> (10 * x + y) div 10 = (x::int)" "0 \<le> y \<Longrightarrow> y \<le> 9 \<Longrightarrow> (10 * x + y) mod 10 = y"
  by simp_all

lemma div_100: "n div 100 = n div 10 div (10::int)" "n div 1000 = n div 10 div 10 div (10::int)"
  by (simp_all add: zdiv_zmult2_eq [symmetric])

text \<open>A year of four digits.\<close>

definition pad4 :: "int \<Rightarrow> string" where
  "pad4 n = [dig (n div 1000), dig (n div 100 mod 10), dig (n div 10 mod 10), dig (n mod 10)]"

lemma show_nat_year: "1000 \<le> y \<Longrightarrow> y \<le> 9999 \<Longrightarrow> show_nat (nat y) = pad4 y"
proof -
  assume y: "1000 \<le> y" "y \<le> 9999"
  have "show_nat n = [digit_char (n div 1000), digit_char (n div 100 mod 10), digit_char (n div 10 mod 10),
      digit_char (n mod 10)]" if n: "1000 \<le> n" "n \<le> 9999" for n
  proof -
    have "n div 1000 < 10" using n by (simp add: less_mult_imp_div_less)
    moreover have "10 \<le> n div 100" "10 \<le> n div 10" using n by (simp_all add: less_eq_div_iff_mult_less_eq)
    ultimately show ?thesis
      using n by (simp add: show_nat.simps [of n] show_nat.simps [of "n div 10"] show_nat.simps [of "n div 100"]
        show_nat.simps [of "n div 1000"] div_mult2_eq [symmetric] del: digit_char.simps)
  qed
  from this [of "nat y"] y show ?thesis
    by (simp add: pad4_def dig_def nat_div_distrib nat_mod_distrib del: digit_char.simps)
qed

lemma read_digits_simps:
  "0 \<le> x \<Longrightarrow> x \<le> 9 \<Longrightarrow> 0 \<le> y \<Longrightarrow> y \<le> 9 \<Longrightarrow> read_digits [dig x, dig y] = 10 * x + y"
  "0 \<le> x \<Longrightarrow> x \<le> 9 \<Longrightarrow> 0 \<le> y \<Longrightarrow> y \<le> 9 \<Longrightarrow> 0 \<le> z \<Longrightarrow> z \<le> 9 \<Longrightarrow>
     read_digits [dig x, dig y, dig z] = 10 * (10 * x + y) + z"
  "0 \<le> x \<Longrightarrow> x \<le> 9 \<Longrightarrow> 0 \<le> y \<Longrightarrow> y \<le> 9 \<Longrightarrow> 0 \<le> z \<Longrightarrow> z \<le> 9 \<Longrightarrow> 0 \<le> w \<Longrightarrow> w \<le> 9 \<Longrightarrow>
     read_digits [dig x, dig y, dig z, dig w] = 10 * (10 * (10 * x + y) + z) + w"
  by (simp_all add: read_digits_def of_char_dig)

lemma digit_ranges: "0 \<le> n mod (10::int)" "n mod 10 \<le> (9::int)" by simp_all

lemma read_pad:
  "0 \<le> n \<Longrightarrow> n \<le> 99 \<Longrightarrow> read_digits (pad2 n) = n"
  "0 \<le> n \<Longrightarrow> n \<le> 999 \<Longrightarrow> read_digits (pad3 n) = n"
  "0 \<le> n \<Longrightarrow> n \<le> 9999 \<Longrightarrow> read_digits (pad4 n) = n"
proof -
  have lead: "n div 10 \<le> 9" if "n \<le> 99" for n :: int using that by linarith
  have lead3: "n div 100 \<le> 9" if "n \<le> 999" for n :: int using that by linarith
  have lead4: "n div 1000 \<le> 9" if "n \<le> 9999" for n :: int using that by linarith
  have sp: "10 * (n div 10) + n mod 10 = n" "10 * (n div 10 div 10) + n div 10 mod 10 = n div 10"
    "10 * (n div 10 div 10 div 10) + n div 10 div 10 mod 10 = n div 10 div 10"
    by (rule mult_div_mod_eq)+
  show "0 \<le> n \<Longrightarrow> n \<le> 99 \<Longrightarrow> read_digits (pad2 n) = n"
    by (simp add: pad2_def read_digits_simps lead digit_ranges pos_imp_zdiv_nonneg_iff)
  show "0 \<le> n \<Longrightarrow> n \<le> 999 \<Longrightarrow> read_digits (pad3 n) = n"
    by (simp add: pad3_def read_digits_simps lead3 digit_ranges pos_imp_zdiv_nonneg_iff)
      (use sp in \<open>unfold div_100, linarith\<close>)
  show "0 \<le> n \<Longrightarrow> n \<le> 9999 \<Longrightarrow> read_digits (pad4 n) = n"
    by (simp add: pad4_def read_digits_simps lead4 digit_ranges pos_imp_zdiv_nonneg_iff)
      (use sp in \<open>unfold div_100, linarith\<close>)
qed

lemma pad_read:
  "is_digit a \<Longrightarrow> is_digit b \<Longrightarrow> pad2 (read_digits [a, b]) = [a, b]"
  "is_digit a \<Longrightarrow> is_digit b \<Longrightarrow> is_digit c \<Longrightarrow> pad3 (read_digits [a, b, c]) = [a, b, c]"
  "is_digit a \<Longrightarrow> is_digit b \<Longrightarrow> is_digit c \<Longrightarrow> is_digit d \<Longrightarrow> pad4 (read_digits [a, b, c, d]) = [a, b, c, d]"
  by (auto elim!: is_digit_cases simp: pad2_def pad3_def pad4_def read_digits_simps div_100 decimal_split
      simp del: distrib_left_numeral)

lemma pad_digits:
  "0 \<le> n \<Longrightarrow> n \<le> 99 \<Longrightarrow> list_all is_digit (pad2 n)"
  "0 \<le> n \<Longrightarrow> n \<le> 999 \<Longrightarrow> list_all is_digit (pad3 n)"
  "0 \<le> n \<Longrightarrow> n \<le> 9999 \<Longrightarrow> list_all is_digit (pad4 n)"
proof -
  have lead: "n div 10 \<le> 9" if "n \<le> 99" for n :: int using that by linarith
  have lead3: "n div 100 \<le> 9" if "n \<le> 999" for n :: int using that by linarith
  have lead4: "n div 1000 \<le> 9" if "n \<le> 9999" for n :: int using that by linarith
  show "0 \<le> n \<Longrightarrow> n \<le> 99 \<Longrightarrow> list_all is_digit (pad2 n)" "0 \<le> n \<Longrightarrow> n \<le> 999 \<Longrightarrow> list_all is_digit (pad3 n)"
    "0 \<le> n \<Longrightarrow> n \<le> 9999 \<Longrightarrow> list_all is_digit (pad4 n)"
    by (simp_all add: pad2_def pad3_def pad4_def is_digit_dig lead lead3 lead4 digit_ranges pos_imp_zdiv_nonneg_iff)
qed

text \<open>The civil times of the years 1000 to 9999: what the wire format can hold.\<close>

definition wire_civil :: "civil \<Rightarrow> bool" where
  "wire_civil = (\<lambda>((y, m, d), h, mi, s). 1000 \<le> y \<and> y \<le> 9999 \<and> real_date y m d \<and>
     0 \<le> h \<and> h \<le> 23 \<and> 0 \<le> mi \<and> mi \<le> 59 \<and> 0 \<le> s \<and> s \<le> 59)"

lemma civil_cases:
  fixes c :: civil
  obtains y m d h mi s where "c = ((y, m, d), h, mi, s)"
proof -
  obtain ymd h mi s where "c = (ymd, h, mi, s)" by (cases c)
  moreover obtain y m d where "ymd = (y, m, d)" by (cases ymd)
  ultimately show thesis using that by blast
qed

lemma days_in_month_le: "1 \<le> m \<Longrightarrow> m \<le> 12 \<Longrightarrow> days_in_month leap m \<le> 31"
  by (erule (1) month_cases) (simp_all add: month_tables)

lemma pad_chars:
  "0 \<le> n \<Longrightarrow> n \<le> 99 \<Longrightarrow> \<exists>a b. pad2 n = [a, b] \<and> is_digit a \<and> is_digit b \<and> read_digits [a, b] = n"
  "0 \<le> n \<Longrightarrow> n \<le> 999 \<Longrightarrow>
     \<exists>a b c. pad3 n = [a, b, c] \<and> is_digit a \<and> is_digit b \<and> is_digit c \<and> read_digits [a, b, c] = n"
  "0 \<le> n \<Longrightarrow> n \<le> 9999 \<Longrightarrow> \<exists>a b c d. pad4 n = [a, b, c, d] \<and> is_digit a \<and> is_digit b \<and> is_digit c \<and> is_digit d \<and>
     read_digits [a, b, c, d] = n"
proof -
  have lens: "length (pad2 n) = 2" "length (pad3 n) = 3" "length (pad4 n) = 4" by (simp_all add: pad2_def pad3_def pad4_def)
  have l2: "\<exists>a b. xs = [a, b] \<and> is_digit a \<and> is_digit b \<and> read_digits [a, b] = n"
    if "length xs = 2" "list_all is_digit xs" "read_digits xs = n" for xs
    using that by (auto simp: numeral_eq_Suc length_Suc_conv)
  have l3: "\<exists>a b c. xs = [a, b, c] \<and> is_digit a \<and> is_digit b \<and> is_digit c \<and> read_digits [a, b, c] = n"
    if "length xs = 3" "list_all is_digit xs" "read_digits xs = n" for xs
    using that by (auto simp: numeral_eq_Suc length_Suc_conv)
  have l4: "\<exists>a b c d. xs = [a, b, c, d] \<and> is_digit a \<and> is_digit b \<and> is_digit c \<and> is_digit d \<and>
      read_digits [a, b, c, d] = n"
    if "length xs = 4" "list_all is_digit xs" "read_digits xs = n" for xs
    using that by (auto simp: numeral_eq_Suc length_Suc_conv)
  show "0 \<le> n \<Longrightarrow> n \<le> 99 \<Longrightarrow> \<exists>a b. pad2 n = [a, b] \<and> is_digit a \<and> is_digit b \<and> read_digits [a, b] = n"
    by (intro l2 lens pad_digits read_pad)
  show "0 \<le> n \<Longrightarrow> n \<le> 999 \<Longrightarrow>
     \<exists>a b c. pad3 n = [a, b, c] \<and> is_digit a \<and> is_digit b \<and> is_digit c \<and> read_digits [a, b, c] = n"
    by (intro l3 lens pad_digits read_pad)
  show "0 \<le> n \<Longrightarrow> n \<le> 9999 \<Longrightarrow> \<exists>a b c d. pad4 n = [a, b, c, d] \<and> is_digit a \<and> is_digit b \<and> is_digit c \<and>
     is_digit d \<and> read_digits [a, b, c, d] = n"
    by (intro l4 lens pad_digits read_pad)
qed

lemma fits_simps: "is_digit c \<Longrightarrow> fits CHR ''d'' c" "t \<noteq> CHR ''d'' \<Longrightarrow> fits t c \<longleftrightarrow> c = t"
  by (simp_all add: fits_def)

text \<open>The text of a civil time, character by character.\<close>

lemma strftime_chars:
  assumes "wire_civil c"
  obtains a1 a2 a3 a4 b1 b2 d1 d2 e1 e2 f1 f2 g1 g2 where
    "strftime c = [a1, a2, a3, a4, CHR ''-'', b1, b2, CHR ''-'', d1, d2, CHR ''T'', e1, e2, CHR '':'', f1, f2, CHR '':'', g1, g2]"
    "list_all is_digit [a1, a2, a3, a4, b1, b2, d1, d2, e1, e2, f1, f2, g1, g2]"
    "((read_digits [a1, a2, a3, a4], read_digits [b1, b2], read_digits [d1, d2]),
       read_digits [e1, e2], read_digits [f1, f2], read_digits [g1, g2]) = c"
proof -
  obtain y m d h mi s where c: "c = ((y, m, d), h, mi, s)" by (rule civil_cases)
  have w: "1000 \<le> y" "y \<le> 9999" "0 \<le> y" "0 \<le> m" "m \<le> 99" "0 \<le> d" "d \<le> 99" "0 \<le> h" "h \<le> 99" "0 \<le> mi" "mi \<le> 99"
    "0 \<le> s" "s \<le> 99"
    using assms days_in_month_le [of m "is_leap y"] by (auto simp: c wire_civil_def real_date_def)
  obtain a1 a2 a3 a4 where a: "pad4 y = [a1, a2, a3, a4]" "list_all is_digit [a1, a2, a3, a4]"
    "read_digits [a1, a2, a3, a4] = y" using pad_chars(3) [OF w(3,2)] by auto
  obtain b1 b2 where b: "pad2 m = [b1, b2]" "list_all is_digit [b1, b2]" "read_digits [b1, b2] = m"
    using pad_chars(1) [OF w(4,5)] by auto
  obtain d1 d2 where d: "pad2 d = [d1, d2]" "list_all is_digit [d1, d2]" "read_digits [d1, d2] = d"
    using pad_chars(1) [OF w(6,7)] by auto
  obtain e1 e2 where e: "pad2 h = [e1, e2]" "list_all is_digit [e1, e2]" "read_digits [e1, e2] = h"
    using pad_chars(1) [OF w(8,9)] by auto
  obtain f1 f2 where f: "pad2 mi = [f1, f2]" "list_all is_digit [f1, f2]" "read_digits [f1, f2] = mi"
    using pad_chars(1) [OF w(10,11)] by auto
  obtain g1 g2 where g: "pad2 s = [g1, g2]" "list_all is_digit [g1, g2]" "read_digits [g1, g2] = s"
    using pad_chars(1) [OF w(12,13)] by auto
  show thesis
    by (rule that [of a1 a2 a3 a4 b1 b2 d1 d2 e1 e2 f1 f2 g1 g2])
      (use a b d e f g in \<open>simp_all add: c strftime_def show_nat_year [OF w(1,2)]\<close>)
qed

lemma ts_match_strftime:
  assumes "wire_civil c"
  shows "ts_match (strftime c @ ''Z'') = Some (c, None)"
    and "0 \<le> ms \<Longrightarrow> ms \<le> 999 \<Longrightarrow> ts_match (strftime c @ ''.'' @ pad3 ms @ ''Z'') = Some (c, Some ms)"
proof -
  obtain a1 a2 a3 a4 b1 b2 d1 d2 e1 e2 f1 f2 g1 g2 where t: "strftime c =
      [a1, a2, a3, a4, CHR ''-'', b1, b2, CHR ''-'', d1, d2, CHR ''T'', e1, e2, CHR '':'', f1, f2, CHR '':'', g1, g2]"
    and dg: "list_all is_digit [a1, a2, a3, a4, b1, b2, d1, d2, e1, e2, f1, f2, g1, g2]"
    and civ: "((read_digits [a1, a2, a3, a4], read_digits [b1, b2], read_digits [d1, d2]),
       read_digits [e1, e2], read_digits [f1, f2], read_digits [g1, g2]) = c"
    using strftime_chars [OF assms] by blast
  show "ts_match (strftime c @ ''Z'') = Some (c, None)"
    using dg civ by (simp add: ts_match_def chomp_def civil_of_def t fits_simps)
  assume "0 \<le> ms" "ms \<le> 999"
  then obtain m1 m2 m3 where "pad3 ms = [m1, m2, m3]" "is_digit m1" "is_digit m2" "is_digit m3"
    "read_digits [m1, m2, m3] = ms"
    using pad_chars(2) by blast
  then show "ts_match (strftime c @ ''.'' @ pad3 ms @ ''Z'') = Some (c, Some ms)"
    using dg civ by (simp add: ts_match_def chomp_def civil_of_def t fits_simps)
qed

text \<open>\<open>fromtimestamp\<close> and \<open>timestamp()\<close> are inverse to each other.\<close>

lemma year_marks: "ymd2ord 1 1 1 = 1" "ymd2ord 1000 1 1 = 364878" "ymd2ord 10000 1 1 = 3652060"
  by (simp_all add: ymd2ord_def days_before_year_def month_tables)

lemma seconds_split: "(0::int) \<le> sec \<Longrightarrow> sec < 86400 \<Longrightarrow> sec div 3600 * 3600 + sec mod 3600 div 60 * 60 + sec mod 60 = sec"
proof -
  have "sec mod 60 = sec mod 3600 mod 60" by (simp add: mod_mod_cancel)
  then show ?thesis using div_mult_mod_eq [of sec 3600] div_mult_mod_eq [of "sec mod 3600" 60] by linarith
qed

lemma to_timestamp_fromtimestamp:
  assumes "fromtimestamp t = Inr c"
  shows "to_timestamp c = Some t" and "fst (fst c) \<ge> 1000 \<longleftrightarrow> -30610224000 \<le> t"
proof -
  define day where "day = 719163 + t div 86400"
  define sec where "sec = t mod 86400"
  have day: "1 \<le> day" "day \<le> 3652059" and c: "c = (ord2ymd day, sec div 3600, sec mod 3600 div 60, sec mod 60)"
    using assms unfolding fromtimestamp_def Let_def day_def [symmetric] sec_def [symmetric]
    by (auto split: if_splits)
  have sec: "0 \<le> sec" "sec < 86400" by (simp_all add: sec_def)
  have t: "t = (day - 719163) * 86400 + sec" by (simp add: day_def sec_def)
  obtain y m d where ymd: "ord2ymd day = (y, m, d)" by (cases "ord2ymd day") auto
  from ord2ymd_year [OF ymd] have rd: "real_date y m d" and ord: "ymd2ord y m d = day" by (simp_all add: real_date_def)
  have "1 \<le> y" using ymd2ord_year_range [OF rd, of 1] ord day by (simp add: year_marks)
  moreover have "y \<le> 9999" using ymd2ord_year_range [OF rd, of 10000] ord day by (simp add: year_marks)
  ultimately have "valid_date y m d" using rd by (simp add: valid_date_def real_date_def)
  moreover have "sec div 3600 \<le> 23" "sec mod 3600 div 60 \<le> 59" "0 \<le> sec div 3600"
    "0 \<le> sec mod 3600 div 60" "sec mod 60 \<le> 59" using sec by (simp_all add: pos_imp_zdiv_nonneg_iff)
  ultimately show "to_timestamp c = Some t"
    using seconds_split [OF sec] by (simp add: c ymd to_timestamp_def ord t)
  have "1000 \<le> y \<longleftrightarrow> 364878 \<le> day" using ymd2ord_year_range [OF rd, of 1000] ord by (simp add: year_marks)
  also have "\<dots> \<longleftrightarrow> -30610224000 \<le> t"
  proof
    show "-30610224000 \<le> t" if "364878 \<le> day" using that t sec by simp
    show "364878 \<le> day" if "-30610224000 \<le> t" using that t sec by simp
  qed
  finally show "fst (fst c) \<ge> 1000 \<longleftrightarrow> -30610224000 \<le> t" by (simp add: c ymd)
qed

lemma fromtimestamp_to_timestamp:
  assumes "to_timestamp c = Some t"
  shows "fromtimestamp t = Inr c"
proof -
  obtain y m d h mi s where c: "c = ((y, m, d), h, mi, s)" by (rule civil_cases)
  have v: "valid_date y m d" "0 \<le> h" "h \<le> 23" "0 \<le> mi" "mi \<le> 59" "0 \<le> s" "s \<le> 59"
    and t: "t = (ymd2ord y m d - 719163) * 86400 + (h * 3600 + mi * 60 + s)"
    using assms by (auto simp: c to_timestamp_def split: if_splits)
  define sec where "sec = h * 3600 + mi * 60 + s"
  have sec: "0 \<le> sec" "sec < 86400" using v by (simp_all add: sec_def)
  have rd: "real_date y m d" and yr: "1 \<le> y" "\<not> 10000 \<le> y" using v(1) by (simp_all add: valid_date_def real_date_def)
  have ord: "1 \<le> ymd2ord y m d" "ymd2ord y m d \<le> 3652059"
    using ymd2ord_year_range [OF rd, of 1] ymd2ord_year_range [OF rd, of 10000] yr by (simp_all add: year_marks)
  have q: "t div 86400 = ymd2ord y m d - 719163"
    by (rule int_div_pos_eq [where r = sec]) (use t sec in \<open>simp_all add: sec_def\<close>)
  have r: "t mod 86400 = sec" using div_mult_mod_eq [of t 86400] t unfolding q sec_def by linarith
  have h: "sec div 3600 = h" by (rule int_div_pos_eq [where r = "mi * 60 + s"]) (use v in \<open>simp_all add: sec_def\<close>)
  have ms: "sec mod 3600 = mi * 60 + s" using div_mult_mod_eq [of sec 3600] unfolding h by (simp add: sec_def)
  have mi: "sec mod 3600 div 60 = mi" by (rule int_div_pos_eq [where r = s]) (use v ms in simp_all)
  have "sec mod 3600 mod 60 = s" using div_mult_mod_eq [of "sec mod 3600" 60] ms unfolding mi by linarith
  then have s: "sec mod 60 = s" by (simp add: mod_mod_cancel)
  show ?thesis using q r ord h mi s ord2ymd_ymd2ord [OF rd] by (simp add: fromtimestamp_def c)
qed

lemma fromtimestamp_wire:
  assumes "-30610224000 \<le> t" and "t < 253402300800"
  obtains c where "fromtimestamp t = Inr c" "wire_civil c"
proof -
  have "1 \<le> 719163 + t div 86400" "719163 + t div 86400 \<le> 3652059" using assms by linarith+
  then obtain c where c: "fromtimestamp t = Inr c" by (simp add: fromtimestamp_def Let_def)
  from to_timestamp_fromtimestamp [OF this] assms(1) have "wire_civil c"
    by (auto simp: wire_civil_def to_timestamp_def valid_date_def real_date_def split: if_splits prod.splits)
  with c show thesis by (rule that)
qed

lemma ts_match_chars:
  assumes "ts_match s = Some (c, fr)"
  shows "\<exists>a1 a2 a3 a4 b1 b2 d1 d2 e1 e2 f1 f2 g1 g2 rest. chomp s =
      [a1, a2, a3, a4, CHR ''-'', b1, b2, CHR ''-'', d1, d2, CHR ''T'', e1, e2, CHR '':'', f1, f2, CHR '':'', g1, g2] @ rest \<and>
    list_all is_digit [a1, a2, a3, a4, b1, b2, d1, d2, e1, e2, f1, f2, g1, g2] \<and>
    c = ((read_digits [a1, a2, a3, a4], read_digits [b1, b2], read_digits [d1, d2]),
       read_digits [e1, e2], read_digits [f1, f2], read_digits [g1, g2]) \<and>
    (fr = None \<and> rest = ''Z'' \<or>
     (\<exists>m1 m2 m3. rest = [CHR ''.'', m1, m2, m3, CHR ''Z''] \<and> list_all is_digit [m1, m2, m3] \<and>
        fr = Some (read_digits [m1, m2, m3])))"
proof -
  have d: "fits CHR ''d'' x = is_digit x" for x by (simp add: fits_def)
  consider "list_all2 fits ''dddd-dd-ddTdd:dd:ddZ'' (chomp s)" "c = civil_of (chomp s)" "fr = None"
    | "list_all2 fits ''dddd-dd-ddTdd:dd:dd.dddZ'' (chomp s)" "c = civil_of (chomp s)"
      "fr = Some (read_digits (take 3 (drop 20 (chomp s))))"
    using assms unfolding ts_match_def Let_def by (auto split: if_splits)
  then show ?thesis
  proof cases
    case 1
    then show ?thesis
      by (simp only: list_all2_Cons1 list_all2_Nil d) (auto simp: fits_simps civil_of_def)
  next
    case 2
    then show ?thesis
      by (simp only: list_all2_Cons1 list_all2_Nil d) (auto simp: fits_simps civil_of_def)
  qed
qed

lemma ts_match_fraction:
  assumes "ts_match s = Some (c, Some f)"
  shows "0 \<le> f" and "f \<le> 999"
proof -
  obtain m1 m2 m3 where m: "list_all is_digit [m1, m2, m3]" "f = read_digits [m1, m2, m3]"
    using ts_match_chars [OF assms] by blast
  then obtain x y z where "m1 = dig x" "m2 = dig y" "m3 = dig z" "0 \<le> x" "x \<le> 9" "0 \<le> y" "y \<le> 9" "0 \<le> z" "z \<le> 9"
    by (auto elim!: is_digit_cases)
  then show "0 \<le> f" "f \<le> 999" using m(2) by (simp_all add: read_digits_simps)
qed

lemma strftime_of_match:
  assumes "ts_match s = Some (c, fr)" and "1000 \<le> fst (fst c)" and "fst (fst c) \<le> 9999"
  shows "chomp s = strftime c @ (case fr of None \<Rightarrow> ''Z'' | Some f \<Rightarrow> ''.'' @ pad3 f @ ''Z'')"
proof -
  obtain a1 a2 a3 a4 b1 b2 d1 d2 e1 e2 f1 f2 g1 g2 rest where t: "chomp s =
      [a1, a2, a3, a4, CHR ''-'', b1, b2, CHR ''-'', d1, d2, CHR ''T'', e1, e2, CHR '':'', f1, f2, CHR '':'', g1, g2] @ rest"
    and dg: "list_all is_digit [a1, a2, a3, a4, b1, b2, d1, d2, e1, e2, f1, f2, g1, g2]"
    and c: "c = ((read_digits [a1, a2, a3, a4], read_digits [b1, b2], read_digits [d1, d2]),
       read_digits [e1, e2], read_digits [f1, f2], read_digits [g1, g2])"
    and fr: "fr = None \<and> rest = ''Z'' \<or>
     (\<exists>m1 m2 m3. rest = [CHR ''.'', m1, m2, m3, CHR ''Z''] \<and> list_all is_digit [m1, m2, m3] \<and>
        fr = Some (read_digits [m1, m2, m3]))"
    using ts_match_chars [OF assms(1)] by blast
  have "strftime c = [a1, a2, a3, a4, CHR ''-'', b1, b2, CHR ''-'', d1, d2, CHR ''T'', e1, e2, CHR '':'', f1, f2, CHR '':'', g1, g2]"
    using dg assms(2,3) by (simp add: strftime_def c show_nat_year pad_read)
  then show "chomp s = strftime c @ (case fr of None \<Rightarrow> ''Z'' | Some f \<Rightarrow> ''.'' @ pad3 f @ ''Z'')"
    using t fr by (auto simp: pad_read)
qed

lemma format_parse_ts:
  assumes "-30610224000 \<le> t" "t < 253402300800"
  shows "\<exists>txt. format_ts (JInt t) = Inr txt \<and> parse_ts (JStr txt) what = Inr t"
proof -
  obtain c where c: "fromtimestamp t = Inr c" "wire_civil c" using fromtimestamp_wire [OF assms] .
  then show ?thesis
    using ts_match_strftime(1) [OF c(2)] to_timestamp_fromtimestamp(1) [OF c(1)]
    by (simp add: format_ts_def parse_ts_def parse_stamp_def)
qed

lemma format_parse_ms:
  assumes "-30610224000 \<le> u div 1000" "u div 1000 < 253402300800"
  shows "\<exists>txt. format_ms (JInt u) = Inr txt \<and> parse_ms (JStr txt) what = Inr u"
proof -
  obtain c where c: "fromtimestamp (u div 1000) = Inr c" "wire_civil c" using fromtimestamp_wire [OF assms] .
  have "0 \<le> u mod 1000" "u mod 1000 \<le> 999" by simp_all
  then show ?thesis
    using ts_match_strftime(2) [OF c(2)] to_timestamp_fromtimestamp(1) [OF c(1)] c(1)
    by (simp add: format_ms_def parse_ms_def parse_stamp_def Let_def)
qed

section \<open>Properties\<close>

text \<open>For every time in the years 1000 to 9999 the wire text of a grid time (whole seconds) and of a receipt time
  (milliseconds) parses back to exactly that time, and a text that parses to such a time is, up to one final line
  feed, exactly the text the formatter writes: the wire format has one spelling per instant.\<close>

theorem wire_time_round_trip:
  "(-30610224000 \<le> t \<and> t < 253402300800 \<longrightarrow>
      (\<exists>txt. format_ts (JInt t) = Inr txt \<and> parse_ts (JStr txt) what = Inr t)) \<and>
   (-30610224000 \<le> u div 1000 \<and> u div 1000 < 253402300800 \<longrightarrow>
      (\<exists>txt. format_ms (JInt u) = Inr txt \<and> parse_ms (JStr txt) what = Inr u)) \<and>
   (parse_ts (JStr s) what = Inr t \<and> -30610224000 \<le> t \<longrightarrow> format_ts (JInt t) = Inr (chomp s)) \<and>
   (parse_ms (JStr s) what = Inr u \<and> -30610224000 \<le> u div 1000 \<longrightarrow> format_ms (JInt u) = Inr (chomp s))"
proof (intro conjI impI)
  show "\<exists>txt. format_ts (JInt t) = Inr txt \<and> parse_ts (JStr txt) what = Inr t"
    if "-30610224000 \<le> t \<and> t < 253402300800" using format_parse_ts that by blast
  show "\<exists>txt. format_ms (JInt u) = Inr txt \<and> parse_ms (JStr txt) what = Inr u"
    if "-30610224000 \<le> u div 1000 \<and> u div 1000 < 253402300800" using format_parse_ms that by blast
next
  assume p: "parse_ts (JStr s) what = Inr t \<and> -30610224000 \<le> t"
  then obtain c where m: "ts_match s = Some (c, None)" "to_timestamp c = Some t"
    by (auto simp: parse_ts_def parse_stamp_def bind_res_Inr_iff split: option.splits if_splits)
  note f = fromtimestamp_to_timestamp [OF m(2)]
  have "1000 \<le> fst (fst c)" using to_timestamp_fromtimestamp(2) [OF f] p by simp
  moreover have "fst (fst c) \<le> 9999" using m(2) by (auto simp: to_timestamp_def valid_date_def split: if_splits prod.splits)
  ultimately have "chomp s = strftime c @ ''Z''" using strftime_of_match(1) [OF m(1)] by simp
  then show "format_ts (JInt t) = Inr (chomp s)" using f by (simp add: format_ts_def)
next
  assume p: "parse_ms (JStr s) what = Inr u \<and> -30610224000 \<le> u div 1000"
  then obtain c f ts where m: "ts_match s = Some (c, Some f)" "to_timestamp c = Some ts" "u = ts * 1000 + f"
    by (auto simp: parse_ms_def parse_stamp_def bind_res_Inr_iff split: option.splits if_splits)
  note fts = fromtimestamp_to_timestamp [OF m(2)]
  have "fst (fst c) \<le> 9999" using m(2) by (auto simp: to_timestamp_def valid_date_def split: if_splits prod.splits)
  note s = strftime_of_match [OF m(1) _ this]
  note f = ts_match_fraction [OF m(1)]
  have u: "u div 1000 = ts" "u mod 1000 = f" using m(3) f by simp_all
  then have "1000 \<le> fst (fst c)" using to_timestamp_fromtimestamp(2) [OF fts] p by simp
  then show "format_ms (JInt u) = Inr (chomp s)" using s fts u by (simp add: format_ms_def Let_def)
qed

text \<open>A grid time in 2026 and its receipt time, in both directions.\<close>

theorem wire_time_round_trip_witness:
  "(\<exists>txt. format_ts (JInt 1790000000) = Inr txt \<and> parse_ts (JStr txt) ''t'' = Inr 1790000000) \<and>
   (\<exists>txt. format_ms (JInt 1790000000123) = Inr txt \<and> parse_ms (JStr txt) ''t'' = Inr 1790000000123) \<and>
   format_ts (JInt 1790000000) = Inr ''2026-09-21T14:13:20Z'' \<and>
   format_ms (JInt 1790000000123) = Inr ''2026-09-21T14:13:20.123Z''"
proof -
  have a: "parse_ts (JStr ''2026-09-21T14:13:20Z'') ''t'' = Inr 1790000000"
    and b: "parse_ms (JStr ''2026-09-21T14:13:20.123Z'') ''t'' = Inr 1790000000123"
    and c: "chomp ''2026-09-21T14:13:20Z'' = ''2026-09-21T14:13:20Z''"
      "chomp ''2026-09-21T14:13:20.123Z'' = ''2026-09-21T14:13:20.123Z''"
    by (simp_all add: parse_ts_def parse_ms_def parse_stamp_def ts_match_def chomp_def fits_def is_digit_def civil_of_def
        read_digits_def to_timestamp_def valid_date_def month_tables ymd2ord_def days_before_year_def is_leap_def)
  show ?thesis
    using wire_time_round_trip [of 1790000000 "''t''" 1790000000123 "''2026-09-21T14:13:20Z''"]
      wire_time_round_trip [of 1790000000 "''t''" 1790000000123 "''2026-09-21T14:13:20.123Z''"] a b c
    by simp
qed

end
