(* ===== verification/Identity.thy ===== *)
theory Identity
  imports Timestamps Contracts_Response History
begin

text \<open>
  \<^verbatim>\<open>api/identity.py\<close>: a forecast request names an autoscaler; the service reads the object and its target Deployment
  from the Kubernetes API and accepts the reference only when everything agrees. The cluster answers through a
  \<open>reader\<close>, a state-passing function from paths to objects, so the two reads may see two states of a cluster that
  changes between them. \<open>KubeReader\<close> is one reader; the recording reader of \<^verbatim>\<open>forecasting/contracts.py\<close> wraps another.
\<close>

section \<open>Errors, constants and names\<close>

datatype identity_error = ProvenanceRefused string | LookupFailed

definition API_GROUP :: string where "API_GROUP = ''autoscaling.devkuban.com''"
definition API_VERSION :: string where "API_VERSION = ''v1alpha1''"

definition alnum :: "char \<Rightarrow> bool" where
  "alnum c \<longleftrightarrow> c \<in> set ''abcdefghijklmnopqrstuvwxyz0123456789''"

text \<open>\<open>[a-z0-9]([-a-z0-9]*[a-z0-9])?\<close>, and a sequence of them separated by dots.\<close>

definition dns_label :: "string \<Rightarrow> bool" where
  "dns_label s \<longleftrightarrow> s \<noteq> [] \<and> alnum (hd s) \<and> alnum (last s) \<and> list_all (\<lambda>c. alnum c \<or> c = CHR ''-'') s"

fun split_dots :: "string \<Rightarrow> string list" where
  "split_dots [] = [[]]"
| "split_dots (c # cs) =
     (if c = CHR ''.'' then [] # split_dots cs
      else case split_dots cs of [] \<Rightarrow> [[c]] | l # ls \<Rightarrow> (c # l) # ls)"

definition dns_subdomain :: "string \<Rightarrow> bool" where
  "dns_subdomain s \<longleftrightarrow> list_all dns_label (split_dots s)"

text \<open>\<open>$\<close> also matches before one final line feed: \<open>chomp\<close>.\<close>

definition valid_namespace :: "json \<Rightarrow> bool" where
  "valid_namespace v \<longleftrightarrow> (case v of JStr s \<Rightarrow> length s \<le> 63 \<and> dns_label (chomp s) | _ \<Rightarrow> False)"

definition valid_name :: "json \<Rightarrow> bool" where
  "valid_name v \<longleftrightarrow> (case v of JStr s \<Rightarrow> length s \<le> 253 \<and> dns_subdomain (chomp s) | _ \<Rightarrow> False)"

section \<open>Readers\<close>

type_synonym 's reader = "string \<Rightarrow> 's \<Rightarrow> (identity_error + json option) \<times> 's"

text \<open>Sequencing of calls that may raise and change the state of the reader.\<close>

fun st_bind :: "('e + 'a) \<times> 's \<Rightarrow> ('a \<Rightarrow> 's \<Rightarrow> ('e + 'b) \<times> 's) \<Rightarrow> ('e + 'b) \<times> 's" where
  "st_bind (Inl e, s) f = (Inl e, s)"
| "st_bind (Inr x, s) f = f x s"

lemma st_bind_Inr_iff: "st_bind r f = (Inr y, s') \<longleftrightarrow> (\<exists>x s. r = (Inr x, s) \<and> f x s = (Inr y, s'))"
  by (cases "(r, f)" rule: st_bind.cases) auto

text \<open>\<open>KubeReader\<close>: the API server's address (empty outside a cluster), the service account's token at the time of each
  read, the bounded exchange and the JSON decoder are its environment.\<close>

record kube_env =
  kube_host :: string
  kube_token :: "nat \<Rightarrow> string option"
  kube_fetch :: "nat \<Rightarrow> string \<Rightarrow> string \<Rightarrow> fetch_result"   \<comment> \<open>URL and bearer token\<close>
  kube_loads :: "string \<Rightarrow> json option"

definition kube_answer :: "kube_env \<Rightarrow> fetch_result \<Rightarrow> identity_error + json option" where
  "kube_answer en answer =
     (case answer of
        FetchAnswer status body \<Rightarrow>
          if status = 404 then Inr None
          else if status \<noteq> 200 then Inl LookupFailed
          else (case kube_loads en body of
                  Some (JObj kvs) \<Rightarrow> Inr (Some (JObj kvs))
                | _ \<Rightarrow> Inl LookupFailed)
      | _ \<Rightarrow> Inl LookupFailed)"

definition kube_get :: "kube_env \<Rightarrow> nat reader" where
  "kube_get en path n =
     (if kube_host en = [] then Inl LookupFailed
      else case kube_token en n of
             None \<Rightarrow> Inl LookupFailed
           | Some token \<Rightarrow> kube_answer en (kube_fetch en n (kube_host en @ path) token), Suc n)"

section \<open>Resolution\<close>

definition sub_obj :: "json \<Rightarrow> string \<Rightarrow> identity_error + obj" where
  "sub_obj parent fld =
     (case get_obj parent fld of
        JNull \<Rightarrow> Inr []
      | JObj kvs \<Rightarrow> Inr kvs
      | _ \<Rightarrow> Inl (ProvenanceRefused fld))"

definition require :: "obj \<Rightarrow> string \<Rightarrow> (json \<Rightarrow> bool) \<Rightarrow> identity_error + json" where
  "require request fld check =
     (let v = get_obj (JObj request) fld in if check v then Inr v else Inl (ProvenanceRefused fld))"

definition nonempty_str :: "json \<Rightarrow> bool" where
  "nonempty_str v \<longleftrightarrow> (case v of JStr s \<Rightarrow> s \<noteq> [] | _ \<Rightarrow> False)"

definition sha_str :: "json \<Rightarrow> bool" where
  "sha_str v \<longleftrightarrow> (case v of JStr s \<Rightarrow> sha256_match s | _ \<Rightarrow> False)"

definition pa_path :: "string \<Rightarrow> string \<Rightarrow> string" where
  "pa_path ns name = ''/apis/'' @ API_GROUP @ ''/'' @ API_VERSION @ ''/namespaces/'' @ ns @
     ''/predictiveautoscalers/'' @ name"

definition deployment_path :: "string \<Rightarrow> string \<Rightarrow> string" where
  "deployment_path ns name = ''/apis/apps/v1/namespaces/'' @ ns @ ''/deployments/'' @ name"

text \<open>What the autoscaler object says about its compiled query, before the Deployment is read.\<close>

record compiled_source =
  cm_uid :: string
  cm_generation :: int
  cm_query :: string
  cm_sha256 :: string
  cm_target_name :: string
  cm_target_uid :: json

definition target_of :: "string \<Rightarrow> obj \<Rightarrow> identity_error + string" where
  "target_of pa_ns spec =
     bind_res (sub_obj (JObj spec) ''targetDeployment'') (\<lambda>target.
       let t_name = get_obj (JObj target) ''name''; t_ns = get_obj (JObj target) ''namespace'' in
       if \<not> json_eq (if truthy t_ns then t_ns else JStr pa_ns) (JStr pa_ns) then Inl (ProvenanceRefused ''target namespace'')
       else if \<not> valid_name t_name then Inl (ProvenanceRefused ''target name'')
       else Inr (the_str t_name))"

definition source_of :: "(string \<Rightarrow> string) \<Rightarrow> json \<Rightarrow> json \<Rightarrow> identity_error + obj" where
  "source_of sha generation source =
     (case source of
        JObj ms \<Rightarrow>
          let query = get_obj (JObj ms) ''query''; hash = get_obj (JObj ms) ''sha256'' in
          if \<not> json_eq (get_obj (JObj ms) ''observedGeneration'') generation then Inl (ProvenanceRefused ''generation'')
          else if \<not> nonempty_str query \<or> hash \<noteq> JStr (the_str hash) then Inl (ProvenanceRefused ''incomplete'')
          else if sha (the_str query) \<noteq> the_str hash then Inl (ProvenanceRefused ''query hash'')
          else if \<not> json_eq (get_obj (JObj ms) ''contract'') (JStr SIGNAL_CONTRACT) then Inl (ProvenanceRefused ''contract'')
          else Inr ms
      | _ \<Rightarrow> Inl (ProvenanceRefused ''no compiled metric source''))"

definition compiled_of :: "(string \<Rightarrow> string) \<Rightarrow> string \<Rightarrow> json \<Rightarrow> identity_error + compiled_source" where
  "compiled_of sha pa_ns pa =
     bind_res (sub_obj pa ''metadata'') (\<lambda>meta.
     bind_res (sub_obj pa ''spec'') (\<lambda>spec.
     bind_res (sub_obj pa ''status'') (\<lambda>status.
     let uid = get_obj (JObj meta) ''uid''; generation = get_obj (JObj meta) ''generation'' in
     if \<not> nonempty_str uid \<or> \<not> is_int generation then Inl (ProvenanceRefused ''no UID or generation'')
     else bind_res (source_of sha generation (get_obj (JObj status) ''metricSource'')) (\<lambda>ms.
       bind_res (target_of pa_ns spec) (\<lambda>t_name.
         Inr \<lparr> cm_uid = the_str uid, cm_generation = the_int generation,
               cm_query = the_str (get_obj (JObj ms) ''query''), cm_sha256 = the_str (get_obj (JObj ms) ''sha256''),
               cm_target_name = t_name, cm_target_uid = get_obj (JObj ms) ''targetUID'' \<rparr>)))))"

definition check_deployment :: "compiled_source \<Rightarrow> json \<Rightarrow> identity_error + string" where
  "check_deployment cm dep =
     bind_res (sub_obj dep ''metadata'') (\<lambda>meta.
       let live_uid = get_obj (JObj meta) ''uid'' in
       if \<not> nonempty_str live_uid then Inl (ProvenanceRefused ''Deployment without UID'')
       else if \<not> json_eq (cm_target_uid cm) live_uid then Inl (ProvenanceRefused ''Deployment replaced'')
       else Inr (the_str live_uid))"

definition resolve_autoscaler ::
  "(string \<Rightarrow> string) \<Rightarrow> 's reader \<Rightarrow> json \<Rightarrow> json \<Rightarrow> 's \<Rightarrow> (identity_error + resolved_signal) \<times> 's" where
  "resolve_autoscaler sha rd ns name s0 =
     (if \<not> (valid_namespace ns \<and> valid_name name) then (Inl (ProvenanceRefused ''reference''), s0)
      else let pa_ns = the_str ns; pa_name = the_str name in
        st_bind (rd (pa_path pa_ns pa_name) s0) (\<lambda>pa s1.
        case pa of
          None \<Rightarrow> (Inl (ProvenanceRefused ''autoscaler not found''), s1)
        | Some pa \<Rightarrow>
            st_bind (compiled_of sha pa_ns pa, s1) (\<lambda>cm s1.
            st_bind (rd (deployment_path pa_ns (cm_target_name cm)) s1) (\<lambda>dep s2.
            case dep of
              None \<Rightarrow> (Inl (ProvenanceRefused ''Deployment not found''), s2)
            | Some dep \<Rightarrow>
                (map_sum id (\<lambda>live_uid.
                   \<lparr> sig_namespace = pa_ns, sig_name = cm_target_name cm, sig_metric = ''requests'',
                     sig_query = cm_query cm, sig_sha256 = cm_sha256 cm, sig_contract = SIGNAL_CONTRACT,
                     sig_autoscaler_uid = cm_uid cm, sig_target_uid = live_uid,
                     sig_generation = cm_generation cm \<rparr>)
                   (check_deployment cm dep), s2)))))"

text \<open>The fields of a request that \<open>resolve_signal\<close> requires, checked in this order.\<close>

record reference_fields =
  rf_ns :: json
  rf_name :: json
  rf_uid :: string
  rf_generation :: int
  rf_target_uid :: string
  rf_sha :: string

definition reference_of :: "obj \<Rightarrow> identity_error + reference_fields" where
  "reference_of request =
     bind_res (require request ''autoscaler_namespace'' valid_namespace) (\<lambda>ns.
     bind_res (require request ''autoscaler_name'' valid_name) (\<lambda>name.
     bind_res (require request ''autoscaler_uid'' nonempty_str) (\<lambda>uid.
     bind_res (require request ''autoscaler_generation'' (\<lambda>v. is_int v \<and> the_int v > 0)) (\<lambda>gen.
     bind_res (require request ''target_uid'' nonempty_str) (\<lambda>tuid.
     bind_res (require request ''metric_query_sha256'' sha_str) (\<lambda>hash.
     if \<not> json_eq (get_obj (JObj request) ''contract'') (JStr SIGNAL_CONTRACT) then Inl (ProvenanceRefused ''contract'')
     else if \<not> json_eq (get_default request ''metric_type'' (JStr ''requests'')) (JStr ''requests'')
       then Inl (ProvenanceRefused ''metric_type'')
     else Inr \<lparr> rf_ns = ns, rf_name = name, rf_uid = the_str uid, rf_generation = the_int gen,
                rf_target_uid = the_str tuid, rf_sha = the_str hash \<rparr>))))))"

definition match_reference :: "obj \<Rightarrow> reference_fields \<Rightarrow> resolved_signal \<Rightarrow> identity_error + resolved_signal" where
  "match_reference request rf sig =
     (if sig_autoscaler_uid sig \<noteq> rf_uid rf then Inl (ProvenanceRefused ''autoscaler replaced'')
      else if sig_generation sig \<noteq> rf_generation rf then Inl (ProvenanceRefused ''generation mismatch'')
      else if sig_sha256 sig \<noteq> rf_sha rf then Inl (ProvenanceRefused ''query hash mismatch'')
      else if sig_target_uid sig \<noteq> rf_target_uid rf then Inl (ProvenanceRefused ''target replaced'')
      else if \<not> json_eq (get_obj (JObj request) ''application'') (JStr (sig_name sig)) \<or>
              \<not> json_eq (get_default request ''namespace'' (JStr (sig_namespace sig))) (JStr (sig_namespace sig))
        then Inl (ProvenanceRefused ''application or namespace'')
      else Inr sig)"

definition resolve_signal ::
  "(string \<Rightarrow> string) \<Rightarrow> 's reader \<Rightarrow> json \<Rightarrow> 's \<Rightarrow> (identity_error + resolved_signal) \<times> 's" where
  "resolve_signal sha rd request s =
     (case request of
        JObj req \<Rightarrow>
          st_bind (reference_of req, s) (\<lambda>rf s.
          st_bind (resolve_autoscaler sha rd (rf_ns rf) (rf_name rf) s) (\<lambda>sig s. (match_reference req rf sig, s)))
      | _ \<Rightarrow> (Inl (ProvenanceRefused ''the request''), s))"

section \<open>What a resolved signal agrees with\<close>

lemma sub_obj_get: "sub_obj p f = Inr kvs \<Longrightarrow> get_obj (JObj kvs) k = get_obj (get_obj p f) k"
  by (auto simp: sub_obj_def split: json.splits)

lemma nonempty_str_the: "nonempty_str v \<Longrightarrow> v = JStr (the_str v) \<and> the_str v \<noteq> []"
  by (cases v) (auto simp: nonempty_str_def)

lemma is_int_the: "is_int v \<Longrightarrow> v = JInt (the_int v)"
  by (cases v) auto

lemma valid_str_the: "valid_namespace v \<Longrightarrow> v = JStr (the_str v)" "valid_name v \<Longrightarrow> v = JStr (the_str v)"
  by (cases v; simp add: valid_namespace_def valid_name_def)+

lemma map_sum_Inr_iff: "map_sum f g r = Inr y \<longleftrightarrow> (\<exists>x. r = Inr x \<and> g x = y)"
  by (cases r) auto

lemma require_Inr: "require req f P = Inr v \<longleftrightarrow> v = get_obj (JObj req) f \<and> P v"
  by (auto simp: require_def Let_def)

text \<open>The object's own story, in one predicate: what the autoscaler and the Deployment have to say for a signal.\<close>

definition autoscaler_states :: "(string \<Rightarrow> string) \<Rightarrow> json \<Rightarrow> resolved_signal \<Rightarrow> bool" where
  "autoscaler_states sha pa sig \<longleftrightarrow>
     (let meta = get_obj pa ''metadata''; ms = get_obj (get_obj pa ''status'') ''metricSource'';
          target = get_obj (get_obj pa ''spec'') ''targetDeployment'' in
      get_obj meta ''uid'' = JStr (sig_autoscaler_uid sig) \<and> get_obj meta ''generation'' = JInt (sig_generation sig) \<and>
      json_eq (get_obj ms ''observedGeneration'') (JInt (sig_generation sig)) \<and>
      get_obj ms ''query'' = JStr (sig_query sig) \<and> get_obj ms ''sha256'' = JStr (sig_sha256 sig) \<and>
      sha (sig_query sig) = sig_sha256 sig \<and> get_obj ms ''contract'' = JStr SIGNAL_CONTRACT \<and>
      get_obj ms ''targetUID'' = JStr (sig_target_uid sig) \<and> get_obj target ''name'' = JStr (sig_name sig) \<and>
      (truthy (get_obj target ''namespace'') \<longrightarrow> get_obj target ''namespace'' = JStr (sig_namespace sig)))"

lemma source_of_Inr:
  assumes "source_of sha generation source = Inr ms"
  shows "source = JObj ms" and "json_eq (get_obj (JObj ms) ''observedGeneration'') generation"
    and "get_obj (JObj ms) ''query'' = JStr (the_str (get_obj (JObj ms) ''query''))"
    and "get_obj (JObj ms) ''sha256'' = JStr (the_str (get_obj (JObj ms) ''sha256''))"
    and "sha (the_str (get_obj (JObj ms) ''query'')) = the_str (get_obj (JObj ms) ''sha256'')"
    and "get_obj (JObj ms) ''contract'' = JStr SIGNAL_CONTRACT"
  using assms nonempty_str_the [of "get_obj (JObj ms) ''query''"] unfolding source_of_def Let_def
  by (auto simp: json_eq_str_iff split: json.splits if_splits simp del: get_obj.simps)

lemma target_of_Inr:
  assumes "target_of ns spec = Inr name"
  shows "\<exists>target. (\<forall>k. get_obj (JObj target) k = get_obj (get_obj (JObj spec) ''targetDeployment'') k) \<and>
    get_obj (JObj target) ''name'' = JStr name \<and>
    (truthy (get_obj (JObj target) ''namespace'') \<longrightarrow> get_obj (JObj target) ''namespace'' = JStr ns) \<and> valid_name (JStr name)"
proof -
  obtain target where t: "sub_obj (JObj spec) ''targetDeployment'' = Inr target"
    "json_eq (if truthy (get_obj (JObj target) ''namespace'') then get_obj (JObj target) ''namespace'' else JStr ns) (JStr ns)"
    "valid_name (get_obj (JObj target) ''name'')" "name = the_str (get_obj (JObj target) ''name'')"
    using assms by (auto simp: target_of_def bind_res_Inr_iff Let_def simp del: get_obj.simps split: if_splits)
  from t(3,4) valid_str_the(2) [OF t(3)] have "get_obj (JObj target) ''name'' = JStr name" "valid_name (JStr name)" by auto
  moreover have "truthy (get_obj (JObj target) ''namespace'') \<longrightarrow> get_obj (JObj target) ''namespace'' = JStr ns"
    using t(2) by (auto simp: json_eq_str_iff simp del: get_obj.simps)
  ultimately show ?thesis using sub_obj_get [OF t(1)] by blast
qed

lemma compiled_of_Inr:
  assumes "compiled_of sha ns pa = Inr cm" and "cm_target_uid cm = JStr tuid"
    and "sig_autoscaler_uid sig = cm_uid cm" "sig_generation sig = cm_generation cm" "sig_query sig = cm_query cm"
    "sig_sha256 sig = cm_sha256 cm" "sig_target_uid sig = tuid" "sig_name sig = cm_target_name cm"
    "sig_namespace sig = ns"
  shows "autoscaler_states sha pa sig" and "valid_name (JStr (cm_target_name cm))"
proof -
  obtain meta spec status ms where o: "sub_obj pa ''metadata'' = Inr meta" "sub_obj pa ''spec'' = Inr spec"
    "sub_obj pa ''status'' = Inr status"
    and g: "nonempty_str (get_obj (JObj meta) ''uid'')" "is_int (get_obj (JObj meta) ''generation'')"
    and ms: "source_of sha (get_obj (JObj meta) ''generation'') (get_obj (JObj status) ''metricSource'') = Inr ms"
    and t: "target_of ns spec = Inr (cm_target_name cm)"
    and cm: "cm_uid cm = the_str (get_obj (JObj meta) ''uid'')" "cm_generation cm = the_int (get_obj (JObj meta) ''generation'')"
      "cm_query cm = the_str (get_obj (JObj ms) ''query'')" "cm_sha256 cm = the_str (get_obj (JObj ms) ''sha256'')"
      "cm_target_uid cm = get_obj (JObj ms) ''targetUID''"
    using assms(1) unfolding compiled_of_def Let_def by (auto simp: bind_res_Inr_iff simp del: get_obj.simps)
  have meta: "get_obj (JObj meta) k = get_obj (get_obj pa ''metadata'') k" for k by (rule sub_obj_get [OF o(1)])
  have src: "get_obj (get_obj pa ''status'') ''metricSource'' = JObj ms"
    using source_of_Inr(1) [OF ms] sub_obj_get [OF o(3)] by simp
  obtain target where tg: "\<And>k. get_obj (JObj target) k = get_obj (get_obj (JObj spec) ''targetDeployment'') k"
    "get_obj (JObj target) ''name'' = JStr (cm_target_name cm)"
    "truthy (get_obj (JObj target) ''namespace'') \<Longrightarrow> get_obj (JObj target) ''namespace'' = JStr ns"
    "valid_name (JStr (cm_target_name cm))"
    using target_of_Inr [OF t] by blast
  have tpath: "get_obj (get_obj (get_obj pa ''spec'') ''targetDeployment'') k = get_obj (JObj target) k" for k
    using tg(1) sub_obj_get [OF o(2)] by simp
  show "autoscaler_states sha pa sig"
    using assms(2-) tg(2,3) cm source_of_Inr(2-) [OF ms] nonempty_str_the [OF g(1)] is_int_the [OF g(2)]
    unfolding autoscaler_states_def Let_def src tpath meta by (simp del: get_obj.simps)
  show "valid_name (JStr (cm_target_name cm))" by (rule tg(4))
qed

lemma check_deployment_Inr:
  assumes "check_deployment cm dep = Inr uid"
  shows "get_obj (get_obj dep ''metadata'') ''uid'' = JStr uid" and "uid \<noteq> []" and "cm_target_uid cm = JStr uid"
proof -
  obtain meta where m: "sub_obj dep ''metadata'' = Inr meta" "nonempty_str (get_obj (JObj meta) ''uid'')"
    "json_eq (cm_target_uid cm) (get_obj (JObj meta) ''uid'')" "uid = the_str (get_obj (JObj meta) ''uid'')"
    using assms by (auto simp: check_deployment_def bind_res_Inr_iff Let_def split: if_splits simp del: get_obj.simps)
  have v: "get_obj (JObj meta) ''uid'' = JStr uid" "uid \<noteq> []" using nonempty_str_the [OF m(2)] m(4) by auto
  show "get_obj (get_obj dep ''metadata'') ''uid'' = JStr uid" using sub_obj_get [OF m(1)] v(1) by simp
  show "uid \<noteq> []" by (rule v(2))
  show "cm_target_uid cm = JStr uid" using m(3) v(1) by (simp add: json_eq_str_iff)
qed

lemma resolve_autoscaler_Inr:
  assumes "resolve_autoscaler sha rd ns name s0 = (Inr sig, s2)"
  obtains pa dep s1 where "rd (pa_path (the_str ns) (the_str name)) s0 = (Inr (Some pa), s1)"
    and "rd (deployment_path (the_str ns) (sig_name sig)) s1 = (Inr (Some dep), s2)"
    and "autoscaler_states sha pa sig" and "get_obj (get_obj dep ''metadata'') ''uid'' = JStr (sig_target_uid sig)"
    and "sig_namespace sig = the_str ns" and "sig_contract sig = SIGNAL_CONTRACT" and "sig_metric sig = ''requests''"
    and "valid_namespace ns" and "valid_name name" and "valid_name (JStr (sig_name sig))"
proof -
  have v: "valid_namespace ns" "valid_name name" using assms by (auto simp: resolve_autoscaler_def split: if_splits)
  obtain pa s1 cm dep uid where r: "rd (pa_path (the_str ns) (the_str name)) s0 = (Inr (Some pa), s1)"
    "compiled_of sha (the_str ns) pa = Inr cm"
    "rd (deployment_path (the_str ns) (cm_target_name cm)) s1 = (Inr (Some dep), s2)"
    "check_deployment cm dep = Inr uid"
    and sig: "sig = \<lparr> sig_namespace = the_str ns, sig_name = cm_target_name cm, sig_metric = ''requests'',
                     sig_query = cm_query cm, sig_sha256 = cm_sha256 cm, sig_contract = SIGNAL_CONTRACT,
                     sig_autoscaler_uid = cm_uid cm, sig_target_uid = uid, sig_generation = cm_generation cm \<rparr>"
    using assms v unfolding resolve_autoscaler_def Let_def
    by (auto simp: st_bind_Inr_iff map_sum_Inr_iff split: option.splits)
  note d = check_deployment_Inr [OF r(4)]
  note c = compiled_of_Inr [OF r(2) d(3), of sig, unfolded sig resolved_signal.simps, OF refl refl refl refl refl refl refl]
  show thesis using that [of pa s1 dep] r d v c by (simp add: sig)
qed

text \<open>A valid name cannot leave its place in a path.\<close>

lemma dns_label_no_slash: "dns_label s \<Longrightarrow> CHR ''/'' \<notin> set s"
proof
  assume "dns_label s" and "CHR ''/'' \<in> set s"
  then have "alnum CHR ''/'' \<or> CHR ''/'' = CHR ''-''" unfolding dns_label_def list_all_iff by blast
  then show False by (simp add: alnum_def)
qed

lemma split_dots_chars: "c \<in> set s \<Longrightarrow> c \<noteq> CHR ''.'' \<Longrightarrow> \<exists>l \<in> set (split_dots s). c \<in> set l"
  by (induction s) (auto split: list.splits if_splits)

lemma set_chomp: "set s \<subseteq> insert (CHR 0x0A) (set (chomp s))"
proof (cases "s \<noteq> [] \<and> last s = CHR 0x0A")
  case True
  then have "s = butlast s @ [CHR 0x0A]" using append_butlast_last_id [of s] by simp
  then have "set s = set (butlast s @ [CHR 0x0A])" by simp
  then show ?thesis using True by (simp add: chomp_def)
qed (auto simp: chomp_def)

lemma valid_no_slash:
  "valid_namespace (JStr s) \<Longrightarrow> CHR ''/'' \<notin> set s"
  "valid_name (JStr s) \<Longrightarrow> CHR ''/'' \<notin> set s"
proof -
  assume "valid_namespace (JStr s)"
  then have "CHR ''/'' \<notin> set (chomp s)" by (simp add: valid_namespace_def dns_label_no_slash)
  then show "CHR ''/'' \<notin> set s" using set_chomp [of s] by auto
next
  assume "valid_name (JStr s)"
  then have "list_all dns_label (split_dots (chomp s))" by (simp add: valid_name_def dns_subdomain_def)
  then have "CHR ''/'' \<notin> set (chomp s)"
    using split_dots_chars [of "CHR ''/''" "chomp s"] dns_label_no_slash by (auto simp: list_all_iff)
  then show "CHR ''/'' \<notin> set s" using set_chomp [of s] by auto
qed

lemma signal_agrees_lemma:
  assumes "resolve_signal sha rd (JObj req) s0 = (Inr sig, s2)"
  shows "\<exists>ns name pa dep s1.
     rd (pa_path ns name) s0 = (Inr (Some pa), s1) \<and> rd (deployment_path ns (sig_name sig)) s1 = (Inr (Some dep), s2) \<and>
     CHR ''/'' \<notin> set ns \<union> set name \<union> set (sig_name sig) \<and>
     autoscaler_states sha pa sig \<and> get_obj (get_obj dep ''metadata'') ''uid'' = JStr (sig_target_uid sig) \<and>
     (sig_namespace sig, sig_contract sig, sig_metric sig) = (ns, SIGNAL_CONTRACT, ''requests'') \<and>
     map (get_obj (JObj req)) [''autoscaler_namespace'', ''autoscaler_name'', ''autoscaler_uid'', ''autoscaler_generation'',
         ''target_uid'', ''metric_query_sha256'', ''contract'', ''application''] =
       [JStr ns, JStr name, JStr (sig_autoscaler_uid sig), JInt (sig_generation sig), JStr (sig_target_uid sig),
        JStr (sig_sha256 sig), JStr SIGNAL_CONTRACT, JStr (sig_name sig)]"
proof -
  obtain rf where rf: "reference_of req = Inr rf"
    and ra: "resolve_autoscaler sha rd (rf_ns rf) (rf_name rf) s0 = (Inr sig, s2)"
    and m: "match_reference req rf sig = Inr sig"
    using assms by (auto simp: resolve_signal_def st_bind_Inr_iff match_reference_def split: if_splits)
  obtain pa dep s1 where p: "rd (pa_path (the_str (rf_ns rf)) (the_str (rf_name rf))) s0 = (Inr (Some pa), s1)"
    "rd (deployment_path (the_str (rf_ns rf)) (sig_name sig)) s1 = (Inr (Some dep), s2)"
    "autoscaler_states sha pa sig" "get_obj (get_obj dep ''metadata'') ''uid'' = JStr (sig_target_uid sig)"
    "sig_namespace sig = the_str (rf_ns rf)" "sig_contract sig = SIGNAL_CONTRACT" "sig_metric sig = ''requests''"
    "valid_namespace (rf_ns rf)" "valid_name (rf_name rf)" "valid_name (JStr (sig_name sig))"
    using resolve_autoscaler_Inr [OF ra] by blast
  have q: "rf_ns rf = get_obj (JObj req) ''autoscaler_namespace''" "rf_name rf = get_obj (JObj req) ''autoscaler_name''"
    "get_obj (JObj req) ''autoscaler_uid'' = JStr (rf_uid rf)"
    "get_obj (JObj req) ''autoscaler_generation'' = JInt (rf_generation rf)"
    "get_obj (JObj req) ''target_uid'' = JStr (rf_target_uid rf)"
    "get_obj (JObj req) ''metric_query_sha256'' = JStr (rf_sha rf)" "get_obj (JObj req) ''contract'' = JStr SIGNAL_CONTRACT"
    using rf unfolding reference_of_def
    by (auto simp: bind_res_Inr_iff require_Inr json_eq_str_iff sha_str_def dest: nonempty_str_the is_int_the
        split: if_splits json.splits simp del: get_obj.simps)
  have strs: "rf_ns rf = JStr (the_str (rf_ns rf))" "rf_name rf = JStr (the_str (rf_name rf))"
    using p(8,9) valid_str_the by blast+
  have slash: "CHR ''/'' \<notin> set (the_str (rf_ns rf)) \<union> set (the_str (rf_name rf)) \<union> set (sig_name sig)"
    using valid_no_slash p(8,9,10) strs by (metis Un_iff)
  have "sig_autoscaler_uid sig = rf_uid rf" "sig_generation sig = rf_generation rf" "sig_sha256 sig = rf_sha rf"
    "sig_target_uid sig = rf_target_uid rf" "get_obj (JObj req) ''application'' = JStr (sig_name sig)"
    using m by (auto simp: match_reference_def json_eq_str_iff simp del: get_obj.simps split: if_splits)
  with p slash q strs show ?thesis
    by (intro exI [of _ "the_str (rf_ns rf)"] exI [of _ "the_str (rf_name rf)"] exI [of _ pa] exI [of _ dep] exI [of _ s1])
      (simp del: get_obj.simps)
qed

section \<open>Properties\<close>

text \<open>A resolved signal agrees with the request and with both live objects. The reference names the autoscaler that
  was read first and the Deployment that was read second (and neither name can leave its place in the path); the
  object's UID, generation, compiled generation, query hash and target UID are those of the request; the hash is the
  hash of the compiled query that will be used; and the live Deployment has the compiled target UID.\<close>

theorem resolved_signal_agrees:
  assumes "resolve_signal sha rd (JObj req) s0 = (Inr sig, s2)"
  shows "\<exists>ns name pa dep s1.
     rd (pa_path ns name) s0 = (Inr (Some pa), s1) \<and> rd (deployment_path ns (sig_name sig)) s1 = (Inr (Some dep), s2) \<and>
     CHR ''/'' \<notin> set ns \<union> set name \<union> set (sig_name sig) \<and>
     autoscaler_states sha pa sig \<and> get_obj (get_obj dep ''metadata'') ''uid'' = JStr (sig_target_uid sig) \<and>
     (sig_namespace sig, sig_contract sig, sig_metric sig) = (ns, SIGNAL_CONTRACT, ''requests'') \<and>
     map (get_obj (JObj req)) [''autoscaler_namespace'', ''autoscaler_name'', ''autoscaler_uid'', ''autoscaler_generation'',
         ''target_uid'', ''metric_query_sha256'', ''contract'', ''application''] =
       [JStr ns, JStr name, JStr (sig_autoscaler_uid sig), JInt (sig_generation sig), JStr (sig_target_uid sig),
        JStr (sig_sha256 sig), JStr SIGNAL_CONTRACT, JStr (sig_name sig)]"
  using signal_agrees_lemma [OF assms] .

text \<open>A cluster with one autoscaler and its Deployment; the hash of the model is a constant function.\<close>

definition demo_pa :: json where
  "demo_pa = JObj [
     (''metadata'', JObj [(''uid'', JStr ''u1''), (''generation'', JInt 7)]),
     (''spec'', JObj [(''targetDeployment'', JObj [(''name'', JStr ''web'')]), (''prediction'', JObj [])]),
     (''status'', JObj [(''metricSource'', JObj [(''observedGeneration'', JInt 7), (''query'', JStr ''q''),
        (''sha256'', JStr (demo_sha ''q'')), (''contract'', JStr SIGNAL_CONTRACT), (''targetUID'', JStr ''t1'')]),
        (''prediction'', JObj [(''lead'', JObj [(''seconds'', JInt 600), (''startupDelaySeconds'', JInt 120),
           (''actuationAllowanceSeconds'', JInt 15), (''method'', JStr ''configured''), (''sampleCount'', JInt 0),
           (''observedGeneration'', JInt 7)])])])]"

definition demo_deployment :: json where
  "demo_deployment = JObj [(''metadata'', JObj [(''uid'', JStr ''t1'')])]"

definition demo_cluster :: "nat reader" where
  "demo_cluster path n =
     (Inr (if path = pa_path ''shop'' ''web-pa'' then Some demo_pa
           else if path = deployment_path ''shop'' ''web'' then Some demo_deployment else None), Suc n)"

definition demo_reference :: obj where
  "demo_reference = [(''autoscaler_namespace'', JStr ''shop''), (''autoscaler_name'', JStr ''web-pa''),
     (''autoscaler_uid'', JStr ''u1''), (''autoscaler_generation'', JInt 7), (''target_uid'', JStr ''t1''),
     (''metric_query_sha256'', JStr (demo_sha ''q'')), (''contract'', JStr SIGNAL_CONTRACT),
     (''application'', JStr ''web''), (''namespace'', JStr ''shop'')]"

definition demo_signal :: resolved_signal where
  "demo_signal = \<lparr> sig_namespace = ''shop'', sig_name = ''web'', sig_metric = ''requests'', sig_query = ''q'',
     sig_sha256 = demo_sha ''q'', sig_contract = SIGNAL_CONTRACT, sig_autoscaler_uid = ''u1'', sig_target_uid = ''t1'',
     sig_generation = 7 \<rparr>"

lemma demo_names:
  "valid_namespace (JStr ''shop'')" "valid_name (JStr ''web-pa'')" "valid_name (JStr ''web'')"
  "deployment_path ''shop'' ''web'' \<noteq> pa_path ''shop'' ''web-pa''"
  by code_simp+

lemma demo_resolves: "resolve_signal demo_sha demo_cluster (JObj demo_reference) 0 = (Inr demo_signal, 2)"
proof -
  have "sha_str (JStr (demo_sha ''q''))" by (simp add: sha_str_def demo_sha_ok)
  then show ?thesis
    using demo_names
    by (simp add: resolve_signal_def reference_of_def require_def demo_reference_def nonempty_str_def get_default_def
        resolve_autoscaler_def demo_cluster_def compiled_of_def source_of_def target_of_def sub_obj_def demo_pa_def
        check_deployment_def demo_deployment_def match_reference_def demo_signal_def)
qed

theorem resolved_signal_agrees_witness:
  "\<exists>ns name pa dep s1. demo_cluster (pa_path ns name) 0 = (Inr (Some pa), s1) \<and>
     demo_cluster (deployment_path ns (sig_name demo_signal)) s1 = (Inr (Some dep), 2) \<and>
     autoscaler_states demo_sha pa demo_signal"
  using resolved_signal_agrees [OF demo_resolves] by blast

end
