(* ===== verification/Wire.thy ===== *)
theory Wire
  imports Identity
begin

text \<open>
  The two ends of the v2 wire protocol in \<^verbatim>\<open>forecasting/contracts.py\<close>: \<open>parse_request\<close> and \<open>bind_request\<close>, which tie a
  request to the live autoscaler that identity resolution read (through a recording reader, so the settings come from
  that very object), and \<open>to_wire\<close> and \<open>response_from_wire\<close>, the encoding of a response.
\<close>

section \<open>The settings fingerprint\<close>

definition SETTINGS_SCHEMA :: string where "SETTINGS_SCHEMA = ''forecast-settings/v1''"

definition trust_json :: "trust_settings \<Rightarrow> json" where
  "trust_json t =
     JObj [(''min_shadow_hours'', JInt (min_shadow_hours t)), (''min_prospective_windows'', JInt (min_prospective_windows t)),
       (''coverage_tolerance_bps'', JInt (coverage_tolerance_bps t)), (''worst_day_min_outcomes'', JInt (worst_day_min_outcomes t)),
       (''min_availability_bps'', JInt (min_availability_bps t)),
       (''acute_consecutive_misses'', JInt (acute_consecutive_misses t)),
       (''acute_recent_windows'', JInt (acute_recent_windows t)), (''repromotion_hours'', JInt (repromotion_hours t)),
       (''repromotion_windows'', JInt (repromotion_windows t)), (''challenger_min_pairs'', JInt (challenger_min_pairs t)),
       (''challenger_min_hours'', JInt (challenger_min_hours t)),
       (''challenger_loss_ratio_bps'', JInt (challenger_loss_ratio_bps t)),
       (''challenger_exit_loss_ratio_bps'', JInt (challenger_exit_loss_ratio_bps t)),
       (''challenger_cost_ratio_bps'', JInt (challenger_cost_ratio_bps t)), (''max_fit_age_hours'', JInt (max_fit_age_hours t))]"

definition settings_canonical :: "forecast_settings \<Rightarrow> json" where
  "settings_canonical s =
     JObj [(''schema'', JStr SETTINGS_SCHEMA), (''settings'', JObj [(''engine'', JStr (engine s)),
       (''sample_interval_seconds'', JInt (sample_interval_seconds s)), (''seasonality'', JStr (seasonality s)),
       (''history_days'', JInt (history_days s)), (''horizon_seconds'', JInt (horizon_seconds s)),
       (''settlement_seconds'', JInt (settlement_seconds s)), (''outcome_grace_seconds'', JInt (outcome_grace_seconds s)),
       (''risk'', risk_json (risk s)), (''calibration'', calibration_json (calibration s)), (''trust'', trust_json (trust s)),
       (''predictive_extra'', JObj [(''max_replicas'', JInt (max_replicas (predictive_extra s))),
          (''max_percent'', JInt (max_percent (predictive_extra s)))])])]"

definition fingerprint :: "(string \<Rightarrow> string) \<Rightarrow> forecast_settings \<Rightarrow> string" where
  "fingerprint sha s = sha (canonical_bytes (settings_canonical s))"

section \<open>Requests\<close>

definition IDENTITY_FIELDS :: "string list" where
  "IDENTITY_FIELDS = [''autoscaler_namespace'', ''autoscaler_name'', ''autoscaler_uid'', ''autoscaler_generation'',
     ''target_uid'', ''metric_query_sha256'', ''contract'', ''application'', ''namespace'']"

definition REQUIRED_FIELDS :: "string list" where
  "REQUIRED_FIELDS = IDENTITY_FIELDS @ [''forecast_contract'', ''decision_origin'', ''settings_sha256'']"

definition REQUEST_FIELDS :: "string list" where
  "REQUEST_FIELDS = REQUIRED_FIELDS @ [''metric_type'']"

record v2_request =
  q_identity :: obj
  q_decision_origin :: int
  q_settings_sha256 :: string

definition identity_part :: "obj \<Rightarrow> obj" where
  "identity_part body =
     map (\<lambda>k. (k, get_obj (JObj body) k)) IDENTITY_FIELDS @
     (case dict_get body ''metric_type'' of None \<Rightarrow> [] | Some v \<Rightarrow> [(''metric_type'', v)])"

definition parse_request :: "json \<Rightarrow> contract_error + v2_request" where
  "parse_request body =
     (case body of
        JObj kvs \<Rightarrow>
          if \<not> set (map fst kvs) \<subseteq> set REQUEST_FIELDS then Inl (Refused ''unknown request fields'')
          else if \<not> set REQUIRED_FIELDS \<subseteq> set (map fst kvs) then Inl (Refused ''missing request fields'')
          else if \<not> json_eq (get_obj body ''forecast_contract'') (JStr FORECAST_CONTRACT)
            then Inl (Refused ''forecast_contract'')
          else if \<not> json_eq (get_obj body ''contract'') (JStr SIGNAL_CONTRACT) then Inl (Refused ''contract'')
          else if \<not> sha_str (get_obj body ''settings_sha256'') then Inl (Refused ''settings_sha256'')
          else bind_res (parse_ts (get_obj body ''decision_origin'') ''decision_origin'') (\<lambda>origin.
            Inr \<lparr> q_identity = identity_part kvs, q_decision_origin = origin,
                  q_settings_sha256 = the_str (get_obj body ''settings_sha256'') \<rparr>)
      | _ \<Rightarrow> Inl (Refused ''the request is not an object''))"

text \<open>\<open>_RecordingReader\<close>: passes reads through and keeps what they returned.\<close>

type_synonym recorded = "(string \<times> json option) list"

fun rec_get :: "'s reader \<Rightarrow> ('s \<times> recorded) reader" where
  "rec_get rd path (s, objs) =
     (case rd path s of
        (Inl e, s') \<Rightarrow> (Inl e, (s', objs))
      | (Inr ob, s') \<Rightarrow> (Inr ob, (s', dict_set path ob objs)))"

datatype bind_error = BindContract contract_error | BindIdentity identity_error

definition finish_bind ::
  "(string \<Rightarrow> string) \<Rightarrow> v2_request \<Rightarrow> json \<Rightarrow> resolved_signal \<Rightarrow> int \<Rightarrow> contract_error + bound_request" where
  "finish_bind sha req pa sig now_ms =
     bind_res (resolve_settings pa) (\<lambda>settings.
       let hash = fingerprint sha settings; dt = sample_interval_seconds settings; origin = q_decision_origin req in
       if hash \<noteq> q_settings_sha256 req then Inl (Refused ''settings_sha256 does not match'')
       else if origin mod dt \<noteq> 0 then Inl (Refused ''decision_origin is not on the grid'')
       else if \<not> (origin * 1000 \<le> now_ms \<and> now_ms < (origin + dt) * 1000)
         then Inl (Refused ''decision_origin is not current'')
       else let lead = resolve_lead pa settings (sig_generation sig) in
         Inr \<lparr> b_autoscaler_namespace = the_str (get_obj (JObj (q_identity req)) ''autoscaler_namespace''),
               b_autoscaler_name = the_str (get_obj (JObj (q_identity req)) ''autoscaler_name''),
               b_signal = sig, b_settings = settings, b_settings_sha256 = hash, b_decision_origin = origin,
               b_lead = (case lead of Inl _ \<Rightarrow> None | Inr l \<Rightarrow> Some l),
               b_lead_problem = (case lead of Inl why \<Rightarrow> Some why | Inr _ \<Rightarrow> None) \<rparr>)"

definition bind_request ::
  "(string \<Rightarrow> string) \<Rightarrow> 's reader \<Rightarrow> json \<Rightarrow> int \<Rightarrow> 's \<Rightarrow> (bind_error + bound_request) \<times> 's" where
  "bind_request sha rd body now_ms s =
     (case parse_request body of
        Inl e \<Rightarrow> (Inl (BindContract e), s)
      | Inr req \<Rightarrow>
          (case resolve_signal sha (rec_get rd) (JObj (q_identity req)) (s, []) of
             (Inl e, (s', objs)) \<Rightarrow> (Inl (BindIdentity e), s')
           | (Inr sig, (s', objs)) \<Rightarrow>
               let path = pa_path (the_str (get_obj (JObj (q_identity req)) ''autoscaler_namespace''))
                            (the_str (get_obj (JObj (q_identity req)) ''autoscaler_name'')) in
               (case dict_get objs path of
                  Some (Some (JObj pa)) \<Rightarrow> (map_sum BindContract id (finish_bind sha req (JObj pa) sig now_ms), s')
                | _ \<Rightarrow> (Inl (BindContract (Refused ''the autoscaler object was not read'')), s'))))"

section \<open>Responses on the wire\<close>

definition WIRE_FIELDS :: "string list" where
  "WIRE_FIELDS = [
     ''autoscaler_namespace'', ''autoscaler_name'', ''autoscaler_uid'', ''autoscaler_generation'',
     ''target_namespace'', ''target_name'', ''target_uid'', ''metric_query_sha256'', ''contract'',
     ''settings_sha256'', ''forecast_contract'', ''unit'', ''issuance_id'', ''input_end'', ''fit_cutoff'',
     ''model_family'', ''model_recipe'', ''artifact_sha256'', ''calibration_epoch'', ''checkpoint_sha256'',
     ''decision_origin'', ''window_start'', ''window_end'', ''target_timestamps'', ''sample_interval_seconds'',
     ''lead_seconds'', ''startup_delay_seconds'', ''actuation_allowance_seconds'', ''valid_until'', ''point_rps'',
     ''base_window_max_rps'', ''upper_window_max_rps'', ''nominal_miscoverage_bps'', ''working_miscoverage_ratio'',
     ''calibration_windows'', ''prospective_windows'', ''gate_coverage_ratio'', ''missing_outcome_ratio'',
     ''selected_candidate'', ''trust_state'', ''reason'', ''predictive_eligible'', ''evidence_cutoff'',
     ''issued_at'', ''input_received_through'']"

definition format_opt_ts :: "int option \<Rightarrow> contract_error + json" where
  "format_opt_ts t = (case t of None \<Rightarrow> Inr JNull | Some x \<Rightarrow> bind_res (format_ts (JInt x)) (Inr \<circ> JStr))"

definition wire_body ::
  "v2_response \<Rightarrow> string \<Rightarrow> string \<Rightarrow> json \<Rightarrow> json \<Rightarrow> json \<Rightarrow> json \<Rightarrow> json \<Rightarrow> json \<Rightarrow> json \<Rightarrow> string list \<Rightarrow> obj" where
  "wire_body r a_issued a_received a_end a_fit a_origin a_start a_stop a_valid a_evidence a_targets = [
        (''autoscaler_namespace'', r_autoscaler_namespace r), (''autoscaler_name'', r_autoscaler_name r),
        (''autoscaler_uid'', r_autoscaler_uid r), (''autoscaler_generation'', r_autoscaler_generation r),
        (''target_namespace'', r_target_namespace r), (''target_name'', r_target_name r),
        (''target_uid'', r_target_uid r), (''metric_query_sha256'', r_metric_query_sha256 r),
        (''contract'', r_contract r), (''settings_sha256'', r_settings_sha256 r),
        (''forecast_contract'', r_forecast_contract r), (''unit'', r_unit r), (''issuance_id'', r_issuance_id r),
        (''input_end'', a_end), (''fit_cutoff'', a_fit), (''model_family'', r_model_family r),
        (''model_recipe'', r_model_recipe r), (''artifact_sha256'', r_artifact_sha256 r),
        (''calibration_epoch'', r_calibration_epoch r), (''checkpoint_sha256'', r_checkpoint_sha256 r),
        (''decision_origin'', a_origin), (''window_start'', a_start), (''window_end'', a_stop),
        (''target_timestamps'', JList (map JStr a_targets)),
        (''sample_interval_seconds'', r_sample_interval_seconds r), (''lead_seconds'', r_lead_seconds r),
        (''startup_delay_seconds'', r_startup_delay_seconds r),
        (''actuation_allowance_seconds'', r_actuation_allowance_seconds r), (''valid_until'', a_valid),
        (''point_rps'', JList (r_point_rps r)), (''base_window_max_rps'', r_base_window_max_rps r),
        (''upper_window_max_rps'', r_upper_window_max_rps r),
        (''nominal_miscoverage_bps'', r_nominal_miscoverage_bps r),
        (''working_miscoverage_ratio'', r_working_miscoverage_ratio r),
        (''calibration_windows'', r_calibration_windows r), (''prospective_windows'', r_prospective_windows r),
        (''gate_coverage_ratio'', r_gate_coverage_ratio r), (''missing_outcome_ratio'', r_missing_outcome_ratio r),
        (''selected_candidate'', r_selected_candidate r), (''trust_state'', r_trust_state r),
        (''reason'', r_reason r), (''predictive_eligible'', r_predictive_eligible r),
        (''evidence_cutoff'', a_evidence), (''issued_at'', JStr a_issued),
        (''input_received_through'', JStr a_received)]"

definition to_wire :: "v2_response \<Rightarrow> contract_error + json" where
  "to_wire r =
     bind_res (format_ms (JInt (r_issued_at_ms r))) (\<lambda>a_issued.
     bind_res (format_ms (JInt (r_input_received_through_ms r))) (\<lambda>a_received.
     bind_res (format_opt_ts (Some (r_input_end r))) (\<lambda>a_end.
     bind_res (format_opt_ts (r_fit_cutoff r)) (\<lambda>a_fit.
     bind_res (format_opt_ts (Some (r_decision_origin r))) (\<lambda>a_origin.
     bind_res (format_opt_ts (Some (r_window_start r))) (\<lambda>a_start.
     bind_res (format_opt_ts (Some (r_window_end r))) (\<lambda>a_stop.
     bind_res (format_opt_ts (Some (r_valid_until r))) (\<lambda>a_valid.
     bind_res (format_opt_ts (r_evidence_cutoff r)) (\<lambda>a_evidence.
     bind_res (map_res (\<lambda>t. format_ts (JInt t)) (r_target_timestamps r)) (\<lambda>a_targets.
     Inr (JObj (wire_body r a_issued a_received a_end a_fit a_origin a_start a_stop a_valid a_evidence a_targets))))))))))))"

definition parse_opt_ts :: "json \<Rightarrow> string \<Rightarrow> contract_error + int option" where
  "parse_opt_ts v what = (if v = JNull then Inr None else bind_res (parse_ts v what) (Inr \<circ> Some))"

definition list_of :: "json \<Rightarrow> json list option" where
  "list_of v = (case v of JList xs \<Rightarrow> Some xs | _ \<Rightarrow> None)"

definition response_of :: "json \<Rightarrow> contract_error + v2_response" where
  "response_of w =
     bind_res (parse_ms (get_obj w ''issued_at'') ''issued_at'') (\<lambda>p_issued.
     bind_res (parse_ms (get_obj w ''input_received_through'') ''input_received_through'') (\<lambda>p_received.
     bind_res (parse_ts (get_obj w ''input_end'') ''input_end'') (\<lambda>p_end.
     bind_res (parse_ts (get_obj w ''decision_origin'') ''decision_origin'') (\<lambda>p_origin.
     bind_res (parse_ts (get_obj w ''window_start'') ''window_start'') (\<lambda>p_start.
     bind_res (parse_ts (get_obj w ''window_end'') ''window_end'') (\<lambda>p_stop.
     bind_res (parse_ts (get_obj w ''valid_until'') ''valid_until'') (\<lambda>p_valid.
     bind_res (parse_opt_ts (get_obj w ''fit_cutoff'') ''fit_cutoff'') (\<lambda>p_fit.
     bind_res (parse_opt_ts (get_obj w ''evidence_cutoff'') ''evidence_cutoff'') (\<lambda>p_evidence.
     case (list_of (get_obj w ''target_timestamps''), list_of (get_obj w ''point_rps'')) of
       (Some targets, Some points) \<Rightarrow>
         bind_res (map_res (\<lambda>t. parse_ts t ''target timestamp'') targets) (\<lambda>p_targets.
         Inr \<lparr>
        r_autoscaler_namespace = get_obj w ''autoscaler_namespace'',
        r_autoscaler_name = get_obj w ''autoscaler_name'', r_autoscaler_uid = get_obj w ''autoscaler_uid'',
        r_autoscaler_generation = get_obj w ''autoscaler_generation'',
        r_target_namespace = get_obj w ''target_namespace'', r_target_name = get_obj w ''target_name'',
        r_target_uid = get_obj w ''target_uid'', r_metric_query_sha256 = get_obj w ''metric_query_sha256'',
        r_contract = get_obj w ''contract'', r_settings_sha256 = get_obj w ''settings_sha256'',
        r_forecast_contract = get_obj w ''forecast_contract'', r_unit = get_obj w ''unit'',
        r_issuance_id = get_obj w ''issuance_id'', r_issued_at_ms = p_issued, r_input_end = p_end,
        r_input_received_through_ms = p_received, r_fit_cutoff = p_fit, r_model_family = get_obj w ''model_family'',
        r_model_recipe = get_obj w ''model_recipe'', r_artifact_sha256 = get_obj w ''artifact_sha256'',
        r_calibration_epoch = get_obj w ''calibration_epoch'', r_checkpoint_sha256 = get_obj w ''checkpoint_sha256'',
        r_decision_origin = p_origin, r_window_start = p_start, r_window_end = p_stop,
        r_target_timestamps = p_targets, r_sample_interval_seconds = get_obj w ''sample_interval_seconds'',
        r_lead_seconds = get_obj w ''lead_seconds'', r_startup_delay_seconds = get_obj w ''startup_delay_seconds'',
        r_actuation_allowance_seconds = get_obj w ''actuation_allowance_seconds'', r_valid_until = p_valid,
        r_point_rps = points, r_base_window_max_rps = get_obj w ''base_window_max_rps'',
        r_upper_window_max_rps = get_obj w ''upper_window_max_rps'',
        r_nominal_miscoverage_bps = get_obj w ''nominal_miscoverage_bps'',
        r_working_miscoverage_ratio = get_obj w ''working_miscoverage_ratio'',
        r_calibration_windows = get_obj w ''calibration_windows'',
        r_prospective_windows = get_obj w ''prospective_windows'',
        r_gate_coverage_ratio = get_obj w ''gate_coverage_ratio'',
        r_missing_outcome_ratio = get_obj w ''missing_outcome_ratio'',
        r_selected_candidate = get_obj w ''selected_candidate'', r_trust_state = get_obj w ''trust_state'',
        r_reason = get_obj w ''reason'', r_predictive_eligible = get_obj w ''predictive_eligible'',
        r_evidence_cutoff = p_evidence \<rparr>)
     | _ \<Rightarrow> Inl (Refused ''target_timestamps and point_rps must be arrays''))))))))))"

definition response_from_wire :: "(string \<Rightarrow> string) \<Rightarrow> json \<Rightarrow> contract_error + v2_response" where
  "response_from_wire sha w =
     (case w of
        JObj kvs \<Rightarrow>
          if set (map fst kvs) \<noteq> set WIRE_FIELDS then Inl (Refused ''response fields differ'')
          else bind_res (response_of w) (\<lambda>r. bind_res (check_response sha r None) (\<lambda>_. Inr r))
      | _ \<Rightarrow> Inl (Refused ''the response is not an object''))"

section \<open>Binding uses the object identity was checked against\<close>

text \<open>A recording reader answers as the reader it wraps, whatever it has recorded.\<close>

lemma rec_get_answer:
  "fst (rec_get rd path so) = fst (rd path (fst so))" "fst (snd (rec_get rd path so)) = snd (rd path (fst so))"
  by (cases so; simp split: prod.splits sum.splits)+

lemma rec_get_eq:
  "rec_get rd path so = (r, so') \<Longrightarrow> rd path (fst so) = (r, fst so')"
  using rec_get_answer [of rd path so] by (metis fst_conv prod.collapse snd_conv)

lemma recorded_after: "rec_get rd path so = (Inr ob, so') \<Longrightarrow> snd so' = dict_set path ob (snd so)"
  by (cases so) (auto split: prod.splits sum.splits)

text \<open>Two computations over a recording reader and the reader itself, in step.\<close>

definition in_step :: "('e + 'a) \<times> ('s \<times> recorded) \<Rightarrow> ('e + 'a) \<times> 's \<Rightarrow> bool" where
  "in_step x y \<longleftrightarrow> fst x = fst y \<and> fst (snd x) = snd y"

lemma in_step_get: "in_step (rec_get rd path so) (rd path (fst so))"
  by (simp add: in_step_def rec_get_answer)

lemma in_step_ret [simp]: "in_step (r, so) (r, s) \<longleftrightarrow> fst so = s"
  by (simp add: in_step_def)

lemma in_step_bind:
  assumes "in_step x y" and "\<And>a so. in_step (f a so) (g a (fst so))"
  shows "in_step (st_bind x f) (st_bind y g)"
proof -
  obtain r so where x: "x = (r, so)" by (cases x) auto
  then have y: "y = (r, fst so)" using assms(1) by (cases y) (auto simp: in_step_def)
  show ?thesis using assms(2) by (cases r) (simp_all add: x y in_step_ret)
qed

lemma resolve_signal_recorded:
  "in_step (resolve_signal sha (rec_get rd) request so) (resolve_signal sha rd request (fst so))"
proof -
  have ra: "in_step (resolve_autoscaler sha (rec_get rd) ns name so) (resolve_autoscaler sha rd ns name (fst so))"
    for ns name so
    unfolding resolve_autoscaler_def Let_def
    by (auto intro!: in_step_bind in_step_get split: option.splits)
  show ?thesis
    unfolding resolve_signal_def
    by (cases request) (auto intro!: in_step_bind ra)
qed

lemma pa_path_not_deployment: "pa_path a b \<noteq> deployment_path c d"
  by (simp add: pa_path_def deployment_path_def API_GROUP_def)

text \<open>What the recording reader holds afterwards under the autoscaler's path is the object that was resolved.\<close>

lemma recorded_autoscaler:
  assumes "resolve_signal sha (rec_get rd) (JObj req) (s0, []) = (Inr sig, (s2, objs))"
    and "get_obj (JObj req) ''autoscaler_namespace'' = JStr ns" and "get_obj (JObj req) ''autoscaler_name'' = JStr name"
  obtains pa where "dict_get objs (pa_path ns name) = Some (Some pa)" and "autoscaler_states sha pa sig"
proof -
  obtain ns' name' pa dep s1 where r: "rec_get rd (pa_path ns' name') (s0, []) = (Inr (Some pa), s1)"
    "rec_get rd (deployment_path ns' (sig_name sig)) s1 = (Inr (Some dep), (s2, objs))" "autoscaler_states sha pa sig"
    "get_obj (JObj req) ''autoscaler_namespace'' = JStr ns'" "get_obj (JObj req) ''autoscaler_name'' = JStr name'"
    using signal_agrees_lemma [OF assms(1)] by (auto simp del: get_obj.simps)
  have "objs = dict_set (deployment_path ns (sig_name sig)) (Some dep) [(pa_path ns name, Some pa)]"
    using recorded_after [OF r(1)] recorded_after [OF r(2)] r(4,5) assms(2,3) by simp
  then have "dict_get objs (pa_path ns name) = Some (Some pa)"
    using pa_path_not_deployment by (simp add: dict_get_set)
  from that [OF this r(3)] show thesis .
qed

lemma identity_part_get:
  assumes "k \<in> set IDENTITY_FIELDS"
  shows "get_obj (JObj (identity_part body)) k = get_obj (JObj body) k"
proof -
  have "dict_get (map (\<lambda>k. (k, get_obj (JObj body) k)) ks @ rest) k = Some (get_obj (JObj body) k)"
    if "k \<in> set ks" for ks rest using that by (induction ks) auto
  then show ?thesis using assms by (simp add: identity_part_def del: get_obj.simps) (simp only: get_obj.simps, simp)
qed

lemma current_origin:
  assumes "t mod dt = (0::int)" "t * 1000 \<le> now_ms" "now_ms < (t + dt) * 1000"
  shows "t = now_ms div 1000 div dt * dt"
proof -
  have "0 < dt" using assms(2,3) by simp
  have lo: "t \<le> now_ms div 1000" using assms(2) by linarith
  have "now_ms div 1000 * 1000 \<le> now_ms" using div_mult_mod_eq [of now_ms 1000] pos_mod_sign [of 1000 now_ms] by linarith
  then have "now_ms div 1000 * 1000 < (t + dt) * 1000" using assms(3) by (rule le_less_trans)
  then have hi: "now_ms div 1000 < t + dt" by (simp only: mult_less_cancel_right)
  obtain k where k: "t = dt * k" using assms(1) by auto
  have "now_ms div 1000 div dt = k"
    by (rule int_div_pos_eq [where r = "now_ms div 1000 - t"]) (use lo hi k in simp_all)
  then show ?thesis using k by simp
qed

section \<open>Properties of binding\<close>


text \<open>A request for the cluster of \<open>demo_cluster\<close>.\<close>

definition demo_body :: obj where
  "demo_body = demo_reference @ [(''forecast_contract'', JStr FORECAST_CONTRACT),
     (''decision_origin'', JStr ''2026-09-21T14:15:00Z''), (''settings_sha256'', JStr (demo_sha []))]"

definition demo_request :: v2_request where
  "demo_request = \<lparr> q_identity = demo_reference, q_decision_origin = 1790000100, q_settings_sha256 = demo_sha [] \<rparr>"

lemma demo_parses: "parse_request (JObj demo_body) = Inr demo_request"
proof -
  have ts: "parse_ts (JStr ''2026-09-21T14:15:00Z'') ''decision_origin'' = Inr 1790000100"
    by (simp add: parse_ts_def parse_stamp_def ts_match_def chomp_def fits_def is_digit_def civil_of_def
        read_digits_def to_timestamp_def valid_date_def month_tables ymd2ord_def days_before_year_def is_leap_def)
  have sha: "sha_str (JStr (demo_sha []))" by (simp add: sha_str_def demo_sha_ok)
  have keys: "map fst demo_body = REQUIRED_FIELDS"
    by (simp add: demo_body_def demo_reference_def REQUIRED_FIELDS_def IDENTITY_FIELDS_def)
  have ident: "identity_part demo_body = demo_reference"
    by (simp add: identity_part_def demo_body_def demo_reference_def IDENTITY_FIELDS_def)
  have gets: "get_obj (JObj demo_body) ''forecast_contract'' = JStr FORECAST_CONTRACT"
    "get_obj (JObj demo_body) ''contract'' = JStr SIGNAL_CONTRACT" "get_obj (JObj demo_body) ''settings_sha256'' = JStr (demo_sha [])"
    "get_obj (JObj demo_body) ''decision_origin'' = JStr ''2026-09-21T14:15:00Z''"
    by (simp_all add: demo_body_def demo_reference_def)
  have "set (map fst demo_body) \<subseteq> set REQUEST_FIELDS" unfolding keys REQUEST_FIELDS_def by auto
  moreover have "set REQUIRED_FIELDS \<subseteq> set (map fst demo_body)" unfolding keys by simp
  ultimately show ?thesis
    using ts sha ident by (simp add: parse_request_def gets demo_request_def del: get_obj.simps set_map)
qed

definition demo_objects :: recorded where
  "demo_objects = [(pa_path ''shop'' ''web-pa'', Some demo_pa), (deployment_path ''shop'' ''web'', Some demo_deployment)]"

lemma demo_resolves_recorded:
  "resolve_signal demo_sha (rec_get demo_cluster) (JObj demo_reference) (0, []) = (Inr demo_signal, (2, demo_objects))"
proof -
  have "sha_str (JStr (demo_sha ''q''))" by (simp add: sha_str_def demo_sha_ok)
  then show ?thesis
    using demo_names
    by (simp add: resolve_signal_def reference_of_def require_def demo_reference_def nonempty_str_def get_default_def
        resolve_autoscaler_def demo_cluster_def compiled_of_def source_of_def target_of_def sub_obj_def demo_pa_def
        check_deployment_def demo_deployment_def match_reference_def demo_signal_def demo_objects_def Let_def)
qed

lemma demo_settings: "resolve_settings demo_pa = Inr default_settings"
  using resolve_settings_empty by (simp add: resolve_settings_def demo_pa_def object_of_def)

lemma demo_binds:
  "\<exists>b. bind_request demo_sha demo_cluster (JObj demo_body) 1790000100500 0 = (Inr b, 2) \<and>
     b_signal b = demo_signal \<and> b_settings b = default_settings \<and> b_lead b = Some demo_lead \<and> b_decision_origin b = 1790000100"
proof -
  have ids: "get_obj (JObj demo_reference) ''autoscaler_namespace'' = JStr ''shop''"
    "get_obj (JObj demo_reference) ''autoscaler_name'' = JStr ''web-pa''"
    by (simp_all add: demo_reference_def)
  have look: "dict_get demo_objects (pa_path ''shop'' ''web-pa'') = Some (Some demo_pa)" by (simp add: demo_objects_def)
  have same: "get_obj (get_obj (get_obj demo_pa ''status'') ''prediction'') ''lead'' =
      get_obj (get_obj (get_obj demo_status ''status'') ''prediction'') ''lead''"
    by (simp add: demo_pa_def demo_status_def)
  have lead: "resolve_lead demo_pa default_settings 7 = Inr demo_lead"
    using demo_resolve_lead unfolding resolve_lead_def same .
  have fp: "fingerprint demo_sha default_settings = demo_sha []" by (simp add: fingerprint_def demo_sha_def)
  have gen: "sig_generation demo_signal = 7" by (simp add: demo_signal_def)
  have dt: "sample_interval_seconds default_settings = 300" by (simp add: default_settings_def)
  obtain kvs where pa: "demo_pa = JObj kvs" by (simp add: demo_pa_def)
  show ?thesis
    using look demo_settings lead unfolding pa
    by (simp add: bind_request_def demo_parses demo_resolves_recorded ids demo_request_def finish_bind_def fp gen dt
        del: get_obj.simps)
qed


section \<open>A response survives the wire\<close>

definition wire_s :: "int \<Rightarrow> bool" where
  "wire_s t \<longleftrightarrow> -30610224000 \<le> t \<and> t < 253402300800"

definition wire_times :: "v2_response \<Rightarrow> bool" where
  "wire_times r \<longleftrightarrow> list_all wire_s ([r_issued_at_ms r div 1000, r_input_received_through_ms r div 1000, r_input_end r,
     r_decision_origin r, r_window_start r, r_window_end r, r_valid_until r] @ r_target_timestamps r) \<and>
     pred_option wire_s (r_fit_cutoff r) \<and> pred_option wire_s (r_evidence_cutoff r)"

lemma wire_ts: "wire_s t \<Longrightarrow> \<exists>txt. format_ts (JInt t) = Inr txt \<and> parse_ts (JStr txt) what = Inr t"
  using format_parse_ts by (simp add: wire_s_def)

lemma wire_ms: "wire_s (t div 1000) \<Longrightarrow> \<exists>txt. format_ms (JInt t) = Inr txt \<and> parse_ms (JStr txt) what = Inr t"
  using format_parse_ms by (simp add: wire_s_def)

lemma format_opt_ts_Some: "wire_s t \<Longrightarrow> \<exists>txt. format_opt_ts (Some t) = Inr (JStr txt) \<and> parse_ts (JStr txt) what = Inr t"
  using wire_ts [of t what] by (auto simp: format_opt_ts_def)

lemma wire_opt: "pred_option wire_s t \<Longrightarrow> \<exists>v. format_opt_ts t = Inr v \<and> parse_opt_ts v what = Inr t"
proof (cases t)
  case (Some x)
  assume "pred_option wire_s t"
  then have "wire_s x" using Some by simp
  from format_opt_ts_Some [OF this, of what] obtain x' where
    "format_opt_ts (Some x) = Inr (JStr x')" "parse_ts (JStr x') what = Inr x" by blast
  then show ?thesis using Some by (intro exI [of _ "JStr x'"]) (simp add: parse_opt_ts_def)
qed (simp add: format_opt_ts_def parse_opt_ts_def)

lemma wire_list:
  "list_all wire_s ts \<Longrightarrow>
     \<exists>txts. map_res (\<lambda>t. format_ts (JInt t)) ts = Inr txts \<and> map_res (\<lambda>t. parse_ts t what) (map JStr txts) = Inr ts"
proof (induction ts)
  case (Cons t ts)
  then obtain x xs where "format_ts (JInt t) = Inr x" "parse_ts (JStr x) what = Inr t"
    "map_res (\<lambda>t. format_ts (JInt t)) ts = Inr xs" "map_res (\<lambda>t. parse_ts t what) (map JStr xs) = Inr ts"
    using wire_ts [of t what] by auto
  then show ?case by auto
qed simp

lemma wire_body_get:
  fixes r a_issued a_received a_end a_fit a_origin a_start a_stop a_valid a_evidence a_targets
  defines "w \<equiv> JObj (wire_body r a_issued a_received a_end a_fit a_origin a_start a_stop a_valid a_evidence a_targets)"
  shows "get_obj w ''autoscaler_namespace'' = r_autoscaler_namespace r"
    and "get_obj w ''autoscaler_name'' = r_autoscaler_name r"
    and "get_obj w ''autoscaler_uid'' = r_autoscaler_uid r"
    and "get_obj w ''autoscaler_generation'' = r_autoscaler_generation r"
    and "get_obj w ''target_namespace'' = r_target_namespace r"
    and "get_obj w ''target_name'' = r_target_name r"
    and "get_obj w ''target_uid'' = r_target_uid r"
    and "get_obj w ''metric_query_sha256'' = r_metric_query_sha256 r"
    and "get_obj w ''contract'' = r_contract r"
    and "get_obj w ''settings_sha256'' = r_settings_sha256 r"
    and "get_obj w ''forecast_contract'' = r_forecast_contract r"
    and "get_obj w ''unit'' = r_unit r"
    and "get_obj w ''issuance_id'' = r_issuance_id r"
    and "get_obj w ''input_end'' = a_end"
    and "get_obj w ''fit_cutoff'' = a_fit"
    and "get_obj w ''model_family'' = r_model_family r"
    and "get_obj w ''model_recipe'' = r_model_recipe r"
    and "get_obj w ''artifact_sha256'' = r_artifact_sha256 r"
    and "get_obj w ''calibration_epoch'' = r_calibration_epoch r"
    and "get_obj w ''checkpoint_sha256'' = r_checkpoint_sha256 r"
    and "get_obj w ''decision_origin'' = a_origin"
    and "get_obj w ''window_start'' = a_start"
    and "get_obj w ''window_end'' = a_stop"
    and "get_obj w ''target_timestamps'' = JList (map JStr a_targets)"
    and "get_obj w ''sample_interval_seconds'' = r_sample_interval_seconds r"
    and "get_obj w ''lead_seconds'' = r_lead_seconds r"
    and "get_obj w ''startup_delay_seconds'' = r_startup_delay_seconds r"
    and "get_obj w ''actuation_allowance_seconds'' = r_actuation_allowance_seconds r"
    and "get_obj w ''valid_until'' = a_valid"
    and "get_obj w ''point_rps'' = JList (r_point_rps r)"
    and "get_obj w ''base_window_max_rps'' = r_base_window_max_rps r"
    and "get_obj w ''upper_window_max_rps'' = r_upper_window_max_rps r"
    and "get_obj w ''nominal_miscoverage_bps'' = r_nominal_miscoverage_bps r"
    and "get_obj w ''working_miscoverage_ratio'' = r_working_miscoverage_ratio r"
    and "get_obj w ''calibration_windows'' = r_calibration_windows r"
    and "get_obj w ''prospective_windows'' = r_prospective_windows r"
    and "get_obj w ''gate_coverage_ratio'' = r_gate_coverage_ratio r"
    and "get_obj w ''missing_outcome_ratio'' = r_missing_outcome_ratio r"
    and "get_obj w ''selected_candidate'' = r_selected_candidate r"
    and "get_obj w ''trust_state'' = r_trust_state r"
    and "get_obj w ''reason'' = r_reason r"
    and "get_obj w ''predictive_eligible'' = r_predictive_eligible r"
    and "get_obj w ''evidence_cutoff'' = a_evidence"
    and "get_obj w ''issued_at'' = JStr a_issued"
    and "get_obj w ''input_received_through'' = JStr a_received"
  unfolding w_def by (simp_all add: wire_body_def)

lemma wire_body_keys:
  "map fst (wire_body r a_issued a_received a_end a_fit a_origin a_start a_stop a_valid a_evidence a_targets) = WIRE_FIELDS"
  by (simp add: wire_body_def WIRE_FIELDS_def)

lemma to_wire_parses:
  assumes "wire_times r"
  shows "\<exists>kvs. to_wire r = Inr (JObj kvs) \<and> map fst kvs = WIRE_FIELDS \<and> response_of (JObj kvs) = Inr r"
proof -
  have w: "wire_s (r_issued_at_ms r div 1000)" "wire_s (r_input_received_through_ms r div 1000)" "wire_s (r_input_end r)"
    "wire_s (r_decision_origin r)" "wire_s (r_window_start r)" "wire_s (r_window_end r)" "wire_s (r_valid_until r)"
    "list_all wire_s (r_target_timestamps r)" "pred_option wire_s (r_fit_cutoff r)" "pred_option wire_s (r_evidence_cutoff r)"
    using assms by (simp_all add: wire_times_def)
  obtain a1 where a1: "format_ms (JInt (r_issued_at_ms r)) = Inr a1" "parse_ms (JStr a1) ''issued_at'' = Inr (r_issued_at_ms r)"
    using wire_ms [OF w(1)] by blast
  obtain a2 where a2: "format_ms (JInt (r_input_received_through_ms r)) = Inr a2"
    "parse_ms (JStr a2) ''input_received_through'' = Inr (r_input_received_through_ms r)" using wire_ms [OF w(2)] by blast
  obtain a3 where a3: "format_opt_ts (Some (r_input_end r)) = Inr (JStr a3)" "parse_ts (JStr a3) ''input_end'' = Inr (r_input_end r)"
    using format_opt_ts_Some [OF w(3)] by blast
  obtain a4 where a4: "format_opt_ts (Some (r_decision_origin r)) = Inr (JStr a4)"
    "parse_ts (JStr a4) ''decision_origin'' = Inr (r_decision_origin r)" using format_opt_ts_Some [OF w(4)] by blast
  obtain a5 where a5: "format_opt_ts (Some (r_window_start r)) = Inr (JStr a5)"
    "parse_ts (JStr a5) ''window_start'' = Inr (r_window_start r)" using format_opt_ts_Some [OF w(5)] by blast
  obtain a6 where a6: "format_opt_ts (Some (r_window_end r)) = Inr (JStr a6)"
    "parse_ts (JStr a6) ''window_end'' = Inr (r_window_end r)" using format_opt_ts_Some [OF w(6)] by blast
  obtain a7 where a7: "format_opt_ts (Some (r_valid_until r)) = Inr (JStr a7)"
    "parse_ts (JStr a7) ''valid_until'' = Inr (r_valid_until r)" using format_opt_ts_Some [OF w(7)] by blast
  obtain a8 where a8: "map_res (\<lambda>t. format_ts (JInt t)) (r_target_timestamps r) = Inr a8"
    "map_res (\<lambda>t. parse_ts t ''target timestamp'') (map JStr a8) = Inr (r_target_timestamps r)" using wire_list [OF w(8)] by blast
  obtain a9 where a9: "format_opt_ts (r_fit_cutoff r) = Inr a9" "parse_opt_ts a9 ''fit_cutoff'' = Inr (r_fit_cutoff r)"
    using wire_opt [OF w(9)] by blast
  obtain a10 where a10: "format_opt_ts (r_evidence_cutoff r) = Inr a10"
    "parse_opt_ts a10 ''evidence_cutoff'' = Inr (r_evidence_cutoff r)" using wire_opt [OF w(10)] by blast
  show ?thesis
    unfolding to_wire_def a1(1) a2(1) a3(1) a4(1) a5(1) a6(1) a7(1) a8(1) a9(1) a10(1) bind_res.simps
    by (rule exI, rule conjI, rule refl, rule conjI, rule wire_body_keys)
      (simp add: response_of_def list_of_def wire_body_get a1(2) a2(2) a3(2) a4(2) a5(2) a6(2) a7(2) a8(2) a9(2) a10(2)
        del: get_obj.simps)
qed

text \<open>C25: every response the engine accepts itself (\<open>check_response\<close>), with its times in the years 1000 to 9999, can be put
  on the wire, and the strict decoder gives back exactly that response: no field is lost, renamed or reinterpreted.\<close>

theorem response_wire_round_trip:
  assumes "check_response sha r None = Inr ()" and "wire_times r"
  shows "\<exists>w. to_wire r = Inr w \<and> response_from_wire sha w = Inr r"
proof -
  obtain kvs where k: "to_wire r = Inr (JObj kvs)" "map fst kvs = WIRE_FIELDS" "response_of (JObj kvs) = Inr r"
    using to_wire_parses [OF assms(2)] by blast
  then have "response_from_wire sha (JObj kvs) = Inr r" using assms(1) by (simp add: response_from_wire_def)
  with k(1) show ?thesis by blast
qed

theorem response_wire_round_trip_witness:
  "\<exists>w. to_wire demo_response = Inr w \<and> response_from_wire demo_sha w = Inr demo_response"
proof -
  have "check_response demo_sha demo_response None = Inr ()" using demo_accepted by (auto simp: check_response_def bind_res_Inr_iff)
  moreover have "wire_times demo_response" by (simp add: wire_times_def wire_s_def demo_response_def)
  ultimately show ?thesis by (rule response_wire_round_trip)
qed

end
