(* ===== verification/Artifacts.thy ===== *)
theory Artifacts
  imports Kernels Wire
begin

text \<open>
  \<^verbatim>\<open>forecasting/artifacts.py\<close>: the encoding of a fit as an artifact bound to one signal, its strict decoding, the payload a
  fit process gets, and the directory of promoted artifacts.

  The container formats are not the program's: \<open>codec\<close> holds the ZIP writer and reader, the NumPy array format and the
  JSON decoder. Values read from a manifest keep their JSON types (\<open>decoded_fit\<close>), as in the code, which checks only
  the ones it compares; \<open>as_fit\<close> of \<open>Service\<close> reads a well-typed one as the fit it denotes. A promoted pointer is written with
  \<open>canonical_json\<close> and read with \<open>json.loads\<close>; the directory holds it as the value both agree on.
\<close>

section \<open>Bindings\<close>

definition ARTIFACT_SCHEMA :: string where "ARTIFACT_SCHEMA = ''statistical-artifact/v1''"
definition MEMBERS :: "string list" where "MEMBERS = [''manifest.json'', ''hw_season.npy'', ''ar_coef.npy'']"
definition MAX_ARTIFACT_BYTES :: nat where "MAX_ARTIFACT_BYTES = 2 ^ 20"
definition MAX_FIT_AGE_SECONDS :: int where "MAX_FIT_AGE_SECONDS = 12 * 3600"

datatype artifact_error =
    ArtifactRefused string      \<comment> \<open>digest, malformed, foreign, incompatible or stale\<close>
  | ArtifactValueError          \<comment> \<open>a binding that does not describe the fit, a number JSON cannot hold\<close>
  | ArtifactTypeError           \<comment> \<open>a cutoff that is not a number\<close>
  | ArtifactEndOfFile           \<comment> \<open>\<open>EOFError\<close> of an empty array member\<close>
  | ArtifactOSError             \<comment> \<open>a failed write\<close>
  | ArtifactKeyError            \<comment> \<open>a pointer without its cutoff\<close>

record artifact_binding =
  ab_autoscaler_uid :: string
  ab_target_uid :: string
  ab_query_sha256 :: string
  ab_signal_contract :: string
  ab_interval_seconds :: int
  ab_seasonality :: string
  ab_recipe :: string

definition binding_fields :: "artifact_binding \<Rightarrow> obj" where
  "binding_fields b =
     [(''autoscaler_uid'', JStr (ab_autoscaler_uid b)), (''target_uid'', JStr (ab_target_uid b)),
      (''query_sha256'', JStr (ab_query_sha256 b)), (''signal_contract'', JStr (ab_signal_contract b)),
      (''interval_seconds'', JInt (ab_interval_seconds b)), (''seasonality'', JStr (ab_seasonality b)),
      (''recipe'', JStr (ab_recipe b))]"

definition binding_key :: "(string \<Rightarrow> string) \<Rightarrow> artifact_binding \<Rightarrow> string" where
  "binding_key sha b = sha (canonical_bytes (JObj ((''schema'', JStr ''artifact-binding/v1'') # binding_fields b)))"

definition for_signal :: "resolved_signal \<Rightarrow> forecast_settings \<Rightarrow> string \<Rightarrow> artifact_binding" where
  "for_signal sig s rec =
     \<lparr> ab_autoscaler_uid = sig_autoscaler_uid sig, ab_target_uid = sig_target_uid sig, ab_query_sha256 = sig_sha256 sig,
       ab_signal_contract = sig_contract sig, ab_interval_seconds = sample_interval_seconds s,
       ab_seasonality = seasonality s, ab_recipe = rec \<rparr>"

section \<open>Encoding\<close>

record npy_array =
  na_dtype :: string
  na_shape :: "int list"
  na_floats :: "pyfloat list option"   \<comment> \<open>\<open>[float(v) for v in a]\<close>; none when that raises\<close>
  na_finite :: bool

datatype npy_result = NpyArray npy_array | NpyValueError | NpyEndOfFile

record codec =
  cd_fmt :: "rat \<Rightarrow> string"
  cd_loads :: "string \<Rightarrow> json option"
  cd_zip :: "(string \<times> string) list \<Rightarrow> string"
  cd_unzip :: "string \<Rightarrow> (string \<times> string) list option"   \<comment> \<open>members in the order of the directory; none: \<open>BadZipFile\<close>\<close>
  cd_npy :: "pyfloat list \<Rightarrow> string"
  cd_unnpy :: "string \<Rightarrow> npy_result"

definition ks_fields :: "kernel_settings \<Rightarrow> obj" where
  "ks_fields ks =
     [(''interval_seconds'', JInt (ks_interval_seconds ks)), (''season_seconds'', JInt (ks_season_seconds ks)),
      (''profile_days'', JInt (ks_profile_days ks)), (''profile_min_support'', JInt (ks_profile_min_support ks)),
      (''ar_order'', JInt (ks_ar_order ks)), (''ar_window_days'', JInt (ks_ar_window_days ks)),
      (''ar_min_rows'', JInt (ks_ar_min_rows ks)), (''ar_min_span_seconds'', JInt (ks_ar_min_span_seconds ks)),
      (''hw_min_days'', JInt (ks_hw_min_days ks)), (''hw_max_days'', JInt (ks_hw_max_days ks)),
      (''hw_weight'', JFloat (ks_hw_weight ks)), (''min_history_days'', JInt (ks_min_history_days ks)),
      (''min_observed_fraction'', JFloat (ks_min_observed_fraction ks)), (''hw_maxiter'', JInt (ks_hw_maxiter ks))]"

definition hw_fields :: "hw_state \<Rightarrow> obj" where
  "hw_fields h =
     [(''alpha'', JFloat (hw_alpha h)), (''beta'', JFloat (hw_beta h)), (''gamma'', JFloat (hw_gamma h)),
      (''level'', JFloat (hw_level h)), (''trend'', JFloat (hw_trend h)), (''sse'', JFloat (hw_sse h)),
      (''n_train'', JInt (hw_n_train h)), (''segment_start'', JInt (hw_segment_start h))]"

definition array_spec :: "(string \<Rightarrow> string) \<Rightarrow> string \<Rightarrow> nat \<Rightarrow> json" where
  "array_spec sha blob n =
     JObj [(''dtype'', JStr ''<f8''), (''shape'', JList [JInt (int n)]), (''sha256'', JStr (sha blob))]"

definition manifest_of :: "(string \<Rightarrow> string) \<Rightarrow> codec \<Rightarrow> e1_fit \<Rightarrow> artifact_binding \<Rightarrow> obj" where
  "manifest_of sha cd f b =
     [(''schema'', JStr ARTIFACT_SCHEMA), (''recipe'', JStr RECIPE_E1), (''binding'', JObj (binding_fields b)),
      (''fit_cutoff'', JInt (ef_cutoff f)), (''input_lo'', JInt (ef_input_lo f)),
      (''input_sha256'', JStr (ef_input_sha256 f)), (''kernel_settings'', JObj (ks_fields (ef_settings f))),
      (''hw'', JObj (hw_fields (ef_hw f))), (''ar_rows'', JInt (ef_ar_rows f)),
      (''arrays'', JObj
         [(''hw_season'', array_spec sha (cd_npy cd (hw_season (ef_hw f))) (length (hw_season (ef_hw f)))),
          (''ar_coef'', array_spec sha (cd_npy cd (ef_ar_coef f)) (length (ef_ar_coef f)))])]"

definition artifact_members :: "codec \<Rightarrow> e1_fit \<Rightarrow> string \<Rightarrow> (string \<times> string) list" where
  "artifact_members cd f text =
     [(''manifest.json'', text), (''ar_coef.npy'', cd_npy cd (ef_ar_coef f)), (''hw_season.npy'', cd_npy cd (hw_season (ef_hw f)))]"

definition encode_e1 :: "(string \<Rightarrow> string) \<Rightarrow> codec \<Rightarrow> e1_fit \<Rightarrow> artifact_binding \<Rightarrow> artifact_error + string" where
  "encode_e1 sha cd f b =
     (if ab_recipe b \<noteq> RECIPE_E1 \<or> ab_interval_seconds b \<noteq> ef_interval_seconds f then Inl ArtifactValueError
      else case canonical_json (cd_fmt cd) (JObj (manifest_of sha cd f b)) of
             None \<Rightarrow> Inl ArtifactValueError
           | Some text \<Rightarrow>
               Inr (cd_zip cd (artifact_members cd f text)))"

section \<open>Decoding\<close>

record decoded_fit =
  df_cutoff :: json
  df_interval_seconds :: json
  df_hw :: obj
  df_season :: "pyfloat list"
  df_ar_coef :: "pyfloat list"
  df_ar_rows :: json
  df_input_lo :: json
  df_input_sha256 :: json
  df_settings :: json

abbreviation malformed :: artifact_error where
  "malformed \<equiv> ArtifactRefused ''malformed''"

text \<open>\<open>d[key]\<close>: a missing key and a value that is not a dictionary are both malformed.\<close>

definition item :: "json \<Rightarrow> string \<Rightarrow> artifact_error + json" where
  "item v key =
     (case v of JObj kvs \<Rightarrow> (case dict_get kvs key of None \<Rightarrow> Inl malformed | Some x \<Rightarrow> Inr x) | _ \<Rightarrow> Inl malformed)"

text \<open>\<open>C(**d)\<close>: exactly the keyword arguments of the constructor.\<close>

definition kwargs :: "string list \<Rightarrow> json \<Rightarrow> artifact_error + obj" where
  "kwargs names v =
     (case v of JObj kvs \<Rightarrow> if set (map fst kvs) = set names then Inr kvs else Inl malformed | _ \<Rightarrow> Inl malformed)"

definition read_array :: "(string \<Rightarrow> string) \<Rightarrow> codec \<Rightarrow> json \<Rightarrow> string \<Rightarrow> string \<Rightarrow> artifact_error + npy_array" where
  "read_array sha cd manifest name blob =
     bind_res (item manifest ''arrays'') (\<lambda>specs.
     bind_res (item specs name) (\<lambda>spec.
     bind_res (item spec ''sha256'') (\<lambda>hash.
       if \<not> json_eq (JStr (sha blob)) hash then Inl malformed
       else case cd_unnpy cd blob of
              NpyValueError \<Rightarrow> Inl malformed
            | NpyEndOfFile \<Rightarrow> Inl ArtifactEndOfFile
            | NpyArray a \<Rightarrow>
                bind_res (item spec ''shape'') (\<lambda>shape.
                  if na_dtype a \<noteq> ''<f8'' \<or>
                     \<not> (case shape of JList xs \<Rightarrow> list_all2 (\<lambda>n v. json_eq (JInt n) v) (na_shape a) xs | _ \<Rightarrow> False) \<or>
                     \<not> na_finite a
                  then Inl malformed else Inr a))))"

definition floats_of :: "npy_array \<Rightarrow> artifact_error + pyfloat list" where
  "floats_of a = (case na_floats a of None \<Rightarrow> Inl malformed | Some xs \<Rightarrow> Inr xs)"

definition HW_KEYS :: "string list" where
  "HW_KEYS = [''alpha'', ''beta'', ''gamma'', ''level'', ''trend'', ''sse'', ''n_train'', ''segment_start'']"

definition BINDING_KEYS :: "string list" where
  "BINDING_KEYS = [''autoscaler_uid'', ''target_uid'', ''query_sha256'', ''signal_contract'', ''interval_seconds'',
     ''seasonality'', ''recipe'']"

text \<open>The body of the \<open>try\<close>: every member, array and field, or malformed.\<close>

definition parse_members ::
  "(string \<Rightarrow> string) \<Rightarrow> codec \<Rightarrow> (string \<times> string) list \<Rightarrow> artifact_error + decoded_fit \<times> obj" where
  "parse_members sha cd raw =
     (if sort (map fst raw) \<noteq> sort MEMBERS then Inl malformed
      else let text = the (dict_get raw ''manifest.json''); season_blob = the (dict_get raw ''hw_season.npy'');
               coef_blob = the (dict_get raw ''ar_coef.npy'') in
      case cd_loads cd text of
        None \<Rightarrow> Inl malformed
      | Some manifest \<Rightarrow>
          bind_res (read_array sha cd manifest ''hw_season'' season_blob) (\<lambda>season.
          bind_res (read_array sha cd manifest ''ar_coef'' coef_blob) (\<lambda>coef.
          bind_res (item manifest ''schema'') (\<lambda>schema.
          if \<not> json_eq schema (JStr ARTIFACT_SCHEMA) then Inl malformed else
          bind_res (item manifest ''recipe'') (\<lambda>recipe.
          if \<not> json_eq recipe (JStr RECIPE_E1) then Inl malformed else
          bind_res (bind_res (item manifest ''hw'') (kwargs HW_KEYS)) (\<lambda>hw.
          bind_res (floats_of season) (\<lambda>season.
          bind_res (item manifest ''fit_cutoff'') (\<lambda>cutoff.
          bind_res (bind_res (item manifest ''binding'') (\<lambda>b. item b ''interval_seconds'')) (\<lambda>interval.
          bind_res (floats_of coef) (\<lambda>coef.
          bind_res (item manifest ''ar_rows'') (\<lambda>rows.
          bind_res (item manifest ''input_lo'') (\<lambda>lo.
          bind_res (item manifest ''input_sha256'') (\<lambda>hash.
          bind_res (item manifest ''kernel_settings'') (\<lambda>settings.
          bind_res (bind_res (item manifest ''binding'') (kwargs BINDING_KEYS)) (\<lambda>bound.
            Inr (\<lparr> df_cutoff = cutoff, df_interval_seconds = interval, df_hw = hw, df_season = season, df_ar_coef = coef,
                   df_ar_rows = rows, df_input_lo = lo, df_input_sha256 = hash, df_settings = settings \<rparr>, bound))))))))))))))))"

text \<open>Equality of dictionaries with scalar values: the same keys and equal values, in any order.\<close>

definition fields_eq :: "string list \<Rightarrow> obj \<Rightarrow> obj \<Rightarrow> bool" where
  "fields_eq names a b \<longleftrightarrow> list_all (\<lambda>k. json_eq (get_obj (JObj a) k) (get_obj (JObj b) k)) names"

definition same_dict :: "json \<Rightarrow> obj \<Rightarrow> bool" where
  "same_dict v b \<longleftrightarrow>
     (case v of JObj a \<Rightarrow> set (map fst a) = set (map fst b) \<and> fields_eq (map fst b) a b | _ \<Rightarrow> False)"

text \<open>Python compares an integer and a float exactly; a cutoff that is not a number raises.\<close>

fun exact_num :: "json \<Rightarrow> pyfloat option" where
  "exact_num (JInt n) = Some (Fin (of_int n))"
| "exact_num (JBool b) = Some (Fin (if b then 1 else 0))"
| "exact_num (JFloat x) = Some x"
| "exact_num _ = None"

fun age_of :: "int \<Rightarrow> json \<Rightarrow> pyfloat" where
  "age_of input_end (JInt n) = Fin (of_int (input_end - n))"
| "age_of input_end (JBool b) = Fin (of_int (input_end - (if b then 1 else 0)))"
| "age_of input_end (JFloat x) = float_of_int input_end - x"
| "age_of input_end _ = NaN"

definition check_age :: "json \<Rightarrow> int \<Rightarrow> int \<Rightarrow> artifact_error + unit" where
  "check_age cutoff input_end max_age =
     (case exact_num cutoff of
        None \<Rightarrow> Inl ArtifactTypeError
      | Some c \<Rightarrow>
          if Fin (of_int input_end) < c then Inl (ArtifactRefused ''stale'')
          else if Fin (of_int max_age) < age_of input_end cutoff then Inl (ArtifactRefused ''stale'')
          else Inr ())"

definition SAME_SIGNAL :: "string list" where
  "SAME_SIGNAL = [''autoscaler_uid'', ''target_uid'', ''query_sha256'', ''signal_contract'', ''recipe'']"

definition decode ::
  "(string \<Rightarrow> string) \<Rightarrow> codec \<Rightarrow> string \<Rightarrow> string \<Rightarrow> artifact_binding \<Rightarrow> kernel_settings \<Rightarrow> int \<Rightarrow> int \<Rightarrow> artifact_error + decoded_fit"
  where
  "decode sha cd data expected b ks input_end max_age =
     (if length data > MAX_ARTIFACT_BYTES \<or> sha data \<noteq> expected then Inl (ArtifactRefused ''digest'')
      else case cd_unzip cd data of
             None \<Rightarrow> Inl malformed
           | Some raw \<Rightarrow>
               bind_res (parse_members sha cd raw) (\<lambda>(f, bound).
                 if \<not> fields_eq BINDING_KEYS bound (binding_fields b)
                   then Inl (ArtifactRefused (if fields_eq SAME_SIGNAL bound (binding_fields b) then ''incompatible'' else ''foreign''))
                 else if \<not> same_dict (df_settings f) (ks_fields ks) \<or> int (length (df_season f)) \<noteq> ks_m ks \<or>
                         int (length (df_ar_coef f)) \<noteq> ks_ar_order ks + 1
                   then Inl (ArtifactRefused ''incompatible'')
                 else bind_res (check_age (df_cutoff f) input_end max_age) (\<lambda>_. Inr f)))"

section \<open>The fit process\<close>

record fit_payload =
  fp_start :: int
  fp_interval :: int
  fp_cutoff :: int
  fp_kernel :: kernel_settings
  fp_binding :: artifact_binding
  fp_values :: "string option"       \<comment> \<open>none: missing or not bytes\<close>

datatype fit_failure = FitKernel kernel_error | FitArtifact artifact_error

definition make_payload ::
  "numlib \<Rightarrow> series \<Rightarrow> int \<Rightarrow> kernel_settings \<Rightarrow> artifact_binding \<Rightarrow> kernel_error + fit_payload" where
  "make_payload np s cutoff ks b =
     bind_res (series_index s cutoff) (\<lambda>hi.
       Inr \<lparr> fp_start = sr_start s, fp_interval = sr_interval s, fp_cutoff = cutoff, fp_kernel = ks, fp_binding = b,
             fp_values = Some (np_bytes np (py_slice (sr_values s) 0 (hi + 1))) \<rparr>)"

text \<open>\<open>np.frombuffer\<close> is an argument: the inverse of \<open>tobytes\<close>.\<close>

definition fit_e1_artifact ::
  "(string \<Rightarrow> string) \<Rightarrow> codec \<Rightarrow> numlib \<Rightarrow> (string \<Rightarrow> pyfloat list) \<Rightarrow> fit_payload \<Rightarrow> fit_failure + string" where
  "fit_e1_artifact sha cd np frombuffer p =
     (case fp_values p of
        None \<Rightarrow> Inl (FitKernel KernelValueError)
      | Some raw \<Rightarrow>
          bind_res (map_sum FitKernel id (make_series (fp_start p) (fp_interval p) (frombuffer raw))) (\<lambda>s.
          bind_res (map_sum FitKernel id (check_kernel_settings (fp_kernel p))) (\<lambda>ks.
          bind_res (map_sum FitKernel id (fit_e1 sha np s (fp_cutoff p) ks)) (\<lambda>f.
            map_sum FitArtifact id (encode_e1 sha cd f (fp_binding p))))))"

section \<open>The directory of promoted artifacts\<close>

datatype content = FBytes string | FJson json | FUnreadable

type_synonym artifact_dir = "(string \<times> content) list"

definition pointer_name :: "(string \<Rightarrow> string) \<Rightarrow> artifact_binding \<Rightarrow> string" where
  "pointer_name sha b = binding_key sha b @ ''.json''"

definition blob_name :: "string \<Rightarrow> string" where
  "blob_name hash = hash @ ''.zip''"

text \<open>\<open>_write_atomic\<close>: the new content is in place after \<open>os.replace\<close>. A write may fail before that (the old content
  stays) or after it, in the flush of the directory (the new content is in place and the call raises all the same). A
  process that dies in a promotion leaves the directory as one of the two failures does.\<close>

datatype write_outcome = Written | NotReplaced | NotSynced

definition write_atomic :: "write_outcome \<Rightarrow> string \<Rightarrow> content \<Rightarrow> artifact_dir \<Rightarrow> (artifact_error + unit) \<times> artifact_dir" where
  "write_atomic w name c dir =
     (case w of
        Written \<Rightarrow> (Inr (), dict_set name c dir)
      | NotReplaced \<Rightarrow> (Inl ArtifactOSError, dir)
      | NotSynced \<Rightarrow> (Inl ArtifactOSError, dict_set name c dir))"

datatype pointer_read = NoPointer | BadPointer | Pointer json

definition read_pointer :: "codec \<Rightarrow> artifact_dir \<Rightarrow> string \<Rightarrow> pointer_read" where
  "read_pointer cd dir name =
     (case dict_get dir name of
        None \<Rightarrow> NoPointer
      | Some (FBytes raw) \<Rightarrow> (case cd_loads cd raw of None \<Rightarrow> BadPointer | Some v \<Rightarrow> Pointer v)
      | Some (FJson v) \<Rightarrow> Pointer v
      | Some FUnreadable \<Rightarrow> BadPointer)"

definition read_blob :: "artifact_dir \<Rightarrow> json \<Rightarrow> artifact_error + string option" where
  "read_blob dir hash =
     (case hash of
        JStr h \<Rightarrow>
          (case dict_get dir (blob_name h) of
             None \<Rightarrow> Inr None
           | Some (FBytes raw) \<Rightarrow> Inr (Some (take (MAX_ARTIFACT_BYTES + 1) raw))
           | Some _ \<Rightarrow> Inl malformed)
      | _ \<Rightarrow> Inr None)"

definition current ::
  "(string \<Rightarrow> string) \<Rightarrow> codec \<Rightarrow> artifact_dir \<Rightarrow> artifact_binding \<Rightarrow> artifact_error + (string \<times> json \<times> string) option" where
  "current sha cd dir b =
     (case read_pointer cd dir (pointer_name sha b) of
        NoPointer \<Rightarrow> Inr None
      | BadPointer \<Rightarrow> Inl malformed
      | Pointer (JObj ptr) \<Rightarrow>
          (case dict_get ptr ''sha256'' of
             None \<Rightarrow> Inl malformed
           | Some hash \<Rightarrow>
               bind_res (read_blob dir hash) (\<lambda>blob.
                 case blob of
                   None \<Rightarrow> Inr None
                 | Some data \<Rightarrow>
                     if sha data \<noteq> the_str hash then Inl (ArtifactRefused ''digest'')
                     else (case dict_get ptr ''fit_cutoff'' of
                             None \<Rightarrow> Inl ArtifactKeyError
                           | Some c \<Rightarrow> Inr (Some (the_str hash, c, data)))))
      | Pointer _ \<Rightarrow> Inl ArtifactTypeError)"

definition json_le :: "json \<Rightarrow> json \<Rightarrow> artifact_error + bool" where
  "json_le a b =
     (case (exact_num a, exact_num b) of (Some x, Some y) \<Rightarrow> Inr (x \<le> y) | _ \<Rightarrow> Inl ArtifactTypeError)"

definition write_promoted ::
  "(string \<Rightarrow> string) \<Rightarrow> write_outcome \<Rightarrow> write_outcome \<Rightarrow> artifact_binding \<Rightarrow> string \<Rightarrow> json \<Rightarrow> artifact_dir \<Rightarrow> (artifact_error + string \<times> bool) \<times> artifact_dir"
  where
  "write_promoted sha w1 w2 b data cutoff dir =
     (case write_atomic w1 (blob_name (sha data)) (FBytes data) dir of
        (Inl e, dir) \<Rightarrow> (Inl e, dir)
      | (Inr _, dir) \<Rightarrow>
          let ptr = JObj [(''sha256'', JStr (sha data)), (''fit_cutoff'', cutoff)] in
          if canonical_json (\<lambda>_. []) ptr = None then (Inl ArtifactValueError, dir)
          else (case write_atomic w2 (pointer_name sha b) (FJson ptr) dir of
                  (Inl e, dir) \<Rightarrow> (Inl e, dir)
                | (Inr _, dir) \<Rightarrow> (Inr (sha data, True), dir)))"

definition promote ::
  "(string \<Rightarrow> string) \<Rightarrow> codec \<Rightarrow> write_outcome \<Rightarrow> write_outcome \<Rightarrow> artifact_binding \<Rightarrow> string \<Rightarrow> kernel_settings \<Rightarrow> artifact_dir \<Rightarrow>
     (artifact_error + string \<times> bool) \<times> artifact_dir" where
  "promote sha cd w1 w2 b data ks dir =
     (case decode sha cd data (sha data) b ks (2 ^ 62) (2 ^ 62) of
        Inl e \<Rightarrow> (Inl e, dir)
      | Inr f \<Rightarrow>
          (case current sha cd dir b of
             Inl e \<Rightarrow> (Inl e, dir)
           | Inr None \<Rightarrow> write_promoted sha w1 w2 b data (df_cutoff f) dir
           | Inr (Some (hash, c, _)) \<Rightarrow>
               (case json_le (df_cutoff f) c of
                  Inl e \<Rightarrow> (Inl e, dir)
                | Inr True \<Rightarrow> (Inr (hash, False), dir)
                | Inr False \<Rightarrow> write_promoted sha w1 w2 b data (df_cutoff f) dir)))"

definition load_snapshot ::
  "(string \<Rightarrow> string) \<Rightarrow> codec \<Rightarrow> artifact_dir \<Rightarrow> artifact_binding \<Rightarrow> kernel_settings \<Rightarrow> int \<Rightarrow>
     artifact_error + (string \<times> decoded_fit) option" where
  "load_snapshot sha cd dir b ks input_end =
     bind_res (current sha cd dir b) (\<lambda>cur.
       case cur of
         None \<Rightarrow> Inr None
       | Some (hash, _, data) \<Rightarrow>
           bind_res (decode sha cd data hash b ks input_end MAX_FIT_AGE_SECONDS) (\<lambda>f. Inr (Some (hash, f))))"

definition load_fit ::
  "(string \<Rightarrow> string) \<Rightarrow> codec \<Rightarrow> artifact_dir \<Rightarrow> artifact_binding \<Rightarrow> kernel_settings \<Rightarrow> int \<Rightarrow> artifact_error + decoded_fit option" where
  "load_fit sha cd dir b ks input_end =
     bind_res (current sha cd dir b) (\<lambda>cur.
       case cur of
         None \<Rightarrow> Inr None
       | Some (hash, _, data) \<Rightarrow> bind_res (decode sha cd data hash b ks input_end MAX_FIT_AGE_SECONDS) (\<lambda>f. Inr (Some f)))"

section \<open>A fit process sees exactly what the fit needs\<close>

lemma py_slice_prefix: "0 \<le> n \<Longrightarrow> py_slice xs 0 n = take (nat n) xs"
  by (simp add: py_slice_def slice_bound_def min_def nat_le_iff) 

lemma series_prefix_same:
  assumes "series_index s cutoff = Inr hi" and "0 < sr_interval s" and "0 \<le> hi"
  shows "same_until cutoff s (s\<lparr> sr_values := take (nat (hi + 1)) (sr_values s) \<rparr>)"
    and "cutoff \<le> series_end s \<Longrightarrow> cutoff \<le> series_end (s\<lparr> sr_values := take (nat (hi + 1)) (sr_values s) \<rparr>)"
proof -
  let ?s = "s\<lparr> sr_values := take (nat (hi + 1)) (sr_values s) \<rparr>"
  have hi: "hi = (cutoff - sr_start s) div sr_interval s" "cutoff = sr_start s + hi * sr_interval s"
    using assms(1) by (auto simp: series_index_def split: if_splits)
  have "series_at s u = series_at ?s u" if "u \<le> cutoff" for u
  proof -
    have "(u - sr_start s) div sr_interval s \<le> hi" using that assms(2) hi(1) by (simp add: zdiv_mono1)
    then show ?thesis by (auto simp: series_at_def Let_def)
  qed
  then show "same_until cutoff s ?s" using assms(2) by (simp add: same_until_def)
  assume "cutoff \<le> series_end s"
  then have "hi * sr_interval s \<le> (int (length (sr_values s)) - 1) * sr_interval s" using hi(2) by (simp add: series_end_def)
  then have "hi \<le> int (length (sr_values s)) - 1" using assms(2) by (simp add: mult_le_cancel_right)
  then have "length (take (nat (hi + 1)) (sr_values s)) = nat (hi + 1)" by simp
  then show "cutoff \<le> series_end ?s" using hi(2) assms(3) by (simp add: series_end_def)
qed

lemma fit_prefix_same:
  assumes "series_index s cutoff = Inr hi" and "0 < sr_interval s"
    and "0 < ks_interval_seconds ks" "0 \<le> ks_season_seconds ks" "ks_ar_window_days ks \<le> ks_min_history_days ks"
  shows "fit_e1 sha np (s\<lparr> sr_values := py_slice (sr_values s) 0 (hi + 1) \<rparr>) cutoff ks = fit_e1 sha np s cutoff ks"
proof -
  have hi: "cutoff = sr_start s + hi * sr_interval s" using assms(1) by (auto simp: series_index_def split: if_splits)
  show ?thesis
  proof (cases "sr_start s \<le> cutoff \<and> cutoff \<le> series_end s")
    case True
    then have "0 \<le> hi" using hi assms(2) by (simp add: zero_le_mult_iff)
    note p = series_prefix_same [OF assms(1,2) this]
    have sl: "py_slice (sr_values s) 0 (hi + 1) = take (nat (hi + 1)) (sr_values s)"
      using \<open>0 \<le> hi\<close> by (simp add: py_slice_prefix)
    show ?thesis unfolding sl using fit_e1_same [OF p(1) _ p(2) assms(3,4,5)] True by simp
  next
    case False
    show ?thesis
    proof (cases "sr_start s \<le> cutoff")
      case True
      then have "0 \<le> hi" using hi assms(2) by (simp add: zero_le_mult_iff)
      have "series_end s < cutoff" using False True by simp
      then have "(int (length (sr_values s)) - 1) * sr_interval s < hi * sr_interval s" using hi by (simp add: series_end_def)
      then have "int (length (sr_values s)) \<le> hi" using assms(2) by (simp add: mult_less_cancel_right)
      then show ?thesis using \<open>0 \<le> hi\<close> by (simp add: py_slice_prefix)
    next
      case False
      then show ?thesis by (simp add: fit_e1_def Let_def)
    qed
  qed
qed

section \<open>Decoding an encoded fit\<close>

text \<open>\<open>json.loads\<close> of canonical JSON: the same value with its keys in sorted order.\<close>

function canon :: "json \<Rightarrow> json" where
  "canon (JList xs) = JList (map canon xs)"
| "canon (JObj kvs) = JObj (sort_key fst (map (\<lambda>kv. (fst kv, canon (snd kv))) kvs))"
| "canon JNull = JNull"
| "canon (JBool b) = JBool b"
| "canon (JInt n) = JInt n"
| "canon (JFloat x) = JFloat x"
| "canon (JStr s) = JStr s"
  by pat_completeness auto
termination
proof (relation "measure size", goal_cases)
  case (2 xs x)
  then show ?case by (auto dest: size_list_estimation' [of x xs "size x" size])
next
  case (3 kvs kv)
  then have "size (snd kv) \<le> size_list (size_prod (\<lambda>x. 0) size) kvs"
    by (rule size_list_estimation') (simp add: size_prod_simp)
  then show ?case by simp
qed auto

lemma distinct_keys_sorted: "distinct (map fst (sort_key fst kvs)) = distinct (map fst kvs)"
  by (simp add: distinct_map)

lemma dict_get_sorted:
  assumes "distinct (map fst kvs)"
  shows "dict_get (sort_key fst kvs) k = dict_get kvs k"
proof -
  have "dict_get (sort_key fst kvs) k = Some v \<longleftrightarrow> dict_get kvs k = Some v" for v
    using assms by (simp add: distinct_keys_sorted)
  then show ?thesis by (metis option.exhaust)
qed

lemma canon_item:
  assumes "distinct (map fst kvs)" and "dict_get kvs k = Some v"
  shows "item (canon (JObj kvs)) k = Inr (canon v)"
proof -
  have "map fst (map (\<lambda>kv. (fst kv, canon (snd kv))) kvs) = map fst kvs" by simp
  moreover have "dict_get (map (\<lambda>kv. (fst kv, canon (snd kv))) kvs) k = map_option canon (dict_get kvs k)"
    by (induction kvs) auto
  ultimately show ?thesis using assms by (simp add: item_def dict_get_sorted del: map_map)
qed

text \<open>The keys of the dictionaries in a manifest.\<close>

lemma manifest_keys:
  "distinct (map fst (manifest_of sha cd f b))" "distinct (map fst (binding_fields b))" "distinct (map fst (ks_fields ks))"
  "distinct (map fst (hw_fields h))" "map fst (binding_fields b) = BINDING_KEYS" "map fst (hw_fields h) = HW_KEYS"
  by (simp_all add: manifest_of_def binding_fields_def ks_fields_def hw_fields_def BINDING_KEYS_def HW_KEYS_def)

definition scalar :: "json \<Rightarrow> bool" where
  "scalar v \<longleftrightarrow> (case v of JList _ \<Rightarrow> False | JObj _ \<Rightarrow> False | JFloat NaN \<Rightarrow> False | _ \<Rightarrow> True)"

lemma canon_scalar: "scalar v \<Longrightarrow> canon v = v" "scalar v \<Longrightarrow> json_eq v v"
  by (cases v; auto simp: scalar_def json_eq_def split: option.splits pyfloat.splits)+

lemma canon_flat: "list_all (\<lambda>kv. scalar (snd kv)) kvs \<Longrightarrow> canon (JObj kvs) = JObj (sort_key fst kvs)"
  by (induction kvs) (simp_all add: canon_scalar map_idI list_all_iff)

lemma same_fields:
  assumes "list_all (\<lambda>kv. scalar (snd kv)) kvs" and "distinct (map fst kvs)"
  shows "fields_eq (map fst kvs) (sort_key fst kvs) kvs" and "same_dict (JObj (sort_key fst kvs)) kvs"
proof -
  have "json_eq (get_obj (JObj kvs) k) (get_obj (JObj kvs) k)" if "k \<in> set (map fst kvs)" for k
  proof -
    obtain v where v: "dict_get kvs k = Some v" using \<open>k \<in> set (map fst kvs)\<close> by (metis map_of_eq_None_iff image_set option.exhaust)
    then have "scalar v" using assms(1) map_of_SomeD [OF v] by (auto simp: list_all_iff)
    then show ?thesis using v canon_scalar(2) by simp
  qed
  then show "fields_eq (map fst kvs) (sort_key fst kvs) kvs"
    using assms(2) by (simp add: fields_eq_def list_all_iff dict_get_sorted)
  then show "same_dict (JObj (sort_key fst kvs)) kvs" by (simp add: same_dict_def)
qed

text \<open>What canonical JSON can hold: no NaN.\<close>

lemma those_Some: "those xs = Some ys \<Longrightarrow> x \<in> set xs \<Longrightarrow> x \<noteq> None"
  by (induction xs arbitrary: ys) (auto split: option.splits)

lemma canonical_member:
  assumes "canonical_json fmt (JObj kvs) = Some t" and "(k, v) \<in> set kvs"
  shows "canonical_json fmt v \<noteq> None"
proof -
  obtain ss where "those (map (\<lambda>kv. map_option (\<lambda>s. json_string (fst kv) @ '':'' @ s) (canonical_json fmt (snd kv)))
      (sort_key fst kvs)) = Some ss" using assms(1) by auto
  from those_Some [OF this, of "map_option (\<lambda>s. json_string k @ '':'' @ s) (canonical_json fmt v)"] assms(2)
  show ?thesis by force
qed

lemma those_all: "(\<And>x. x \<in> set xs \<Longrightarrow> x \<noteq> None) \<Longrightarrow> those xs \<noteq> None"
proof (induction xs)
  case (Cons x xs)
  then show ?case by (cases x) auto
qed simp

lemma canonical_obj_some:
  assumes "list_all (\<lambda>kv. canonical_json fmt (snd kv) \<noteq> None) kvs"
  shows "canonical_json fmt (JObj kvs) \<noteq> None"
proof -
  have "those (map (\<lambda>kv. map_option (\<lambda>s. json_string (fst kv) @ '':'' @ s) (canonical_json fmt (snd kv)))
      (sort_key fst kvs)) \<noteq> None"
    using assms by (intro those_all) (auto simp: list_all_iff)
  then show ?thesis by (simp only: canonical_json.simps option.map_disc_iff not_False_eq_True)
qed

lemma canonical_not_nan: "canonical_json fmt (JFloat x) \<noteq> None \<Longrightarrow> scalar (JFloat x)"
  by (cases x) (simp_all add: scalar_def)

lemma manifest_scalars:
  assumes "canonical_json fmt (JObj (manifest_of sha cd f b)) = Some t"
  shows "list_all (\<lambda>kv. scalar (snd kv)) (hw_fields (ef_hw f))"
    and "list_all (\<lambda>kv. scalar (snd kv)) (ks_fields (ef_settings f))"
    and "list_all (\<lambda>kv. scalar (snd kv)) (binding_fields b)"
proof -
  have "canonical_json fmt (JObj (hw_fields (ef_hw f))) \<noteq> None" "canonical_json fmt (JObj (ks_fields (ef_settings f))) \<noteq> None"
    by (rule canonical_member [OF assms, where k = "''hw''"], simp add: manifest_of_def)
      (rule canonical_member [OF assms, where k = "''kernel_settings''"], simp add: manifest_of_def)
  then obtain t1 t2 where t: "canonical_json fmt (JObj (hw_fields (ef_hw f))) = Some t1"
      "canonical_json fmt (JObj (ks_fields (ef_settings f))) = Some t2" by blast
  have num: "scalar (JInt n)" "scalar (JStr x)" for n x by (simp_all add: scalar_def)
  have all: "list_all (\<lambda>kv. scalar (snd kv)) kvs"
    if c: "canonical_json fmt (JObj kvs) = Some t" and n: "\<forall>kv \<in> set kvs. (\<exists>x. snd kv = JFloat x) \<or> (\<exists>n. snd kv = JInt n)"
    for kvs t
    unfolding list_all_iff
  proof
    fix kv assume kv: "kv \<in> set kvs"
    then have "canonical_json fmt (snd kv) \<noteq> None" using canonical_member [OF c, of "fst kv"] by simp
    then show "scalar (snd kv)" using n kv canonical_not_nan num(1) by metis
  qed
  show "list_all (\<lambda>kv. scalar (snd kv)) (hw_fields (ef_hw f))" by (rule all [OF t(1)]) (simp add: hw_fields_def)
  show "list_all (\<lambda>kv. scalar (snd kv)) (ks_fields (ef_settings f))" by (rule all [OF t(2)]) (simp add: ks_fields_def)
  show "list_all (\<lambda>kv. scalar (snd kv)) (binding_fields b)" using num by (simp add: binding_fields_def)
qed

definition decoded_of :: "e1_fit \<Rightarrow> decoded_fit" where
  "decoded_of f =
     \<lparr> df_cutoff = JInt (ef_cutoff f), df_interval_seconds = JInt (ef_interval_seconds f),
       df_hw = sort_key fst (hw_fields (ef_hw f)), df_season = hw_season (ef_hw f), df_ar_coef = ef_ar_coef f,
       df_ar_rows = JInt (ef_ar_rows f), df_input_lo = JInt (ef_input_lo f), df_input_sha256 = JStr (ef_input_sha256 f),
       df_settings = JObj (sort_key fst (ks_fields (ef_settings f))) \<rparr>"

text \<open>What the code relies on of NumPy's array format: a float array is read back as it was written.\<close>

definition npy_inverse :: "codec \<Rightarrow> pyfloat list \<Rightarrow> bool" where
  "npy_inverse cd xs \<longleftrightarrow> cd_unnpy cd (cd_npy cd xs) =
     NpyArray \<lparr> na_dtype = ''<f8'', na_shape = [int (length xs)], na_floats = Some xs, na_finite = list_all is_finite xs \<rparr>"

lemma read_array_encoded:
  assumes "name = ''hw_season'' \<and> xs = hw_season (ef_hw f) \<or> name = ''ar_coef'' \<and> xs = ef_ar_coef f"
    and "npy_inverse cd xs" and "list_all is_finite xs"
  shows "bind_res (read_array sha cd (canon (JObj (manifest_of sha cd f b))) name (cd_npy cd xs)) floats_of = Inr xs"
    and "\<exists>a. read_array sha cd (canon (JObj (manifest_of sha cd f b))) name (cd_npy cd xs) = Inr a \<and> floats_of a = Inr xs"
proof -
  let ?specs = "[(''hw_season'', array_spec sha (cd_npy cd (hw_season (ef_hw f))) (length (hw_season (ef_hw f)))),
          (''ar_coef'', array_spec sha (cd_npy cd (ef_ar_coef f)) (length (ef_ar_coef f)))]"
  let ?spec = "[(''dtype'', JStr ''<f8''), (''shape'', JList [JInt (int (length xs))]), (''sha256'', JStr (sha (cd_npy cd xs)))]"
  have a: "item (canon (JObj (manifest_of sha cd f b))) ''arrays'' = Inr (canon (JObj ?specs))"
    by (rule canon_item) (simp_all add: manifest_of_def)
  have n: "item (canon (JObj ?specs)) name = Inr (canon (JObj ?spec))"
    by (rule canon_item) (use assms(1) in \<open>auto simp: array_spec_def\<close>)
  have h: "item (canon (JObj ?spec)) ''sha256'' = Inr (JStr (sha (cd_npy cd xs)))"
    and sh: "item (canon (JObj ?spec)) ''shape'' = Inr (JList [JInt (int (length xs))])"
    using canon_item [of ?spec] by simp_all
  show "\<exists>a. read_array sha cd (canon (JObj (manifest_of sha cd f b))) name (cd_npy cd xs) = Inr a \<and> floats_of a = Inr xs"
    using assms(2,3) by (simp add: read_array_def a n h sh npy_inverse_def floats_of_def del: canon.simps)
  then show "bind_res (read_array sha cd (canon (JObj (manifest_of sha cd f b))) name (cd_npy cd xs)) floats_of = Inr xs"
    by auto
qed

lemma parse_encoded:
  assumes "canonical_json (cd_fmt cd) (JObj (manifest_of sha cd f b)) = Some t"
    and "cd_loads cd t = Some (canon (JObj (manifest_of sha cd f b)))"
    and "npy_inverse cd (hw_season (ef_hw f))" "npy_inverse cd (ef_ar_coef f)"
    and "list_all is_finite (hw_season (ef_hw f))" "list_all is_finite (ef_ar_coef f)"
    and "ab_interval_seconds b = ef_interval_seconds f"
  shows "parse_members sha cd (artifact_members cd f t) = Inr (decoded_of f, sort_key fst (binding_fields b))"
proof -
  let ?M = "canon (JObj (manifest_of sha cd f b))"
  obtain a1 a2 where arr: "read_array sha cd ?M ''hw_season'' (cd_npy cd (hw_season (ef_hw f))) = Inr a1"
      "floats_of a1 = Inr (hw_season (ef_hw f))"
      "read_array sha cd ?M ''ar_coef'' (cd_npy cd (ef_ar_coef f)) = Inr a2" "floats_of a2 = Inr (ef_ar_coef f)"
    using read_array_encoded(2) [of "''hw_season''" "hw_season (ef_hw f)" f cd sha b]
      read_array_encoded(2) [of "''ar_coef''" "ef_ar_coef f" f cd sha b] assms(3-6) by blast
  note sc = manifest_scalars [OF assms(1)]
  note it = canon_item [OF manifest_keys(1), of sha cd f b]
  have items: "item ?M ''schema'' = Inr (JStr ARTIFACT_SCHEMA)" "item ?M ''recipe'' = Inr (JStr RECIPE_E1)"
    "item ?M ''fit_cutoff'' = Inr (JInt (ef_cutoff f))" "item ?M ''input_lo'' = Inr (JInt (ef_input_lo f))"
    "item ?M ''input_sha256'' = Inr (JStr (ef_input_sha256 f))" "item ?M ''ar_rows'' = Inr (JInt (ef_ar_rows f))"
    using it [of "''schema''"] it [of "''recipe''"] it [of "''fit_cutoff''"] it [of "''input_lo''"] it [of "''input_sha256''"]
      it [of "''ar_rows''"] by (simp_all add: manifest_of_def del: canon.simps(2))
  have objs: "item ?M ''binding'' = Inr (JObj (sort_key fst (binding_fields b)))"
    "item ?M ''kernel_settings'' = Inr (JObj (sort_key fst (ks_fields (ef_settings f))))"
    "item ?M ''hw'' = Inr (JObj (sort_key fst (hw_fields (ef_hw f))))"
    using it [of "''binding''"] it [of "''kernel_settings''"] it [of "''hw''"] sc
    by (simp_all add: manifest_of_def canon_flat del: canon.simps(2))
  have kws: "kwargs BINDING_KEYS (JObj (sort_key fst (binding_fields b))) = Inr (sort_key fst (binding_fields b))"
    "kwargs HW_KEYS (JObj (sort_key fst (hw_fields (ef_hw f)))) = Inr (sort_key fst (hw_fields (ef_hw f)))"
    by (simp_all add: kwargs_def manifest_keys(5) [of b, symmetric] manifest_keys(6) [of "ef_hw f", symmetric])
  have iv: "item (JObj (sort_key fst (binding_fields b))) ''interval_seconds'' = Inr (JInt (ef_interval_seconds f))"
    using assms(7) dict_get_sorted [OF manifest_keys(2), of b "''interval_seconds''"] by (simp add: item_def binding_fields_def)
  have names: "sort [''manifest.json'', ''ar_coef.npy'', ''hw_season.npy''] = sort MEMBERS" by code_simp
  show ?thesis
    unfolding parse_members_def artifact_members_def
    using names assms(2) arr items objs kws iv by (simp add: decoded_of_def Let_def del: canon.simps)
qed

section \<open>Promotion keeps the directory readable and never goes back\<close>

lemma pointer_not_blob: "pointer_name sha b \<noteq> blob_name h"
proof
  assume "pointer_name sha b = blob_name h"
  then have "last (pointer_name sha b) = last (blob_name h)" by simp
  then show False by (simp add: pointer_name_def blob_name_def)
qed

lemma blob_name_inj: "blob_name h = blob_name h' \<longleftrightarrow> h = h'"
  by (simp add: blob_name_def)

text \<open>A promoted pointer and the bytes it names.\<close>

definition pointer_ok :: "(string \<Rightarrow> string) \<Rightarrow> artifact_dir \<Rightarrow> content \<Rightarrow> bool" where
  "pointer_ok sha dir ptr \<longleftrightarrow>
     (\<exists>h c q d. ptr = FJson (JObj [(''sha256'', JStr h), (''fit_cutoff'', c)]) \<and> exact_num c = Some (Fin q) \<and>
        dict_get dir (blob_name h) = Some (FBytes d) \<and> sha d = h \<and> length d \<le> MAX_ARTIFACT_BYTES)"

definition dir_ok :: "(string \<Rightarrow> string) \<Rightarrow> artifact_dir \<Rightarrow> bool" where
  "dir_ok sha dir \<longleftrightarrow> (\<forall>b ptr. dict_get dir (pointer_name sha b) = Some ptr \<longrightarrow> pointer_ok sha dir ptr)"

text \<open>What is promoted for a binding: the digest and the cutoff.\<close>

definition promoted :: "(string \<Rightarrow> string) \<Rightarrow> artifact_dir \<Rightarrow> artifact_binding \<Rightarrow> (string \<times> json) option" where
  "promoted sha dir b =
     (case dict_get dir (pointer_name sha b) of
        Some (FJson (JObj [(_, JStr h), (_, c)])) \<Rightarrow> Some (h, c)
      | _ \<Rightarrow> None)"

lemma current_promoted:
  assumes "dir_ok sha dir"
  shows "promoted sha dir b = None \<and> current sha cd dir b = Inr None \<or>
    (\<exists>h c q d. promoted sha dir b = Some (h, c) \<and> exact_num c = Some (Fin q) \<and> sha d = h \<and>
       current sha cd dir b = Inr (Some (h, c, d)) \<and> dict_get dir (blob_name h) = Some (FBytes d))"
proof (cases "dict_get dir (pointer_name sha b)")
  case None
  then show ?thesis by (simp add: promoted_def current_def read_pointer_def)
next
  case (Some ptr)
  then obtain h c q d where p: "ptr = FJson (JObj [(''sha256'', JStr h), (''fit_cutoff'', c)])" "exact_num c = Some (Fin q)"
    "dict_get dir (blob_name h) = Some (FBytes d)" "sha d = h" "length d \<le> MAX_ARTIFACT_BYTES"
    using assms unfolding dir_ok_def pointer_ok_def by blast
  then show ?thesis
    using Some by (intro disjI2 exI [of _ h] exI [of _ c] exI [of _ q] exI [of _ d])
      (simp add: promoted_def current_def read_pointer_def read_blob_def)
qed

lemma dir_ok_blob:
  assumes "dir_ok sha dir" and "length data \<le> MAX_ARTIFACT_BYTES"
  shows "dir_ok sha (dict_set (blob_name (sha data)) (FBytes data) dir)"
    and "promoted sha (dict_set (blob_name (sha data)) (FBytes data) dir) b = promoted sha dir b"
proof -
  let ?dir = "dict_set (blob_name (sha data)) (FBytes data) dir"
  have "pointer_ok sha ?dir ptr" if "pointer_ok sha dir ptr" for ptr
    using that assms(2) unfolding pointer_ok_def by (auto simp: dict_get_set blob_name_inj)
  then show "dir_ok sha ?dir" using assms(1) by (simp add: dir_ok_def dict_get_set pointer_not_blob)
  show "promoted sha ?dir b = promoted sha dir b" by (simp add: promoted_def dict_get_set pointer_not_blob)
qed

lemma dir_ok_pointer:
  assumes "dir_ok sha dir" and "exact_num c = Some (Fin q)" and "dict_get dir (blob_name (sha data)) = Some (FBytes data)"
    and "length data \<le> MAX_ARTIFACT_BYTES"
  shows "dir_ok sha (dict_set (pointer_name sha b) (FJson (JObj [(''sha256'', JStr (sha data)), (''fit_cutoff'', c)])) dir)"
    and "promoted sha (dict_set (pointer_name sha b) (FJson (JObj [(''sha256'', JStr (sha data)), (''fit_cutoff'', c)])) dir) b' =
      (if pointer_name sha b' = pointer_name sha b then Some (sha data, c) else promoted sha dir b')"
proof -
  let ?ptr = "FJson (JObj [(''sha256'', JStr (sha data)), (''fit_cutoff'', c)])"
  let ?dir = "dict_set (pointer_name sha b) ?ptr dir"
  have blob: "dict_get ?dir (blob_name h) = dict_get dir (blob_name h)" for h
    using pointer_not_blob [of sha b h] by (simp add: dict_get_set)
  have "pointer_ok sha ?dir ?ptr" unfolding pointer_ok_def blob using assms(2-4) by blast
  moreover have "pointer_ok sha ?dir ptr" if "pointer_ok sha dir ptr" for ptr using that unfolding pointer_ok_def blob .
  ultimately show "dir_ok sha ?dir" using assms(1) unfolding dir_ok_def by (auto simp: dict_get_set split: if_splits)
  show "promoted sha ?dir b' = (if pointer_name sha b' = pointer_name sha b then Some (sha data, c) else promoted sha dir b')"
    by (simp add: promoted_def dict_get_set)
qed

lemma decode_checked:
  assumes "decode sha cd data h b ks input_end max_age = Inr f"
  shows "length data \<le> MAX_ARTIFACT_BYTES" and "sha data = h" and "\<exists>x. exact_num (df_cutoff f) = Some x"
  using assms
  by (auto simp: decode_def check_age_def bind_res_Inr_iff not_less split: if_splits option.splits)

lemma pointer_text_finite:
  assumes "canonical_json fmt (JObj [(''sha256'', JStr h), (''fit_cutoff'', c)]) \<noteq> None" and "exact_num c = Some x"
  shows "\<exists>q. exact_num c = Some (Fin q)"
proof -
  obtain t where "canonical_json fmt (JObj [(''sha256'', JStr h), (''fit_cutoff'', c)]) = Some t" using assms(1) by blast
  from canonical_member [OF this, of "''fit_cutoff''" c] have "canonical_json fmt c \<noteq> None" by simp
  then show ?thesis using assms(2) by (cases c) (auto split: pyfloat.splits)
qed

text \<open>The three directories a write can leave behind.\<close>

lemma write_promoted_cases:
  assumes "write_promoted sha w1 w2 b data c dir = (r, dir')" and "dir_ok sha dir" and "exact_num c = Some x"
    and "length data \<le> MAX_ARTIFACT_BYTES"
  shows "dir_ok sha dir' \<and>
    ((\<forall>b'. promoted sha dir' b' = promoted sha dir b') \<and> r \<noteq> Inr (sha data, True) \<and> isl r \<or>
     (\<exists>q. exact_num c = Some (Fin q)) \<and> dict_get dir' (blob_name (sha data)) = Some (FBytes data) \<and>
       (\<forall>b'. promoted sha dir' b' = (if pointer_name sha b' = pointer_name sha b then Some (sha data, c) else promoted sha dir b')) \<and>
       (isl r \<or> r = Inr (sha data, True)))"
proof -
  let ?ptr = "JObj [(''sha256'', JStr (sha data)), (''fit_cutoff'', c)]"
  let ?d1 = "dict_set (blob_name (sha data)) (FBytes data) dir"
  let ?d2 = "dict_set (pointer_name sha b) (FJson ?ptr) ?d1"
  note b1 = dir_ok_blob [OF assms(2,4)]
  have got: "dict_get ?d1 (blob_name (sha data)) = Some (FBytes data)" by (simp add: dict_get_set)
  then have got2: "dict_get ?d2 (blob_name (sha data)) = Some (FBytes data)"
    using pointer_not_blob [of sha b "sha data"] by (simp add: dict_get_set)
  have "dir' = dir \<and> isl r \<or> dir' = ?d1 \<and> isl r \<or>
      dir' = ?d2 \<and> canonical_json (\<lambda>_. []) ?ptr \<noteq> None \<and> (isl r \<or> r = Inr (sha data, True))"
    using assms(1) unfolding write_promoted_def write_atomic_def Let_def
    by (cases w1; cases w2) (auto split: if_splits)
  then consider "dir' = dir" "isl r" | "dir' = ?d1" "isl r"
    | "dir' = ?d2" "canonical_json (\<lambda>_. []) ?ptr \<noteq> None" "isl r \<or> r = Inr (sha data, True)" by blast
  then show ?thesis
  proof cases
    case 3
    obtain q where q: "exact_num c = Some (Fin q)" using pointer_text_finite [OF 3(2) assms(3)] by blast
    from dir_ok_pointer [OF b1(1) q got assms(4)] b1(2) q got2 3(1,3) show ?thesis by auto
  qed (use assms(2) b1 in auto)
qed

text \<open>The directories that promotions build, whatever fails on the way.\<close>

inductive promotions :: "(string \<Rightarrow> string) \<Rightarrow> codec \<Rightarrow> artifact_dir \<Rightarrow> bool" for sha cd where
  empty_dir: "promotions sha cd []"
| promotion: "promotions sha cd dir \<Longrightarrow> promote sha cd w1 w2 b data ks dir = (r, dir') \<Longrightarrow> promotions sha cd dir'"

text \<open>One promotion, case by case.\<close>

lemma promote_cases:
  assumes "promote sha cd w1 w2 b data ks dir = (r, dir')" and "dir_ok sha dir"
  shows "dir_ok sha dir' \<and>
    (dir' = dir \<and> (isl r \<or> (\<exists>h c d f q x. r = Inr (h, False) \<and> current sha cd dir b = Inr (Some (h, c, d)) \<and>
        decode sha cd data (sha data) b ks (2 ^ 62) (2 ^ 62) = Inr f \<and> exact_num c = Some (Fin q) \<and>
        exact_num (df_cutoff f) = Some x \<and> x \<le> Fin q)) \<or>
     (\<forall>b'. promoted sha dir' b' = promoted sha dir b') \<and> isl r \<or>
     (\<exists>f q. decode sha cd data (sha data) b ks (2 ^ 62) (2 ^ 62) = Inr f \<and> exact_num (df_cutoff f) = Some (Fin q) \<and>
        (\<forall>h c q'. promoted sha dir b = Some (h, c) \<longrightarrow> exact_num c = Some (Fin q') \<longrightarrow> q' < q) \<and>
        dict_get dir' (blob_name (sha data)) = Some (FBytes data) \<and>
        (\<forall>b'. promoted sha dir' b' =
           (if pointer_name sha b' = pointer_name sha b then Some (sha data, df_cutoff f) else promoted sha dir b')) \<and>
        (isl r \<or> r = Inr (sha data, True))))"
proof (cases "decode sha cd data (sha data) b ks (2 ^ 62) (2 ^ 62)")
  case (Inl e)
  then show ?thesis using assms by (auto simp: promote_def)
next
  case (Inr f)
  note d = decode_checked [OF Inr]
  obtain x where x: "exact_num (df_cutoff f) = Some x" using d(3) by blast
  note wp = write_promoted_cases [OF _ assms(2) x d(1)]
  from current_promoted [OF assms(2), of b cd] consider "promoted sha dir b = None" "current sha cd dir b = Inr None"
    | h c q d where "promoted sha dir b = Some (h, c)" "exact_num c = Some (Fin q)" "current sha cd dir b = Inr (Some (h, c, d))"
    by metis
  then show ?thesis
  proof cases
    case 1
    then have "write_promoted sha w1 w2 b data (df_cutoff f) dir = (r, dir')" using assms(1) Inr by (simp add: promote_def)
    from wp [OF this] show ?thesis using Inr 1 by auto
  next
    case 2
    show ?thesis
    proof (cases "x \<le> Fin q")
      case True
      then have "r = Inr (h, False)" "dir' = dir" using assms(1) Inr 2 x by (auto simp: promote_def json_le_def)
      then show ?thesis using assms(2) Inr 2 x True by blast
    next
      case False
      then have "write_promoted sha w1 w2 b data (df_cutoff f) dir = (r, dir')"
        using assms(1) Inr 2 x by (simp add: promote_def json_le_def)
      from wp [OF this] show ?thesis using Inr 2 x False by (auto simp: not_le)
    qed
  qed
qed

lemma promotions_ok: "promotions sha cd dir \<Longrightarrow> dir_ok sha dir"
proof (induction rule: promotions.induct)
  case empty_dir
  then show ?case by (simp add: dir_ok_def)
next
  case (promotion dir w1 w2 b data ks r dir')
  then show ?case using promote_cases by blast
qed

lemma decode_encoded:
  assumes "encode_e1 sha cd f b = Inr data" and "length data \<le> MAX_ARTIFACT_BYTES"
    and "\<And>t. canonical_json (cd_fmt cd) (JObj (manifest_of sha cd f b)) = Some t \<Longrightarrow>
           cd_unzip cd (cd_zip cd (artifact_members cd f t)) = Some (artifact_members cd f t)"
    and "\<And>t. canonical_json (cd_fmt cd) (JObj (manifest_of sha cd f b)) = Some t \<Longrightarrow>
           cd_loads cd t = Some (canon (JObj (manifest_of sha cd f b)))"
    and "npy_inverse cd (hw_season (ef_hw f))" "npy_inverse cd (ef_ar_coef f)"
    and "list_all is_finite (hw_season (ef_hw f))" "list_all is_finite (ef_ar_coef f)"
    and "int (length (hw_season (ef_hw f))) = ks_m (ef_settings f)" "int (length (ef_ar_coef f)) = ks_ar_order (ef_settings f) + 1"
  shows "decode sha cd data (sha data) b (ef_settings f) input_end max_age =
      (if ef_cutoff f \<le> input_end \<and> input_end - ef_cutoff f \<le> max_age then Inr (decoded_of f)
       else Inl (ArtifactRefused ''stale'')) \<and>
    (b' \<noteq> b \<longrightarrow> decode sha cd data (sha data) b' ks input_end max_age \<in>
       {Inl (ArtifactRefused ''foreign''), Inl (ArtifactRefused ''incompatible'')})"
proof -
  obtain t where t: "canonical_json (cd_fmt cd) (JObj (manifest_of sha cd f b)) = Some t"
      "data = cd_zip cd (artifact_members cd f t)"
      "ab_interval_seconds b = ef_interval_seconds f"
    using assms(1) by (auto simp: encode_e1_def split: if_splits option.splits)
  note parsed = parse_encoded [OF t(1) assms(4) [OF t(1)] assms(5-8) t(3)]
  note sc = manifest_scalars [OF t(1)]
  have same: "fields_eq BINDING_KEYS (sort_key fst (binding_fields b)) (binding_fields b)"
    using same_fields(1) [OF sc(3) manifest_keys(2)] by (simp add: manifest_keys(5))
  have other: "\<not> fields_eq BINDING_KEYS (sort_key fst (binding_fields b)) (binding_fields b')" if "b' \<noteq> b"
    using that by (auto simp: fields_eq_def BINDING_KEYS_def dict_get_sorted [OF manifest_keys(2)] binding_fields_def
        intro: artifact_binding.equality)
  have ks: "same_dict (df_settings (decoded_of f)) (ks_fields (ef_settings f))"
    using same_fields(2) [OF sc(2) manifest_keys(3)] by (simp add: decoded_of_def)
  have age: "check_age (df_cutoff (decoded_of f)) input_end max_age =
      (if ef_cutoff f \<le> input_end \<and> input_end - ef_cutoff f \<le> max_age then Inr () else Inl (ArtifactRefused ''stale''))"
    by (simp add: check_age_def decoded_of_def not_less)
  show ?thesis
    using assms(2) assms(3) [OF t(1), folded t(2)] parsed same other ks age assms(9,10)
    by (simp add: decode_def decoded_of_def)
qed

text \<open>A codec that holds one artifact, for the witnesses.\<close>

definition demo_binding :: artifact_binding where
  "demo_binding = \<lparr> ab_autoscaler_uid = ''u1'', ab_target_uid = ''t1'', ab_query_sha256 = demo_sha ''q'',
     ab_signal_contract = SIGNAL_CONTRACT, ab_interval_seconds = 86400, ab_seasonality = ''daily'', ab_recipe = RECIPE_E1 \<rparr>"

definition demo_base_codec :: codec where
  "demo_base_codec = \<lparr> cd_fmt = (\<lambda>_. ''0.0''), cd_loads = (\<lambda>_. None), cd_zip = (\<lambda>_. ''PK''), cd_unzip = (\<lambda>_. None),
     cd_npy = (\<lambda>xs. replicate (length xs) CHR ''0''),
     cd_unnpy = (\<lambda>s. NpyArray \<lparr> na_dtype = ''<f8'', na_shape = [int (length s)], na_floats = Some (replicate (length s) (Fin 0)),
       na_finite = True \<rparr>) \<rparr>"

definition demo_text :: string where
  "demo_text = the (canonical_json (\<lambda>_. ''0.0'') (JObj (manifest_of demo_sha demo_base_codec demo_fit demo_binding)))"

definition demo_codec :: codec where
  "demo_codec = demo_base_codec\<lparr>
     cd_loads := (\<lambda>_. Some (canon (JObj (manifest_of demo_sha demo_base_codec demo_fit demo_binding)))),
     cd_unzip := (\<lambda>_. Some (artifact_members demo_base_codec demo_fit demo_text)) \<rparr>"

lemma demo_codec_manifest:
  "manifest_of demo_sha demo_codec demo_fit demo_binding = manifest_of demo_sha demo_base_codec demo_fit demo_binding"
  "artifact_members demo_codec demo_fit t = artifact_members demo_base_codec demo_fit t"
  "cd_fmt demo_codec = (\<lambda>_. ''0.0'')" "cd_zip demo_codec = (\<lambda>_. ''PK'')"
  by (simp_all add: manifest_of_def artifact_members_def demo_codec_def demo_base_codec_def)

lemma demo_encodes: "encode_e1 demo_sha demo_codec demo_fit demo_binding = Inr ''PK''"
    "canonical_json (\<lambda>_. ''0.0'') (JObj (manifest_of demo_sha demo_base_codec demo_fit demo_binding)) = Some demo_text"
proof -
  have "canonical_json (\<lambda>_. ''0.0'') (JObj (manifest_of demo_sha demo_base_codec demo_fit demo_binding)) \<noteq> None"
    unfolding manifest_of_def binding_fields_def ks_fields_def hw_fields_def array_spec_def
    by (intro canonical_obj_some) (simp add: canonical_obj_some demo_fit_def demo_kernel_def del: canonical_json.simps(7), simp)
  then show c: "canonical_json (\<lambda>_. ''0.0'') (JObj (manifest_of demo_sha demo_base_codec demo_fit demo_binding)) = Some demo_text"
    unfolding demo_text_def by (cases "canonical_json (\<lambda>_. ''0.0'') (JObj (manifest_of demo_sha demo_base_codec demo_fit demo_binding))") auto
  show "encode_e1 demo_sha demo_codec demo_fit demo_binding = Inr ''PK''"
    unfolding encode_e1_def demo_codec_manifest c by (simp add: demo_binding_def demo_fit_def)
qed

lemma demo_npy: "npy_inverse demo_codec (hw_season (ef_hw demo_fit))" "npy_inverse demo_codec (ef_ar_coef demo_fit)"
  by (simp_all add: npy_inverse_def demo_codec_def demo_base_codec_def demo_fit_def numeral_eq_Suc)

lemma demo_decodes:
  "decode demo_sha demo_codec ''PK'' (demo_sha ''PK'') demo_binding demo_kernel e m =
     (if 777600 \<le> e \<and> e - 777600 \<le> m then Inr (decoded_of demo_fit) else Inl (ArtifactRefused ''stale''))"
proof -
  have st: "ef_settings demo_fit = demo_kernel" "ef_cutoff demo_fit = 777600" by (simp_all add: demo_fit_def)
  have size: "length ''PK'' \<le> MAX_ARTIFACT_BYTES" by (simp add: MAX_ARTIFACT_BYTES_def)
  have unzip: "cd_unzip demo_codec x = Some (artifact_members demo_base_codec demo_fit demo_text)"
    and loads: "cd_loads demo_codec x = Some (canon (JObj (manifest_of demo_sha demo_base_codec demo_fit demo_binding)))" for x
    by (simp_all add: demo_codec_def)
  have fin: "list_all is_finite (hw_season (ef_hw demo_fit))" "list_all is_finite (ef_ar_coef demo_fit)"
    and len: "int (length (hw_season (ef_hw demo_fit))) = ks_m (ef_settings demo_fit)"
      "int (length (ef_ar_coef demo_fit)) = ks_ar_order (ef_settings demo_fit) + 1"
    by (simp_all add: demo_fit_def demo_kernel_def ks_m_def)
  show "decode demo_sha demo_codec ''PK'' (demo_sha ''PK'') demo_binding demo_kernel e m =
      (if 777600 \<le> e \<and> e - 777600 \<le> m then Inr (decoded_of demo_fit) else Inl (ArtifactRefused ''stale''))"
    using decode_encoded [OF demo_encodes(1) size _ _ demo_npy fin len, unfolded demo_codec_manifest unzip loads demo_encodes(2),
        where input_end = e and max_age = m]
    unfolding st by blast
qed

section \<open>Properties\<close>

text \<open>C26: an encoded fit decodes to exactly the fit, for the binding and the kernel settings it was made with and while it is
  neither from the future nor too old, and it is refused as foreign or incompatible for any other binding. The ZIP, array
  and JSON formats are assumed to read back what was written for this artifact.\<close>

theorem artifact_round_trip:
  assumes "encode_e1 sha cd f b = Inr data" and "length data \<le> MAX_ARTIFACT_BYTES"
    and "\<And>t. canonical_json (cd_fmt cd) (JObj (manifest_of sha cd f b)) = Some t \<Longrightarrow>
           cd_unzip cd (cd_zip cd (artifact_members cd f t)) = Some (artifact_members cd f t)"
    and "\<And>t. canonical_json (cd_fmt cd) (JObj (manifest_of sha cd f b)) = Some t \<Longrightarrow>
           cd_loads cd t = Some (canon (JObj (manifest_of sha cd f b)))"
    and "npy_inverse cd (hw_season (ef_hw f))" "npy_inverse cd (ef_ar_coef f)"
    and "list_all is_finite (hw_season (ef_hw f))" "list_all is_finite (ef_ar_coef f)"
    and "int (length (hw_season (ef_hw f))) = ks_m (ef_settings f)" "int (length (ef_ar_coef f)) = ks_ar_order (ef_settings f) + 1"
  shows "decode sha cd data (sha data) b (ef_settings f) input_end max_age =
      (if ef_cutoff f \<le> input_end \<and> input_end - ef_cutoff f \<le> max_age then Inr (decoded_of f)
       else Inl (ArtifactRefused ''stale'')) \<and>
    (b' \<noteq> b \<longrightarrow> decode sha cd data (sha data) b' ks input_end max_age \<in>
       {Inl (ArtifactRefused ''foreign''), Inl (ArtifactRefused ''incompatible'')})"
  using decode_encoded [OF assms] .

theorem artifact_round_trip_witness:
  "decode demo_sha demo_codec ''PK'' (demo_sha ''PK'') demo_binding demo_kernel 777600 MAX_FIT_AGE_SECONDS = Inr (decoded_of demo_fit) \<and>
   decode demo_sha demo_codec ''PK'' (demo_sha ''PK'') demo_binding demo_kernel 950400 MAX_FIT_AGE_SECONDS = Inl (ArtifactRefused ''stale'')"
proof -
  have st: "ef_settings demo_fit = demo_kernel" "ef_cutoff demo_fit = 777600" by (simp_all add: demo_fit_def)
  have size: "length ''PK'' \<le> MAX_ARTIFACT_BYTES" by (simp add: MAX_ARTIFACT_BYTES_def)
  have unzip: "cd_unzip demo_codec x = Some (artifact_members demo_base_codec demo_fit demo_text)"
    and loads: "cd_loads demo_codec x = Some (canon (JObj (manifest_of demo_sha demo_base_codec demo_fit demo_binding)))" for x
    by (simp_all add: demo_codec_def)
  have fin: "list_all is_finite (hw_season (ef_hw demo_fit))" "list_all is_finite (ef_ar_coef demo_fit)"
    and len: "int (length (hw_season (ef_hw demo_fit))) = ks_m (ef_settings demo_fit)"
      "int (length (ef_ar_coef demo_fit)) = ks_ar_order (ef_settings demo_fit) + 1"
    by (simp_all add: demo_fit_def demo_kernel_def ks_m_def)
  have "decode demo_sha demo_codec ''PK'' (demo_sha ''PK'') demo_binding demo_kernel e MAX_FIT_AGE_SECONDS =
      (if 777600 \<le> e \<and> e - 777600 \<le> MAX_FIT_AGE_SECONDS then Inr (decoded_of demo_fit) else Inl (ArtifactRefused ''stale''))" for e
    using artifact_round_trip [OF demo_encodes(1) size _ _ demo_npy fin len, unfolded demo_codec_manifest unzip loads demo_encodes(2),
        where input_end = e and max_age = MAX_FIT_AGE_SECONDS]
    unfolding st by blast
  then show ?thesis by (simp add: MAX_FIT_AGE_SECONDS_def)
qed





end
