(* ===== verification/Worker.thy ===== *)
theory Worker
  imports Artifacts "HOL-Library.Multiset"
begin

text \<open>
  \<^verbatim>\<open>forecasting/worker.py\<close>: the bounded fit worker as a machine. A step is one region the code runs under its lock, or one
  thread-local stretch between two of them, so every interleaving of the worker threads, the callers of \<open>submit\<close> and the
  callers of \<open>close\<close> is a run. A ticket is an index into the list of all tickets ever made; a worker thread is in one of
  the phases of \<open>_loop\<close> and \<open>_run\<close>. The child process, its message, its exit and the kill timer are the environment:
  \<open>reap\<close> takes what was observed of them. Starting the timer thread and \<open>p.kill\<close> are taken to succeed.
\<close>

section \<open>Results and tickets\<close>

definition MAX_PAYLOAD_BYTES :: nat where "MAX_PAYLOAD_BYTES = 28 * 1440 * 8 + 4096"

definition FITS :: "string list" where "FITS = [RECIPE_E1]"

record fit_result =
  fr_signal_key :: string
  fr_recipe :: string
  fr_status :: string
  fr_reason :: "string option"
  fr_artifact_sha256 :: "string option"
  fr_started :: pyfloat
  fr_finished :: pyfloat
  fr_cpu_seconds :: "pyfloat option"
  fr_max_rss_kib :: "int option"

record ticket =
  tk_signal_key :: string
  tk_recipe :: string
  tk_binding :: artifact_binding
  tk_payload :: fit_payload
  tk_done :: bool
  tk_result :: "fit_result option"

definition failed_result :: "ticket \<Rightarrow> string \<Rightarrow> pyfloat \<Rightarrow> pyfloat \<Rightarrow> fit_result" where
  "failed_result t reason started finished =
     \<lparr> fr_signal_key = tk_signal_key t, fr_recipe = tk_recipe t, fr_status = ''failed'', fr_reason = Some reason,
       fr_artifact_sha256 = None, fr_started = started, fr_finished = finished, fr_cpu_seconds = None, fr_max_rss_kib = None \<rparr>"

section \<open>The fit process\<close>

text \<open>What running the recipe came to, and the one message \<open>_child\<close> sends about it.\<close>

datatype recipe_outcome =
    RecipeBytes string pyfloat int     \<comment> \<open>artifact bytes, CPU seconds, peak memory\<close>
  | RecipeOther                        \<comment> \<open>a value that is not bytes\<close>
  | RecipeMemoryError
  | RecipeRaised "string option"       \<comment> \<open>the \<open>reason\<close> attribute of the exception\<close>

datatype child_msg = MsgOk string pyfloat int | MsgError string

definition child :: "recipe_outcome \<Rightarrow> child_msg" where
  "child oc =
     (case oc of
        RecipeBytes data cpu rss \<Rightarrow> MsgOk data cpu rss
      | RecipeOther \<Rightarrow> MsgError ''numeric''
      | RecipeMemoryError \<Rightarrow> MsgError ''resource''
      | RecipeRaised reason \<Rightarrow>
          MsgError (case reason of Some r \<Rightarrow> if r \<in> set FAILURE_REASONS then r else ''numeric'' | None \<Rightarrow> ''numeric''))"

text \<open>What the parent knows once the process has been reaped.\<close>

record child_end =
  ce_msg :: "child_msg option"         \<comment> \<open>none: no message, or the pipe broke\<close>
  ce_expired :: bool                   \<comment> \<open>the kill timer fired, or the process outlived its deadline\<close>
  ce_late :: bool                      \<comment> \<open>it was reaped after the deadline\<close>
  ce_exitcode :: int
  ce_finished :: pyfloat

section \<open>The machine\<close>

datatype phase =
    Waiting                                     \<comment> \<open>in \<open>_loop\<close>, waiting for work\<close>
  | Dequeued nat                                \<comment> \<open>a ticket taken, no process yet\<close>
  | Running nat pyfloat                         \<comment> \<open>its process is alive; start time\<close>
  | Reaped nat pyfloat child_end                \<comment> \<open>the process is gone\<close>
  | Publishing nat pyfloat pyfloat string pyfloat int
  | Finishing nat fit_result                    \<comment> \<open>\<open>_run\<close> has returned\<close>
  | Recorded nat                                \<comment> \<open>the result is recorded, \<open>done\<close> not set yet\<close>
  | Exited

record worker =
  w_tickets :: "ticket list"
  w_queue :: "nat list"
  w_by_signal :: "(string \<times> nat) list"
  w_running :: "(string \<times> nat) list"
  w_closed :: bool
  w_threads :: "phase list"
  w_dropped :: "nat list"                       \<comment> \<open>tickets a \<open>close\<close> took off the queue and has still to resolve\<close>
  w_failures :: "(string \<times> int) list"
  w_dir :: artifact_dir

record worker_settings =
  ws_max_pending :: nat
  ws_max_active :: nat

definition new_worker :: "worker_settings \<Rightarrow> artifact_dir \<Rightarrow> worker" where
  "new_worker ws dir =
     \<lparr> w_tickets = [], w_queue = [], w_by_signal = [], w_running = [], w_closed = False,
       w_threads = replicate (ws_max_active ws) Waiting, w_dropped = [],
       w_failures = map (\<lambda>r. (r, 0)) FAILURE_REASONS, w_dir = dir \<rparr>"

section \<open>Admission\<close>

datatype submit_error = FitRefused string | QueueFull

definition submit ::
  "(string \<Rightarrow> string) \<Rightarrow> worker_settings \<Rightarrow> artifact_binding \<Rightarrow> string \<Rightarrow> fit_payload \<Rightarrow> worker \<Rightarrow> (submit_error + nat) \<times> worker" where
  "submit sha ws b recipe p w =
     (if recipe \<notin> set FITS \<or> ab_recipe b \<noteq> recipe then (Inl (FitRefused ''recipe''), w)
      else if (case fp_values p of None \<Rightarrow> True | Some v \<Rightarrow> length v > MAX_PAYLOAD_BYTES) then (Inl (FitRefused ''payload''), w)
      else if fp_binding p \<noteq> b then (Inl (FitRefused ''another signal''), w)
      else let key = binding_key sha b in
        if w_closed w then (Inl (FitRefused ''closed''), w)
        else case dict_get (w_by_signal w) key of
          Some i \<Rightarrow> (Inr i, w)
        | None \<Rightarrow>
            if length (w_queue w) \<ge> ws_max_pending ws then (Inl QueueFull, w)
            else let i = length (w_tickets w) in
              (Inr i, w\<lparr> w_tickets := w_tickets w @ [\<lparr> tk_signal_key = key, tk_recipe = recipe, tk_binding = b, tk_payload = p,
                           tk_done = False, tk_result = None \<rparr>],
                         w_queue := w_queue w @ [i], w_by_signal := dict_set key i (w_by_signal w) \<rparr>))"

definition busy :: "worker \<Rightarrow> bool" where
  "busy w \<longleftrightarrow> w_by_signal w \<noteq> []"

definition wait_ticket :: "worker \<Rightarrow> nat \<Rightarrow> fit_result option option" where
  "wait_ticket w i = (if tk_done (w_tickets w ! i) then Some (tk_result (w_tickets w ! i)) else None)"

section \<open>Closing\<close>

text \<open>The locked part of \<open>close\<close>, then one ticket after the other; it returns when all threads have ended.\<close>

definition close_worker :: "worker \<Rightarrow> worker" where
  "close_worker w =
     w\<lparr> w_closed := True, w_dropped := w_dropped w @ w_queue w, w_queue := [],
        w_by_signal := fold (\<lambda>i d. dict_pop (tk_signal_key (w_tickets w ! i)) d) (w_queue w) (w_by_signal w) \<rparr>"

definition resolve_ticket :: "nat \<Rightarrow> fit_result \<Rightarrow> worker \<Rightarrow> worker" where
  "resolve_ticket i r w = w\<lparr> w_tickets := (w_tickets w)[i := (w_tickets w ! i)\<lparr> tk_result := Some r \<rparr>] \<rparr>"

definition set_done :: "nat \<Rightarrow> worker \<Rightarrow> worker" where
  "set_done i w = w\<lparr> w_tickets := (w_tickets w)[i := (w_tickets w ! i)\<lparr> tk_done := True \<rparr>] \<rparr>"

definition drop_ticket :: "worker \<Rightarrow> worker" where
  "drop_ticket w =
     (case w_dropped w of
        [] \<Rightarrow> w
      | i # is \<Rightarrow> set_done i (resolve_ticket i (failed_result (w_tickets w ! i) ''resource'' (Fin 0) (Fin 0)) (w\<lparr> w_dropped := is \<rparr>)))"

definition close_returns :: "worker \<Rightarrow> bool" where
  "close_returns w \<longleftrightarrow> w_closed w \<and> w_dropped w = [] \<and> list_all (\<lambda>ph. ph = Exited) (w_threads w)"

section \<open>The worker threads\<close>

definition goto :: "nat \<Rightarrow> phase \<Rightarrow> worker \<Rightarrow> worker" where
  "goto k ph w = w\<lparr> w_threads := (w_threads w)[k := ph] \<rparr>"

text \<open>\<open>_loop\<close>: wait, end, or take the oldest ticket.\<close>

definition take_work :: "nat \<Rightarrow> worker \<Rightarrow> worker" where
  "take_work k w =
     (if w_closed w then goto k Exited w
      else case w_queue w of [] \<Rightarrow> w | i # is \<Rightarrow> goto k (Dequeued i) (w\<lparr> w_queue := is \<rparr>))"

text \<open>\<open>_run\<close>: start the process under the lock and only while open. A pipe or a process that cannot be made is an
  exception, which \<open>_loop\<close> turns into a failed result.\<close>

definition start_child :: "nat \<Rightarrow> nat \<Rightarrow> bool \<Rightarrow> pyfloat \<Rightarrow> worker \<Rightarrow> worker" where
  "start_child k i ok started w =
     (let t = w_tickets w ! i in
      if w_closed w then goto k (Finishing i (failed_result t ''resource'' (Fin 0) (Fin 0))) w
      else if \<not> ok then goto k (Finishing i (failed_result t ''storage'' (Fin 0) (Fin 0))) w
      else goto k (Running i started) (w\<lparr> w_running := dict_set (tk_signal_key t) i (w_running w) \<rparr>))"

definition reap :: "nat \<Rightarrow> nat \<Rightarrow> pyfloat \<Rightarrow> child_end \<Rightarrow> worker \<Rightarrow> worker" where
  "reap k i started ce w =
     goto k (Reaped i started ce) (w\<lparr> w_running := dict_pop (tk_signal_key (w_tickets w ! i)) (w_running w) \<rparr>)"

definition after_reap :: "ticket \<Rightarrow> nat \<Rightarrow> pyfloat \<Rightarrow> child_end \<Rightarrow> phase" where
  "after_reap t i started ce =
     (let failed = (\<lambda>reason. Finishing i (failed_result t reason started (ce_finished ce))) in
      if ce_expired ce \<or> ce_late ce then failed ''timeout''
      else case ce_msg ce of
             None \<Rightarrow> failed ''resource''
           | Some (MsgError reason) \<Rightarrow> failed reason
           | Some (MsgOk data cpu rss) \<Rightarrow>
               if ce_exitcode ce \<noteq> 0 then failed ''resource''
               else Publishing i started (ce_finished ce) data cpu rss)"

definition judge_child :: "nat \<Rightarrow> nat \<Rightarrow> pyfloat \<Rightarrow> child_end \<Rightarrow> worker \<Rightarrow> worker" where
  "judge_child k i started ce w = goto k (after_reap (w_tickets w ! i) i started ce) w"

text \<open>Publication, under the lock and only while open; the kernel settings are rebuilt from the payload.\<close>

definition promote_artifact ::
  "(string \<Rightarrow> string) \<Rightarrow> codec \<Rightarrow> write_outcome \<Rightarrow> write_outcome \<Rightarrow> ticket \<Rightarrow> string \<Rightarrow> artifact_dir \<Rightarrow>
     (fit_failure + string \<times> bool) \<times> artifact_dir" where
  "promote_artifact sha cd w1 w2 t data dir =
     (case check_kernel_settings (fp_kernel (tk_payload t)) of
        Inl e \<Rightarrow> (Inl (FitKernel e), dir)
      | Inr ks \<Rightarrow> map_prod (map_sum FitArtifact id) id (promote sha cd w1 w2 (tk_binding t) data ks dir))"

definition published_result :: "ticket \<Rightarrow> pyfloat \<Rightarrow> pyfloat \<Rightarrow> pyfloat \<Rightarrow> int \<Rightarrow> fit_failure + string \<times> bool \<Rightarrow> fit_result" where
  "published_result t started finished cpu rss r =
     (case r of
        Inl _ \<Rightarrow> (failed_result t ''storage'' started finished)\<lparr> fr_cpu_seconds := Some cpu, fr_max_rss_kib := Some rss \<rparr>
      | Inr (hash, new) \<Rightarrow>
          \<lparr> fr_signal_key = tk_signal_key t, fr_recipe = tk_recipe t, fr_status = (if new then ''promoted'' else ''unchanged''),
            fr_reason = None, fr_artifact_sha256 = Some hash, fr_started = started, fr_finished = finished,
            fr_cpu_seconds = Some cpu, fr_max_rss_kib = Some rss \<rparr>)"

definition publish ::
  "(string \<Rightarrow> string) \<Rightarrow> codec \<Rightarrow> write_outcome \<Rightarrow> write_outcome \<Rightarrow> nat \<Rightarrow> nat \<Rightarrow> pyfloat \<Rightarrow> pyfloat \<Rightarrow> string \<Rightarrow> pyfloat \<Rightarrow> int \<Rightarrow>
     worker \<Rightarrow> worker" where
  "publish sha cd w1 w2 k i started finished data cpu rss w =
     (let t = w_tickets w ! i in
      if w_closed w then goto k (Finishing i (failed_result t ''resource'' started finished)) w
      else case promote_artifact sha cd w1 w2 t data (w_dir w) of
             (r, dir) \<Rightarrow> goto k (Finishing i (published_result t started finished cpu rss r)) (w\<lparr> w_dir := dir \<rparr>))"

text \<open>Back in \<open>_loop\<close>: the failure is counted, the result recorded and the signal freed in one locked region, and only
  then is \<open>done\<close> set.\<close>

definition record_result :: "nat \<Rightarrow> nat \<Rightarrow> fit_result \<Rightarrow> worker \<Rightarrow> worker" where
  "record_result k i r w =
     (let t = w_tickets w ! i;
          w = (case fr_reason r of
                 Some reason \<Rightarrow>
                   if fr_status r = ''failed''
                   then w\<lparr> w_failures := dict_set reason (the (dict_get (w_failures w) reason) + 1) (w_failures w) \<rparr> else w
               | None \<Rightarrow> w)
      in goto k (Recorded i) (resolve_ticket i r (w\<lparr> w_by_signal := dict_pop (tk_signal_key t) (w_by_signal w) \<rparr>)))"

definition signal_done :: "nat \<Rightarrow> nat \<Rightarrow> worker \<Rightarrow> worker" where
  "signal_done k i w = goto k Waiting (set_done i w)"

section \<open>Runs\<close>

inductive thread_step :: "(string \<Rightarrow> string) \<Rightarrow> codec \<Rightarrow> worker \<Rightarrow> worker \<Rightarrow> bool" for sha cd where
  step_take: "k < length (w_threads w) \<Longrightarrow> w_threads w ! k = Waiting \<Longrightarrow> w_closed w \<or> w_queue w \<noteq> [] \<Longrightarrow>
    thread_step sha cd w (take_work k w)"
| step_start: "k < length (w_threads w) \<Longrightarrow> w_threads w ! k = Dequeued i \<Longrightarrow> thread_step sha cd w (start_child k i ok started w)"
| step_reap: "k < length (w_threads w) \<Longrightarrow> w_threads w ! k = Running i started \<Longrightarrow> ce_msg ce \<in> insert None (Some ` range child) \<Longrightarrow>
    thread_step sha cd w (reap k i started ce w)"
| step_judge: "k < length (w_threads w) \<Longrightarrow> w_threads w ! k = Reaped i started ce \<Longrightarrow>
    thread_step sha cd w (judge_child k i started ce w)"
| step_publish: "k < length (w_threads w) \<Longrightarrow> w_threads w ! k = Publishing i started finished data cpu rss \<Longrightarrow>
    thread_step sha cd w (publish sha cd w1 w2 k i started finished data cpu rss w)"
| step_record: "k < length (w_threads w) \<Longrightarrow> w_threads w ! k = Finishing i r \<Longrightarrow> thread_step sha cd w (record_result k i r w)"
| step_done: "k < length (w_threads w) \<Longrightarrow> w_threads w ! k = Recorded i \<Longrightarrow> thread_step sha cd w (signal_done k i w)"
| step_drop: "w_dropped w \<noteq> [] \<Longrightarrow> thread_step sha cd w (drop_ticket w)"

inductive worker_step :: "(string \<Rightarrow> string) \<Rightarrow> codec \<Rightarrow> worker_settings \<Rightarrow> worker \<Rightarrow> worker \<Rightarrow> bool" for sha cd ws where
  step_thread: "thread_step sha cd w w' \<Longrightarrow> worker_step sha cd ws w w'"
| step_submit: "submit sha ws b recipe p w = (r, w') \<Longrightarrow> worker_step sha cd ws w w'"
| step_close: "worker_step sha cd ws w (close_worker w)"

inductive reached :: "(string \<Rightarrow> string) \<Rightarrow> codec \<Rightarrow> worker_settings \<Rightarrow> artifact_dir \<Rightarrow> worker \<Rightarrow> bool" for sha cd ws dir where
  reached_new: "reached sha cd ws dir (new_worker ws dir)"
| reached_step: "reached sha cd ws dir w \<Longrightarrow> worker_step sha cd ws w w' \<Longrightarrow> reached sha cd ws dir w'"

inductive_cases thread_stepE: "thread_step sha cd w w'"
inductive_cases worker_stepE: "worker_step sha cd ws w w'"

section \<open>Where a ticket is\<close>

fun active_of :: "phase \<Rightarrow> nat list" where
  "active_of (Dequeued i) = [i]"
| "active_of (Running i _) = [i]"
| "active_of (Reaped i _ _) = [i]"
| "active_of (Publishing i _ _ _ _ _) = [i]"
| "active_of (Finishing i _) = [i]"
| "active_of _ = []"

fun recorded_of :: "phase \<Rightarrow> nat list" where
  "recorded_of (Recorded i) = [i]"
| "recorded_of _ = []"

fun running_of :: "phase \<Rightarrow> nat list" where
  "running_of (Running i _) = [i]"
| "running_of _ = []"

abbreviation gather :: "(phase \<Rightarrow> nat list) \<Rightarrow> phase list \<Rightarrow> nat multiset" where
  "gather f ths \<equiv> mset (concat (map f ths))"

lemma gather_update:
  "k < length ths \<Longrightarrow> gather f (ths[k := ph]) + mset (f (ths ! k)) = gather f ths + mset (f ph)"
proof (induction ths arbitrary: k)
  case (Cons p ths)
  then show ?case by (cases k) (auto simp: add.assoc add.commute add.left_commute)
qed simp

lemma gather_same: "k < length ths \<Longrightarrow> f ph = f (ths ! k) \<Longrightarrow> gather f (ths[k := ph]) = gather f ths"
  using gather_update [of k ths f ph] by simp

lemma gather_add: "k < length ths \<Longrightarrow> f (ths ! k) = [] \<Longrightarrow> f ph = [i] \<Longrightarrow> gather f (ths[k := ph]) = add_mset i (gather f ths)"
  using gather_update [of k ths f ph] by simp

lemma gather_del: "k < length ths \<Longrightarrow> f (ths ! k) = [i] \<Longrightarrow> f ph = [] \<Longrightarrow> gather f ths = add_mset i (gather f (ths[k := ph]))"
  using gather_update [of k ths f ph] by simp

definition pending :: "worker \<Rightarrow> nat multiset" where
  "pending w = mset (w_queue w) + gather active_of (w_threads w)"

definition recorded :: "worker \<Rightarrow> nat multiset" where
  "recorded w = gather recorded_of (w_threads w)"

definition live :: "worker \<Rightarrow> nat multiset" where
  "live w = gather running_of (w_threads w)"

abbreviation key_of :: "worker \<Rightarrow> nat \<Rightarrow> string" where
  "key_of w i \<equiv> tk_signal_key (w_tickets w ! i)"

text \<open>A dictionary from signal keys to the tickets in a set.\<close>

definition indexes :: "worker \<Rightarrow> nat set \<Rightarrow> (string \<times> nat) list \<Rightarrow> bool" where
  "indexes w T d \<longleftrightarrow> dict_wf d \<and> (\<forall>key i. dict_get d key = Some i \<longleftrightarrow> i \<in> T \<and> key_of w i = key)"

lemma indexes_inj: "indexes w T d \<Longrightarrow> i \<in> T \<Longrightarrow> j \<in> T \<Longrightarrow> key_of w i = key_of w j \<Longrightarrow> i = j"
  unfolding indexes_def by (metis option.inject)

lemma indexes_remove:
  assumes "indexes w T d" and "i \<in> T"
  shows "indexes w (T - {i}) (dict_pop (key_of w i) d)"
proof -
  have "dict_get (dict_pop (key_of w i) d) key = Some j \<longleftrightarrow> j \<in> T - {i} \<and> key_of w j = key" for key j
    using assms indexes_inj [OF assms(1)] by (auto simp: indexes_def dict_get_pop)
  then show ?thesis using assms(1) by (simp add: indexes_def dict_wf_pop)
qed

lemma indexes_insert:
  assumes "indexes w T d" and "dict_get d (key_of w i) = None" and "i \<notin> T"
  shows "indexes w (insert i T) (dict_set (key_of w i) i d)"
  using assms by (auto simp: indexes_def dict_get_set dict_wf_set)

definition ticket_ok :: "worker \<Rightarrow> nat \<Rightarrow> bool" where
  "ticket_ok w i \<longleftrightarrow>
     (let t = w_tickets w ! i in
      if i \<in># pending w \<or> i \<in> set (w_dropped w) then tk_result t = None \<and> \<not> tk_done t
      else if i \<in># recorded w then tk_result t \<noteq> None \<and> \<not> tk_done t
      else tk_result t \<noteq> None \<and> tk_done t)"

fun reason_ok :: "phase \<Rightarrow> bool" where
  "reason_ok (Reaped i s ce) = (\<forall>r. ce_msg ce = Some (MsgError r) \<longrightarrow> r \<in> set FAILURE_REASONS)"
| "reason_ok (Finishing i r) = (if fr_status r = ''failed'' then \<exists>x \<in> set FAILURE_REASONS. fr_reason r = Some x else fr_reason r = None)"
| "reason_ok _ = True"

definition worker_ok :: "worker_settings \<Rightarrow> worker \<Rightarrow> bool" where
  "worker_ok ws w \<longleftrightarrow>
     (\<forall>i. count (pending w + recorded w + mset (w_dropped w)) i \<le> of_bool (i < length (w_tickets w))) \<and>
     (\<forall>i < length (w_tickets w). ticket_ok w i) \<and>
     indexes w (set_mset (pending w)) (w_by_signal w) \<and> indexes w (set_mset (live w)) (w_running w) \<and>
     length (w_queue w) \<le> ws_max_pending ws \<and> length (w_threads w) = ws_max_active ws \<and>
     (if w_closed w then w_queue w = [] else w_dropped w = [] \<and> Exited \<notin> set (w_threads w)) \<and>
     list_all reason_ok (w_threads w) \<and> map fst (w_failures w) = FAILURE_REASONS"

section \<open>Every step keeps the invariant\<close>

lemma goto_simps [simp]:
  "w_tickets (goto k ph w) = w_tickets w" "w_queue (goto k ph w) = w_queue w" "w_by_signal (goto k ph w) = w_by_signal w"
  "w_running (goto k ph w) = w_running w" "w_closed (goto k ph w) = w_closed w" "w_dropped (goto k ph w) = w_dropped w"
  "w_failures (goto k ph w) = w_failures w" "w_dir (goto k ph w) = w_dir w" "w_threads (goto k ph w) = (w_threads w)[k := ph]"
  by (simp_all add: goto_def)

lemma list_all_update: "list_all P xs \<Longrightarrow> P y \<Longrightarrow> list_all P (xs[k := y])"
  using set_update_subset_insert [of xs k y] by (auto simp: list_all_iff)

lemma not_in_update: "x \<notin> set xs \<Longrightarrow> x \<noteq> y \<Longrightarrow> x \<notin> set (xs[k := y])"
  using set_update_subset_insert [of xs k y] by auto

lemma worker_ok_frame:
  assumes "worker_ok ws w" and "w_tickets w' = w_tickets w" "pending w' = pending w" "recorded w' = recorded w"
    "w_dropped w' = w_dropped w" "w_by_signal w' = w_by_signal w" "w_closed w' = w_closed w" "w_failures w' = w_failures w"
    and "indexes w (set_mset (live w')) (w_running w')" and "length (w_queue w') \<le> length (w_queue w)"
    and "w_threads w' = (w_threads w)[k := ph]" "reason_ok ph" "ph = Exited \<Longrightarrow> w_closed w"
  shows "worker_ok ws w'"
proof -
  have tok: "ticket_ok w' i = ticket_ok w i" for i using assms(2-5) by (simp add: ticket_ok_def)
  have idx: "indexes w' T d = indexes w T d" for T d using assms(2) by (simp add: indexes_def)
  have "w_queue w' = []" if "w_closed w" using assms(1,10) that by (simp add: worker_ok_def)
  moreover have "Exited \<notin> set (w_threads w')" if "\<not> w_closed w"
    unfolding assms(11) by (rule not_in_update) (use assms(1,13) that in \<open>auto simp: worker_ok_def\<close>)
  moreover have "list_all reason_ok (w_threads w')" using assms(1,11,12) by (simp add: worker_ok_def list_all_update)
  ultimately show ?thesis
    using assms(1) assms(2-11) unfolding worker_ok_def tok idx by (auto split: if_splits)
qed

lemma ok_live: "worker_ok ws w \<Longrightarrow> indexes w (set_mset (live w)) (w_running w)"
  by (simp add: worker_ok_def)

lemma ok_thread: "worker_ok ws w \<Longrightarrow> k < length (w_threads w) \<Longrightarrow> reason_ok (w_threads w ! k)"
  by (simp add: worker_ok_def list_all_length)

lemma ok_count:
  assumes "worker_ok ws w"
  shows "count (pending w) i + count (recorded w) i + count (mset (w_dropped w)) i \<le> of_bool (i < length (w_tickets w))"
  using assms by (simp add: worker_ok_def)

lemma ok_places:
  assumes "worker_ok ws w" and "M \<subseteq># pending w + recorded w + mset (w_dropped w)"
  shows "count M j \<le> of_bool (j < length (w_tickets w))"
proof -
  have "count M j \<le> count (pending w + recorded w + mset (w_dropped w)) j" using assms(2) by (rule mset_subset_eq_count)
  also have "\<dots> \<le> of_bool (j < length (w_tickets w))" using ok_count [OF assms(1), of j] by (simp only: count_union)
  finally show ?thesis .
qed

lemma ok_exited: "worker_ok ws w \<Longrightarrow> \<not> w_closed w \<Longrightarrow> Exited \<notin> set (w_threads w)"
  by (simp add: worker_ok_def)

lemma active_pending:
  assumes "k < length (w_threads w)" and "active_of (w_threads w ! k) = [i]"
  shows "i \<in># pending w"
  using gather_del [of k "w_threads w" active_of i Waiting] assms by (simp add: pending_def)

lemma pending_once:
  assumes "worker_ok ws w" and "i \<in># pending w"
  shows "i < length (w_tickets w)" "count (pending w) i = 1" "i \<notin># recorded w" "i \<notin> set (w_dropped w)"
proof -
  obtain n where c: "count (pending w) i = Suc n" using assms(2) by (metis count_eq_zero_iff not0_implies_Suc)
  note o = ok_count [OF assms(1), of i, unfolded c]
  show "i < length (w_tickets w)" using o by (cases "i < length (w_tickets w)") auto
  with o c have "count (pending w) i = 1" "count (recorded w) i = 0" "count (mset (w_dropped w)) i = 0"
    by (simp_all del: count_mset_0_iff count_mset_gt_0)
  then show "count (pending w) i = 1" "i \<notin># recorded w" "i \<notin> set (w_dropped w)"
    by (simp_all add: not_in_iff [symmetric])
qed

lemma step_take_ok:
  assumes "worker_ok ws w" and "k < length (w_threads w)" "w_threads w ! k = Waiting"
  shows "worker_ok ws (take_work k w)"
proof (cases "w_closed w")
  case True
  have "worker_ok ws (goto k Exited w)"
    by (rule worker_ok_frame [OF assms(1), of _ k Exited])
      (use assms True ok_live [OF assms(1)] in \<open>simp_all add: pending_def recorded_def live_def gather_same del: mset_concat map_concat\<close>)
  then show ?thesis using True by (simp add: take_work_def)
next
  case False
  show ?thesis
  proof (cases "w_queue w")
    case Nil
    then show ?thesis using False assms(1) by (simp add: take_work_def)
  next
    case (Cons i rest)
    have "worker_ok ws (goto k (Dequeued i) (w\<lparr> w_queue := rest \<rparr>))"
      by (rule worker_ok_frame [OF assms(1), of _ k "Dequeued i"])
        (use assms Cons ok_live [OF assms(1)] in
          \<open>simp_all add: pending_def recorded_def live_def gather_same gather_add [of k "w_threads w" active_of _ i] indexes_def\<close>)
    then show ?thesis using False Cons by (simp add: take_work_def)
  qed
qed

lemma live_pending: "set_mset (live w) \<subseteq> set_mset (pending w)"
proof -
  have "set (running_of ph) \<subseteq> set (active_of ph)" for ph by (cases ph) auto
  then show ?thesis by (force simp: live_def pending_def)
qed

lemma failed_reason_ok: "reason \<in> set FAILURE_REASONS \<Longrightarrow> reason_ok (Finishing i (failed_result t reason s f))"
  by (simp add: failed_result_def)

lemma failure_names: "''resource'' \<in> set FAILURE_REASONS" "''storage'' \<in> set FAILURE_REASONS" "''timeout'' \<in> set FAILURE_REASONS"
  "''numeric'' \<in> set FAILURE_REASONS"
  by (simp_all add: FAILURE_REASONS_def)

lemma running_in_active: "i \<in># gather running_of ths \<Longrightarrow> i \<in># gather active_of ths"
proof -
  have "set (running_of ph) \<subseteq> set (active_of ph)" for ph by (cases ph) auto
  then show "i \<in># gather running_of ths \<Longrightarrow> i \<in># gather active_of ths" by force
qed

text \<open>A thread that keeps its ticket and does not start or end a process.\<close>

lemma goto_same_ok:
  assumes "worker_ok ws w" and "k < length (w_threads w)" and "active_of ph = active_of (w_threads w ! k)"
    "recorded_of ph = recorded_of (w_threads w ! k)" "running_of ph = running_of (w_threads w ! k)" "reason_ok ph" "ph \<noteq> Exited"
  shows "worker_ok ws (goto k ph (w\<lparr> w_dir := dir \<rparr>))"
  by (rule worker_ok_frame [OF assms(1), of _ k ph])
    (use assms ok_live [OF assms(1)] in \<open>simp_all add: pending_def recorded_def live_def gather_same\<close>)

lemma goto_same_ok': "worker_ok ws w \<Longrightarrow> k < length (w_threads w) \<Longrightarrow> active_of ph = active_of (w_threads w ! k) \<Longrightarrow>
    recorded_of ph = recorded_of (w_threads w ! k) \<Longrightarrow> running_of ph = running_of (w_threads w ! k) \<Longrightarrow> reason_ok ph \<Longrightarrow>
    ph \<noteq> Exited \<Longrightarrow> worker_ok ws (goto k ph w)"
  using goto_same_ok [of ws w k ph "w_dir w"] by simp

lemma step_start_ok:
  assumes "worker_ok ws w" and "k < length (w_threads w)" "w_threads w ! k = Dequeued i"
  shows "worker_ok ws (start_child k i ok started w)"
proof -
  have new: "worker_ok ws (goto k (Running i started) (w\<lparr> w_running := dict_set (key_of w i) i (w_running w) \<rparr>))"
  proof (rule worker_ok_frame [OF assms(1), of _ k "Running i started"])
    let ?w = "goto k (Running i started) (w\<lparr> w_running := dict_set (key_of w i) i (w_running w) \<rparr>)"
    have p: "i \<in># pending w" using active_pending [OF assms(2)] assms(3) by simp
    have lv: "live ?w = add_mset i (live w)"
      using gather_add [of k "w_threads w" running_of "Running i started" i] assms(2,3) by (simp add: live_def)
    have "count (gather active_of (w_threads w)) i \<le> 1" using pending_once(2) [OF assms(1) p] by (simp add: pending_def)
    then have notlive: "i \<notin># live w"
      using gather_del [of k "w_threads w" active_of i Waiting] assms(2,3)
        gather_same [of k "w_threads w" running_of Waiting] running_in_active [of i "(w_threads w)[k := Waiting]"]
      by (auto simp: live_def)
    have fresh: "dict_get (w_running w) (key_of w i) = None"
    proof (rule ccontr)
      assume "dict_get (w_running w) (key_of w i) \<noteq> None"
      then obtain j where "j \<in># live w" "key_of w j = key_of w i" using ok_live [OF assms(1)] by (auto simp: indexes_def)
      moreover have "indexes w (set_mset (pending w)) (w_by_signal w)" using assms(1) by (simp add: worker_ok_def)
      ultimately show False using indexes_inj p notlive live_pending by (metis subsetD)
    qed
    show "indexes w (set_mset (live ?w)) (w_running ?w)"
      using indexes_insert [OF ok_live [OF assms(1)] fresh] notlive lv by simp
  qed (use assms in \<open>simp_all add: pending_def recorded_def gather_same\<close>)
  show ?thesis
    using new goto_same_ok' [OF assms(1,2)] assms(3) failed_reason_ok failure_names by (simp add: start_child_def Let_def)
qed

lemma step_reap_ok:
  assumes "worker_ok ws w" and "k < length (w_threads w)" "w_threads w ! k = Running i started"
    and "ce_msg ce \<in> insert None (Some ` range child)"
  shows "worker_ok ws (reap k i started ce w)"
  unfolding reap_def
proof (rule worker_ok_frame [OF assms(1), of _ k "Reaped i started ce"])
  let ?w = "goto k (Reaped i started ce) (w\<lparr> w_running := dict_pop (key_of w i) (w_running w) \<rparr>)"
  have lv: "live w = add_mset i (live ?w)"
    using gather_del [of k "w_threads w" running_of i "Reaped i started ce"] assms(2,3) by (simp add: live_def)
  have p: "i \<in># pending w" using active_pending [OF assms(2)] assms(3) by simp
  have "count (gather active_of (w_threads w)) i \<le> 1" using pending_once(2) [OF assms(1) p] by (simp add: pending_def)
  then have "i \<notin># live ?w"
    using gather_del [of k "w_threads w" active_of i Waiting] assms(2,3)
      gather_same [of k "(w_threads w)[k := Waiting]" running_of "Reaped i started ce"]
      running_in_active [of i "(w_threads w)[k := Waiting]"]
    by (auto simp: live_def)
  then have "set_mset (live ?w) = set_mset (live w) - {i}" using lv by auto
  then show "indexes w (set_mset (live ?w)) (w_running ?w)"
    using indexes_remove [OF ok_live [OF assms(1)], of i] lv by simp
  show "reason_ok (Reaped i started ce)"
    using assms(4) failure_names by (auto simp: child_def split: recipe_outcome.splits option.splits if_splits)
qed (use assms in \<open>simp_all add: pending_def recorded_def gather_same\<close>)

lemma step_judge_ok:
  assumes "worker_ok ws w" and "k < length (w_threads w)" "w_threads w ! k = Reaped i started ce"
  shows "worker_ok ws (judge_child k i started ce w)"
proof -
  have r: "\<forall>r. ce_msg ce = Some (MsgError r) \<longrightarrow> r \<in> set FAILURE_REASONS" using ok_thread [OF assms(1,2)] assms(3) by simp
  let ?ph = "after_reap (w_tickets w ! i) i started ce"
  have "active_of ?ph = [i]" "recorded_of ?ph = []" "running_of ?ph = []" "?ph \<noteq> Exited"
    by (auto simp: after_reap_def Let_def split: option.splits child_msg.splits)
  moreover have "reason_ok ?ph"
    unfolding after_reap_def Let_def using failed_reason_ok failure_names r
    by (auto split: option.splits child_msg.splits)
  ultimately show ?thesis unfolding judge_child_def by (intro goto_same_ok' [OF assms(1,2)]) (simp_all add: assms(3))
qed

lemma published_reason_ok: "reason_ok (Finishing i (published_result t s f cpu rss r))"
  by (auto simp: published_result_def failed_result_def failure_names split: sum.splits prod.splits)

lemma step_publish_ok:
  assumes "worker_ok ws w" and "k < length (w_threads w)" "w_threads w ! k = Publishing i started finished data cpu rss"
  shows "worker_ok ws (publish sha cd w1 w2 k i started finished data cpu rss w)"
  unfolding publish_def Let_def
  using goto_same_ok [OF assms(1,2)] goto_same_ok' [OF assms(1,2)] failed_reason_ok [OF failure_names(1)] published_reason_ok
  by (simp add: assms(3) split: prod.splits)

lemma update_keeps_key:
  "tk_signal_key t' = tk_signal_key (ts ! i) \<Longrightarrow> tk_signal_key (ts[i := t'] ! j) = tk_signal_key (ts ! j)"
  by (cases "i < length ts"; cases "i = j") (auto simp: list_update_beyond)

lemma indexes_cong: "(\<And>j. key_of w' j = key_of w j) \<Longrightarrow> indexes w' T d = indexes w T d"
  by (simp add: indexes_def)

text \<open>What one ticket's update does to all of them, when only that ticket changes place.\<close>

lemma ticket_ok_other:
  assumes "j \<noteq> i" "w_tickets w' ! j = w_tickets w ! j" "j \<in># pending w' \<longleftrightarrow> j \<in># pending w" "j \<in># recorded w' \<longleftrightarrow> j \<in># recorded w"
    "j \<in> set (w_dropped w') \<longleftrightarrow> j \<in> set (w_dropped w)"
  shows "ticket_ok w' j = ticket_ok w j"
  using assms by (simp add: ticket_ok_def)

lemma step_record_ok:
  assumes "worker_ok ws w" and "k < length (w_threads w)" "w_threads w ! k = Finishing i r"
  shows "worker_ok ws (record_result k i r w)"
proof -
  let ?w = "record_result k i r w"
  have th: "w_threads ?w = (w_threads w)[k := Recorded i]" and q: "w_queue ?w = w_queue w" and cl: "w_closed ?w = w_closed w"
    and dr: "w_dropped ?w = w_dropped w" and rn: "w_running ?w = w_running w"
    and bs: "w_by_signal ?w = dict_pop (key_of w i) (w_by_signal w)"
    and tk: "w_tickets ?w = (w_tickets w)[i := (w_tickets w ! i)\<lparr> tk_result := Some r \<rparr>]"
    by (auto simp: record_result_def resolve_ticket_def Let_def split: option.splits)
  have keys: "key_of ?w j = key_of w j" for j unfolding tk by (rule update_keeps_key) simp
  have fl: "map fst (w_failures ?w) = FAILURE_REASONS"
  proof -
    have f: "map fst (w_failures w) = FAILURE_REASONS" using assms(1) by (simp add: worker_ok_def)
    have keep: "map fst (dict_set x v d) = map fst d" if "x \<in> set (map fst d)" for x and v :: int and d :: "(string \<times> int) list"
      using that by (induction d) auto
    have "map fst (dict_set x v (w_failures w)) = FAILURE_REASONS" if "x \<in> set FAILURE_REASONS" for x v
      using keep [of x "w_failures w" v] that unfolding f by blast
    then show ?thesis
      using f ok_thread [OF assms(1,2)] by (auto simp: assms(3) record_result_def resolve_ticket_def Let_def split: option.splits if_splits)
  qed
  have p: "i \<in># pending w" using active_pending [OF assms(2)] assms(3) by simp
  note once = pending_once [OF assms(1) p]
  have pd: "pending w = add_mset i (pending ?w)"
    using gather_del [of k "w_threads w" active_of i "Recorded i"] assms(2,3) by (simp add: pending_def th q)
  have rc: "recorded ?w = add_mset i (recorded w)"
    using gather_add [of k "w_threads w" recorded_of "Recorded i" i] assms(2,3) by (simp add: recorded_def th)
  have lv: "live ?w = live w" using assms(2,3) by (simp add: live_def th gather_same)
  have gone: "i \<notin># pending ?w" using once(2) pd by (simp add: not_in_iff)
  have cnt: "count (pending ?w + recorded ?w + mset (w_dropped ?w)) j \<le> of_bool (j < length (w_tickets w))" for j
    by (rule ok_places [OF assms(1)]) (simp add: pd rc dr)
  have tok: "ticket_ok ?w j" if "j < length (w_tickets ?w)" for j
  proof (cases "j = i")
    case True
    have "\<not> tk_done (w_tickets w ! i)" using assms(1) once(1) p by (auto simp: worker_ok_def ticket_ok_def Let_def)
    then show ?thesis using True gone once rc dr by (simp add: ticket_ok_def tk)
  next
    case False
    have "ticket_ok w j" using assms(1) that by (simp add: worker_ok_def tk)
    then show ?thesis using ticket_ok_other [OF False, of ?w w] False pd rc dr by (simp add: tk)
  qed
  have "indexes w (set_mset (pending ?w)) (w_by_signal ?w)"
  proof -
    have "set_mset (pending ?w) = set_mset (pending w) - {i}" using pd gone by auto
    then show ?thesis using indexes_remove [of w "set_mset (pending w)" "w_by_signal w" i] assms(1) p bs
      by (simp add: worker_ok_def)
  qed
  then have ix: "indexes ?w (set_mset (pending ?w)) (w_by_signal ?w)" by (simp add: indexes_cong [of ?w w, OF keys])
  have lx: "indexes ?w (set_mset (live ?w)) (w_running ?w)"
    using ok_live [OF assms(1)] by (simp add: lv rn indexes_cong [of ?w w, OF keys])
  have rs: "list_all reason_ok (w_threads ?w)" using assms(1) by (simp add: th worker_ok_def list_all_update)
  have ex: "\<not> w_closed w \<Longrightarrow> Exited \<notin> set (w_threads ?w)"
    unfolding th by (rule not_in_update) (use ok_exited [OF assms(1)] in simp_all)
  show ?thesis
    unfolding worker_ok_def using cnt tok ix lx rs fl ex assms(1) by (simp add: q cl dr th tk worker_ok_def)
qed

lemma step_done_ok:
  assumes "worker_ok ws w" and "k < length (w_threads w)" "w_threads w ! k = Recorded i"
  shows "worker_ok ws (signal_done k i w)"
proof -
  let ?w = "signal_done k i w"
  have th: "w_threads ?w = (w_threads w)[k := Waiting]" and q: "w_queue ?w = w_queue w" and cl: "w_closed ?w = w_closed w"
    and dr: "w_dropped ?w = w_dropped w" and rn: "w_running ?w = w_running w" and bs: "w_by_signal ?w = w_by_signal w"
    and fl: "w_failures ?w = w_failures w"
    and tk: "w_tickets ?w = (w_tickets w)[i := (w_tickets w ! i)\<lparr> tk_done := True \<rparr>]"
    by (simp_all add: signal_done_def set_done_def)
  have keys: "key_of ?w j = key_of w j" for j unfolding tk by (rule update_keeps_key) simp
  have pd: "pending ?w = pending w" and lv: "live ?w = live w" using assms(2,3) by (simp_all add: pending_def live_def th q gather_same)
  have rc: "recorded w = add_mset i (recorded ?w)"
    using gather_del [of k "w_threads w" recorded_of i Waiting] assms(2,3) by (simp add: recorded_def th)
  have o: "count (pending w) i + (Suc (count (recorded ?w) i)) + count (mset (w_dropped w)) i \<le> of_bool (i < length (w_tickets w))"
    using ok_count [OF assms(1), of i] by (simp add: rc)
  then have il: "i < length (w_tickets w)" by (cases "i < length (w_tickets w)") auto
  then have none: "count (pending w) i = 0" "count (recorded ?w) i = 0" "count (mset (w_dropped w)) i = 0"
    using o by (simp_all del: count_mset_0_iff)
  have cnt: "count (pending ?w + recorded ?w + mset (w_dropped ?w)) j \<le> of_bool (j < length (w_tickets w))" for j
    by (rule ok_places [OF assms(1)]) (simp add: pd rc dr)
  have tok: "ticket_ok ?w j" if "j < length (w_tickets ?w)" for j
  proof (cases "j = i")
    case True
    have "i \<notin># pending w" "i \<notin># recorded ?w" "i \<notin> set (w_dropped w)" using none by (simp_all add: not_in_iff [symmetric])
    moreover have "tk_result (w_tickets w ! i) \<noteq> None"
      using assms(1) il calculation rc by (auto simp: worker_ok_def ticket_ok_def Let_def)
    ultimately show ?thesis using True il by (simp add: ticket_ok_def tk pd dr)
  next
    case False
    have "ticket_ok w j" using assms(1) that by (simp add: worker_ok_def tk)
    then show ?thesis using ticket_ok_other [OF False, of ?w w] False pd rc dr by (simp add: tk)
  qed
  have ix: "indexes ?w (set_mset (pending ?w)) (w_by_signal ?w)" "indexes ?w (set_mset (live ?w)) (w_running ?w)"
    using assms(1) by (simp_all add: worker_ok_def pd lv rn bs indexes_cong [of ?w w, OF keys])
  have rs: "list_all reason_ok (w_threads ?w)" using assms(1) by (simp add: th worker_ok_def list_all_update)
  have ex: "\<not> w_closed w \<Longrightarrow> Exited \<notin> set (w_threads ?w)"
    unfolding th by (rule not_in_update) (use ok_exited [OF assms(1)] in simp_all)
  show ?thesis
    unfolding worker_ok_def using cnt tok ix rs ex assms(1) by (simp add: q cl dr th fl tk worker_ok_def)
qed

lemma step_drop_ok:
  assumes "worker_ok ws w" and "w_dropped w \<noteq> []"
  shows "worker_ok ws (drop_ticket w)"
proof -
  obtain i rest where d: "w_dropped w = i # rest" using assms(2) by (cases "w_dropped w") auto
  let ?w = "drop_ticket w"
  let ?r = "failed_result (w_tickets w ! i) ''resource'' (Fin 0) (Fin 0)"
  have o: "count (pending w) i + count (recorded w) i + Suc (count (mset rest) i) \<le> of_bool (i < length (w_tickets w))"
    using ok_count [OF assms(1), of i] by (simp add: d)
  then have il: "i < length (w_tickets w)" by (cases "i < length (w_tickets w)") auto
  then have none: "count (pending w) i = 0" "count (recorded w) i = 0" "count (mset rest) i = 0"
    using o by (simp_all del: count_mset_0_iff)
  have th: "w_threads ?w = w_threads w" and q: "w_queue ?w = w_queue w" and cl: "w_closed ?w = w_closed w"
    and dr: "w_dropped ?w = rest" and rn: "w_running ?w = w_running w" and bs: "w_by_signal ?w = w_by_signal w"
    and fl: "w_failures ?w = w_failures w"
    and tk: "w_tickets ?w = (w_tickets w)[i := (w_tickets w ! i)\<lparr> tk_result := Some ?r, tk_done := True \<rparr>]"
    using il by (simp_all add: drop_ticket_def d set_done_def resolve_ticket_def)
  have keys: "key_of ?w j = key_of w j" for j unfolding tk by (rule update_keeps_key) simp
  have same: "pending ?w = pending w" "recorded ?w = recorded w" "live ?w = live w"
    by (simp_all add: pending_def recorded_def live_def th q)
  have cnt: "count (pending ?w + recorded ?w + mset (w_dropped ?w)) j \<le> of_bool (j < length (w_tickets w))" for j
    by (rule ok_places [OF assms(1)]) (simp add: same dr d)
  have tok: "ticket_ok ?w j" if "j < length (w_tickets w)" for j
  proof (cases "j = i")
    case True
    have "i \<notin># pending w" "i \<notin># recorded w" "i \<notin> set rest" using none by (simp_all add: not_in_iff [symmetric])
    then show ?thesis using True il by (simp add: ticket_ok_def tk same dr)
  next
    case False
    have "ticket_ok w j" using assms(1) that by (simp add: worker_ok_def)
    then show ?thesis using ticket_ok_other [OF False, of ?w w] False same dr d by (simp add: tk)
  qed
  have ix: "indexes ?w (set_mset (pending ?w)) (w_by_signal ?w)" "indexes ?w (set_mset (live ?w)) (w_running ?w)"
    using assms(1) by (simp_all add: worker_ok_def same rn bs indexes_cong [of ?w w, OF keys])
  have "w_closed w" using assms by (auto simp: worker_ok_def split: if_splits)
  then show ?thesis
    unfolding worker_ok_def using cnt tok ix assms(1) by (simp add: q cl dr th fl tk worker_ok_def)
qed

lemma indexes_drop:
  "indexes w T d \<Longrightarrow> set xs \<subseteq> T \<Longrightarrow> distinct xs \<Longrightarrow> indexes w (T - set xs) (fold (\<lambda>i d. dict_pop (key_of w i) d) xs d)"
proof (induction xs arbitrary: T d)
  case (Cons x xs)
  have "indexes w (T - {x}) (dict_pop (key_of w x) d)" using indexes_remove Cons.prems by simp
  moreover have "set xs \<subseteq> T - {x}" using Cons.prems by auto
  ultimately have "indexes w (T - {x} - set xs) (fold (\<lambda>i d. dict_pop (key_of w i) d) xs (dict_pop (key_of w x) d))"
    using Cons.IH Cons.prems(3) by simp
  moreover have "T - {x} - set xs = T - set (x # xs)" by auto
  ultimately show ?case by simp
qed simp

lemma step_close_ok:
  assumes "worker_ok ws w"
  shows "worker_ok ws (close_worker w)"
proof -
  let ?w = "close_worker w"
  have f: "w_tickets ?w = w_tickets w" "w_threads ?w = w_threads w" "w_queue ?w = []" "w_closed ?w"
    "w_dropped ?w = w_dropped w @ w_queue w" "w_running ?w = w_running w" "w_failures ?w = w_failures w"
    "w_by_signal ?w = fold (\<lambda>i d. dict_pop (key_of w i) d) (w_queue w) (w_by_signal w)"
    by (simp_all add: close_worker_def)
  have pd: "pending w = mset (w_queue w) + pending ?w" and same: "recorded ?w = recorded w" "live ?w = live w"
    by (simp_all add: pending_def recorded_def live_def f)
  have once: "count (mset (w_queue w)) i = 1 \<and> count (pending ?w) i = 0" if "i \<in> set (w_queue w)" for i
  proof -
    have "i \<in># pending w" using that pd by simp
    then have "count (mset (w_queue w)) i + count (pending ?w) i = 1" using pending_once(2) [OF assms] pd by (metis count_union)
    moreover have "0 < count (mset (w_queue w)) i" using that by simp
    ultimately show ?thesis by linarith
  qed
  then have disj: "i \<notin># pending ?w" if "i \<in> set (w_queue w)" for i using that by (simp add: not_in_iff)
  have "distinct (w_queue w)" unfolding distinct_count_atmost_1 using once by (simp add: count_mset_0_iff)
  moreover have "set (w_queue w) \<subseteq> set_mset (pending w)" using pd by auto
  moreover have "indexes w (set_mset (pending w)) (w_by_signal w)" using assms by (simp add: worker_ok_def)
  ultimately have "indexes w (set_mset (pending w) - set (w_queue w)) (w_by_signal ?w)" unfolding f(8) by (intro indexes_drop)
  moreover have "set_mset (pending w) - set (w_queue w) = set_mset (pending ?w)" using pd disj by auto
  ultimately have ix: "indexes ?w (set_mset (pending ?w)) (w_by_signal ?w)" by (simp add: indexes_def f(1))
  have lx: "indexes ?w (set_mset (live ?w)) (w_running ?w)" using ok_live [OF assms] by (simp add: indexes_def same f)
  have cnt: "count (pending ?w + recorded ?w + mset (w_dropped ?w)) j \<le> of_bool (j < length (w_tickets w))" for j
    by (rule ok_places [OF assms]) (simp add: pd same f)
  have tok: "ticket_ok ?w j" if "j < length (w_tickets w)" for j
  proof -
    have "ticket_ok w j" using assms that by (simp add: worker_ok_def)
    moreover have "j \<in># pending w \<or> j \<in> set (w_dropped w) \<longleftrightarrow> j \<in># pending ?w \<or> j \<in> set (w_dropped ?w)" using pd f(5) by auto
    ultimately show ?thesis by (simp add: ticket_ok_def f(1) same Let_def)
  qed
  show ?thesis unfolding worker_ok_def using cnt tok ix lx assms by (simp add: f worker_ok_def)
qed

lemma step_submit_ok:
  assumes "worker_ok ws w" and "submit sha ws b recipe p w = (r, w')"
  shows "worker_ok ws w'"
proof (cases "w' = w")
  case True
  then show ?thesis using assms(1) by simp
next
  case False
  let ?n = "length (w_tickets w)" and ?key = "binding_key sha b"
  define t where "t = \<lparr> tk_signal_key = ?key, tk_recipe = recipe, tk_binding = b, tk_payload = p, tk_done = False, tk_result = None \<rparr>"
  have t: "tk_signal_key t = ?key" "tk_result t = None" "\<not> tk_done t" by (simp_all add: t_def)
  have w': "w' = w\<lparr> w_tickets := w_tickets w @ [t], w_queue := w_queue w @ [?n], w_by_signal := dict_set ?key ?n (w_by_signal w) \<rparr>"
    and g: "\<not> w_closed w" "dict_get (w_by_signal w) ?key = None" "length (w_queue w) < ws_max_pending ws"
    using assms(2) False unfolding submit_def Let_def t_def by (auto split: if_splits option.splits)
  have f: "w_tickets w' = w_tickets w @ [t]" "w_queue w' = w_queue w @ [?n]" "w_by_signal w' = dict_set ?key ?n (w_by_signal w)"
    "w_running w' = w_running w" "w_dropped w' = w_dropped w" "w_threads w' = w_threads w" "w_closed w' = w_closed w"
    "w_failures w' = w_failures w" by (simp_all add: w')
  have keys: "key_of w' j = (if j = ?n then ?key else key_of w j)" if "j \<le> ?n" for j using t(1) that by (simp add: f nth_append)
  have pd: "pending w' = add_mset ?n (pending w)" and same: "recorded w' = recorded w" "live w' = live w" "w_dropped w' = w_dropped w"
    by (simp_all add: pending_def recorded_def live_def f)
  have bound: "i < ?n" if "i \<in># pending w" for i using pending_once(1) [OF assms(1) that] .
  have ixw: "indexes w (set_mset (pending w)) (w_by_signal w)" using assms(1) by (simp add: worker_ok_def)
  have "key_of w' i = key_of w i" if "i \<in># pending w" for i using keys [of i] bound [OF that] by simp
  then have "indexes w' (set_mset (pending w)) (w_by_signal w)" using ixw by (auto simp: indexes_def)
  moreover have "?n \<notin># pending w" using bound [of ?n] by blast
  ultimately have "indexes w' (insert ?n (set_mset (pending w))) (dict_set (key_of w' ?n) ?n (w_by_signal w))"
    using g(2) keys [of ?n] by (intro indexes_insert) simp_all
  then have ix: "indexes w' (set_mset (pending w')) (w_by_signal w')" using keys [of ?n] by (simp add: pd f)
  have "key_of w' i = key_of w i" if "i \<in># live w" for i using keys [of i] bound [of i] live_pending that by fastforce
  then have lx: "indexes w' (set_mset (live w')) (w_running w')"
    using ok_live [OF assms(1)] unfolding same f indexes_def by auto
  have fresh: "count (pending w) ?n = 0 \<and> count (recorded w) ?n = 0 \<and> count (mset (w_dropped w)) ?n = 0"
    using ok_count [OF assms(1), of ?n] by (simp del: count_mset_0_iff)
  have cnt: "count (pending w' + recorded w' + mset (w_dropped w')) j \<le> of_bool (j < length (w_tickets w'))" for j
    using ok_count [OF assms(1), of j] fresh by (cases "j = ?n") (auto simp: pd same f less_Suc_eq)
  have tok: "ticket_ok w' j" if "j < length (w_tickets w')" for j
  proof (cases "j = ?n")
    case True
    then show ?thesis using t by (simp add: ticket_ok_def pd f)
  next
    case False
    then have j: "j < ?n" using that by (simp add: f)
    then have "ticket_ok w j" using assms(1) by (simp add: worker_ok_def)
    then show ?thesis using ticket_ok_other [OF False, of w' w] j pd same by (simp add: f nth_append)
  qed
  show ?thesis unfolding worker_ok_def using cnt tok ix lx assms(1) g by (simp add: f worker_ok_def)
qed

lemma thread_step_ok: "thread_step sha cd w w' \<Longrightarrow> worker_ok ws w \<Longrightarrow> worker_ok ws w'"
  by (erule thread_stepE)
    (simp_all add: step_take_ok step_start_ok step_reap_ok step_judge_ok step_publish_ok step_record_ok step_done_ok step_drop_ok)

lemma worker_step_ok: "worker_step sha cd ws w w' \<Longrightarrow> worker_ok ws w \<Longrightarrow> worker_ok ws w'"
  by (erule worker_stepE) (auto intro: thread_step_ok step_close_ok step_submit_ok)

lemma gather_waiting: "f Waiting = [] \<Longrightarrow> gather f (replicate n Waiting) = {#}"
  by (induction n) simp_all

lemma reached_ok: "reached sha cd ws dir w \<Longrightarrow> worker_ok ws w"
proof (induction rule: reached.induct)
  case reached_new
  have "list_all reason_ok (replicate (ws_max_active ws) Waiting)" by (simp add: list_all_iff)
  then show ?case
    by (auto simp: worker_ok_def new_worker_def pending_def recorded_def live_def gather_waiting indexes_def FAILURE_REASONS_def)
next
  case (reached_step w w')
  then show ?case using worker_step_ok by blast
qed

section \<open>Shutdown\<close>

text \<open>How much is left to do once the worker is closed.\<close>

fun phase_work :: "phase \<Rightarrow> nat" where
  "phase_work Exited = 0"
| "phase_work Waiting = 1"
| "phase_work (Recorded _) = 2"
| "phase_work (Finishing _ _) = 3"
| "phase_work (Publishing _ _ _ _ _ _) = 4"
| "phase_work (Reaped _ _ _) = 5"
| "phase_work (Running _ _) = 6"
| "phase_work (Dequeued _) = 7"

definition work_left :: "worker \<Rightarrow> nat" where
  "work_left w = sum_list (map phase_work (w_threads w)) + length (w_dropped w)"

lemma sum_list_update_less:
  fixes f :: "'a \<Rightarrow> nat"
  assumes "k < length xs" and "f y < f (xs ! k)"
  shows "sum_list (map f (xs[k := y])) < sum_list (map f xs)"
  using assms by (induction xs arbitrary: k) (auto split: nat.splits)

lemma goto_works:
  "k < length (w_threads w) \<Longrightarrow> phase_work ph < phase_work (w_threads w ! k) \<Longrightarrow> w_dropped w' = w_dropped w \<Longrightarrow>
   w_threads w' = (w_threads w)[k := ph] \<Longrightarrow> work_left w' < work_left w"
  using sum_list_update_less [of k "w_threads w" phase_work ph] by (simp add: work_left_def)

lemma goto_less: "k < length (w_threads w) \<Longrightarrow> phase_work ph < phase_work (w_threads w ! k) \<Longrightarrow> work_left (goto k ph w) < work_left w"
  by (rule goto_works) simp_all

lemma closed_step_works:
  assumes "thread_step sha cd w w'" and "w_closed w"
  shows "work_left w' < work_left w \<and> w_closed w' \<and> w_dir w' = w_dir w \<and> w_queue w' = w_queue w"
  using assms(1)
proof (cases rule: thread_step.cases)
  case (step_take k)
  then show ?thesis using assms(2) goto_works [of k w Exited] by (simp add: take_work_def)
next
  case (step_start k i ok started)
  then show ?thesis using assms(2) goto_less by (simp add: start_child_def Let_def)
next
  case (step_reap k i started ce)
  then show ?thesis using assms(2) goto_works [of k w "Reaped i started ce"] by (simp add: reap_def)
next
  case (step_judge k i started ce)
  have "phase_work (after_reap (w_tickets w ! i) i started ce) \<le> 4"
    by (auto simp: after_reap_def Let_def split: option.splits child_msg.splits)
  then show ?thesis using step_judge assms(2) goto_works [of k w "after_reap (w_tickets w ! i) i started ce"] by (simp add: judge_child_def)
next
  case (step_publish k i started finished data cpu rss w1 w2)
  then show ?thesis using assms(2) goto_less by (simp add: publish_def Let_def)
next
  case (step_record k i r)
  have "work_left (record_result k i r w) < work_left w"
    by (rule goto_works [of k _ "Recorded i"]) (use step_record in \<open>auto simp: record_result_def resolve_ticket_def Let_def split: option.splits\<close>)
  then show ?thesis using step_record assms(2) by (auto simp: record_result_def resolve_ticket_def Let_def split: option.splits)
next
  case (step_done k i)
  then show ?thesis using assms(2) goto_works [of k w Waiting "signal_done k i w"] by (simp add: signal_done_def set_done_def)
next
  case step_drop
  then show ?thesis using assms(2)
    by (cases "w_dropped w") (simp_all add: drop_ticket_def set_done_def resolve_ticket_def work_left_def)
qed

lemma closed_step:
  assumes "worker_step sha cd ws w w'" and "w_closed w" and "w_queue w = []"
  shows "w' = w \<or> thread_step sha cd w w'"
  using assms(1)
proof (cases rule: worker_step.cases)
  case (step_submit b recipe p r)
  then show ?thesis using assms(2) by (auto simp: submit_def Let_def split: if_splits)
next
  case step_close
  then show ?thesis using assms(2,3) by (simp add: close_worker_def)
qed simp

lemma closed_run:
  assumes "(worker_step sha cd ws)\<^sup>*\<^sup>* w w'" and "w_closed w" and "w_queue w = []"
  shows "w_closed w' \<and> w_queue w' = [] \<and> w_dir w' = w_dir w"
  using assms(1)
proof (induction rule: rtranclp_induct)
  case (step u v)
  then show ?case using closed_step [OF step.hyps(2)] closed_step_works [of sha cd u v] by auto
qed (simp add: assms)

lemma returned_stays:
  assumes "(worker_step sha cd ws)\<^sup>*\<^sup>* w w'" and "close_returns w" and "w_queue w = []"
  shows "w' = w"
  using assms(1)
proof (induction rule: rtranclp_induct)
  case (step u v)
  have "\<not> thread_step sha cd w v"
    using assms(2) by (auto simp: close_returns_def list_all_length elim!: thread_stepE)
  then show ?case using step closed_step [OF step.hyps(2)] assms(2,3) by (auto simp: close_returns_def)
qed simp

lemma thread_enabled:
  assumes "w_closed w" and "\<not> close_returns w"
  shows "\<exists>w'. thread_step sha cd w w'"
proof (cases "w_dropped w = []")
  case True
  then obtain k where k: "k < length (w_threads w)" "w_threads w ! k \<noteq> Exited"
    using assms by (auto simp: close_returns_def list_all_length)
  show ?thesis
  proof (cases "w_threads w ! k")
    case (Running i s)
    have "thread_step sha cd w (reap k i s \<lparr> ce_msg = None, ce_expired = False, ce_late = False, ce_exitcode = - 9, ce_finished = s \<rparr> w)"
      by (rule step_reap) (use k Running in simp_all)
    then show ?thesis ..
  qed (use k assms(1) in \<open>blast intro: thread_step.intros\<close>)+
qed (blast intro: step_drop)

lemma closed_drains:
  "w_closed w \<Longrightarrow> \<exists>w'. (thread_step sha cd)\<^sup>*\<^sup>* w w' \<and> close_returns w'"
proof (induction "work_left w" arbitrary: w rule: less_induct)
  case less
  show ?case
  proof (cases "close_returns w")
    case False
    then obtain u where u: "thread_step sha cd w u" using thread_enabled less.prems by blast
    then obtain w' where "(thread_step sha cd)\<^sup>*\<^sup>* u w'" "close_returns w'"
      using less.hyps [of u] closed_step_works [OF u less.prems] by blast
    then show ?thesis using u by (meson converse_rtranclp_into_rtranclp)
  qed blast
qed

lemma returned_all_done:
  assumes "worker_ok ws w" and "close_returns w"
  shows "w_running w = []" and "\<forall>t \<in> set (w_tickets w). tk_done t \<and> tk_result t \<noteq> None"
proof -
  have q: "w_queue w = []" and th: "\<forall>ph \<in> set (w_threads w). ph = Exited"
    using assms by (simp_all add: worker_ok_def close_returns_def list_all_iff)
  then have none: "pending w = {#}" "recorded w = {#}" "live w = {#}"
    by (auto simp: pending_def recorded_def live_def)
  have "dict_get (w_running w) key = None" for key
    using ok_live [OF assms(1)] none by (cases "dict_get (w_running w) key") (auto simp: indexes_def)
  then have "dict_get (w_running w) = Map.empty" by (rule ext)
  then show "w_running w = []" by simp
  have "ticket_ok w i" if "i < length (w_tickets w)" for i using assms(1) that by (simp add: worker_ok_def)
  then show "\<forall>t \<in> set (w_tickets w). tk_done t \<and> tk_result t \<noteq> None"
    using assms(2) none by (auto simp: in_set_conv_nth ticket_ok_def close_returns_def Let_def)
qed

lemma running_bounded:
  assumes "worker_ok ws w"
  shows "length (w_running w) \<le> ws_max_active ws"
proof -
  have d: "dict_wf (w_running w)" and g: "\<And>key i. dict_get (w_running w) key = Some i \<Longrightarrow> i \<in># live w \<and> key_of w i = key"
    using ok_live [OF assms] by (auto simp: indexes_def)
  have "length (w_running w) = card (fst ` set (w_running w))" using distinct_card [OF d] by simp
  also have "\<dots> \<le> card (key_of w ` set_mset (live w))"
  proof (rule card_mono)
    show "fst ` set (w_running w) \<subseteq> key_of w ` set_mset (live w)" using g d by (force simp: map_of_eq_Some_iff)
  qed simp
  also have "\<dots> \<le> card (set_mset (live w))" by (rule card_image_le) simp
  also have "\<dots> \<le> length (concat (map running_of (w_threads w)))" by (simp only: live_def set_mset_mset card_length)
  also have "\<dots> \<le> length (w_threads w)"
  proof -
    have "length (running_of ph) \<le> 1" for ph by (cases ph) simp_all
    then have "length (concat (map running_of phs)) \<le> length phs" for phs
      by (induction phs) (simp, metis add_mono concat.simps(2) length_Cons length_append list.simps(9) plus_1_eq_Suc)
    then show ?thesis .
  qed
  also have "\<dots> = ws_max_active ws" using assms by (simp add: worker_ok_def)
  finally show ?thesis .
qed

section \<open>A run for the witnesses\<close>

definition demo_ws :: worker_settings where "demo_ws = \<lparr> ws_max_pending = 1, ws_max_active = 1 \<rparr>"

definition demo_payload :: fit_payload where
  "demo_payload = \<lparr> fp_start = 0, fp_interval = 60, fp_cutoff = 60, fp_kernel = demo_kernel, fp_binding = demo_binding,
     fp_values = Some ''0'' \<rparr>"

definition demo_submitted :: worker where
  "demo_submitted = snd (submit demo_sha demo_ws demo_binding RECIPE_E1 demo_payload (new_worker demo_ws []))"

definition demo_running :: worker where
  "demo_running = start_child 0 0 True (Fin 0) (take_work 0 demo_submitted)"

lemma demo_submitted_fields:
  "length (w_tickets demo_submitted) = 1" "w_queue demo_submitted = [0]" "w_threads demo_submitted = [Waiting]"
  "\<not> w_closed demo_submitted" "w_dropped demo_submitted = []" "w_running demo_submitted = []"
  by (simp_all add: demo_submitted_def submit_def new_worker_def demo_payload_def demo_ws_def demo_binding_def FITS_def
      MAX_PAYLOAD_BYTES_def Let_def)

lemma demo_taken: "w_threads (take_work 0 demo_submitted) = [Dequeued 0]" "\<not> w_closed (take_work 0 demo_submitted)"
  by (simp_all add: take_work_def demo_submitted_fields)

lemma demo_reached: "reached demo_sha demo_codec demo_ws [] demo_submitted" "reached demo_sha demo_codec demo_ws [] demo_running"
proof -
  show s: "reached demo_sha demo_codec demo_ws [] demo_submitted"
    unfolding demo_submitted_def by (rule reached_step [OF reached_new]) (metis prod.collapse worker_step.step_submit)
  have "thread_step demo_sha demo_codec demo_submitted (take_work 0 demo_submitted)"
    by (rule step_take) (simp_all add: demo_submitted_fields)
  then have t: "reached demo_sha demo_codec demo_ws [] (take_work 0 demo_submitted)"
    using s by (blast intro: reached_step step_thread)
  have "thread_step demo_sha demo_codec (take_work 0 demo_submitted) demo_running"
    unfolding demo_running_def by (rule step_start) (simp_all add: demo_taken)
  then show "reached demo_sha demo_codec demo_ws [] demo_running" using t by (blast intro: reached_step step_thread)
qed

section \<open>Properties\<close>



text \<open>A closed worker publishes nothing, whatever is still in flight; and once \<open>close\<close> returns the worker never changes
  again, no fit process is alive and every ticket ever made is done and has its result.\<close>

theorem close_is_final:
  assumes "reached sha cd ws dir w" and "w_closed w" and "(worker_step sha cd ws)\<^sup>*\<^sup>* w w'"
  shows "w_closed w' \<and> w_dir w' = w_dir w \<and>
    (close_returns w \<longrightarrow> w' = w \<and> w_running w = [] \<and> w_queue w = [] \<and> (\<forall>t \<in> set (w_tickets w). tk_done t \<and> tk_result t \<noteq> None))"
proof -
  have ok: "worker_ok ws w" using assms(1) by (rule reached_ok)
  then have q: "w_queue w = []" using assms(2) by (simp add: worker_ok_def)
  show ?thesis using closed_run [OF assms(3,2) q] returned_stays [OF assms(3) _ q] returned_all_done [OF ok] q by blast
qed

theorem close_is_final_witness:
  "w_dir (drop_ticket (close_worker demo_submitted)) = w_dir (close_worker demo_submitted)"
proof -
  let ?w = "close_worker demo_submitted"
  have r: "reached demo_sha demo_codec demo_ws [] ?w" using demo_reached(1) by (blast intro: reached_step step_close)
  have c: "w_closed ?w" "w_dropped ?w \<noteq> []" by (simp_all add: close_worker_def demo_submitted_fields)
  then have "worker_step demo_sha demo_codec demo_ws ?w (drop_ticket ?w)" by (blast intro: step_thread step_drop)
  then show ?thesis using close_is_final [OF r c(1), of "drop_ticket ?w"] by blast
qed

text \<open>C30: shutdown ends: on a closed worker every step of a thread or of \<open>close\<close> leaves less to do and callers change nothing,
  some step is always possible until \<open>close\<close> returns, and so it does return.\<close>

theorem shutdown_completes:
  assumes "reached sha cd ws dir w" and "w_closed w"
  shows "(\<forall>w'. worker_step sha cd ws w w' \<longrightarrow> w' = w \<or> work_left w' < work_left w) \<and>
    (close_returns w \<or> (\<exists>w'. thread_step sha cd w w' \<and> work_left w' < work_left w)) \<and>
    (\<exists>w'. (thread_step sha cd)\<^sup>*\<^sup>* w w' \<and> close_returns w')"
proof -
  have q: "w_queue w = []" using reached_ok [OF assms(1)] assms(2) by (simp add: worker_ok_def)
  have "w' = w \<or> work_left w' < work_left w" if "worker_step sha cd ws w w'" for w'
    using closed_step [OF that assms(2) q] closed_step_works [of sha cd w w'] assms(2) by blast
  moreover have "close_returns w \<or> (\<exists>w'. thread_step sha cd w w' \<and> work_left w' < work_left w)"
    using thread_enabled [OF assms(2)] closed_step_works [OF _ assms(2)] by blast
  ultimately show ?thesis using closed_drains [OF assms(2)] by blast
qed

theorem shutdown_completes_witness:
  "\<exists>w'. (thread_step demo_sha demo_codec)\<^sup>*\<^sup>* (close_worker demo_running) w' \<and> close_returns w'"
proof -
  have "reached demo_sha demo_codec demo_ws [] (close_worker demo_running)"
    using demo_reached(2) by (blast intro: reached_step step_close)
  from shutdown_completes [OF this] show ?thesis by (simp add: close_worker_def)
qed

end
