(* ===== verification/Registry.thy ===== *)
theory Registry
  imports Identity "HOL-Library.Multiset"
begin

text \<open>
  \<^verbatim>\<open>api/registry.py\<close>: model records loaded from verified bytes, and the registry that pins them. A record is an index
  into the list of all records ever loaded. Each region the code runs under the registry's lock is one step; the call
  of the cleanup hook happens after the lock is released, so a record that a thread is about to clean up is in
  \<open>rg_disposing\<close> until that step. The files, the JSON decoder and the model loader are the environment; the two reads
  of \<open>load_record\<close> may see two states of the directory.
\<close>

section \<open>Records and their files\<close>

datatype registry_error =
    ModelIncompatible string
  | ModelUnreadable                    \<comment> \<open>an \<open>OSError\<close> of a read\<close>
  | LoaderRaised
  | AlreadyInstalled
  | MalformedKey

definition REQUIRED_META :: "string list" where
  "REQUIRED_META = [''namespace'', ''name'', ''metric'', ''metric_query_sha256'', ''contract'', ''pa_uid'', ''target_uid'',
     ''artifact_sha256'']"

definition key_match :: "string \<Rightarrow> bool" where
  "key_match s \<longleftrightarrow> length (chomp s) = 32 \<and> list_all hex_digit (chomp s)"

definition model_key :: "(string \<Rightarrow> string) \<Rightarrow> string \<Rightarrow> string \<Rightarrow> string \<Rightarrow> string" where
  "model_key sha ns name metric = take 32 (sha (ns @ ''/'' @ name @ ''/'' @ metric))"

text \<open>A path is a directory and a name in it.\<close>

definition artifact_paths :: "string \<Rightarrow> string \<Rightarrow> registry_error + (string \<times> string) \<times> (string \<times> string)" where
  "artifact_paths model_dir key =
     (if \<not> key_match key then Inl MalformedKey
      else Inr ((model_dir, ''lstm_'' @ key @ ''.pkl''), (model_dir, ''lstm_'' @ key @ ''.meta.json'')))"

record 'm model_record =
  mr_key :: string
  mr_namespace :: string
  mr_name :: string
  mr_metric :: string
  mr_model :: 'm
  mr_meta :: obj
  mr_artifact_sha256 :: string

definition incompatibility :: "'m model_record \<Rightarrow> resolved_signal \<Rightarrow> string option" where
  "incompatibility r sig =
     map_option fst (find (\<lambda>(_, have, want). \<not> json_eq have (JStr want))
       [(''namespace'', JStr (mr_namespace r), sig_namespace sig), (''name'', JStr (mr_name r), sig_name sig),
        (''metric'', JStr (mr_metric r), sig_metric sig),
        (''metric_query_sha256'', get_obj (JObj (mr_meta r)) ''metric_query_sha256'', sig_sha256 sig),
        (''contract'', get_obj (JObj (mr_meta r)) ''contract'', sig_contract sig),
        (''pa_uid'', get_obj (JObj (mr_meta r)) ''pa_uid'', sig_autoscaler_uid sig),
        (''target_uid'', get_obj (JObj (mr_meta r)) ''target_uid'', sig_target_uid sig)])"

datatype file_read = FileBytes string | FileMissing | FileError

record 'm model_env =
  me_artifact :: "string \<Rightarrow> file_read"
  me_sidecar :: "string \<Rightarrow> file_read"
  me_loads :: "string \<Rightarrow> json option"
  me_loader :: "string \<Rightarrow> 'm option"

text \<open>\<open>^lstm_([0-9a-f]{32})\.pkl$\<close>\<close>

definition artifact_key :: "string \<Rightarrow> string option" where
  "artifact_key name =
     (let s = chomp name; key = take 32 (drop 5 s) in
      if s = ''lstm_'' @ key @ ''.pkl'' \<and> length key = 32 \<and> list_all hex_digit key then Some key else None)"

definition read_sidecar :: "'m model_env \<Rightarrow> string \<Rightarrow> registry_error + obj" where
  "read_sidecar en key =
     (case me_sidecar en (''lstm_'' @ key @ ''.meta.json'') of
        FileMissing \<Rightarrow> Inl (ModelIncompatible ''no provenance sidecar'')
      | FileError \<Rightarrow> Inl ModelUnreadable
      | FileBytes raw \<Rightarrow>
          (case me_loads en raw of
             Some (JObj meta) \<Rightarrow> Inr meta
           | _ \<Rightarrow> Inl (ModelIncompatible ''unreadable provenance sidecar'')))"

definition check_meta :: "(string \<Rightarrow> string) \<Rightarrow> string \<Rightarrow> string \<Rightarrow> obj \<Rightarrow> registry_error + unit" where
  "check_meta sha key digest meta =
     (let field = (\<lambda>k. get_obj (JObj meta) k);
          ns = field ''namespace''; name = field ''name''; metric = field ''metric'' in
      if \<not> list_all (\<lambda>k. nonempty_str (field k)) REQUIRED_META then Inl (ModelIncompatible ''provenance lacks'')
      else if \<not> (valid_namespace ns \<and> valid_name name \<and> metric = JStr ''requests'') then Inl (ModelIncompatible ''malformed identity'')
      else if model_key sha (the_str ns) (the_str name) (the_str metric) \<noteq> key then Inl (ModelIncompatible ''file key'')
      else if field ''contract'' \<noteq> JStr SIGNAL_CONTRACT \<or> \<not> sha256_match (the_str (field ''metric_query_sha256''))
        then Inl (ModelIncompatible ''contract or query hash'')
      else if field ''artifact_sha256'' \<noteq> JStr digest then Inl (ModelIncompatible ''artifact digest'')
      else Inr ())"

definition load_record :: "(string \<Rightarrow> string) \<Rightarrow> 'm model_env \<Rightarrow> string \<Rightarrow> registry_error + 'm model_record" where
  "load_record sha en fname =
     (case artifact_key fname of
        None \<Rightarrow> Inl (ModelIncompatible ''artifact name'')
      | Some key \<Rightarrow>
          (case me_artifact en fname of
             FileBytes data \<Rightarrow>
               bind_res (read_sidecar en key) (\<lambda>meta.
               bind_res (check_meta sha key (sha data) meta) (\<lambda>_.
               case me_loader en data of
                 None \<Rightarrow> Inl LoaderRaised
               | Some m \<Rightarrow>
                   Inr \<lparr> mr_key = key, mr_namespace = the_str (get_obj (JObj meta) ''namespace''),
                         mr_name = the_str (get_obj (JObj meta) ''name''), mr_metric = the_str (get_obj (JObj meta) ''metric''),
                         mr_model = m, mr_meta = meta, mr_artifact_sha256 = sha data \<rparr>))
           | _ \<Rightarrow> Inl ModelUnreadable))"

section \<open>The registry\<close>

record life =
  lf_refs :: int
  lf_installed :: bool
  lf_retired :: bool

definition new_life :: life where "new_life = \<lparr> lf_refs = 0, lf_installed = False, lf_retired = False \<rparr>"

record 'm registry =
  rg_heap :: "('m model_record \<times> life) list"
  rg_records :: "(string \<times> nat) list"
  rg_pins :: "nat list"                \<comment> \<open>the records of the \<open>with pin(...)\<close> blocks being run\<close>
  rg_disposing :: "nat list"           \<comment> \<open>the lock is released, the cleanup hook not yet called\<close>
  rg_cleaned :: "nat list"             \<comment> \<open>the calls of the cleanup hook\<close>

definition new_registry :: "'m registry" where
  "new_registry = \<lparr> rg_heap = [], rg_records = [], rg_pins = [], rg_disposing = [], rg_cleaned = [] \<rparr>"

abbreviation life_of :: "'m registry \<Rightarrow> nat \<Rightarrow> life" where
  "life_of rg i \<equiv> snd (rg_heap rg ! i)"

abbreviation rec_of :: "'m registry \<Rightarrow> nat \<Rightarrow> 'm model_record" where
  "rec_of rg i \<equiv> fst (rg_heap rg ! i)"

definition set_life :: "nat \<Rightarrow> life \<Rightarrow> 'm registry \<Rightarrow> 'm registry" where
  "set_life i l rg = rg\<lparr> rg_heap := (rg_heap rg)[i := (rec_of rg i, l)] \<rparr>"

definition add_record :: "'m model_record \<Rightarrow> 'm registry \<Rightarrow> 'm registry" where
  "add_record r rg = rg\<lparr> rg_heap := rg_heap rg @ [(r, new_life)] \<rparr>"

definition retire_record :: "nat \<Rightarrow> 'm registry \<Rightarrow> 'm registry" where
  "retire_record i rg =
     (let rg' = set_life i ((life_of rg i)\<lparr> lf_retired := True \<rparr>) rg in
      if lf_refs (life_of rg i) = 0 then rg'\<lparr> rg_disposing := rg_disposing rg' @ [i] \<rparr> else rg')"

definition install :: "nat \<Rightarrow> 'm registry \<Rightarrow> (registry_error + unit) \<times> 'm registry" where
  "install i rg =
     (let l = life_of rg i; key = mr_key (rec_of rg i) in
      if lf_retired l \<or> lf_installed l then (Inl AlreadyInstalled, rg)
      else let old = dict_get (rg_records rg) key;
               rg' = set_life i (l\<lparr> lf_installed := True \<rparr>) (rg\<lparr> rg_records := dict_set key i (rg_records rg) \<rparr>)
           in (Inr (), case old of None \<Rightarrow> rg' | Some j \<Rightarrow> retire_record j rg'))"

definition remove_model :: "string \<Rightarrow> 'm registry \<Rightarrow> 'm registry" where
  "remove_model key rg =
     (let rg' = rg\<lparr> rg_records := dict_pop key (rg_records rg) \<rparr> in
      case dict_get (rg_records rg) key of None \<Rightarrow> rg' | Some j \<Rightarrow> retire_record j rg')"

text \<open>Entering and leaving a \<open>with pin(key)\<close> block.\<close>

definition pin :: "string \<Rightarrow> 'm registry \<Rightarrow> nat option \<times> 'm registry" where
  "pin key rg =
     (case dict_get (rg_records rg) key of
        None \<Rightarrow> (None, rg)
      | Some i \<Rightarrow>
          (Some i, set_life i ((life_of rg i)\<lparr> lf_refs := lf_refs (life_of rg i) + 1 \<rparr>) (rg\<lparr> rg_pins := i # rg_pins rg \<rparr>)))"

definition unpin :: "nat \<Rightarrow> 'm registry \<Rightarrow> 'm registry" where
  "unpin i rg =
     (let l = (life_of rg i)\<lparr> lf_refs := lf_refs (life_of rg i) - 1 \<rparr>;
          rg' = set_life i l (rg\<lparr> rg_pins := remove1 i (rg_pins rg) \<rparr>) in
      if lf_retired l \<and> lf_refs l = 0 then rg'\<lparr> rg_disposing := rg_disposing rg' @ [i] \<rparr> else rg')"

definition dispose :: "nat \<Rightarrow> 'm registry \<Rightarrow> 'm registry" where
  "dispose i rg = rg\<lparr> rg_disposing := remove1 i (rg_disposing rg), rg_cleaned := rg_cleaned rg @ [i] \<rparr>"

definition contains_model :: "string \<Rightarrow> 'm registry \<Rightarrow> bool" where
  "contains_model key rg \<longleftrightarrow> dict_get (rg_records rg) key \<noteq> None"

definition snapshot_entry :: "('m \<Rightarrow> json) \<Rightarrow> 'm model_record \<Rightarrow> obj" where
  "snapshot_entry scaler_range r =
     [(''key'', JStr (mr_key r)), (''namespace'', JStr (mr_namespace r)), (''name'', JStr (mr_name r)),
      (''metric'', JStr (mr_metric r)), (''artifact_sha256'', JStr (mr_artifact_sha256 r)),
      (''metric_query_sha256'', get_obj (JObj (mr_meta r)) ''metric_query_sha256''),
      (''trained_at'', get_obj (JObj (mr_meta r)) ''trained_at''), (''provenance'', JObj (mr_meta r)),
      (''scaler_range'', scaler_range (mr_model r))]"

definition snapshot :: "('m \<Rightarrow> json) \<Rightarrow> 'm registry \<Rightarrow> obj list" where
  "snapshot scaler_range rg = map (\<lambda>(_, i). snapshot_entry scaler_range (rec_of rg i)) (rg_records rg)"

inductive registry_step :: "(string \<Rightarrow> string) \<Rightarrow> 'm registry \<Rightarrow> 'm registry \<Rightarrow> bool" for sha where
  step_load: "load_record sha en fname = Inr r \<Longrightarrow> registry_step sha rg (add_record r rg)"
| step_install: "i < length (rg_heap rg) \<Longrightarrow> install i rg = (res, rg') \<Longrightarrow> registry_step sha rg rg'"
| step_remove: "registry_step sha rg (remove_model key rg)"
| step_pin: "pin key rg = (res, rg') \<Longrightarrow> registry_step sha rg rg'"
| step_unpin: "i \<in> set (rg_pins rg) \<Longrightarrow> registry_step sha rg (unpin i rg)"
| step_dispose: "i \<in> set (rg_disposing rg) \<Longrightarrow> registry_step sha rg (dispose i rg)"

inductive registry_reached :: "(string \<Rightarrow> string) \<Rightarrow> 'm registry \<Rightarrow> bool" for sha where
  reached_new: "registry_reached sha new_registry"
| reached_step: "registry_reached sha rg \<Longrightarrow> registry_step sha rg rg' \<Longrightarrow> registry_reached sha rg'"

section \<open>The invariant\<close>

text \<open>What holds of one record: its reference count is the number of blocks that hold it, it is current exactly while
  installed and not retired, and it is on its way to the hook, or was there, once, exactly when retired and not held.\<close>

definition record_ok :: "'m registry \<Rightarrow> nat \<Rightarrow> bool" where
  "record_ok rg i \<longleftrightarrow>
     (let l = life_of rg i in
      lf_refs l = int (count (mset (rg_pins rg)) i) \<and>
      (dict_get (rg_records rg) (mr_key (rec_of rg i)) = Some i \<longleftrightarrow> lf_installed l \<and> \<not> lf_retired l) \<and>
      (lf_retired l \<or> i \<in> set (rg_pins rg) \<longrightarrow> lf_installed l) \<and>
      count (mset (rg_disposing rg @ rg_cleaned rg)) i = of_bool (lf_retired l \<and> i \<notin> set (rg_pins rg)))"

definition registry_ok :: "'m registry \<Rightarrow> bool" where
  "registry_ok rg \<longleftrightarrow>
     dict_wf (rg_records rg) \<and>
     (\<forall>key i. dict_get (rg_records rg) key = Some i \<longrightarrow> i < length (rg_heap rg) \<and> mr_key (rec_of rg i) = key) \<and>
     set (rg_pins rg @ rg_disposing rg @ rg_cleaned rg) \<subseteq> {..<length (rg_heap rg)} \<and>
     (\<forall>i < length (rg_heap rg). record_ok rg i)"

lemma set_life_simps [simp]:
  "rg_records (set_life i l rg) = rg_records rg" "rg_pins (set_life i l rg) = rg_pins rg"
  "rg_disposing (set_life i l rg) = rg_disposing rg" "rg_cleaned (set_life i l rg) = rg_cleaned rg"
  "length (rg_heap (set_life i l rg)) = length (rg_heap rg)" "rec_of (set_life i l rg) j = rec_of rg j"
  by (auto simp: set_life_def nth_list_update) (cases "i < length (rg_heap rg)"; simp add: nth_list_update list_update_beyond)

lemma set_life_of: "i < length (rg_heap rg) \<Longrightarrow> life_of (set_life i l rg) j = (if j = i then l else life_of rg j)"
  by (simp add: set_life_def nth_list_update)

lemma retire_simps [simp]:
  "rg_records (retire_record i rg) = rg_records rg" "rg_pins (retire_record i rg) = rg_pins rg"
  "rg_cleaned (retire_record i rg) = rg_cleaned rg" "length (rg_heap (retire_record i rg)) = length (rg_heap rg)"
  "rec_of (retire_record i rg) j = rec_of rg j"
  "rg_disposing (retire_record i rg) = rg_disposing rg @ (if lf_refs (life_of rg i) = 0 then [i] else [])"
  by (simp_all add: retire_record_def Let_def)

lemma retire_life:
  "i < length (rg_heap rg) \<Longrightarrow>
   life_of (retire_record i rg) j = (if j = i then (life_of rg i)\<lparr> lf_retired := True \<rparr> else life_of rg j)"
  by (simp add: retire_record_def Let_def set_life_def nth_list_update)

text \<open>Retiring the record that has just left the dictionary.\<close>

definition leaving :: "'m registry \<Rightarrow> nat \<Rightarrow> bool" where
  "leaving rg j \<longleftrightarrow>
     j < length (rg_heap rg) \<and> lf_refs (life_of rg j) = int (count (mset (rg_pins rg)) j) \<and> lf_installed (life_of rg j) \<and>
     dict_get (rg_records rg) (mr_key (rec_of rg j)) \<noteq> Some j \<and> j \<notin> set (rg_disposing rg @ rg_cleaned rg)"

lemma retire_ok:
  assumes "dict_wf (rg_records rg)"
    and "\<And>key i. dict_get (rg_records rg) key = Some i \<Longrightarrow> i < length (rg_heap rg) \<and> mr_key (rec_of rg i) = key"
    and "set (rg_pins rg @ rg_disposing rg @ rg_cleaned rg) \<subseteq> {..<length (rg_heap rg)}"
    and "\<And>i. i < length (rg_heap rg) \<Longrightarrow> i \<noteq> j \<Longrightarrow> record_ok rg i"
    and "leaving rg j"
  shows "registry_ok (retire_record j rg)"
proof -
  have j: "j < length (rg_heap rg)" and r: "lf_refs (life_of rg j) = int (count (mset (rg_pins rg)) j)" using assms(5) by (simp_all add: leaving_def)
  have "record_ok (retire_record j rg) i" if "i < length (rg_heap rg)" for i
  proof (cases "i = j")
    case True
    have "lf_refs (life_of rg j) = 0 \<longleftrightarrow> j \<notin> set (rg_pins rg)" unfolding r by simp
    moreover have "count (mset (rg_disposing rg)) j = 0" "count (mset (rg_cleaned rg)) j = 0" using assms(5) by (simp_all add: leaving_def)
    ultimately show ?thesis using assms(5) by (simp add: True record_ok_def leaving_def retire_life [OF j])
  next
    case False
    then show ?thesis using assms(4) [OF that] by (simp add: record_ok_def retire_life [OF j])
  qed
  then show ?thesis using assms(1-3) j unfolding registry_ok_def by auto
qed

lemma registry_okD:
  assumes "registry_ok rg"
  shows "dict_wf (rg_records rg)"
    and "\<And>key i. dict_get (rg_records rg) key = Some i \<Longrightarrow> i < length (rg_heap rg) \<and> mr_key (rec_of rg i) = key"
    and "set (rg_pins rg @ rg_disposing rg @ rg_cleaned rg) \<subseteq> {..<length (rg_heap rg)}"
    and "\<And>i. i < length (rg_heap rg) \<Longrightarrow> record_ok rg i"
  using assms by (simp_all add: registry_ok_def)

lemma current_record:
  assumes "registry_ok rg" and "dict_get (rg_records rg) key = Some j"
  shows "lf_installed (life_of rg j)" "\<not> lf_retired (life_of rg j)" "j < length (rg_heap rg)" "mr_key (rec_of rg j) = key"
    "lf_refs (life_of rg j) = int (count (mset (rg_pins rg)) j)" "j \<notin> set (rg_disposing rg @ rg_cleaned rg)"
proof -
  show j: "j < length (rg_heap rg)" "mr_key (rec_of rg j) = key" using registry_okD(2) [OF assms] by auto
  have ok: "record_ok rg j" using registry_okD(4) [OF assms(1)] j by blast
  then have both: "lf_installed (life_of rg j) \<and> \<not> lf_retired (life_of rg j)"
    unfolding record_ok_def Let_def j(2) using assms(2) by blast
  then show l: "lf_installed (life_of rg j)" "\<not> lf_retired (life_of rg j)" by blast+
  show "lf_refs (life_of rg j) = int (count (mset (rg_pins rg)) j)" using ok unfolding record_ok_def Let_def by blast
  have "count (mset (rg_disposing rg @ rg_cleaned rg)) j = 0" using ok l by (simp add: record_ok_def Let_def)
  then show "j \<notin> set (rg_disposing rg @ rg_cleaned rg)" by (metis count_mset_0_iff)
qed

lemma add_record_ok:
  assumes "registry_ok rg"
  shows "registry_ok (add_record r rg)"
proof -
  let ?n = "length (rg_heap rg)"
  note ok = registry_okD [OF assms]
  have dom: "dict_get (rg_records rg) key \<noteq> Some ?n" for key using ok(2) by blast
  have out: "?n \<notin> set (rg_pins rg)" "?n \<notin> set (rg_disposing rg)" "?n \<notin> set (rg_cleaned rg)" using ok(3) by auto
  have "record_ok (add_record r rg) i" if "i < Suc ?n" for i
  proof (cases "i = ?n")
    case True
    then show ?thesis using dom out by (simp add: record_ok_def add_record_def new_life_def)
  next
    case False
    then have "i < ?n" using that by simp
    then show ?thesis using ok(4) [of i] by (simp add: record_ok_def add_record_def nth_append)
  qed
  moreover have "\<And>key i. dict_get (rg_records rg) key = Some i \<Longrightarrow> i < Suc ?n \<and> mr_key (rec_of (add_record r rg) i) = key"
    using ok(2) by (auto simp: add_record_def nth_append less_SucI)
  ultimately show ?thesis using ok(1,3) unfolding registry_ok_def by (auto simp: add_record_def less_Suc_eq)
qed

lemma remove_ok:
  assumes "registry_ok rg"
  shows "registry_ok (remove_model key rg)"
proof -
  note ok = registry_okD [OF assms]
  let ?rg = "rg\<lparr> rg_records := dict_pop key (rg_records rg) \<rparr>"
  have other: "record_ok ?rg i" if "i < length (rg_heap rg)" "mr_key (rec_of rg i) = key \<longrightarrow> dict_get (rg_records rg) key \<noteq> Some i" for i
    using ok(4) [OF that(1)] that(2) by (auto simp: record_ok_def Let_def dict_get_pop)
  show ?thesis
  proof (cases "dict_get (rg_records rg) key")
    case None
    then show ?thesis using ok(1-3) other by (auto simp: remove_model_def registry_ok_def dict_wf_pop dict_get_pop)
  next
    case (Some j)
    note cur = current_record [OF assms Some]
    have "registry_ok (retire_record j ?rg)"
    proof (rule retire_ok)
      show "leaving ?rg j" using cur by (simp add: leaving_def dict_get_pop)
      show "\<And>i. i < length (rg_heap ?rg) \<Longrightarrow> i \<noteq> j \<Longrightarrow> record_ok ?rg i" using other Some by simp
      show "\<And>key' i. dict_get (rg_records ?rg) key' = Some i \<Longrightarrow> i < length (rg_heap ?rg) \<and> mr_key (rec_of ?rg i) = key'"
        using ok(2) by (auto simp: dict_get_pop split: if_splits)
    qed (use ok in \<open>simp_all add: dict_wf_pop\<close>)
    then show ?thesis by (simp add: remove_model_def Some)
  qed
qed

lemma pin_ok:
  assumes "registry_ok rg" and "pin key rg = (res, rg')"
  shows "registry_ok rg'"
proof (cases "dict_get (rg_records rg) key")
  case None
  then show ?thesis using assms by (simp add: pin_def)
next
  case (Some j)
  note ok = registry_okD [OF assms(1)] and cur = current_record [OF assms(1) Some]
  let ?rg = "rg\<lparr> rg_pins := j # rg_pins rg \<rparr>"
  have rg': "rg' = set_life j ((life_of rg j)\<lparr> lf_refs := lf_refs (life_of rg j) + 1 \<rparr>) ?rg"
    using assms(2) Some by (simp add: pin_def)
  have "record_ok rg' i" if "i < length (rg_heap rg)" for i
    using ok(4) [OF that] cur that by (cases "i = j") (simp_all add: rg' record_ok_def Let_def set_life_of)
  then show ?thesis using ok(1-3) cur unfolding registry_ok_def rg' by simp
qed

lemma unpin_ok:
  assumes "registry_ok rg" and "j \<in> set (rg_pins rg)"
  shows "registry_ok (unpin j rg)"
proof -
  note ok = registry_okD [OF assms(1)]
  have j: "j < length (rg_heap rg)" using ok(3) assms(2) by auto
  let ?l = "(life_of rg j)\<lparr> lf_refs := lf_refs (life_of rg j) - 1 \<rparr>"
  let ?rg = "set_life j ?l (rg\<lparr> rg_pins := remove1 j (rg_pins rg) \<rparr>)"
  have okj: "record_ok rg j" using ok(4) [OF j] .
  have c: "count (mset (rg_pins rg)) j = Suc (count (mset (remove1 j (rg_pins rg))) j)" using assms(2) by (simp add: count_mset_0_iff)
  have refs: "lf_refs (life_of rg j) - 1 = int (count (mset (remove1 j (rg_pins rg))) j)" using okj unfolding record_ok_def Let_def c by simp
  have zero: "lf_refs (life_of rg j) - 1 = 0 \<longleftrightarrow> j \<notin> set (remove1 j (rg_pins rg))"
    unfolding refs int_eq_iff_numeral by (metis count_mset_0_iff of_nat_eq_0_iff)
  have fields: "rg_records (unpin j rg) = rg_records rg" "rg_pins (unpin j rg) = remove1 j (rg_pins rg)" "rg_cleaned (unpin j rg) = rg_cleaned rg"
    "rg_disposing (unpin j rg) = rg_disposing rg @ (if lf_retired (life_of rg j) \<and> lf_refs (life_of rg j) - 1 = 0 then [j] else [])"
    "length (rg_heap (unpin j rg)) = length (rg_heap rg)" "rec_of (unpin j rg) i = rec_of rg i"
    "life_of (unpin j rg) i = (if i = j then ?l else life_of rg i)" for i
    using j by (simp_all add: unpin_def Let_def set_life_def nth_list_update)
  have "record_ok (unpin j rg) i" if "i < length (rg_heap rg)" for i
  proof (cases "i = j")
    case True
    let ?ds = "rg_disposing rg @ rg_cleaned rg"
    have old: "dict_get (rg_records rg) (mr_key (rec_of rg j)) = Some j \<longleftrightarrow> lf_installed (life_of rg j) \<and> \<not> lf_retired (life_of rg j)"
      "lf_installed (life_of rg j)" "count (mset ?ds) j = 0"
      using okj assms(2) unfolding record_ok_def Let_def by simp_all
    have "count (mset (rg_disposing (unpin j rg) @ rg_cleaned (unpin j rg))) j =
        of_bool (lf_retired (life_of rg j) \<and> j \<notin> set (remove1 j (rg_pins rg)))"
      using old(3) unfolding fields zero by (simp add: count_mset_0_iff)
    then show ?thesis using old(1,2) refs unfolding True record_ok_def Let_def fields by simp
  next
    case False
    then show ?thesis using ok(4) [OF that] by (simp add: record_ok_def Let_def fields in_set_remove1)
  qed
  then show ?thesis using ok(1-3) j unfolding registry_ok_def fields by (auto dest: set_remove1_subset [THEN subsetD])
qed

lemma dispose_ok:
  assumes "registry_ok rg" and "j \<in> set (rg_disposing rg)"
  shows "registry_ok (dispose j rg)"
proof -
  note ok = registry_okD [OF assms(1)]
  have m: "mset (rg_disposing (dispose j rg) @ rg_cleaned (dispose j rg)) = mset (rg_disposing rg @ rg_cleaned rg)"
    using assms(2) by (simp add: dispose_def)
  have f: "rg_records (dispose j rg) = rg_records rg" "rg_pins (dispose j rg) = rg_pins rg" "rg_heap (dispose j rg) = rg_heap rg"
    by (simp_all add: dispose_def)
  have "set (rg_disposing (dispose j rg) @ rg_cleaned (dispose j rg)) = set (rg_disposing rg @ rg_cleaned rg)" using m by (metis set_mset_mset)
  then have "set (rg_pins rg @ rg_disposing (dispose j rg) @ rg_cleaned (dispose j rg)) \<subseteq> {..<length (rg_heap rg)}" using ok(3) by simp
  moreover have "record_ok (dispose j rg) i" if "i < length (rg_heap rg)" for i
    using ok(4) [OF that] unfolding record_ok_def f m .
  ultimately show ?thesis using ok(1,2) unfolding registry_ok_def f by blast
qed

lemma install_ok:
  assumes "registry_ok rg" and "i < length (rg_heap rg)" and "install i rg = (res, rg')"
  shows "registry_ok rg'"
proof (cases "lf_retired (life_of rg i) \<or> lf_installed (life_of rg i)")
  case True
  then show ?thesis using assms by (simp add: install_def Let_def)
next
  case False
  note ok = registry_okD [OF assms(1)]
  let ?key = "mr_key (rec_of rg i)" and ?l = "(life_of rg i)\<lparr> lf_installed := True \<rparr>"
  define rg1 where "rg1 = set_life i ?l (rg\<lparr> rg_records := dict_set ?key i (rg_records rg) \<rparr>)"
  have rg': "rg' = (case dict_get (rg_records rg) ?key of None \<Rightarrow> rg1 | Some j \<Rightarrow> retire_record j rg1)"
    using assms(3) False unfolding install_def Let_def rg1_def by auto
  have life: "life_of rg1 k = (if k = i then ?l else life_of rg k)" for k using assms(2) by (simp add: rg1_def set_life_of)
  have f: "rg_records rg1 = dict_set ?key i (rg_records rg)" "rg_pins rg1 = rg_pins rg" "rg_disposing rg1 = rg_disposing rg"
    "rg_cleaned rg1 = rg_cleaned rg" "length (rg_heap rg1) = length (rg_heap rg)" "rec_of rg1 k = rec_of rg k" for k
    by (simp_all add: rg1_def)
  have oki: "record_ok rg1 i" using ok(4) [OF assms(2)] False by (auto simp: record_ok_def Let_def f life dict_get_set)
  have other: "record_ok rg1 k" if "k < length (rg_heap rg)" "k \<noteq> i" "dict_get (rg_records rg) ?key \<noteq> Some k" for k
    using ok(4) [OF that(1)] that(2,3) by (auto simp: record_ok_def Let_def f life dict_get_set)
  have keys: "k < length (rg_heap rg1) \<and> mr_key (rec_of rg1 k) = key" if "dict_get (rg_records rg1) key = Some k" for key k
    using that ok(2) assms(2) by (auto simp: f dict_get_set split: if_splits)
  have base: "dict_wf (rg_records rg1)" "set (rg_pins rg1 @ rg_disposing rg1 @ rg_cleaned rg1) \<subseteq> {..<length (rg_heap rg1)}"
    using ok(1,3) by (simp_all add: f dict_wf_set)
  show ?thesis
  proof (cases "dict_get (rg_records rg) ?key")
    case None
    then have "record_ok rg1 k" if "k < length (rg_heap rg1)" for k using oki other that by (cases "k = i") (simp_all add: f)
    then show ?thesis using base keys by (simp add: rg' None registry_ok_def)
  next
    case (Some j)
    note cur = current_record [OF assms(1) Some]
    have ij: "j \<noteq> i" using cur False by auto
    then have "leaving rg1 j" using cur by (simp add: leaving_def f life dict_get_set)
    then have "registry_ok (retire_record j rg1)" using base keys oki other Some by (intro retire_ok) (auto simp: f)
    then show ?thesis by (simp add: rg' Some)
  qed
qed

inductive_cases registry_stepE: "registry_step sha rg rg'"

lemma registry_reached_ok: "registry_reached sha rg \<Longrightarrow> registry_ok rg"
proof (induction rule: registry_reached.induct)
  case reached_new
  then show ?case by (simp add: registry_ok_def new_registry_def)
next
  case (reached_step rg rg')
  from reached_step.hyps(2) reached_step.IH show ?case
    by (elim registry_stepE) (auto intro: add_record_ok install_ok remove_ok pin_ok unpin_ok dispose_ok)
qed

section \<open>Loading\<close>

lemma load_record_Inr:
  assumes "load_record sha en fname = Inr r"
  obtains key data where "artifact_key fname = Some key" "me_artifact en fname = FileBytes data"
    "check_meta sha key (sha data) (mr_meta r) = Inr ()" "me_loader en data = Some (mr_model r)" "mr_key r = key"
    "mr_artifact_sha256 r = sha data" "mr_namespace r = the_str (get_obj (JObj (mr_meta r)) ''namespace'')"
    "mr_name r = the_str (get_obj (JObj (mr_meta r)) ''name'')" "mr_metric r = the_str (get_obj (JObj (mr_meta r)) ''metric'')"
  using assms unfolding load_record_def
  by (auto simp: bind_res_Inr_iff split: option.splits file_read.splits)

lemma incompatibility_None:
  "incompatibility r sig = None \<longleftrightarrow>
     mr_namespace r = sig_namespace sig \<and> mr_name r = sig_name sig \<and> mr_metric r = sig_metric sig \<and>
     get_obj (JObj (mr_meta r)) ''metric_query_sha256'' = JStr (sig_sha256 sig) \<and>
     get_obj (JObj (mr_meta r)) ''contract'' = JStr (sig_contract sig) \<and>
     get_obj (JObj (mr_meta r)) ''pa_uid'' = JStr (sig_autoscaler_uid sig) \<and>
     get_obj (JObj (mr_meta r)) ''target_uid'' = JStr (sig_target_uid sig)"
  by (auto simp: incompatibility_def find_None_iff json_eq_str_iff split: if_splits)

section \<open>An example\<close>

definition demo_meta :: obj where
  "demo_meta = [(''namespace'', JStr ''shop''), (''name'', JStr ''web''), (''metric'', JStr ''requests''),
     (''metric_query_sha256'', JStr (demo_sha ''q'')), (''contract'', JStr SIGNAL_CONTRACT), (''pa_uid'', JStr ''u1''),
     (''target_uid'', JStr ''t1''), (''artifact_sha256'', JStr (demo_sha []))]"

definition demo_model_env :: "unit model_env" where
  "demo_model_env = \<lparr> me_artifact = (\<lambda>_. FileBytes ''m''), me_sidecar = (\<lambda>_. FileBytes ''s''), me_loads = (\<lambda>_. Some (JObj demo_meta)),
     me_loader = (\<lambda>_. Some ()) \<rparr>"

definition demo_model_file :: string where
  "demo_model_file = ''lstm_'' @ take 32 (demo_sha []) @ ''.pkl''"

definition demo_record :: "unit model_record" where
  "demo_record = \<lparr> mr_key = take 32 (demo_sha []), mr_namespace = ''shop'', mr_name = ''web'', mr_metric = ''requests'', mr_model = (),
     mr_meta = demo_meta, mr_artifact_sha256 = demo_sha ''m'' \<rparr>"

lemma demo_loads: "load_record demo_sha demo_model_env demo_model_file = Inr demo_record"
proof -
  have hash: "demo_sha x = replicate 64 CHR ''a''" for x by (simp add: demo_sha_def)
  have "artifact_key demo_model_file = Some (take 32 (demo_sha []))"
    by (simp add: artifact_key_def demo_model_file_def hash chomp_def Let_def hex_digit_def numeral_eq_Suc)
  moreover have "check_meta demo_sha (take 32 (demo_sha [])) (demo_sha ''m'') demo_meta = Inr ()"
    using demo_sha_ok
    by (simp add: check_meta_def demo_meta_def REQUIRED_META_def get_obj.simps nonempty_str_def demo_names
        model_key_def hash SIGNAL_CONTRACT_def Let_def)
  ultimately show ?thesis
    by (simp add: load_record_def read_sidecar_def demo_model_env_def demo_record_def demo_meta_def get_obj.simps)
qed

section \<open>Properties\<close>



text \<open>C32: in every interleaving of loads, installs, removals and pinned requests a record is cleaned up at most once, never
  while a request holds it or while it can still be pinned, and a retired record nobody holds has been or is being
  cleaned up.\<close>

theorem cleanup_once_and_never_in_use:
  assumes "registry_reached sha rg" and "i < length (rg_heap rg)"
  shows "count (mset (rg_cleaned rg)) i \<le> 1 \<and>
    (i \<in> set (rg_cleaned rg) \<longrightarrow> i \<notin> set (rg_pins rg) \<and> i \<notin> set (rg_disposing rg) \<and> (\<forall>key. fst (pin key rg) \<noteq> Some i)) \<and>
    (lf_retired (life_of rg i) \<and> i \<notin> set (rg_pins rg) \<longrightarrow> i \<in> set (rg_disposing rg) \<union> set (rg_cleaned rg)) \<and>
    lf_refs (life_of rg i) = int (count (mset (rg_pins rg)) i)"
proof -
  have ok: "registry_ok rg" using assms(1) by (rule registry_reached_ok)
  let ?c = "\<lambda>xs. count (mset xs) i"
  have r: "record_ok rg i" using registry_okD(4) [OF ok assms(2)] .
  then have sum: "?c (rg_disposing rg) + ?c (rg_cleaned rg) = of_bool (lf_retired (life_of rg i) \<and> i \<notin> set (rg_pins rg))"
    and refs: "lf_refs (life_of rg i) = int (?c (rg_pins rg))"
    unfolding record_ok_def Let_def by simp_all
  have pos: "x \<in> set xs \<longleftrightarrow> 0 < count (mset xs) x" for x and xs :: "nat list" by simp
  have once: "?c (rg_cleaned rg) \<le> 1" using sum by (cases "lf_retired (life_of rg i) \<and> i \<notin> set (rg_pins rg)") (simp_all del: count_mset_0_iff)
  have used: "i \<notin> set (rg_pins rg) \<and> i \<notin> set (rg_disposing rg)" if "i \<in> set (rg_cleaned rg)"
  proof -
    have c: "0 < ?c (rg_cleaned rg)" using that by simp
    have "lf_retired (life_of rg i) \<and> i \<notin> set (rg_pins rg)"
    proof (rule ccontr)
      assume "\<not> ?thesis"
      then have "?c (rg_disposing rg) + ?c (rg_cleaned rg) = 0" unfolding sum by (rule of_bool_eq_0_iff [THEN iffD2])
      then show False using c by linarith
    qed
    moreover from this have "?c (rg_disposing rg) + ?c (rg_cleaned rg) = 1" using sum by simp
    then have "?c (rg_disposing rg) = 0" using c by linarith
    ultimately show ?thesis by simp
  qed
  have unpinnable: "fst (pin key rg) \<noteq> Some i" if "i \<in> set (rg_cleaned rg)" for key
    using that current_record(6) [OF ok, of key] by (auto simp: pin_def split: option.splits)
  have leak: "i \<in> set (rg_disposing rg) \<union> set (rg_cleaned rg)" if "lf_retired (life_of rg i) \<and> i \<notin> set (rg_pins rg)"
  proof (rule ccontr)
    assume "i \<notin> set (rg_disposing rg) \<union> set (rg_cleaned rg)"
    then have "?c (rg_disposing rg) = 0" "?c (rg_cleaned rg) = 0" by simp_all
    with sum have "of_bool (lf_retired (life_of rg i) \<and> i \<notin> set (rg_pins rg)) = (0::nat)" by linarith
    then show False using that by simp
  qed
  show ?thesis using once used unpinnable leak refs by blast
qed

theorem cleanup_once_and_never_in_use_witness:
  "\<exists>rg :: unit registry. registry_reached demo_sha rg \<and> 0 < length (rg_heap rg) \<and> lf_retired (life_of rg 0) \<and>
     0 \<in> set (rg_disposing rg) \<union> set (rg_cleaned rg)"
proof -
  let ?a = "add_record demo_record new_registry" and ?k = "mr_key demo_record"
  let ?b = "snd (install 0 ?a)"
  let ?c = "remove_model ?k ?b"
  have a: "registry_reached demo_sha ?a" using reached_new step_load [OF demo_loads] by (blast intro: reached_step)
  have "0 < length (rg_heap ?a)" by (simp add: add_record_def)
  then have b: "registry_reached demo_sha ?b" using a by (metis prod.collapse registry_reached.reached_step step_install)
  then have c: "registry_reached demo_sha ?c" by (blast intro: reached_step step_remove)
  have f: "0 < length (rg_heap ?c) \<and> lf_retired (life_of ?c 0) \<and> rg_pins ?c = []"
    by (simp add: remove_model_def install_def add_record_def new_registry_def new_life_def Let_def retire_record_def set_life_def)
  then show ?thesis using cleanup_once_and_never_in_use [OF c, of 0] c by auto
qed

end
