(* ===== verification/Admission.thy ===== *)
theory Admission
  imports Py_Prelude
begin

text \<open>
  \<^verbatim>\<open>api/admission.py\<close>: a bounded semaphore in front of a thread pool. The steps are those that other threads can come
  between: taking a slot, submitting the work, the pool starting it, its end, a cancellation and the shutdown of the
  pool. \<open>ad_claimed\<close> counts the requests that hold a slot and have not submitted yet. A future that is cancelled before
  it starts is done and runs its callback; cancelling a running one has no effect.
\<close>

datatype job_state = Queued | Started

record admission =
  ad_slots :: nat
  ad_free :: nat                       \<comment> \<open>the value of the semaphore\<close>
  ad_claimed :: nat
  ad_jobs :: "job_state list"          \<comment> \<open>submitted futures that are not done\<close>
  ad_shut :: bool

datatype admission_error = TooFewSlots | Busy | PoolShutDown | ReleasedTooOften

definition new_admission :: "int \<Rightarrow> admission_error + admission" where
  "new_admission slots =
     (if slots < 1 then Inl TooFewSlots
      else Inr \<lparr> ad_slots = nat slots, ad_free = nat slots, ad_claimed = 0, ad_jobs = [], ad_shut = False \<rparr>)"

text \<open>\<open>BoundedSemaphore\<close>: a release above the initial value raises \<open>ValueError\<close>.\<close>

definition release :: "admission \<Rightarrow> admission_error + admission" where
  "release a = (if ad_free a \<ge> ad_slots a then Inl ReleasedTooOften else Inr (a\<lparr> ad_free := ad_free a + 1 \<rparr>))"

definition acquire :: "admission \<Rightarrow> admission_error + admission" where
  "acquire a = (if ad_free a = 0 then Inl Busy else Inr (a\<lparr> ad_free := ad_free a - 1, ad_claimed := ad_claimed a + 1 \<rparr>))"

text \<open>The rest of \<open>run\<close> for a request that holds a slot: the answer, and the state it leaves.\<close>

definition submit_job :: "admission \<Rightarrow> (admission_error + unit) \<times> (admission_error + admission)" where
  "submit_job a =
     (let a = a\<lparr> ad_claimed := ad_claimed a - 1 \<rparr> in
      if ad_shut a then (Inl PoolShutDown, release a) else (Inr (), Inr (a\<lparr> ad_jobs := ad_jobs a @ [Queued] \<rparr>)))"

definition drop_nth :: "nat \<Rightarrow> 'a list \<Rightarrow> 'a list" where
  "drop_nth k xs = take k xs @ drop (Suc k) xs"

definition start_job :: "nat \<Rightarrow> admission \<Rightarrow> admission" where
  "start_job k a = a\<lparr> ad_jobs := (ad_jobs a)[k := Started] \<rparr>"

text \<open>The done callback.\<close>

definition job_done :: "nat \<Rightarrow> admission \<Rightarrow> admission_error + admission" where
  "job_done k a = release (a\<lparr> ad_jobs := drop_nth k (ad_jobs a) \<rparr>)"

definition cancel_job :: "nat \<Rightarrow> admission \<Rightarrow> admission_error + admission" where
  "cancel_job k a = (case ad_jobs a ! k of Started \<Rightarrow> Inr a | Queued \<Rightarrow> job_done k a)"

definition shut_pool :: "admission \<Rightarrow> admission" where
  "shut_pool a = a\<lparr> ad_shut := True \<rparr>"

text \<open>The pool has as many workers as there are slots.\<close>

definition running_jobs :: "admission \<Rightarrow> nat" where
  "running_jobs a = length (filter (\<lambda>s. s = Started) (ad_jobs a))"

inductive admission_step :: "admission \<Rightarrow> admission_error + admission \<Rightarrow> bool" where
  step_acquire: "acquire a = Inr a' \<Longrightarrow> admission_step a (Inr a')"
| step_submit: "0 < ad_claimed a \<Longrightarrow> submit_job a = (res, r) \<Longrightarrow> admission_step a r"
| step_start: "k < length (ad_jobs a) \<Longrightarrow> ad_jobs a ! k = Queued \<Longrightarrow> running_jobs a < ad_slots a \<Longrightarrow> admission_step a (Inr (start_job k a))"
| step_done: "k < length (ad_jobs a) \<Longrightarrow> ad_jobs a ! k = Started \<Longrightarrow> admission_step a (job_done k a)"
| step_cancel: "k < length (ad_jobs a) \<Longrightarrow> admission_step a (cancel_job k a)"
| step_shut: "admission_step a (Inr (shut_pool a))"

inductive admission_reached :: "int \<Rightarrow> admission_error + admission \<Rightarrow> bool" for slots where
  reached_new: "admission_reached slots (new_admission slots)"
| reached_step: "admission_reached slots (Inr a) \<Longrightarrow> admission_step a r \<Longrightarrow> admission_reached slots r"

inductive_cases admission_stepE: "admission_step a r"

section \<open>No slot is lost or invented\<close>

definition slots_ok :: "admission \<Rightarrow> bool" where
  "slots_ok a \<longleftrightarrow> ad_free a + ad_claimed a + length (ad_jobs a) = ad_slots a"

definition result_ok :: "nat \<Rightarrow> admission_error + admission \<Rightarrow> bool" where
  "result_ok n r \<longleftrightarrow> (\<exists>a. r = Inr a \<and> slots_ok a \<and> ad_slots a = n)"

lemma length_drop_nth: "k < length xs \<Longrightarrow> Suc (length (drop_nth k xs)) = length xs"
  by (simp add: drop_nth_def)

lemma release_ok:
  assumes "Suc (ad_free a + ad_claimed a + length (ad_jobs a)) = ad_slots a"
  shows "result_ok (ad_slots a) (release a)"
  using assms by (auto simp: release_def result_ok_def slots_ok_def)

lemma job_done_ok: "slots_ok a \<Longrightarrow> k < length (ad_jobs a) \<Longrightarrow> result_ok (ad_slots a) (job_done k a)"
  using release_ok [of "a\<lparr> ad_jobs := drop_nth k (ad_jobs a) \<rparr>"] length_drop_nth [of k "ad_jobs a"]
  by (simp add: job_done_def slots_ok_def)

lemma submit_ok:
  assumes "slots_ok a" and "0 < ad_claimed a" and "submit_job a = (res, r)"
  shows "result_ok (ad_slots a) r"
proof (cases "ad_shut a")
  case True
  then show ?thesis
    using assms release_ok [of "a\<lparr> ad_claimed := ad_claimed a - 1 \<rparr>"] by (simp add: submit_job_def slots_ok_def Let_def)
next
  case False
  then show ?thesis using assms by (auto simp: submit_job_def slots_ok_def result_ok_def Let_def)
qed

lemma admission_step_ok:
  assumes "admission_step a r" and "slots_ok a"
  shows "result_ok (ad_slots a) r"
  using assms(1)
proof (cases rule: admission_step.cases)
  case (step_acquire a')
  then show ?thesis using assms(2) by (auto simp: acquire_def result_ok_def slots_ok_def split: if_splits)
next
  case (step_cancel k)
  then show ?thesis using job_done_ok [OF assms(2)] assms(2)
    by (auto simp: cancel_job_def result_ok_def split: job_state.splits)
qed (use assms(2) submit_ok job_done_ok in \<open>auto simp: start_job_def shut_pool_def result_ok_def slots_ok_def\<close>)

lemma admission_reached_ok:
  assumes "admission_reached slots r" and "1 \<le> slots"
  shows "result_ok (nat slots) r"
  using assms
proof (induction rule: admission_reached.induct)
  case reached_new
  then show ?case by (simp add: new_admission_def result_ok_def slots_ok_def)
next
  case (reached_step a r)
  then show ?case using admission_step_ok [of a r] by (auto simp: result_ok_def)
qed

text \<open>C33: whatever is cancelled, refused or shut down, and in any order, the free slots, the requests about to submit and the
  unfinished jobs add up to the configured slots: the semaphore is never released too often, no slot is lost, at most
  that many jobs run, and a request is refused exactly when every slot is in use.\<close>

theorem admission_accounts_for_every_slot:
  assumes "admission_reached slots r" and "1 \<le> slots"
  shows "\<exists>a. r = Inr a \<and> ad_free a + ad_claimed a + length (ad_jobs a) = nat slots \<and> running_jobs a \<le> nat slots \<and>
    (acquire a = Inl Busy \<longleftrightarrow> ad_claimed a + length (ad_jobs a) = nat slots)"
proof -
  obtain a where a: "r = Inr a" "ad_free a + ad_claimed a + length (ad_jobs a) = nat slots"
    using admission_reached_ok [OF assms] by (auto simp: result_ok_def slots_ok_def)
  have "running_jobs a \<le> length (ad_jobs a)" by (simp add: running_jobs_def)
  then have "running_jobs a \<le> nat slots" using a(2) by linarith
  moreover have "acquire a = Inl Busy \<longleftrightarrow> ad_claimed a + length (ad_jobs a) = nat slots" using a(2) by (auto simp: acquire_def)
  ultimately show ?thesis using a by blast
qed

theorem admission_accounts_for_every_slot_witness:
  "\<exists>a. admission_reached 1 (Inr a) \<and> acquire a = Inl Busy \<and> ad_jobs a = [Queued]"
proof -
  let ?a = "\<lparr> ad_slots = 1, ad_free = 0, ad_claimed = 1, ad_jobs = [], ad_shut = False \<rparr>"
  let ?b = "\<lparr> ad_slots = 1, ad_free = 0, ad_claimed = 0, ad_jobs = [Queued], ad_shut = False \<rparr>"
  have n: "new_admission 1 = Inr \<lparr> ad_slots = 1, ad_free = 1, ad_claimed = 0, ad_jobs = [], ad_shut = False \<rparr>" by (simp add: new_admission_def)
  have "admission_reached 1 (Inr \<lparr> ad_slots = 1, ad_free = 1, ad_claimed = 0, ad_jobs = [], ad_shut = False \<rparr>)"
    using admission_reached.reached_new [of 1] by (simp add: n)
  then have "admission_reached 1 (Inr ?a)" by (rule reached_step) (rule step_acquire, simp add: acquire_def)
  then have b: "admission_reached 1 (Inr ?b)"
    by (rule reached_step) (rule step_submit [where res = "Inr ()"], simp_all add: submit_job_def)
  from admission_accounts_for_every_slot [OF b] have "acquire ?b = Inl Busy" by simp
  then show ?thesis using b by auto
qed

end
