(* ===== verification/Metrics.thy ===== *)
theory Metrics
  imports Trust_Ledger Contracts_Window "HOL-Library.Multiset"
begin

text \<open>
  \<^verbatim>\<open>forecasting/metrics.py\<close>: the samples of one model from its evidence, the bounded registry of snapshots, and what a
  scrape exports. Help texts are left out. A registry operation is the region it runs under the registry's lock. The
  counters a sample converts to a float are far below the range where the conversion overflows.
\<close>

section \<open>The fixed metric families\<close>

definition PREFIX :: string where "PREFIX = ''predictive_autoscaler_forecast_''"
definition BASE_LABELS :: "string list" where "BASE_LABELS = [''namespace'', ''autoscaler'', ''model'']"
definition FIT_FAILURE_REASONS :: "string list" where
  "FIT_FAILURE_REASONS = [''history'', ''numeric'', ''timeout'', ''resource'', ''storage'']"
definition HORIZONS :: "string list" where "HORIZONS = [''first'', ''middle'', ''last'']"
definition COHORTS :: "string list" where "COHORTS = [''all'', ''gate'']"
definition OUTCOME_RESULTS :: "string list" where "OUTCOME_RESULTS = [''covered'', ''missed'', ''unscorable'']"
definition MAX_AUTOSCALERS :: nat where "MAX_AUTOSCALERS = 8"
definition MAX_SERIES_PER_AUTOSCALER :: nat where "MAX_SERIES_PER_AUTOSCALER = 256"

datatype metric_kind = Counter | Gauge

definition METRICS :: "(string \<times> metric_kind \<times> string option) list" where
  "METRICS =
     [(''issued_total'', Counter, None), (''outcomes_total'', Counter, Some ''result''), (''scored_windows'', Gauge, Some ''cohort''),
      (''window_coverage_ratio'', Gauge, Some ''cohort''), (''outcome_availability_ratio'', Gauge, None),
      (''window_mae_rps'', Gauge, None), (''window_bias_rps'', Gauge, None), (''window_pinball_loss_rps'', Gauge, None),
      (''step_mae_rps'', Gauge, Some ''horizon''), (''nominal_coverage_ratio'', Gauge, None),
      (''working_miscoverage_ratio'', Gauge, None), (''history_seconds'', Gauge, None), (''calibration_windows'', Gauge, None),
      (''evidence_age_seconds'', Gauge, None), (''trusted'', Gauge, None), (''upper_window_rps'', Gauge, None),
      (''base_window_rps'', Gauge, None), (''fit_failures_total'', Counter, Some ''reason'')]"

definition EXTRA :: "(string \<times> string list) list" where
  "EXTRA = [(''result'', OUTCOME_RESULTS), (''cohort'', COHORTS), (''horizon'', HORIZONS), (''reason'', FIT_FAILURE_REASONS)]"

section \<open>The samples of a model\<close>

type_synonym sample = "string \<times> string list \<times> pyfloat"

definition ratio_of :: "pyfloat \<Rightarrow> int \<Rightarrow> pyfloat" where
  "ratio_of x n = fdiv x (float_of_int n)"

definition coverage_samples :: "bucket \<Rightarrow> sample list" where
  "coverage_samples w =
     concat (map (\<lambda>(cohort, bd, cv).
        (''scored_windows'', [cohort], float_of_int bd) #
        (if bd \<noteq> 0 then [(''window_coverage_ratio'', [cohort], int_div cv bd)] else []))
      [(''all'', a_bd w, a_cv w), (''gate'', g_bd w, g_cv w)])"

definition error_samples :: "bucket \<Rightarrow> sample list" where
  "error_samples w =
     (if sc w \<noteq> 0
      then [(''window_mae_rps'', [], ratio_of (abs_err w) (sc w)), (''window_bias_rps'', [], ratio_of (bias w) (sc w))] else []) @
     (if g_bd w \<noteq> 0 then [(''window_pinball_loss_rps'', [], ratio_of (Trust_Ledger.pin w) (g_bd w))] else []) @
     (if n_step w \<noteq> 0
      then map (\<lambda>(h, f). (''step_mae_rps'', [h], ratio_of (f w) (n_step w))) (zip HORIZONS [st0, st1, st2]) else [])"

definition model_samples ::
  "ledger \<Rightarrow> cal_state option \<Rightarrow> pyfloat \<Rightarrow> bool \<Rightarrow> int \<Rightarrow> int \<Rightarrow> (string \<times> pyfloat option) list \<Rightarrow> (string \<times> int) list \<Rightarrow> sample list" where
  "model_samples l cst nominal_miscoverage trusted history_s now_s latest fit_failures =
     (let tot = l_totals l; w7 = window_sums l now_s (7 * DAY); avail = av_outcomes (availability l now_s DAY) in
      [(''issued_total'', [], float_of_int (t_issued tot)), (''outcomes_total'', [''covered''], float_of_int (t_covered tot)),
       (''outcomes_total'', [''missed''], float_of_int (t_missed tot)),
       (''outcomes_total'', [''unscorable''], float_of_int (t_unscorable tot))] @
      coverage_samples w7 @
      (case avail of None \<Rightarrow> [] | Some a \<Rightarrow> [(''outcome_availability_ratio'', [], a)]) @
      error_samples w7 @
      [(''nominal_coverage_ratio'', [], 1 - nominal_miscoverage)] @
      (case cst of
         None \<Rightarrow> []
       | Some c \<Rightarrow> [(''working_miscoverage_ratio'', [], int_div (a_e8 c) E8),
                    (''calibration_windows'', [], float_of_int (int (length (scores c))))]) @
      [(''history_seconds'', [], float_of_int history_s)] @
      (case l_last_prospective_outcome_s l of
         None \<Rightarrow> [] | Some t \<Rightarrow> [(''evidence_age_seconds'', [], float_of_int (now_s - t))]) @
      [(''trusted'', [], if trusted then 1 else 0)] @
      concat (map (\<lambda>key. case dict_get latest key of Some (Some v) \<Rightarrow> [(key, [], v)] | _ \<Rightarrow> [])
        [''upper_window_rps'', ''base_window_rps'']) @
      map (\<lambda>r. (''fit_failures_total'', [r], float_of_int (case dict_get fit_failures r of None \<Rightarrow> 0 | Some n \<Rightarrow> n)))
        FIT_FAILURE_REASONS)"

section \<open>The registry\<close>

record metric_snapshot =
  sn_uid :: string
  sn_models :: "(string \<times> sample list) list"

definition series_count :: "metric_snapshot \<Rightarrow> nat" where
  "series_count s = sum_list (map (\<lambda>(_, samples). length samples) (sn_models s))"

record forecast_metrics =
  fm_max_autoscalers :: nat
  fm_max_series :: nat
  fm_snaps :: "((string \<times> string) \<times> metric_snapshot) list"

definition new_metrics :: "nat \<Rightarrow> nat \<Rightarrow> forecast_metrics" where
  "new_metrics max_autoscalers max_series =
     \<lparr> fm_max_autoscalers = max_autoscalers, fm_max_series = max_series, fm_snaps = [] \<rparr>"

datatype metrics_error = UnknownModel | UnknownMetric | LabelOutsideEnum | CardinalityExceeded | RegistryFull

definition check_sample :: "sample \<Rightarrow> metrics_error + unit" where
  "check_sample s =
     (case s of (suffix, extra, _) \<Rightarrow>
        (case dict_get METRICS suffix of
           None \<Rightarrow> Inl UnknownMetric
         | Some (_, label) \<Rightarrow>
             if (label = None) \<noteq> (extra = []) \<or>
                (case label of None \<Rightarrow> False
                 | Some lb \<Rightarrow> length extra \<noteq> 1 \<or> hd extra \<notin> set (the (dict_get EXTRA lb)))
             then Inl LabelOutsideEnum else Inr ()))"

definition check_model :: "string \<times> sample list \<Rightarrow> metrics_error + unit" where
  "check_model ms =
     (if fst ms \<notin> set MODEL_FAMILIES then Inl UnknownModel
      else bind_res (map_res check_sample (snd ms)) (\<lambda>_. Inr ()))"

definition admit :: "string \<times> string \<Rightarrow> metric_snapshot \<Rightarrow> forecast_metrics \<Rightarrow> (metrics_error + unit) \<times> forecast_metrics" where
  "admit key s m =
     (if dict_get (fm_snaps m) key = None \<and> length (fm_snaps m) \<ge> fm_max_autoscalers m then (Inl RegistryFull, m)
      else (Inr (), m\<lparr> fm_snaps := dict_set key s (fm_snaps m) \<rparr>))"

definition update_metrics ::
  "string \<Rightarrow> string \<Rightarrow> metric_snapshot \<Rightarrow> forecast_metrics \<Rightarrow> (metrics_error + unit) \<times> forecast_metrics" where
  "update_metrics ns autoscaler s m =
     (case map_res check_model (sn_models s) of
        Inl e \<Rightarrow> (Inl e, m)
      | Inr _ \<Rightarrow> if series_count s > fm_max_series m then (Inl CardinalityExceeded, m) else admit (ns, autoscaler) s m)"

definition reserve :: "string \<Rightarrow> string \<Rightarrow> forecast_metrics \<Rightarrow> (metrics_error + unit) \<times> forecast_metrics" where
  "reserve ns autoscaler m =
     (case dict_get (fm_snaps m) (ns, autoscaler) of
        Some _ \<Rightarrow> (Inr (), m)
      | None \<Rightarrow> admit (ns, autoscaler) \<lparr> sn_uid = [], sn_models = [] \<rparr> m)"

definition remove_metrics :: "string \<Rightarrow> string \<Rightarrow> forecast_metrics \<Rightarrow> forecast_metrics" where
  "remove_metrics ns autoscaler m = m\<lparr> fm_snaps := dict_pop (ns, autoscaler) (fm_snaps m) \<rparr>"

definition registered :: "forecast_metrics \<Rightarrow> (string \<times> string) list" where
  "registered m = sort_key fst (sort_key snd (map fst (fm_snaps m)))"

text \<open>A scrape: one family for each metric, with the series of every snapshot in the order of their keys.\<close>

record family =
  fa_name :: string
  fa_kind :: metric_kind
  fa_labels :: "string list"
  fa_series :: "(string list \<times> pyfloat) list"

definition family_series :: "forecast_metrics \<Rightarrow> string \<Rightarrow> (string list \<times> pyfloat) list" where
  "family_series m suffix =
     concat (map (\<lambda>((ns, name), s).
       concat (map (\<lambda>(model, samples).
          map (\<lambda>(_, extra, v). ([ns, name, model] @ extra, v)) (filter (\<lambda>(sfx, _). sfx = suffix) samples))
        (sort_key fst (sn_models s))))
      (sort_key (\<lambda>x. fst (fst x)) (sort_key (\<lambda>x. snd (fst x)) (fm_snaps m))))"

definition collect_metrics :: "forecast_metrics \<Rightarrow> family list" where
  "collect_metrics m =
     map (\<lambda>(suffix, kind, label).
        \<lparr> fa_name = PREFIX @ (case kind of Counter \<Rightarrow> take (length suffix - length ''_total'') suffix | Gauge \<Rightarrow> suffix),
          fa_kind = kind, fa_labels = BASE_LABELS @ (case label of None \<Rightarrow> [] | Some lb \<Rightarrow> [lb]),
          fa_series = family_series m suffix \<rparr>) METRICS"

section \<open>Runs\<close>

inductive metrics_reached :: "nat \<Rightarrow> nat \<Rightarrow> forecast_metrics \<Rightarrow> bool" for autoscalers series where
  reached_new: "metrics_reached autoscalers series (new_metrics autoscalers series)"
| reached_update: "metrics_reached autoscalers series m \<Longrightarrow> metrics_reached autoscalers series (snd (update_metrics ns name s m))"
| reached_reserve: "metrics_reached autoscalers series m \<Longrightarrow> metrics_reached autoscalers series (snd (reserve ns name m))"
| reached_remove: "metrics_reached autoscalers series m \<Longrightarrow> metrics_reached autoscalers series (remove_metrics ns name m)"

definition snapshot_ok :: "nat \<Rightarrow> metric_snapshot \<Rightarrow> bool" where
  "snapshot_ok series s \<longleftrightarrow> series_count s \<le> series \<and> list_all (\<lambda>ms. check_model ms = Inr ()) (sn_models s)"

definition metrics_ok :: "nat \<Rightarrow> nat \<Rightarrow> forecast_metrics \<Rightarrow> bool" where
  "metrics_ok autoscalers series m \<longleftrightarrow>
     fm_max_autoscalers m = autoscalers \<and> fm_max_series m = series \<and> length (fm_snaps m) \<le> autoscalers \<and>
     list_all (\<lambda>(_, s). snapshot_ok series s) (fm_snaps m)"

lemma map_res_unit: "map_res f xs = Inr us \<Longrightarrow> list_all (\<lambda>x. f x = Inr ()) xs"
  by (auto simp: map_res_Inr_iff list_all2_conv_all_nth list_all_length)

lemma length_dict_set: "length (dict_set k v d) = (if dict_get d k = None then Suc (length d) else length d)"
  by (induction d) auto

lemma list_all_dict_set: "list_all P d \<Longrightarrow> P (k, v) \<Longrightarrow> list_all P (dict_set k v d)"
  by (induction d) auto

lemma admit_ok:
  assumes "metrics_ok n k m" and "snapshot_ok k s"
  shows "metrics_ok n k (snd (admit key s m))"
  using assms by (auto simp: admit_def metrics_ok_def length_dict_set intro!: list_all_dict_set)

lemma metrics_reached_ok: "metrics_reached n k m \<Longrightarrow> metrics_ok n k m"
proof (induction rule: metrics_reached.induct)
  case reached_new
  then show ?case by (simp add: metrics_ok_def new_metrics_def)
next
  case (reached_update m ns name s)
  then show ?case
    using admit_ok [OF reached_update.IH, of s] map_res_unit [of check_model "sn_models s"]
    by (auto simp: update_metrics_def snapshot_ok_def metrics_ok_def split: sum.splits)
next
  case (reached_reserve m ns name)
  then show ?case
    using admit_ok [OF reached_reserve.IH, of "\<lparr> sn_uid = [], sn_models = [] \<rparr>"]
    by (auto simp: reserve_def snapshot_ok_def series_count_def split: option.splits)
next
  case (reached_remove m ns name)
  moreover have "length (dict_pop (ns, name) (fm_snaps m)) \<le> length (fm_snaps m)" by (simp add: length_delete_le)
  moreover have "set (dict_pop (ns, name) (fm_snaps m)) \<subseteq> set (fm_snaps m)" by (auto simp: AList.delete_eq)
  ultimately show ?case by (auto simp: metrics_ok_def remove_metrics_def list_all_iff)
qed

section \<open>What is exported\<close>

lemma distinct_METRICS: "distinct (map fst METRICS)"
  by (simp add: METRICS_def)

lemma count_once:
  assumes "distinct sfxs"
  shows "(\<Sum>sfx\<leftarrow>sfxs. length (filter (\<lambda>(x, _). x = sfx) samples)) \<le> length samples"
proof (induction samples)
  case (Cons a samples)
  obtain x y where a: "a = (x, y)" by (cases a)
  have "(\<Sum>sfx\<leftarrow>sfxs. length (filter (\<lambda>(x, _). x = sfx) (a # samples))) =
      (\<Sum>sfx\<leftarrow>sfxs. of_bool (x = sfx) + length (filter (\<lambda>(x, _). x = sfx) samples))"
    by (rule arg_cong [where f = sum_list], rule map_cong) (simp_all add: a)
  also have "\<dots> = (\<Sum>sfx\<leftarrow>sfxs. of_bool (x = sfx)) + (\<Sum>sfx\<leftarrow>sfxs. length (filter (\<lambda>(x, _). x = sfx) samples))"
    by (rule sum_list_addf)
  also have "(\<Sum>sfx\<leftarrow>sfxs. of_bool (x = sfx)) \<le> (1 :: nat)" using assms by (induction sfxs) (auto simp: sum_list_0)
  finally show ?case using Cons.IH by simp
qed simp

lemma sum_list_swap_le:
  fixes f :: "'a \<Rightarrow> 'b \<Rightarrow> nat"
  assumes "\<And>y. y \<in> set ys \<Longrightarrow> (\<Sum>x\<leftarrow>xs. f x y) \<le> g y"
  shows "(\<Sum>x\<leftarrow>xs. \<Sum>y\<leftarrow>ys. f x y) \<le> (\<Sum>y\<leftarrow>ys. g y)"
  using assms
proof (induction ys)
  case (Cons y ys)
  have "(\<Sum>x\<leftarrow>xs. \<Sum>y\<leftarrow>y # ys. f x y) = (\<Sum>x\<leftarrow>xs. f x y) + (\<Sum>x\<leftarrow>xs. \<Sum>y\<leftarrow>ys. f x y)" by (simp add: sum_list_addf)
  also have "\<dots> \<le> g y + (\<Sum>y\<leftarrow>ys. g y)" using Cons.prems by (intro add_mono Cons.IH) simp_all
  finally show ?case by simp
qed simp

lemma sum_list_sort_key: "(\<Sum>x\<leftarrow>sort_key k xs. f x) = (\<Sum>x\<leftarrow>xs. (f x :: nat))"
  by (metis mset_map mset_sort sum_mset_sum_list)

lemma length_family_series:
  "length (family_series m sfx) =
     (\<Sum>ks\<leftarrow>fm_snaps m. \<Sum>ms\<leftarrow>sn_models (snd ks). length (filter (\<lambda>(x, _). x = sfx) (snd ms)))"
  by (simp add: family_series_def length_concat comp_def case_prod_unfold sum_list_sort_key)

lemma exported_le: "(\<Sum>fa\<leftarrow>collect_metrics m. length (fa_series fa)) \<le> (\<Sum>ks\<leftarrow>fm_snaps m. series_count (snd ks))"
proof -
  have "(\<Sum>fa\<leftarrow>collect_metrics m. length (fa_series fa)) = (\<Sum>sfx\<leftarrow>map fst METRICS. length (family_series m sfx))"
    by (simp add: collect_metrics_def comp_def case_prod_unfold)
  also have "\<dots> \<le> (\<Sum>ks\<leftarrow>fm_snaps m. series_count (snd ks))"
    unfolding length_family_series series_count_def case_prod_unfold
    by (rule sum_list_swap_le, rule sum_list_swap_le) (use count_once [OF distinct_METRICS] in \<open>simp add: case_prod_unfold\<close>)
  finally show ?thesis .
qed

lemma check_sample_Inr:
  assumes "check_sample (sfx, extra, v) = Inr ()"
  obtains kind label where "dict_get METRICS sfx = Some (kind, label)"
    "case label of None \<Rightarrow> extra = [] | Some lb \<Rightarrow> \<exists>x \<in> set (the (dict_get EXTRA lb)). extra = [x]"
proof -
  obtain kind label where m: "dict_get METRICS sfx = Some (kind, label)"
    using assms by (auto simp: check_sample_def split: option.splits prod.splits)
  have "case label of None \<Rightarrow> extra = [] | Some lb \<Rightarrow> \<exists>x \<in> set (the (dict_get EXTRA lb)). extra = [x]"
    using assms m by (cases extra) (auto simp: check_sample_def split: option.splits if_splits)
  then show thesis using that m by blast
qed

lemma family_series_labels:
  assumes "metrics_ok n k m" and "(sfx, kind, label) \<in> set METRICS" and "(labels, v) \<in> set (family_series m sfx)"
  shows "\<exists>ns name model extra. labels = [ns, name, model] @ extra \<and> (ns, name) \<in> fst ` set (fm_snaps m) \<and> model \<in> set MODEL_FAMILIES \<and>
    (case label of None \<Rightarrow> extra = [] | Some lb \<Rightarrow> \<exists>x \<in> set (the (dict_get EXTRA lb)). extra = [x])"
proof -
  obtain ns name s model samples extra where mem: "((ns, name), s) \<in> set (fm_snaps m)" "(model, samples) \<in> set (sn_models s)"
    "(sfx, extra, v) \<in> set samples" "labels = [ns, name, model] @ extra"
    using assms(3) unfolding family_series_def by fastforce
  have "snapshot_ok k s" using assms(1) mem(1) by (auto simp: metrics_ok_def list_all_iff)
  then have "check_model (model, samples) = Inr ()" using mem(2) by (auto simp: snapshot_ok_def list_all_iff)
  then have fam: "model \<in> set MODEL_FAMILIES" and "\<exists>us. map_res check_sample samples = Inr us"
    by (auto simp: check_model_def bind_res_Inr_iff split: if_splits)
  then have "check_sample (sfx, extra, v) = Inr ()" using mem(3) map_res_unit [of check_sample samples] by (auto simp: list_all_iff)
  then obtain kind' label' where l: "dict_get METRICS sfx = Some (kind', label')"
    "case label' of None \<Rightarrow> extra = [] | Some lb \<Rightarrow> \<exists>x \<in> set (the (dict_get EXTRA lb)). extra = [x]"
    by (rule check_sample_Inr)
  have "dict_get METRICS sfx = Some (kind, label)" by (rule map_of_is_SomeI [OF distinct_METRICS assms(2)])
  then have "label' = label" using l(1) by simp
  then show ?thesis using mem fam l(2) by (auto intro: rev_image_eqI)
qed

lemma fixed_samples_ok:
  "check_sample (''issued_total'', [], v) = Inr ()" "check_sample (''outcomes_total'', [''covered''], v) = Inr ()"
  "check_sample (''outcomes_total'', [''missed''], v) = Inr ()" "check_sample (''outcomes_total'', [''unscorable''], v) = Inr ()"
  "check_sample (''outcome_availability_ratio'', [], v) = Inr ()" "check_sample (''window_mae_rps'', [], v) = Inr ()"
  "check_sample (''window_bias_rps'', [], v) = Inr ()" "check_sample (''window_pinball_loss_rps'', [], v) = Inr ()"
  "check_sample (''nominal_coverage_ratio'', [], v) = Inr ()" "check_sample (''working_miscoverage_ratio'', [], v) = Inr ()"
  "check_sample (''calibration_windows'', [], v) = Inr ()" "check_sample (''history_seconds'', [], v) = Inr ()"
  "check_sample (''evidence_age_seconds'', [], v) = Inr ()" "check_sample (''trusted'', [], v) = Inr ()"
  "check_sample (''upper_window_rps'', [], v) = Inr ()" "check_sample (''base_window_rps'', [], v) = Inr ()"
  by (simp_all add: check_sample_def METRICS_def EXTRA_def OUTCOME_RESULTS_def)

lemma enum_samples_ok:
  "c \<in> set COHORTS \<Longrightarrow> check_sample (''scored_windows'', [c], v) = Inr ()"
  "c \<in> set COHORTS \<Longrightarrow> check_sample (''window_coverage_ratio'', [c], v) = Inr ()"
  "h \<in> set HORIZONS \<Longrightarrow> check_sample (''step_mae_rps'', [h], v) = Inr ()"
  "r \<in> set FIT_FAILURE_REASONS \<Longrightarrow> check_sample (''fit_failures_total'', [r], v) = Inr ()"
  by (simp_all add: check_sample_def METRICS_def EXTRA_def)

lemma coverage_samples_ok: "list_all (\<lambda>x. check_sample x = Inr ()) (coverage_samples w)" "length (coverage_samples w) \<le> 4"
  by (simp_all add: coverage_samples_def enum_samples_ok COHORTS_def)

lemma error_samples_ok: "list_all (\<lambda>x. check_sample x = Inr ()) (error_samples w)" "length (error_samples w) \<le> 6"
  by (simp_all add: error_samples_def fixed_samples_ok enum_samples_ok HORIZONS_def)

lemmas sample_lemmas = fixed_samples_ok enum_samples_ok coverage_samples_ok error_samples_ok

lemma model_samples_accepted: "list_all (\<lambda>x. check_sample x = Inr ()) (model_samples l cst nominal tr h now latest ff)"
proof -
  have latest: "list_all (\<lambda>x. check_sample x = Inr ()) (concat (map (\<lambda>key. case dict_get latest key of Some (Some v) \<Rightarrow> [(key, [], v)] | _ \<Rightarrow> [])
        [''upper_window_rps'', ''base_window_rps'']))"
    by (simp add: fixed_samples_ok split: option.split)
  have fails: "list_all (\<lambda>x. check_sample x = Inr ()) (map (\<lambda>r. (''fit_failures_total'', [r], f r)) FIT_FAILURE_REASONS)" for f
    by (simp add: list_all_iff enum_samples_ok)
  show ?thesis
    unfolding model_samples_def Let_def list_all_append
    by (intro conjI latest fails sample_lemmas) (simp_all add: fixed_samples_ok split: option.split)
qed

lemma model_samples_few: "length (model_samples l cst nominal tr h now latest ff) \<le> 28"
proof -
  have opt: "length (case x of None \<Rightarrow> [] | Some v \<Rightarrow> [f v]) \<le> 1" "length (case x of None \<Rightarrow> [] | Some v \<Rightarrow> [f v, g v]) \<le> 2"
    for x :: "'a option" and f g :: "'a \<Rightarrow> sample" by (simp_all split: option.split)
  have latest: "length (concat (map (\<lambda>key. case dict_get latest key of Some (Some v) \<Rightarrow> [(key, [] :: string list, v)] | _ \<Rightarrow> [])
        [''upper_window_rps'', ''base_window_rps''])) \<le> 2"
    by (simp split: option.split)
  have fails: "length (map f FIT_FAILURE_REASONS) = 5" for f :: "string \<Rightarrow> sample" by (simp add: FIT_FAILURE_REASONS_def)
  have add: "length (xs @ ys) \<le> a + b" if "length xs \<le> a" "length ys \<le> b" for xs ys :: "sample list" and a b using that by simp
  have "length (model_samples l cst nominal tr h now latest ff) \<le> 4 + (4 + (1 + (6 + (1 + (2 + (1 + (1 + (1 + (2 + 5)))))))))"
    unfolding model_samples_def Let_def
    by (intro add sample_lemmas(21,22,23,24) latest order_eq_refl [OF fails]) (simp_all split: option.split add: coverage_samples_ok error_samples_ok)
  then show ?thesis by simp
qed

section \<open>Properties\<close>

text \<open>C40: whatever is registered, updated and removed, a scrape exports at most the configured number of autoscalers and series,
  and every series carries exactly the labels of its family: a registered autoscaler, a model of the fixed enum and at
  most one extra value of that label's fixed enum.\<close>

theorem export_bounded:
  assumes "metrics_reached n k m"
  shows "length (registered m) \<le> n \<and> (\<Sum>fa\<leftarrow>collect_metrics m. length (fa_series fa)) \<le> n * k \<and>
    (\<forall>fa \<in> set (collect_metrics m). \<forall>(labels, v) \<in> set (fa_series fa).
       length labels = length (fa_labels fa) \<and> (labels ! 0, labels ! 1) \<in> set (registered m) \<and> labels ! 2 \<in> set MODEL_FAMILIES \<and>
       (length labels = 4 \<longrightarrow> labels ! 3 \<in> set (the (dict_get EXTRA (fa_labels fa ! 3)))) \<and> length labels \<le> 4)"
proof -
  have ok: "metrics_ok n k m" using assms by (rule metrics_reached_ok)
  have reg: "length (registered m) = length (fm_snaps m)" "set (registered m) = fst ` set (fm_snaps m)" by (simp_all add: registered_def)
  have "(\<Sum>ks\<leftarrow>fm_snaps m. series_count (snd ks)) \<le> (\<Sum>ks\<leftarrow>fm_snaps m. k)"
    using ok by (intro sum_list_mono) (auto simp: metrics_ok_def list_all_iff snapshot_ok_def)
  also have "\<dots> \<le> n * k" using ok by (simp add: sum_list_triv metrics_ok_def)
  finally have total: "(\<Sum>fa\<leftarrow>collect_metrics m. length (fa_series fa)) \<le> n * k" using exported_le [of m] by linarith
  have "length labels = length (fa_labels fa) \<and> (labels ! 0, labels ! 1) \<in> set (registered m) \<and> labels ! 2 \<in> set MODEL_FAMILIES \<and>
       (length labels = 4 \<longrightarrow> labels ! 3 \<in> set (the (dict_get EXTRA (fa_labels fa ! 3)))) \<and> length labels \<le> 4"
    if fa: "fa \<in> set (collect_metrics m)" and lv: "(labels, v) \<in> set (fa_series fa)" for fa labels v
  proof -
    obtain sfx kind label where m: "(sfx, kind, label) \<in> set METRICS" "fa_series fa = family_series m sfx"
      "fa_labels fa = BASE_LABELS @ (case label of None \<Rightarrow> [] | Some lb \<Rightarrow> [lb])"
      using fa by (auto simp: collect_metrics_def)
    then show ?thesis
      using family_series_labels [OF ok m(1), of labels v] lv unfolding reg m(3)
      by (cases label) (auto simp: BASE_LABELS_def numeral_eq_Suc intro: rev_image_eqI)
  qed
  then show ?thesis using total ok reg by (auto simp: metrics_ok_def)
qed

theorem export_bounded_witness:
  "\<exists>m. metrics_reached 1 256 m \<and> registered m = [(''shop'', ''web-pa'')] \<and> (\<Sum>fa\<leftarrow>collect_metrics m. length (fa_series fa)) \<le> 256"
proof -
  let ?m = "snd (reserve ''shop'' ''web-pa'' (new_metrics 1 256))"
  have r: "metrics_reached 1 256 ?m" by (intro reached_reserve reached_new)
  have "registered ?m = [(''shop'', ''web-pa'')]" by (simp add: registered_def reserve_def admit_def new_metrics_def)
  then show ?thesis using export_bounded [OF r] r by auto
qed

text \<open>The samples the service builds from its evidence are always admissible: an update with them, for models of the fixed
  enum, is refused only for a new autoscaler when the registry is full, and otherwise replaces that autoscaler's
  snapshot and no other.\<close>

theorem service_samples_admissible:
  assumes "\<forall>(model, samples) \<in> set (sn_models s). model \<in> set MODEL_FAMILIES \<and>
      (\<exists>l cst nominal tr h now latest ff. samples = model_samples l cst nominal tr h now latest ff)"
    and "length (sn_models s) \<le> 3" and "fm_max_series m = MAX_SERIES_PER_AUTOSCALER"
  shows "update_metrics ns name s m =
    (if dict_get (fm_snaps m) (ns, name) = None \<and> fm_max_autoscalers m \<le> length (fm_snaps m) then (Inl RegistryFull, m)
     else (Inr (), m\<lparr> fm_snaps := dict_set (ns, name) s (fm_snaps m) \<rparr>))"
proof -
  have good: "check_model ms = Inr () \<and> length (snd ms) \<le> 28" if "ms \<in> set (sn_models s)" for ms
  proof -
    note bspec [OF assms(1) that]
    then obtain l cst nominal tr h now latest ff where ms: "fst ms \<in> set MODEL_FAMILIES" "snd ms = model_samples l cst nominal tr h now latest ff"
      unfolding case_prod_unfold by blast
    have "map_res check_sample (snd ms) = Inr (map (\<lambda>_. ()) (snd ms))"
      using model_samples_accepted [of l cst nominal tr h now latest ff] by (intro map_res_all_Inr) (simp add: ms(2) list_all_iff)
    then show ?thesis using ms model_samples_few by (simp add: check_model_def)
  qed
  then have "map_res check_model (sn_models s) = Inr (map (\<lambda>_. ()) (sn_models s))" by (intro map_res_all_Inr) simp
  moreover have "series_count s \<le> (\<Sum>_\<leftarrow>sn_models s. 28)"
    unfolding series_count_def by (rule sum_list_mono) (use good in \<open>simp add: case_prod_unfold\<close>)
  then have "series_count s \<le> 84" using assms(2) by (simp add: sum_list_triv)
  ultimately show ?thesis using assms(3) by (simp add: update_metrics_def admit_def MAX_SERIES_PER_AUTOSCALER_def)
qed

theorem service_samples_admissible_witness:
  "fst (update_metrics ''shop'' ''web-pa''
     \<lparr> sn_uid = ''u1'', sn_models = [(''statistical'', model_samples (new_ledger ''e'' ''statistical'' ''r'' 60) None (Fin 0) False 0 60 [] [])] \<rparr>
     (new_metrics 1 256)) = Inr ()"
proof -
  let ?l = "new_ledger ''e'' ''statistical'' ''r'' 60"
  let ?s = "\<lparr> sn_uid = ''u1'', sn_models = [(''statistical'', model_samples ?l None (Fin 0) False 0 60 [] [])] \<rparr>"
  have "update_metrics ''shop'' ''web-pa'' ?s (new_metrics 1 256) =
    (if dict_get (fm_snaps (new_metrics 1 256)) (''shop'', ''web-pa'') = None \<and>
        fm_max_autoscalers (new_metrics 1 256) \<le> length (fm_snaps (new_metrics 1 256)) then (Inl RegistryFull, new_metrics 1 256)
     else (Inr (), (new_metrics 1 256)\<lparr> fm_snaps := dict_set (''shop'', ''web-pa'') ?s (fm_snaps (new_metrics 1 256)) \<rparr>))"
  proof (rule service_samples_admissible)
    have "''statistical'' \<in> set MODEL_FAMILIES" by (simp add: MODEL_FAMILIES_def)
    then show "\<forall>(model, samples) \<in> set (sn_models ?s). model \<in> set MODEL_FAMILIES \<and>
      (\<exists>l cst nominal tr h now latest ff. samples = model_samples l cst nominal tr h now latest ff)" by (simp del: ex_simps) blast
  qed (simp_all add: new_metrics_def MAX_SERIES_PER_AUTOSCALER_def)
  then show ?thesis by (simp add: new_metrics_def)
qed

end
