(* ===== verification/Evidence.thy ===== *)
theory Evidence
  imports Journal Trust_Ledger Kernels
begin

text \<open>
  From journal rows to evidence: the JSON of an outcome payload (\<^verbatim>\<open>forecasting/maturation.py\<close>), the typed view of an
  issuance bundle, and \<open>from_journal\<close> of \<^verbatim>\<open>forecasting/calibration.py\<close> and \<^verbatim>\<open>forecasting/trust.py\<close>, which refuse an
  outcome that does not agree with the issuance it claims to be about. A key that is missing or a value of another type
  raises \<open>KeyError\<close> or \<open>TypeError\<close>, which those functions do not translate: \<open>EvRaised\<close>. A numeric string in the place
  of a number counts as such a value.
\<close>

section \<open>Bundles and outcomes as JSON\<close>

definition opt_json :: "('a \<Rightarrow> json) \<Rightarrow> 'a option \<Rightarrow> json" where
  "opt_json f v = (case v of None \<Rightarrow> JNull | Some x \<Rightarrow> f x)"

fun as_float :: "json \<Rightarrow> pyfloat option" where
  "as_float (JFloat x) = Some x"
| "as_float (JInt n) = (if is_finite (float_of_int n) then Some (float_of_int n) else None)"
| "as_float (JBool b) = Some (if b then 1 else 0)"
| "as_float _ = None"

fun opt_float :: "json \<Rightarrow> pyfloat option option" where
  "opt_float JNull = Some None"
| "opt_float v = map_option Some (as_float v)"

fun as_list :: "json \<Rightarrow> json list option" where
  "as_list (JList xs) = Some xs"
| "as_list _ = None"

fun as_int :: "json \<Rightarrow> int option" where
  "as_int (JInt n) = Some n"
| "as_int _ = None"

fun as_str :: "json \<Rightarrow> string option" where
  "as_str (JStr s) = Some s"
| "as_str _ = None"

abbreviation floats_in :: "json \<Rightarrow> pyfloat list option" where
  "floats_in v \<equiv> Option.bind (as_list v) (\<lambda>xs. those (map as_float xs))"

definition outcome_json :: "outcome_payload \<Rightarrow> json" where
  "outcome_json p =
     JObj ((''schema'', JStr ''forecast-outcome/v1'') #
       (case p of
          Excluded n targets digest first why deadline \<Rightarrow>
            [(''reason'', JStr ''excluded''), (''excluded_targets'', JInt (int n)), (''targets'', JInt (int targets)),
             (''targets_sha256'', JStr digest), (''first_excluded'', JInt first), (''exclusion'', JStr why),
             (''deadline_ms'', JInt deadline)]
        | MissingTruth n targets digest first deadline \<Rightarrow>
            [(''reason'', JStr ''missing_truth''), (''missing_targets'', JInt (int n)), (''targets'', JInt (int targets)),
             (''targets_sha256'', JStr digest), (''first_missing'', JInt first), (''deadline_ms'', JInt deadline)]
        | Scored s \<Rightarrow>
            [(''y_window_max_rps'', JFloat (y_window_max_rps s)), (''targets'', JInt (int (sp_targets s))),
             (''targets_sha256'', JStr (sp_targets_sha256 s)), (''base_window_max_rps'', JFloat (base_window_max_rps s)),
             (''upper_window_max_rps'', opt_json JFloat (upper_window_max_rps s)), (''covered'', opt_json JBool (covered s)),
             (''residual_rps'', JFloat (residual_rps s)), (''abs_error_rps'', JFloat (abs_error_rps s)),
             (''values'', JList (map JFloat (sp_values s))), (''values_sha256'', JStr (sp_values_sha256 s)),
             (''completed_at_ms'', JInt (completed_at_ms s))]))"

text \<open>The typed view of a bundle: its candidates, and the values a single-model bundle carries at the top level.\<close>

definition cand_at :: "json \<Rightarrow> string \<Rightarrow> cand option" where
  "cand_at v recipe_key =
     Option.bind (as_str (get_obj v recipe_key)) (\<lambda>recipe.
     Option.bind (floats_in (get_obj v ''point_rps'')) (\<lambda>points.
     Option.bind (as_float (get_obj v ''base_window_max_rps'')) (\<lambda>base.
     Option.bind (opt_float (get_obj v ''upper_window_max_rps'')) (\<lambda>upper.
       Some \<lparr> c_recipe = recipe, c_point_rps = points, c_base = base, c_upper = upper \<rparr>))))"

definition entry_of :: "string \<times> json \<Rightarrow> (string \<times> cand option) option" where
  "entry_of kv =
     (case snd kv of JObj c \<Rightarrow> map_option (\<lambda>x. (fst kv, Some x)) (cand_at (JObj c) ''recipe'') | _ \<Rightarrow> Some (fst kv, None))"

definition candidates_of :: "obj \<Rightarrow> candidates_field option" where
  "candidates_of b =
     (case dict_get b ''candidates'' of
        None \<Rightarrow> Some NoCandidates
      | Some (JObj cs) \<Rightarrow> map_option Candidates (those (map entry_of cs))
      | Some _ \<Rightarrow> Some NotADict)"

definition bundle_of :: "json \<Rightarrow> issued_bundle option" where
  "bundle_of v =
     (case v of
        JObj b \<Rightarrow>
          Option.bind (as_int (get_obj v ''decision_origin'')) (\<lambda>origin.
          Option.bind (as_list (get_obj v ''target_timestamps'')) (\<lambda>ts.
          Option.bind (those (map as_int ts)) (\<lambda>targets.
          Option.bind (as_int (get_obj v ''sample_interval_seconds'')) (\<lambda>interval.
          Option.bind (candidates_of b) (\<lambda>cands.
            Some \<lparr> bd_evidence_mode = the_str (get_obj v ''evidence_mode''), bd_decision_origin = origin, bd_targets = targets,
                   bd_interval = interval, bd_candidates = cands, bd_model_family = as_str (get_obj v ''model_family''),
                   bd_single = cand_at v ''model_recipe'' \<rparr>)))))
      | _ \<Rightarrow> None)"

section \<open>Evidence from a journal row\<close>

datatype evidence_error = EvCalibration calibration_error | EvTrust trust_error | EvRaised

abbreviation not_evidence :: "string \<Rightarrow> evidence_error + 'a" where
  "not_evidence why \<equiv> Inl (EvCalibration (CalibrationError why))"

text \<open>\<open>list(range(origin + dt, window_end + 1, dt))\<close>; a row's window ends after its origin, so a negative step gives none.\<close>

definition window_range :: "int \<Rightarrow> int \<Rightarrow> int \<Rightarrow> int list" where
  "window_range origin we dt = (if 0 < dt then grid_range (origin + dt) we dt else [])"

definition scored_y :: "string \<Rightarrow> json \<Rightarrow> cand \<Rightarrow> evidence_error + pyfloat option" where
  "scored_y status p c =
     (if status \<noteq> ''scored'' then Inr None
      else case p of
        JObj kvs \<Rightarrow>
          (case (dict_get kvs ''base_window_max_rps'', dict_get kvs ''upper_window_max_rps'') of
             (Some base, Some upper) \<Rightarrow>
               if \<not> (json_eq base (JFloat (c_base c)) \<and> json_eq upper (opt_json JFloat (c_upper c)))
               then not_evidence ''not the bound that was issued''
               else (case as_float (get_obj p ''y_window_max_rps'') of None \<Rightarrow> Inl EvRaised | Some y \<Rightarrow> Inr (Some y))
           | _ \<Rightarrow> Inl EvRaised)
      | _ \<Rightarrow> Inl EvRaised)"

definition cal_from_journal :: "(string \<Rightarrow> string) \<Rightarrow> issuance \<Rightarrow> outcome \<Rightarrow> evidence_error + cal_record" where
  "cal_from_journal sha i z =
     (let k = is_key i; p = oc_payload z in
      if oc_issuance_id z \<noteq> is_id i \<or> oc_evidence_key z \<noteq> ik_evidence_key k \<or> oc_window_end z \<noteq> ik_window_end k
        then not_evidence ''another issuance''
      else case bundle_of (is_payload i) of
        None \<Rightarrow> Inl EvRaised
      | Some b \<Rightarrow>
          if bd_decision_origin b \<noteq> ik_decision_origin k then not_evidence ''targets''
          else if bd_interval b = 0 then Inl EvRaised
          else if bd_targets b \<noteq> window_range (ik_decision_origin k) (ik_window_end k) (bd_interval b) then not_evidence ''targets''
          else if oc_model z \<notin> set (is_models i) then not_evidence ''unexpected model''
          else case candidate b (oc_model z) of
            Inl _ \<Rightarrow> not_evidence ''candidate''
          | Inr c \<Rightarrow>
              if length (c_point_rps c) \<noteq> length (bd_targets b) then not_evidence ''trajectory''
              else if \<not> (json_eq (get_obj p ''targets'') (JInt (int (length (bd_targets b)))) \<and>
                         json_eq (get_obj p ''targets_sha256'') (JStr (targets_sha256 sha (bd_targets b))))
                then not_evidence ''not matured on the issued grid''
              else bind_res (scored_y (oc_status z) p c) (\<lambda>y.
                Inr \<lparr> cr_seq = oc_seq z, cr_epoch = ik_evidence_key k, cr_model = oc_model z, cr_recipe = c_recipe c,
                      cr_issuance_id = is_id i, cr_origin = ik_decision_origin k, cr_window_end = ik_window_end k,
                      cr_base = c_base c, cr_upper = c_upper c, cr_status = oc_status z, cr_y = y \<rparr>))"

definition step_errors :: "pyfloat list \<Rightarrow> pyfloat list \<Rightarrow> pyfloat \<times> pyfloat \<times> pyfloat" where
  "step_errors pts ys =
     (let n = length ys; err = (\<lambda>i. \<bar>pts ! i - ys ! i\<bar>) in (err 0, err (n div 2), err (n - 1)))"

definition evidence_from_journal :: "(string \<Rightarrow> string) \<Rightarrow> issuance \<Rightarrow> outcome \<Rightarrow> evidence_error + evidence_record" where
  "evidence_from_journal sha i z =
     bind_res (cal_from_journal sha i z) (\<lambda>rec.
       case bundle_of (is_payload i) of
         None \<Rightarrow> Inl EvRaised
       | Some b \<Rightarrow>
           if bd_evidence_mode b \<notin> set MODES then Inl (EvTrust (TrustError ''evidence mode''))
           else if oc_status z \<noteq> ''scored''
             then Inr \<lparr> e_cal = rec, e_mode = bd_evidence_mode b, e_committed_at_ms = oc_committed_at_ms z, e_step_abs_errors = None \<rparr>
           else case (candidate b (oc_model z), floats_in (get_obj (oc_payload z) ''values'')) of
             (Inr c, Some ys) \<Rightarrow>
               if length (c_point_rps c) \<noteq> length ys then Inl (EvTrust (TrustError ''values''))
               else if ys = [] then Inl EvRaised
               else Inr \<lparr> e_cal = rec, e_mode = bd_evidence_mode b, e_committed_at_ms = oc_committed_at_ms z,
                          e_step_abs_errors = Some (step_errors (c_point_rps c) ys) \<rparr>
           | _ \<Rightarrow> Inl EvRaised)"

section \<open>What a matured row is evidence of\<close>

lemma those_map_Some: "(\<And>x. x \<in> set xs \<Longrightarrow> f x = Some (g x)) \<Longrightarrow> those (map f xs) = Some (map g xs)"
  by (induction xs) auto

lemma floats_in_JFloat [simp]: "floats_in (JList (map JFloat xs)) = Some xs"
  by (induction xs) auto

lemma json_eq_float: "is_finite a \<Longrightarrow> json_eq (JFloat a) (JFloat a)"
  by (cases a) (auto simp: json_eq_def)

lemma outcome_json_common:
  "get_obj (outcome_json p) ''targets'' = JInt (int (case p of Excluded _ n _ _ _ _ \<Rightarrow> n | MissingTruth _ n _ _ _ \<Rightarrow> n | Scored s \<Rightarrow> sp_targets s))"
  "get_obj (outcome_json p) ''targets_sha256'' =
     JStr (case p of Excluded _ _ d _ _ _ \<Rightarrow> d | MissingTruth _ _ d _ _ \<Rightarrow> d | Scored s \<Rightarrow> sp_targets_sha256 s)"
  by (cases p; simp add: outcome_json_def)+

lemma outcome_grid:
  assumes "window_outcome sha fmt targets base upper received now settlement grace excluded = Inr (Some p)"
  shows "get_obj (outcome_json p) ''targets'' = JInt (int (length targets))"
    and "get_obj (outcome_json p) ''targets_sha256'' = JStr (targets_sha256 sha targets)" and "targets \<noteq> []"
proof -
  have "check_window targets = Inr ()" using assms by (auto simp: window_outcome_def bind_res_Inr_iff)
  then show "targets \<noteq> []" by (rule check_window_sorted)
  show "get_obj (outcome_json p) ''targets'' = JInt (int (length targets))"
    "get_obj (outcome_json p) ''targets_sha256'' = JStr (targets_sha256 sha targets)"
    unfolding outcome_json_common using assms
    by (cases p; auto simp: window_outcome_Scored_iff window_outcome_Missing_iff window_outcome_Excluded_iff)+
qed

lemma scored_y_of_outcome:
  assumes "window_outcome sha fmt targets (c_base c) (c_upper c) received now settlement grace excluded = Inr (Some p)"
    and "is_finite (c_base c)" and "case c_upper c of None \<Rightarrow> True | Some u \<Rightarrow> is_finite u"
  shows "scored_y (status_of p) (outcome_json p) c = Inr (case p of Scored s \<Rightarrow> Some (y_window_max_rps s) | _ \<Rightarrow> None)"
proof (cases p)
  case (Scored s)
  then have s: "base_window_max_rps s = c_base c" "upper_window_max_rps s = c_upper c"
    using assms(1) by (auto simp: window_outcome_Scored_iff)
  have "json_eq (opt_json JFloat (c_upper c)) (opt_json JFloat (c_upper c))"
    using assms(3) json_eq_float by (cases "c_upper c") (auto simp: opt_json_def json_eq_def)
  then show ?thesis using s json_eq_float [OF assms(2)] by (simp add: Scored scored_y_def status_of_def outcome_json_def)
qed (simp_all add: scored_y_def status_of_def)

text \<open>C12: every outcome matured from an issued bundle and committed for it is accepted as evidence, and the evidence is exactly
  what was issued and observed: the issued base, bound and recipe, the window maximum and the errors at the first,
  middle and last target when scored, and no truth when unscorable.\<close>

theorem matured_outcome_is_evidence:
  assumes "bundle_of (is_payload i) = Some b" and "bd_decision_origin b = ik_decision_origin (is_key i)" and "bd_interval b \<noteq> 0"
    and "bd_targets b = window_range (ik_decision_origin (is_key i)) (ik_window_end (is_key i)) (bd_interval b)"
    and "bd_evidence_mode b \<in> set MODES" and "oc_model z \<in> set (is_models i)" and "candidate b (oc_model z) = Inr c"
    and "length (c_point_rps c) = length (bd_targets b)" and "is_finite (c_base c)"
    and "case c_upper c of None \<Rightarrow> True | Some u \<Rightarrow> is_finite u"
    and "issued_outcome sha fmt b (oc_model z) received now settlement grace excluded = Inr (Some p)"
    and "oc_payload z = outcome_json p" and "oc_status z = status_of p" and "oc_issuance_id z = is_id i"
    and "oc_evidence_key z = ik_evidence_key (is_key i)" and "oc_window_end z = ik_window_end (is_key i)"
  shows "\<exists>r. evidence_from_journal sha i z = Inr r \<and> cr_base (e_cal r) = c_base c \<and> cr_upper (e_cal r) = c_upper c \<and>
    cr_recipe (e_cal r) = c_recipe c \<and> cr_status (e_cal r) = status_of p \<and> e_mode r = bd_evidence_mode b \<and>
    cr_y (e_cal r) = (case p of Scored s \<Rightarrow> Some (y_window_max_rps s) | _ \<Rightarrow> None) \<and>
    e_step_abs_errors r = (case p of Scored s \<Rightarrow> Some (step_errors (c_point_rps c) (sp_values s)) | _ \<Rightarrow> None)"
proof -
  have w: "window_outcome sha fmt (bd_targets b) (c_base c) (c_upper c) received now settlement grace excluded = Inr (Some p)"
    using assms(7,11) by (simp add: issued_outcome_def)
  note grid = outcome_grid [OF w] and y = scored_y_of_outcome [OF w assms(9,10)]
  define rec where "rec = \<lparr> cr_seq = oc_seq z, cr_epoch = ik_evidence_key (is_key i), cr_model = oc_model z, cr_recipe = c_recipe c,
      cr_issuance_id = is_id i, cr_origin = ik_decision_origin (is_key i), cr_window_end = ik_window_end (is_key i),
      cr_base = c_base c, cr_upper = c_upper c, cr_status = oc_status z,
      cr_y = (case p of Scored s \<Rightarrow> Some (y_window_max_rps s) | _ \<Rightarrow> None) \<rparr>"
  have cal: "cal_from_journal sha i z = Inr rec"
    using assms(1-8,12-16) grid(1,2) y unfolding cal_from_journal_def Let_def rec_def
    by (simp del: get_obj.simps)
  show ?thesis
  proof (cases p)
    case (Scored s)
    have vals: "sp_values s = target_values received (bd_targets b)" using w by (auto simp: Scored window_outcome_Scored_iff)
    then have len: "length (sp_values s) = length (bd_targets b)" by (simp add: target_values_def)
    have got: "get_obj (outcome_json p) ''values'' = JList (map JFloat (sp_values s))" by (simp add: Scored outcome_json_def)
    have st: "oc_status z = ''scored''" using assms(13) by (simp add: Scored status_of_def)
    have "evidence_from_journal sha i z = Inr \<lparr> e_cal = rec, e_mode = bd_evidence_mode b, e_committed_at_ms = oc_committed_at_ms z,
        e_step_abs_errors = Some (step_errors (c_point_rps c) (sp_values s)) \<rparr>"
      using assms(1,5,7,8) grid(3) len unfolding evidence_from_journal_def cal assms(12) got floats_in_JFloat
      by (auto simp: st simp del: get_obj.simps)
    then show ?thesis by (simp add: Scored rec_def assms(13))
  qed (use assms(1,5,13) in \<open>simp_all add: evidence_from_journal_def cal status_of_def rec_def\<close>)
qed

definition demo_bundle_json :: json where
  "demo_bundle_json = JObj [(''evidence_mode'', JStr ''prospective''), (''decision_origin'', JInt 0),
     (''target_timestamps'', JList [JInt 60]), (''sample_interval_seconds'', JInt 60),
     (''candidates'', JObj [(''seasonal_naive'', JObj [(''recipe'', JStr ''r''), (''point_rps'', JList [JFloat (Fin 1)]),
        (''base_window_max_rps'', JFloat (Fin 1)), (''upper_window_max_rps'', JNull)])])]"

definition demo_cand :: cand where
  "demo_cand = \<lparr> c_recipe = ''r'', c_point_rps = [Fin 1], c_base = Fin 1, c_upper = None \<rparr>"

definition demo_bundle :: issued_bundle where
  "demo_bundle = \<lparr> bd_evidence_mode = ''prospective'', bd_decision_origin = 0, bd_targets = [60], bd_interval = 60,
     bd_candidates = Candidates [(''seasonal_naive'', Some demo_cand)], bd_model_family = None, bd_single = None \<rparr>"

definition demo_evidence_issuance :: issuance where
  "demo_evidence_issuance = \<lparr> is_seq = 1, is_id = ''i'', is_key_sha256 = ''k'',
     is_key = \<lparr> ik_evidence_key = ''e'', ik_decision_origin = 0, ik_window_start = 0, ik_window_end = 60, ik_settings_sha256 = ''s'' \<rparr>,
     is_bundle = ''b'', is_payload = demo_bundle_json, is_bundle_sha256 = ''h'', is_models = [''seasonal_naive''], is_committed_at_ms = 0 \<rparr>"

definition demo_missing :: outcome_payload where
  "demo_missing = MissingTruth 1 1 (targets_sha256 id [60]) 60 120000"

definition demo_evidence_outcome :: outcome where
  "demo_evidence_outcome = \<lparr> oc_seq = 1, oc_issuance_id = ''i'', oc_evidence_key = ''e'', oc_window_end = 60, oc_model = ''seasonal_naive'',
     oc_status = ''unscorable'', oc_bytes = ''x'', oc_payload = outcome_json demo_missing, oc_payload_sha256 = ''h'', oc_committed_at_ms = 120000 \<rparr>"

theorem matured_outcome_is_evidence_witness:
  "\<exists>r. evidence_from_journal id demo_evidence_issuance demo_evidence_outcome = Inr r \<and> cr_base (e_cal r) = Fin 1 \<and> cr_y (e_cal r) = None"
proof -
  let ?i = demo_evidence_issuance and ?z = demo_evidence_outcome
  have b: "bundle_of (is_payload ?i) = Some demo_bundle"
    by (simp add: bundle_of_def demo_evidence_issuance_def demo_bundle_json_def demo_bundle_def candidates_of_def entry_of_def cand_at_def demo_cand_def)
  have c: "candidate demo_bundle (oc_model ?z) = Inr demo_cand" by (simp add: candidate_def demo_bundle_def demo_evidence_outcome_def)
  have w: "issued_outcome id (\<lambda>_. []) demo_bundle (oc_model ?z) (\<lambda>_. None) 120000 0 60 None = Inr (Some demo_missing)"
    unfolding issued_outcome_def c
    by (simp add: demo_missing_def window_outcome_Missing_iff check_window_def target_steps_def excluded_targets_def missing_targets_def
        admitted_def truth_deadline_ms_def demo_bundle_def)
  have "\<exists>r. evidence_from_journal id ?i ?z = Inr r \<and> cr_base (e_cal r) = c_base demo_cand \<and> cr_upper (e_cal r) = c_upper demo_cand \<and>
    cr_recipe (e_cal r) = c_recipe demo_cand \<and> cr_status (e_cal r) = status_of demo_missing \<and> e_mode r = bd_evidence_mode demo_bundle \<and>
    cr_y (e_cal r) = (case demo_missing of Scored s \<Rightarrow> Some (y_window_max_rps s) | _ \<Rightarrow> None) \<and>
    e_step_abs_errors r = (case demo_missing of Scored s \<Rightarrow> Some (step_errors (c_point_rps demo_cand) (sp_values s)) | _ \<Rightarrow> None)"
    by (rule matured_outcome_is_evidence [OF b _ _ _ _ _ c _ _ _ w])
      (simp_all add: demo_bundle_def demo_cand_def demo_evidence_issuance_def demo_evidence_outcome_def demo_missing_def
        status_of_def window_range_def grid_range_def MODES_def)
  then show ?thesis by (auto simp: demo_cand_def demo_missing_def)
qed

end
