(* ===== verification/Service_State.thy ===== *)
theory Service_State
  imports Trust_Policy Contracts_Window
begin

text \<open>
  The epoch state of \<^verbatim>\<open>forecasting/service.py\<close>: for each model its calibration and its evidence ledger, the trust state
  and the paired evidence, and the sequence numbers up to which the journal has been folded in. In the code the whole
  state is one dictionary, which a checkpoint stores as JSON; here it is a record of the typed states of the components
  and \<open>state_json\<close> is that dictionary. \<open>load_state\<close> reads it back and refuses any other object.
\<close>

section \<open>Keys that are numbers\<close>

definition read_nat :: "string \<Rightarrow> nat" where
  "read_nat s = foldl (\<lambda>a c. a * 10 + (of_char c - 48)) 0 s"

definition read_int :: "string \<Rightarrow> int" where
  "read_int s = (case s of c # cs \<Rightarrow> if c = CHR ''-'' then - int (read_nat cs) else int (read_nat s) | [] \<Rightarrow> 0)"

lemma of_char_digit: "n < 10 \<Longrightarrow> of_char (digit_char n) = (48 + n :: nat)"
  by simp

lemma read_nat_snoc: "n < 10 \<Longrightarrow> read_nat (s @ [digit_char n]) = read_nat s * 10 + n"
  by (simp add: read_nat_def of_char_digit del: digit_char.simps)

lemma read_show_nat: "read_nat (show_nat n) = n"
proof (induction n rule: show_nat.induct)
  case (1 n)
  show ?case
  proof (cases "n < 10")
    case True
    then show ?thesis using read_nat_snoc [of n "[]"] by (simp add: show_nat.simps [of n] read_nat_def)
  next
    case False
    then have "show_nat n = show_nat (n div 10) @ [digit_char (n mod 10)]" by (subst show_nat.simps) simp
    then show ?thesis using read_nat_snoc [of "n mod 10" "show_nat (n div 10)"] 1 [OF False] by simp
  qed
qed

lemma show_nat_digit: "show_nat n \<noteq> [] \<and> hd (show_nat n) \<noteq> CHR ''-''"
proof (induction n rule: show_nat.induct)
  case (1 n)
  have "digit_char k \<noteq> CHR ''-''" if "k < 10" for k
  proof
    assume "digit_char k = CHR ''-''"
    then have "of_char (digit_char k) = (45 :: nat)" by simp
    then show False using of_char_digit [OF that] by simp
  qed
  then show ?case using 1 by (cases "n < 10") (simp_all add: show_nat.simps [of n])
qed

lemma read_show_int [simp]: "read_int (show_int n) = n"
proof (cases "n < 0")
  case True
  then show ?thesis by (simp add: show_int_def read_int_def read_show_nat)
next
  case False
  then show ?thesis using show_nat_digit [of "nat n"] read_show_nat [of "nat n"]
    by (cases "show_nat (nat n)") (auto simp: show_int_def read_int_def)
qed

section \<open>The state\<close>

record model_state =
  ms_recipe :: string
  ms_calibration :: cal_state
  ms_ledger :: ledger

record service_state =
  ss_epoch :: string
  ss_last_outcome_seq :: int
  ss_last_issuance_seq :: int
  ss_models :: "(string \<times> model_state) list"
  ss_trust :: trust_state
  ss_pairs :: "(string \<times> pairs) list"

definition STATE_SCHEMA :: string where "STATE_SCHEMA = ''statistical-service-state/v1''"
definition SELECTION :: string where "SELECTION = ''_selection''"

section \<open>The dictionary of a state\<close>

definition opt_int :: "int option \<Rightarrow> json" where
  "opt_int v = (case v of None \<Rightarrow> JNull | Some n \<Rightarrow> JInt n)"

definition opt_str :: "string option \<Rightarrow> json" where
  "opt_str v = (case v of None \<Rightarrow> JNull | Some s \<Rightarrow> JStr s)"

definition counters_json :: "string \<Rightarrow> counters \<Rightarrow> json" where
  "counters_json total_key c =
     JObj [(''scored'', JInt (k_scored c)), (''unscorable'', JInt (k_unscorable c)), (''bounded'', JInt (k_bounded c)),
           (''covered'', JInt (k_covered c)), (total_key, JFloat (k_sum_rps c))]"

definition cal_json :: "cal_state \<Rightarrow> json" where
  "cal_json s =
     JObj [(''schema'', JStr ''window-calibration/v1''), (''epoch'', JStr (s_epoch s)), (''model'', JStr (s_model s)),
           (''recipe'', JStr (s_recipe s)), (''a_e8'', JInt (a_e8 s)),
           (''scores'', JList (map (\<lambda>(e, x). JList [JInt e, JFloat x]) (scores s))), (''last_seq'', JInt (last_seq s)),
           (''newest_window_end'', opt_int (newest_window_end s)), (''all'', counters_json ''abs_error_sum_rps'' (all_counts s)),
           (''gate'', counters_json ''pinball_sum_rps'' (gate_counts s)), (''level_updates'', JInt (level_updates s)),
           (''at_bound'', JInt (at_bound s))]"

definition bucket_json :: "bucket \<Rightarrow> json" where
  "bucket_json b =
     JObj [(''iss'', JInt (iss b)), (''g_iss'', JInt (g_iss b)), (''sc'', JInt (sc b)), (''un'', JInt (un b)),
           (''g_sc'', JInt (g_sc b)), (''g_un'', JInt (g_un b)), (''a_bd'', JInt (a_bd b)), (''a_cv'', JInt (a_cv b)),
           (''g_bd'', JInt (g_bd b)), (''g_cv'', JInt (g_cv b)), (''n_step'', JInt (n_step b)), (''pin'', JFloat (pin b)),
           (''abs'', JFloat (abs_err b)), (''bias'', JFloat (bias b)), (''st0'', JFloat (st0 b)), (''st1'', JFloat (st1 b)),
           (''st2'', JFloat (st2 b)), (''r_iss'', JInt (r_iss b)), (''r_sc'', JInt (r_sc b)), (''r_un'', JInt (r_un b)),
           (''r_bd'', JInt (r_bd b)), (''r_cv'', JInt (r_cv b))]"

definition totals_json :: "totals \<Rightarrow> json" where
  "totals_json t =
     JObj [(''issued'', JInt (t_issued t)), (''covered'', JInt (t_covered t)), (''missed'', JInt (t_missed t)),
           (''unscorable'', JInt (t_unscorable t)), (''prospective_gate_bounded'', JInt (t_prospective_gate_bounded t)),
           (''replay_gate_bounded'', JInt (t_replay_gate_bounded t))]"

text \<open>A dictionary with integer keys, written as decimal text.\<close>

definition by_number :: "('a \<Rightarrow> json) \<Rightarrow> (int \<times> 'a) list \<Rightarrow> json" where
  "by_number f d = JObj (map (\<lambda>(k, v). (show_int k, f v)) d)"

definition ledger_json :: "ledger \<Rightarrow> json" where
  "ledger_json l =
     JObj [(''schema'', JStr ''evidence-ledger/v2''), (''epoch'', JStr (l_epoch l)), (''model'', JStr (l_model l)),
           (''recipe'', JStr (l_recipe l)), (''interval_s'', JInt (l_interval_s l)),
           (''buckets'', by_number bucket_json (l_buckets l)), (''pending'', by_number JInt (l_pending l)),
           (''recent'', JList (map JInt (l_recent l))), (''consecutive_misses'', JInt (l_consecutive_misses l)),
           (''first_prospective_s'', opt_int (l_first_prospective_s l)), (''first_issue_s'', opt_int (l_first_issue_s l)),
           (''last_prospective_outcome_s'', opt_int (l_last_prospective_outcome_s l)),
           (''last_outcome_seq'', JInt (l_last_outcome_seq l)), (''last_issuance_seq'', JInt (l_last_issuance_seq l)),
           (''newest_s'', opt_int (l_newest_s l)), (''totals'', totals_json (l_totals l))]"

definition pair_bucket_json :: "pair_bucket \<Rightarrow> json" where
  "pair_bucket_json b =
     JObj [(''n'', JInt (pb_n b)), (''chal'', JFloat (pb_chal b)), (''base'', JFloat (pb_base b)), (''first'', JInt (pb_first b)),
           (''last'', JInt (pb_last b))]"

definition pairs_json :: "pairs \<Rightarrow> json" where
  "pairs_json p =
     JObj [(''epoch'', JStr (pr_epoch p)), (''challenger'', JStr (pr_challenger p)), (''baseline'', JStr (pr_baseline p)),
           (''recipes'', JObj (map (\<lambda>(m, r). (m, JStr r)) (pr_recipes p))),
           (''pending'', by_number (\<lambda>(m, loss, iid). JList [JStr m, JFloat loss, JStr iid]) (pr_pending p)),
           (''buckets'', by_number pair_bucket_json (pr_buckets p)), (''last_seq'', JInt (pr_last_seq p))]"

definition hyst_json :: "hysteresis \<Rightarrow> json" where
  "hyst_json h =
     JObj [(''epoch'', JStr (h_epoch h)), (''recipe'', JStr (h_recipe h)), (''trusted'', JBool (h_trusted h)),
           (''ever_trusted'', JBool (h_ever_trusted h)), (''demoted_at_s'', opt_int (h_demoted_at_s h)),
           (''bounds_at_demotion'', JInt (h_bounds_at_demotion h)), (''gates_ok_since_s'', opt_int (h_gates_ok_since_s h))]"

definition selection_json :: "selection \<Rightarrow> json" where
  "selection_json s =
     JObj [(''epoch'', opt_str (sel_epoch s)), (''selected'', opt_str (sel_selected s)), (''recipe'', opt_str (sel_recipe s)),
           (''since_s'', opt_int (sel_since_s s)), (''switches'', JInt (sel_switches s)),
           (''entry_since'', JObj (map (\<lambda>((m, r), t). (m @ '':'' @ r, JInt t)) (sel_entry_since s)))]"

definition trust_state_json :: "trust_state \<Rightarrow> json" where
  "trust_state_json t =
     JObj (map (\<lambda>(m, h). (m, hyst_json h)) (ts_hyst t) @
           (case ts_selection t of None \<Rightarrow> [] | Some s \<Rightarrow> [(SELECTION, selection_json s)]))"

definition model_state_json :: "model_state \<Rightarrow> json" where
  "model_state_json m =
     JObj [(''recipe'', JStr (ms_recipe m)), (''calibration'', cal_json (ms_calibration m)), (''ledger'', ledger_json (ms_ledger m))]"

definition state_json :: "service_state \<Rightarrow> json" where
  "state_json s =
     JObj [(''schema'', JStr STATE_SCHEMA), (''epoch'', JStr (ss_epoch s)), (''last_outcome_seq'', JInt (ss_last_outcome_seq s)),
           (''last_issuance_seq'', JInt (ss_last_issuance_seq s)),
           (''models'', JObj (map (\<lambda>(m, st). (m, model_state_json st)) (ss_models s))),
           (''trust'', trust_state_json (ss_trust s)), (''pairs'', JObj (map (\<lambda>(m, p). (m, pairs_json p)) (ss_pairs s)))]"

section \<open>Reading it back\<close>

fun the_float :: "json \<Rightarrow> pyfloat" where "the_float (JFloat x) = x" | "the_float _ = NaN"
fun the_bool :: "json \<Rightarrow> bool" where "the_bool (JBool b) = b" | "the_bool _ = False"
fun the_list :: "json \<Rightarrow> json list" where "the_list (JList xs) = xs" | "the_list _ = []"
fun the_obj :: "json \<Rightarrow> obj" where "the_obj (JObj kvs) = kvs" | "the_obj _ = []"
fun int_opt :: "json \<Rightarrow> int option" where "int_opt (JInt n) = Some n" | "int_opt _ = None"
fun str_opt :: "json \<Rightarrow> string option" where "str_opt (JStr s) = Some s" | "str_opt _ = None"

lemma opt_back [simp]: "int_opt (opt_int v) = v" "str_opt (opt_str w) = w"
  by (cases v; cases w; simp add: opt_int_def opt_str_def)+

definition read_counters :: "string \<Rightarrow> json \<Rightarrow> counters" where
  "read_counters total_key v =
     \<lparr> k_scored = the_int (get_obj v ''scored''), k_unscorable = the_int (get_obj v ''unscorable''),
       k_bounded = the_int (get_obj v ''bounded''), k_covered = the_int (get_obj v ''covered''),
       k_sum_rps = the_float (get_obj v total_key) \<rparr>"

definition read_cal :: "json \<Rightarrow> cal_state" where
  "read_cal v =
     \<lparr> s_epoch = the_str (get_obj v ''epoch''), s_model = the_str (get_obj v ''model''), s_recipe = the_str (get_obj v ''recipe''),
       a_e8 = the_int (get_obj v ''a_e8''),
       scores = map (\<lambda>x. (the_int (the_list x ! 0), the_float (the_list x ! 1))) (the_list (get_obj v ''scores'')),
       last_seq = the_int (get_obj v ''last_seq''), newest_window_end = int_opt (get_obj v ''newest_window_end''),
       all_counts = read_counters ''abs_error_sum_rps'' (get_obj v ''all''),
       gate_counts = read_counters ''pinball_sum_rps'' (get_obj v ''gate''),
       level_updates = the_int (get_obj v ''level_updates''), at_bound = the_int (get_obj v ''at_bound'') \<rparr>"

definition read_bucket :: "json \<Rightarrow> bucket" where
  "read_bucket v =
     (let n = (\<lambda>k. the_int (get_obj v k)); x = (\<lambda>k. the_float (get_obj v k)) in
      \<lparr> iss = n ''iss'', g_iss = n ''g_iss'', sc = n ''sc'', un = n ''un'', g_sc = n ''g_sc'', g_un = n ''g_un'', a_bd = n ''a_bd'',
        a_cv = n ''a_cv'', g_bd = n ''g_bd'', g_cv = n ''g_cv'', n_step = n ''n_step'', pin = x ''pin'', abs_err = x ''abs'',
        bias = x ''bias'', st0 = x ''st0'', st1 = x ''st1'', st2 = x ''st2'', r_iss = n ''r_iss'', r_sc = n ''r_sc'',
        r_un = n ''r_un'', r_bd = n ''r_bd'', r_cv = n ''r_cv'' \<rparr>)"

definition read_totals :: "json \<Rightarrow> totals" where
  "read_totals v =
     (let n = (\<lambda>k. the_int (get_obj v k)) in
      \<lparr> t_issued = n ''issued'', t_covered = n ''covered'', t_missed = n ''missed'', t_unscorable = n ''unscorable'',
        t_prospective_gate_bounded = n ''prospective_gate_bounded'', t_replay_gate_bounded = n ''replay_gate_bounded'' \<rparr>)"

definition from_numbers :: "(json \<Rightarrow> 'a) \<Rightarrow> json \<Rightarrow> (int \<times> 'a) list" where
  "from_numbers f v = map (\<lambda>(k, x). (read_int k, f x)) (the_obj v)"

definition read_ledger :: "json \<Rightarrow> ledger" where
  "read_ledger v =
     \<lparr> l_epoch = the_str (get_obj v ''epoch''), l_model = the_str (get_obj v ''model''), l_recipe = the_str (get_obj v ''recipe''),
       l_interval_s = the_int (get_obj v ''interval_s''), l_buckets = from_numbers read_bucket (get_obj v ''buckets''),
       l_pending = from_numbers the_int (get_obj v ''pending''), l_recent = map the_int (the_list (get_obj v ''recent'')),
       l_consecutive_misses = the_int (get_obj v ''consecutive_misses''),
       l_first_prospective_s = int_opt (get_obj v ''first_prospective_s''), l_first_issue_s = int_opt (get_obj v ''first_issue_s''),
       l_last_prospective_outcome_s = int_opt (get_obj v ''last_prospective_outcome_s''),
       l_last_outcome_seq = the_int (get_obj v ''last_outcome_seq''), l_last_issuance_seq = the_int (get_obj v ''last_issuance_seq''),
       l_newest_s = int_opt (get_obj v ''newest_s''), l_totals = read_totals (get_obj v ''totals'') \<rparr>"

definition read_pairs :: "json \<Rightarrow> pairs" where
  "read_pairs v =
     \<lparr> pr_epoch = the_str (get_obj v ''epoch''), pr_challenger = the_str (get_obj v ''challenger''),
       pr_baseline = the_str (get_obj v ''baseline''), pr_recipes = map (\<lambda>(m, r). (m, the_str r)) (the_obj (get_obj v ''recipes'')),
       pr_pending = from_numbers (\<lambda>x. (the_str (the_list x ! 0), the_float (the_list x ! 1), the_str (the_list x ! 2)))
         (get_obj v ''pending''),
       pr_buckets = from_numbers (\<lambda>b. \<lparr> pb_n = the_int (get_obj b ''n''), pb_chal = the_float (get_obj b ''chal''),
           pb_base = the_float (get_obj b ''base''), pb_first = the_int (get_obj b ''first''), pb_last = the_int (get_obj b ''last'') \<rparr>)
         (get_obj v ''buckets''),
       pr_last_seq = the_int (get_obj v ''last_seq'') \<rparr>"

definition read_hyst :: "json \<Rightarrow> hysteresis" where
  "read_hyst v =
     \<lparr> h_epoch = the_str (get_obj v ''epoch''), h_recipe = the_str (get_obj v ''recipe''), h_trusted = the_bool (get_obj v ''trusted''),
       h_ever_trusted = the_bool (get_obj v ''ever_trusted''), h_demoted_at_s = int_opt (get_obj v ''demoted_at_s''),
       h_bounds_at_demotion = the_int (get_obj v ''bounds_at_demotion''), h_gates_ok_since_s = int_opt (get_obj v ''gates_ok_since_s'') \<rparr>"

definition split_colon :: "string \<Rightarrow> string \<times> string" where
  "split_colon s = (takeWhile (\<lambda>c. c \<noteq> CHR '':'') s, tl (dropWhile (\<lambda>c. c \<noteq> CHR '':'') s))"

definition read_selection :: "json \<Rightarrow> selection" where
  "read_selection v =
     \<lparr> sel_epoch = str_opt (get_obj v ''epoch''), sel_selected = str_opt (get_obj v ''selected''), sel_recipe = str_opt (get_obj v ''recipe''),
       sel_since_s = int_opt (get_obj v ''since_s''), sel_switches = the_int (get_obj v ''switches''),
       sel_entry_since = map (\<lambda>(k, t). (split_colon k, the_int t)) (the_obj (get_obj v ''entry_since'')) \<rparr>"

definition read_trust :: "json \<Rightarrow> trust_state" where
  "read_trust v =
     \<lparr> ts_hyst = map (\<lambda>(m, h). (m, read_hyst h)) (filter (\<lambda>(m, _). m \<noteq> SELECTION) (the_obj v)),
       ts_selection = map_option read_selection (dict_get (the_obj v) SELECTION) \<rparr>"

definition read_model_state :: "json \<Rightarrow> model_state" where
  "read_model_state v =
     \<lparr> ms_recipe = the_str (get_obj v ''recipe''), ms_calibration = read_cal (get_obj v ''calibration''),
       ms_ledger = read_ledger (get_obj v ''ledger'') \<rparr>"

definition read_state :: "json \<Rightarrow> service_state" where
  "read_state v =
     \<lparr> ss_epoch = the_str (get_obj v ''epoch''), ss_last_outcome_seq = the_int (get_obj v ''last_outcome_seq''),
       ss_last_issuance_seq = the_int (get_obj v ''last_issuance_seq''),
       ss_models = map (\<lambda>(m, st). (m, read_model_state st)) (the_obj (get_obj v ''models'')),
       ss_trust = read_trust (get_obj v ''trust''), ss_pairs = map (\<lambda>(m, p). (m, read_pairs p)) (the_obj (get_obj v ''pairs'')) \<rparr>"

definition load_state :: "json \<Rightarrow> service_state option" where
  "load_state v = (let s = read_state v in if state_json s = v then Some s else None)"

section \<open>The round trip\<close>

lemma read_cal_json [simp]: "read_cal (cal_json s) = s"
  by (simp add: read_cal_def cal_json_def read_counters_def counters_json_def o_def split_beta get_obj.simps)

lemma read_bucket_json [simp]: "read_bucket (bucket_json b) = b"
  by (simp add: read_bucket_def bucket_json_def get_obj.simps)

lemma read_totals_json [simp]: "read_totals (totals_json t) = t"
  by (simp add: read_totals_def totals_json_def get_obj.simps)

lemma from_numbers_by_number [simp]: "(\<And>x. f (g x) = x) \<Longrightarrow> from_numbers f (by_number g d) = d"
  by (simp add: from_numbers_def by_number_def o_def split_beta)

lemma read_ledger_json [simp]: "read_ledger (ledger_json l) = l"
  by (simp add: read_ledger_def ledger_json_def o_def get_obj.simps)

lemma read_pairs_json [simp]: "read_pairs (pairs_json p) = p"
  by (simp add: read_pairs_def pairs_json_def pair_bucket_json_def o_def split_beta get_obj.simps)

lemma read_hyst_json [simp]: "read_hyst (hyst_json h) = h"
  by (simp add: read_hyst_def hyst_json_def get_obj.simps)

lemma split_colon_key: "CHR '':'' \<notin> set m \<Longrightarrow> split_colon (m @ '':'' @ r) = (m, r)"
  by (induction m) (auto simp: split_colon_def)

text \<open>The states the service builds: no model has the reserved name of the selection or a colon in its name.\<close>

definition selection_shape :: "selection \<Rightarrow> bool" where
  "selection_shape s \<longleftrightarrow> list_all (\<lambda>((m, r), t). CHR '':'' \<notin> set m) (sel_entry_since s)"

definition trust_shape :: "trust_state \<Rightarrow> bool" where
  "trust_shape t \<longleftrightarrow> list_all (\<lambda>(m, h). m \<noteq> SELECTION) (ts_hyst t) \<and>
     (case ts_selection t of None \<Rightarrow> True | Some s \<Rightarrow> selection_shape s)"

lemma read_selection_json: "selection_shape s \<Longrightarrow> read_selection (selection_json s) = s"
proof -
  assume "selection_shape s"
  then have "map (\<lambda>x. (split_colon (fst (fst x) @ '':'' @ snd (fst x)), snd x)) (sel_entry_since s) = sel_entry_since s"
    by (intro map_idI) (auto simp: selection_shape_def list_all_iff split_colon_key simp del: append_Cons append_Nil)
  then show ?thesis
    by (simp add: read_selection_def selection_json_def o_def split_beta get_obj.simps)
qed

lemma read_trust_json:
  assumes "trust_shape t"
  shows "read_trust (trust_state_json t) = t"
proof -
  have "filter (\<lambda>(m, _). m \<noteq> SELECTION) (map (\<lambda>(m, h). (m, hyst_json h)) (ts_hyst t)) =
          map (\<lambda>(m, h). (m, hyst_json h)) (ts_hyst t)"
    and "dict_get (map (\<lambda>(m, h). (m, hyst_json h)) (ts_hyst t)) SELECTION = None"
    using assms by (auto simp: trust_shape_def list_all_iff filter_id_conv map_of_eq_None_iff)
  then show ?thesis
    using assms by (cases t; cases "ts_selection t")
      (auto simp: read_trust_def trust_state_json_def trust_shape_def read_selection_json map_add_def o_def split_beta)
qed

lemma read_model_state_json [simp]: "read_model_state (model_state_json m) = m"
  by (simp add: read_model_state_def model_state_json_def get_obj.simps)

lemma read_state_json: "trust_shape (ss_trust s) \<Longrightarrow> read_state (state_json s) = s"
  by (simp add: read_state_def state_json_def read_trust_json o_def split_beta get_obj.simps)

lemma load_state_json: "trust_shape (ss_trust s) \<Longrightarrow> load_state (state_json s) = Some s"
  by (simp add: load_state_def read_state_json)

lemma load_state_eq: "load_state v = Some s \<Longrightarrow> v = state_json s"
  by (auto simp: load_state_def Let_def split: if_splits)

end
