(* ===== verification/Service.thy ===== *)
theory Service
  imports Service_State Evidence Worker Metrics Wire
begin

text \<open>
  \<^verbatim>\<open>forecasting/service.py\<close>: one request of the statistical service, end to end, composed of the components below it.
  The state of the service is its journal, its artifacts and fit worker, its metrics and the cluster its reader reads;
  a request threads that state and ends with a JSON answer or an exception. What a request reads from outside is its
  \<open>request_env\<close>: the readings of the receipt clock in the order the code makes them, the history exchange, and for every
  call of the journal the environment of that call (a read is named by what it reads). The time functions, hashes,
  formats and numeric routines the components take as arguments are together the record \<open>lib\<close>.

  Requests run one after another here: the code holds \<open>_lock\<close> from the first journal access to the answer, and
  what precedes it touches only the cluster and the registration.
\<close>

section \<open>Configuration, errors and state\<close>

definition REFIT_SECONDS :: int where "REFIT_SECONDS = 6 * 3600"
definition RECIPES :: "(string \<times> string) list" where
  "RECIPES = [(''seasonal_naive'', RECIPE_NAIVE), (''statistical'', RECIPE_E1)]"
definition RELEASE_GATES_PASSED :: bool where "RELEASE_GATES_PASSED = False"
definition REQUIRED_HISTORY_SECONDS :: "(string \<times> int) list" where
  "REQUIRED_HISTORY_SECONDS = [(''seasonal_naive'', DAY), (''statistical'', 7 * DAY)]"
definition RETENTION_S :: int where "RETENTION_S = 7 * DAY"

datatype fit_mode = FitWorkerMode | FitInline | FitOff

record service_config =
  sf_fit_mode :: fit_mode
  sf_max_autoscalers :: nat
  sf_quota_bytes :: int
  sf_store_id :: "string option"
  sf_retention_seconds :: int
  sf_compact_every_seconds :: int

datatype service_exn =
    ExService int string                \<comment> \<open>\<open>ServiceError\<close>: HTTP status and reason\<close>
  | ExStore store_error
  | ExContract contract_error
  | ExHistory history_error
  | ExKernel kernel_error
  | ExArtifact artifact_error
  | ExEvidence evidence_error
  | ExCalibration calibration_error
  | ExTrust trust_error
  | ExMaturation mat_error
  | ExMetrics metrics_error
  | ExValue                             \<comment> \<open>\<open>ValueError\<close> of an inconsistent policy\<close>
  | ExRaised                            \<comment> \<open>\<open>KeyError\<close>, \<open>TypeError\<close>, \<open>AttributeError\<close> or \<open>IndexError\<close> of a malformed object\<close>

record lib =
  lb_cd :: Store.codec
  lb_ac :: Artifacts.codec
  lb_np :: numlib
  lb_ws :: worker_settings

abbreviation lb_sha :: "lib \<Rightarrow> string \<Rightarrow> string" where
  "lb_sha L \<equiv> cd_sha (lb_cd L)"

record 's service =
  sv_store :: "store option"
  sv_store_problem :: "string option"
  sv_dir :: artifact_dir                \<comment> \<open>the artifacts when there is no worker\<close>
  sv_worker :: "worker option"          \<comment> \<open>shares its directory with the service\<close>
  sv_metrics :: forecast_metrics
  sv_compacted_s :: "int option"
  sv_cluster :: 's

record request_env =
  rv_request_ms :: int                  \<comment> \<open>clock readings: at entry, for freshness, under the lock, in \<open>_build\<close>, before the commit\<close>
  rv_fresh_ms :: int
  rv_issue_ms :: int
  rv_build_ms :: int
  rv_stamp_ms :: int
  rv_history :: read_env
  rv_fault :: "string \<Rightarrow> io_fault option"
  rv_record_env :: env
  rv_outcome_env :: "string \<Rightarrow> string \<Rightarrow> env"
  rv_decide_env :: env
  rv_commit_env :: env
  rv_final_env :: env
  rv_compact_env :: env
  rv_writes :: "write_outcome \<times> write_outcome"

section \<open>Construction and status\<close>

text \<open>\<open>file\<close> is the journal file found in the state directory, \<open>dir\<close> the artifacts found there.\<close>

definition new_service ::
  "service_config \<Rightarrow> lib \<Rightarrow> env \<Rightarrow> db option \<Rightarrow> string \<Rightarrow> artifact_dir \<Rightarrow> 's \<Rightarrow> 's service" where
  "new_service cfg L en file random_id dir cluster =
     (let opened = open_store en file (sf_store_id cfg) random_id (sf_quota_bytes cfg) (sf_retention_seconds cfg)
                     (max (sf_retention_seconds cfg) (28 * DAY)) 8192 in
      \<lparr> sv_store = (case opened of Inl _ \<Rightarrow> None | Inr s \<Rightarrow> Some s),
        sv_store_problem = (case opened of Inl _ \<Rightarrow> Some ''journal'' | Inr _ \<Rightarrow> None),
        sv_dir = dir, sv_worker = (if sf_fit_mode cfg = FitWorkerMode then Some (new_worker (lb_ws L) dir) else None),
        sv_metrics = new_metrics (sf_max_autoscalers cfg) MAX_SERIES_PER_AUTOSCALER, sv_compacted_s = None,
        sv_cluster = cluster \<rparr>)"

definition store_healthy :: "'s service \<Rightarrow> bool" where
  "store_healthy sv \<longleftrightarrow> (case sv_store sv of None \<Rightarrow> False | Some s \<Rightarrow> healthy s)"

definition ready :: "'s service \<Rightarrow> bool" where
  "ready sv \<longleftrightarrow> store_healthy sv"

definition health :: "'s service \<Rightarrow> obj" where
  "health sv =
     [(''status'', JStr ''healthy''), (''state'', JStr (if store_healthy sv then ''healthy'' else ''unavailable'')),
      (''state_problem'', opt_str (case sv_store_problem sv of
          Some p \<Rightarrow> Some p | None \<Rightarrow> (case sv_store sv of None \<Rightarrow> None | Some s \<Rightarrow> st_problem s))),
      (''forecast_contract'', JStr FORECAST_CONTRACT), (''release_gates_passed'', JBool RELEASE_GATES_PASSED)]"

definition artifacts_dir :: "'s service \<Rightarrow> artifact_dir" where
  "artifacts_dir sv = (case sv_worker sv of None \<Rightarrow> sv_dir sv | Some w \<Rightarrow> w_dir w)"

definition set_artifacts :: "artifact_dir \<Rightarrow> 's service \<Rightarrow> 's service" where
  "set_artifacts d sv =
     (case sv_worker sv of None \<Rightarrow> sv\<lparr> sv_dir := d \<rparr> | Some w \<Rightarrow> sv\<lparr> sv_worker := Some (w\<lparr> w_dir := d \<rparr>) \<rparr>)"

definition forget :: "string \<Rightarrow> string \<Rightarrow> 's service \<Rightarrow> 's service" where
  "forget ns autoscaler sv = sv\<lparr> sv_metrics := remove_metrics ns autoscaler (sv_metrics sv) \<rparr>"

text \<open>Shutdown: the worker starts to close (its threads then run to the end by the steps of \<open>Worker\<close>). Closing the database
  handle leaves the file as it is.\<close>

definition close_service :: "'s service \<Rightarrow> 's service" where
  "close_service sv = sv\<lparr> sv_worker := map_option close_worker (sv_worker sv) \<rparr>"

section \<open>Steps of a request\<close>

type_synonym ('s, 'a) outcome_of = "(service_exn + 'a) \<times> 's service"

text \<open>A value that may raise, without touching the service.\<close>

abbreviation pure_step :: "service_exn + 'a \<Rightarrow> 's service \<Rightarrow> ('s, 'a) outcome_of" where
  "pure_step r sv \<equiv> (r, sv)"

abbreviation raising :: "('e \<Rightarrow> service_exn) \<Rightarrow> 'e + 'a \<Rightarrow> service_exn + 'a" where
  "raising f r \<equiv> map_sum f id r"

definition some_or :: "service_exn \<Rightarrow> 'a option \<Rightarrow> service_exn + 'a" where
  "some_or e v = (case v of None \<Rightarrow> Inl e | Some x \<Rightarrow> Inr x)"

fun for_each :: "('a \<Rightarrow> 's service \<Rightarrow> ('s, unit) outcome_of) \<Rightarrow> 'a list \<Rightarrow> 's service \<Rightarrow> ('s, unit) outcome_of" where
  "for_each f [] sv = (Inr (), sv)"
| "for_each f (x # xs) sv = st_bind (f x sv) (\<lambda>_. for_each f xs)"

fun fold_res :: "('a \<Rightarrow> 'b \<Rightarrow> 'e + 'b) \<Rightarrow> 'a list \<Rightarrow> 'b \<Rightarrow> 'e + 'b" where
  "fold_res f [] b = Inr b"
| "fold_res f (x # xs) b = bind_res (f x b) (fold_res f xs)"

text \<open>A call of the journal, and a guarded read of it, which SQLite may fail.\<close>

definition on_store :: "(store \<Rightarrow> (store_error + 'a) \<times> store) \<Rightarrow> 's service \<Rightarrow> ('s, 'a) outcome_of" where
  "on_store f sv =
     (case sv_store sv of
        None \<Rightarrow> (Inl ExRaised, sv)
      | Some s \<Rightarrow> (case f s of (r, s') \<Rightarrow> (raising ExStore r, sv\<lparr> sv_store := Some s' \<rparr>)))"

definition read_store :: "request_env \<Rightarrow> string \<Rightarrow> (db \<Rightarrow> store_error + 'a) \<Rightarrow> store \<Rightarrow> (store_error + 'a) \<times> store" where
  "read_store rv what f s =
     guard what s (case rv_fault rv what of Some fl \<Rightarrow> Inl (fault_error fl) | None \<Rightarrow> f (st_db s), st_db s)"

section \<open>Closing windows\<close>

definition close_window ::
  "lib \<Rightarrow> request_env \<Rightarrow> forecast_settings \<Rightarrow> receipt_map \<Rightarrow> int \<Rightarrow> string \<Rightarrow> issuance \<Rightarrow> 's service \<Rightarrow> ('s, unit) outcome_of" where
  "close_window L rv s received now_ms model i =
     (\<lambda>sv. st_bind (pure_step (some_or ExRaised (bundle_of (is_payload i))) sv) (\<lambda>b sv.
      st_bind (pure_step (raising ExMaturation (issued_outcome (lb_sha L) (Store.cd_fmt (lb_cd L)) b model received now_ms
                 (settlement_seconds s) (outcome_grace_seconds s) None)) sv) (\<lambda>res sv.
      case res of
        None \<Rightarrow> (Inr (), sv)
      | Some p \<Rightarrow>
          st_bind (on_store (commit_outcome (lb_cd L) (rv_outcome_env rv (is_id i) model) (is_id i) model (status_of p)
                     (outcome_json p)) sv) (\<lambda>_ sv. (Inr (), sv)))))"

definition close_windows ::
  "lib \<Rightarrow> request_env \<Rightarrow> forecast_settings \<Rightarrow> string \<Rightarrow> receipt_map \<Rightarrow> int \<Rightarrow> string \<Rightarrow> 's service \<Rightarrow> ('s, unit) outcome_of" where
  "close_windows L rv s ek received now_ms model sv =
     st_bind (on_store (read_store rv (''open '' @ model)
                (open_issuances (lb_cd L) ek model (now_ms div 1000 - settlement_seconds s))) sv)
       (for_each (close_window L rv s received now_ms model))"

section \<open>The state of an epoch\<close>

definition initial_state :: "string \<Rightarrow> service_state" where
  "initial_state ek =
     \<lparr> ss_epoch = ek, ss_last_outcome_seq = 0, ss_last_issuance_seq = 0, ss_models = [],
       ss_trust = \<lparr> ts_hyst = [], ts_selection = None \<rparr>,
       ss_pairs = [(''statistical'', new_pairs ek ''statistical'' RECIPE_E1 RECIPE_NAIVE NAIVE)] \<rparr>"

definition model_state_of ::
  "service_state \<Rightarrow> string \<Rightarrow> string \<Rightarrow> calibration_policy \<Rightarrow> string \<Rightarrow> int \<Rightarrow> model_state" where
  "model_state_of st model recipe p ek dt =
     (let fresh = \<lparr> ms_recipe = recipe, ms_calibration = cal_initial p ek model recipe,
                    ms_ledger = new_ledger ek model recipe dt \<rparr> in
      case dict_get (ss_models st) model of
        None \<Rightarrow> fresh
      | Some m \<Rightarrow> if ms_recipe m \<noteq> recipe then fresh else m)"

definition set_model :: "string \<Rightarrow> model_state \<Rightarrow> service_state \<Rightarrow> service_state" where
  "set_model model m st = st\<lparr> ss_models := dict_set model m (ss_models st) \<rparr>"

text \<open>What a fold of a request depends on besides the journal.\<close>

record fold_env =
  fe_settings :: forecast_settings
  fe_policy :: calibration_policy
  fe_epoch :: string

abbreviation fe_dt :: "fold_env \<Rightarrow> int" where
  "fe_dt fe \<equiv> sample_interval_seconds (fe_settings fe)"

definition fold_candidate :: "fold_env \<Rightarrow> issuance \<Rightarrow> issued_bundle \<Rightarrow> string \<Rightarrow> service_state \<Rightarrow> service_exn + service_state" where
  "fold_candidate fe i b model st =
     bind_res (raising ExMaturation (candidate b model)) (\<lambda>c.
       let m = model_state_of st model (c_recipe c) (fe_policy fe) (fe_epoch fe) (fe_dt fe); k = is_key i in
       bind_res (raising ExTrust (note_issuance (ms_ledger m)
           \<lparr> n_seq = is_seq i, n_issuance_id = is_id i, n_epoch = fe_epoch fe, n_model = model, n_recipe = c_recipe c,
             n_origin = ik_decision_origin k, n_window_end = ik_window_end k,
             n_deadline_s = ik_window_end k + settlement_seconds (fe_settings fe) + outcome_grace_seconds (fe_settings fe),
             n_mode = bd_evidence_mode b, n_bounded = (c_upper c \<noteq> None) \<rparr>
           (p_lead_seconds (fe_policy fe)) RETENTION_S)) (\<lambda>l.
         Inr (set_model model (m\<lparr> ms_ledger := l \<rparr>) st)))"

definition fold_issuance :: "fold_env \<Rightarrow> issuance \<Rightarrow> service_state \<Rightarrow> service_exn + service_state" where
  "fold_issuance fe i st =
     bind_res (some_or ExRaised (bundle_of (is_payload i))) (\<lambda>b.
     bind_res (fold_res (fold_candidate fe i b) (is_models i) st) (\<lambda>st.
       Inr (st\<lparr> ss_last_issuance_seq := is_seq i \<rparr>)))"

definition fold_outcome :: "(string \<Rightarrow> string) \<Rightarrow> fold_env \<Rightarrow> issuance \<Rightarrow> outcome \<Rightarrow> service_state \<Rightarrow> service_exn + service_state" where
  "fold_outcome sha fe i z st =
     (let p = fe_policy fe; lead = p_lead_seconds p; nominal = nominal_ratio p in
      bind_res (raising ExEvidence (evidence_from_journal sha i z)) (\<lambda>rec.
      let m = model_state_of st (oc_model z) (cr_recipe (e_cal rec)) p (fe_epoch fe) (fe_dt fe) in
      bind_res (raising ExCalibration (apply_record (ms_calibration m) (e_cal rec) p)) (\<lambda>c.
      bind_res (raising ExTrust (note_outcome (ms_ledger m) rec lead nominal
                  (nat (acute_recent_windows (trust (fe_settings fe)))) RETENTION_S)) (\<lambda>l.
      let st1 = set_model (oc_model z) (m\<lparr> ms_calibration := c, ms_ledger := l \<rparr>) st in
      bind_res (some_or ExRaised (dict_get (ss_pairs st1) ''statistical'')) (\<lambda>prs.
      bind_res (raising ExTrust (note_pair prs rec lead nominal RETENTION_S)) (\<lambda>prs.
        Inr (st1\<lparr> ss_pairs := dict_set ''statistical'' prs (ss_pairs st1), ss_last_outcome_seq := oc_seq z \<rparr>)))))))"

fun fold_outcomes_from ::
  "lib \<Rightarrow> request_env \<Rightarrow> string \<Rightarrow> fold_env \<Rightarrow> outcome list \<Rightarrow> service_state \<Rightarrow> 's service \<Rightarrow> ('s, service_state) outcome_of" where
  "fold_outcomes_from L rv tag fe [] st sv = (Inr st, sv)"
| "fold_outcomes_from L rv tag fe (z # zs) st sv =
     st_bind (on_store (read_store rv (tag @ ''issuance '' @ oc_issuance_id z) (get_issuance_by_id (lb_cd L) (oc_issuance_id z))) sv)
       (\<lambda>i sv. st_bind (pure_step (bind_res (some_or ExRaised i) (\<lambda>i. fold_outcome (lb_sha L) fe i z st)) sv)
         (\<lambda>st. fold_outcomes_from L rv tag fe zs st))"

definition load_epoch :: "lib \<Rightarrow> request_env \<Rightarrow> string \<Rightarrow> 's service \<Rightarrow> ('s, service_state) outcome_of" where
  "load_epoch L rv ek sv =
     st_bind (on_store (read_store rv ''checkpoint'' (latest_checkpoint (lb_cd L) ek)) sv) (\<lambda>cp sv.
       (case cp of None \<Rightarrow> Inr (initial_state ek) | Some c \<Rightarrow> some_or ExRaised (load_state (cp_state c)), sv))"

definition fold_journal ::
  "lib \<Rightarrow> request_env \<Rightarrow> string \<Rightarrow> fold_env \<Rightarrow> service_state \<Rightarrow> 's service \<Rightarrow> ('s, service_state) outcome_of" where
  "fold_journal L rv tag fe st sv =
     st_bind (on_store (read_store rv (tag @ ''issuances'') (issuances_after (lb_cd L) (fe_epoch fe) (ss_last_issuance_seq st))) sv)
       (\<lambda>is sv. st_bind (pure_step (fold_res (fold_issuance fe) is st) sv) (\<lambda>st sv.
        st_bind (on_store (read_store rv (tag @ ''outcomes'') (outcomes_after (lb_cd L) (fe_epoch fe) (ss_last_outcome_seq st))) sv)
          (\<lambda>zs. fold_outcomes_from L rv tag fe zs st)))"

text \<open>A request recovers twice; \<open>tag\<close> tells its reads apart.\<close>

definition recover_state ::
  "lib \<Rightarrow> request_env \<Rightarrow> string \<Rightarrow> fold_env \<Rightarrow> service_state option \<Rightarrow> 's service \<Rightarrow> ('s, service_state) outcome_of" where
  "recover_state L rv tag fe st sv =
     st_bind (case st of Some st \<Rightarrow> (Inr st, sv) | None \<Rightarrow> load_epoch L rv (fe_epoch fe) sv) (fold_journal L rv tag fe)"

section \<open>Fits\<close>

text \<open>The fit a decoded artifact denotes. Its settings were compared with \<open>ks\<close> by \<open>decode\<close>; an accepted manifest with values
  of other types than \<open>encode_e1\<close> writes has none, and using it is a \<open>TypeError\<close>.\<close>

definition hw_of :: "decoded_fit \<Rightarrow> hw_state option" where
  "hw_of f =
     (let x = (\<lambda>k. as_float (get_obj (JObj (df_hw f)) k)); n = (\<lambda>k. as_int (get_obj (JObj (df_hw f)) k)) in
      case (x ''alpha'', x ''beta'', x ''gamma'', x ''level'', x ''trend'', x ''sse'', n ''n_train'', n ''segment_start'') of
        (Some al, Some be, Some ga, Some lv, Some tr, Some e, Some nt, Some sg) \<Rightarrow>
          Some \<lparr> hw_alpha = al, hw_beta = be, hw_gamma = ga, hw_level = lv, hw_trend = tr, hw_season = df_season f,
                 hw_sse = e, hw_n_train = nt, hw_segment_start = sg \<rparr>
      | _ \<Rightarrow> None)"

definition as_fit :: "kernel_settings \<Rightarrow> decoded_fit \<Rightarrow> e1_fit option" where
  "as_fit ks f =
     (case (hw_of f, as_int (df_cutoff f), as_int (df_interval_seconds f), as_int (df_ar_rows f), as_int (df_input_lo f),
            as_str (df_input_sha256 f)) of
        (Some hw, Some cutoff, Some interval, Some rows, Some lo, Some hash) \<Rightarrow>
          Some \<lparr> ef_cutoff = cutoff, ef_interval_seconds = interval, ef_hw = hw, ef_ar_coef = df_ar_coef f,
                 ef_ar_rows = rows, ef_input_lo = lo, ef_input_sha256 = hash, ef_settings = ks \<rparr>
      | _ \<Rightarrow> None)"

type_synonym loaded_fit = "(string \<times> e1_fit) option"

text \<open>\<open>load_snapshot\<close> where a refusal is no fit; other exceptions escape.\<close>

definition snapshot_fit :: "lib \<Rightarrow> artifact_dir \<Rightarrow> artifact_binding \<Rightarrow> kernel_settings \<Rightarrow> int \<Rightarrow> service_exn + loaded_fit" where
  "snapshot_fit L dir b ks input_end =
     bind_res (raising ExArtifact (load_snapshot (lb_sha L) (lb_ac L) dir b ks input_end)) (\<lambda>snap.
       case snap of
         None \<Rightarrow> Inr None
       | Some (hash, f) \<Rightarrow> bind_res (some_or ExRaised (as_fit ks f)) (\<lambda>f. Inr (Some (hash, f))))"

fun artifact_refused :: "service_exn \<Rightarrow> bool" where
  "artifact_refused (ExArtifact (ArtifactRefused _)) = True"
| "artifact_refused _ = False"

text \<open>The exceptions the inline fit swallows: \<open>KernelUnavailable\<close>, \<open>ArtifactRefused\<close>, \<open>OSError\<close>.\<close>

fun fit_swallowed :: "service_exn \<Rightarrow> bool" where
  "fit_swallowed (ExKernel (KernelUnavailable _)) = True"
| "fit_swallowed (ExArtifact (ArtifactRefused _)) = True"
| "fit_swallowed (ExArtifact ArtifactOSError) = True"
| "fit_swallowed _ = False"

definition inline_fit ::
  "lib \<Rightarrow> request_env \<Rightarrow> series \<Rightarrow> int \<Rightarrow> kernel_settings \<Rightarrow> artifact_binding \<Rightarrow> artifact_dir \<Rightarrow>
     (service_exn + string \<times> e1_fit) \<times> artifact_dir" where
  "inline_fit L rv s input_end ks b dir =
     (case bind_res (raising ExKernel (fit_e1 (lb_sha L) (lb_np L) s input_end ks)) (\<lambda>f.
             raising ExArtifact (encode_e1 (lb_sha L) (lb_ac L) f b)) of
        Inl e \<Rightarrow> (Inl e, dir)
      | Inr data \<Rightarrow>
          (case promote (lb_sha L) (lb_ac L) (fst (rv_writes rv)) (snd (rv_writes rv)) b data ks dir of
             (Inl e, dir) \<Rightarrow> (Inl (ExArtifact e), dir)
           | (Inr _, dir) \<Rightarrow>
               (bind_res (snapshot_fit L dir b ks input_end) (some_or ExRaised), dir)))"

definition fit_due :: "series \<Rightarrow> int \<Rightarrow> kernel_settings \<Rightarrow> loaded_fit \<Rightarrow> bool" where
  "fit_due s input_end ks fit \<longleftrightarrow>
     (case fit of None \<Rightarrow> True | Some (_, f) \<Rightarrow> REFIT_SECONDS \<le> input_end - ef_cutoff f) \<and>
     ks_min_history_days ks * DAY \<le> input_end - sr_start s + ks_interval_seconds ks"

definition queue_fit ::
  "lib \<Rightarrow> series \<Rightarrow> int \<Rightarrow> kernel_settings \<Rightarrow> artifact_binding \<Rightarrow> loaded_fit \<Rightarrow> 's service \<Rightarrow> ('s, loaded_fit) outcome_of" where
  "queue_fit L s input_end ks b fit sv =
     (case sv_worker sv of
        None \<Rightarrow> (Inr fit, sv)
      | Some w \<Rightarrow>
          (case make_payload (lb_np L) s input_end ks b of
             Inl e \<Rightarrow> (Inl (ExKernel e), sv)
           | Inr p \<Rightarrow> (Inr fit, sv\<lparr> sv_worker := Some (snd (submit (lb_sha L) (lb_ws L) b RECIPE_E1 p w)) \<rparr>)))"

definition fit_after ::
  "lib \<Rightarrow> service_config \<Rightarrow> request_env \<Rightarrow> series \<Rightarrow> int \<Rightarrow> kernel_settings \<Rightarrow> artifact_binding \<Rightarrow> loaded_fit \<Rightarrow> 's service \<Rightarrow>
     ('s, loaded_fit) outcome_of" where
  "fit_after L cfg rv s input_end ks b fit sv =
     (if \<not> fit_due s input_end ks fit then (Inr fit, sv)
      else case sf_fit_mode cfg of
        FitInline \<Rightarrow>
          (case inline_fit L rv s input_end ks b (artifacts_dir sv) of
             (Inr new, dir) \<Rightarrow> (Inr (Some new), set_artifacts dir sv)
           | (Inl e, dir) \<Rightarrow> (if fit_swallowed e then Inr fit else Inl e, set_artifacts dir sv))
      | FitWorkerMode \<Rightarrow> queue_fit L s input_end ks b fit sv
      | FitOff \<Rightarrow> (Inr fit, sv))"

definition fit_for ::
  "lib \<Rightarrow> service_config \<Rightarrow> request_env \<Rightarrow> bound_request \<Rightarrow> series \<Rightarrow> int \<Rightarrow> kernel_settings \<Rightarrow> 's service \<Rightarrow>
     ('s, loaded_fit) outcome_of" where
  "fit_for L cfg rv bound s input_end ks sv =
     (let b = for_signal (b_signal bound) (b_settings bound) RECIPE_E1; dir = artifacts_dir sv in
      case snapshot_fit L dir b ks input_end of
        Inl e \<Rightarrow>
          if \<not> artifact_refused e then (Inl e, sv)
          else fit_after L cfg rv s input_end ks b None sv
      | Inr fit \<Rightarrow> fit_after L cfg rv s input_end ks b fit sv)"

section \<open>The bundle\<close>

record model_points =
  mp_model :: string
  mp_points :: "pyfloat list"
  mp_fit :: "(string \<times> int) option"      \<comment> \<open>digest and cutoff of the fit\<close>

text \<open>A family that is unavailable is left out; any other exception of a kernel escapes.\<close>

definition if_available :: "(pyfloat list \<Rightarrow> model_points) \<Rightarrow> kernel_error + pyfloat list \<Rightarrow> service_exn + model_points list" where
  "if_available f r =
     (case r of Inr ps \<Rightarrow> Inr [f ps] | Inl (KernelUnavailable _) \<Rightarrow> Inr [] | Inl e \<Rightarrow> Inl (ExKernel e))"

definition naive_points :: "series \<Rightarrow> int \<Rightarrow> int list \<Rightarrow> kernel_settings \<Rightarrow> service_exn + model_points list" where
  "naive_points s input_end targets ks =
     if_available (\<lambda>ps. \<lparr> mp_model = ''seasonal_naive'', mp_points = ps, mp_fit = None \<rparr>) (seasonal_naive s input_end targets ks)"

definition statistical_points ::
  "lib \<Rightarrow> loaded_fit \<Rightarrow> series \<Rightarrow> int \<Rightarrow> int list \<Rightarrow> kernel_settings \<Rightarrow> service_exn + model_points list" where
  "statistical_points L fit s input_end targets ks =
     (case fit of
        None \<Rightarrow> Inr []
      | Some (hash, f) \<Rightarrow>
          if_available (\<lambda>ps. \<lparr> mp_model = ''statistical'', mp_points = ps, mp_fit = Some (hash, ef_cutoff f) \<rparr>)
            (map_sum id fc_points (forecast_e1 (lb_np L) f s input_end targets ks)))"

definition info_json :: "bound_info \<Rightarrow> json" where
  "info_json i =
     JObj ([(''n'', JInt (i_n i)), (''rank'', JInt (i_rank i)), (''working_miscoverage'', JFloat (i_working i))] @
       (case i_unavailable i of
          None \<Rightarrow> [] | Some CalibrationInsufficient \<Rightarrow> [(''unavailable'', JStr ''CalibrationInsufficient'')]
        | Some RankOverflow \<Rightarrow> [(''unavailable'', JStr ''RankOverflow'')]) @
       (case i_quantile i of None \<Rightarrow> [] | Some q \<Rightarrow> [(''quantile_rps'', JFloat q)]))"

record built =
  bt_state :: service_state
  bt_cands :: obj
  bt_inputs :: "candidate_inputs list"

definition add_candidate :: "fold_env \<Rightarrow> int \<Rightarrow> int \<Rightarrow> int \<Rightarrow> model_points \<Rightarrow> built \<Rightarrow> service_exn + built" where
  "add_candidate fe t input_end first_obs mp bt =
     (let model = mp_model mp; recipe = the (dict_get RECIPES model); p = fe_policy fe;
          m = model_state_of (bt_state bt) model recipe p (fe_epoch fe) (fe_dt fe);
          base = py_max_list (mp_points mp) in
      bind_res (raising ExCalibration (upper_bound (ms_calibration m) p base t)) (\<lambda>(upper, info).
        Inr \<lparr> bt_state = set_model model m (bt_state bt),
              bt_cands = bt_cands bt @ [(model, JObj
                [(''recipe'', JStr recipe), (''point_rps'', JList (map JFloat (mp_points mp))),
                 (''base_window_max_rps'', JFloat base), (''upper_window_max_rps'', opt_json JFloat upper),
                 (''calibration'', info_json info), (''fit_cutoff'', opt_int (map_option snd (mp_fit mp))),
                 (''artifact_sha256'', opt_str (map_option fst (mp_fit mp)))])],
              bt_inputs = bt_inputs bt @ [
                \<lparr> ci_model = model, ci_ledger = ms_ledger m, ci_bound_available = (upper \<noteq> None),
                  ci_calibration_windows = i_n info, ci_min_calibration_windows = p_min_windows p,
                  ci_history_seconds = input_end - first_obs + fe_dt fe,
                  ci_required_history_seconds = the (dict_get REQUIRED_HISTORY_SECONDS model), ci_data_fresh = True,
                  ci_fit_age_seconds = map_option (\<lambda>(_, c). input_end - c) (mp_fit mp) \<rparr>] \<rparr>))"

fun phase_str :: "Trust_Policy.phase \<Rightarrow> string" where
  "phase_str Collecting = ''Collecting''" | "phase_str Calibrating = ''Calibrating''" | "phase_str Shadow = ''Shadow''"
| "phase_str Trusted = ''Trusted''" | "phase_str Degraded = ''Degraded''"

fun reason_str :: "reason \<Rightarrow> string" where
  "reason_str IdentityMismatch = ''IdentityMismatch''" | "reason_str StateUnavailable = ''StateUnavailable''"
| "reason_str DataUnavailable = ''DataUnavailable''" | "reason_str HistoryInsufficient = ''HistoryInsufficient''"
| "reason_str CalibrationInsufficientR = ''CalibrationInsufficient''" | "reason_str ShadowInsufficient = ''ShadowInsufficient''"
| "reason_str CoverageLow = ''CoverageLow''" | "reason_str LeadInsufficient = ''LeadInsufficient''"
| "reason_str ReplayGateMissing = ''ReplayGateMissing''" | "reason_str Ready = ''Ready''"

definition candidate_verdict_json :: "service_state \<Rightarrow> string \<times> candidate_verdict \<Rightarrow> string \<times> json" where
  "candidate_verdict_json st mv =
     (case mv of (m, v) \<Rightarrow>
       (m, JObj [(''trusted'', JBool (cv_trusted v)), (''phase'', JStr (phase_str (cv_phase v))),
            (''reason'', JStr (reason_str (cv_reason v))), (''coverage_gate'', opt_json JFloat (gi_coverage_gate (cv_info v))),
            (''availability'', opt_json JFloat (gi_availability (cv_info v))),
            (''prospective_gate_bounds'', JInt (gi_prospective (cv_info v))),
            (''evidence_cutoff'', opt_int (case dict_get (ss_models st) m of
                None \<Rightarrow> None | Some ms \<Rightarrow> l_last_prospective_outcome_s (ms_ledger ms)))]))"

definition verdict_json :: "service_state \<Rightarrow> verdict \<Rightarrow> json" where
  "verdict_json st v =
     JObj [(''phase'', JStr (phase_str (v_phase v))), (''reason'', JStr (reason_str (v_reason v))),
           (''prediction_ready'', JBool (v_prediction_ready v)),
           (''candidates'', JObj (map (candidate_verdict_json st) (v_candidates v)))]"

definition bundle_json ::
  "bound_request \<Rightarrow> fold_env \<Rightarrow> lead_selection \<Rightarrow> forecast_window \<Rightarrow> int \<Rightarrow> int \<Rightarrow> obj \<Rightarrow> service_state \<Rightarrow> verdict \<Rightarrow> obj" where
  "bundle_json bound fe lead w input_end through cands st v =
     [(''schema'', JStr ''forecast-issuance/v1''), (''evidence_mode'', JStr ''prospective''),
      (''forecast_contract'', JStr FORECAST_CONTRACT), (''evidence_key'', JStr (fe_epoch fe)),
      (''settings_sha256'', JStr (b_settings_sha256 bound)), (''decision_origin'', JInt (b_decision_origin bound)),
      (''window_start'', JInt (window_start w)), (''window_end'', JInt (window_end w)),
      (''target_timestamps'', JList (map JInt (target_timestamps w))), (''sample_interval_seconds'', JInt (fe_dt fe)),
      (''lead_seconds'', JInt (lead_seconds lead)), (''startup_delay_seconds'', JInt (startup_delay_seconds lead)),
      (''actuation_allowance_seconds'', JInt (actuation_allowance_seconds lead)), (''valid_until'', JInt (valid_until w lead)),
      (''input_end'', JInt input_end), (''input_received_through_ms'', JInt through),
      (''nominal_miscoverage_bps'', JInt (p_nominal_bps (fe_policy fe))), (''candidates'', JObj cands),
      (''selected'', opt_str (v_selected v)), (''verdict'', verdict_json st v)]"

definition observed_times :: "rps_grid \<Rightarrow> int list" where
  "observed_times g = map fst (filter (\<lambda>(_, v). v \<noteq> None) (zip (g_timestamps g) (g_values g)))"

definition observed_receipts :: "rps_grid \<Rightarrow> int list" where
  "observed_receipts g =
     map (\<lambda>(r, _). case r of None \<Rightarrow> 0 | Some x \<Rightarrow> x) (filter (\<lambda>(_, v). v \<noteq> None) (zip (g_received_at_ms g) (g_values g)))"

text \<open>\<open>next(...)\<close> and \<open>max(...)\<close> over no observation raise; a fresh grid has one.\<close>

definition first_of :: "int list \<Rightarrow> service_exn + int" where
  "first_of xs = (case xs of [] \<Rightarrow> Inl ExRaised | x # _ \<Rightarrow> Inr x)"

definition max_of :: "int list \<Rightarrow> service_exn + int" where
  "max_of xs = (case xs of [] \<Rightarrow> Inl ExRaised | x # ys \<Rightarrow> Inr (fold max ys x))"

definition assemble ::
  "bound_request \<Rightarrow> fold_env \<Rightarrow> lead_selection \<Rightarrow> forecast_window \<Rightarrow> rps_grid \<Rightarrow> int \<Rightarrow> bool \<Rightarrow> int \<Rightarrow> model_points list \<Rightarrow>
     service_state \<Rightarrow> service_exn + obj \<times> service_state" where
  "assemble bound fe lead w grid now_ms st_ok input_end points st =
     (if points = [] then Inl (ExService 503 ''HistoryInsufficient'')
      else bind_res (first_of (observed_times grid)) (\<lambda>first_obs.
      bind_res (fold_res (add_candidate fe (b_decision_origin bound) input_end first_obs) points
                  \<lparr> bt_state = st, bt_cands = [], bt_inputs = [] \<rparr>) (\<lambda>bt.
      let st = bt_state bt;
          g = \<lparr> gl_now_s = now_ms div 1000, gl_lead_seconds = lead_seconds lead,
                gl_nominal_miscoverage = nominal_ratio (fe_policy fe), gl_identity_ok = True, gl_store_healthy = st_ok,
                gl_replay_suite_passed = RELEASE_GATES_PASSED, gl_startup_budget_valid = True \<rparr>;
          prs = (if ''seasonal_naive'' \<in> mp_model ` set points then ss_pairs st else []) in
      bind_res (raising ExTrust (evaluate (bt_inputs bt) (ss_trust st) g (trust (b_settings bound)) (Some prs) None)) (\<lambda>(v, h).
      let st = st\<lparr> ss_trust := h \<rparr> in
      bind_res (max_of (observed_receipts grid)) (\<lambda>through.
        Inr (bundle_json bound fe lead w input_end through (bt_cands bt) st v, st))))))"

definition build ::
  "lib \<Rightarrow> service_config \<Rightarrow> request_env \<Rightarrow> bound_request \<Rightarrow> fold_env \<Rightarrow> lead_selection \<Rightarrow> forecast_window \<Rightarrow> rps_grid \<Rightarrow>
     service_state \<Rightarrow> 's service \<Rightarrow> ('s, obj \<times> service_state) outcome_of" where
  "build L cfg rv bound fe lead w grid st sv =
     st_bind (pure_step (raising ExKernel (series_from_grid grid)) sv) (\<lambda>s sv.
     st_bind (pure_step (raising ExKernel (default_kernel (fe_dt fe))) sv) (\<lambda>ks sv.
     st_bind (pure_step (some_or ExRaised (g_latest_observed grid)) sv) (\<lambda>input_end sv.
     st_bind (pure_step (naive_points s input_end (target_timestamps w) ks) sv) (\<lambda>naive sv.
     st_bind (fit_for L cfg rv bound s input_end ks sv) (\<lambda>fit sv.
     st_bind (pure_step (statistical_points L fit s input_end (target_timestamps w) ks) sv) (\<lambda>stat sv.
       pure_step (assemble bound fe lead w grid (rv_build_ms rv) (store_healthy sv) input_end (naive @ stat) st) sv))))))"

section \<open>The answer\<close>

definition BUNDLE_INTS :: "string list" where
  "BUNDLE_INTS = [''issued_at_ms'', ''input_end'', ''input_received_through_ms'', ''decision_origin'', ''window_start'',
     ''window_end'', ''valid_until'']"

definition BUNDLE_VALUES :: "string list" where
  "BUNDLE_VALUES = [''selected'', ''issuance_id'', ''checkpoint_sha256'', ''sample_interval_seconds'', ''lead_seconds'',
     ''startup_delay_seconds'', ''actuation_allowance_seconds'', ''nominal_miscoverage_bps'']"

definition CANDIDATE_VALUES :: "string list" where
  "CANDIDATE_VALUES = [''fit_cutoff'', ''recipe'', ''artifact_sha256'', ''base_window_max_rps'', ''upper_window_max_rps'']"

definition VERDICT_VALUES :: "string list" where
  "VERDICT_VALUES = [''phase'', ''availability'', ''prospective_gate_bounds'', ''coverage_gate'', ''evidence_cutoff'']"

definition has_keys :: "string list \<Rightarrow> json \<Rightarrow> bool" where
  "has_keys ks v \<longleftrightarrow> (case v of JObj kvs \<Rightarrow> list_all (\<lambda>k. dict_get kvs k \<noteq> None) ks | _ \<Rightarrow> False)"

text \<open>The values of a bundle an answer reads; a key that is missing or a time that is not an integer raises.\<close>

definition bundle_readable :: "json \<Rightarrow> string \<Rightarrow> bool" where
  "bundle_readable b reported \<longleftrightarrow>
     (let c = get_obj (get_obj b ''candidates'') reported; v = get_obj b ''verdict'';
          cv = get_obj (get_obj v ''candidates'') reported in
      has_keys (BUNDLE_INTS @ BUNDLE_VALUES) b \<and> list_all (\<lambda>k. is_int (get_obj b k)) BUNDLE_INTS \<and>
      has_keys [reported] (get_obj b ''candidates'') \<and> has_keys CANDIDATE_VALUES c \<and>
      has_keys [''n'', ''working_miscoverage''] (get_obj c ''calibration'') \<and>
      has_keys [''phase'', ''reason'', ''prediction_ready''] v \<and> has_keys VERDICT_VALUES cv \<and>
      list_all (\<lambda>x. x = JNull \<or> is_int x) [get_obj c ''fit_cutoff'', get_obj cv ''evidence_cutoff''] \<and>
      floats_in (get_obj c ''point_rps'') \<noteq> None \<and> opt_float (get_obj cv ''availability'') \<noteq> None \<and>
      (case get_obj b ''target_timestamps'' of JList ts \<Rightarrow> list_all is_int ts | _ \<Rightarrow> False))"

definition reported_model :: "json \<Rightarrow> string" where
  "reported_model b =
     (if truthy (get_obj b ''selected'') then the_str (get_obj b ''selected'')
      else if has_keys [''seasonal_naive''] (get_obj b ''candidates'') then ''seasonal_naive'' else ''statistical'')"

definition bundle_response :: "bound_request \<Rightarrow> string \<Rightarrow> json \<Rightarrow> v2_response" where
  "bundle_response bound ek b =
     (let sig = b_signal bound; reported = reported_model b; c = get_obj (get_obj b ''candidates'') reported;
          v = get_obj b ''verdict''; cv = get_obj (get_obj v ''candidates'') reported; info = get_obj c ''calibration'';
          sel = truthy (get_obj b ''selected''); n = (\<lambda>k. the_int (get_obj b k)) in
      \<lparr> r_autoscaler_namespace = JStr (b_autoscaler_namespace bound), r_autoscaler_name = JStr (b_autoscaler_name bound),
        r_autoscaler_uid = JStr (sig_autoscaler_uid sig), r_autoscaler_generation = JInt (sig_generation sig),
        r_target_namespace = JStr (sig_namespace sig), r_target_name = JStr (sig_name sig), r_target_uid = JStr (sig_target_uid sig),
        r_metric_query_sha256 = JStr (sig_sha256 sig), r_contract = JStr (sig_contract sig),
        r_settings_sha256 = JStr (b_settings_sha256 bound), r_forecast_contract = JStr FORECAST_CONTRACT, r_unit = JStr UNIT,
        r_issuance_id = get_obj b ''issuance_id'', r_issued_at_ms = n ''issued_at_ms'', r_input_end = n ''input_end'',
        r_input_received_through_ms = n ''input_received_through_ms'', r_fit_cutoff = int_opt (get_obj c ''fit_cutoff''),
        r_model_family = JStr reported, r_model_recipe = get_obj c ''recipe'', r_artifact_sha256 = get_obj c ''artifact_sha256'',
        r_calibration_epoch = JStr ek, r_checkpoint_sha256 = get_obj b ''checkpoint_sha256'',
        r_decision_origin = n ''decision_origin'', r_window_start = n ''window_start'', r_window_end = n ''window_end'',
        r_target_timestamps = map the_int (the_list (get_obj b ''target_timestamps'')),
        r_sample_interval_seconds = get_obj b ''sample_interval_seconds'', r_lead_seconds = get_obj b ''lead_seconds'',
        r_startup_delay_seconds = get_obj b ''startup_delay_seconds'',
        r_actuation_allowance_seconds = get_obj b ''actuation_allowance_seconds'', r_valid_until = n ''valid_until'',
        r_point_rps = the_list (get_obj c ''point_rps''), r_base_window_max_rps = get_obj c ''base_window_max_rps'',
        r_upper_window_max_rps = get_obj c ''upper_window_max_rps'',
        r_nominal_miscoverage_bps = get_obj b ''nominal_miscoverage_bps'',
        r_working_miscoverage_ratio = get_obj info ''working_miscoverage'', r_calibration_windows = get_obj info ''n'',
        r_prospective_windows = get_obj cv ''prospective_gate_bounds'', r_gate_coverage_ratio = get_obj cv ''coverage_gate'',
        r_missing_outcome_ratio =
          (case opt_float (get_obj cv ''availability'') of Some (Some a) \<Rightarrow> JFloat (1 - a) | _ \<Rightarrow> JNull),
        r_selected_candidate = JStr reported, r_trust_state = (if sel then get_obj v ''phase'' else get_obj cv ''phase''),
        r_reason = get_obj v ''reason'',
        r_predictive_eligible = JBool (RELEASE_GATES_PASSED \<and> truthy (get_obj v ''prediction_ready'') \<and> sel \<and>
          get_obj c ''upper_window_max_rps'' \<noteq> JNull),
        r_evidence_cutoff = int_opt (get_obj cv ''evidence_cutoff'') \<rparr>)"

definition respond :: "lib \<Rightarrow> bound_request \<Rightarrow> string \<Rightarrow> json \<Rightarrow> service_exn + json" where
  "respond L bound ek b =
     (if \<not> bundle_readable b (reported_model b) then Inl ExRaised
      else let r = bundle_response bound ek b in
        bind_res (raising ExContract (check_response (lb_sha L) r (Some bound))) (\<lambda>_. raising ExContract (to_wire r)))"

section \<open>Metrics of a request\<close>

definition export :: "bound_request \<Rightarrow> service_state \<Rightarrow> rps_grid \<Rightarrow> int \<Rightarrow> 's service \<Rightarrow> ('s, unit) outcome_of" where
  "export bound st grid now_s sv =
     (let trusted = (\<lambda>m. m \<in> fst ` set RECIPES \<and> (case dict_get (ts_hyst (ss_trust st)) m of None \<Rightarrow> False | Some h \<Rightarrow> h_trusted h));
          failures = (case sv_worker sv of None \<Rightarrow> [] | Some w \<Rightarrow> w_failures w);
          first = (case observed_times grid of [] \<Rightarrow> now_s | t # _ \<Rightarrow> t);
          models = map (\<lambda>(m, ms). (m, model_samples (ms_ledger ms) (Some (ms_calibration ms))
              (int_div (miscoverage_bps (risk (b_settings bound))) 10000) (trusted m) (max 0 (now_s - first)) now_s []
              (if m = ''statistical'' then failures else []))) (ss_models st) in
      case update_metrics (sig_namespace (b_signal bound)) (b_autoscaler_name bound)
             \<lparr> sn_uid = sig_autoscaler_uid (b_signal bound), sn_models = models \<rparr> (sv_metrics sv) of
        (r, m) \<Rightarrow> (raising ExMetrics r, sv\<lparr> sv_metrics := m \<rparr>))"

section \<open>Issuing\<close>

definition refuse_late :: "lead_selection \<Rightarrow> forecast_window \<Rightarrow> int \<Rightarrow> service_exn + unit" where
  "refuse_late lead w now_ms =
     (case target_timestamps w of
        [] \<Rightarrow> Inl ExRaised
      | t0 # _ \<Rightarrow> if t0 * 1000 \<le> now_ms + actuation_allowance_seconds lead * 1000
                  then Inl (ExService 503 ''LeadInsufficient'') else Inr ())"

definition make_key :: "bound_request \<Rightarrow> string \<Rightarrow> forecast_window \<Rightarrow> service_exn + issuance_key" where
  "make_key bound ek w =
     (let k = \<lparr> ik_evidence_key = ek, ik_decision_origin = b_decision_origin bound, ik_window_start = b_decision_origin bound,
                ik_window_end = window_end w, ik_settings_sha256 = b_settings_sha256 bound \<rparr>
      in if issuance_key_ok k then Inr k else Inl (ExStore (StoreError ''key'')))"

definition grid_samples :: "rps_grid \<Rightarrow> (int \<times> pyfloat \<times> int) list" where
  "grid_samples g =
     map (\<lambda>(t, v, r). (t, case v of None \<Rightarrow> 0 | Some x \<Rightarrow> x, case r of None \<Rightarrow> 0 | Some x \<Rightarrow> x))
       (filter (\<lambda>(t, v, r). v \<noteq> None) (zip (g_timestamps g) (zip (g_values g) (g_received_at_ms g))))"

definition issue_new ::
  "lib \<Rightarrow> service_config \<Rightarrow> request_env \<Rightarrow> bound_request \<Rightarrow> fold_env \<Rightarrow> lead_selection \<Rightarrow> forecast_window \<Rightarrow> rps_grid \<Rightarrow> int \<Rightarrow>
     issuance_key \<Rightarrow> service_state \<Rightarrow> 's service \<Rightarrow> ('s, issuance \<times> service_state) outcome_of" where
  "issue_new L cfg rv bound fe lead w grid now_ms k st sv =
     st_bind (pure_step (refuse_late lead w now_ms) sv) (\<lambda>_ sv.
     st_bind (build L cfg rv bound fe lead w grid st sv) (\<lambda>(bundle, st) sv.
     st_bind (on_store (write_checkpoint (lb_cd L) (rv_decide_env rv) (fe_epoch fe) (state_json st) (ss_last_outcome_seq st)) sv) (\<lambda>cp sv.
     st_bind (pure_step (some_or ExRaised cp) sv) (\<lambda>decided sv.
     st_bind (pure_step (refuse_late lead w (rv_stamp_ms rv)) sv) (\<lambda>_ sv.
     let stamped = bundle @ [(''issued_at_ms'', JInt (rv_stamp_ms rv)), (''checkpoint_sha256'', JStr (cp_payload_sha256 decided))] in
     st_bind (on_store (get_or_issue (lb_cd L) (rv_commit_env rv) k (\<lambda>iid. Inr (JObj (stamped @ [(''issuance_id'', JStr iid)])))
                (sort (map fst (the_obj (get_obj (JObj bundle) ''candidates''))))) sv) (\<lambda>(i, created) sv.
     st_bind (pure_step (some_or ExRaised i) sv) (\<lambda>i sv. (Inr (i, st), sv))))))))"

definition compact_due :: "service_config \<Rightarrow> int \<Rightarrow> 's service \<Rightarrow> bool" where
  "compact_due cfg now_s sv \<longleftrightarrow>
     (case sv_compacted_s sv of None \<Rightarrow> True | Some t \<Rightarrow> sf_compact_every_seconds cfg \<le> now_s - t)"

definition compact_now :: "lib \<Rightarrow> service_config \<Rightarrow> request_env \<Rightarrow> int \<Rightarrow> 's service \<Rightarrow> ('s, unit) outcome_of" where
  "compact_now L cfg rv now_s sv =
     (if \<not> compact_due cfg now_s sv then (Inr (), sv)
      else st_bind (on_store (compact (lb_cd L) (rv_compact_env rv) now_s) sv) (\<lambda>_ sv. (Inr (), sv\<lparr> sv_compacted_s := Some now_s \<rparr>)))"

definition finish_issue ::
  "lib \<Rightarrow> service_config \<Rightarrow> request_env \<Rightarrow> bound_request \<Rightarrow> fold_env \<Rightarrow> rps_grid \<Rightarrow> int \<Rightarrow> issuance \<Rightarrow> service_state \<Rightarrow> 's service \<Rightarrow>
     ('s, json) outcome_of" where
  "finish_issue L cfg rv bound fe grid now_s i st sv =
     st_bind (recover_state L rv ''second '' fe (Some st) sv) (\<lambda>st sv.
     st_bind (on_store (write_checkpoint (lb_cd L) (rv_final_env rv) (fe_epoch fe) (state_json st) (ss_last_outcome_seq st)) sv) (\<lambda>_ sv.
     st_bind (compact_now L cfg rv now_s sv) (\<lambda>_ sv.
     st_bind (export bound st grid now_s sv) (\<lambda>_ sv.
       pure_step (respond L bound (fe_epoch fe) (is_payload i)) sv))))"

definition issue ::
  "lib \<Rightarrow> service_config \<Rightarrow> request_env \<Rightarrow> bound_request \<Rightarrow> lead_selection \<Rightarrow> rps_grid \<Rightarrow> int \<Rightarrow> 's service \<Rightarrow> ('s, json) outcome_of" where
  "issue L cfg rv bound lead grid now_ms sv =
     (let s = b_settings bound; ek = evidence_key (lb_sha L) (b_signal bound) s (lead_seconds lead); series = ''signal:'' @ ek in
      st_bind (pure_step (raising ExContract (make_window (JInt (b_decision_origin bound)) s lead)) sv) (\<lambda>w sv.
      st_bind (pure_step (raising (\<lambda>_. ExValue) (policy_from_settings s (lead_seconds lead))) sv) (\<lambda>policy sv.
      let fe = \<lparr> fe_settings = s, fe_policy = policy, fe_epoch = ek \<rparr> in
      st_bind (on_store (record_observations (rv_record_env rv) series (grid_samples grid) (g_response_sha256 grid)) sv) (\<lambda>_ sv.
      st_bind (on_store (read_store rv ''observations'' (\<lambda>db. Inr (observations series (g_start grid) (g_end grid) db))) sv) (\<lambda>obs sv.
      st_bind (for_each (close_windows L rv s ek (map_of obs) now_ms) (map fst RECIPES) sv) (\<lambda>_ sv.
      st_bind (recover_state L rv ''first '' fe None sv) (\<lambda>st sv.
      st_bind (pure_step (make_key bound ek w) sv) (\<lambda>k sv.
      st_bind (on_store (read_store rv ''issuance'' (get_issuance (lb_cd L) k)) sv) (\<lambda>have sv.
      st_bind (case have of Some i \<Rightarrow> (Inr (i, st), sv) | None \<Rightarrow> issue_new L cfg rv bound fe lead w grid now_ms k st sv) (\<lambda>(i, st) sv.
        finish_issue L cfg rv bound fe grid (now_ms div 1000) i st sv))))))))))"

section \<open>A request\<close>

fun bind_exn :: "bind_error \<Rightarrow> service_exn" where
  "bind_exn (BindContract IntTooLargeForFloat) = ExContract IntTooLargeForFloat"
| "bind_exn (BindContract PyTypeError) = ExContract PyTypeError"
| "bind_exn (BindContract PyIndexError) = ExContract PyIndexError"
| "bind_exn (BindContract PyTimeOutOfRange) = ExContract PyTimeOutOfRange"
| "bind_exn (BindContract _) = ExService 422 ''IdentityMismatch''"
| "bind_exn (BindIdentity (ProvenanceRefused _)) = ExService 422 ''IdentityMismatch''"
| "bind_exn (BindIdentity LookupFailed) = ExService 503 ''IdentityMismatch''"

fun history_exn :: "history_error \<Rightarrow> service_exn" where
  "history_exn HistoryRefused = ExService 422 ''DataUnavailable''"
| "history_exn HistoryUnavailable = ExService 503 ''DataUnavailable''"
| "history_exn e = ExHistory e"

text \<open>Both handlers around \<open>_issue\<close>: an unavailable journal and a record it refuses.\<close>

fun catch_store :: "('s, 'a) outcome_of \<Rightarrow> ('s, 'a) outcome_of" where
  "catch_store (Inl (ExStore _), sv) = (Inl (ExService 503 ''StateUnavailable''), sv)"
| "catch_store r = r"

definition clock_s :: "int \<Rightarrow> wall_time" where
  "clock_s ms = WallNumber (JFloat (int_div ms 1000))"

definition read_history :: "lib \<Rightarrow> request_env \<Rightarrow> bound_request \<Rightarrow> service_exn + rps_grid" where
  "read_history L rv bound =
     (let s = b_settings bound in
      bind_res (raising history_exn (read_rps_history (lb_sha L) (rv_history rv) default_limits (b_signal bound)
         (clock_s (rv_request_ms rv)) (sample_interval_seconds s) (history_days s * DAY) (settlement_seconds s))) (\<lambda>grid.
      bind_res (raising ExHistory (is_fresh grid (clock_s (rv_fresh_ms rv)) (settlement_seconds s))) (\<lambda>fresh.
        if fresh then Inr grid else Inl (ExService 503 ''DataUnavailable''))))"

definition serve :: "lib \<Rightarrow> service_config \<Rightarrow> request_env \<Rightarrow> bound_request \<Rightarrow> 's service \<Rightarrow> ('s, json) outcome_of" where
  "serve L cfg rv bound sv =
     (case reserve (sig_namespace (b_signal bound)) (b_autoscaler_name bound) (sv_metrics sv) of
        (Inl _, m) \<Rightarrow> (Inl (ExService 503 ''StateUnavailable''), sv\<lparr> sv_metrics := m \<rparr>)
      | (Inr _, m) \<Rightarrow>
          let sv = sv\<lparr> sv_metrics := m \<rparr> in
          if \<not> store_healthy sv then (Inl (ExService 503 ''StateUnavailable''), sv)
          else case b_lead bound of
            None \<Rightarrow> (Inl (ExService 503 ''LeadInsufficient''), sv)
          | Some lead \<Rightarrow>
              st_bind (pure_step (read_history L rv bound) sv) (\<lambda>grid sv.
                catch_store (issue L cfg rv bound lead grid (rv_issue_ms rv) sv)))"

definition predict ::
  "lib \<Rightarrow> service_config \<Rightarrow> 's reader \<Rightarrow> request_env \<Rightarrow> json \<Rightarrow> 's service \<Rightarrow> ('s, json) outcome_of" where
  "predict L cfg rd rv body sv =
     (case bind_request (lb_sha L) rd body (rv_request_ms rv) (sv_cluster sv) of
        (Inl e, c) \<Rightarrow> (Inl (bind_exn e), sv\<lparr> sv_cluster := c \<rparr>)
      | (Inr bound, c) \<Rightarrow> serve L cfg rv bound (sv\<lparr> sv_cluster := c \<rparr>))"

end
