(* ===== verification/Service_Effects.thy ===== *)
theory Service_Effects
  imports Service
begin

text \<open>
  What a request may do to the service. The locale \<open>request_effects\<close> is the interface between a request and the parts
  of the service: a relation between the service before and after, kept by every single effect a request has. Its client
  is \<open>predict\<close>, which then keeps the relation whatever the request, its environment and its outcome. It is interpreted
  on the journal (a request is a run of journal calls), on the metrics (a request keeps them reachable, hence bounded) and
  on the issuances a request adds (none of them is late).
\<close>

section \<open>The interface\<close>

text \<open>The bundle a request commits: built for its window, stamped with the clock read before the commit.\<close>

definition stamped_bundle :: "obj \<Rightarrow> int \<Rightarrow> string \<Rightarrow> string \<Rightarrow> json" where
  "stamped_bundle bundle stamp hash iid =
     JObj ((bundle @ [(''issued_at_ms'', JInt stamp), (''checkpoint_sha256'', JStr hash)]) @ [(''issuance_id'', JStr iid)])"

text \<open>A read changes nothing, or latches the failure it met.\<close>

lemma on_store_read:
  "snd (on_store (read_store rv what f) sv) = sv \<or>
   (\<exists>s. sv_store sv = Some s \<and> snd (on_store (read_store rv what f) sv) = sv\<lparr> sv_store := Some (fail what s) \<rparr>)"
proof (cases "sv_store sv")
  case (Some s)
  then have "sv\<lparr> sv_store := Some s \<rparr> = sv" by (cases sv) simp
  then show ?thesis using Some
    by (auto simp: on_store_def read_store_def guard_def Let_def split: sum.splits option.splits)
qed (simp add: on_store_def)

lemma st_bind_fst_Inr: "fst (st_bind r f) = Inr y \<longleftrightarrow> (\<exists>x. fst r = Inr x \<and> fst (f x (snd r)) = Inr y)"
  by (cases "(r, f)" rule: st_bind.cases) auto

lemma assemble_bundle:
  "assemble bound fe lead w grid now st_ok input_end points st = Inr (bundle, st') \<Longrightarrow>
     \<exists>through cands v. bundle = bundle_json bound fe lead w input_end through cands st' v"
  by (auto simp: assemble_def Let_def bind_res_Inr_iff split: if_splits)

lemma build_bundle:
  assumes "fst (build L cfg rv bound fe lead w grid st sv) = Inr (bundle, st')"
  shows "\<exists>input_end through cands v. bundle = bundle_json bound fe lead w input_end through cands st' v"
  using assms assemble_bundle by (fastforce simp: build_def st_bind_fst_Inr)

lemma make_key_ok: "make_key bound ek w = Inr k \<Longrightarrow> issuance_key_ok k"
  by (auto simp: make_key_def Let_def split: if_splits)

locale request_effects =
  fixes L :: lib
    and rel :: "'s service \<Rightarrow> 's service \<Rightarrow> bool"
    and admissible :: "issuance_key \<Rightarrow> (string \<Rightarrow> store_error + json) \<Rightarrow> bool"
  assumes rel_refl: "rel sv sv"
    and rel_trans: "rel sv1 sv2 \<Longrightarrow> rel sv2 sv3 \<Longrightarrow> rel sv1 sv3"
    and rel_failed: "sv_store sv = Some s \<Longrightarrow> rel sv (sv\<lparr> sv_store := Some (fail why s) \<rparr>)"
    and rel_outcome: "rel sv (snd (on_store (commit_outcome (lb_cd L) en iid model status payload) sv))"
    and rel_record: "rel sv (snd (on_store (record_observations en series samples source) sv))"
    and rel_checkpoint: "rel sv (snd (on_store (write_checkpoint (lb_cd L) en ek state l) sv))"
    and rel_issue: "issuance_key_ok k \<Longrightarrow> admissible k bld \<Longrightarrow>
          rel sv (snd (on_store (get_or_issue (lb_cd L) en k bld models) sv))"
    and rel_compact: "rel sv (snd (on_store (compact (lb_cd L) en now_s) sv))"
    and rel_update: "rel sv (sv\<lparr> sv_metrics := snd (update_metrics ns name snap (sv_metrics sv)) \<rparr>)"
    and rel_reserve: "rel sv (sv\<lparr> sv_metrics := snd (reserve ns name (sv_metrics sv)) \<rparr>)"
    and rel_dir: "rel sv (sv\<lparr> sv_dir := d \<rparr>)"
    and rel_worker: "rel sv (sv\<lparr> sv_worker := wk \<rparr>)"
    and rel_compacted: "rel sv (sv\<lparr> sv_compacted_s := t \<rparr>)"
    and rel_cluster: "rel sv (sv\<lparr> sv_cluster := c \<rparr>)"
    and admissible_bundle: "refuse_late lead w stamp = Inr () \<Longrightarrow> make_key bound (fe_epoch fe) w = Inr k \<Longrightarrow>
          admissible k (\<lambda>iid. Inr (stamped_bundle (bundle_json bound fe lead w input_end through cands st v) stamp hash iid))"
begin

lemma rel_bind:
  assumes "rel sv (snd r)" and "\<And>x sv'. fst r = Inr x \<Longrightarrow> rel sv' (snd (f x sv'))"
  shows "rel sv (snd (st_bind r f))"
proof (cases r)
  case (Pair q sv1)
  then show ?thesis using assms rel_trans by (cases q) auto
qed

lemma rel_read: "rel sv (snd (on_store (read_store rv what f) sv))"
  using on_store_read [of rv what f sv] by (auto intro: rel_refl rel_failed)

lemma rel_pure: "rel sv (snd (r, sv))"
  by (simp add: rel_refl)

lemma rel_for_each:
  assumes "\<And>x sv. rel sv (snd (f x sv))"
  shows "rel sv (snd (for_each f xs sv))"
proof (induction xs arbitrary: sv)
  case (Cons x xs)
  show ?case unfolding for_each.simps by (rule rel_bind [OF assms Cons.IH])
qed (simp add: rel_refl)

lemma rel_set_artifacts: "rel sv (set_artifacts d sv)"
  by (auto simp: set_artifacts_def intro: rel_dir rel_worker split: option.splits)

lemmas rel_steps = rel_read rel_outcome rel_record rel_checkpoint rel_compact rel_pure rel_refl

lemma rel_close_windows: "rel sv (snd (close_windows L rv s ek received now_ms model sv))"
proof -
  have "rel sv (snd (close_window L rv s received now_ms model i sv))" for i sv
    unfolding close_window_def by (auto intro!: rel_bind rel_steps split: option.splits)
  then show ?thesis unfolding close_windows_def by (intro rel_bind rel_for_each rel_read)
qed

lemma rel_recover: "rel sv (snd (recover_state L rv tag fe st sv))"
proof -
  have outs: "rel sv (snd (fold_outcomes_from L rv tag fe zs st sv))" for zs st sv
  proof (induction zs arbitrary: st sv)
    case (Cons z zs)
    show ?case unfolding fold_outcomes_from.simps by (intro rel_bind rel_steps Cons.IH)
  qed (simp add: rel_refl)
  then have "rel sv (snd (fold_journal L rv tag fe st sv))" for st sv
    unfolding fold_journal_def by (intro rel_bind rel_steps)
  moreover have "rel sv (snd (load_epoch L rv ek sv))" for ek
    unfolding load_epoch_def by (intro rel_bind rel_steps)
  ultimately show ?thesis unfolding recover_state_def by (auto intro!: rel_bind rel_refl split: option.splits)
qed

lemma rel_fit_for: "rel sv (snd (fit_for L cfg rv bound s input_end ks sv))"
proof -
  have "rel sv (snd (queue_fit L s input_end ks b fit sv))" for b fit
    unfolding queue_fit_def by (auto intro: rel_refl rel_worker split: option.splits sum.splits)
  then have "rel sv (snd (fit_after L cfg rv s input_end ks b fit sv))" for b fit
    unfolding fit_after_def by (auto intro: rel_refl rel_set_artifacts split: fit_mode.splits prod.splits sum.splits)
  then show ?thesis unfolding fit_for_def by (auto simp: Let_def intro: rel_refl split: sum.splits)
qed

lemma rel_build: "rel sv (snd (build L cfg rv bound fe lead w grid st sv))"
  unfolding build_def by (intro rel_bind rel_pure rel_fit_for)

lemma rel_export: "rel sv (snd (export bound st grid now_s sv))"
  by (simp add: export_def Let_def prod.case_eq_if rel_update)

lemma rel_finish: "rel sv (snd (finish_issue L cfg rv bound fe grid now_s i st sv))"
proof -
  have "rel sv (snd (compact_now L cfg rv now_s sv))" for sv
    unfolding compact_now_def by (auto intro!: rel_bind rel_compact rel_refl rel_compacted)
  then show ?thesis unfolding finish_issue_def by (intro rel_bind rel_recover rel_steps rel_export)
qed

lemma rel_issue_new:
  assumes "make_key bound (fe_epoch fe) w = Inr k"
  shows "rel sv (snd (issue_new L cfg rv bound fe lead w grid now_ms k st sv))"
proof -
  have commit: "rel sv (snd (on_store (get_or_issue (lb_cd L) en k (\<lambda>iid. Inr (JObj ((bnd @
        [(''issued_at_ms'', JInt (rv_stamp_ms rv)), (''checkpoint_sha256'', JStr hash)]) @ [(''issuance_id'', JStr iid)]))) models) sv))"
    if b: "fst (build L cfg rv bound fe lead w grid st sv0) = Inr (bnd, st')" and late: "refuse_late lead w (rv_stamp_ms rv) = Inr ()"
    for sv0 bnd st' hash en models and sv :: "'s service"
  proof -
    obtain input_end through cands v where bj: "bnd = bundle_json bound fe lead w input_end through cands st' v"
      using build_bundle [OF b] by blast
    show ?thesis
      using rel_issue [OF make_key_ok [OF assms] admissible_bundle [OF late assms]] unfolding bj stamped_bundle_def by blast
  qed
  show ?thesis
    unfolding issue_new_def Let_def
    by (intro rel_bind rel_pure) (auto intro!: rel_bind rel_pure rel_build rel_checkpoint rel_refl commit simp del: append_assoc)
qed

lemma rel_issue_request: "rel sv (snd (issue L cfg rv bound lead grid now_ms sv))"
  unfolding issue_def Let_def
  by (intro rel_bind rel_steps rel_for_each rel_close_windows rel_recover)
    (auto intro!: rel_bind rel_steps rel_finish rel_issue_new split: option.splits)

lemma rel_serve: "rel sv (snd (serve L cfg rv bound sv))"
proof -
  let ?m = "reserve (sig_namespace (b_signal bound)) (b_autoscaler_name bound) (sv_metrics sv)"
  have catch: "snd (catch_store r) = snd r" for r :: "('s, json) outcome_of" by (cases r rule: catch_store.cases) auto
  have first: "rel sv (sv\<lparr> sv_metrics := snd ?m \<rparr>)" by (rule rel_reserve)
  have "rel sv' (snd (st_bind (pure_step r sv') (\<lambda>grid sv. catch_store (issue L cfg rv bound lead grid now_ms sv))))"
    for r sv' lead now_ms by (intro rel_bind rel_pure) (simp add: catch rel_issue_request)
  then show ?thesis
    using rel_trans [OF first] first
    by (auto simp: serve_def Let_def simp del: st_bind.simps split: prod.splits sum.splits option.splits)
qed

lemma rel_predict: "rel sv (snd (predict L cfg rd rv body sv))"
  using rel_trans [OF rel_cluster rel_serve] by (auto simp: predict_def rel_cluster split: prod.splits sum.splits)

end

section \<open>The journal\<close>

text \<open>A request is a run of journal calls; a service without a journal stays without.\<close>

definition journal_runs :: "lib \<Rightarrow> 's service \<Rightarrow> 's service \<Rightarrow> bool" where
  "journal_runs L sv sv' \<longleftrightarrow>
     (case sv_store sv of None \<Rightarrow> sv_store sv' = None | Some s \<Rightarrow> \<exists>s'. sv_store sv' = Some s' \<and> runs (lb_cd L) s s')"

lemma journal_runs_same: "sv_store sv' = sv_store sv \<Longrightarrow> journal_runs L sv sv'"
  by (auto simp: journal_runs_def split: option.splits)

lemma runs_exec: "op_key_ok x \<Longrightarrow> runs cd s (exec cd en x s)"
  by (rule r_into_rtranclp) (auto simp: exec_step_def)

lemma journal_runs_exec:
  assumes "op_key_ok x" and "\<And>s. snd (f s) = exec (lb_cd L) en x s"
  shows "journal_runs L sv (snd (on_store f sv))"
proof (cases "sv_store sv")
  case (Some s)
  then show ?thesis
    using runs_exec [OF assms(1), of "lb_cd L" s en] assms(2) [of s] by (simp add: journal_runs_def on_store_def prod.case_eq_if)
qed (simp add: journal_runs_def on_store_def)

lemma journal_runs_ops:
  "journal_runs L sv (snd (on_store (commit_outcome (lb_cd L) en iid model status payload) sv))"
  "journal_runs L sv (snd (on_store (record_observations en series samples source) sv))"
  "journal_runs L sv (snd (on_store (write_checkpoint (lb_cd L) en ek state l) sv))"
  "issuance_key_ok k \<Longrightarrow> journal_runs L sv (snd (on_store (get_or_issue (lb_cd L) en k bld models) sv))"
  "journal_runs L sv (snd (on_store (compact (lb_cd L) en now_s) sv))"
  by (rule journal_runs_exec [where x = "CommitOutcome iid model status payload" and en = en]
        journal_runs_exec [where x = "RecordObservations series samples source" and en = en]
        journal_runs_exec [where x = "WriteCheckpoint ek state l" and en = en]
        journal_runs_exec [where x = "GetOrIssue k bld models" and en = en]
        journal_runs_exec [where x = "Compact now_s" and en = en]; simp)+

interpretation jn: request_effects L "journal_runs L" "\<lambda>_ _. True" for L
proof unfold_locales
  fix sv1 sv2 sv3 :: "'s service"
  assume "journal_runs L sv1 sv2" and "journal_runs L sv2 sv3"
  then show "journal_runs L sv1 sv3" by (auto simp: journal_runs_def split: option.splits intro: rtranclp_trans)
next
  fix sv :: "'s service" and s why
  assume "sv_store sv = Some s"
  then show "journal_runs L sv (sv\<lparr> sv_store := Some (fail why s) \<rparr>)"
    using runs_exec [of "ReadFailed why" "lb_cd L" s] by (simp add: journal_runs_def)
qed (auto intro: journal_runs_ops intro!: TrueI simp: journal_runs_same)

section \<open>The metrics\<close>

definition metrics_kept :: "'s service \<Rightarrow> 's service \<Rightarrow> bool" where
  "metrics_kept sv sv' \<longleftrightarrow> (\<forall>a b. metrics_reached a b (sv_metrics sv) \<longrightarrow> metrics_reached a b (sv_metrics sv'))"

lemma metrics_kept_same: "sv_metrics sv' = sv_metrics sv \<Longrightarrow> metrics_kept sv sv'"
  by (simp add: metrics_kept_def)

lemma on_store_metrics [simp]: "sv_metrics (snd (on_store f sv)) = sv_metrics sv"
  by (simp add: on_store_def split: option.split prod.split)

interpretation mt: request_effects L metrics_kept "\<lambda>_ _. True" for L
  by unfold_locales (auto simp: metrics_kept_def intro: metrics_reached.intros)

section \<open>New issuances\<close>

text \<open>An issuance that can still act: its stamp and the allowance end before its first target, and the bundle is for the
  window of its key.\<close>

definition timely :: "issuance \<Rightarrow> bool" where
  "timely r \<longleftrightarrow> (\<exists>n allowance t0 ts.
     get_obj (is_payload r) ''issued_at_ms'' = JInt n \<and> get_obj (is_payload r) ''actuation_allowance_seconds'' = JInt allowance \<and>
     get_obj (is_payload r) ''target_timestamps'' = JList (JInt t0 # ts) \<and> n + allowance * 1000 < t0 * 1000 \<and>
     get_obj (is_payload r) ''decision_origin'' = JInt (ik_decision_origin (is_key r)) \<and>
     get_obj (is_payload r) ''window_end'' = JInt (ik_window_end (is_key r)))"

definition rows :: "'s service \<Rightarrow> issuance set" where
  "rows sv = (case sv_store sv of None \<Rightarrow> {} | Some s \<Rightarrow> set (d_issuances (st_db s)))"

definition adds_timely :: "'s service \<Rightarrow> 's service \<Rightarrow> bool" where
  "adds_timely sv sv' \<longleftrightarrow> (\<forall>r \<in> rows sv' - rows sv. timely r)"

lemma get_or_issue_rows:
  "r \<in> set (d_issuances (st_db (snd (get_or_issue cd en k bld models s)))) \<Longrightarrow>
     r \<in> set (d_issuances (st_db s)) \<or> is_key r = k \<and> (\<exists>iid. bld iid = Inr (is_payload r))"
  by (auto simp: get_or_issue_def commit_issuance_def commit_issuance_body_def Let_def bind_res_Inr_iff transact_def then_read_def
      insert_issuance_def split: sum.splits option.splits if_splits prod.splits)

lemma other_rows:
  "set (d_issuances (st_db (snd (commit_outcome cd en iid model status payload s)))) \<subseteq> set (d_issuances (st_db s))"
  "set (d_issuances (st_db (snd (record_observations en series samples source s)))) \<subseteq> set (d_issuances (st_db s))"
  "set (d_issuances (st_db (snd (write_checkpoint cd en ek state l s)))) \<subseteq> set (d_issuances (st_db s))"
  "set (d_issuances (st_db (snd (compact cd en now_s s)))) \<subseteq> set (d_issuances (st_db s))"
proof -
  show "set (d_issuances (st_db (snd (commit_outcome cd en iid model status payload s)))) \<subseteq> set (d_issuances (st_db s))"
    by (auto simp: commit_outcome_def commit_outcome_body_def Let_def transact_def then_read_def insert_outcome_def
        split: sum.splits option.splits if_splits)
  show "set (d_issuances (st_db (snd (record_observations en series samples source s)))) \<subseteq> set (d_issuances (st_db s))"
    using record_sample_fields(1) [of series source samples "st_db s"]
    by (auto simp: record_observations_def Let_def transact_def then_read_def split: sum.splits option.splits prod.splits)
  show "set (d_issuances (st_db (snd (write_checkpoint cd en ek state l s)))) \<subseteq> set (d_issuances (st_db s))"
    by (auto simp: write_checkpoint_def write_checkpoint_body_def add_checkpoint_def Let_def transact_def then_read_def
        split: sum.splits option.splits if_splits)
  show "set (d_issuances (st_db (snd (compact cd en now_s s)))) \<subseteq> set (d_issuances (st_db s))"
    by (auto simp: compact_def compact_tx_def Let_def bind_res_Inr_iff transact_def then_read_def
        split: sum.splits option.splits if_splits prod.splits)
qed

lemma adds_timely_rows:
  assumes "\<And>s. sv_store sv = Some s \<Longrightarrow> set (d_issuances (st_db (snd (f s)))) \<subseteq> set (d_issuances (st_db s)) \<union> Collect timely"
  shows "adds_timely sv (snd (on_store f sv))"
  using assms by (auto simp: adds_timely_def rows_def on_store_def split: option.splits prod.splits)

lemma adds_timely_same: "sv_store sv' = sv_store sv \<Longrightarrow> adds_timely sv sv'"
  by (simp add: adds_timely_def rows_def)

text \<open>A bundle built for the window of the key and stamped in time.\<close>

definition in_time :: "issuance_key \<Rightarrow> (string \<Rightarrow> store_error + json) \<Rightarrow> bool" where
  "in_time k bld \<longleftrightarrow> (\<forall>iid r. bld iid = Inr (is_payload r) \<longrightarrow> is_key r = k \<longrightarrow> timely r)"

lemma stamped_in_time:
  assumes "refuse_late lead w stamp = Inr ()" and "make_key bound (fe_epoch fe) w = Inr k"
  shows "in_time k (\<lambda>iid. Inr (stamped_bundle (bundle_json bound fe lead w input_end through cands st v) stamp hash iid))"
proof -
  obtain t0 ts where t: "target_timestamps w = t0 # ts" "stamp + actuation_allowance_seconds lead * 1000 < t0 * 1000"
    using assms(1) by (auto simp: refuse_late_def split: list.splits if_splits)
  have k: "ik_decision_origin k = b_decision_origin bound" "ik_window_end k = window_end w"
    using assms(2) by (auto simp: make_key_def Let_def split: if_splits)
  show ?thesis
    unfolding in_time_def
  proof (intro allI impI)
    fix iid and r :: issuance
    assume "Inr (stamped_bundle (bundle_json bound fe lead w input_end through cands st v) stamp hash iid) =
        (Inr (is_payload r) :: store_error + json)" and "is_key r = k"
    then have p: "is_payload r = stamped_bundle (bundle_json bound fe lead w input_end through cands st v) stamp hash iid" by simp
    show "timely r"
      unfolding timely_def p \<open>is_key r = k\<close> k using t by (simp add: stamped_bundle_def bundle_json_def)
  qed
qed

interpretation tm: request_effects L adds_timely in_time for L
proof unfold_locales
  fix sv1 sv2 sv3 :: "'s service"
  assume "adds_timely sv1 sv2" and "adds_timely sv2 sv3"
  then show "adds_timely sv1 sv3" by (auto simp: adds_timely_def)
next
  fix k bld en models and sv :: "'s service"
  assume "in_time k bld"
  then show "adds_timely sv (snd (on_store (get_or_issue (lb_cd L) en k bld models) sv))"
    by (intro adds_timely_rows) (auto dest!: get_or_issue_rows simp: in_time_def)
next
  fix sv :: "'s service" and s why
  assume "sv_store sv = Some s"
  then show "adds_timely sv (sv\<lparr> sv_store := Some (fail why s) \<rparr>)" by (simp add: adds_timely_def rows_def fail_def)
qed (auto intro!: adds_timely_rows stamped_in_time dest: subsetD [OF other_rows(1)] subsetD [OF other_rows(2)]
      subsetD [OF other_rows(3)] subsetD [OF other_rows(4)] simp: adds_timely_same)

end
