(* ===== verification/Service_Props.thy ===== *)
theory Service_Props
  imports Service_Effects
begin

text \<open>
  The lemmas on requests that the guarantees of the service rest on: every answer comes from an issuance of the journal, the
  state of a request reads back from its checkpoint, and recovery leaves nothing to fold.
\<close>

section \<open>Every answer comes from the journal\<close>

lemma on_store_Inr:
  "on_store f sv = (Inr x, sv') \<longleftrightarrow>
     (\<exists>s s'. sv_store sv = Some s \<and> f s = (Inr x, s') \<and> sv' = sv\<lparr> sv_store := Some s' \<rparr>)"
  by (auto simp: on_store_def map_sum_Inr_iff split: option.splits prod.splits)

lemma read_store_Inr: "read_store rv what f s = (Inr x, s') \<Longrightarrow> f (st_db s) = Inr x \<and> s' = s"
  by (auto simp: read_store_def guard_def Let_def split: sum.splits option.splits if_splits)

lemma some_or_Inr: "some_or e v = Inr x \<longleftrightarrow> v = Some x"
  by (auto simp: some_or_def split: option.splits)

lemma get_or_issue_row:
  assumes "db_wf cd (st_db s)" and "issuance_key_ok k" and "get_or_issue cd en k bld models s = (Inr (ri, created), s')"
  shows "\<exists>r. ri = Some r \<and> r \<in> set (d_issuances (st_db s')) \<and> is_key_sha256 r = key_sha256 cd k"
proof -
  have gi: "get_issuance cd k (st_db s) = Inr (List.find (\<lambda>r. is_key_sha256 r = key_sha256 cd k) (d_issuances (st_db s)))"
    using assms(1) by (simp add: db_wf_def get_issuance_wf)
  consider (old) r where "get_issuance cd k (st_db s) = Inr (Some r)" "ri = Some r" "st_db s' = st_db s"
    | (new) payload where "commit_issuance cd en k payload models s = (Inr (ri, created), s')"
    using assms(3) by (auto simp: get_or_issue_def guard_def Let_def bind_res_Inr_iff split: sum.splits option.splits if_splits)
  then show ?thesis
  proof cases
    case old
    then show ?thesis using gi by (auto simp: find_Some_iff)
  next
    case new
    from commit_issuance_Inr [OF assms(1,2) this] show ?thesis by blast
  qed
qed

lemma journal_runs_from:
  "journal_runs L sv sv' \<Longrightarrow> sv_store sv = Some s \<Longrightarrow> \<exists>s'. sv_store sv' = Some s' \<and> runs (lb_cd L) s s'"
  by (simp add: journal_runs_def)

lemma jr_of: "journal_runs L sv (snd r) \<Longrightarrow> r = (x, sv') \<Longrightarrow> journal_runs L sv sv'"
  by simp

text \<open>The row a new issuance comes from.\<close>

lemma issue_new_row:
  assumes "issue_new L cfg rv bound fe lead w grid now_ms k st sv = (Inr (i, st'), sv')" and "sv_store sv = Some s"
    and "db_wf (lb_cd L) (st_db s)" and "issuance_key_ok k"
  shows "\<exists>s'. sv_store sv' = Some s' \<and> i \<in> set (d_issuances (st_db s')) \<and> is_key_sha256 i = key_sha256 (lb_cd L) k"
proof -
  obtain bnd st1 sv1 cp sv2 bld models created where
      b: "build L cfg rv bound fe lead w grid st sv = (Inr (bnd, st1), sv1)"
    and c: "on_store (write_checkpoint (lb_cd L) (rv_decide_env rv) (fe_epoch fe) (state_json st1) (ss_last_outcome_seq st1)) sv1 =
          (Inr cp, sv2)"
    and g: "on_store (get_or_issue (lb_cd L) (rv_commit_env rv) k bld models) sv2 = (Inr (Some i, created), sv')"
    using assms(1) by (auto simp: issue_new_def Let_def st_bind_Inr_iff some_or_Inr simp del: get_obj.simps)
  have "journal_runs L sv sv1" using jn.rel_build [of L sv cfg rv bound fe lead w grid st] b by simp
  then obtain s1 where s1: "sv_store sv1 = Some s1" "runs (lb_cd L) s s1" using assms(2) journal_runs_from by blast
  have "journal_runs L sv1 sv2" using journal_runs_ops(3) [of L sv1] c by (metis snd_conv)
  then obtain s2 where s2: "sv_store sv2 = Some s2" "runs (lb_cd L) s1 s2" using s1(1) journal_runs_from by blast
  have "db_wf (lb_cd L) (st_db s2)" using runs_wf s1(2) s2(2) assms(3) by blast
  then show ?thesis using g s2(1) get_or_issue_row [OF _ assms(4)] by (fastforce simp: on_store_Inr)
qed

abbreviation request_epoch :: "lib \<Rightarrow> bound_request \<Rightarrow> lead_selection \<Rightarrow> string" where
  "request_epoch L bound lead \<equiv> evidence_key (lb_sha L) (b_signal bound) (b_settings bound) (lead_seconds lead)"

lemma st_bindE:
  assumes "st_bind r f = (Inr y, s')"
  obtains x s where "r = (Inr x, s)" "f x s = (Inr y, s')"
  using assms by (auto simp: st_bind_Inr_iff)

lemma pure_raising: "(raising f r, sv) = (Inr x, s) \<longleftrightarrow> r = Inr x \<and> s = sv"
  by (auto simp: map_sum_Inr_iff)

lemma issue_stages:
  assumes "issue L cfg rv bound lead grid now_ms sv = (Inr answer, sv')"
  obtains w k sv1 fe held st st' i sv2 sv3 where
    "make_window (JInt (b_decision_origin bound)) (b_settings bound) lead = Inr w"
    "make_key bound (request_epoch L bound lead) w = Inr k" "journal_runs L sv sv1" "fe_epoch fe = request_epoch L bound lead"
    "on_store (read_store rv ''issuance'' (get_issuance (lb_cd L) k)) sv1 = (Inr held, sv2)"
    "(case held of Some i \<Rightarrow> (Inr (i, st), sv2) | None \<Rightarrow> issue_new L cfg rv bound fe lead w grid now_ms k st sv2) = (Inr (i, st'), sv3)"
    "finish_issue L cfg rv bound fe grid (now_ms div 1000) i st' sv3 = (Inr answer, sv')"
proof -
  let ?ek = "request_epoch L bound lead"
  obtain w policy xa sva obs svb xc svc st k svd sve held ist svf where
      w: "make_window (JInt (b_decision_origin bound)) (b_settings bound) lead = Inr w"
    and a: "on_store (record_observations (rv_record_env rv) (''signal:'' @ ?ek) (grid_samples grid) (g_response_sha256 grid)) sv = (Inr xa, sva)"
    and b: "on_store (read_store rv ''observations'' (\<lambda>db. Inr (observations (''signal:'' @ ?ek) (g_start grid) (g_end grid) db))) sva = (Inr obs, svb)"
    and c: "for_each (close_windows L rv (b_settings bound) ?ek (map_of obs) now_ms) (map fst RECIPES) svb = (Inr xc, svc)"
    and d: "recover_state L rv ''first '' \<lparr> fe_settings = b_settings bound, fe_policy = policy, fe_epoch = ?ek \<rparr> None svc = (Inr st, svd)"
    and k: "make_key bound ?ek w = Inr k"
    and e: "on_store (read_store rv ''issuance'' (get_issuance (lb_cd L) k)) svd = (Inr held, sve)"
    and f: "(case held of Some i \<Rightarrow> (Inr (i, st), sve) | None \<Rightarrow> issue_new L cfg rv bound
        \<lparr> fe_settings = b_settings bound, fe_policy = policy, fe_epoch = ?ek \<rparr> lead w grid now_ms k st sve) = (Inr ist, svf)"
    and g: "finish_issue L cfg rv bound \<lparr> fe_settings = b_settings bound, fe_policy = policy, fe_epoch = ?ek \<rparr> grid (now_ms div 1000) (fst ist) (snd ist) svf =
        (Inr answer, sv')"
    using assms
    by (auto simp: issue_def Let_def st_bind_Inr_iff map_sum_Inr_iff case_prod_beta simp del: for_each.simps get_obj.simps RECIPES_def
        split del: option.split)
  have "journal_runs L sv sva" by (rule jr_of [OF journal_runs_ops(2) a])
  moreover have "journal_runs L sva svb" by (rule jr_of [OF jn.rel_read b])
  moreover have "journal_runs L svb svc" by (rule jr_of [OF jn.rel_for_each [OF jn.rel_close_windows] c])
  moreover have "journal_runs L svc svd" by (rule jr_of [OF jn.rel_recover d])
  ultimately have "journal_runs L sv svd" by (blast intro: jn.rel_trans)
  from that [OF w k this _ e _ g] f show thesis by simp
qed

lemma finish_respond:
  "finish_issue L cfg rv bound fe grid now_s i st sv = (Inr answer, sv') \<Longrightarrow> respond L bound (fe_epoch fe) (is_payload i) = Inr answer"
  by (auto simp: finish_issue_def st_bind_Inr_iff)

lemma issue_row:
  assumes issue: "issue L cfg rv bound lead grid now_ms sv = (Inr answer, sv')"
    and s: "sv_store sv = Some s" "db_wf (lb_cd L) (st_db s)"
  obtains w k s1 s' i where
    "make_window (JInt (b_decision_origin bound)) (b_settings bound) lead = Inr w"
    "make_key bound (request_epoch L bound lead) w = Inr k" "runs (lb_cd L) s s1" "sv_store sv' = Some s'" "runs (lb_cd L) s1 s'"
    "i \<in> set (d_issuances (st_db s1))" "is_key_sha256 i = key_sha256 (lb_cd L) k"
    "respond L bound (request_epoch L bound lead) (is_payload i) = Inr answer"
proof -
  from issue_stages [OF issue] obtain w k sv1 fe held st st' i sv2 sv3 where
      w: "make_window (JInt (b_decision_origin bound)) (b_settings bound) lead = Inr w"
    and k: "make_key bound (request_epoch L bound lead) w = Inr k" and r1: "journal_runs L sv sv1"
    and fe: "fe_epoch fe = request_epoch L bound lead"
    and read: "on_store (read_store rv ''issuance'' (get_issuance (lb_cd L) k)) sv1 = (Inr held, sv2)"
    and step: "(case held of Some i \<Rightarrow> (Inr (i, st), sv2) | None \<Rightarrow> issue_new L cfg rv bound fe lead w grid now_ms k st sv2) =
        (Inr (i, st'), sv3)"
    and fin: "finish_issue L cfg rv bound fe grid (now_ms div 1000) i st' sv3 = (Inr answer, sv')" .
  obtain s1 where s1: "sv_store sv1 = Some s1" "runs (lb_cd L) s s1" using journal_runs_from [OF r1 s(1)] by blast
  have wf: "db_wf (lb_cd L) (st_db s1)" using runs_wf [OF s1(2) s(2)] .
  from read s1(1) have get: "get_issuance (lb_cd L) k (st_db s1) = Inr held" and same: "sv_store sv2 = Some s1"
    by (auto simp: on_store_Inr dest!: read_store_Inr)
  have key: "issuance_key_ok k" using make_key_ok [OF k] .
  obtain s3 where s3: "sv_store sv3 = Some s3" "runs (lb_cd L) s s3" "i \<in> set (d_issuances (st_db s3))"
      "is_key_sha256 i = key_sha256 (lb_cd L) k"
  proof (cases held)
    case (Some j)
    then have "List.find (\<lambda>r. is_key_sha256 r = key_sha256 (lb_cd L) k) (d_issuances (st_db s1)) = Some i"
      using get step wf by (simp add: get_issuance_wf db_wf_def)
    then show thesis using that [OF _ s1(2)] same step Some by (auto simp: find_Some_iff)
  next
    case None
    then have new: "issue_new L cfg rv bound fe lead w grid now_ms k st sv2 = (Inr (i, st'), sv3)" using step by simp
    have "journal_runs L sv2 sv3" by (rule jr_of [OF jn.rel_issue_new new]) (simp add: fe k)
    from journal_runs_from [OF this same] issue_new_row [OF new same wf key] s1(2) that show thesis
      by (metis option.inject rtranclp_trans)
  qed
  have "journal_runs L sv3 sv'" by (rule jr_of [OF jn.rel_finish fin])
  from journal_runs_from [OF this s3(1)] that [OF w k s3(2) _ _ s3(3,4)] finish_respond [OF fin] fe show thesis by auto
qed

lemma issue_row_for:
  assumes "issue L cfg rv bound lead grid now_ms sv = (Inr answer, sv')" and "sv_store sv = Some s" and "db_wf (lb_cd L) (st_db s)"
    and "sv_store sv' = Some s'" and "make_window (JInt (b_decision_origin bound)) (b_settings bound) lead = Inr w"
    and "make_key bound (request_epoch L bound lead) w = Inr k"
  shows "\<exists>s1 i. runs (lb_cd L) s s1 \<and> runs (lb_cd L) s1 s' \<and> i \<in> set (d_issuances (st_db s1)) \<and>
     is_key_sha256 i = key_sha256 (lb_cd L) k \<and> respond L bound (request_epoch L bound lead) (is_payload i) = Inr answer"
proof (rule issue_row [OF assms(1-3)])
  fix w' k' s1 s'' i
  assume r: "make_window (JInt (b_decision_origin bound)) (b_settings bound) lead = Inr w'"
    "make_key bound (request_epoch L bound lead) w' = Inr k'" "runs (lb_cd L) s s1" "sv_store sv' = Some s''" "runs (lb_cd L) s1 s''"
    "i \<in> set (d_issuances (st_db s1))" "is_key_sha256 i = key_sha256 (lb_cd L) k'"
    "respond L bound (request_epoch L bound lead) (is_payload i) = Inr answer"
  have "w' = w" using r(1) assms(5) by simp
  then have "k' = k" using r(2) assms(6) by simp
  then show ?thesis using r assms(4) by (intro exI [of _ s1] exI [of _ i]) simp
qed

lemma runs_horizon:
  assumes "runs cd s s'" and "db_wf cd (st_db s)"
  shows "d_horizon (st_db s) \<le> d_horizon (st_db s')"
  using runs_db [OF assms] by (induction rule: rtranclp_induct) (auto dest!: db_step_horizon)

section \<open>The state of a request reads back\<close>

lemma fallback_names: "m \<in> set FALLBACK_ORDER \<Longrightarrow> m \<noteq> SELECTION \<and> CHR '':'' \<notin> set m"
  by (auto simp: FALLBACK_ORDER_def SELECTION_def NAIVE_def)

lemma note_entry_shape:
  assumes "list_all (\<lambda>((m, r), t). CHR '':'' \<notin> set m) es" and "CHR '':'' \<notin> set (fst mv)"
  shows "list_all (\<lambda>((m, r), t). CHR '':'' \<notin> set m) (note_entry vs prs costs now t mv es)"
proof -
  have upd: "list_all (\<lambda>((m, r), t). CHR '':'' \<notin> set m) (dict_set k v es)" if "CHR '':'' \<notin> set (fst k)" for k and v :: int
    using assms(1) that by (induction es) auto
  have del: "list_all (\<lambda>((m, r), t). CHR '':'' \<notin> set m) (dict_pop k es)" for k
    using assms(1) by (auto simp: list_all_iff AList.delete_eq)
  show ?thesis using assms upd del by (auto simp: note_entry_def Let_def split: option.splits)
qed

lemma evaluate_shape:
  assumes "evaluate cands h g t prs costs = Inr (v, h')" and "trust_shape h"
  shows "trust_shape h'"
proof -
  let ?vs = "map (\<lambda>(m, ci). (m, snd (judge (ts_hyst h) g t ci))) (by_model cands)"
  have names: "m \<in> set FALLBACK_ORDER" if "(m, ci) \<in> set (by_model cands)" for m ci
    using assms(1) that by (auto simp: evaluate_def Let_def list_all_iff split: if_splits)
  have vs: "map (\<lambda>(m, hv). (m, snd hv)) (map (\<lambda>(m, ci). (m, judge (ts_hyst h) g t ci)) (by_model cands)) = ?vs"
    by (simp add: case_prod_beta comp_def)
  let ?ep = "case cands of [] \<Rightarrow> None | c # _ \<Rightarrow> Some (l_epoch (ci_ledger c))"
  let ?ps = "case prs of None \<Rightarrow> [] | Some p \<Rightarrow> p" and ?cs = "case costs of None \<Rightarrow> [] | Some c \<Rightarrow> c"
  have sel: "ts_selection h' = Some (fst (select (case ts_selection h of None \<Rightarrow> new_selection ?ep
        | Some s \<Rightarrow> if sel_epoch s \<noteq> ?ep then new_selection ?ep else s) ?vs ?ps ?cs (gl_now_s g) t))"
    and hyst: "ts_hyst h' = map (\<lambda>(m, hv). (m, fst hv)) (map (\<lambda>(m, ci). (m, judge (ts_hyst h) g t ci)) (by_model cands))"
    using assms(1) unfolding evaluate_def Let_def vs
    by (auto simp: case_prod_beta simp del: map_map split: if_splits option.splits)
  define prior where "prior = (case ts_selection h of None \<Rightarrow> new_selection ?ep
        | Some s \<Rightarrow> if sel_epoch s \<noteq> ?ep then new_selection ?ep else s)"
  have "selection_shape prior"
    using assms(2) by (auto simp: prior_def trust_shape_def selection_shape_def new_selection_def split: option.splits)
  moreover have "list_all (\<lambda>((m, r), t). CHR '':'' \<notin> set m) (fold (note_entry ?vs ?ps ?cs (gl_now_s g) t) xs es)"
    if "list_all (\<lambda>((m, r), t). CHR '':'' \<notin> set m) es" "\<forall>mv \<in> set xs. CHR '':'' \<notin> set (fst mv)" for xs es
    using that by (induction xs arbitrary: es) (auto simp: note_entry_shape)
  moreover have "\<forall>mv \<in> set ?vs. CHR '':'' \<notin> set (fst mv)" using names fallback_names by fastforce
  moreover have "sel_entry_since (fst (select prior ?vs ?ps ?cs (gl_now_s g) t)) = fold (note_entry ?vs ?ps ?cs (gl_now_s g) t) ?vs (sel_entry_since prior)"
    by (simp add: select_def Let_def)
  ultimately have "selection_shape (fst (select prior ?vs ?ps ?cs (gl_now_s g) t))" by (simp add: selection_shape_def)
  then show ?thesis using sel hyst names fallback_names by (fastforce simp: trust_shape_def list_all_iff prior_def)
qed

lemma load_shape: "load_state v = Some st \<Longrightarrow> trust_shape (ss_trust st)"
proof -
  have "CHR '':'' \<notin> set (fst (split_colon k))" for k
    by (auto simp: split_colon_def dest: set_takeWhileD)
  then have "trust_shape (read_trust t)" for t
    by (auto simp: trust_shape_def read_trust_def selection_shape_def read_selection_def list_all_iff split: option.splits)
      (metis fst_conv)
  moreover have "ss_trust (read_state v) = read_trust (get_obj v ''trust'')" by (simp add: read_state_def)
  ultimately show "load_state v = Some st \<Longrightarrow> trust_shape (ss_trust st)"
    by (auto simp: load_state_def Let_def split: if_splits)
qed

lemma fold_res_inv:
  assumes "fold_res f xs b = Inr b'" and "P b" and "\<And>x b b'. x \<in> set xs \<Longrightarrow> f x b = Inr b' \<Longrightarrow> P b \<Longrightarrow> P b'"
  shows "P b'"
  using assms by (induction xs arbitrary: b) (auto simp: bind_res_Inr_iff)

text \<open>Folding touches the trust state nowhere; an outcome leaves the issuance counter alone.\<close>

lemma fold_candidate_frame:
  "fold_candidate fe i b m st = Inr st' \<Longrightarrow>
     ss_trust st' = ss_trust st \<and> ss_last_issuance_seq st' = ss_last_issuance_seq st \<and> ss_last_outcome_seq st' = ss_last_outcome_seq st"
  by (auto simp: fold_candidate_def Let_def bind_res_Inr_iff set_model_def)

lemma fold_issuance_frame:
  assumes "fold_issuance fe i st = Inr st'"
  shows "ss_trust st' = ss_trust st \<and> ss_last_issuance_seq st' = is_seq i \<and> ss_last_outcome_seq st' = ss_last_outcome_seq st"
proof -
  obtain b st1 where st1: "fold_res (fold_candidate fe i b) (is_models i) st = Inr st1" "st' = st1\<lparr> ss_last_issuance_seq := is_seq i \<rparr>"
    using assms by (auto simp: fold_issuance_def bind_res_Inr_iff)
  have "ss_trust st1 = ss_trust st \<and> ss_last_outcome_seq st1 = ss_last_outcome_seq st"
    by (rule fold_res_inv [OF st1(1)]) (auto dest: fold_candidate_frame)
  then show ?thesis using st1(2) by simp
qed

lemma fold_outcome_frame:
  "fold_outcome sha fe i z st = Inr st' \<Longrightarrow>
     ss_trust st' = ss_trust st \<and> ss_last_issuance_seq st' = ss_last_issuance_seq st \<and> ss_last_outcome_seq st' = oc_seq z"
  by (auto simp: fold_outcome_def Let_def bind_res_Inr_iff set_model_def)

lemma fold_outcomes_frame:
  assumes "fold_outcomes_from L rv tag fe zs st sv = (Inr st', sv')"
  shows "ss_trust st' = ss_trust st \<and> ss_last_issuance_seq st' = ss_last_issuance_seq st \<and>
     ss_last_outcome_seq st' = (if zs = [] then ss_last_outcome_seq st else oc_seq (last zs)) \<and> sv' = sv"
  using assms
proof (induction zs arbitrary: st sv)
  case (Cons z zs)
  then obtain i sv1 st1 where i: "on_store (read_store rv (tag @ ''issuance '' @ oc_issuance_id z) (get_issuance_by_id (lb_cd L) (oc_issuance_id z))) sv = (Inr i, sv1)"
    and st1: "\<exists>j. fold_outcome (lb_sha L) fe j z st = Inr st1" "fold_outcomes_from L rv tag fe zs st1 sv1 = (Inr st', sv')"
    by (auto simp: st_bind_Inr_iff bind_res_Inr_iff some_or_Inr)
  have "sv1 = sv" using i by (auto simp: on_store_Inr dest!: read_store_Inr)
  then show ?case using Cons.IH [OF st1(2)] st1(1) by (auto dest!: fold_outcome_frame)
qed simp

lemma fold_journal_shape:
  assumes "fold_journal L rv tag fe st sv = (Inr st', sv')"
  shows "ss_trust st' = ss_trust st"
proof -
  obtain xs st1 zs svb where st1: "fold_res (fold_issuance fe) xs st = Inr st1"
    and o: "fold_outcomes_from L rv tag fe zs st1 svb = (Inr st', sv')"
    using assms by (auto simp: fold_journal_def st_bind_Inr_iff)
  have "ss_trust st1 = ss_trust st" by (rule fold_res_inv [OF st1]) (auto dest: fold_issuance_frame)
  then show ?thesis using fold_outcomes_frame [OF o] by simp
qed

lemma recover_shape:
  assumes "recover_state L rv tag fe None sv = (Inr st, sv')"
  shows "trust_shape (ss_trust st)"
proof -
  obtain st0 sv0 where st0: "load_epoch L rv (fe_epoch fe) sv = (Inr st0, sv0)" "fold_journal L rv tag fe st0 sv0 = (Inr st, sv')"
    using assms by (auto simp: recover_state_def st_bind_Inr_iff)
  have "st0 = initial_state (fe_epoch fe) \<or> (\<exists>v. load_state v = Some st0)"
    using st0(1) by (auto simp: load_epoch_def st_bind_Inr_iff some_or_Inr split: option.splits)
  then have "trust_shape (ss_trust st0)" using load_shape by (auto simp: initial_state_def trust_shape_def)
  then show ?thesis using fold_journal_shape [OF st0(2)] by simp
qed

lemma assemble_shape:
  assumes "assemble bound fe lead w grid now st_ok input_end points st = Inr (bnd, st')" and "trust_shape (ss_trust st)"
  shows "trust_shape (ss_trust st')"
proof -
  obtain first_obs bt v h g prs where bt: "fold_res (add_candidate fe (b_decision_origin bound) input_end first_obs) points
      \<lparr> bt_state = st, bt_cands = [], bt_inputs = [] \<rparr> = Inr bt"
    and ev: "evaluate (bt_inputs bt) (ss_trust (bt_state bt)) g (trust (b_settings bound)) prs None = Inr (v, h)"
    and st': "ss_trust st' = h"
    using assms(1) by (auto simp: assemble_def Let_def bind_res_Inr_iff map_sum_Inr_iff split: if_splits)
  have "ss_trust (bt_state bt) = ss_trust st"
    by (rule fold_res_inv [OF bt]) (auto simp: add_candidate_def Let_def bind_res_Inr_iff set_model_def)
  then show ?thesis using evaluate_shape [OF ev] assms(2) st' by simp
qed

lemma build_shape:
  "build L cfg rv bound fe lead w grid st sv = (Inr (bnd, st'), sv') \<Longrightarrow> trust_shape (ss_trust st) \<Longrightarrow> trust_shape (ss_trust st')"
  using assemble_shape by (fastforce simp: build_def st_bind_Inr_iff)

section \<open>Folding once\<close>

lemma issuances_after_wf:
  "db_wf cd db \<Longrightarrow> issuances_after cd ek after db = Inr (filter (\<lambda>r. ik_evidence_key (is_key r) = ek \<and> after < is_seq r) (d_issuances db))"
  unfolding issuances_after_def
  by (intro map_res_id) (auto simp: db_wf_def issuances_wf_def intro: row_to_issuance_wf)

text \<open>Nothing in a sequence is beyond the last element already taken from it.\<close>

lemma nothing_after_last:
  fixes f :: "'a \<Rightarrow> int"
  assumes "sorted_wrt (<) (map f xs)" and "ys = filter (\<lambda>x. P x \<and> a < f x) xs"
  shows "filter (\<lambda>x. P x \<and> (if ys = [] then a else f (last ys)) < f x) xs = []"
proof (cases "ys = []")
  case False
  have "sorted_wrt (\<lambda>x y. f x < f y) ys"
    using assms sorted_wrt_filter [of "\<lambda>x y. f x < f y" xs] by (simp add: sorted_wrt_map)
  then have "sorted_wrt (\<lambda>x y. f x < f y) (butlast ys @ [last ys])" using False by simp
  then have "\<forall>x \<in> set (butlast ys). f x < f (last ys)" by (simp only: sorted_wrt_append) simp
  moreover have "set ys = insert (last ys) (set (butlast ys))"
    using False by (metis append_butlast_last_id list.simps(15) rotate1.simps(2) set_rotate1)
  ultimately have "f x \<le> f (last ys)" if "x \<in> set ys" for x using that by auto
  moreover have "a < f (last ys)" using False assms(2) last_in_set by fastforce
  ultimately show ?thesis using False assms(2) by (force simp: filter_empty_conv)
qed (use assms(2) in simp)

lemma fold_issuances_last:
  assumes "fold_res (fold_issuance fe) xs st = Inr st'"
  shows "ss_last_issuance_seq st' = (if xs = [] then ss_last_issuance_seq st else is_seq (last xs)) \<and>
     ss_last_outcome_seq st' = ss_last_outcome_seq st"
  using assms
proof (induction xs arbitrary: st)
  case (Cons x xs)
  then obtain st1 where st1: "fold_issuance fe x st = Inr st1" "fold_res (fold_issuance fe) xs st1 = Inr st'"
    by (auto simp: bind_res_Inr_iff)
  from Cons.IH [OF st1(2)] fold_issuance_frame [OF st1(1)] show ?case by simp
qed simp

text \<open>What is left of the journal to fold into a state.\<close>

definition left_to_fold :: "string \<Rightarrow> service_state \<Rightarrow> db \<Rightarrow> issuance list \<times> outcome list" where
  "left_to_fold ek st db =
     (filter (\<lambda>r. ik_evidence_key (is_key r) = ek \<and> ss_last_issuance_seq st < is_seq r) (d_issuances db),
      filter (\<lambda>z. oc_evidence_key z = ek \<and> ss_last_outcome_seq st < oc_seq z) (d_outcomes db))"

lemma fold_journal_nothing_left:
  assumes "fold_journal L rv tag fe st sv = (Inr st', sv')" and "sv_store sv = Some s" and wf: "db_wf (lb_cd L) (st_db s)"
  shows "left_to_fold (fe_epoch fe) st' (st_db s) = ([], []) \<and> sv' = sv"
proof -
  let ?db = "st_db s" and ?ek = "fe_epoch fe"
  let ?iss = "\<lambda>a. filter (\<lambda>r. ik_evidence_key (is_key r) = ?ek \<and> a < is_seq r) (d_issuances ?db)"
  let ?out = "\<lambda>a. filter (\<lambda>z. oc_evidence_key z = ?ek \<and> a < oc_seq z) (d_outcomes ?db)"
  have iss: "issuances_after (lb_cd L) ?ek a ?db = Inr (?iss a)" for a using wf by (rule issuances_after_wf)
  have out: "outcomes_after (lb_cd L) ?ek a ?db = Inr (?out a)" for a using wf by (intro outcomes_after_wf) (simp add: db_wf_def)
  have same: "sv\<lparr> sv_store := Some s \<rparr> = sv" using assms(2) by (cases sv) simp
  obtain st1 where st1: "fold_res (fold_issuance fe) (?iss (ss_last_issuance_seq st)) st = Inr st1"
    and o: "fold_outcomes_from L rv tag fe (?out (ss_last_outcome_seq st1)) st1 sv = (Inr st', sv')"
    using assms(1,2) iss out
    by (auto simp: fold_journal_def st_bind_Inr_iff on_store_Inr same dest!: read_store_Inr)
  note l1 = fold_issuances_last [OF st1] and l2 = fold_outcomes_frame [OF o]
  have s1: "sorted_wrt (<) (map is_seq (d_issuances ?db))" "sorted_wrt (<) (map oc_seq (d_outcomes ?db))"
    using wf by (auto simp: db_wf_def issuances_wf_def outcomes_wf_def seqs_ok_def)
  show ?thesis
    using nothing_after_last [OF s1(1) refl, of "\<lambda>r. ik_evidence_key (is_key r) = ?ek" "ss_last_issuance_seq st"]
      nothing_after_last [OF s1(2) refl, of "\<lambda>z. oc_evidence_key z = ?ek" "ss_last_outcome_seq st1"] l1 l2
    by (auto simp: left_to_fold_def)
qed

lemma read_store_ok:
  assumes "sv_store sv = Some s" and "rv_fault rv what = None" and "f (st_db s) = Inr x"
  shows "on_store (read_store rv what f) sv = (Inr x, sv)"
proof -
  have "sv\<lparr> sv_store := Some s \<rparr> = sv" using assms(1) by (cases sv) simp
  then show ?thesis using assms by (simp add: on_store_def read_store_def guard_def Let_def)
qed

lemma fold_journal_done:
  assumes "left_to_fold (fe_epoch fe) st (st_db s) = ([], [])" and s: "sv_store sv = Some s" and wf: "db_wf (lb_cd L) (st_db s)"
    and faults: "\<And>what. rv_fault rv what = None"
  shows "fold_journal L rv tag fe st sv = (Inr st, sv)"
proof -
  have "issuances_after (lb_cd L) (fe_epoch fe) (ss_last_issuance_seq st) (st_db s) = Inr []"
    using assms(1) issuances_after_wf [OF wf] by (simp add: left_to_fold_def)
  moreover have "outcomes_after (lb_cd L) (fe_epoch fe) (ss_last_outcome_seq st) (st_db s) = Inr []"
    using assms(1) outcomes_after_wf wf by (simp add: left_to_fold_def db_wf_def)
  ultimately show ?thesis by (simp add: fold_journal_def read_store_ok [OF s faults])
qed

lemma write_checkpoint_latest:
  assumes "db_wf cd (st_db s)" and "write_checkpoint cd en ek state l s = (Inr co, s')"
  shows "latest_checkpoint cd ek (st_db s') = Inr co \<and> d_issuances (st_db s') = d_issuances (st_db s) \<and>
     d_outcomes (st_db s') = d_outcomes (st_db s)"
  using assms(2)
  by (auto simp: write_checkpoint_def write_checkpoint_body_def guard_def then_read_def transact_def Let_def bind_res_Inr_iff
      split: sum.splits option.splits if_splits prod.splits)

end
