(* ===== verification/Service_Demo.thy ===== *)
theory Service_Demo
  imports Service_Props
begin

text \<open>
  A service whose journal holds one issuance, and a request for that issuance's origin that it answers: the concrete case
  the guarantees of the service are applied to.
\<close>

section \<open>Canonical JSON is short enough\<close>

text \<open>A bound on the length of the text of a value, and the values that have a text.\<close>

fun json_finite :: "json \<Rightarrow> bool" where
  "json_finite (JFloat x) = is_finite x"
| "json_finite (JList xs) = list_all json_finite xs"
| "json_finite (JObj kvs) = list_all (\<lambda>kv. json_finite (snd kv)) kvs"
| "json_finite _ = True"

fun text_bound :: "json \<Rightarrow> nat" where
  "text_bound (JInt n) = length (show_int n)"
| "text_bound (JStr s) = 2 + 6 * length s"
| "text_bound (JList xs) = 2 + sum_list (map (\<lambda>x. 1 + text_bound x) xs)"
| "text_bound (JObj kvs) = 2 + sum_list (map (\<lambda>kv. 4 + 6 * length (fst kv) + text_bound (snd kv)) kvs)"
| "text_bound _ = 5"

lemma json_string_bound: "length (json_string s) \<le> 2 + 6 * length s"
proof -
  have c: "length (escape_char c) \<le> 6" for c by (simp add: escape_char_def Let_def)
  have "length (concat (map escape_char s)) \<le> 6 * length s"
  proof (induction s)
    case (Cons a s)
    then show ?case using c [of a] by simp
  qed simp
  then show ?thesis by (simp add: json_string_def)
qed

lemma join_length: "length (join '','' ss) \<le> sum_list (map (\<lambda>s. 1 + length s) ss)"
  by (induction "'',''" ss rule: join.induct) auto

lemma those_bound:
  assumes "\<And>x. x \<in> set xs \<Longrightarrow> \<exists>s. f x = Some s \<and> length s \<le> b x"
  shows "\<exists>ss. those (map f xs) = Some ss \<and> sum_list (map (\<lambda>s. 1 + length s) ss) \<le> sum_list (map (\<lambda>x. 1 + b x) xs)"
  using assms
proof (induction xs)
  case (Cons x xs)
  then obtain s ss where "f x = Some s" "length s \<le> b x" "those (map f xs) = Some ss"
    "sum_list (map (\<lambda>s. 1 + length s) ss) \<le> sum_list (map (\<lambda>x. 1 + b x) xs)" by force
  then show ?case by simp
qed simp

lemma canonical_json_bound:
  assumes "\<And>a. length (fmt a) \<le> 5"
  shows "json_finite v \<Longrightarrow> \<exists>s. canonical_json fmt v = Some s \<and> length s \<le> text_bound v"
proof (induction v rule: json_finite.induct)
  case (1 x)
  then show ?case using assms by (cases x) auto
next
  case (2 xs)
  then have "\<exists>s. canonical_json fmt x = Some s \<and> length s \<le> text_bound x" if "x \<in> set xs" for x
    using that by (simp add: list_all_iff)
  from those_bound [of xs "canonical_json fmt" text_bound, OF this] obtain ss where
    "those (map (canonical_json fmt) xs) = Some ss" "sum_list (map (\<lambda>s. 1 + length s) ss) \<le> sum_list (map (\<lambda>x. 1 + text_bound x) xs)"
    by blast
  then show ?case using join_length [of ss] by simp
next
  case (3 kvs)
  let ?f = "\<lambda>kv. map_option (\<lambda>s. json_string (fst kv) @ '':'' @ s) (canonical_json fmt (snd kv))"
  let ?b = "\<lambda>kv. 3 + 6 * length (fst kv) + text_bound (snd kv)"
  have "\<exists>s. ?f kv = Some s \<and> length s \<le> ?b kv" if "kv \<in> set (sort_key fst kvs)" for kv
  proof -
    have kv: "kv \<in> set kvs" using that by simp
    from 3 kv obtain s where s: "canonical_json fmt (snd kv) = Some s" "length s \<le> text_bound (snd kv)"
      by (cases kv) (fastforce simp: list_all_iff)
    then show ?thesis using json_string_bound [of "fst kv"] by simp
  qed
  from those_bound [of "sort_key fst kvs" ?f ?b, OF this] obtain ss where
    ss: "those (map ?f (sort_key fst kvs)) = Some ss"
        "sum_list (map (\<lambda>s. 1 + length s) ss) \<le> sum_list (map (\<lambda>x. 1 + ?b x) (sort_key fst kvs))" by blast
  have "sum_mset (mset (map (\<lambda>x. 1 + ?b x) (sort_key fst kvs))) = sum_mset (mset (map (\<lambda>x. 1 + ?b x) kvs))" by simp
  then have "sum_list (map (\<lambda>x. 1 + ?b x) (sort_key fst kvs)) = sum_list (map (\<lambda>x. 1 + ?b x) kvs)"
    unfolding sum_mset_sum_list .
  then show ?case using ss join_length [of ss] by (simp add: add.assoc)
qed (use json_string_bound in auto)

lemma encode_ok:
  assumes "\<And>a. length (Store.cd_fmt cd a) \<le> 5" and "json_finite (JObj kvs)" and "int (text_bound (JObj kvs)) \<le> cap"
  shows "\<exists>data. encode cd (JObj kvs) cap = Inr data \<and> int (length data) \<le> int (text_bound (JObj kvs))"
  using canonical_json_bound [of "Store.cd_fmt cd" "JObj kvs", OF assms(1,2)] assms(3)
  by (auto simp: encode_def simp del: text_bound.simps json_finite.simps canonical_json.simps)

section \<open>The service\<close>

definition demo_lib :: lib where
  "demo_lib = \<lparr> lb_cd = \<lparr> cd_sha = demo_sha, cd_fmt = (\<lambda>_. ''0.0'') \<rparr>, lb_ac = Artifacts.demo_codec, lb_np = demo_numlib, lb_ws = demo_ws \<rparr>"

definition demo_config :: service_config where
  "demo_config = \<lparr> sf_fit_mode = FitOff, sf_max_autoscalers = 4, sf_quota_bytes = 1000000, sf_store_id = Some ''s'',
     sf_retention_seconds = 604800, sf_compact_every_seconds = 3600 \<rparr>"

definition demo_rv :: request_env where
  "demo_rv = \<lparr> rv_request_ms = 6100000, rv_fresh_ms = 6100000, rv_issue_ms = 6100000, rv_build_ms = 6100000, rv_stamp_ms = 6100000,
     rv_history = demo_read_env, rv_fault = (\<lambda>_. None), rv_record_env = demo_env 6100000, rv_outcome_env = (\<lambda>_ _. demo_env 6100000),
     rv_decide_env = demo_env 6100000, rv_commit_env = demo_env 6100000, rv_final_env = demo_env 6100000,
     rv_compact_env = demo_env 6100000, rv_writes = (Written, Written) \<rparr>"

definition demo_grid :: rps_grid where
  "demo_grid = \<lparr> g_query_sha256 = demo_sha [], g_interval_seconds = 300, g_start = 6000, g_end = 6000, g_values = [None],
     g_received_at_ms = [None], g_read_completed_ms = 6100000, g_response_sha256 = demo_sha [], g_chunks = 1 \<rparr>"

definition demo_payload_json :: json where
  "demo_payload_json = JObj
     [(''evidence_mode'', JStr ''prospective''), (''decision_origin'', JInt 6000), (''window_start'', JInt 6000),
      (''window_end'', JInt 6600), (''target_timestamps'', JList [JInt 6300, JInt 6600]), (''sample_interval_seconds'', JInt 300),
      (''lead_seconds'', JInt 600), (''startup_delay_seconds'', JInt 120), (''actuation_allowance_seconds'', JInt 15),
      (''valid_until'', JInt 6165), (''input_end'', JInt 6000), (''input_received_through_ms'', JInt 6090000),
      (''nominal_miscoverage_bps'', JInt 1000),
      (''candidates'', JObj [(''seasonal_naive'', JObj [(''recipe'', JStr RECIPE_NAIVE), (''point_rps'', JList [JFloat (Fin 3), JFloat (Fin 5)]),
         (''base_window_max_rps'', JFloat (Fin 5)), (''upper_window_max_rps'', JNull),
         (''calibration'', JObj [(''n'', JInt 0), (''working_miscoverage'', JFloat (Fin 0))]), (''fit_cutoff'', JNull), (''artifact_sha256'', JNull)])]),
      (''selected'', JNull),
      (''verdict'', JObj [(''phase'', JStr ''Collecting''), (''reason'', JStr ''HistoryInsufficient''), (''prediction_ready'', JBool False),
         (''candidates'', JObj [(''seasonal_naive'', JObj [(''phase'', JStr ''Collecting''), (''coverage_gate'', JNull),
            (''availability'', JNull), (''prospective_gate_bounds'', JInt 0), (''evidence_cutoff'', JNull)])])]),
      (''issued_at_ms'', JInt 6100000), (''checkpoint_sha256'', JStr (demo_sha [])), (''issuance_id'', JStr ''i'')]"

definition demo_request_key :: issuance_key where
  "demo_request_key = \<lparr> ik_evidence_key = demo_sha [], ik_decision_origin = 6000, ik_window_start = 6000, ik_window_end = 6600,
     ik_settings_sha256 = demo_sha [] \<rparr>"



abbreviation demo_cd :: Store.codec where "demo_cd \<equiv> lb_cd demo_lib"

lemma demo_cd_simps [simp]: "cd_sha demo_cd = demo_sha" "Store.cd_fmt demo_cd = (\<lambda>_. ''0.0'')"
  by (simp_all add: demo_lib_def)

definition demo_empty_store :: store where
  "demo_empty_store = demo_store\<lparr> st_max_bundle_bytes := 100000 \<rparr>"

lemma demo_empty_reachable: "reachable cd demo_empty_store"
proof -
  have "open_store (demo_env 0) None (Some ''s'') [] 1000000 604800 2419200 100000 = Inr demo_empty_store"
    by (simp add: open_store_def demo_env_def demo_empty_store_def demo_store_def demo_db_def fresh_db_def)
  then show ?thesis unfolding reachable_def by blast
qed

definition demo_text_of :: "json \<Rightarrow> string" where
  "demo_text_of v = (case encode demo_cd v 100000 of Inr s \<Rightarrow> s | Inl _ \<Rightarrow> [])"

lemma demo_payload_encodes: "encode demo_cd demo_payload_json 100000 = Inr (demo_text_of demo_payload_json) \<and>
   length (demo_text_of demo_payload_json) \<le> 20000"
proof -
  have fin: "json_finite demo_payload_json" by (simp add: demo_payload_json_def)
  have len: "text_bound demo_payload_json \<le> 20000"
    by (simp add: demo_payload_json_def show_int_def show_nat.simps demo_sha_def RECIPE_NAIVE_def)
  obtain kvs where kvs: "demo_payload_json = JObj kvs" by (simp add: demo_payload_json_def)
  have "\<exists>data. encode demo_cd (JObj kvs) 100000 = Inr data \<and> int (length data) \<le> int (text_bound (JObj kvs))"
    by (rule encode_ok) (use fin len in \<open>simp_all add: kvs del: text_bound.simps json_finite.simps\<close>)
  then show ?thesis using len unfolding kvs demo_text_of_def by auto
qed

definition demo_row :: issuance where
  "demo_row = (issuance_row demo_cd (demo_env 6100000) demo_db demo_request_key (demo_text_of demo_payload_json) demo_payload_json
     [''seasonal_naive''])\<lparr> is_seq := 1 \<rparr>"

definition demo_held_store :: store where
  "demo_held_store = demo_empty_store\<lparr> st_db := demo_db\<lparr> d_issuances := [demo_row], d_issuance_seq := 1 \<rparr> \<rparr>"

lemma demo_naive_model: "check_models [''seasonal_naive''] = Inr [''seasonal_naive'']"
  by (simp add: check_models_def MAX_MODELS_def model_match_def model_char_def less_eq_char_def)

lemma demo_request_key_ok: "issuance_key_ok demo_request_key"
  by (simp add: issuance_key_ok_def demo_request_key_def demo_sha_ok)

lemma demo_row_fields [simp]:
  "is_seq demo_row = 1" "is_key demo_row = demo_request_key" "is_payload demo_row = demo_payload_json"
  "is_models demo_row = [''seasonal_naive'']" "is_key_sha256 demo_row = key_sha256 demo_cd k"
  by (simp_all add: demo_row_def issuance_row_def key_sha256_def demo_sha_def)

lemma demo_row_reads: "row_to_issuance demo_cd demo_row = Inr demo_row"
  by (simp add: row_to_issuance_def demo_naive_model demo_request_key_ok) (simp add: demo_row_def issuance_row_def)

lemma demo_held_commit: "commit_issuance demo_cd (demo_env 6100000) demo_request_key demo_payload_json [''seasonal_naive''] demo_empty_store =
    (Inr (Some demo_row, True), demo_held_store)"
proof -
  have "insert_issuance (issuance_row demo_cd (demo_env 6100000) demo_db demo_request_key (demo_text_of demo_payload_json) demo_payload_json
      [''seasonal_naive'']) demo_db = Inr (st_db demo_held_store)"
    by (simp add: insert_issuance_def demo_held_store_def demo_empty_store_def demo_store_def demo_row_def demo_db_def fresh_db_def
        issuance_row_def demo_request_key_def)
  moreover have "ik_window_end demo_request_key = 6600" by (simp add: demo_request_key_def)
  ultimately show ?thesis
    using demo_payload_encodes demo_row_reads
    by (simp add: commit_issuance_def demo_naive_model commit_issuance_body_row Let_def get_issuance_def
        require_healthy_def refuse_retired_def check_quota_def transact_def then_read_def guard_def
        demo_held_store_def demo_empty_store_def demo_store_def demo_db_def fresh_db_def demo_env_def)
qed

lemma demo_held_reachable: "reachable demo_cd demo_held_store"
proof -
  let ?c = "CommitIssuance demo_request_key demo_payload_json [''seasonal_naive'']"
  have "demo_held_store = exec demo_cd (demo_env 6100000) ?c demo_empty_store" using demo_held_commit by simp
  moreover have "op_key_ok ?c" using demo_request_key_ok by simp
  ultimately have "runs demo_cd demo_empty_store demo_held_store" unfolding exec_step_def by blast
  then show ?thesis using reachable_runs demo_empty_reachable by blast
qed

section \<open>The answer\<close>

lemma demo_epoch: "request_epoch demo_lib demo_bound lead = demo_sha []"
  by (simp add: evidence_key_def demo_sha_def)

lemma demo_window_made: "make_window (JInt (b_decision_origin demo_bound)) (b_settings demo_bound) demo_lead = Inr demo_window"
  using demo_make_window by (simp add: demo_bound_def)

lemma demo_key_made: "make_key demo_bound (demo_sha []) demo_window = Inr demo_request_key"
  using demo_request_key_ok
  by (simp add: make_key_def demo_bound_def demo_window_def window_end_def demo_request_key_def Let_def)

lemma demo_answered: "\<exists>a. respond demo_lib demo_bound (demo_sha []) demo_payload_json = Inr a"
proof -
  let ?r = "bundle_response demo_bound (demo_sha []) demo_payload_json"
  have readable: "bundle_readable demo_payload_json (reported_model demo_payload_json)" by code_simp
  have ok: "check_response demo_sha ?r (Some demo_bound) = Inr ()" by code_simp
  have "check_response demo_sha ?r None = Inr ()" using ok by (auto simp: check_response_def bind_res_Inr_iff)
  moreover have "wire_times ?r" by code_simp simp
  ultimately obtain w where "to_wire ?r = Inr w" using to_wire_parses by blast
  then show ?thesis using readable ok by (simp add: respond_def Let_def)
qed

section \<open>The request\<close>

definition demo_cal_policy :: calibration_policy where
  "demo_cal_policy = \<lparr> p_lead_seconds = 600, p_nominal_bps = 1000, p_eta_bps = 50, p_min_bps = 100, p_max_bps = 2500,
     p_min_windows = 128, p_max_scores = 512, p_retention_seconds = 604800 \<rparr>"

lemma demo_policy_made: "policy_from_settings default_settings 600 = Inr demo_cal_policy"
proof -
  have "policy_ok demo_cal_policy" by code_simp
  then show ?thesis by (simp add: policy_from_settings_def default_settings_def demo_cal_policy_def)
qed

definition demo_fold_env :: fold_env where
  "demo_fold_env = \<lparr> fe_settings = default_settings, fe_policy = demo_cal_policy, fe_epoch = demo_sha [] \<rparr>"

lemma demo_bundle_read: "bundle_of demo_payload_json = Some
   \<lparr> bd_evidence_mode = ''prospective'', bd_decision_origin = 6000, bd_targets = [6300, 6600], bd_interval = 300,
     bd_candidates = Candidates [(''seasonal_naive'',
        Some \<lparr> c_recipe = RECIPE_NAIVE, c_point_rps = [Fin 3, Fin 5], c_base = Fin 5, c_upper = None \<rparr>)],
     bd_model_family = None, bd_single = None \<rparr>"
  by (simp add: bundle_of_def demo_payload_json_def candidates_of_def entry_of_def cand_at_def)

definition demo_noted :: ledger where
  "demo_noted = prune 6000 RETENTION_S (note_prospective_issuance
     \<lparr> n_seq = 1, n_issuance_id = [], n_epoch = demo_sha [], n_model = ''seasonal_naive'', n_recipe = RECIPE_NAIVE, n_origin = 6000,
       n_window_end = 6600, n_deadline_s = 6600 + settlement_seconds default_settings + outcome_grace_seconds default_settings,
       n_mode = ''prospective'', n_bounded = False \<rparr> 600
     ((new_ledger (demo_sha []) ''seasonal_naive'' RECIPE_NAIVE 300)\<lparr> l_last_issuance_seq := 1 \<rparr>))"

definition demo_folded :: service_state where
  "demo_folded = (initial_state (demo_sha []))\<lparr> ss_last_issuance_seq := 1, ss_models := [(''seasonal_naive'',
     \<lparr> ms_recipe = RECIPE_NAIVE, ms_calibration = cal_initial demo_cal_policy (demo_sha []) ''seasonal_naive'' RECIPE_NAIVE,
       ms_ledger = demo_noted \<rparr>)] \<rparr>"

lemma demo_cal_policy_fields [simp]: "p_lead_seconds demo_cal_policy = 600" "p_nominal_bps demo_cal_policy = 1000"
  by (simp_all add: demo_cal_policy_def)

lemma demo_folds: "fold_issuance demo_fold_env demo_row (initial_state (demo_sha [])) = Inr demo_folded"
  by (simp add: fold_issuance_def demo_bundle_read some_or_def fold_candidate_def candidate_def model_state_of_def note_issuance_def
      demo_fold_env_def Let_def demo_request_key_def same_identity_def MODES_def demo_folded_def set_model_def)
    (simp add: initial_state_def new_ledger_def demo_noted_def note_prospective_issuance_def default_settings_def)

lemmas state_json_defs = state_json_def model_state_json_def cal_json_def counters_json_def ledger_json_def bucket_json_def totals_json_def
  by_number_def pairs_json_def trust_state_json_def opt_int_def

lemma demo_noted_fields:
  "demo_noted = (new_ledger (demo_sha []) ''seasonal_naive'' RECIPE_NAIVE 300)\<lparr> l_last_issuance_seq := 1,
     l_buckets := [(1, zero_bucket\<lparr> iss := 1, g_iss := g_iss zero_bucket + of_bool_int (in_cohort 6000 600) \<rparr>)],
     l_totals := l_totals (new_ledger (demo_sha []) ''seasonal_naive'' RECIPE_NAIVE 300) \<lparr> t_issued := 1 \<rparr>,
     l_pending := [(6600, 6600 + settlement_seconds default_settings + outcome_grace_seconds default_settings)],
     l_first_issue_s := Some 6000, l_newest_s := Some 6000 \<rparr>"
  by (simp add: demo_noted_def note_prospective_issuance_def in_bucket_def prune_def new_ledger_def Let_def HOUR_def RETENTION_S_def DAY_def
      first_set_def newest_of_def zero_bucket_def)

lemma demo_state_encodes: "\<exists>data. encode demo_cd (state_json demo_folded) MAX_CHECKPOINT_BYTES = Inr data \<and> int (length data) \<le> 100000"
proof -
  note st = demo_folded_def initial_state_def demo_noted_fields new_ledger_def zero_bucket_def zero_counters_def cal_initial_def new_pairs_def
  have fin: "json_finite (state_json demo_folded)" by (simp add: st state_json_defs zero_pyfloat_def)
  have len: "text_bound (state_json demo_folded) \<le> 100000"
    by (simp add: st state_json_defs show_int_def show_nat.simps default_settings_def demo_sha_def RECIPE_NAIVE_def RECIPE_E1_def NAIVE_def STATE_SCHEMA_def BPS_def of_bool_int_def)
  obtain kvs where kvs: "state_json demo_folded = JObj kvs" by (simp add: state_json_def)
  have "\<exists>data. encode demo_cd (JObj kvs) MAX_CHECKPOINT_BYTES = Inr data \<and> int (length data) \<le> int (text_bound (JObj kvs))"
    by (rule encode_ok) (use fin len in \<open>simp_all add: kvs MAX_CHECKPOINT_BYTES_def del: text_bound.simps json_finite.simps\<close>)
  then show ?thesis using len unfolding kvs by auto
qed

section \<open>The request is answered, again and again\<close>

definition demo_holds :: "store \<Rightarrow> bool" where
  "demo_holds s \<longleftrightarrow> reachable demo_cd s \<and> st_problem s = None \<and> st_quota_bytes s = 1000000 \<and> d_issuances (st_db s) = [demo_row] \<and>
     d_outcomes (st_db s) = [] \<and> d_horizon (st_db s) = 0 \<and>
     (case newest_checkpoint (demo_sha []) (st_db s) of
        None \<Rightarrow> True | Some c \<Rightarrow> cp_state c = state_json demo_folded \<and> cp_last_outcome_seq c = 0)"

lemma demo_held_holds: "demo_holds demo_held_store"
  unfolding demo_holds_def using demo_held_reachable
  by (simp add: demo_held_store_def demo_empty_store_def demo_store_def demo_db_def fresh_db_def newest_checkpoint_def epoch_checkpoints_def)

lemma demo_wf: "demo_holds s \<Longrightarrow> db_wf demo_cd (st_db s)"
  unfolding demo_holds_def using reachable_wf by blast

lemma record_nothing:
  "sha256_match source \<Longrightarrow> st_problem s = None \<Longrightarrow> en_fault en = None \<Longrightarrow> en_usage en \<le> st_quota_bytes s \<Longrightarrow>
   \<exists>n. record_observations en series [] source s = (Inr n, s)"
  by (simp add: record_observations_def guard_def require_healthy_def check_quota_def transact_def then_read_def Let_def)

lemma demo_left: "demo_holds s \<Longrightarrow> left_to_fold (demo_sha []) demo_folded (st_db s) = ([], [])"
  by (simp add: left_to_fold_def demo_holds_def demo_folded_def)

lemma demo_trust_shape: "trust_shape (ss_trust demo_folded)"
  by (simp add: demo_folded_def initial_state_def trust_shape_def)

lemma demo_rv_fields [simp]: "rv_fault demo_rv what = None" "rv_final_env demo_rv = demo_env 6100000"
  by (simp_all add: demo_rv_def)

lemma demo_fe_epoch [simp]: "fe_epoch demo_fold_env = demo_sha []"
  by (simp add: demo_fold_env_def)

lemma demo_recovers:
  assumes s: "sv_store sv = Some s" "demo_holds s" and "st = None \<or> st = Some demo_folded"
  shows "recover_state demo_lib demo_rv tag demo_fold_env st sv = (Inr demo_folded, sv)"
proof -
  note wf = demo_wf [OF s(2)] and read = read_store_ok [OF s(1) demo_rv_fields(1)]
  have again: "fold_journal demo_lib demo_rv tag demo_fold_env demo_folded sv = (Inr demo_folded, sv)"
    by (rule fold_journal_done [OF _ s(1) wf]) (simp_all add: demo_left [OF s(2)])
  have cp: "latest_checkpoint demo_cd (demo_sha []) (st_db s) = Inr (newest_checkpoint (demo_sha []) (st_db s))"
    using wf by (intro latest_checkpoint_wf) (simp add: db_wf_def)
  show ?thesis
  proof (cases "st = None \<and> newest_checkpoint (demo_sha []) (st_db s) = None")
    case True
    have k: "ik_evidence_key demo_request_key = demo_sha []" by (simp add: demo_request_key_def)
    have "issuances_after demo_cd (demo_sha []) 0 (st_db s) = Inr [demo_row]"
      using s(2) issuances_after_wf [OF wf] by (simp add: demo_holds_def k)
    moreover have "outcomes_after demo_cd (demo_sha []) 0 (st_db s) = Inr []"
      using s(2) outcomes_after_wf [of demo_cd "st_db s"] wf by (simp add: demo_holds_def db_wf_def)
    moreover have "ss_last_issuance_seq (initial_state (demo_sha [])) = 0" "ss_last_outcome_seq demo_folded = 0"
      by (simp_all add: initial_state_def demo_folded_def)
    ultimately show ?thesis using True cp
      by (simp add: recover_state_def load_epoch_def fold_journal_def read demo_folds)
  next
    case False
    then show ?thesis
      using assms(3) cp s(2) load_state_json [OF demo_trust_shape] again
      by (auto simp: recover_state_def load_epoch_def read some_or_def demo_holds_def)
  qed
qed

lemma demo_checkpoints:
  assumes "demo_holds s"
  shows "\<exists>c s'. write_checkpoint demo_cd (demo_env 6100000) (demo_sha []) (state_json demo_folded) 0 s = (Inr (Some c), s') \<and>
     cp_state c = state_json demo_folded \<and> demo_holds s'"
proof -
  let ?ek = "demo_sha []" and ?db = "st_db s"
  obtain data where data: "encode demo_cd (state_json demo_folded) MAX_CHECKPOINT_BYTES = Inr data" "int (length data) \<le> 100000"
    using demo_state_encodes by blast
  define row where "row = \<lparr> cp_seq = 0, cp_evidence_key = ?ek, cp_last_outcome_seq = 0, cp_schema_version = SCHEMA_VERSION,
     cp_bytes = data, cp_state = state_json demo_folded, cp_payload_sha256 = demo_sha data, cp_created_at_ms = 6100000 \<rparr>"
  have wf: "checkpoints_wf demo_cd ?db" using demo_wf [OF assms] by (simp add: db_wf_def)
  have cp: "latest_checkpoint demo_cd ?ek ?db = Inr (newest_checkpoint ?ek ?db)" using wf by (rule latest_checkpoint_wf)
  have ok: "require_healthy s = Inr ()" "check_quota s (demo_env 6100000) (int (length data)) = Inr ()"
    using assms data(2) by (simp_all add: require_healthy_def check_quota_def demo_holds_def demo_env_def)
  show ?thesis
  proof (cases "newest_checkpoint ?ek ?db")
    case None
    let ?s' = "s\<lparr> st_db := add_checkpoint row ?db \<rparr>"
    have new: "newest_checkpoint ?ek (add_checkpoint row ?db) = Some (row\<lparr> cp_seq := d_checkpoint_seq ?db + 1 \<rparr>)"
      using newest_checkpoint_add [of ?db ?ek row] wf by (simp add: checkpoints_wf_def row_def)
    have "checkpoints_wf demo_cd (add_checkpoint row ?db)"
      using add_checkpoint_wf [OF wf, of row] None by (simp add: checkpoint_wf_def row_def)
    then have "write_checkpoint demo_cd (demo_env 6100000) ?ek (state_json demo_folded) 0 s =
        (Inr (newest_checkpoint ?ek (add_checkpoint row ?db)), ?s')"
      using data ok cp None latest_checkpoint_wf
      by (simp add: write_checkpoint_def write_checkpoint_body_def Let_def transact_def then_read_def guard_def demo_env_def
          row_def [symmetric, simplified])
    moreover from this have "reachable demo_cd ?s'"
      using reachable_runs [OF _ runs_exec [of "WriteCheckpoint ?ek (state_json demo_folded) 0" demo_cd s "demo_env 6100000"]] assms
      by (simp add: demo_holds_def)
    ultimately show ?thesis using assms new by (auto simp: demo_holds_def row_def)
  next
    case (Some c)
    then have "cp_payload_sha256 c = demo_sha data"
      using wf newest_checkpoint_in [OF Some] by (auto simp: checkpoints_wf_def checkpoint_wf_def demo_sha_def)
    then have "write_checkpoint demo_cd (demo_env 6100000) ?ek (state_json demo_folded) 0 s = (Inr (Some c), s)"
      using data ok cp Some assms
      by (simp add: write_checkpoint_def write_checkpoint_body_def Let_def guard_def demo_holds_def)
    then show ?thesis using assms Some by (auto simp: demo_holds_def)
  qed
qed

definition demo_serves :: "'s service \<Rightarrow> bool" where
  "demo_serves sv \<longleftrightarrow> (\<exists>s. sv_store sv = Some s \<and> demo_holds s) \<and> sv_compacted_s sv = Some 6000 \<and>
     fm_max_series (sv_metrics sv) = MAX_SERIES_PER_AUTOSCALER \<and>
     (dict_get (fm_snaps (sv_metrics sv)) (''ns'', ''pa'') = None \<longrightarrow>
        length (fm_snaps (sv_metrics sv)) < fm_max_autoscalers (sv_metrics sv))"

lemma demo_exports:
  assumes "demo_serves sv"
  shows "\<exists>m. export demo_bound demo_folded demo_grid 6100 sv = (Inr (), sv\<lparr> sv_metrics := m \<rparr>) \<and>
     demo_serves (sv\<lparr> sv_metrics := m \<rparr>)"
proof -
  let ?m = "sv_metrics sv"
  have fam: "''seasonal_naive'' \<in> set MODEL_FAMILIES" by (simp add: MODEL_FAMILIES_def)
  have ss: "ss_models demo_folded = [(''seasonal_naive'', snd (hd (ss_models demo_folded)))]" by (simp add: demo_folded_def)
  have names: "sig_namespace (b_signal demo_bound) = ''ns''" "b_autoscaler_name demo_bound = ''pa''" by (simp_all add: demo_bound_def)
  have "\<exists>sn. export demo_bound demo_folded demo_grid 6100 sv =
      (case update_metrics ''ns'' ''pa'' sn ?m of (r, m) \<Rightarrow> (raising ExMetrics r, sv\<lparr> sv_metrics := m \<rparr>)) \<and>
      length (sn_models sn) \<le> 3 \<and> (\<forall>(model, samples) \<in> set (sn_models sn). model \<in> set MODEL_FAMILIES \<and>
      (\<exists>l cst nominal tr h now latest ff. samples = model_samples l cst nominal tr h now latest ff))"
    unfolding export_def Let_def names
    by (rule exI, rule conjI, rule refl) (subst ss, subst ss, simp add: fam del: ex_simps, blast)
  then obtain sn where e: "export demo_bound demo_folded demo_grid 6100 sv =
      (case update_metrics ''ns'' ''pa'' sn ?m of (r, m) \<Rightarrow> (raising ExMetrics r, sv\<lparr> sv_metrics := m \<rparr>))"
    and sn: "length (sn_models sn) \<le> 3" "\<forall>(model, samples) \<in> set (sn_models sn). model \<in> set MODEL_FAMILIES \<and>
      (\<exists>l cst nominal tr h now latest ff. samples = model_samples l cst nominal tr h now latest ff)"
    by blast
  have "update_metrics ''ns'' ''pa'' sn ?m = (Inr (), ?m\<lparr> fm_snaps := dict_set (''ns'', ''pa'') sn (fm_snaps ?m) \<rparr>)"
    using service_samples_admissible [OF sn(2,1), of ?m] assms by (auto simp: demo_serves_def)
  then show ?thesis using e assms
    by (intro exI [of _ "?m\<lparr> fm_snaps := dict_set (''ns'', ''pa'') sn (fm_snaps ?m) \<rparr>"]) (simp add: demo_serves_def dict_get_set)
qed

lemma demo_close:
  assumes s: "sv_store sv = Some s" "demo_holds s"
  shows "for_each (close_windows demo_lib demo_rv default_settings (demo_sha []) received 6100000) (map fst RECIPES) sv = (Inr (), sv)"
proof -
  have "ik_window_end demo_request_key = 6600" "settlement_seconds default_settings \<ge> 0"
    by (simp_all add: demo_request_key_def default_settings_def)
  then have "open_issuances demo_cd (demo_sha []) model (6100000 div 1000 - settlement_seconds default_settings) (st_db s) = Inr []" for model
    using s(2) by (simp add: open_issuances_def demo_holds_def)
  then show ?thesis by (simp add: close_windows_def read_store_ok [OF s(1) demo_rv_fields(1)] RECIPES_def)
qed

lemma demo_issue:
  assumes "demo_serves sv"
  shows "\<exists>a sv'. issue demo_lib demo_config demo_rv demo_bound demo_lead demo_grid 6100000 sv = (Inr a, sv') \<and> demo_serves sv'"
proof -
  let ?ek = "demo_sha []"
  obtain s where s: "sv_store sv = Some s" "demo_holds s" using assms by (auto simp: demo_serves_def)
  note read = read_store_ok [OF s(1) demo_rv_fields(1)]
  have same: "sv\<lparr> sv_store := Some s \<rparr> = sv" using s(1) by (cases sv) simp
  have sets: "b_settings demo_bound = default_settings" "lead_seconds demo_lead = 600" by (simp_all add: demo_bound_def demo_lead_def)
  have ek: "evidence_key demo_sha (b_signal demo_bound) default_settings 600 = ?ek" by (simp add: evidence_key_def demo_sha_def)
  have "grid_samples demo_grid = []" "sha256_match (g_response_sha256 demo_grid)"
    by (simp_all add: grid_samples_def g_timestamps_def demo_grid_def demo_sha_ok)
  then obtain n where rec: "on_store (record_observations (rv_record_env demo_rv) (''signal:'' @ ?ek) (grid_samples demo_grid)
      (g_response_sha256 demo_grid)) sv = (Inr n, sv)"
    using record_nothing [of "g_response_sha256 demo_grid" s "rv_record_env demo_rv" "''signal:'' @ ?ek"] s
    by (auto simp: on_store_def demo_holds_def demo_rv_def demo_env_def same)
  have held: "get_issuance demo_cd demo_request_key (st_db s) = Inr (Some demo_row)"
    using get_issuance_wf [of demo_cd "st_db s"] demo_wf [OF s(2)] s(2) by (simp add: db_wf_def demo_holds_def)
  obtain co s' where w: "write_checkpoint demo_cd (demo_env 6100000) ?ek (state_json demo_folded) 0 s = (Inr co, s')" "demo_holds s'"
    using demo_checkpoints [OF s(2)] by blast
  let ?sv' = "sv\<lparr> sv_store := Some s' \<rparr>"
  have serves: "demo_serves ?sv'" using assms w(2) by (auto simp: demo_serves_def)
  obtain m where ex: "export demo_bound demo_folded demo_grid 6100 ?sv' = (Inr (), ?sv'\<lparr> sv_metrics := m \<rparr>)"
      "demo_serves (?sv'\<lparr> sv_metrics := m \<rparr>)"
    using demo_exports [OF serves] by blast
  obtain a where a: "respond demo_lib demo_bound ?ek demo_payload_json = Inr a" using demo_answered by blast
  have last: "ss_last_outcome_seq demo_folded = 0" by (simp add: demo_folded_def initial_state_def)
  have "compact_due demo_config 6100 ?sv' = False" using assms by (simp add: compact_due_def demo_serves_def demo_config_def)
  then have "finish_issue demo_lib demo_config demo_rv demo_bound demo_fold_env demo_grid 6100 demo_row demo_folded sv =
      (Inr a, ?sv'\<lparr> sv_metrics := m \<rparr>)"
    using w(1) ex(1) a s(1)
    by (simp add: finish_issue_def demo_recovers [OF s] on_store_def compact_now_def last)
  then have "issue demo_lib demo_config demo_rv demo_bound demo_lead demo_grid 6100000 sv = (Inr a, ?sv'\<lparr> sv_metrics := m \<rparr>)"
    using demo_window_made
    by (simp add: issue_def Let_def sets ek demo_policy_made demo_fold_env_def [symmetric] rec [unfolded append_Cons append_Nil] read demo_close [OF s] demo_recovers [OF s]
        demo_key_made held)
  then show ?thesis using ex(2) by blast
qed

definition demo_first :: "nat service" where
  "demo_first = \<lparr> sv_store = Some demo_held_store, sv_store_problem = None, sv_dir = [], sv_worker = None,
     sv_metrics = new_metrics 4 MAX_SERIES_PER_AUTOSCALER, sv_compacted_s = Some 6000, sv_cluster = 0 \<rparr>"

lemma demo_first_serves: "demo_serves demo_first"
  using demo_held_holds by (simp add: demo_serves_def demo_first_def new_metrics_def)

end
