(* ===== verification/Service_Guarantees.thy ===== *)
theory Service_Guarantees
  imports Service_Demo
begin

text \<open>
  What the service promises to its callers: a retry answers the same bytes, a restart resumes the same state, nothing is
  issued too late to act, every journal failure is a refusal, every answer has passed the contract, and none makes a
  forecast eligible before the release gates. A service that holds one issuance is the witness.
\<close>

section \<open>Properties\<close>



text \<open>C7: a restart resumes the very state. The state a request has recovered from the journal, written as a checkpoint, is
  what a later recovery starts from: it reads back as it was (calibration, ledgers, trust, selection and pairs), there is
  nothing left to fold, and the recovery ends with the same state. The checkpoint the journal keeps is assumed to hold
  this state, as it does unless another state of the same outcome has the same digest.\<close>

theorem restart_resumes_the_state:
  assumes s: "sv_store sv = Some s" and "reachable (lb_cd L) s" and rec: "recover_state L rv tag fe None sv = (Inr st, sv1)"
    and w: "write_checkpoint (lb_cd L) en (fe_epoch fe) (state_json st) (ss_last_outcome_seq st) s = (Inr (Some c), s2)"
    and "cp_state c = state_json st" and s3: "sv_store sv3 = Some s2"
    and faults: "\<And>what. rv_fault rv' what = None"
  shows "recover_state L rv' tag' fe None sv3 = (Inr st, sv3)"
proof -
  have "journal_runs L sv (snd (on_store (write_checkpoint (lb_cd L) en (fe_epoch fe) (state_json st) (ss_last_outcome_seq st)) sv))"
    by (rule journal_runs_ops)
  then have "runs (lb_cd L) s s2" using s w by (simp add: journal_runs_def on_store_def)
  then have wf: "db_wf (lb_cd L) (st_db s)" "db_wf (lb_cd L) (st_db s2)"
    using assms(2) reachable_runs by (auto intro: reachable_wf)
  obtain st0 sv0 where "load_epoch L rv (fe_epoch fe) sv = (Inr st0, sv0)" and f: "fold_journal L rv tag fe st0 sv0 = (Inr st, sv1)"
    using rec by (auto simp: recover_state_def st_bind_Inr_iff)
  then have "sv_store sv0 = Some s"
    using s by (auto simp: load_epoch_def st_bind_Inr_iff on_store_Inr dest!: read_store_Inr)
  from fold_journal_nothing_left [OF f this wf(1)] write_checkpoint_latest [OF wf(1) w]
  have "left_to_fold (fe_epoch fe) st (st_db s2) = ([], [])" by (simp add: left_to_fold_def)
  moreover have "load_state (cp_state c) = Some st" using load_state_json [OF recover_shape [OF rec]] assms(5) by simp
  then have "load_epoch L rv' (fe_epoch fe) sv3 = (Inr st, sv3)"
    using write_checkpoint_latest [OF wf(1) w] by (simp add: load_epoch_def read_store_ok [OF s3 faults] some_or_def)
  ultimately show ?thesis using fold_journal_done [OF _ s3 wf(2) faults] by (simp add: recover_state_def)
qed

theorem restart_resumes_the_state_witness:
  "\<exists>c s2. write_checkpoint demo_cd (demo_env 6100000) (demo_sha []) (state_json demo_folded) 0 demo_held_store = (Inr (Some c), s2) \<and>
     recover_state demo_lib demo_rv ''first '' demo_fold_env None (demo_first\<lparr> sv_store := Some s2 \<rparr>) =
       (Inr demo_folded, demo_first\<lparr> sv_store := Some s2 \<rparr>)"
proof -
  obtain c s2 where w: "write_checkpoint demo_cd (demo_env 6100000) (demo_sha []) (state_json demo_folded) 0 demo_held_store =
      (Inr (Some c), s2)" "cp_state c = state_json demo_folded" using demo_checkpoints [OF demo_held_holds] by blast
  have first: "sv_store demo_first = Some demo_held_store" by (simp add: demo_first_def)
  have last: "ss_last_outcome_seq demo_folded = 0" by (simp add: demo_folded_def initial_state_def)
  have rec: "recover_state demo_lib demo_rv ''first '' demo_fold_env None demo_first = (Inr demo_folded, demo_first)"
    by (rule demo_recovers [OF first demo_held_holds]) simp
  have w': "write_checkpoint demo_cd (demo_env 6100000) (fe_epoch demo_fold_env) (state_json demo_folded)
      (ss_last_outcome_seq demo_folded) demo_held_store = (Inr (Some c), s2)" using w(1) last by simp
  have "recover_state demo_lib demo_rv ''first '' demo_fold_env None (demo_first\<lparr> sv_store := Some s2 \<rparr>) =
       (Inr demo_folded, demo_first\<lparr> sv_store := Some s2 \<rparr>)"
    by (rule restart_resumes_the_state [OF first demo_held_reachable rec w' w(2)]) simp_all
  then show ?thesis using w(1) by blast
qed



text \<open>C9: nothing is issued too late: every issuance a request adds to the journal carries a stamp that, with the actuation
  allowance, ends before the first target of its window, and is filed under that window. This holds for every request,
  environment and outcome, and for a request that fails after its commit too.\<close>

theorem nothing_is_issued_late: "adds_timely sv (snd (predict L cfg rd rv body sv))"
  by (rule tm.rel_predict)

lemma respond_accepted:
  assumes "respond L bound ek b = Inr a"
  shows "get_obj a ''predictive_eligible'' = JBool False \<and>
     (\<exists>r. check_response (lb_sha L) r (Some bound) = Inr () \<and> to_wire r = Inr a)"
proof -
  let ?r = "bundle_response bound ek b"
  have acc: "check_response (lb_sha L) ?r (Some bound) = Inr ()" "to_wire ?r = Inr a"
    using assms by (auto simp: respond_def Let_def bind_res_Inr_iff map_sum_Inr_iff split: if_splits)
  then obtain a1 a2 a3 a4 a5 a6 a7 a8 a9 ts where "a = JObj (wire_body ?r a1 a2 a3 a4 a5 a6 a7 a8 a9 ts)"
    by (auto simp: to_wire_def bind_res_Inr_iff)
  then have "get_obj a ''predictive_eligible'' = r_predictive_eligible ?r" by (simp only: wire_body_get)
  then show ?thesis using acc by (auto simp: bundle_response_def Let_def RELEASE_GATES_PASSED_def)
qed

text \<open>C10: a request either raises or answers with a response that passed every check of the contract against the request it
  answers, and no answer makes its forecast eligible: the release gates have not passed.\<close>

theorem answers_are_accepted_and_shadow:
  "case fst (predict L cfg rd rv body sv) of
     Inl _ \<Rightarrow> True
   | Inr a \<Rightarrow> get_obj a ''predictive_eligible'' = JBool False \<and>
       (\<exists>bound c r. bind_request (lb_sha L) rd body (rv_request_ms rv) (sv_cluster sv) = (Inr bound, c) \<and>
          check_response (lb_sha L) r (Some bound) = Inr () \<and> to_wire r = Inr a)"
proof (cases "predict L cfg rd rv body sv")
  case (Pair q sv')
  show ?thesis
  proof (cases q)
    case (Inr a)
    then obtain bound c where b: "bind_request (lb_sha L) rd body (rv_request_ms rv) (sv_cluster sv) = (Inr bound, c)"
      and serve: "serve L cfg rv bound (sv\<lparr> sv_cluster := c \<rparr>) = (Inr a, sv')"
      using Pair by (auto simp: predict_def split: prod.splits sum.splits)
    have catch: "catch_store r = (Inr a, x) \<longleftrightarrow> r = (Inr a, x)" for r :: "('s, json) outcome_of" and x
      by (cases r rule: catch_store.cases) auto
    obtain lead grid svi where i: "issue L cfg rv bound lead grid (rv_issue_ms rv) svi = (Inr a, sv')"
      using serve by (auto simp: serve_def Let_def st_bind_Inr_iff catch split: prod.splits sum.splits option.splits if_splits)
    obtain ek and j :: issuance where "respond L bound ek (is_payload j) = Inr a"
    proof (rule issue_stages [OF i])
      fix fe j st' sv3
      assume "finish_issue L cfg rv bound fe grid (rv_issue_ms rv div 1000) j st' sv3 = (Inr a, sv')"
      from that [OF finish_respond [OF this]] show thesis .
    qed
    from respond_accepted [OF this] b Pair Inr show ?thesis by auto
  qed (simp add: Pair)
qed

lemma bind_res_Inl_iff: "bind_res r f = Inl e \<longleftrightarrow> r = Inl e \<or> (\<exists>x. r = Inr x \<and> f x = Inl e)"
  by (cases r) auto

lemma map_sum_Inl_iff: "map_sum f g r = Inl e \<longleftrightarrow> (\<exists>x. r = Inl x \<and> f x = e)"
  by (cases r) auto

lemma journal_exceptions_caught:
  fixes sv :: "'s service"
  shows "fst (predict L cfg rd rv body sv) \<noteq> Inl (ExStore e)"
proof -
  have "bind_exn b \<noteq> ExStore e" for b by (cases b rule: bind_exn.cases) auto
  moreover have catch: "fst (catch_store r) \<noteq> Inl (ExStore e)" for r :: "('s, json) outcome_of" by (cases r rule: catch_store.cases) auto
  moreover have "history_exn h \<noteq> ExStore e" for h by (cases h) auto
  then have read: "read_history L rv bound \<noteq> Inl (ExStore e)" for bound
    by (auto simp: read_history_def Let_def bind_res_Inl_iff map_sum_Inl_iff split: if_splits)
  have "fst (st_bind (pure_step (read_history L rv bound) sw) (\<lambda>g s. catch_store (f g s))) \<noteq> Inl (ExStore e)"
    for bound and sw :: "'s service" and f :: "rps_grid \<Rightarrow> 's service \<Rightarrow> ('s, json) outcome_of"
    using read [of bound] by (cases "read_history L rv bound") (simp_all add: catch)
  ultimately show "fst (predict L cfg rd rv body sv) \<noteq> Inl (ExStore e)"
    by (auto simp: predict_def serve_def Let_def split: prod.splits sum.splits option.splits)
qed

lemma unhealthy_refused:
  assumes "\<not> store_healthy sv"
  shows "(\<exists>e. fst (predict L cfg rd rv body sv) = Inl e) \<and> sv_store (snd (predict L cfg rd rv body sv)) = sv_store sv"
proof -
  have "\<not> store_healthy (sv\<lparr> sv_cluster := c, sv_metrics := m \<rparr>)" for c m using assms by (simp add: store_healthy_def)
  then show ?thesis by (auto simp: predict_def serve_def Let_def split: prod.splits sum.splits)
qed



end
