(* ===== verification/Auth.thy ===== *)
theory Auth
  imports Identity
begin

text \<open>
  \<^verbatim>\<open>api/auth.py\<close>: caller authentication of the forecasting service. The Kubernetes TokenReview API, the service account's
  files and the JSON decoder are the environment of a review (\<open>review_env\<close>), the clocks are its readings, and the
  decoder of a token's payload (base64 and JSON text) is an argument. \<open>_cached\<close> and \<open>_remember\<close> are the two regions under
  the reviewer's lock: other reviews may come between them, so the cache is studied as a step relation over them, with
  the successful reviews so far as its history. The middleware is a function from a request, the polls of the review
  slots and the messages of its body to what it does with them.
\<close>

section \<open>Errors and configuration\<close>

datatype auth_error =
    AuthMisconfigured | Unauthenticated | Forbidden | AuthUnavailable
  | AuthRaised                          \<comment> \<open>an exception the middleware does not handle\<close>

definition DEFAULT_AUDIENCE :: string where "DEFAULT_AUDIENCE = ''predictive-autoscaler-forecaster''"
definition MAX_BEARER :: nat where "MAX_BEARER = 8192"
definition MAX_BODY :: nat where "MAX_BODY = 1048576"
definition CACHE_TTL_S :: pyfloat where "CACHE_TTL_S = Fin 60"

record auth_config =
  ac_mode :: string
  ac_audience :: string
  ac_subjects :: "string list"
  ac_metrics_subjects :: "string list"
  ac_allow_plaintext :: bool
  ac_open_paths :: "string list"

definition default_auth :: auth_config where
  "default_auth = \<lparr> ac_mode = ''off'', ac_audience = DEFAULT_AUDIENCE, ac_subjects = [], ac_metrics_subjects = [],
     ac_allow_plaintext = False, ac_open_paths = [''/health'', ''/ready'', ''/metrics''] \<rparr>"

definition auth_enabled :: "auth_config \<Rightarrow> bool" where
  "auth_enabled c \<longleftrightarrow> ac_mode c = ''tokenreview''"

text \<open>\<open>str.strip\<close>, \<open>lower\<close> and \<open>split(",")\<close>.\<close>

definition py_space :: "char \<Rightarrow> bool" where
  "py_space c \<longleftrightarrow> (let n = of_char c :: nat in 9 \<le> n \<and> n \<le> 13 \<or> 28 \<le> n \<and> n \<le> 32 \<or> n = 133 \<or> n = 160)"

definition strip :: "string \<Rightarrow> string" where
  "strip s = rev (dropWhile py_space (rev (dropWhile py_space s)))"

definition lower :: "string \<Rightarrow> string" where
  "lower s = map (\<lambda>c. let n = of_char c :: nat in if 65 \<le> n \<and> n \<le> 90 then char_of (n + 32) else c) s"

fun split_on :: "char \<Rightarrow> string \<Rightarrow> string list" where
  "split_on d [] = [[]]"
| "split_on d (c # cs) =
     (if c = d then [] # split_on d cs else case split_on d cs of [] \<Rightarrow> [[c]] | l # ls \<Rightarrow> (c # l) # ls)"

text \<open>\<open>SUBJECT\<close>: neither part of a subject contains a colon.\<close>

definition SUBJECT_PREFIX :: string where "SUBJECT_PREFIX = ''system:serviceaccount:''"

definition account_name :: "string \<Rightarrow> bool" where
  "account_name s \<longleftrightarrow> s \<noteq> [] \<and> alnum (hd s) \<and> alnum (last s) \<and> list_all (\<lambda>c. alnum c \<or> c = CHR ''-'' \<or> c = CHR ''.'') s"

definition subject_match :: "string \<Rightarrow> bool" where
  "subject_match s \<longleftrightarrow>
     (let n = length SUBJECT_PREFIX; parts = split_on CHR '':'' (drop n (chomp s)) in
      take n (chomp s) = SUBJECT_PREFIX \<and>
      (case parts of [ns, name] \<Rightarrow> dns_label ns \<and> account_name name | _ \<Rightarrow> False))"

definition subjects_of :: "string \<Rightarrow> auth_error + string list" where
  "subjects_of raw =
     (let subjects = remdups (filter (\<lambda>s. s \<noteq> []) (map strip (split_on CHR '','' raw))) in
      if list_ex (\<lambda>s. \<not> subject_match s) subjects then Inl AuthMisconfigured else Inr subjects)"

type_synonym environ = "(string \<times> string) list"

definition env_get :: "environ \<Rightarrow> string \<Rightarrow> string \<Rightarrow> string" where
  "env_get en k d = (case dict_get en k of None \<Rightarrow> d | Some v \<Rightarrow> v)"

definition env_true :: "environ \<Rightarrow> string \<Rightarrow> bool" where
  "env_true en k \<longleftrightarrow> lower (strip (env_get en k ''false'')) = ''true''"

definition or_default :: "string \<Rightarrow> string \<Rightarrow> string" where
  "or_default s d = (if s = [] then d else s)"

definition tls_files :: "(string \<Rightarrow> bool) \<Rightarrow> environ \<Rightarrow> bool" where
  "tls_files isfile en \<longleftrightarrow>
     (let cert = env_get en ''FORECASTER_TLS_CERT'' []; key = env_get en ''FORECASTER_TLS_KEY'' [] in
      cert \<noteq> [] \<and> key \<noteq> [] \<and> isfile cert \<and> isfile key)"

definition config_from_env :: "(string \<Rightarrow> bool) \<Rightarrow> environ \<Rightarrow> auth_error + auth_config" where
  "config_from_env isfile en =
     (let mode = or_default (strip (env_get en ''FORECASTER_AUTH'' ''off'')) ''off'' in
      if mode = ''off'' then Inr default_auth
      else if mode \<noteq> ''tokenreview'' then Inl AuthMisconfigured
      else bind_res (subjects_of (env_get en ''FORECASTER_AUTH_SUBJECTS'' [])) (\<lambda>subjects.
        if subjects = [] then Inl AuthMisconfigured
        else let metrics = env_true en ''FORECASTER_AUTH_METRICS'' in
        bind_res (subjects_of (env_get en ''FORECASTER_AUTH_METRICS_SUBJECTS'' [])) (\<lambda>scrapers.
          if metrics \<and> scrapers = [] then Inl AuthMisconfigured
          else let plaintext = env_true en ''FORECASTER_AUTH_ALLOW_PLAINTEXT'' in
          if \<not> plaintext \<and> \<not> tls_files isfile en then Inl AuthMisconfigured
          else Inr \<lparr> ac_mode = mode,
                     ac_audience = or_default (strip (env_get en ''FORECASTER_AUTH_AUDIENCE'' DEFAULT_AUDIENCE)) DEFAULT_AUDIENCE,
                     ac_subjects = subjects, ac_metrics_subjects = (if metrics then scrapers else []),
                     ac_allow_plaintext = plaintext,
                     ac_open_paths = [''/health'', ''/ready''] @ (if metrics then [] else [''/metrics'']) \<rparr>)))"

section \<open>Reviewing a token\<close>

text \<open>\<open>re_own_token\<close> is the content of the service account's token file, \<open>re_context\<close> whether its CA can be used. The body
  of the POST is given as the JSON value it serializes.\<close>

record review_env =
  re_host :: string
  re_own_token :: "string option"
  re_context :: bool
  re_post :: "string \<Rightarrow> string \<Rightarrow> json \<Rightarrow> fetch_result"
  re_loads :: "string \<Rightarrow> json option"

definition REVIEW_PATH :: string where "REVIEW_PATH = ''/apis/authentication.k8s.io/v1/tokenreviews''"

definition review_body :: "string \<Rightarrow> string \<Rightarrow> json" where
  "review_body token audience =
     JObj [(''apiVersion'', JStr ''authentication.k8s.io/v1''), (''kind'', JStr ''TokenReview''),
           (''spec'', JObj [(''token'', JStr token), (''audiences'', JList [JStr audience])])]"

definition get_or :: "obj \<Rightarrow> string \<Rightarrow> json \<Rightarrow> json" where
  "get_or kvs k d = (case dict_get kvs k of None \<Rightarrow> d | Some v \<Rightarrow> v)"

fun is_str :: "json \<Rightarrow> bool" where "is_str (JStr _) = True" | "is_str _ = False"

text \<open>What the status of a review says.\<close>

definition judge_status :: "string \<Rightarrow> obj \<Rightarrow> auth_error + string" where
  "judge_status audience st =
     (case (get_or st ''error'' (JStr []), get_or st ''authenticated'' (JBool False), get_or st ''audiences'' (JList [])) of
        (JStr e, JBool authenticated, JList audiences) \<Rightarrow>
          if e \<noteq> [] \<or> \<not> list_all is_str audiences then Inl AuthUnavailable
          else if \<not> authenticated \<or> JStr audience \<notin> set audiences then Inl Unauthenticated
          else (case get_obj (get_obj (JObj st) ''user'') ''username'' of
                  JStr u \<Rightarrow> if u = [] then Inl AuthUnavailable else Inr u
                | _ \<Rightarrow> Inl AuthUnavailable)
      | _ \<Rightarrow> Inl AuthUnavailable)"

definition review_answer :: "review_env \<Rightarrow> string \<Rightarrow> fetch_result \<Rightarrow> auth_error + string" where
  "review_answer en audience answer =
     (case answer of
        FetchAnswer status raw \<Rightarrow>
          if status \<notin> {200, 201} then Inl AuthUnavailable
          else (case re_loads en raw of
                  Some (JObj review) \<Rightarrow>
                    (case get_obj (JObj review) ''status'' of JObj st \<Rightarrow> judge_status audience st | _ \<Rightarrow> Inl AuthUnavailable)
                | _ \<Rightarrow> Inl AuthUnavailable)
      | _ \<Rightarrow> Inl AuthUnavailable)"

definition review_remote :: "auth_config \<Rightarrow> review_env \<Rightarrow> string \<Rightarrow> auth_error + string" where
  "review_remote cfg en token =
     (if re_host en = [] then Inl AuthUnavailable
      else case re_own_token en of
        None \<Rightarrow> Inl AuthUnavailable
      | Some own \<Rightarrow>
          if \<not> re_context en then Inl AuthUnavailable
          else review_answer en (ac_audience cfg)
                 (re_post en (re_host en @ REVIEW_PATH) (strip own) (review_body token (ac_audience cfg))))"

section \<open>The cache\<close>

text \<open>\<open>_jwt_exp\<close>: \<open>dec\<close> decodes the payload, the second part of the token. \<open>math.isfinite\<close> of an integer that does not fit a
  float raises \<open>OverflowError\<close>, outside the handler.\<close>

definition jwt_exp :: "(string \<Rightarrow> json option) \<Rightarrow> string \<Rightarrow> auth_error + pyfloat option" where
  "jwt_exp dec token =
     (case split_on CHR ''.'' token of
        _ # payload # _ \<Rightarrow>
          (case dec payload of
             None \<Rightarrow> Inr None
           | Some claims \<Rightarrow>
               (case get_obj claims ''exp'' of
                  JInt n \<Rightarrow> if is_finite (float_of_int n) then Inr (Some (float_of_int n)) else Inl AuthRaised
                | JFloat x \<Rightarrow> Inr (if is_finite x then Some x else None)
                | _ \<Rightarrow> Inr None))
      | _ \<Rightarrow> Inr None)"

type_synonym cache = "(string \<times> string \<times> pyfloat) list"

definition to_end :: "string \<Rightarrow> string \<times> pyfloat \<Rightarrow> cache \<Rightarrow> cache" where
  "to_end key v c = dict_pop key c @ [(key, v)]"

definition cached :: "string \<Rightarrow> pyfloat \<Rightarrow> cache \<Rightarrow> string option \<times> cache" where
  "cached key now c =
     (case dict_get c key of
        None \<Rightarrow> (None, c)
      | Some (username, expires) \<Rightarrow>
          if expires \<le> now then (None, dict_pop key c) else (Some username, to_end key (username, expires) c))"

fun evict :: "nat \<Rightarrow> cache \<Rightarrow> cache" where
  "evict n [] = []"
| "evict n (x # xs) = (if n < length (x # xs) then evict n xs else x # xs)"

definition py_min :: "pyfloat \<Rightarrow> pyfloat \<Rightarrow> pyfloat" where
  "py_min a b = (if b < a then b else a)"

definition remember ::
  "(string \<Rightarrow> json option) \<Rightarrow> nat \<Rightarrow> string \<Rightarrow> string \<Rightarrow> string \<Rightarrow> pyfloat \<Rightarrow> pyfloat \<Rightarrow> cache \<Rightarrow> auth_error + cache" where
  "remember dec max_entries key username token wall now c =
     bind_res (jwt_exp dec token) (\<lambda>exp.
       case exp of
         None \<Rightarrow> Inr c
       | Some x \<Rightarrow>
           let ttl = py_min CACHE_TTL_S (x - wall) in
           if ttl \<le> 0 then Inr c else Inr (evict max_entries (to_end key (username, now + ttl) c)))"

record review_times =
  rt_lookup :: pyfloat
  rt_wall :: pyfloat
  rt_store :: pyfloat

record reviewer =
  rw_config :: auth_config
  rw_sha :: "string \<Rightarrow> string"
  rw_payload :: "string \<Rightarrow> json option"
  rw_max_entries :: nat

definition review ::
  "reviewer \<Rightarrow> review_env \<Rightarrow> review_times \<Rightarrow> string \<Rightarrow> string list \<Rightarrow> cache \<Rightarrow> (auth_error + string) \<times> cache" where
  "review rw en tm token allowed c =
     (let key = rw_sha rw token in
      case cached key (rt_lookup tm) c of
        (Some username, c) \<Rightarrow> (if username \<in> set allowed then Inr username else Inl Forbidden, c)
      | (None, c) \<Rightarrow>
          (case review_remote (rw_config rw) en token of
             Inl e \<Rightarrow> (Inl e, c)
           | Inr username \<Rightarrow>
               if username \<notin> set allowed then (Inl Forbidden, c)
               else (case remember (rw_payload rw) (rw_max_entries rw) key username token (rt_wall tm) (rt_store tm) c of
                       Inl e \<Rightarrow> (Inl e, c)
                     | Inr c \<Rightarrow> (Inr username, c))))"

section \<open>The middleware\<close>

record http_scope =
  hs_type :: string
  hs_path :: string
  hs_scheme :: string
  hs_headers :: "(string \<times> string) list"

datatype message = Disconnect | Body string bool

datatype auth_outcome =
    SocketClosed
  | PassedOn                            \<comment> \<open>the application, with the request as it came\<close>
  | Answered int string
  | Gone                                \<comment> \<open>the client disconnected\<close>
  | Forwarded string string             \<comment> \<open>the application, with the subject and the whole body\<close>
  | Raised
  | Pending                             \<comment> \<open>still waiting for a slot or a message\<close>

text \<open>\<open>_Admission.run\<close> polls for a slot; each poll sees whether one is free and, when none is, the time.\<close>

fun wait_slot :: "pyfloat \<Rightarrow> (bool \<times> pyfloat) list \<Rightarrow> bool option" where
  "wait_slot deadline [] = None"
| "wait_slot deadline ((free, now) # polls) =
     (if free then Some True else if deadline \<le> now then Some False else wait_slot deadline polls)"

fun read_body :: "nat \<Rightarrow> string \<Rightarrow> string \<Rightarrow> message list \<Rightarrow> auth_outcome \<times> message list" where
  "read_body max_body subject got [] = (Pending, [])"
| "read_body max_body subject got (Disconnect # ms) = (Gone, ms)"
| "read_body max_body subject got (Body chunk cont # ms) =
     (if max_body < length (got @ chunk) then (Answered 413 ''BodyTooLarge'', ms)
      else if cont then read_body max_body subject (got @ chunk) ms
      else (Forwarded subject (got @ chunk), ms))"

definition BEARER :: string where "BEARER = ''Bearer ''"

definition bearer_token :: "http_scope \<Rightarrow> string option" where
  "bearer_token sc =
     (case filter (\<lambda>(k, _). lower k = ''authorization'') (hs_headers sc) of
        [(_, v)] \<Rightarrow>
          if MAX_BEARER < length v \<or> take (length BEARER) v \<noteq> BEARER \<or> length v \<le> length BEARER \<or>
             list_ex (\<lambda>c. 128 \<le> (of_char c :: nat)) (drop (length BEARER) v)
          then None else Some (drop (length BEARER) v)
      | _ \<Rightarrow> None)"

definition allowed_for :: "auth_config \<Rightarrow> http_scope \<Rightarrow> string list" where
  "allowed_for cfg sc = (if hs_path sc = ''/metrics'' then ac_metrics_subjects cfg else ac_subjects cfg)"

fun refusal :: "auth_error \<Rightarrow> auth_outcome" where
  "refusal Unauthenticated = Answered 401 ''Unauthenticated''"
| "refusal Forbidden = Answered 403 ''Forbidden''"
| "refusal AuthUnavailable = Answered 503 ''AuthUnavailable''"
| "refusal _ = Raised"

text \<open>\<open>judge\<close> is the review the middleware is given, on a state of its own.\<close>

type_synonym 's judgement = "string \<Rightarrow> string list \<Rightarrow> 's \<Rightarrow> (auth_error + string) \<times> 's"

definition auth_call ::
  "auth_config \<Rightarrow> 's judgement \<Rightarrow> nat \<Rightarrow> pyfloat \<Rightarrow> (bool \<times> pyfloat) list \<Rightarrow> http_scope \<Rightarrow> message list \<Rightarrow> 's \<Rightarrow>
     auth_outcome \<times> message list \<times> 's" where
  "auth_call cfg judge max_body deadline polls sc ms s =
     (if hs_type sc = ''websocket'' then (SocketClosed, ms, s)
      else if hs_type sc \<noteq> ''http'' \<or> hs_path sc \<in> set (ac_open_paths cfg) then (PassedOn, ms, s)
      else if hs_scheme sc \<noteq> ''https'' \<and> \<not> ac_allow_plaintext cfg then (Answered 500 ''TLSRequired'', ms, s)
      else case bearer_token sc of
        None \<Rightarrow> (Answered 401 ''Unauthenticated'', ms, s)
      | Some token \<Rightarrow>
          (case wait_slot deadline polls of
             None \<Rightarrow> (Pending, ms, s)
           | Some False \<Rightarrow> (refusal AuthUnavailable, ms, s)
           | Some True \<Rightarrow>
               (case judge token (allowed_for cfg sc) s of
                  (Inl e, s) \<Rightarrow> (refusal e, ms, s)
                | (Inr subject, s) \<Rightarrow> (case read_body max_body subject [] ms of (out, rest) \<Rightarrow> (out, rest, s)))))"

section \<open>What a review rests on\<close>

text \<open>A subject comes only from an answer that authenticates the token for the configured audience.\<close>

definition vouched :: "auth_config \<Rightarrow> review_env \<Rightarrow> string \<Rightarrow> string \<Rightarrow> bool" where
  "vouched cfg en token user \<longleftrightarrow>
     (\<exists>own status raw rv st auds.
        re_own_token en = Some own \<and>
        re_post en (re_host en @ REVIEW_PATH) (strip own) (review_body token (ac_audience cfg)) = FetchAnswer status raw \<and>
        status \<in> {200, 201} \<and> re_loads en raw = Some (JObj rv) \<and> dict_get rv ''status'' = Some (JObj st) \<and>
        dict_get st ''authenticated'' = Some (JBool True) \<and> dict_get st ''audiences'' = Some (JList auds) \<and>
        JStr (ac_audience cfg) \<in> set auds \<and> get_or st ''error'' (JStr []) = JStr [] \<and>
        get_obj (get_obj (JObj st) ''user'') ''username'' = JStr user \<and> user \<noteq> [])"

lemma judge_status_Inr:
  assumes "judge_status audience st = Inr user"
  shows "\<exists>auds. dict_get st ''authenticated'' = Some (JBool True) \<and> dict_get st ''audiences'' = Some (JList auds) \<and>
     JStr audience \<in> set auds \<and> get_or st ''error'' (JStr []) = JStr [] \<and>
     get_obj (get_obj (JObj st) ''user'') ''username'' = JStr user \<and> user \<noteq> []"
proof -
  obtain auds where a: "get_or st ''error'' (JStr []) = JStr []" "get_or st ''authenticated'' (JBool False) = JBool True"
    "get_or st ''audiences'' (JList []) = JList auds" "JStr audience \<in> set auds"
    "get_obj (get_obj (JObj st) ''user'') ''username'' = JStr user" "user \<noteq> []"
    using assms unfolding judge_status_def by (auto simp del: get_obj.simps split: prod.splits json.splits if_splits)
  have "dict_get st ''authenticated'' = Some (JBool True)" "dict_get st ''audiences'' = Some (JList auds)"
    using a(2-4) by (auto simp: get_or_def split: option.splits)
  then show ?thesis using a by blast
qed

lemma get_obj_JObj: "get_obj (JObj kvs) k = JObj st \<Longrightarrow> dict_get kvs k = Some (JObj st)"
  by (auto split: option.splits)

lemma review_remote_vouched:
  assumes "review_remote cfg en token = Inr user"
  shows "vouched cfg en token user"
proof -
  obtain own status raw kvs st where "re_own_token en = Some own"
    "re_post en (re_host en @ REVIEW_PATH) (strip own) (review_body token (ac_audience cfg)) = FetchAnswer status raw"
    "status \<in> {200, 201}" "re_loads en raw = Some (JObj kvs)" "get_obj (JObj kvs) ''status'' = JObj st"
    "judge_status (ac_audience cfg) st = Inr user"
    using assms
    by (auto simp: review_remote_def review_answer_def simp del: get_obj.simps
        split: if_splits option.splits fetch_result.splits json.splits)
  then show ?thesis unfolding vouched_def using judge_status_Inr get_obj_JObj by blast
qed

section \<open>The cache under interleaving\<close>

text \<open>The history lists the reviews that were remembered: token, subject, expiry, and both clocks at that moment,
  whose readings are finite.\<close>

record remembered =
  rm_token :: string
  rm_user :: string
  rm_exp :: pyfloat
  rm_wall :: pyfloat
  rm_at :: pyfloat

inductive cache_run :: "reviewer \<Rightarrow> cache \<Rightarrow> remembered list \<Rightarrow> bool" for rw where
  cr_new: "cache_run rw [] []"
| cr_lookup: "cache_run rw c hist \<Longrightarrow> cache_run rw (snd (cached key now c)) hist"
| cr_store: "cache_run rw c hist \<Longrightarrow> is_finite wall \<Longrightarrow> is_finite now \<Longrightarrow> vouched (rw_config rw) en token user \<Longrightarrow> jwt_exp (rw_payload rw) token = Inr (Some x) \<Longrightarrow>
    remember (rw_payload rw) (rw_max_entries rw) (rw_sha rw token) user token wall now c = Inr c' \<Longrightarrow>
    cache_run rw c' (\<lparr> rm_token = token, rm_user = user, rm_exp = x, rm_wall = wall, rm_at = now \<rparr> # hist)"

definition entry_backed :: "reviewer \<Rightarrow> remembered list \<Rightarrow> string \<times> string \<times> pyfloat \<Rightarrow> bool" where
  "entry_backed rw hist e \<longleftrightarrow>
     (\<exists>m \<in> set hist. rw_sha rw (rm_token m) = fst e \<and> rm_user m = fst (snd e) \<and>
        snd (snd e) = rm_at m + py_min CACHE_TTL_S (rm_exp m - rm_wall m))"

definition cache_ok :: "reviewer \<Rightarrow> cache \<Rightarrow> remembered list \<Rightarrow> bool" where
  "cache_ok rw c hist \<longleftrightarrow> dict_wf c \<and> length c \<le> rw_max_entries rw \<and> (\<forall>e \<in> set c. entry_backed rw hist e)"

lemma evict_drop: "evict n c = drop (length c - n) c"
  by (induction c) (auto simp: Suc_diff_le)

lemma evict_props: "length (evict n c) \<le> n" "set (evict n c) \<subseteq> set c" "dict_wf c \<Longrightarrow> dict_wf (evict n c)"
  by (auto simp: evict_drop dest: in_set_dropD simp flip: drop_map)

lemma to_end_set: "set (to_end k v c) \<subseteq> insert (k, v) (set c)"
  by (auto simp: to_end_def AList.delete_eq)

lemma to_end_wf: "dict_wf c \<Longrightarrow> dict_wf (to_end k v c)"
  by (auto simp: to_end_def AList.delete_eq distinct_map_filter)

lemma dict_pop_set: "set (dict_pop k c) \<subseteq> set c"
  by (auto simp: AList.delete_eq)

lemma dict_pop_shorter: "dict_get c k \<noteq> None \<Longrightarrow> length (dict_pop k c) < length c"
  by (auto simp: AList.delete_eq map_of_eq_None_iff intro!: length_filter_less)

lemma cached_props:
  shows "set (snd (cached k now c)) \<subseteq> set c" "dict_wf c \<Longrightarrow> dict_wf (snd (cached k now c))" "length (snd (cached k now c)) \<le> length c"
proof -
  have set: "set (to_end k v c) \<subseteq> set c" if "dict_get c k = Some v" for v
    using to_end_set [of k v c] map_of_SomeD [OF that] by auto
  show "set (snd (cached k now c)) \<subseteq> set c"
    using set dict_pop_set [of k c] by (auto simp: cached_def split: option.splits)
  show "dict_wf c \<Longrightarrow> dict_wf (snd (cached k now c))"
    by (auto simp: cached_def to_end_wf dict_wf_pop split: option.splits)
  show "length (snd (cached k now c)) \<le> length c"
    using dict_pop_shorter [of c k] by (auto simp: cached_def to_end_def split: option.splits)
qed

lemma remember_cases:
  assumes "remember dec n key user token wall now c = Inr c'"
  shows "c' = c \<or> (\<exists>x. jwt_exp dec token = Inr (Some x) \<and> c' = evict n (to_end key (user, now + py_min CACHE_TTL_S (x - wall)) c))"
  using assms by (auto simp: remember_def bind_res_Inr_iff Let_def split: option.splits if_splits)

lemma entry_backed_mono: "entry_backed rw hist e \<Longrightarrow> entry_backed rw (m # hist) e"
  by (auto simp: entry_backed_def)

lemma cache_run_ok: "cache_run rw c hist \<Longrightarrow> cache_ok rw c hist"
proof (induction rule: cache_run.induct)
  case (cr_lookup c hist key now)
  then show ?case using cached_props [where k = key and now = now and c = c] unfolding cache_ok_def by (meson le_trans subset_iff)
next
  case (cr_store c hist wall now en token user x c')
  let ?e = "(rw_sha rw token, user, now + py_min CACHE_TTL_S (x - wall))"
  let ?m = "\<lparr> rm_token = token, rm_user = user, rm_exp = x, rm_wall = wall, rm_at = now \<rparr>"
  have new: "entry_backed rw (?m # hist) ?e" by (simp add: entry_backed_def)
  have old: "\<forall>e \<in> set c. entry_backed rw (?m # hist) e" using cr_store.IH entry_backed_mono by (auto simp: cache_ok_def)
  from remember_cases [OF cr_store.hyps(6)] cr_store.hyps(5)
  consider "c' = c" | "c' = evict (rw_max_entries rw) (to_end (rw_sha rw token) (user, now + py_min CACHE_TTL_S (x - wall)) c)" by auto
  then show ?case
  proof cases
    case 1
    then show ?thesis using cr_store.IH old by (simp add: cache_ok_def)
  next
    case 2
    have "set c' \<subseteq> insert ?e (set c)" unfolding 2 using evict_props(2) to_end_set by fastforce
    moreover have "dict_wf c'" unfolding 2 using cr_store.IH by (intro evict_props to_end_wf) (simp add: cache_ok_def)
    ultimately show ?thesis using old new evict_props(1) unfolding cache_ok_def 2 by blast
  qed
qed (simp add: cache_ok_def)

lemma round64_bounds: "round64 x \<le> PInf" "NInf \<le> round64 x"
  using round64_not_NaN [of x] by (cases "round64 x"; simp)+

lemma float_add_mono: "is_finite m \<Longrightarrow> a \<le> b \<Longrightarrow> m + a \<le> m + (b :: pyfloat)"
  by (cases m; cases a; cases b) (auto intro: round64_mono round64_bounds)

lemma py_min_le: "a \<noteq> NaN \<Longrightarrow> b \<noteq> NaN \<Longrightarrow> py_min a b \<le> a \<and> py_min a b \<le> b"
  by (cases a; cases b) (auto simp: py_min_def)

lemma float_less_le_trans: "(a :: pyfloat) < b \<Longrightarrow> b \<le> c \<Longrightarrow> a < c"
  by (cases a; cases b; cases c) auto

lemma float_add_not_NaN: "is_finite m \<Longrightarrow> a \<noteq> NaN \<Longrightarrow> m + a \<noteq> NaN"
  by (cases m; cases a) auto

lemma float_diff_not_NaN: "is_finite a \<Longrightarrow> is_finite b \<Longrightarrow> a - b \<noteq> NaN"
  by (cases a; cases b) (auto simp: minus_pyfloat_def)

lemma jwt_exp_finite: "jwt_exp dec token = Inr (Some x) \<Longrightarrow> is_finite x"
  by (auto simp: jwt_exp_def simp del: get_obj.simps split: list.splits option.splits json.splits if_splits)

lemma cache_run_hist:
  "cache_run rw c hist \<Longrightarrow> m \<in> set hist \<Longrightarrow>
   is_finite (rm_exp m) \<and> is_finite (rm_at m) \<and> is_finite (rm_wall m) \<and> (\<exists>en :: review_env. vouched (rw_config rw) en (rm_token m) (rm_user m))"
  by (induction rule: cache_run.induct) (auto dest: jwt_exp_finite)

text \<open>An entry that is served is younger than a minute and its token has not expired.\<close>

lemma served_entry:
  assumes "cache_run rw c hist" and "cached k now c = (Some user, c')" and "is_finite now"
  shows "\<exists>m \<in> set hist. rw_sha rw (rm_token m) = k \<and> rm_user m = user \<and> (\<exists>en :: review_env. vouched (rw_config rw) en (rm_token m) user) \<and>
     now < rm_at m + CACHE_TTL_S \<and> now < rm_at m + (rm_exp m - rm_wall m)"
proof -
  obtain e where e: "dict_get c k = Some (user, e)" "\<not> e \<le> now"
    using assms(2) by (auto simp: cached_def split: option.splits if_splits)
  have "entry_backed rw hist (k, user, e)"
    using cache_run_ok [OF assms(1)] map_of_SomeD [OF e(1)] by (auto simp: cache_ok_def)
  then obtain m where m: "m \<in> set hist" "rw_sha rw (rm_token m) = k" "rm_user m = user"
      "e = rm_at m + py_min CACHE_TTL_S (rm_exp m - rm_wall m)" by (auto simp: entry_backed_def)
  note h = cache_run_hist [OF assms(1) m(1)]
  have left: "rm_exp m - rm_wall m \<noteq> NaN" using h float_diff_not_NaN by blast
  have ttl: "py_min CACHE_TTL_S (rm_exp m - rm_wall m) \<le> CACHE_TTL_S \<and>
      py_min CACHE_TTL_S (rm_exp m - rm_wall m) \<le> rm_exp m - rm_wall m"
    by (rule py_min_le) (use left in \<open>simp_all add: CACHE_TTL_S_def\<close>)
  have "e \<noteq> NaN" unfolding m(4) using h left by (intro float_add_not_NaN) (auto simp: py_min_def CACHE_TTL_S_def)
  then have "now < e" using e(2) assms(3) by (cases now; cases e) auto
  then have "now < rm_at m + CACHE_TTL_S \<and> now < rm_at m + (rm_exp m - rm_wall m)"
    unfolding m(4) using float_add_mono h ttl float_less_le_trans by blast
  then show ?thesis using m h by blast
qed

text \<open>A review is a run of the two regions.\<close>

definition finite_times :: "review_times \<Rightarrow> bool" where
  "finite_times tm \<longleftrightarrow> is_finite (rt_lookup tm) \<and> is_finite (rt_wall tm) \<and> is_finite (rt_store tm)"

lemma review_runs:
  assumes "cache_run rw c hist" and "finite_times tm"
  shows "\<exists>new. cache_run rw (snd (review rw en tm token allowed c)) (new @ hist)"
proof -
  let ?c1 = "snd (cached (rw_sha rw token) (rt_lookup tm) c)"
  have run: "cache_run rw ?c1 hist" using assms(1) by (rule cr_lookup)
  have "\<exists>new. cache_run rw c' (new @ hist)"
    if "review_remote (rw_config rw) en token = Inr user"
      "remember (rw_payload rw) (rw_max_entries rw) (rw_sha rw token) user token (rt_wall tm) (rt_store tm) ?c1 = Inr c'" for user c'
  proof (cases "\<exists>x. jwt_exp (rw_payload rw) token = Inr (Some x)")
    case True
    then obtain x where x: "jwt_exp (rw_payload rw) token = Inr (Some x)" by blast
    from cr_store [OF run _ _ review_remote_vouched [OF that(1)] x that(2)] assms(2) show ?thesis
      by (intro exI [of _ "[_]"]) (simp add: finite_times_def)
  next
    case False
    then have "c' = ?c1" using remember_cases [OF that(2)] by blast
    then show ?thesis using run by (intro exI [of _ "[]"]) simp
  qed
  moreover have "\<exists>new. cache_run rw ?c1 (new @ hist)" using run by (intro exI [of _ "[]"]) simp
  ultimately show ?thesis
    by (auto simp: review_def Let_def split: prod.splits option.splits sum.splits)
qed

text \<open>What a subject that a review returns rests on.\<close>

definition backed :: "reviewer \<Rightarrow> review_env \<Rightarrow> review_times \<Rightarrow> string \<Rightarrow> string \<Rightarrow> bool" where
  "backed rw en tm token user \<longleftrightarrow>
     vouched (rw_config rw) en token user \<or>
     (\<exists>m :: remembered. rw_sha rw (rm_token m) = rw_sha rw token \<and> (\<exists>en :: review_env. vouched (rw_config rw) en (rm_token m) user) \<and>
        rt_lookup tm < rm_at m + CACHE_TTL_S \<and> rt_lookup tm < rm_at m + (rm_exp m - rm_wall m))"

lemma review_Inr:
  assumes "cache_run rw c hist" and "finite_times tm" and "review rw en tm token allowed c = (Inr user, c')"
  shows "user \<in> set allowed \<and> backed rw en tm token user"
proof -
  obtain hit c1 where hit: "cached (rw_sha rw token) (rt_lookup tm) c = (hit, c1)" by fastforce
  show ?thesis
  proof (cases hit)
    case (Some u)
    then have "u = user" "user \<in> set allowed" using assms(3) hit by (auto simp: review_def split: if_splits)
    moreover have "is_finite (rt_lookup tm)" using assms(2) by (simp add: finite_times_def)
    ultimately show ?thesis using served_entry [OF assms(1)] hit Some unfolding backed_def by blast
  next
    case None
    then have "review_remote (rw_config rw) en token = Inr user" "user \<in> set allowed"
      using assms(3) hit by (auto simp: review_def Let_def split: sum.splits if_splits)
    then show ?thesis using review_remote_vouched unfolding backed_def by blast
  qed
qed

section \<open>The middleware and its judge\<close>

lemma read_body_Forwarded:
  "read_body n u got ms = (Forwarded u' b, rest) \<Longrightarrow>
     u' = u \<and> length b \<le> n \<and> (\<exists>chunks final. ms = map (\<lambda>c. Body c True) chunks @ Body final False # rest \<and> b = got @ concat chunks @ final)"
proof (induction n u got ms rule: read_body.induct)
  case (3 n u got chunk cont ms)
  show ?case
  proof (cases cont)
    case True
    then obtain chunks final where "u' = u" "length b \<le> n" "ms = map (\<lambda>c. Body c True) chunks @ Body final False # rest"
        "b = (got @ chunk) @ concat chunks @ final"
      using 3 by (auto split: if_splits)
    then show ?thesis using True by (intro conjI exI [of _ "chunk # chunks"] exI [of _ final]) auto
  next
    case False
    then show ?thesis using 3(2) by (intro conjI exI [of _ "[]"] exI [of _ chunk]) (auto split: if_splits)
  qed
qed auto

lemma read_body_not_passed: "fst (read_body n u got ms) \<noteq> PassedOn"
  by (induction n u got ms rule: read_body.induct) auto

locale token_judge =
  fixes judge :: "'s judgement" and holds :: "'s \<Rightarrow> bool" and trusts :: "string \<Rightarrow> string \<Rightarrow> bool"
  assumes judge_sound: "holds s \<Longrightarrow> judge token allowed s = (Inr user, s') \<Longrightarrow> user \<in> set allowed \<and> trusts token user"
    and judge_holds: "holds s \<Longrightarrow> holds (snd (judge token allowed s))"
begin

lemma call_holds: "holds s \<Longrightarrow> holds (snd (snd (auth_call cfg judge n deadline polls sc ms s)))"
  using judge_holds [of s]
  by (auto simp: auth_call_def split: option.splits bool.splits prod.splits sum.splits) (metis snd_conv)+

lemma call_forwards:
  assumes "holds s" and "auth_call cfg judge n deadline polls sc ms s = (Forwarded user b, rest, s')"
  shows "hs_type sc = ''http'' \<and> (hs_scheme sc = ''https'' \<or> ac_allow_plaintext cfg) \<and> length b \<le> n \<and>
     user \<in> set (allowed_for cfg sc) \<and> (\<exists>token. bearer_token sc = Some token \<and> trusts token user)"
proof -
  have refusal: "refusal e \<noteq> Forwarded user b" for e by (cases e) auto
  obtain token s1 u where "bearer_token sc = Some token" "judge token (allowed_for cfg sc) s = (Inr u, s1)"
    and r: "read_body n u [] ms = (Forwarded user b, rest)" and "hs_type sc = ''http''"
      "hs_scheme sc = ''https'' \<or> ac_allow_plaintext cfg"
    using assms(2) refusal
    by (auto simp: auth_call_def split: if_splits option.splits bool.splits prod.splits sum.splits)
  then show ?thesis using judge_sound [OF assms(1)] read_body_Forwarded [OF r] by blast
qed

end

interpretation rvw: token_judge "review rw en tm" "\<lambda>c. finite_times tm \<and> (\<exists>hist. cache_run rw c hist)" "backed rw en tm"
  for rw en tm
proof
  fix c token allowed user c'
  assume "finite_times tm \<and> (\<exists>hist. cache_run rw c hist)" and "review rw en tm token allowed c = (Inr user, c')"
  then show "user \<in> set allowed \<and> backed rw en tm token user" using review_Inr by blast
next
  fix c token allowed
  assume "finite_times tm \<and> (\<exists>hist. cache_run rw c hist)"
  then show "finite_times tm \<and> (\<exists>hist. cache_run rw (snd (review rw en tm token allowed c)) hist)" using review_runs by blast
qed

section \<open>Properties\<close>

lemma auth_call_rest:
  assumes "auth_call cfg judge n deadline polls sc ms s = (out, rest, s')"
  shows "(out = PassedOn \<longrightarrow> hs_type sc \<noteq> ''http'' \<or> hs_path sc \<in> set (ac_open_paths cfg)) \<and>
     (rest \<noteq> ms \<longrightarrow> (\<exists>token user. bearer_token sc = Some token \<and> fst (judge token (allowed_for cfg sc) s) = Inr user))"
proof -
  have "refusal e \<noteq> PassedOn" for e by (cases e) auto
  then show ?thesis using assms read_body_not_passed
    by (auto simp: auth_call_def split: if_splits option.splits bool.splits prod.splits sum.splits) (metis fst_conv)+
qed


definition demo_subject :: string where "demo_subject = ''system:serviceaccount:ops:operator''"

definition demo_auth :: auth_config where
  "demo_auth = \<lparr> ac_mode = ''tokenreview'', ac_audience = ''forecaster'', ac_subjects = [demo_subject], ac_metrics_subjects = [],
     ac_allow_plaintext = False, ac_open_paths = [''/health'', ''/ready'', ''/metrics''] \<rparr>"

definition demo_reviewer :: reviewer where
  "demo_reviewer = \<lparr> rw_config = demo_auth, rw_sha = id, rw_payload = (\<lambda>_. Some (JObj [(''exp'', JInt 2000)])), rw_max_entries = 1024 \<rparr>"

definition demo_review_env :: review_env where
  "demo_review_env = \<lparr> re_host = ''https://api'', re_own_token = Some ''own'', re_context = True,
     re_post = (\<lambda>_ _ _. FetchAnswer 201 ''review''),
     re_loads = (\<lambda>_. Some (JObj [(''status'', JObj [(''authenticated'', JBool True), (''audiences'', JList [JStr ''forecaster'']),
        (''user'', JObj [(''username'', JStr demo_subject)])])])) \<rparr>"

definition demo_times :: review_times where
  "demo_times = \<lparr> rt_lookup = Fin 5, rt_wall = Fin 1000, rt_store = Fin 6 \<rparr>"

definition demo_scope :: http_scope where
  "demo_scope = \<lparr> hs_type = ''http'', hs_path = ''/predict'', hs_scheme = ''https'', hs_headers = [(''Authorization'', ''Bearer a.b.c'')] \<rparr>"

lemma demo_forwarded:
  assumes "hs_path scope = ''/predict'' \<or> hs_path scope = ''/v2/predict''" and "2 \<le> n"
    and "hs_type scope = ''http''" "hs_scheme scope = ''https''" "hs_headers scope = hs_headers demo_scope"
  shows "\<exists>c. auth_call demo_auth (review demo_reviewer demo_review_env demo_times) n (Fin 2) [(True, Fin 0)] scope [Body ''{}'' False] [] =
      (Forwarded demo_subject ''{}'', [], c)"
proof -
  have "bearer_token demo_scope = Some ''a.b.c''" by code_simp
  then have token: "bearer_token scope = Some ''a.b.c''" using assms(5) by (simp add: bearer_token_def)
  have "review_remote demo_auth demo_review_env ''a.b.c'' = Inr demo_subject" by code_simp
  moreover have "\<exists>c'. remember (rw_payload demo_reviewer) 1024 ''a.b.c'' demo_subject ''a.b.c'' (Fin 1000) (Fin 6) [] = Inr c'"
    by (simp add: remember_def jwt_exp_def demo_reviewer_def finite_small_int Let_def)
  ultimately obtain c' where "review demo_reviewer demo_review_env demo_times ''a.b.c'' [demo_subject] [] = (Inr demo_subject, c')"
    by (auto simp: review_def cached_def demo_reviewer_def demo_times_def)
  then show ?thesis
    using token assms by (auto simp: auth_call_def demo_auth_def allowed_for_def)
qed


lemma accepted_config_guarded:
  assumes "config_from_env isfile en = Inr cfg"
  shows "cfg = default_auth \<or>
     auth_enabled cfg \<and> ac_subjects cfg \<noteq> [] \<and> list_all subject_match (ac_subjects cfg @ ac_metrics_subjects cfg) \<and>
     (ac_allow_plaintext cfg \<or> tls_files isfile en) \<and> ac_audience cfg \<noteq> [] \<and>
     set (ac_open_paths cfg) = {''/health'', ''/ready''} \<union> (if ac_metrics_subjects cfg = [] then {''/metrics''} else {})"
proof -
  have subj: "list_all subject_match xs" if "subjects_of raw = Inr xs" for raw xs
    using that by (auto simp: subjects_of_def Let_def list_ex_iff list_all_iff split: if_splits)
  let ?mode = "or_default (strip (env_get en ''FORECASTER_AUTH'' ''off'')) ''off''"
  let ?metrics = "env_true en ''FORECASTER_AUTH_METRICS''" and ?plain = "env_true en ''FORECASTER_AUTH_ALLOW_PLAINTEXT''"
  show ?thesis
  proof (cases "?mode = ''off''")
    case True
    then show ?thesis using assms by (simp add: config_from_env_def)
  next
    case False
    then obtain raw1 raw2 subjects scrapers where s: "subjects_of raw1 = Inr subjects" "subjects \<noteq> []" "subjects_of raw2 = Inr scrapers"
        "?metrics \<longrightarrow> scrapers \<noteq> []" "?plain \<or> tls_files isfile en" "?mode = ''tokenreview''"
      and cfg: "ac_mode cfg = ?mode" "ac_subjects cfg = subjects" "ac_metrics_subjects cfg = (if ?metrics then scrapers else [])"
        "ac_allow_plaintext cfg = ?plain" "ac_open_paths cfg = [''/health'', ''/ready''] @ (if ?metrics then [] else [''/metrics''])"
        "\<exists>a. ac_audience cfg = or_default a DEFAULT_AUDIENCE"
      using assms unfolding config_from_env_def Let_def
      by (simp only: if_False bind_res_Inr_iff if_Inl_eq_Inr) (elim conjE exE, simp only: sum.inject, fastforce)
    have "ac_audience cfg \<noteq> []" using cfg(6) by (auto simp: or_default_def DEFAULT_AUDIENCE_def split: if_splits)
    then show ?thesis using s cfg subj [OF s(1)] subj [OF s(3)] unfolding auth_enabled_def by (cases ?metrics) (simp_all add: insert_commute)
  qed
qed

text \<open>Authentication is configured safely or not at all: a configuration that is accepted is the open default, or it
  names at least one subject, every subject is a service account, TLS files exist unless plaintext was asked for, the
  health paths are open and \<^verbatim>\<open>/metrics\<close> is open exactly when no scraper is configured.\<close>

theorem accepted_auth_config_is_guarded:
  assumes "config_from_env isfile en = Inr cfg"
  shows "cfg = default_auth \<or>
     auth_enabled cfg \<and> ac_subjects cfg \<noteq> [] \<and> list_all subject_match (ac_subjects cfg @ ac_metrics_subjects cfg) \<and>
     (ac_allow_plaintext cfg \<or> tls_files isfile en) \<and> ac_audience cfg \<noteq> [] \<and>
     set (ac_open_paths cfg) = {''/health'', ''/ready''} \<union> (if ac_metrics_subjects cfg = [] then {''/metrics''} else {})"
  using accepted_config_guarded [OF assms] .

theorem accepted_auth_config_is_guarded_witness:
  "\<exists>cfg. config_from_env (\<lambda>_. True) [(''FORECASTER_AUTH'', ''tokenreview''), (''FORECASTER_AUTH_SUBJECTS'', demo_subject),
      (''FORECASTER_TLS_CERT'', ''c''), (''FORECASTER_TLS_KEY'', ''k'')] = Inr cfg \<and> auth_enabled cfg \<and> ac_subjects cfg \<noteq> []"
proof -
  let ?en = "[(''FORECASTER_AUTH'', ''tokenreview''), (''FORECASTER_AUTH_SUBJECTS'', demo_subject),
      (''FORECASTER_TLS_CERT'', ''c''), (''FORECASTER_TLS_KEY'', ''k'')]"
  have "case config_from_env (\<lambda>_. True) ?en of Inr c \<Rightarrow> ac_mode c = ''tokenreview'' | Inl _ \<Rightarrow> False" by code_simp
  then obtain cfg where cfg: "config_from_env (\<lambda>_. True) ?en = Inr cfg" "ac_mode cfg = ''tokenreview''" by (auto split: sum.splits)
  from accepted_auth_config_is_guarded [OF cfg(1)] cfg show ?thesis by (auto simp: default_auth_def)
qed

end
