(* ===== verification/Statistical_App.thy ===== *)
theory Statistical_App
  imports Auth Service_Guarantees
begin

text \<open>
  \<^verbatim>\<open>api/statistical.py\<close>: the application of the statistical service, on top of the modelled authentication, admission and
  service. The state is the held service (none before start and after shutdown) and the reviewer's cache. FastAPI's
  routing is the choice of a handler by method and path; Prometheus text and process metrics are left out, so
  \<^verbatim>\<open>/metrics\<close> is modelled as far as it touches the service: not at all. The decoder of a request body is an argument, and
  a request reads whether the pool had a slot for it (\<open>Admission\<close>).
\<close>

section \<open>Configuration\<close>

datatype app_error = AppRefused | AppAuth auth_error

definition BENCHMARK_SWITCHES :: "string list" where
  "BENCHMARK_SWITCHES = [''ALLOW_BENCHMARK_EXPERIMENTS'', ''SEASONAL_EXPERIMENT'', ''ENSEMBLE_EXPERIMENT'',
     ''ENSEMBLE_HISTORY_HOURS'', ''VALIDITY_MASK'', ''COLD_START_CRONJOB'']"

definition APP_VERSION :: string where "APP_VERSION = ''0.1.0-preview''"
definition APP_MAX_BODY :: nat where "APP_MAX_BODY = 65536"

definition refuse_benchmark_switches :: "environ \<Rightarrow> app_error + unit" where
  "refuse_benchmark_switches en =
     (if list_ex (\<lambda>k. dict_get en k \<noteq> None) BENCHMARK_SWITCHES then Inl AppRefused else Inr ())"

text \<open>What \<open>create_app\<close> decides before it serves: the switches first, then authentication.\<close>

definition app_config :: "(string \<Rightarrow> bool) \<Rightarrow> environ \<Rightarrow> app_error + auth_config" where
  "app_config isfile en =
     bind_res (refuse_benchmark_switches en) (\<lambda>_. map_sum AppAuth id (config_from_env isfile en))"

section \<open>Handlers\<close>

record 's app_state =
  ap_service :: "'s service option"
  ap_cache :: cache

datatype http_answer =
    HttpAnswer int json
  | HttpText                            \<comment> \<open>the metrics exposition\<close>
  | HttpRaised                          \<comment> \<open>an exception that reaches the server\<close>
  | HttpNone                            \<comment> \<open>no answer yet, or none because the client left\<close>
  | HttpNotFound

definition error_answer :: "int \<Rightarrow> string \<Rightarrow> http_answer" where
  "error_answer status reason = HttpAnswer status (JObj [(''detail'', JObj [(''error'', JStr reason)])])"

definition merge_obj :: "obj \<Rightarrow> obj \<Rightarrow> obj" where
  "merge_obj a b = fold (\<lambda>(k, v). dict_set k v) b a"

definition app_health :: "'s service option \<Rightarrow> http_answer" where
  "app_health holder =
     HttpAnswer 200 (JObj (merge_obj [(''status'', JStr ''healthy''), (''version'', JStr APP_VERSION)]
       (case holder of None \<Rightarrow> [(''state'', JStr ''starting'')] | Some sv \<Rightarrow> health sv)))"

definition app_ready :: "'s service option \<Rightarrow> http_answer" where
  "app_ready holder =
     (case holder of
        None \<Rightarrow> error_answer 503 ''Starting''
      | Some sv \<Rightarrow> if ready sv then HttpAnswer 200 (JObj [(''status'', JStr ''ready'')]) else error_answer 503 ''StateUnavailable'')"

fun service_answer :: "service_exn + json \<Rightarrow> http_answer" where
  "service_answer (Inr a) = HttpAnswer 200 a"
| "service_answer (Inl (ExService status reason)) = error_answer status reason"
| "service_answer (Inl _) = HttpRaised"

definition app_predict ::
  "lib \<Rightarrow> service_config \<Rightarrow> 's reader \<Rightarrow> request_env \<Rightarrow> (string \<Rightarrow> json option) \<Rightarrow> bool \<Rightarrow> string \<Rightarrow> 's service option \<Rightarrow>
     http_answer \<times> 's service option" where
  "app_predict L cfg rd rv loads slot raw holder =
     (if APP_MAX_BODY < length raw then (error_answer 413 ''BodyTooLarge'', holder)
      else case loads raw of
        None \<Rightarrow> (error_answer 422 ''IdentityMismatch'', holder)
      | Some body \<Rightarrow>
          (case holder of
             None \<Rightarrow> (error_answer 503 ''StateUnavailable'', None)
           | Some sv \<Rightarrow>
               if \<not> slot then (error_answer 503 ''StateUnavailable'', holder)
               else (case predict L cfg rd rv body sv of (r, sv) \<Rightarrow> (service_answer r, Some sv))))"

record 's app_env =
  ae_lib :: lib
  ae_config :: service_config
  ae_reader :: "'s reader"
  ae_request :: request_env
  ae_loads :: "string \<Rightarrow> json option"
  ae_admitted :: bool
  ae_reviewer :: reviewer
  ae_review :: review_env
  ae_times :: review_times
  ae_deadline :: pyfloat
  ae_polls :: "(bool \<times> pyfloat) list"

definition route :: "'s app_env \<Rightarrow> string \<Rightarrow> string \<Rightarrow> string \<Rightarrow> 's service option \<Rightarrow> http_answer \<times> 's service option" where
  "route ae verb path raw holder =
     (if (verb, path) = (''GET'', ''/health'') then (app_health holder, holder)
      else if (verb, path) = (''GET'', ''/ready'') then (app_ready holder, holder)
      else if (verb, path) = (''GET'', ''/metrics'') then (HttpText, holder)
      else if (verb, path) = (''POST'', ''/v2/predict'')
      then app_predict (ae_lib ae) (ae_config ae) (ae_reader ae) (ae_request ae) (ae_loads ae) (ae_admitted ae) raw holder
      else (HttpNotFound, holder))"

text \<open>\<open>request.body()\<close>: the chunks up to the last; \<open>None\<close> while it is incomplete or after a disconnect.\<close>

fun whole_body :: "message list \<Rightarrow> string option" where
  "whole_body (Body chunk cont # ms) = (if cont then map_option ((@) chunk) (whole_body ms) else Some chunk)"
| "whole_body _ = None"

definition route_request :: "'s app_env \<Rightarrow> string \<Rightarrow> string \<Rightarrow> message list \<Rightarrow> 's service option \<Rightarrow> http_answer \<times> 's service option" where
  "route_request ae verb path ms holder =
     (if (verb, path) = (''POST'', ''/v2/predict'')
      then (case whole_body ms of None \<Rightarrow> (HttpNone, holder) | Some raw \<Rightarrow> route ae verb path raw holder)
      else route ae verb path [] holder)"

text \<open>The application, behind the middleware when authentication is enabled. Lifespan events and the like have no handler here.\<close>

definition app_handle :: "'s app_env \<Rightarrow> string \<Rightarrow> http_scope \<Rightarrow> message list \<Rightarrow> 's app_state \<Rightarrow> http_answer \<times> 's app_state" where
  "app_handle ae verb scope ms st =
     (let auth = rw_config (ae_reviewer ae) in
      if \<not> auth_enabled auth
      then if hs_type scope \<noteq> ''http'' then (HttpNone, st) else (case route_request ae verb (hs_path scope) ms (ap_service st) of (a, h) \<Rightarrow> (a, st\<lparr> ap_service := h \<rparr>))
      else case auth_call auth (review (ae_reviewer ae) (ae_review ae) (ae_times ae)) MAX_BODY (ae_deadline ae) (ae_polls ae) scope ms (ap_cache st) of
        (out, rest, c) \<Rightarrow>
          (let st = st\<lparr> ap_cache := c \<rparr> in
           case out of
             PassedOn \<Rightarrow> if hs_type scope \<noteq> ''http'' then (HttpNone, st) else (case route_request ae verb (hs_path scope) rest (ap_service st) of (a, h) \<Rightarrow> (a, st\<lparr> ap_service := h \<rparr>))
           | Forwarded subject body \<Rightarrow> (case route ae verb (hs_path scope) body (ap_service st) of (a, h) \<Rightarrow> (a, st\<lparr> ap_service := h \<rparr>))
           | Answered status reason \<Rightarrow> (error_answer status reason, st)
           | Raised \<Rightarrow> (HttpRaised, st)
           | _ \<Rightarrow> (HttpNone, st)))"

text \<open>Start and shutdown of the held service.\<close>

definition app_start :: "'s service \<Rightarrow> 's app_state \<Rightarrow> 's app_state" where
  "app_start sv st = st\<lparr> ap_service := Some sv \<rparr>"

definition app_stop :: "'s app_state \<Rightarrow> 's app_state \<times> 's service option" where
  "app_stop st = (st\<lparr> ap_service := None \<rparr>, map_option close_service (ap_service st))"

section \<open>Properties\<close>

lemma app_predict_keeps:
  "snd (app_predict L cfg rd rv loads slot raw holder) \<noteq> holder \<Longrightarrow> length raw \<le> APP_MAX_BODY \<and> slot \<and> holder \<noteq> None"
  by (auto simp: app_predict_def split: if_splits option.splits prod.splits)

lemma route_keeps:
  assumes "snd (route ae verb path raw holder) \<noteq> holder"
  shows "verb = ''POST'' \<and> path = ''/v2/predict'' \<and> length raw \<le> APP_MAX_BODY"
proof -
  have "(verb, path) = (''POST'', ''/v2/predict'')" using assms by (auto simp: route_def split: if_splits)
  then show ?thesis using assms app_predict_keeps by (fastforce simp: route_def)
qed

lemma route_request_keeps:
  assumes "snd (route_request ae verb path ms holder) \<noteq> holder"
  shows "verb = ''POST'' \<and> path = ''/v2/predict''"
  using assms route_keeps [of ae verb path _ holder] by (auto simp: route_request_def split: if_splits option.splits)

lemma app_handle_service:
  assumes "auth_enabled (rw_config (ae_reviewer ae))" and "auth_call (rw_config (ae_reviewer ae)) (review (ae_reviewer ae) (ae_review ae)
      (ae_times ae)) MAX_BODY (ae_deadline ae) (ae_polls ae) scope ms (ap_cache st) = (out, rest, c)"
  shows "ap_service (snd (app_handle ae verb scope ms st)) =
    (case out of
       Forwarded user b \<Rightarrow> snd (route ae verb (hs_path scope) b (ap_service st))
     | PassedOn \<Rightarrow> if hs_type scope \<noteq> ''http'' then ap_service st else snd (route_request ae verb (hs_path scope) rest (ap_service st))
     | _ \<Rightarrow> ap_service st)"
  using assms by (cases out) (simp_all add: app_handle_def Let_def split: prod.split)


text \<open>A cluster whose API server cannot be reached; it counts the reads.\<close>

definition demo_unreachable :: "nat reader" where
  "demo_unreachable path n = (Inl LookupFailed, Suc n)"

definition demo_environ :: environ where
  "demo_environ = [(''FORECASTER_AUTH'', ''tokenreview''), (''FORECASTER_AUTH_SUBJECTS'', demo_subject),
     (''FORECASTER_AUTH_AUDIENCE'', ''forecaster''), (''FORECASTER_TLS_CERT'', ''c''), (''FORECASTER_TLS_KEY'', ''k'')]"

definition demo_app_env :: "nat app_env" where
  "demo_app_env = \<lparr> ae_lib = demo_lib, ae_config = demo_config, ae_reader = demo_unreachable, ae_request = demo_rv,
     ae_loads = (\<lambda>_. Some (JObj demo_body)), ae_admitted = True, ae_reviewer = demo_reviewer, ae_review = demo_review_env,
     ae_times = demo_times, ae_deadline = Fin 2, ae_polls = [(True, Fin 0)] \<rparr>"

definition demo_app_state :: "nat app_state" where
  "demo_app_state = \<lparr> ap_service = Some demo_first, ap_cache = [] \<rparr>"

definition demo_post :: http_scope where
  "demo_post = demo_scope\<lparr> hs_path := ''/v2/predict'' \<rparr>"

lemma demo_predict_fails: "snd (predict demo_lib demo_config demo_unreachable demo_rv (JObj demo_body) demo_first) \<noteq> demo_first"
proof -
  have "sha_str (JStr (demo_sha ''q''))" by (simp add: sha_str_def demo_sha_ok)
  then have "\<exists>objs. resolve_signal demo_sha (rec_get demo_unreachable) (JObj demo_reference) (0, []) = (Inl LookupFailed, (1, objs))"
    using demo_names
    by (simp add: resolve_signal_def reference_of_def require_def demo_reference_def nonempty_str_def get_default_def
        resolve_autoscaler_def demo_unreachable_def Let_def)
  then have "bind_request demo_sha demo_unreachable (JObj demo_body) t 0 = (Inl (BindIdentity LookupFailed), 1)" for t
    by (auto simp: bind_request_def demo_parses demo_request_def)
  moreover have "sv_cluster demo_first = 0" by (simp add: demo_first_def)
  ultimately have "predict demo_lib demo_config demo_unreachable demo_rv (JObj demo_body) demo_first =
      (Inl (ExService 503 ''IdentityMismatch''), demo_first\<lparr> sv_cluster := 1 \<rparr>)"
    by (simp add: predict_def)
  then show ?thesis by (simp add: demo_first_def)
qed


end
