(* ===== verification/Gapfill.thy ===== *)
theory Gapfill
  imports Py_Float "HOL-Library.Multiset"
begin

text \<open>
  \<^verbatim>\<open>data/gapfill.py\<close>: the validity mask and the bounded interpolation of interior gaps of a request-rate series, for training
  and for the input of an inference. Times are epoch seconds throughout: the ISO text of a mask and of the provenance
  record is left out, and so is the rounding of recorded values to three decimals. A mask is its intervals and its
  history start, already parsed.
\<close>

section \<open>Series\<close>

type_synonym point = "int \<times> pyfloat"

text \<open>\<open>sorted\<close> of a list of pairs.\<close>

definition point_less :: "point \<Rightarrow> point \<Rightarrow> bool" where
  "point_less p q \<longleftrightarrow> fst p < fst q \<or> fst p = fst q \<and> snd p < snd q"

fun put_sorted :: "point \<Rightarrow> point list \<Rightarrow> point list" where
  "put_sorted p [] = [p]"
| "put_sorted p (q # qs) = (if point_less q p then q # put_sorted p qs else p # q # qs)"

definition sort_points :: "point list \<Rightarrow> point list" where
  "sort_points ps = foldr put_sorted ps []"

lemma mset_put [simp]: "mset (put_sorted p qs) = add_mset p (mset qs)"
  by (induction qs) auto

lemma mset_sort [simp]: "mset (sort_points ps) = mset ps"
  by (induction ps) (auto simp: sort_points_def)

lemma set_sort [simp]: "set (sort_points ps) = set ps"
  using mset_sort by (metis set_mset_mset)

lemma sorted_put: "sorted (map fst qs) \<Longrightarrow> sorted (map fst (put_sorted p qs))"
  by (induction qs) (auto simp: point_less_def not_less simp flip: set_mset_mset)

lemma sorted_points [simp]: "sorted (map fst (sort_points ps))"
  by (induction ps) (auto simp: sort_points_def sorted_put)

section \<open>The validity mask\<close>

record mask =
  mk_intervals :: "(int \<times> int) list"
  mk_start :: "int option"

record mask_info =
  mi_before :: nat
  mi_in_intervals :: nat
  mi_per_interval :: "nat list"

definition hit_of :: "(int \<times> int) list \<Rightarrow> int \<Rightarrow> nat option" where
  "hit_of ivs t = List.find (\<lambda>k. fst (ivs ! k) \<le> t \<and> t \<le> snd (ivs ! k)) [0..<length ivs]"

definition mask_step :: "(int \<times> int) list \<Rightarrow> int option \<Rightarrow> point \<Rightarrow> point list \<times> mask_info \<Rightarrow> point list \<times> mask_info" where
  "mask_step ivs start p acc =
     (case acc of (kept, info) \<Rightarrow>
        if (case start of None \<Rightarrow> False | Some s \<Rightarrow> fst p < s) then (kept, info\<lparr> mi_before := mi_before info + 1 \<rparr>)
        else case hit_of ivs (fst p) of
          Some k \<Rightarrow> (kept, info\<lparr> mi_in_intervals := mi_in_intervals info + 1,
                       mi_per_interval := (mi_per_interval info)[k := mi_per_interval info ! k + 1] \<rparr>)
        | None \<Rightarrow> (kept @ [p], info))"

definition apply_mask :: "point list \<Rightarrow> mask \<Rightarrow> bool \<Rightarrow> point list \<times> mask_info" where
  "apply_mask ps m benchmark =
     fold (mask_step (mk_intervals m) (if benchmark then mk_start m else None)) (sort_points ps)
       ([], \<lparr> mi_before = 0, mi_in_intervals = 0, mi_per_interval = replicate (length (mk_intervals m)) 0 \<rparr>)"

section \<open>Gaps\<close>

definition GRID_S :: int where "GRID_S = 600"
definition MAX_MISSING_SLOTS :: int where "MAX_MISSING_SLOTS = 3"
definition MAX_FILL_FRACTION :: pyfloat where "MAX_FILL_FRACTION = round64 (5 / 100)"

record fill_rule =
  fr_cutoff :: "int option"
  fr_boundaries :: "int list"
  fr_grid :: int
  fr_max_missing :: int
  fr_fraction :: pyfloat
  fr_forbidden :: "(int \<times> int) list"
  fr_end_at :: "int option"

definition partition_of :: "int \<Rightarrow> int list \<Rightarrow> nat" where
  "partition_of t bs = length (filter (\<lambda>b. b \<le> t) bs)"

datatype gap_reason =
    OffGrid
  | LongerThan int
  | AfterCutoff
  | CrossesPartition
  | OverlapsMask
  | OverFraction pyfloat                \<comment> \<open>filled first, then removed under the cap\<close>

record gap =
  gp_left :: point
  gp_right :: point
  gp_filled :: bool
  gp_reason :: "gap_reason option"
  gp_values :: "point list"

definition missing_slots :: "fill_rule \<Rightarrow> point \<Rightarrow> point \<Rightarrow> int" where
  "missing_slots r p q = (fst q - fst p) div fr_grid r - 1"

definition gap_refusal :: "fill_rule \<Rightarrow> point \<Rightarrow> point \<Rightarrow> gap_reason option" where
  "gap_refusal r p q =
     (if (fst q - fst p) mod fr_grid r \<noteq> 0 then Some OffGrid
      else if fr_max_missing r < missing_slots r p q then Some (LongerThan (fr_max_missing r))
      else if (case fr_cutoff r of None \<Rightarrow> False | Some c \<Rightarrow> c < fst q) then Some AfterCutoff
      else if fr_boundaries r \<noteq> [] \<and> partition_of (fst p) (fr_boundaries r) \<noteq> partition_of (fst q) (fr_boundaries r) then Some CrossesPartition
      else if list_ex (\<lambda>(a, b). a \<le> fst q - fr_grid r \<and> fst p + fr_grid r \<le> b) (fr_forbidden r) then Some OverlapsMask
      else None)"

definition fillable :: "fill_rule \<Rightarrow> point \<Rightarrow> point \<Rightarrow> bool" where
  "fillable r p q \<longleftrightarrow> gap_refusal r p q = None"

definition interpolate :: "fill_rule \<Rightarrow> point \<Rightarrow> point \<Rightarrow> point list" where
  "interpolate r p q =
     map (\<lambda>k. (fst p + k * fr_grid r, snd p + (snd q - snd p) * int_div k (missing_slots r p q + 1))) [1..missing_slots r p q]"

definition gap_of :: "fill_rule \<Rightarrow> point \<Rightarrow> point \<Rightarrow> gap list" where
  "gap_of r p q =
     (if fst q - fst p \<le> fr_grid r then []
      else [\<lparr> gp_left = p, gp_right = q, gp_filled = fillable r p q, gp_reason = gap_refusal r p q,
              gp_values = (if fillable r p q then interpolate r p q else []) \<rparr>])"

fun gaps_of :: "fill_rule \<Rightarrow> point list \<Rightarrow> gap list" where
  "gaps_of r (p # q # ps) = gap_of r p q @ gaps_of r (q # ps)"
| "gaps_of r _ = []"

text \<open>The filled slots, a dictionary; the slots of different gaps are different.\<close>

definition filled_of :: "gap list \<Rightarrow> point list" where
  "filled_of gs = fold (\<lambda>(t, v). dict_set t v) (concat (map gp_values (filter gp_filled gs))) []"

section \<open>Runs\<close>

fun runs_loop :: "int \<Rightarrow> point list \<Rightarrow> point list \<Rightarrow> point list \<Rightarrow> point list" where
  "runs_loop g best cur [] = (if length best < length cur then cur else best)"
| "runs_loop g best cur (p # ps) =
     (if cur \<noteq> [] \<and> fst p - fst (last cur) \<noteq> g
      then runs_loop g (if length best < length cur then cur else best) [p] ps
      else runs_loop g best (cur @ [p]) ps)"

definition longest_run :: "point list \<Rightarrow> int \<Rightarrow> point list" where
  "longest_run ps g = runs_loop g [] [] ps"

fun run_start :: "point list \<Rightarrow> int \<Rightarrow> nat \<Rightarrow> nat" where
  "run_start ps g 0 = 0"
| "run_start ps g (Suc i) = (if fst (ps ! Suc i) - fst (ps ! i) = g then run_start ps g i else Suc i)"

text \<open>The index of the last point at a time, as a dictionary of enumerated points gives it.\<close>

definition index_of :: "point list \<Rightarrow> int \<Rightarrow> nat option" where
  "index_of ps t = List.find (\<lambda>i. fst (ps ! i) = t) (rev [0..<length ps])"

definition run_ending_at :: "point list \<Rightarrow> int \<Rightarrow> int \<Rightarrow> point list" where
  "run_ending_at ps end_at g =
     (case index_of ps end_at of
        None \<Rightarrow> []
      | Some j \<Rightarrow> let i = run_start ps g j in take (j + 1 - i) (drop i ps))"

definition select_run :: "fill_rule \<Rightarrow> point list \<Rightarrow> point list" where
  "select_run r ps = (case fr_end_at r of Some e \<Rightarrow> run_ending_at ps e (fr_grid r) | None \<Rightarrow> longest_run ps (fr_grid r))"

section \<open>Filling under the cap\<close>

datatype gapfill_error =
    GapValueError string
  | GapZeroDivision                     \<comment> \<open>a gap on a grid of step 0\<close>
  | NoFilledSlot                        \<comment> \<open>\<open>max\<close> of nothing, or \<open>next\<close> of an exhausted generator\<close>

definition by_time :: "point list \<Rightarrow> point list" where
  "by_time ps = fold (\<lambda>(t, v). dict_set t v) ps []"

definition merged :: "point list \<Rightarrow> gap list \<Rightarrow> point list" where
  "merged ps gs = sort_points (by_time ps @ filled_of gs)"

definition is_filled :: "gap list \<Rightarrow> int \<Rightarrow> bool" where
  "is_filled gs t \<longleftrightarrow> dict_get (filled_of gs) t \<noteq> None"

text \<open>An integer against a float, compared exactly.\<close>

fun above_float :: "int \<Rightarrow> pyfloat \<Rightarrow> bool" where
  "above_float n (Fin x) \<longleftrightarrow> x < of_int n"
| "above_float n NInf \<longleftrightarrow> True"
| "above_float n _ \<longleftrightarrow> False"

definition filled_count :: "gap list \<Rightarrow> point list \<Rightarrow> int" where
  "filled_count gs ps = int (length (filter (\<lambda>p. is_filled gs (fst p)) ps))"

definition over_cap :: "fill_rule \<Rightarrow> gap list \<Rightarrow> point list \<Rightarrow> bool" where
  "over_cap r gs ps \<longleftrightarrow> ps \<noteq> [] \<and> above_float (filled_count gs ps) (fr_fraction r * float_of_int (int (length ps)))"

fun unfill :: "pyfloat \<Rightarrow> int \<Rightarrow> gap list \<Rightarrow> gap list option" where
  "unfill f t [] = None"
| "unfill f t (g # gs) =
     (if gp_filled g \<and> t \<in> fst ` set (gp_values g) then Some (g\<lparr> gp_filled := False, gp_reason := Some (OverFraction f) \<rparr> # gs)
      else map_option ((#) g) (unfill f t gs))"

definition latest_filled :: "gap list \<Rightarrow> point list \<Rightarrow> int option" where
  "latest_filled gs ps =
     (case filter (\<lambda>p. is_filled gs (fst p)) ps of [] \<Rightarrow> None | q # qs \<Rightarrow> Some (fold (\<lambda>p m. max m (fst p)) qs (fst q)))"

lemma unfill_fewer: "unfill f t gs = Some gs' \<Longrightarrow> length (filter gp_filled gs') < length (filter gp_filled gs)"
  by (induction gs arbitrary: gs') (auto split: if_splits)

function cap_loop :: "fill_rule \<Rightarrow> point list \<Rightarrow> gap list \<Rightarrow> gapfill_error + gap list" where
  "cap_loop r ps gs =
     (let run = select_run r (merged ps gs) in
      if \<not> over_cap r gs run then Inr gs
      else case latest_filled gs run of
        None \<Rightarrow> Inl NoFilledSlot
      | Some t \<Rightarrow> (case unfill (fr_fraction r) t gs of None \<Rightarrow> Inl NoFilledSlot | Some gs' \<Rightarrow> cap_loop r ps gs'))"
  by pat_completeness auto
termination
  by (relation "measure (\<lambda>(r, ps, gs). length (filter gp_filled gs))") (auto dest: unfill_fewer)

declare cap_loop.simps [simp del]

definition fill_interior_gaps :: "fill_rule \<Rightarrow> point list \<Rightarrow> gapfill_error + point list \<times> bool list \<times> gap list" where
  "fill_interior_gaps r points =
     (let ps = sort_points points in
      if fr_grid r = 0 \<and> gaps_of r ps \<noteq> [] then Inl GapZeroDivision
      else bind_res (cap_loop r ps (gaps_of r ps)) (\<lambda>gs.
        let run = select_run r (merged ps gs) in Inr (run, map (\<lambda>p. is_filled gs (fst p)) run, gs)))"

definition check_inference_window ::
  "point list \<Rightarrow> int \<Rightarrow> nat \<Rightarrow> int \<Rightarrow> int \<Rightarrow> (int \<times> int) list \<Rightarrow> gapfill_error + point list \<times> bool list" where
  "check_inference_window points now n grid max_age forbidden =
     (let ps = sort_points points in
      if ps = [] then Inl (GapValueError ''no input observations'')
      else let last_t = fst (last ps) in
      if max_age < now - last_t then Inl (GapValueError ''stale'')
      else bind_res (fill_interior_gaps \<lparr> fr_cutoff = Some last_t, fr_boundaries = [], fr_grid = grid, fr_max_missing = MAX_MISSING_SLOTS,
             fr_fraction = MAX_FILL_FRACTION, fr_forbidden = forbidden, fr_end_at = Some last_t \<rparr> ps) (\<lambda>(run, flags, gs).
        if run = [] \<or> fst (last run) \<noteq> last_t then Inl (GapValueError ''off the grid'')
        else if length run < n then Inl (GapValueError ''too few slots'')
        else let window = last_n n run; wflags = last_n n flags in
        if last wflags then Inl (GapValueError ''imputed endpoint'') else Inr (window, wflags)))"

section \<open>Masking\<close>

text \<open>What masking keeps, without the counting.\<close>

definition kept_point :: "(int \<times> int) list \<Rightarrow> int option \<Rightarrow> point \<Rightarrow> bool" where
  "kept_point ivs start p \<longleftrightarrow> (case start of None \<Rightarrow> True | Some s \<Rightarrow> s \<le> fst p) \<and> \<not> list_ex (\<lambda>(a, b). a \<le> fst p \<and> fst p \<le> b) ivs"

lemma hit_of_None: "hit_of ivs t = None \<longleftrightarrow> \<not> list_ex (\<lambda>(a, b). a \<le> t \<and> t \<le> b) ivs"
  by (auto simp: hit_of_def find_None_iff list_ex_iff all_set_conv_all_nth case_prod_beta)

lemma mask_step_kept:
  "fst (mask_step ivs start p acc) = fst acc @ (if kept_point ivs start p then [p] else [])"
  using hit_of_None [of ivs "fst p"]
  by (cases acc) (auto simp: mask_step_def kept_point_def split: option.splits)

lemma apply_mask_kept:
  "fst (apply_mask ps m benchmark) = filter (kept_point (mk_intervals m) (if benchmark then mk_start m else None)) (sort_points ps)"
proof -
  have "fst (fold (mask_step ivs start) xs acc) = fst acc @ filter (kept_point ivs start) xs" for ivs start xs acc
    by (induction xs arbitrary: acc) (simp_all add: mask_step_kept)
  then show ?thesis by (simp add: apply_mask_def)
qed

definition mask_sound :: "nat \<Rightarrow> nat \<Rightarrow> point list \<times> mask_info \<Rightarrow> bool" where
  "mask_sound n seen acc \<longleftrightarrow> length (fst acc) + mi_before (snd acc) + mi_in_intervals (snd acc) = seen \<and>
     length (mi_per_interval (snd acc)) = n \<and> sum_list (mi_per_interval (snd acc)) = mi_in_intervals (snd acc)"

lemma hit_of_Some: "hit_of ivs t = Some k \<Longrightarrow> k < length ivs"
  by (auto simp: hit_of_def find_Some_iff)

lemma mask_step_sound: "mask_sound (length ivs) n acc \<Longrightarrow> mask_sound (length ivs) (Suc n) (mask_step ivs start p acc)"
  using hit_of_Some [of ivs "fst p"]
  by (cases acc) (auto simp: mask_step_def mask_sound_def sum_list_update elem_le_sum_list split: option.splits)

lemma mask_fold_sound: "mask_sound (length ivs) n acc \<Longrightarrow> mask_sound (length ivs) (n + length ps) (fold (mask_step ivs start) ps acc)"
proof (induction ps arbitrary: n acc)
  case (Cons p ps)
  then show ?case using Cons.IH [OF mask_step_sound [OF Cons.prems]] by simp
qed simp

text \<open>Masking drops exactly the samples of the mask and accounts for each. The kept samples, in time order, are those outside
  every interval and, for the benchmark role, not before the history start; every other sample is counted once, and the
  counts of the intervals add up.\<close>

theorem masking_accounts_for_every_sample:
  "sorted (map fst (fst (apply_mask ps m benchmark))) \<and>
   mset (fst (apply_mask ps m benchmark)) =
     filter_mset (kept_point (mk_intervals m) (if benchmark then mk_start m else None)) (mset ps) \<and>
   length (fst (apply_mask ps m benchmark)) + mi_before (snd (apply_mask ps m benchmark)) + mi_in_intervals (snd (apply_mask ps m benchmark))
     = length ps \<and>
   sum_list (mi_per_interval (snd (apply_mask ps m benchmark))) = mi_in_intervals (snd (apply_mask ps m benchmark))"
proof -
  have len: "length (sort_points ps) = length ps" using mset_sort [of ps] by (metis size_mset)
  have "mask_sound (length (mk_intervals m)) (length ps) (apply_mask ps m benchmark)"
    unfolding apply_mask_def len [symmetric]
    using mask_fold_sound [of "mk_intervals m" 0] by (simp add: mask_sound_def)
  then show ?thesis using sorted_filter [of fst "sort_points ps"] by (simp add: mask_sound_def apply_mask_kept)
qed

section \<open>Slots of a gap\<close>

lemma fillable_iff:
  "fillable r p q \<longleftrightarrow>
     (fst q - fst p) mod fr_grid r = 0 \<and> missing_slots r p q \<le> fr_max_missing r \<and>
     (case fr_cutoff r of None \<Rightarrow> True | Some c \<Rightarrow> fst q \<le> c) \<and>
     (fr_boundaries r = [] \<or> partition_of (fst p) (fr_boundaries r) = partition_of (fst q) (fr_boundaries r)) \<and>
     \<not> list_ex (\<lambda>(a, b). a \<le> fst q - fr_grid r \<and> fst p + fr_grid r \<le> b) (fr_forbidden r)"
  by (auto simp: fillable_def gap_refusal_def split: option.splits)

definition between :: "point list \<Rightarrow> point \<Rightarrow> point \<Rightarrow> bool" where
  "between ps p q \<longleftrightarrow> p \<in> set ps \<and> q \<in> set ps \<and> (\<forall>x \<in> set ps. fst x \<le> fst p \<or> fst q \<le> fst x)"

lemma interpolate_times:
  assumes "0 < fr_grid r" and "fillable r p q" and "x \<in> set (interpolate r p q)"
  shows "fst p + fr_grid r \<le> fst x \<and> fst x \<le> fst q - fr_grid r"
proof -
  obtain k where k: "1 \<le> k" "k \<le> (fst q - fst p) div fr_grid r - 1" "fst x = fst p + k * fr_grid r"
    using assms(3) by (auto simp: interpolate_def missing_slots_def)
  have "(fst q - fst p) mod fr_grid r = 0" using assms(2) by (simp add: fillable_iff)
  then have "fr_grid r * ((fst q - fst p) div fr_grid r) = fst q - fst p" by (simp add: mod_0_imp_dvd)
  moreover have "k * fr_grid r \<le> ((fst q - fst p) div fr_grid r - 1) * fr_grid r"
    using k(2) assms(1) by (intro mult_right_mono) auto
  moreover have "1 * fr_grid r \<le> k * fr_grid r" using k(1) assms(1) by (intro mult_right_mono) auto
  ultimately show ?thesis using k(3) by (simp add: algebra_simps)
qed

text \<open>The gaps of a sorted series, some of them unfilled again.\<close>

definition gap_ok :: "fill_rule \<Rightarrow> point list \<Rightarrow> gap \<Rightarrow> bool" where
  "gap_ok r ps g \<longleftrightarrow> between ps (gp_left g) (gp_right g) \<and> fr_grid r < fst (gp_right g) - fst (gp_left g) \<and>
     gp_values g = (if fillable r (gp_left g) (gp_right g) then interpolate r (gp_left g) (gp_right g) else []) \<and>
     (gp_filled g \<longrightarrow> fillable r (gp_left g) (gp_right g))"

lemma gap_ok_mono: "gap_ok r ps g \<Longrightarrow> (\<And>x. x \<in> set qs \<Longrightarrow> x \<in> set ps \<or> fst x \<le> fst (gp_left g)) \<Longrightarrow> set ps \<subseteq> set qs \<Longrightarrow> gap_ok r qs g"
  unfolding gap_ok_def between_def by blast

lemma gaps_of_ok: "sorted (map fst ps) \<Longrightarrow> \<forall>g \<in> set (gaps_of r ps). gap_ok r ps g"
proof (induction r ps rule: gaps_of.induct)
  case (1 r p q ps)
  have "gap_ok r (p # q # ps) g" if "g \<in> set (gap_of r p q)" for g
    using that 1(2) by (fastforce simp: gap_of_def gap_ok_def between_def split: if_splits)
  moreover have "gap_ok r (p # q # ps) g" if "g \<in> set (gaps_of r (q # ps))" for g
  proof (rule gap_ok_mono)
    show ok: "gap_ok r (q # ps) g" using 1 that by simp
    show "x \<in> set (q # ps) \<or> fst x \<le> fst (gp_left g)" if "x \<in> set (p # q # ps)" for x
      using that ok 1(2) by (fastforce simp: gap_ok_def between_def)
  qed auto
  ultimately show ?case by auto
qed auto

lemma unfill_ok:
  "unfill f t gs = Some gs' \<Longrightarrow> \<forall>g \<in> set gs. gap_ok r ps g \<Longrightarrow> \<forall>g \<in> set gs'. gap_ok r ps g"
  by (induction gs arbitrary: gs') (auto simp: gap_ok_def split: if_splits)

lemma unfill_Some: "g \<in> set gs \<Longrightarrow> gp_filled g \<Longrightarrow> t \<in> fst ` set (gp_values g) \<Longrightarrow> unfill f t gs \<noteq> None"
  by (induction gs) auto

section \<open>Filled slots\<close>

lemma fold_set_dom: "dict_get (fold (\<lambda>(t, v). dict_set t v) xs d) t \<noteq> None \<longleftrightarrow> t \<in> fst ` set xs \<or> dict_get d t \<noteq> None"
proof (induction xs arbitrary: d)
  case (Cons x xs)
  then show ?case by (cases x) (auto simp: dict_get_set image_iff split: if_splits)
qed simp

lemma dict_set_sub: "set (dict_set k v d) \<subseteq> insert (k, v) (set d)"
  by (induction d) auto

lemma fold_set_sub: "set (fold (\<lambda>(t, v). dict_set t v) xs d) \<subseteq> set xs \<union> set d"
proof (induction xs arbitrary: d)
  case (Cons x xs)
  then show ?case using dict_set_sub [of "fst x" "snd x" d] by (cases x) fastforce
qed simp

lemma is_filled_iff: "is_filled gs t \<longleftrightarrow> (\<exists>g \<in> set gs. gp_filled g \<and> t \<in> fst ` set (gp_values g))"
  unfolding is_filled_def filled_of_def fold_set_dom by auto

lemma filled_of_sub: "x \<in> set (filled_of gs) \<Longrightarrow> \<exists>g \<in> set gs. gp_filled g \<and> x \<in> set (gp_values g)"
  using fold_set_sub [of "concat (map gp_values (filter gp_filled gs))" "[]"] by (auto simp: filled_of_def)

lemma filled_of_time: "x \<in> set (filled_of gs) \<Longrightarrow> is_filled gs (fst x)"
  unfolding is_filled_def by (simp add: map_of_eq_None_iff)

lemma merged_cases:
  assumes "x \<in> set (merged ps gs)"
  shows "x \<in> set ps \<or> x \<in> set (filled_of gs)"
  using assms fold_set_sub [of ps "[]"] by (auto simp: merged_def by_time_def)

text \<open>A filled slot is not at an observed time, and it comes from a gap that may be filled.\<close>

lemma filled_slot:
  assumes "0 < fr_grid r" and "\<forall>g \<in> set gs. gap_ok r ps g" and "is_filled gs t"
  shows "t \<notin> fst ` set ps"
proof -
  obtain g x where g: "g \<in> set gs" "gp_filled g" "x \<in> set (gp_values g)" "t = fst x" using assms(3) by (auto simp: is_filled_iff)
  then have ok: "gap_ok r ps g" using assms(2) by blast
  then have "fillable r (gp_left g) (gp_right g)" "x \<in> set (interpolate r (gp_left g) (gp_right g))" using g by (auto simp: gap_ok_def)
  from interpolate_times [OF assms(1) this] ok assms(1) g(4) show ?thesis by (fastforce simp: gap_ok_def between_def)
qed

section \<open>Contiguous runs\<close>

definition chain :: "int \<Rightarrow> point list \<Rightarrow> bool" where
  "chain g ps \<longleftrightarrow> (\<forall>i. Suc i < length ps \<longrightarrow> fst (ps ! Suc i) - fst (ps ! i) = g)"

lemma chain_snoc: "chain g ps \<Longrightarrow> ps = [] \<or> fst p - fst (last ps) = g \<Longrightarrow> chain g (ps @ [p])"
  by (cases ps rule: rev_cases) (auto simp: chain_def nth_append less_Suc_eq)

lemma chain_small [simp]: "chain g []" "chain g [p]"
  by (auto simp: chain_def)

lemma runs_loop_props:
  "chain g best \<Longrightarrow> chain g cur \<Longrightarrow>
     chain g (runs_loop g best cur ps) \<and> set (runs_loop g best cur ps) \<subseteq> set best \<union> set cur \<union> set ps"
proof (induction g best cur ps rule: runs_loop.induct)
  case (2 g best cur p ps)
  let ?best = "if length best < length cur then cur else best"
  show ?case
  proof (cases "cur \<noteq> [] \<and> fst p - fst (last cur) \<noteq> g")
    case True
    have "chain g ?best" "set ?best \<subseteq> set best \<union> set cur" using 2(3,4) by auto
    then show ?thesis using 2(1) [OF True] True by auto
  next
    case False
    have "chain g (cur @ [p])" using chain_snoc [OF 2(4)] False by blast
    then show ?thesis using 2(2) [OF False 2(3)] False by auto
  qed
qed auto

lemma run_start_le: "run_start ps g j \<le> j"
  by (induction j) auto

lemma run_start_chain: "run_start ps g j \<le> i \<Longrightarrow> Suc i \<le> j \<Longrightarrow> fst (ps ! Suc i) - fst (ps ! i) = g"
  by (induction j) (auto split: if_splits simp: le_Suc_eq)

lemma index_of_Some: "index_of ps t = Some j \<Longrightarrow> j < length ps \<and> fst (ps ! j) = t"
  by (auto simp: index_of_def find_Some_iff rev_nth)

lemma run_ending_at_props:
  "chain g (run_ending_at ps e g) \<and> set (run_ending_at ps e g) \<subseteq> set ps \<and>
     (run_ending_at ps e g \<noteq> [] \<longrightarrow> fst (last (run_ending_at ps e g)) = e)"
proof (cases "index_of ps e")
  case (Some j)
  let ?i = "run_start ps g j"
  have j: "j < length ps" "fst (ps ! j) = e" "?i \<le> j" using index_of_Some [OF Some] run_start_le by auto
  have run: "run_ending_at ps e g = take (j + 1 - ?i) (drop ?i ps)" using Some by (simp add: run_ending_at_def Let_def)
  have "chain g (run_ending_at ps e g)" unfolding chain_def run
    using run_start_chain [of ps g j] j by (auto simp: ac_simps)
  moreover have "last (run_ending_at ps e g) = ps ! j" unfolding run using j by (simp add: last_conv_nth Suc_diff_le)
  ultimately show ?thesis using j(2) run set_take_subset set_drop_subset by fastforce
qed (simp add: run_ending_at_def)

lemma select_run_props: "chain (fr_grid r) (select_run r ps) \<and> set (select_run r ps) \<subseteq> set ps"
  using runs_loop_props [of "fr_grid r" "[]" "[]" ps] run_ending_at_props [of "fr_grid r" ps]
  by (auto simp: select_run_def longest_run_def split: option.splits)

section \<open>The cap\<close>

lemma latest_filled_in: "latest_filled gs ps = Some t \<Longrightarrow> is_filled gs t"
proof -
  assume "latest_filled gs ps = Some t"
  then obtain q qs where q: "filter (\<lambda>p. is_filled gs (fst p)) ps = q # qs" "t = fold (\<lambda>p m. max m (fst p)) qs (fst q)"
    by (auto simp: latest_filled_def split: list.splits)
  have "fold (\<lambda>p m. max m (fst p)) xs a \<in> insert a (fst ` set xs)" for xs :: "point list" and a
  proof (induction xs arbitrary: a)
    case (Cons x xs)
    then show ?case using Cons [of "max a (fst x)"] by (auto simp: max_def split: if_splits)
  qed simp
  then have "t \<in> fst ` set (q # qs)" using q(2) by auto
  moreover have "set (q # qs) = {p \<in> set ps. is_filled gs (fst p)}" using q(1) by (metis set_filter)
  ultimately show ?thesis by auto
qed

lemma over_cap_filled:
  assumes "over_cap r gs ps" and "is_finite (fr_fraction r)" and "Fin 0 \<le> fr_fraction r"
  shows "latest_filled gs ps \<noteq> None"
proof -
  let ?n = "float_of_int (int (length ps))"
  have n: "Fin 0 \<le> ?n" unfolding float_of_int_def by (rule round64_nonneg) simp
  have "Fin 0 \<le> fr_fraction r * ?n \<or> fr_fraction r * ?n = NaN"
  proof (cases "is_finite ?n")
    case True
    then show ?thesis using float_mult_nonneg assms(2,3) n by blast
  next
    case False
    then have "?n = PInf" using n by (cases ?n) auto
    then show ?thesis using assms(2,3) by (cases "fr_fraction r") (auto simp: inf_of_sign_def)
  qed
  then have "0 < filled_count gs ps" using assms(1) by (cases "fr_fraction r * ?n") (auto simp: over_cap_def)
  then show ?thesis by (auto simp: filled_count_def latest_filled_def split: list.splits)
qed

lemma cap_loop_inv:
  "cap_loop r ps gs = Inr gs' \<Longrightarrow> \<forall>g \<in> set gs. gap_ok r qs g \<Longrightarrow>
     (\<forall>g \<in> set gs'. gap_ok r qs g) \<and> \<not> over_cap r gs' (select_run r (merged ps gs'))"
proof (induction r ps gs rule: cap_loop.induct)
  case (1 r ps gs)
  let ?run = "select_run r (merged ps gs)"
  show ?case
  proof (cases "over_cap r gs ?run")
    case True
    then obtain t gs1 where t: "latest_filled gs ?run = Some t" "unfill (fr_fraction r) t gs = Some gs1" "cap_loop r ps gs1 = Inr gs'"
      using 1(2) by (subst (asm) cap_loop.simps) (auto simp: Let_def split: option.splits)
    show ?thesis using 1(1) [OF refl _ t(1,2,3)] True unfill_ok [OF t(2) 1(3)] by blast
  next
    case False
    then show ?thesis using 1(2,3) by (simp add: cap_loop.simps)
  qed
qed

section \<open>Properties\<close>

lemma fill_Inr:
  assumes "fill_interior_gaps r points = Inr (run, flags, gs)"
  shows "run = select_run r (merged (sort_points points) gs) \<and> flags = map (\<lambda>p. is_filled gs (fst p)) run \<and>
     (\<forall>g \<in> set gs. gap_ok r points g) \<and> \<not> over_cap r gs run"
proof -
  obtain gs' where gs': "cap_loop r (sort_points points) (gaps_of r (sort_points points)) = Inr gs'"
    and eq: "gs = gs'" "run = select_run r (merged (sort_points points) gs')" "flags = map (\<lambda>p. is_filled gs' (fst p)) run"
    using assms by (auto simp: fill_interior_gaps_def Let_def bind_res_Inr_iff split: if_splits)
  have "\<forall>g \<in> set (gaps_of r (sort_points points)). gap_ok r points g"
    using gaps_of_ok [of "sort_points points" r] by (simp add: gap_ok_def between_def)
  from cap_loop_inv [OF gs' this] eq show ?thesis by simp
qed

text \<open>What an imputed slot rests on: two consecutive observations around it, close enough, not after the cutoff, in one
  partition, and no masked interval between them.\<close>

definition imputed_from :: "fill_rule \<Rightarrow> point list \<Rightarrow> point \<Rightarrow> bool" where
  "imputed_from r points x \<longleftrightarrow>
     (\<exists>p q. between points p q \<and> fst p < fst x \<and> fst x < fst q \<and> fst q - fst p \<le> (fr_max_missing r + 1) * fr_grid r \<and>
        (\<forall>c. fr_cutoff r = Some c \<longrightarrow> fst q \<le> c) \<and>
        (fr_boundaries r = [] \<or> partition_of (fst p) (fr_boundaries r) = partition_of (fst q) (fr_boundaries r)) \<and>
        (\<forall>(a, b) \<in> set (fr_forbidden r). \<not> (a \<le> fst x \<and> fst x \<le> b)) \<and> x \<in> set (interpolate r p q))"

lemma filled_imputed:
  assumes "0 < fr_grid r" and "gap_ok r points g" and "gp_filled g" and "x \<in> set (gp_values g)"
  shows "imputed_from r points x"
proof -
  let ?p = "gp_left g" and ?q = "gp_right g"
  have f: "fillable r ?p ?q" and b: "between points ?p ?q" and x: "x \<in> set (interpolate r ?p ?q)"
    using assms by (auto simp: gap_ok_def)
  note t = interpolate_times [OF assms(1) f x]
  have "(fst ?q - fst ?p) mod fr_grid r = 0" "missing_slots r ?p ?q \<le> fr_max_missing r" using f by (auto simp: fillable_iff)
  then have "fst ?q - fst ?p = (missing_slots r ?p ?q + 1) * fr_grid r" by (simp add: missing_slots_def mod_0_imp_dvd)
  also have "\<dots> \<le> (fr_max_missing r + 1) * fr_grid r"
    using \<open>missing_slots r ?p ?q \<le> fr_max_missing r\<close> assms(1) by (intro mult_right_mono) auto
  finally have "fst ?q - fst ?p \<le> (fr_max_missing r + 1) * fr_grid r" .
  moreover have "\<not> (a \<le> fst x \<and> fst x \<le> b)" if "(a, b) \<in> set (fr_forbidden r)" for a b
    using that f t by (force simp: fillable_iff list_ex_iff)
  ultimately show ?thesis
    unfolding imputed_from_def using f b x t assms(1)
    by (intro exI [of _ ?p] exI [of _ ?q]) (auto simp: fillable_iff)
qed

lemma filled_series_sound:
  assumes "0 < fr_grid r" and "fill_interior_gaps r points = Inr (run, flags, gs)"
  shows "chain (fr_grid r) run \<and> length flags = length run \<and>
    (\<forall>i < length run. if flags ! i then imputed_from r points (run ! i) else run ! i \<in> set points) \<and>
    (run \<noteq> [] \<longrightarrow> \<not> above_float (int (length (filter id flags))) (fr_fraction r * float_of_int (int (length run))))"
proof -
  note f = fill_Inr [OF assms(2)]
  have "set run \<subseteq> set (merged (sort_points points) gs)" "chain (fr_grid r) run" using f select_run_props by auto
  moreover have "if flags ! i then imputed_from r points (run ! i) else run ! i \<in> set points" if "i < length run" for i
  proof -
    have m: "run ! i \<in> set points \<or> run ! i \<in> set (filled_of gs)"
      using merged_cases [of "run ! i" "sort_points points" gs] calculation(1) nth_mem [OF that] by auto
    have flag: "flags ! i = is_filled gs (fst (run ! i))" using f that by simp
    have obs: "run ! i \<notin> set points" if "is_filled gs (fst (run ! i))"
      using filled_slot [OF assms(1) _ that] f by (metis image_eqI)
    show ?thesis
    proof (cases "flags ! i")
      case True
      then have "run ! i \<in> set (filled_of gs)" using m obs flag by auto
      then obtain g where g: "g \<in> set gs" "gp_filled g" "run ! i \<in> set (gp_values g)" using filled_of_sub by blast
      then have "gap_ok r points g" using f by blast
      then show ?thesis using filled_imputed [OF assms(1) _ g(2,3)] True by simp
    next
      case False
      then show ?thesis using m filled_of_time [of "run ! i" gs] flag by auto
    qed
  qed
  moreover have "int (length (filter id flags)) = filled_count gs run" using f by (simp add: filled_count_def filter_map o_def)
  ultimately show ?thesis using f by (auto simp: over_cap_def)
qed

text \<open>C34: interpolation fills only bounded interior gaps. The selected series is contiguous on the grid; a slot that is not
  flagged is an observation, unchanged; a flagged slot lies between two consecutive observations at most four grid steps
  apart, both not after the cutoff and in one partition, is no time of the validity mask, and has the interpolated value;
  and the flagged slots of the series are within the cap.\<close>

theorem only_bounded_interior_gaps_are_filled:
  assumes "0 < fr_grid r" and "fill_interior_gaps r points = Inr (run, flags, gs)"
  shows "chain (fr_grid r) run \<and> length flags = length run \<and>
    (\<forall>i < length run. if flags ! i then imputed_from r points (run ! i) else run ! i \<in> set points) \<and>
    (run \<noteq> [] \<longrightarrow> \<not> above_float (int (length (filter id flags))) (fr_fraction r * float_of_int (int (length run))))"
  using assms by (rule filled_series_sound)

lemma cap_loop_ends:
  "is_finite (fr_fraction r) \<Longrightarrow> Fin 0 \<le> fr_fraction r \<Longrightarrow> \<exists>gs'. cap_loop r ps gs = Inr gs'"
proof (induction r ps gs rule: cap_loop.induct)
  case (1 r ps gs)
  let ?run = "select_run r (merged ps gs)"
  show ?case
  proof (cases "over_cap r gs ?run")
    case True
    then obtain t where t: "latest_filled gs ?run = Some t" using over_cap_filled 1(2,3) by blast
    then obtain g where "g \<in> set gs" "gp_filled g" "t \<in> fst ` set (gp_values g)" using latest_filled_in is_filled_iff by blast
    then obtain gs1 where "unfill (fr_fraction r) t gs = Some gs1" using unfill_Some by blast
    then show ?thesis using 1(1) [OF refl _ t] True t 1(2,3) by (subst cap_loop.simps) simp
  qed (simp add: cap_loop.simps)
qed


lemma sorted_last_max: "sorted (map fst ps) \<Longrightarrow> x \<in> set ps \<Longrightarrow> fst x \<le> fst (last ps)"
  by (induction ps) auto

lemma last_last_n: "xs \<noteq> [] \<Longrightarrow> last (last_n n xs) = last xs"
  by (cases "length xs \<le> n") (auto simp: last_n_def last_drop)

lemma chain_last_n: "chain g ps \<Longrightarrow> chain g (last_n n ps)"
  by (auto simp: chain_def last_n_def)

text \<open>C35: an inference never starts from an imputed or stale sample: an accepted input window has exactly the requested number of
  contiguous slots, ends with the newest observation, which is fresh, and every slot of it is an observation or imputed
  from observations not later than that one, outside the mask.\<close>

theorem inference_window_is_observed_and_fresh:
  assumes "0 < grid" and "0 < n" and "check_inference_window points now n grid max_age forbidden = Inr (window, wflags)"
  shows "length window = n \<and> length wflags = n \<and> chain grid window \<and> last window \<in> set points \<and>
    (\<forall>x \<in> set points. fst x \<le> fst (last window)) \<and> now - fst (last window) \<le> max_age \<and>
    (\<forall>x \<in> set window. x \<in> set points \<or> (\<exists>p q. between points p q \<and> fst p < fst x \<and> fst x < fst q \<and>
       fst q - fst p \<le> (MAX_MISSING_SLOTS + 1) * grid \<and> (\<forall>(a, b) \<in> set forbidden. \<not> (a \<le> fst x \<and> fst x \<le> b))))"
proof -
  let ?ps = "sort_points points"
  define r where "r = \<lparr> fr_cutoff = Some (fst (last ?ps)), fr_boundaries = [], fr_grid = grid, fr_max_missing = MAX_MISSING_SLOTS,
     fr_fraction = MAX_FILL_FRACTION, fr_forbidden = forbidden, fr_end_at = Some (fst (last ?ps)) \<rparr>"
  obtain run flags gs where fill: "fill_interior_gaps r ?ps = Inr (run, flags, gs)" and run: "run \<noteq> []" "fst (last run) = fst (last ?ps)"
      "n \<le> length run" "\<not> last (last_n n flags)" "window = last_n n run" "wflags = last_n n flags" and fresh: "now - fst (last ?ps) \<le> max_age"
    using assms(3) by (auto simp: check_inference_window_def Let_def bind_res_Inr_iff r_def split: if_splits)
  have grid: "0 < fr_grid r" "fr_grid r = grid" "fr_max_missing r = MAX_MISSING_SLOTS" "fr_forbidden r = forbidden"
    using assms(1) by (simp_all add: r_def)
  note s = filled_series_sound [OF grid(1) fill]
  let ?k = "length run - 1"
  have sets: "set ?ps = set points" and btw: "between ?ps = between points" by (auto simp: between_def fun_eq_iff)
  have lens: "length flags = length run" "length window = n" "length wflags = n"
    using s run(3,5,6) assms(2) by (auto simp: length_last_n)
  have win: "last window = last run" "last wflags = flags ! ?k"
    using run(1,5,6) lens(1) by (auto simp: last_last_n last_conv_nth simp flip: length_greater_0_conv)
  have observed: "last run \<in> set points" using s run(1,4,6) win(2) sets by (auto simp: last_conv_nth dest!: spec [of _ ?k])
  have slot: "x \<in> set points \<or> imputed_from r points x" if "x \<in> set window" for x
  proof -
    have "x \<in> set run" using that run(5) set_last_n [of n run] by blast
    then obtain i where i: "i < length run" "run ! i = x" by (auto simp: in_set_conv_nth)
    have "if flags ! i then imputed_from r ?ps (run ! i) else run ! i \<in> set ?ps" using s i(1) by blast
    then show ?thesis using i(2) btw by (auto simp: imputed_from_def split: if_splits)
  qed
  have "x \<in> set points \<or> (\<exists>p q. between points p q \<and> fst p < fst x \<and> fst x < fst q \<and>
       fst q - fst p \<le> (MAX_MISSING_SLOTS + 1) * grid \<and> (\<forall>(a, b) \<in> set forbidden. \<not> (a \<le> fst x \<and> fst x \<le> b)))" if "x \<in> set window" for x
    using slot [OF that] unfolding imputed_from_def grid by blast
  moreover have "chain grid window" using s run(5) grid(2) chain_last_n by auto
  moreover have "fst x \<le> fst (last run)" if "x \<in> set points" for x
    using sorted_last_max [of ?ps x] that run(2) by simp
  ultimately show ?thesis using lens(2,3) win(1) observed fresh run(2) by simp
qed

section \<open>Witnesses\<close>

text \<open>A series with one missing slot, and a series without a gap, on the default rule.\<close>

definition demo_rule :: fill_rule where
  "demo_rule = \<lparr> fr_cutoff = Some 2400, fr_boundaries = [], fr_grid = 600, fr_max_missing = 3, fr_fraction = Fin 1,
     fr_forbidden = [(6000, 7000)], fr_end_at = None \<rparr>"

definition demo_points :: "point list" where
  "demo_points = [(1200, Fin 4), (0, Fin 4)]"

definition demo_observations :: "point list" where
  "demo_observations = [(600, Fin 5), (1200, Fin 7), (0, Fin 3)]"

lemmas fill_eval = fill_interior_gaps_def sort_points_def point_less_def gap_of_def fillable_def gap_refusal_def missing_slots_def interpolate_def
  merged_def by_time_def filled_of_def select_run_def longest_run_def over_cap_def filled_count_def is_filled_def

lemma demo_value: "Fin 4 + (Fin 4 - Fin 4) * int_div 1 2 = Fin 4"
proof -
  obtain a where "int_div 1 2 = Fin a" using int_div_unit [of 1 2] by (auto simp: is_finite_iff)
  then show ?thesis using round64_of_int [of 4] by (simp add: minus_pyfloat_def)
qed

lemma demo_cap: "Fin 1 * float_of_int 3 = Fin 3"
  using round64_of_int [of 3] by (simp add: float_of_int_def)

lemma demo_fill:
  "fill_interior_gaps demo_rule demo_points = Inr ([(0, Fin 4), (600, Fin 4), (1200, Fin 4)], [False, True, False],
     [\<lparr> gp_left = (0, Fin 4), gp_right = (1200, Fin 4), gp_filled = True, gp_reason = None, gp_values = [(600, Fin 4)] \<rparr>])"
  using demo_value demo_cap by (simp add: fill_eval demo_rule_def demo_points_def cap_loop.simps Let_def upto.simps)

theorem only_bounded_interior_gaps_are_filled_witness: "imputed_from demo_rule demo_points (600, Fin 4)"
  using only_bounded_interior_gaps_are_filled [OF _ demo_fill] by (auto simp: demo_rule_def dest!: spec [of _ 1])


lemma demo_window:
  "check_inference_window demo_observations 1300 2 600 1200 [] = Inr ([(600, Fin 5), (1200, Fin 7)], [False, False])"
proof -
  have a: "is_finite MAX_FILL_FRACTION \<and> Fin 0 \<le> MAX_FILL_FRACTION" using int_div_unit [of 5 100] by (auto simp: int_div_def MAX_FILL_FRACTION_def)
  have "Fin 0 \<le> MAX_FILL_FRACTION * float_of_int 3"
    using float_mult_nonneg [of MAX_FILL_FRACTION "Fin 3"] a round64_of_int [of 3] by (simp add: float_of_int_def)
  then have "\<not> above_float 0 (MAX_FILL_FRACTION * float_of_int 3)" by (cases "MAX_FILL_FRACTION * float_of_int 3") auto
  then show ?thesis
    by (simp add: check_inference_window_def fill_eval demo_observations_def cap_loop.simps Let_def run_ending_at_def index_of_def last_n_def)
qed

theorem inference_window_is_observed_and_fresh_witness: "last [(600, Fin 5), (1200, Fin 7)] \<in> set demo_observations \<and> 1300 - 1200 \<le> (1200 :: int)"
  using inference_window_is_observed_and_fresh [OF _ _ demo_window] by simp

end
