(* ===== verification/Blend.thy ===== *)
theory Blend
  imports Py_Float "HOL-Library.Word" "HOL-Library.Multiset"
begin

text \<open>
  \<^verbatim>\<open>training/blend_selection.py\<close>: which blend of network and previous-day pattern a training keeps, with the SplitMix64 generator
  at its 64-bit width, the moving-block bootstrap, the gain with its lower bound, the decision with hysteresis, and the
  chain of evidence from one training to the next. The errors of a partition are lists per candidate (\<^verbatim>\<open>origin_errors\<close> of a
  list is the list), the parameters are a record, so an unknown parameter cannot be given, and the evaluation of the
  model under a weight is an argument.
\<close>

unbundle bit_operations_syntax

section \<open>SplitMix64\<close>

type_synonym rng = "64 word"

definition new_rng :: "int \<Rightarrow> rng" where
  "new_rng seed = word_of_int seed"

definition next_rng :: "rng \<Rightarrow> 64 word \<times> rng" where
  "next_rng s =
     (let s = s + 0x9E3779B97F4A7C15;
          z = (s XOR drop_bit 30 s) * 0xBF58476D1CE4E5B9;
          z = (z XOR drop_bit 27 z) * 0x94D049BB133111EB
      in (z XOR drop_bit 31 z, s))"

text \<open>\<open>below\<close> is called with a positive \<open>n\<close> only.\<close>

definition below :: "nat \<Rightarrow> rng \<Rightarrow> nat \<times> rng" where
  "below n s = (case next_rng s of (z, s) \<Rightarrow> (unat z mod n, s))"

section \<open>Parameters\<close>

datatype blend_error =
    BlendValueError
  | BlendOverflow                       \<comment> \<open>\<open>math.fsum\<close> of values whose sum is no float\<close>
  | BlendIndexError

record blend_params =
  bp_min_gain :: pyfloat
  bp_quantile :: pyfloat
  bp_threshold :: pyfloat
  bp_block :: int
  bp_resamples :: int
  bp_seed :: int
  bp_pool :: int
  bp_hold_gain :: pyfloat

definition DEFAULTS :: blend_params where
  "DEFAULTS = \<lparr> bp_min_gain = round64 (5 / 100), bp_quantile = round64 (1 / 10), bp_threshold = Fin 0, bp_block = 12,
     bp_resamples = 2000, bp_seed = 20260930, bp_pool = 3, bp_hold_gain = Fin 0 \<rparr>"

definition check_params :: "blend_params \<Rightarrow> blend_error + blend_params" where
  "check_params p =
     (if \<not> (Fin 0 < bp_quantile p \<and> bp_quantile p < Fin 1) then Inl BlendValueError
      else if bp_block p < 1 \<or> bp_resamples p < 1 \<or> bp_pool p < 1 then Inl BlendValueError
      else Inr p)"

type_synonym candidates = "(string \<times> pyfloat option) list"
type_synonym partition = "(string \<times> pyfloat list) list"

definition CANDIDATES :: candidates where
  "CANDIDATES = [(''deployed_ramp'', None), (''pattern_0.85'', Some (round64 (85 / 100))),
     (''pattern_0.95'', Some (round64 (95 / 100))), (''pattern_only'', Some (Fin 1))]"

definition BASELINE :: string where "BASELINE = ''pattern_only''"

section \<open>The moving-block bootstrap\<close>

text \<open>The blocks of one resample, \<open>m\<close> of them; \<open>K\<close> and \<open>L\<close> are positive.\<close>

fun blocks :: "nat \<Rightarrow> nat \<Rightarrow> nat \<Rightarrow> rng \<Rightarrow> nat list \<times> rng" where
  "blocks K L 0 g = ([], g)"
| "blocks K L (Suc m) g =
     (case below (K - L + 1) g of (s, g) \<Rightarrow> case blocks K L m g of (idx, g) \<Rightarrow> ([s..<s + L] @ idx, g))"

definition block_indices :: "nat \<Rightarrow> nat \<Rightarrow> rng \<Rightarrow> nat list \<times> rng" where
  "block_indices K L g =
     (let L = min L K in
      case blocks K L (nat (cdiv (int K) (int L))) g of (idx, g) \<Rightarrow> (take K idx, g))"

fun resample :: "nat list \<Rightarrow> nat \<Rightarrow> rng \<Rightarrow> nat list list \<times> rng" where
  "resample [] L g = ([], g)"
| "resample (K # Ks) L g =
     (case block_indices K L g of (idx, g) \<Rightarrow> case resample Ks L g of (idxs, g) \<Rightarrow> (idx # idxs, g))"

text \<open>\<open>math.fsum\<close> of finite floats: the exact sum, rounded once; a partial sum that is no float raises.\<close>

fun fin_value :: "pyfloat \<Rightarrow> rat" where
  "fin_value (Fin a) = a"
| "fin_value _ = 0"

definition exact_sum :: "pyfloat list \<Rightarrow> rat" where
  "exact_sum xs = sum_list (map fin_value xs)"

definition fsum :: "pyfloat list \<Rightarrow> blend_error + pyfloat" where
  "fsum xs =
     (if list_ex (\<lambda>n. \<not> is_finite (round64 (exact_sum (take n xs)))) [0..<length xs + 1] then Inl BlendOverflow
      else Inr (round64 (exact_sum xs)))"

definition errors_of :: "partition \<Rightarrow> string \<Rightarrow> pyfloat list" where
  "errors_of part name = (case dict_get part name of None \<Rightarrow> [] | Some e \<Rightarrow> e)"

fun pooled_sums :: "string \<Rightarrow> (partition \<times> nat list option) list \<Rightarrow> pyfloat \<Rightarrow> int \<Rightarrow> blend_error + pyfloat \<times> int" where
  "pooled_sums name [] tot n = Inr (tot, n)"
| "pooled_sums name ((part, idx) # rest) tot n =
     (let e = errors_of part name;
          sel = (case idx of None \<Rightarrow> e | Some is \<Rightarrow> map ((!) e) is)
      in bind_res (fsum sel) (\<lambda>t. pooled_sums name rest (tot + t) (n + int (length sel))))"

text \<open>The divisor is the number of origins; every caller has candidates with errors in each partition.\<close>

definition pooled_mae :: "partition list \<Rightarrow> string \<Rightarrow> nat list list option \<Rightarrow> blend_error + pyfloat" where
  "pooled_mae parts name idx =
     bind_res (pooled_sums name (zip parts (case idx of None \<Rightarrow> replicate (length parts) None | Some is \<Rightarrow> map Some is)) (Fin 0) 0)
       (\<lambda>(tot, n). Inr (fdiv tot (float_of_int n)))"

definition relative_gain :: "pyfloat \<Rightarrow> pyfloat \<Rightarrow> pyfloat" where
  "relative_gain r c = (if Fin 0 < r then fdiv (r - c) r else Fin 0)"

fun replicates :: "partition list \<Rightarrow> string \<Rightarrow> string \<Rightarrow> nat \<Rightarrow> nat \<Rightarrow> rng \<Rightarrow> blend_error + pyfloat list" where
  "replicates parts cand ref L 0 g = Inr []"
| "replicates parts cand ref L (Suc m) g =
     (case resample (map (\<lambda>part. length (errors_of part ref)) parts) L g of (idx, g) \<Rightarrow>
        bind_res (pooled_mae parts ref (Some idx)) (\<lambda>r.
        bind_res (pooled_mae parts cand (Some idx)) (\<lambda>c.
        bind_res (replicates parts cand ref L m g) (\<lambda>reps. Inr (relative_gain r c # reps)))))"

section \<open>Gains\<close>

fun put_float :: "pyfloat \<Rightarrow> pyfloat list \<Rightarrow> pyfloat list" where
  "put_float x [] = [x]"
| "put_float x (y # ys) = (if y < x then y # put_float x ys else x # y # ys)"

text \<open>\<open>list.sort\<close>, for lists without a not-a-number.\<close>

definition sort_floats :: "pyfloat list \<Rightarrow> pyfloat list" where
  "sort_floats xs = foldr put_float xs []"

definition quantile_index :: "pyfloat \<Rightarrow> nat \<Rightarrow> int" where
  "quantile_index q n = (case q * float_of_int (int n) of Fin x \<Rightarrow> \<lfloor>x\<rfloor> | _ \<Rightarrow> 0)"

definition lower_bound :: "pyfloat \<Rightarrow> pyfloat list \<Rightarrow> blend_error + pyfloat" where
  "lower_bound q reps =
     (let i = quantile_index q (length reps) in
      if i < int (length reps) then Inr (sort_floats reps ! nat i) else Inl BlendIndexError)"

record gain =
  gn_gain :: pyfloat
  gn_lower_bound :: pyfloat
  gn_mae_ref :: pyfloat
  gn_mae_cand :: pyfloat
  gn_beats :: bool

definition gain_stats :: "partition list \<Rightarrow> string \<Rightarrow> string \<Rightarrow> blend_params \<Rightarrow> blend_error + gain" where
  "gain_stats parts cand ref p =
     bind_res (check_params p) (\<lambda>p.
     bind_res (pooled_mae parts ref None) (\<lambda>m_ref.
     bind_res (pooled_mae parts cand None) (\<lambda>m_c.
     bind_res (replicates parts cand ref (nat (bp_block p)) (nat (bp_resamples p)) (new_rng (bp_seed p))) (\<lambda>reps.
     bind_res (lower_bound (bp_quantile p) reps) (\<lambda>lb.
       let g = relative_gain m_ref m_c in
       Inr \<lparr> gn_gain = g, gn_lower_bound = lb, gn_mae_ref = m_ref, gn_mae_cand = m_c,
             gn_beats = (bp_min_gain p \<le> g \<and> bp_threshold p < lb) \<rparr>)))))"

section \<open>The decision\<close>

definition scored_on :: "partition \<Rightarrow> string \<Rightarrow> bool" where
  "scored_on part c \<longleftrightarrow> dict_get part c \<noteq> None \<and> length (errors_of part c) = length (errors_of part BASELINE) \<and>
     errors_of part c \<noteq> [] \<and> list_all is_finite (errors_of part c)"

definition usable :: "candidates \<Rightarrow> partition list \<Rightarrow> string list" where
  "usable cands parts = filter (\<lambda>c. list_all (\<lambda>part. scored_on part c) parts) (map fst cands)"

definition network :: "candidates \<Rightarrow> partition list \<Rightarrow> string list" where
  "network cands parts = filter (\<lambda>c. c \<noteq> BASELINE) (usable cands parts)"

definition pooled_parts :: "blend_params \<Rightarrow> partition list \<Rightarrow> partition list" where
  "pooled_parts p partitions = take (nat (bp_pool p)) partitions"

definition gains_over :: "partition list \<Rightarrow> blend_params \<Rightarrow> string \<Rightarrow> string list \<Rightarrow> blend_error + (string \<times> gain) list" where
  "gains_over parts p ref cs = map_res (\<lambda>c. map_sum id (\<lambda>g. (c, g)) (gain_stats parts c ref p)) cs"

text \<open>\<open>max\<close> with the key (gain, minus the position of the candidate).\<close>

fun position :: "string \<Rightarrow> string list \<Rightarrow> nat" where
  "position c [] = 0"
| "position c (d # ds) = (if c = d then 0 else Suc (position c ds))"

definition key_greater :: "string list \<Rightarrow> string \<times> gain \<Rightarrow> string \<times> gain \<Rightarrow> bool" where
  "key_greater order a b =
     (if float_eq (gn_gain (snd a)) (gn_gain (snd b)) then position (fst a) order < position (fst b) order
      else gn_gain (snd b) < gn_gain (snd a))"

fun best_of :: "string list \<Rightarrow> (string \<times> gain) list \<Rightarrow> (string \<times> gain) option" where
  "best_of order [] = None"
| "best_of order (x # xs) = Some (fold (\<lambda>y m. if key_greater order y m then y else m) xs x)"

datatype decision_path = ChallengerWon | IncumbentHeld | NetworkWon | NoneWon bool

record decision =
  de_chosen :: string
  de_weight :: "pyfloat option"
  de_path :: decision_path
  de_previous :: "string option"
  de_incumbent :: "string option"
  de_partitions :: nat
  de_origins :: nat
  de_maes :: "(string \<times> pyfloat) list"
  de_vs_base :: "(string \<times> gain) list"
  de_vs_incumbent :: "(string \<times> gain) list"

definition incumbent_of :: "blend_params \<Rightarrow> string list \<Rightarrow> (string \<times> gain) list \<Rightarrow> string option \<Rightarrow> string option" where
  "incumbent_of p net vs_base previous =
     (case previous of
        None \<Rightarrow> None
      | Some i \<Rightarrow> if i \<in> set net \<and> (case dict_get vs_base i of None \<Rightarrow> False | Some g \<Rightarrow> bp_hold_gain p \<le> gn_gain g) then Some i else None)"

definition choose_blend :: "string list \<Rightarrow> string list \<Rightarrow> (string \<times> gain) list \<Rightarrow> (string \<times> gain) list \<Rightarrow> string option \<Rightarrow> string option \<Rightarrow> string \<times> decision_path" where
  "choose_blend order net vs_base vs_incumbent previous incumbent =
     (case incumbent of
        Some i \<Rightarrow> (case best_of order (filter (gn_beats \<circ> snd) vs_incumbent) of
                    Some c \<Rightarrow> (fst c, ChallengerWon) | None \<Rightarrow> (i, IncumbentHeld))
      | None \<Rightarrow> (case best_of order (filter (gn_beats \<circ> snd) vs_base) of
                    Some c \<Rightarrow> (fst c, NetworkWon)
                  | None \<Rightarrow> (BASELINE, NoneWon (case previous of None \<Rightarrow> False | Some i \<Rightarrow> i \<in> set net))))"

definition decide :: "partition list \<Rightarrow> string option \<Rightarrow> blend_params \<Rightarrow> candidates \<Rightarrow> blend_error + decision" where
  "decide partitions previous p cands =
     bind_res (check_params p) (\<lambda>p.
     let parts = pooled_parts p partitions; order = map fst cands; net = network cands parts in
     if parts = [] then Inl BlendValueError
     else if \<not> list_all (\<lambda>part. dict_get part BASELINE \<noteq> None) parts then Inl BlendValueError
     else if BASELINE \<notin> set (usable cands parts) then Inl BlendValueError
     else bind_res (gains_over parts p BASELINE net) (\<lambda>vs_base.
       let incumbent = incumbent_of p net vs_base previous in
       bind_res (case incumbent of None \<Rightarrow> Inr [] | Some i \<Rightarrow> gains_over parts p i (filter (\<lambda>c. c \<noteq> i) net)) (\<lambda>vs_incumbent.
       bind_res (map_res (\<lambda>c. map_sum id (Pair c) (pooled_mae parts c None)) (usable cands parts)) (\<lambda>maes.
         case choose_blend order net vs_base vs_incumbent previous incumbent of (chosen, path) \<Rightarrow>
           Inr \<lparr> de_chosen = chosen, de_weight = (case dict_get (rev cands) chosen of None \<Rightarrow> None | Some w \<Rightarrow> w), de_path = path,
                 de_previous = previous, de_incumbent = incumbent, de_partitions = length parts,
                 de_origins = sum_list (map (\<lambda>part. length (errors_of part BASELINE)) parts), de_maes = maes,
                 de_vs_base = vs_base, de_vs_incumbent = vs_incumbent \<rparr>))))"

section \<open>From one training to the next\<close>

text \<open>What \<open>model.evaluate\<close> returns under a weight, as far as the selection reads it.\<close>

record blend_evaluation =
  ev_served :: bool
  ev_mae :: "pyfloat option"
  ev_errors :: "pyfloat list"

record stability =
  sb_decision :: decision
  sb_errors :: partition
  sb_history :: "partition list"

record blend_record =
  br_chosen :: string
  br_weight :: "pyfloat option"
  br_mae :: "pyfloat option"
  br_rows :: "(string \<times> pyfloat option \<times> blend_evaluation) list"
  br_stability :: "stability option"

definition scored_rows :: "(string \<times> pyfloat option \<times> blend_evaluation) list \<Rightarrow> partition" where
  "scored_rows rows =
     fold (\<lambda>(name, w, ev) d. if ev_served ev \<and> (case ev_mae ev of None \<Rightarrow> False | Some m \<Rightarrow> is_finite m) then dict_set name (ev_errors ev) d else d)
       rows []"

definition skipped :: "(string \<times> pyfloat option \<times> blend_evaluation) list \<Rightarrow> blend_record" where
  "skipped rows = \<lparr> br_chosen = ''deployed_ramp'', br_weight = None, br_mae = None, br_rows = rows, br_stability = None \<rparr>"

text \<open>The result is the weight left on the model and the record. An exception leaves the last weight that was tried.\<close>

definition select_blend_weight ::
  "bool \<Rightarrow> (pyfloat option \<Rightarrow> blend_evaluation) \<Rightarrow> candidates \<Rightarrow> string option \<Rightarrow> partition list \<Rightarrow> blend_params \<Rightarrow>
     blend_error + pyfloat option \<times> blend_record" where
  "select_blend_weight has_history evaluate cands previous history p =
     (if \<not> has_history then Inr (None, skipped [])
      else let rows = map (\<lambda>(name, w). (name, w, evaluate w)) cands; current = scored_rows rows in
      if dict_get current BASELINE = None then Inr (None, skipped rows)
      else bind_res (check_params p) (\<lambda>p.
        let pooled = take (nat (bp_pool p - 1)) history in
        bind_res (decide (current # pooled) previous p cands) (\<lambda>de.
          Inr (de_weight de, \<lparr> br_chosen = de_chosen de, br_weight = de_weight de,
            br_mae = (case List.find (\<lambda>(name, _). name = de_chosen de) rows of None \<Rightarrow> None | Some (_, _, ev) \<Rightarrow> ev_mae ev),
            br_rows = rows, br_stability = Some \<lparr> sb_decision = de, sb_errors = current, sb_history = pooled \<rparr> \<rparr>))))"

text \<open>A record of this rule; any other sidecar gives no previous choice and no history.\<close>

definition history_from_sidecar :: "blend_record option \<Rightarrow> blend_params \<Rightarrow> blend_error + string option \<times> partition list" where
  "history_from_sidecar meta p =
     (case meta of
        None \<Rightarrow> Inr (None, [])
      | Some rec \<Rightarrow> (case br_stability rec of
          None \<Rightarrow> Inr (None, [])
        | Some st \<Rightarrow> bind_res (check_params p) (\<lambda>p.
            Inr (Some (br_chosen rec), take (nat (bp_pool p - 1)) (sb_errors st # sb_history st)))))"

section \<open>Resamples\<close>

text \<open>The first output for the seed 0, a published test vector of the generator.\<close>

lemma splitmix_reference: "fst (next_rng (new_rng 0)) = 0xE220A8397B1DCDAF"
  by (simp add: next_rng_def new_rng_def Let_def)

lemma below_less: "0 < n \<Longrightarrow> fst (below n g) < n"
  by (simp add: below_def split: prod.splits)

lemma blocks_props:
  assumes "L \<le> K" and "0 < L"
  shows "length (fst (blocks K L m g)) = m * L \<and> (\<forall>i \<in> set (fst (blocks K L m g)). i < K) \<and>
    (\<forall>j < m * L. fst (blocks K L m g) ! j = fst (blocks K L m g) ! (j - j mod L) + j mod L)"
proof (induction m arbitrary: g)
  case (Suc m)
  obtain s g1 where s: "below (K - L + 1) g = (s, g1)" by fastforce
  obtain xs g2 where xs: "blocks K L m g1 = (xs, g2)" by fastforce
  have "s < K - L + 1" using below_less [of "K - L + 1" g] s by simp
  then have sL: "s + L \<le> K" using assms(1) by linarith
  have IH: "length xs = m * L" "\<forall>i \<in> set xs. i < K" "\<forall>j < m * L. xs ! j = xs ! (j - j mod L) + j mod L"
    using Suc.IH [of g1] unfolding xs fst_conv by blast+
  have "([s..<s + L] @ xs) ! j = ([s..<s + L] @ xs) ! (j - j mod L) + j mod L" if j: "j < Suc m * L" for j
  proof (cases "j < L")
    case False
    then have "1 \<le> j div L" using assms(2) by (simp add: div_greater_zero_iff Suc_le_eq)
    then have "L * 1 \<le> L * (j div L)" by (rule mult_le_mono2)
    then have "L \<le> j - j mod L" unfolding minus_mod_eq_mult_div by simp
    moreover have "(j - L) mod L = j mod L" using False by (simp add: le_mod_geq)
    moreover have "xs ! (j - L) = xs ! (j - L - (j - L) mod L) + (j - L) mod L" using IH(3) j False by auto
    ultimately show ?thesis using False by (simp add: nth_append add.commute)
  qed (use assms(2) in \<open>simp add: nth_append\<close>)
  moreover have eq: "fst (blocks K L (Suc m) g) = [s..<s + L] @ xs" using s xs by simp
  moreover have "\<forall>i \<in> set ([s..<s + L] @ xs). i < K" using IH(2) sL by auto
  moreover have "length ([s..<s + L] @ xs) = Suc m * L" using IH(1) by simp
  ultimately show ?case unfolding eq by blast
qed simp

text \<open>A resample is made of whole blocks. A moving-block resample of a partition has exactly as many indices as the partition has
  origins, each of them in range, and every index lies inside its block of contiguous origins, which has the same start
  for all its positions.\<close>

theorem resample_is_made_of_blocks:
  assumes "0 < K" and "0 < L"
  shows "length (fst (block_indices K L g)) = K \<and> (\<forall>i \<in> set (fst (block_indices K L g)). i < K) \<and>
    (\<forall>j < K. fst (block_indices K L g) ! j = fst (block_indices K L g) ! (j - j mod min L K) + j mod min L K)"
proof -
  let ?L = "min L K" and ?m = "nat (cdiv (int K) (int (min L K)))"
  have L: "?L \<le> K" "0 < ?L" using assms by auto
  have "int K \<le> cdiv (int K) (int ?L) * int ?L" using cdiv_lower L(2) by auto
  then have "K \<le> ?m * ?L" using assms(1) L(2) by (smt (verit) int_nat_eq of_nat_mult of_nat_le_iff zero_less_mult_iff of_nat_0_le_iff mult_nonpos_nonneg)
  note b = blocks_props [OF L, of ?m g] and m = this
  have idx: "fst (block_indices K L g) = take K (fst (blocks K ?L ?m g))" by (simp add: block_indices_def Let_def split: prod.splits)
  have "fst (block_indices K L g) ! j = fst (block_indices K L g) ! (j - j mod ?L) + j mod ?L" if "j < K" for j
  proof -
    have "j < ?m * ?L" using that m by (rule less_le_trans)
    then have "fst (blocks K ?L ?m g) ! j = fst (blocks K ?L ?m g) ! (j - j mod ?L) + j mod ?L" using b by blast
    moreover have "j - j mod ?L < K" using that by simp
    ultimately show ?thesis unfolding idx using that by (simp only: nth_take)
  qed
  moreover have "length (fst (block_indices K L g)) = K" using b m unfolding idx by (simp only: length_take)
  moreover have "\<forall>i \<in> set (fst (block_indices K L g)). i < K" using b unfolding idx by (meson in_set_takeD)
  ultimately show ?thesis by blast
qed

theorem resample_is_made_of_blocks_witness: "length (fst (block_indices 5 2 (new_rng 7))) = 5"
  using resample_is_made_of_blocks [of 5 2 "new_rng 7"] by simp

section \<open>The lower bound\<close>

lemma mset_put_float [simp]: "mset (put_float x ys) = add_mset x (mset ys)"
  by (induction ys) auto

lemma mset_sort_floats [simp]: "mset (sort_floats xs) = mset xs"
  by (induction xs) (auto simp: sort_floats_def)

lemma sorted_put_float: "sorted_wrt (\<le>) ys \<Longrightarrow> NaN \<notin> set (x # ys) \<Longrightarrow> sorted_wrt (\<le>) (put_float x ys)"
proof (induction ys)
  case (Cons y ys)
  have set: "set (put_float x ys) = insert x (set ys)" using mset_put_float by (metis set_mset_add_mset_insert set_mset_mset)
  show ?case
  proof (cases "y < x")
    case True
    then show ?thesis using Cons set by (auto simp: float_less_le)
  next
    case False
    then have "x \<le> y" using Cons.prems(2) float_not_le [of x y] by auto
    then show ?thesis using Cons.prems False by (auto intro: float_le_trans)
  qed
qed simp

lemma sorted_sort_floats: "NaN \<notin> set xs \<Longrightarrow> sorted_wrt (\<le>) (sort_floats xs)"
proof (induction xs)
  case (Cons x xs)
  have "set (sort_floats xs) = set xs" using mset_sort_floats by (metis set_mset_mset)
  then show ?case using Cons sorted_put_float [of "sort_floats xs" x] by (simp add: sort_floats_def)
qed (simp add: sort_floats_def)

lemma round_half_even_err: "\<bar>of_int (round_half_even x) - x\<bar> \<le> 1 / 2"
proof -
  have "of_int \<lfloor>x\<rfloor> \<le> x" "x < of_int \<lfloor>x\<rfloor> + 1" by linarith+
  then show ?thesis unfolding round_half_even_def Let_def abs_le_iff by (simp only: of_int_add of_int_1 split: if_split) linarith
qed

lemma rnd_err: "x \<noteq> 0 \<Longrightarrow> \<bar>rnd x - x\<bar> \<le> 2 powi ulp_exp x / 2"
proof -
  assume "x \<noteq> 0"
  let ?u = "2 powi ulp_exp x :: rat"
  have "rnd x - x = (of_int (round_half_even (x / ?u)) - x / ?u) * ?u" using \<open>x \<noteq> 0\<close> by (simp add: rnd_def left_diff_distrib)
  also have "\<bar>\<dots>\<bar> \<le> 1 / 2 * ?u" unfolding abs_mult using round_half_even_err by (intro mult_mono) auto
  finally show ?thesis by simp
qed

text \<open>A float below one is at least \<open>2^-53\<close> below it.\<close>

lemma float_below_one:
  assumes "0 < q" and "q < 1" and "rnd q = q"
  shows "q \<le> 1 - 1 / 2 ^ 53"
proof (cases "q < 1 / 2")
  case False
  have "(2::rat) powi (-1) < 2 powi (ilog2 q + 1)" using ilog2_bounds(2) [OF assms(1)] False by (simp add: power_int_minus)
  then have "- 2 < ilog2 q" using powi_less_imp_less by fastforce
  moreover have "(2::rat) powi ilog2 q < 2 powi 0" using ilog2_bounds(1) [OF assms(1)] assms(2) by simp
  then have "ilog2 q < 0" using powi_less_imp_less by fastforce
  ultimately have "ulp_exp q = - 53" using assms(1) by (simp add: ulp_exp_def)
  then have "rnd q = of_int (round_half_even (q * 2 ^ 53)) / 2 ^ 53" using assms(1) by (simp add: rnd_def power_int_minus field_simps)
  then obtain k :: int where k: "q = of_int k / 2 ^ 53" unfolding assms(3) by blast
  then have "(of_int k :: rat) < of_int (2 ^ 53)" using assms(2) by simp
  then have "k \<le> 2 ^ 53 - 1" unfolding of_int_less_iff by simp
  then have "(of_int k :: rat) \<le> of_int (2 ^ 53 - 1)" by (simp only: of_int_le_iff)
  then show ?thesis unfolding k by (simp add: field_simps)
qed (simp add: order.trans [of _ "1 / 2"])

lemma rnd_scaled_less:
  assumes "0 < q" and "q < 1" and "rnd q = q" and "0 < n"
  shows "rnd (q * of_int n) < of_int n"
proof -
  let ?x = "q * of_int n :: rat"
  have x: "0 < ?x" using assms by simp
  have "q * of_int n \<le> (1 - 1 / 2 ^ 53) * of_int n" using float_below_one [OF assms(1-3)] assms(4) by (intro mult_right_mono) auto
  then have gap: "?x + of_int n / 2 ^ 53 \<le> of_int n" by (simp add: left_diff_distrib)
  have "2 powi ulp_exp ?x / 2 < (of_int n :: rat) / 2 ^ 53"
  proof (cases "ilog2 ?x - 52 \<le> - 1074")
    case True
    then have "2 powi ulp_exp ?x / 2 = (1 / 2 ^ 1075 :: rat)" using x by (simp add: ulp_exp_def power_int_minus field_simps)
    also have "\<dots> < 1 / 2 ^ 53" by simp
    also have "\<dots> \<le> of_int n / 2 ^ 53" using assms(4) by (intro divide_right_mono) auto
    finally show ?thesis .
  next
    case False
    then have "2 powi ulp_exp ?x / 2 = (2 powi ilog2 ?x / 2 ^ 53 :: rat)" using x by (simp add: ulp_exp_def power_int_diff)
    also have "\<dots> \<le> ?x / 2 ^ 53" using ilog2_bounds(1) [OF x] by (intro divide_right_mono) auto
    also have "\<dots> < of_int n / 2 ^ 53" using assms by (intro divide_strict_right_mono) auto
    finally show ?thesis .
  qed
  moreover have "\<bar>rnd ?x - ?x\<bar> \<le> 2 powi ulp_exp ?x / 2" using rnd_err x by (metis less_irrefl)
  ultimately show ?thesis using gap by linarith
qed

lemma quantile_index_bounds:
  assumes "0 < q" and "q < 1" and "rnd q = q" and "0 < n" and "n < 2 ^ 53"
  shows "0 \<le> quantile_index (Fin q) n \<and> quantile_index (Fin q) n < int n"
proof -
  have f: "float_of_int (int n) = Fin (of_int (int n))" unfolding float_of_int_def using assms(5) by (intro round64_of_int) auto
  have "0 \<le> rnd (q * of_int (int n))" using assms(1) by (intro rnd_nonneg) simp
  moreover have "rnd (q * of_int (int n)) < of_int (int n)" using assms by (intro rnd_scaled_less) auto
  ultimately show ?thesis unfolding quantile_index_def f using assms(4)
    by (auto simp: round64_def Let_def floor_less_iff)
qed

lemma sort_floats_nth:
  assumes "NaN \<notin> set xs" and "i < length xs"
  shows "length (filter (\<lambda>v. v < sort_floats xs ! i) xs) \<le> i \<and> i < length (filter (\<lambda>v. v \<le> sort_floats xs ! i) xs)"
proof -
  let ?s = "sort_floats xs" and ?v = "sort_floats xs ! i"
  have len: "length ?s = length xs" using mset_sort_floats [of xs] by (metis size_mset)
  have count: "length (filter P xs) = length (filter P ?s)" for P using mset_sort_floats [of xs] by (metis mset_filter size_mset)
  have split: "?s = take i ?s @ drop i ?s" "?s = take (Suc i) ?s @ drop (Suc i) ?s" by simp_all
  have sorted: "?s ! j \<le> ?s ! k" if "j \<le> k" "k < length xs" for j k
  proof (cases "j = k")
    case True
    have "?s ! k \<in> set ?s" using that(2) len by simp
    also have "set ?s = set xs" using mset_sort_floats [of xs] by (metis set_mset_mset)
    finally show ?thesis using True assms(1) by auto
  next
    case False
    then show ?thesis using sorted_sort_floats [OF assms(1)] that len by (auto simp: sorted_wrt_iff_nth_less)
  qed
  have "\<forall>v \<in> set (drop i ?s). \<not> v < ?v" using sorted len by (auto simp: in_set_conv_nth float_less_le)
  then have "filter (\<lambda>v. v < ?v) (drop i ?s) = []" by (simp add: filter_empty_conv)
  then have "length (filter (\<lambda>v. v < ?v) ?s) \<le> length (take i ?s)"
    by (subst split(1)) (simp only: filter_append append_Nil2 length_filter_le)
  moreover have "\<forall>v \<in> set (take (Suc i) ?s). v \<le> ?v" using sorted len assms(2) by (auto simp: in_set_conv_nth)
  then have "filter (\<lambda>v. v \<le> ?v) (take (Suc i) ?s) = take (Suc i) ?s" by (simp add: filter_id_conv)
  then have "length (take (Suc i) ?s) \<le> length (filter (\<lambda>v. v \<le> ?v) ?s)"
    by (subst (3) split(2)) (simp only: filter_append length_append le_add1)
  ultimately show ?thesis unfolding count using len assms(2) by simp
qed

lemma replicates_length: "replicates parts c r L m g = Inr reps \<Longrightarrow> length reps = m"
proof (induction m arbitrary: g reps)
  case (Suc m)
  then show ?case by (auto simp: bind_res_Inr_iff split: prod.splits)
qed simp

text \<open>Parameters that a training can have: accepted, with a quantile that is a float and less than \<open>2^53\<close> resamples.\<close>

definition params_ok :: "blend_params \<Rightarrow> bool" where
  "params_ok p \<longleftrightarrow> check_params p = Inr p \<and> (case bp_quantile p of Fin q \<Rightarrow> rnd q = q | _ \<Rightarrow> False) \<and> bp_resamples p < 2 ^ 53"

lemma check_params_id: "check_params p = Inr p' \<Longrightarrow> p' = p"
  by (auto simp: check_params_def split: if_splits)

lemma params_ok_index:
  assumes "params_ok p" and "length reps = nat (bp_resamples p)"
  shows "0 \<le> quantile_index (bp_quantile p) (length reps) \<and> quantile_index (bp_quantile p) (length reps) < int (length reps)"
proof -
  obtain q where q: "bp_quantile p = Fin q" "rnd q = q" using assms(1) by (auto simp: params_ok_def split: pyfloat.splits)
  have "Fin 0 < bp_quantile p" "bp_quantile p < Fin 1" "1 \<le> bp_resamples p" "bp_resamples p < 2 ^ 53"
    using assms(1) by (auto simp: params_ok_def check_params_def split: if_splits)
  then show ?thesis using quantile_index_bounds [of q "length reps"] q assms(2) by (simp add: nat_less_iff)
qed

text \<open>C38: the bound a blend is judged by is an order statistic of its bootstrap. Of as many replicates as the parameters ask for, each
  the relative gain on one resample, at most \<open>k\<close> are below the bound and more than \<open>k\<close> are not above it, where \<open>k\<close> is the
  floor of the quantile times their number; and a candidate beats the reference only with the required gain and with this
  bound above the threshold.\<close>

theorem gain_bound_is_an_order_statistic:
  assumes "params_ok p" and "gain_stats parts c r p = Inr s"
  shows "\<exists>reps. replicates parts c r (nat (bp_block p)) (nat (bp_resamples p)) (new_rng (bp_seed p)) = Inr reps \<and>
     length reps = nat (bp_resamples p) \<and>
     (NaN \<notin> set reps \<longrightarrow>
       int (length (filter (\<lambda>v. v < gn_lower_bound s) reps)) \<le> quantile_index (bp_quantile p) (length reps) \<and>
       quantile_index (bp_quantile p) (length reps) < int (length (filter (\<lambda>v. v \<le> gn_lower_bound s) reps))) \<and>
     gn_gain s = relative_gain (gn_mae_ref s) (gn_mae_cand s) \<and>
     (gn_beats s \<longleftrightarrow> bp_min_gain p \<le> gn_gain s \<and> bp_threshold p < gn_lower_bound s)"
proof -
  obtain reps where reps: "replicates parts c r (nat (bp_block p)) (nat (bp_resamples p)) (new_rng (bp_seed p)) = Inr reps"
    and lb: "lower_bound (bp_quantile p) reps = Inr (gn_lower_bound s)"
    and s: "gn_gain s = relative_gain (gn_mae_ref s) (gn_mae_cand s)"
      "gn_beats s \<longleftrightarrow> bp_min_gain p \<le> gn_gain s \<and> bp_threshold p < gn_lower_bound s"
    using assms(2) by (auto simp: gain_stats_def bind_res_Inr_iff Let_def dest!: check_params_id)
  note len = replicates_length [OF reps]
  let ?k = "quantile_index (bp_quantile p) (length reps)"
  note k = params_ok_index [OF assms(1) len]
  have v: "gn_lower_bound s = sort_floats reps ! nat ?k" using lb k by (simp add: lower_bound_def Let_def)
  have "nat ?k < length reps" using k by linarith
  from sort_floats_nth [OF _ this] have "NaN \<notin> set reps \<Longrightarrow>
     length (filter (\<lambda>v. v < gn_lower_bound s) reps) \<le> nat ?k \<and> nat ?k < length (filter (\<lambda>v. v \<le> gn_lower_bound s) reps)"
    unfolding v by blast
  then show ?thesis using reps len s k by (intro exI [of _ reps]) auto
qed

section \<open>The decision\<close>

definition beats :: "partition list \<Rightarrow> blend_params \<Rightarrow> string \<Rightarrow> string \<Rightarrow> bool" where
  "beats parts p c r \<longleftrightarrow> (case gain_stats parts c r p of Inr s \<Rightarrow> gn_beats s | Inl _ \<Rightarrow> False)"

definition gain_of :: "partition list \<Rightarrow> blend_params \<Rightarrow> string \<Rightarrow> string \<Rightarrow> pyfloat" where
  "gain_of parts p c r = (case gain_stats parts c r p of Inr s \<Rightarrow> gn_gain s | Inl _ \<Rightarrow> NaN)"

lemma map_sum_pair_Inr: "map_sum id (\<lambda>g. (c, g)) r = Inr y \<longleftrightarrow> (\<exists>g. r = Inr g \<and> y = (c, g))"
  by (cases r) auto

lemma gains_over_Inr:
  assumes "gains_over parts p ref cs = Inr xs"
  shows "map fst xs = cs \<and> (\<forall>x \<in> set xs. gain_stats parts (fst x) ref p = Inr (snd x))"
proof -
  have "list_all2 (\<lambda>c x. map_sum id (\<lambda>g. (c, g)) (gain_stats parts c ref p) = Inr x) cs xs"
    using assms by (simp add: gains_over_def map_res_Inr_iff)
  then show ?thesis unfolding map_sum_pair_Inr by (induction rule: list_all2_induct) auto
qed

lemma best_of_in:
  "best_of order xs = Some x \<Longrightarrow> x \<in> set xs"
proof (cases xs)
  case (Cons y ys)
  assume "best_of order xs = Some x"
  moreover have "fold (\<lambda>y m. if key_greater order y m then y else m) zs m \<in> insert m (set zs)" for zs m
  proof (induction zs arbitrary: m)
    case (Cons z zs)
    show ?case using Cons.IH [of z] Cons.IH [of m] by (simp only: fold_simps list.set split: if_split) blast
  qed simp
  then have "fold (\<lambda>y m. if key_greater order y m then y else m) ys y \<in> insert y (set ys)" .
  ultimately show ?thesis using Cons by simp
qed simp

lemma best_of_None [simp]: "best_of order xs = None \<longleftrightarrow> xs = []"
  by (cases xs) auto

lemma best_of_max:
  assumes "best_of order xs = Some x" and "\<forall>y \<in> set xs. gn_gain (snd y) \<noteq> NaN"
  shows "\<forall>y \<in> set xs. gn_gain (snd y) \<le> gn_gain (snd x)"
proof -
  let ?f = "\<lambda>y m. if key_greater order y m then y else m" and ?g = "\<lambda>y. gn_gain (snd y)"
  have step: "?g m \<le> ?g (?f y m) \<and> ?g y \<le> ?g (?f y m)" if "?g m \<noteq> NaN" "?g y \<noteq> NaN" for y m
    using that float_linear [of "?g m" "?g y"] by (auto simp: key_greater_def float_eq_def float_less_le)
  have "\<forall>y \<in> insert m (set zs). ?g y \<le> ?g (fold ?f zs m)" if "?g m \<noteq> NaN" "\<forall>y \<in> set zs. ?g y \<noteq> NaN" for zs m
    using that
  proof (induction zs arbitrary: m)
    case (Cons z zs)
    let ?m = "?f z m"
    have "?g ?m \<noteq> NaN" using Cons.prems by auto
    then have IH: "\<forall>y \<in> insert ?m (set zs). ?g y \<le> ?g (fold ?f zs ?m)" using Cons.IH [of ?m] Cons.prems by auto
    have "?g m \<le> ?g ?m \<and> ?g z \<le> ?g ?m" using step [of m z] Cons.prems by auto
    then have "?g m \<le> ?g (fold ?f zs ?m)" "?g z \<le> ?g (fold ?f zs ?m)" using IH float_le_trans by blast+
    then show ?case using IH by (simp only: fold_simps list.set) blast
  qed simp
  then show ?thesis using assms by (cases xs) auto
qed

text \<open>The best of the candidates that beat a reference.\<close>

definition best_beating :: "partition list \<Rightarrow> blend_params \<Rightarrow> string list \<Rightarrow> string \<Rightarrow> string \<Rightarrow> bool" where
  "best_beating parts p cs r c \<longleftrightarrow> c \<in> set cs \<and> beats parts p c r \<and>
     (\<forall>d \<in> set cs. beats parts p d r \<longrightarrow> gain_of parts p d r \<le> gain_of parts p c r)"

lemma float_not_le_NaN: "\<not> x \<le> NaN"
  by (cases x) auto

lemma beats_gain: "gain_stats parts c r p = Inr s \<Longrightarrow> gn_beats s \<Longrightarrow> gn_gain s \<noteq> NaN"
  by (auto simp: gain_stats_def bind_res_Inr_iff Let_def simp del: less_eq_pyfloat.simps) (metis float_not_le_NaN)

lemma best_of_beating:
  assumes "gains_over parts p r cs = Inr xs"
  shows "case best_of order (filter (gn_beats \<circ> snd) xs) of
      Some x \<Rightarrow> best_beating parts p cs r (fst x) | None \<Rightarrow> \<forall>c \<in> set cs. \<not> beats parts p c r"
proof -
  let ?ys = "filter (gn_beats \<circ> snd) xs"
  have xs: "map fst xs = cs" "\<forall>x \<in> set xs. gain_stats parts (fst x) r p = Inr (snd x)" using gains_over_Inr [OF assms] by auto
  have st: "beats parts p (fst x) r = gn_beats (snd x)" "gain_of parts p (fst x) r = gn_gain (snd x)" if "x \<in> set xs" for x
    using xs(2) that by (simp_all add: beats_def gain_of_def)
  have cs: "set cs = fst ` set xs" using xs(1) by (metis set_map)
  show ?thesis
  proof (cases "best_of order ?ys")
    case None
    then have "\<forall>x \<in> set xs. \<not> gn_beats (snd x)" by (simp add: filter_empty_conv)
    then show ?thesis using None st(1) cs by simp
  next
    case (Some x)
    have x: "x \<in> set xs" "gn_beats (snd x)" using best_of_in [OF Some] by auto
    have "\<forall>y \<in> set ?ys. gn_gain (snd y) \<noteq> NaN" using xs(2) beats_gain by auto
    from best_of_max [OF Some this] have "\<forall>y \<in> set xs. gn_beats (snd y) \<longrightarrow> gn_gain (snd y) \<le> gn_gain (snd x)" unfolding set_filter comp_def by blast
    then show ?thesis unfolding Some best_beating_def cs using x st by simp
  qed
qed

lemma incumbent_of_iff:
  assumes "gains_over parts p BASELINE net = Inr xs"
  shows "incumbent_of p net xs previous = Some i \<longleftrightarrow>
    previous = Some i \<and> i \<in> set net \<and> bp_hold_gain p \<le> gain_of parts p i BASELINE"
proof -
  have xs: "map fst xs = net" "\<forall>x \<in> set xs. gain_stats parts (fst x) BASELINE p = Inr (snd x)" using gains_over_Inr [OF assms] by auto
  have "\<exists>g. dict_get xs i = Some g \<and> gain_of parts p i BASELINE = gn_gain g" if "i \<in> set net"
  proof -
    have "dict_get xs i \<noteq> None" using that unfolding xs(1) [symmetric] map_of_eq_None_iff by simp
    then obtain g where "dict_get xs i = Some g" by blast
    moreover from map_of_SomeD [OF this] have "gain_stats parts i BASELINE p = Inr g" using bspec [OF xs(2), of "(i, g)"] by simp
    ultimately show ?thesis by (simp add: gain_of_def)
  qed
  then show ?thesis by (auto simp: incumbent_of_def split: option.splits)
qed

text \<open>C37: a blend with a network share is earned. Without an incumbent the decision is the network candidate with the highest gain among
  those that beat the pattern, and the pattern itself when none does. The previous choice is the incumbent exactly when
  it is still scored and its pooled gain holds; then it is kept, unless another network candidate beats it, and the best
  of those replaces it.\<close>

theorem blend_choice_is_earned:
  assumes "decide partitions previous p cands = Inr d"
  shows "case de_incumbent d of
      Some i \<Rightarrow> previous = Some i \<and> i \<in> set (network cands (pooled_parts p partitions)) \<and>
        bp_hold_gain p \<le> gain_of (pooled_parts p partitions) p i BASELINE \<and>
        (de_chosen d = i \<and> (\<forall>c \<in> set (network cands (pooled_parts p partitions)) - {i}. \<not> beats (pooled_parts p partitions) p c i) \<or>
         best_beating (pooled_parts p partitions) p (filter (\<lambda>c. c \<noteq> i) (network cands (pooled_parts p partitions))) i (de_chosen d))
    | None \<Rightarrow> (\<forall>i \<in> set (network cands (pooled_parts p partitions)).
          previous = Some i \<longrightarrow> \<not> bp_hold_gain p \<le> gain_of (pooled_parts p partitions) p i BASELINE) \<and>
        (de_chosen d = BASELINE \<and> (\<forall>c \<in> set (network cands (pooled_parts p partitions)). \<not> beats (pooled_parts p partitions) p c BASELINE) \<or>
         best_beating (pooled_parts p partitions) p (network cands (pooled_parts p partitions)) BASELINE (de_chosen d))"
proof -
  define parts where "parts = pooled_parts p partitions"
  define net where "net = network cands parts"
  obtain p' where "check_params p = Inr p'" using assms by (auto simp: decide_def bind_res_Inr_iff)
  then have p: "check_params p = Inr p" using check_params_id by simp
  obtain vs_base vs_inc where base: "gains_over parts p BASELINE net = Inr vs_base"
    and inc: "(case incumbent_of p net vs_base previous of None \<Rightarrow> Inr [] | Some i \<Rightarrow> gains_over parts p i (filter (\<lambda>c. c \<noteq> i) net)) = Inr vs_inc"
    and d: "de_incumbent d = incumbent_of p net vs_base previous"
      "fst (choose_blend (map fst cands) net vs_base vs_inc previous (incumbent_of p net vs_base previous)) = de_chosen d"
    using assms unfolding decide_def p bind_res.simps Let_def parts_def [symmetric] net_def [symmetric]
    by (auto simp: bind_res_Inr_iff case_prod_beta)
  note best = best_of_beating [OF base, of "map fst cands"]
  show ?thesis
  proof (cases "de_incumbent d")
    case None
    then have "\<forall>i \<in> set net. previous = Some i \<longrightarrow> \<not> bp_hold_gain p \<le> gain_of parts p i BASELINE"
      using d(1) incumbent_of_iff [OF base, of previous] by simp
    moreover have "de_chosen d = BASELINE \<and> (\<forall>c \<in> set net. \<not> beats parts p c BASELINE) \<or> best_beating parts p net BASELINE (de_chosen d)"
      using d best None by (auto simp: choose_blend_def split: option.splits)
    ultimately show ?thesis using None unfolding net_def parts_def by simp
  next
    case (Some i)
    then have "previous = Some i \<and> i \<in> set net \<and> bp_hold_gain p \<le> gain_of parts p i BASELINE"
      using d(1) incumbent_of_iff [OF base] by simp
    moreover have "gains_over parts p i (filter (\<lambda>c. c \<noteq> i) net) = Inr vs_inc" using inc Some d(1) by simp
    from best_of_beating [OF this, of "map fst cands"]
    have "de_chosen d = i \<and> (\<forall>c \<in> set net - {i}. \<not> beats parts p c i) \<or> best_beating parts p (filter (\<lambda>c. c \<noteq> i) net) i (de_chosen d)"
      using d Some by (auto simp: choose_blend_def split: option.splits)
    ultimately show ?thesis using Some unfolding net_def parts_def by simp
  qed
qed

section \<open>A chain of trainings\<close>

text \<open>Each training reads the sidecar of the one before it.\<close>

fun trainings :: "(pyfloat option \<Rightarrow> blend_evaluation) list \<Rightarrow> candidates \<Rightarrow> blend_params \<Rightarrow> blend_record option \<Rightarrow> blend_error + blend_record list" where
  "trainings [] cands p meta = Inr []"
| "trainings (ev # evs) cands p meta =
     bind_res (history_from_sidecar meta p) (\<lambda>(previous, history).
     bind_res (select_blend_weight True ev cands previous history p) (\<lambda>(w, rec).
     bind_res (trainings evs cands p (Some rec)) (\<lambda>recs. Inr (rec # recs))))"

definition errors_in :: "blend_record \<Rightarrow> partition" where
  "errors_in rec = (case br_stability rec of None \<Rightarrow> [] | Some st \<Rightarrow> sb_errors st)"

definition history_in :: "blend_record \<Rightarrow> partition list" where
  "history_in rec = (case br_stability rec of None \<Rightarrow> [] | Some st \<Rightarrow> sb_history st)"

lemma take_cons_take: "take n (x # take n xs) = take n (x # xs)"
  by (cases n) (auto simp: min_def)

lemma select_history:
  assumes "select_blend_weight True ev cands previous history p = Inr (w, rec)" and "br_stability rec \<noteq> None"
  shows "history_in rec = take (nat (bp_pool p - 1)) history \<and> w = br_weight rec \<and>
    (\<exists>de. decide (errors_in rec # history_in rec) previous p cands = Inr de \<and> br_chosen rec = de_chosen de \<and> br_weight rec = de_weight de)"
  using assms by (auto simp: select_blend_weight_def skipped_def Let_def bind_res_Inr_iff history_in_def errors_in_def
      dest!: check_params_id split: if_splits)

lemma sidecar_history:
  assumes "history_from_sidecar (Some rec) p = Inr (previous, history)" and "br_stability rec \<noteq> None"
  shows "previous = Some (br_chosen rec) \<and> history = take (nat (bp_pool p - 1)) (errors_in rec # history_in rec)"
  using assms by (auto simp: history_from_sidecar_def bind_res_Inr_iff errors_in_def history_in_def dest!: check_params_id)

lemma trainings_history:
  assumes "trainings evs cands p (Some rec) = Inr recs" and "\<forall>r \<in> set (rec # recs). br_stability r \<noteq> None"
    and "history_in rec = take (nat (bp_pool p - 1)) hs"
  shows "\<forall>k < length recs. history_in (recs ! k) = take (nat (bp_pool p - 1)) (rev (map errors_in (rec # take k recs)) @ hs)"
  using assms
proof (induction evs arbitrary: rec recs hs)
  case (Cons ev evs)
  obtain previous history w rec' recs' where step: "history_from_sidecar (Some rec) p = Inr (previous, history)"
    "select_blend_weight True ev cands previous history p = Inr (w, rec')" "trainings evs cands p (Some rec') = Inr recs'"
    and recs: "recs = rec' # recs'"
    using Cons.prems(1) by (auto simp: bind_res_Inr_iff split: prod.splits)
  have h: "history_in rec' = take (nat (bp_pool p - 1)) (errors_in rec # hs)"
    using sidecar_history [OF step(1)] select_history [OF step(2)] Cons.prems(2,3) recs take_cons_take by auto
  then have IH: "\<forall>k < length recs'. history_in (recs' ! k) =
      take (nat (bp_pool p - 1)) (rev (map errors_in (rec' # take k recs')) @ errors_in rec # hs)"
    using Cons.IH [OF step(3) _ h] Cons.prems(2) recs by simp
  show ?case
  proof (intro allI impI)
    fix k assume "k < length recs"
    then show "history_in (recs ! k) = take (nat (bp_pool p - 1)) (rev (map errors_in (rec # take k recs)) @ hs)"
      using h IH recs by (cases k) auto
  qed
qed simp

text \<open>Every training decides on its own evidence and that of the latest trainings before it. In a chain of trainings that were
  all scored, the pool of a training is exactly the current partition and those of the last \<open>pool_partitions - 1\<close> trainings,
  most recent first, whatever the sidecars in between carried.\<close>

theorem evidence_chain_is_the_latest_trainings:
  assumes "trainings evs cands p None = Inr recs" and "\<forall>r \<in> set recs. br_stability r \<noteq> None" and "k < length recs"
  shows "history_in (recs ! k) = take (nat (bp_pool p - 1)) (rev (map errors_in (take k recs)))"
proof (cases evs)
  case (Cons ev es)
  obtain w rec recs' where step: "select_blend_weight True ev cands None [] p = Inr (w, rec)" "trainings es cands p (Some rec) = Inr recs'"
    and recs: "recs = rec # recs'"
    using assms(1) Cons by (auto simp: bind_res_Inr_iff history_from_sidecar_def split: prod.splits)
  have h: "history_in rec = take (nat (bp_pool p - 1)) []" using select_history [OF step(1)] assms(2) recs by simp
  from trainings_history [OF step(2) _ h] show ?thesis using assms(2,3) h recs by (cases k) auto
qed (use assms in simp)

section \<open>Witnesses\<close>

definition demo_params :: blend_params where
  "demo_params = \<lparr> bp_min_gain = Fin 0, bp_quantile = Fin (1 / 2), bp_threshold = Fin (- 1), bp_block = 1,
     bp_resamples = 1, bp_seed = 7, bp_pool = 3, bp_hold_gain = Fin 0 \<rparr>"

definition demo_part :: partition where
  "demo_part = [(''pattern_0.95'', [Fin 0]), (''pattern_only'', [Fin 0])]"

definition demo_cands :: candidates where
  "demo_cands = [(''pattern_0.95'', Some (Fin 0)), (''pattern_only'', Some (Fin 1))]"

lemma demo_params_ok: "params_ok demo_params"
  using rnd_representable [of 1 "- 1"] by (simp add: params_ok_def demo_params_def check_params_def power_int_minus)

lemma demo_index: "quantile_index (Fin (1 / 2)) (Suc 0) = 0"
  using quantile_index_bounds [of "1 / 2" "Suc 0"] rnd_representable [of 1 "- 1"] by (simp add: power_int_minus)

lemmas blend_eval = check_params_def pooled_mae_def fsum_def exact_sum_def errors_of_def relative_gain_def block_indices_def
  cdiv_def below_def lower_bound_def sort_floats_def float_of_int_def new_rng_def case_prod_beta

lemma demo_gain:
  "gain_stats [demo_part] ''pattern_0.95'' ''pattern_only'' demo_params =
     Inr \<lparr> gn_gain = Fin 0, gn_lower_bound = Fin 0, gn_mae_ref = Fin 0, gn_mae_cand = Fin 0, gn_beats = True \<rparr>"
  using demo_index by (simp add: gain_stats_def demo_part_def demo_params_def blend_eval Let_def)

theorem gain_bound_is_an_order_statistic_witness:
  "\<exists>reps. replicates [demo_part] ''pattern_0.95'' ''pattern_only'' 1 1 (new_rng 7) = Inr reps \<and> length reps = 1"
  using gain_bound_is_an_order_statistic [OF demo_params_ok demo_gain] by (auto simp: demo_params_def)

lemma demo_usable: "usable demo_cands [demo_part] = [''pattern_0.95'', ''pattern_only'']"
  by (simp add: usable_def demo_cands_def demo_part_def scored_on_def errors_of_def BASELINE_def)

lemma demo_network: "network demo_cands [demo_part] = [''pattern_0.95'']"
  by (simp add: network_def demo_usable BASELINE_def)

lemma demo_maes: "pooled_mae [demo_part] ''pattern_0.95'' None = Inr (Fin 0)" "pooled_mae [demo_part] ''pattern_only'' None = Inr (Fin 0)"
  by (simp_all add: demo_part_def blend_eval)

lemma demo_decide: "\<exists>d. decide [demo_part] None demo_params demo_cands = Inr d \<and> de_chosen d = ''pattern_0.95'' \<and> de_incumbent d = None"
proof -
  have p: "check_params demo_params = Inr demo_params" using demo_params_ok by (simp add: params_ok_def)
  have parts: "pooled_parts demo_params [demo_part] = [demo_part]" by (simp add: pooled_parts_def demo_params_def)
  have "gains_over [demo_part] demo_params BASELINE [''pattern_0.95''] =
      Inr [(''pattern_0.95'', \<lparr> gn_gain = Fin 0, gn_lower_bound = Fin 0, gn_mae_ref = Fin 0, gn_mae_cand = Fin 0, gn_beats = True \<rparr>)]"
    using demo_gain by (simp add: gains_over_def BASELINE_def)
  moreover have "dict_get demo_part BASELINE \<noteq> None" by (simp add: demo_part_def BASELINE_def)
  moreover have "BASELINE \<in> set (usable demo_cands [demo_part])" by (simp add: demo_usable BASELINE_def)
  ultimately show ?thesis unfolding decide_def p bind_res.simps parts Let_def demo_network
    by (simp add: incumbent_of_def choose_blend_def demo_usable demo_maes case_prod_beta)
qed

theorem blend_choice_is_earned_witness:
  "\<exists>d. decide [demo_part] None demo_params demo_cands = Inr d \<and>
     (de_chosen d = BASELINE \<or> best_beating [demo_part] demo_params [''pattern_0.95''] BASELINE (de_chosen d))"
proof -
  obtain d where d: "decide [demo_part] None demo_params demo_cands = Inr d" "de_incumbent d = None" using demo_decide by blast
  moreover have "pooled_parts demo_params [demo_part] = [demo_part]" by (simp add: pooled_parts_def demo_params_def)
  ultimately show ?thesis using blend_choice_is_earned [OF d(1)] by (auto simp: demo_network)
qed

definition demo_evaluate :: "pyfloat option \<Rightarrow> blend_evaluation" where
  "demo_evaluate w = \<lparr> ev_served = True, ev_mae = Some (Fin 0), ev_errors = [Fin 0] \<rparr>"

lemma demo_scored: "scored_rows (map (\<lambda>(name, w). (name, w, demo_evaluate w)) demo_cands) = demo_part"
  by (simp add: scored_rows_def demo_cands_def demo_evaluate_def demo_part_def)

text \<open>A second training, whose incumbent is held.\<close>

lemma demo_gain_again:
  "gain_stats [demo_part, demo_part] ''pattern_0.95'' ''pattern_only'' demo_params =
     Inr \<lparr> gn_gain = Fin 0, gn_lower_bound = Fin 0, gn_mae_ref = Fin 0, gn_mae_cand = Fin 0, gn_beats = True \<rparr>"
  using demo_index round64_of_int [of 2] by (simp add: gain_stats_def demo_part_def demo_params_def blend_eval Let_def)

lemma demo_decide_again: "\<exists>d. decide [demo_part, demo_part] (Some ''pattern_0.95'') demo_params demo_cands = Inr d"
proof -
  have p: "check_params demo_params = Inr demo_params" using demo_params_ok by (simp add: params_ok_def)
  have parts: "pooled_parts demo_params [demo_part, demo_part] = [demo_part, demo_part]" by (simp add: pooled_parts_def demo_params_def)
  have usable: "usable demo_cands [demo_part, demo_part] = [''pattern_0.95'', ''pattern_only'']" using demo_usable by (simp add: usable_def)
  have network: "network demo_cands [demo_part, demo_part] = [''pattern_0.95'']" by (simp add: network_def usable BASELINE_def)
  have "gains_over [demo_part, demo_part] demo_params BASELINE [''pattern_0.95''] =
      Inr [(''pattern_0.95'', \<lparr> gn_gain = Fin 0, gn_lower_bound = Fin 0, gn_mae_ref = Fin 0, gn_mae_cand = Fin 0, gn_beats = True \<rparr>)]"
    using demo_gain_again by (simp add: gains_over_def BASELINE_def)
  moreover have "gains_over [demo_part, demo_part] demo_params c [] = Inr []" for c by (simp add: gains_over_def)
  moreover have "dict_get demo_part BASELINE \<noteq> None" by (simp add: demo_part_def BASELINE_def)
  moreover have "pooled_mae [demo_part, demo_part] ''pattern_0.95'' None = Inr (Fin 0)" "pooled_mae [demo_part, demo_part] ''pattern_only'' None = Inr (Fin 0)"
    using round64_of_int [of 2] by (simp_all add: demo_part_def blend_eval)
  moreover have "bp_hold_gain demo_params = Fin 0" by (simp add: demo_params_def)
  ultimately show ?thesis unfolding decide_def p bind_res.simps parts Let_def network
    by (simp add: incumbent_of_def choose_blend_def usable BASELINE_def case_prod_beta)
qed

lemma demo_select:
  assumes "decide (demo_part # history) previous demo_params demo_cands = Inr d" and "length history \<le> 2"
  shows "\<exists>rec. select_blend_weight True demo_evaluate demo_cands previous history demo_params = Inr (de_weight d, rec) \<and>
    br_stability rec = Some \<lparr> sb_decision = d, sb_errors = demo_part, sb_history = history \<rparr> \<and> br_chosen rec = de_chosen d"
proof -
  have "check_params demo_params = Inr demo_params" using demo_params_ok by (simp add: params_ok_def)
  moreover have "take (nat (bp_pool demo_params - 1)) history = history" using assms(2) by (simp add: demo_params_def)
  moreover have "dict_get demo_part BASELINE \<noteq> None" by (simp add: demo_part_def BASELINE_def)
  ultimately show ?thesis using assms(1) by (auto simp: select_blend_weight_def Let_def demo_scored)
qed

theorem evidence_chain_is_the_latest_trainings_witness:
  "\<exists>r1 r2. trainings [demo_evaluate, demo_evaluate] demo_cands demo_params None = Inr [r1, r2] \<and> history_in r2 = [demo_part]"
proof -
  have p: "check_params demo_params = Inr demo_params" using demo_params_ok by (simp add: params_ok_def)
  obtain d1 where d1: "decide [demo_part] None demo_params demo_cands = Inr d1" "de_chosen d1 = ''pattern_0.95''" using demo_decide by blast
  obtain d2 where d2: "decide [demo_part, demo_part] (Some ''pattern_0.95'') demo_params demo_cands = Inr d2" using demo_decide_again by blast
  obtain r1 where r1: "select_blend_weight True demo_evaluate demo_cands None [] demo_params = Inr (de_weight d1, r1)"
    "br_stability r1 = Some \<lparr> sb_decision = d1, sb_errors = demo_part, sb_history = [] \<rparr>" "br_chosen r1 = ''pattern_0.95''"
    using demo_select [OF d1(1)] d1(2) by auto
  obtain r2 where r2: "select_blend_weight True demo_evaluate demo_cands (Some ''pattern_0.95'') [demo_part] demo_params = Inr (de_weight d2, r2)"
    "br_stability r2 = Some \<lparr> sb_decision = d2, sb_errors = demo_part, sb_history = [demo_part] \<rparr>"
    using demo_select [OF d2] by auto
  have h: "history_from_sidecar (Some r1) demo_params = Inr (Some ''pattern_0.95'', [demo_part])"
    using r1(2,3) p by (simp add: history_from_sidecar_def demo_params_def)
  have "trainings [demo_evaluate, demo_evaluate] demo_cands demo_params None = Inr [r1, r2]"
    using r1(1) r2(1) h by (simp add: history_from_sidecar_def [of None])
  moreover from evidence_chain_is_the_latest_trainings [OF this, of 1] have "history_in r2 = [demo_part]"
    using r1(2) r2(2) by (simp add: errors_in_def demo_params_def)
  ultimately show ?thesis by blast
qed

end
