(* ===== verification/Accuracy.thy ===== *)
theory Accuracy
  imports Kernels "HOL-Library.Multiset"
begin

text \<open>
  \<^verbatim>\<open>api/accuracy.py\<close>: the accuracy tracker of the older prediction endpoint. Forecasts wait for their target time, matured ones are
  compared with the observation, and error figures over a rolling window travel with what they were measured on. A time
  is a number of microseconds since the epoch (aware datetimes, and naive ones read as UTC); the time an entry is
  recorded at is an argument. A deque with \<open>maxlen\<close> is a list that keeps its last elements.
\<close>

section \<open>State\<close>

definition WINDOW_SIZE :: nat where "WINDOW_SIZE = 144"
definition MIN_TRAFFIC_RPM :: pyfloat where "MIN_TRAFFIC_RPM = Fin 1000"
definition PENDING_SIZE :: nat where "PENDING_SIZE = 512"

type_synonym metric_key = "string \<times> string \<times> string"
type_synonym component_key = "metric_key \<times> string option"
type_synonym entry = "int \<times> pyfloat \<times> pyfloat"

record tracker =
  tk_history :: "(metric_key \<times> entry list) list"
  tk_last :: "(metric_key \<times> int \<times> pyfloat) list"
  tk_components :: "(component_key \<times> entry list) list"
  tk_pending :: "(component_key \<times> (int \<times> pyfloat) list) list"

definition new_tracker :: tracker where
  "new_tracker = \<lparr> tk_history = [], tk_last = [], tk_components = [], tk_pending = [] \<rparr>"

definition deque_of :: "('k \<times> 'a list) list \<Rightarrow> 'k \<Rightarrow> 'a list" where
  "deque_of d k = (case dict_get d k of None \<Rightarrow> [] | Some xs \<Rightarrow> xs)"

definition push :: "nat \<Rightarrow> 'k \<Rightarrow> 'a \<Rightarrow> ('k \<times> 'a list) list \<Rightarrow> ('k \<times> 'a list) list" where
  "push n k x d = dict_set k (last_n n (deque_of d k @ [x])) d"

section \<open>Operations\<close>

definition record_entry :: "int \<Rightarrow> metric_key \<Rightarrow> pyfloat \<Rightarrow> pyfloat \<Rightarrow> tracker \<Rightarrow> tracker" where
  "record_entry now k predicted actual tk = tk\<lparr> tk_history := push WINDOW_SIZE k (now, predicted, actual) (tk_history tk) \<rparr>"

definition record_component :: "int \<Rightarrow> metric_key \<Rightarrow> string \<Rightarrow> pyfloat \<Rightarrow> pyfloat \<Rightarrow> tracker \<Rightarrow> tracker" where
  "record_component now k c predicted actual tk =
     tk\<lparr> tk_components := push WINDOW_SIZE (k, Some c) (now, predicted, actual) (tk_components tk) \<rparr>"

definition store_prediction :: "int \<Rightarrow> metric_key \<Rightarrow> pyfloat \<Rightarrow> tracker \<Rightarrow> tracker" where
  "store_prediction now k predicted tk = tk\<lparr> tk_last := dict_set k (now, predicted) (tk_last tk) \<rparr>"

definition get_last_prediction :: "metric_key \<Rightarrow> tracker \<Rightarrow> pyfloat option" where
  "get_last_prediction k tk = map_option snd (dict_get (tk_last tk) k)"

definition store_forecast :: "component_key \<Rightarrow> int \<Rightarrow> pyfloat \<Rightarrow> tracker \<Rightarrow> tracker" where
  "store_forecast k target predicted tk = tk\<lparr> tk_pending := push PENDING_SIZE k (target, predicted) (tk_pending tk) \<rparr>"

text \<open>\<open>total_seconds\<close> is the quotient, rounded to a float.\<close>

definition total_seconds :: "int \<Rightarrow> pyfloat" where
  "total_seconds us = int_div us 1000000"

fun mature :: "int \<Rightarrow> int \<Rightarrow> (int \<times> pyfloat) list \<Rightarrow> (int \<times> pyfloat) list \<times> (int \<times> pyfloat) list" where
  "mature obs tol [] = ([], [])"
| "mature obs tol ((target, predicted) # rest) =
     (case mature obs tol rest of (matured, keep) \<Rightarrow>
        if total_seconds (obs - target) < Fin 0 then (matured, (target, predicted) # keep)
        else if total_seconds (obs - target) \<le> Fin (of_int tol) then ((target, predicted) # matured, keep)
        else (matured, keep))"

definition take_matured :: "component_key \<Rightarrow> int \<Rightarrow> int \<Rightarrow> tracker \<Rightarrow> pyfloat list \<times> tracker" where
  "take_matured k obs tol tk =
     (if deque_of (tk_pending tk) k = [] then ([], tk)
      else case mature obs tol (deque_of (tk_pending tk) k) of (matured, keep) \<Rightarrow>
        (map snd matured, tk\<lparr> tk_pending := dict_set k (last_n PENDING_SIZE keep) (tk_pending tk) \<rparr>))"

text \<open>\<open>round(x, n)\<close>: the nearest decimal, ties to even, as a float.\<close>

definition round_to :: "nat \<Rightarrow> pyfloat \<Rightarrow> pyfloat" where
  "round_to n x = (case x of Fin a \<Rightarrow> round64 (of_int (round_half_even (a * 10 ^ n)) / 10 ^ n) | _ \<Rightarrow> x)"

record accuracy =
  ac_value :: "pyfloat option"
  ac_scored :: nat
  ac_recorded :: nat
  ac_availability :: "pyfloat option"
  ac_measured :: bool

definition mape_of :: "entry list \<Rightarrow> accuracy" where
  "mape_of entries =
     (let valid = filter (\<lambda>(_, p, a). MIN_TRAFFIC_RPM \<le> a) entries;
          out = \<lparr> ac_value = None, ac_scored = length valid, ac_recorded = length entries,
                  ac_availability = (if entries = [] then None else Some (round_to 4 (int_div (int (length valid)) (int (length entries))))),
                  ac_measured = False \<rparr>;
          denominator = py_sum (map (\<lambda>(_, p, a). a) valid)
      in if valid = [] then out
         else if denominator < round64 (1 / 100) then out
         else out\<lparr> ac_value := Some (round_to 2 (fdiv (py_sum (map (\<lambda>(_, p, a). \<bar>a - p\<bar>) valid)) denominator * Fin 100)), ac_measured := True \<rparr>)"

definition mae_of :: "entry list \<Rightarrow> accuracy" where
  "mae_of entries =
     (let out = \<lparr> ac_value = None, ac_scored = length entries, ac_recorded = length entries,
                  ac_availability = (if entries = [] then None else Some (Fin 1)), ac_measured = False \<rparr>
      in if entries = [] then out
         else out\<lparr> ac_value := Some (round_to 2 (fdiv (py_sum (map (\<lambda>(_, p, a). \<bar>a - p\<bar>) entries)) (float_of_int (int (length entries))))),
                   ac_measured := True \<rparr>)"

definition mape_stats :: "metric_key \<Rightarrow> tracker \<Rightarrow> accuracy" where
  "mape_stats k tk = mape_of (deque_of (tk_history tk) k)"

definition mae_stats :: "metric_key \<Rightarrow> tracker \<Rightarrow> accuracy" where
  "mae_stats k tk = mae_of (deque_of (tk_history tk) k)"

definition component_mape_stats :: "metric_key \<Rightarrow> string \<Rightarrow> tracker \<Rightarrow> accuracy" where
  "component_mape_stats k c tk = mape_of (deque_of (tk_components tk) (k, Some c))"

definition get_mape :: "metric_key \<Rightarrow> tracker \<Rightarrow> pyfloat option" where
  "get_mape k tk = ac_value (mape_stats k tk)"

definition get_mae :: "metric_key \<Rightarrow> tracker \<Rightarrow> pyfloat option" where
  "get_mae k tk = ac_value (mae_stats k tk)"

definition get_component_mape :: "metric_key \<Rightarrow> string \<Rightarrow> tracker \<Rightarrow> pyfloat option" where
  "get_component_mape k c tk = ac_value (component_mape_stats k c tk)"

definition record_and_update :: "int \<Rightarrow> metric_key \<Rightarrow> pyfloat \<Rightarrow> pyfloat \<Rightarrow> tracker \<Rightarrow> (pyfloat option \<times> pyfloat option) \<times> tracker" where
  "record_and_update now k predicted actual tk =
     (let tk = record_entry now k predicted actual tk in ((get_mape k tk, get_mae k tk), tk))"

section \<open>Maturity\<close>

definition due :: "int \<Rightarrow> int \<Rightarrow> int \<Rightarrow> bool" where
  "due obs tol target \<longleftrightarrow> target \<le> obs \<and> obs - target \<le> tol * 1000000"

lemma round64_dyadic:
  assumes "\<bar>m\<bar> < 2 ^ 53"
  shows "round64 (of_int m / 2 ^ 20) = Fin (of_int m / 2 ^ 20)"
proof -
  have r: "rnd (of_int m / 2 ^ 20) = of_int m / 2 ^ 20"
    using rnd_representable [OF assms, of "- 20"] by (simp only: power_int_minus power_int_numeral divide_inverse)
  have "(of_int \<bar>m\<bar> :: rat) < of_int (2 ^ 53)" using assms by (simp only: of_int_less_iff)
  moreover have "\<bar>of_int m / 2 ^ 20 :: rat\<bar> \<le> of_int \<bar>m\<bar>" by (simp add: abs_divide divide_le_eq)
  ultimately have "\<bar>of_int m / 2 ^ 20 :: rat\<bar> < 2 ^ 53" by simp
  moreover have "(2::rat) ^ 53 < float_limit" by (simp add: float_limit_def)
  ultimately have "of_int m / 2 ^ 20 < float_limit" "- float_limit < of_int m / 2 ^ 20" by linarith+
  then show ?thesis unfolding round64_def r Let_def by (simp only: not_le [symmetric] if_False simp_thms)
qed

text \<open>A float keeps whole microseconds apart: rounding does not move a difference across zero or across the tolerance.\<close>

lemma seconds_negative: "total_seconds us < Fin 0 \<longleftrightarrow> us < 0"
proof (cases "us < 0")
  case True
  then have "(of_int us :: rat) / 1000000 \<le> - 1 / 1000000" by (intro divide_right_mono) auto
  also have "\<dots> \<le> of_int (- 1) / 2 ^ 20" by simp
  finally have "round64 (of_int us / 1000000) \<le> round64 (of_int (- 1) / 2 ^ 20)" by (rule round64_mono)
  then have "round64 (of_int us / 1000000) \<le> Fin (- 1 / 2 ^ 20)" using round64_dyadic [of "- 1"] by simp
  then show ?thesis using True by (cases "round64 (of_int us / 1000000)") (auto simp: total_seconds_def int_div_def)
next
  case False
  then have "Fin 0 \<le> total_seconds us" unfolding total_seconds_def int_div_def by (intro round64_nonneg) simp
  then show ?thesis using False by (cases "total_seconds us") auto
qed

lemma seconds_within:
  assumes "0 \<le> tol" and "tol < 2 ^ 32"
  shows "total_seconds us \<le> Fin (of_int tol) \<longleftrightarrow> us \<le> tol * 1000000"
proof (cases "us \<le> tol * 1000000")
  case True
  then have "(of_int us :: rat) \<le> of_int (tol * 1000000)" by (simp only: of_int_le_iff)
  then have "round64 (of_int us / 1000000) \<le> round64 (of_int tol)" by (intro round64_mono) simp
  then show ?thesis using True round64_of_int [of tol] assms by (simp add: total_seconds_def int_div_def)
next
  case False
  then have "(of_int (tol * 1000000 + 1) :: rat) \<le> of_int us" by (simp only: of_int_le_iff)
  then have "(of_int (tol * 2 ^ 20 + 1) :: rat) / 2 ^ 20 \<le> of_int us / 1000000" by (simp add: field_simps)
  then have "round64 (of_int (tol * 2 ^ 20 + 1) / 2 ^ 20) \<le> round64 (of_int us / 1000000)" by (rule round64_mono)
  moreover have "\<bar>tol * 2 ^ 20 + 1\<bar> < 2 ^ 53" using assms by simp
  ultimately have "Fin (of_int (tol * 2 ^ 20 + 1) / 2 ^ 20) \<le> total_seconds us"
    unfolding round64_dyadic [OF \<open>\<bar>tol * 2 ^ 20 + 1\<bar> < 2 ^ 53\<close>] by (simp add: total_seconds_def int_div_def)
  moreover have "\<not> Fin (of_int (tol * 2 ^ 20 + 1) / 2 ^ 20) \<le> Fin (of_int tol)" by (simp add: field_simps)
  ultimately show ?thesis using False float_le_trans by blast
qed

lemma mature_split:
  assumes "0 \<le> tol" and "tol < 2 ^ 32"
  shows "mature obs tol xs = (filter (due obs tol \<circ> fst) xs, filter (\<lambda>x. obs < fst x) xs)"
  by (induction xs) (auto simp: seconds_negative seconds_within [OF assms] due_def)

section \<open>Runs\<close>

text \<open>A run of the tracker with what was stored and what was taken, each forecast with its key, its target and its value.\<close>

type_synonym forecast = "component_key \<times> int \<times> pyfloat"

inductive tracker_run :: "tracker \<Rightarrow> forecast list \<Rightarrow> (forecast \<times> int \<times> int) list \<Rightarrow> bool" where
  start: "tracker_run new_tracker [] []"
| recorded: "tracker_run tk stored taken \<Longrightarrow> tracker_run (record_entry now mk p a tk) stored taken"
| recorded_component: "tracker_run tk stored taken \<Longrightarrow> tracker_run (record_component now mk c p a tk) stored taken"
| predicted: "tracker_run tk stored taken \<Longrightarrow> tracker_run (store_prediction now mk p tk) stored taken"
| stored: "tracker_run tk stored taken \<Longrightarrow> tracker_run (store_forecast k target p tk) (stored @ [(k, target, p)]) taken"
| taken: "tracker_run tk stored taken \<Longrightarrow> take_matured k obs tol tk = (ps, tk') \<Longrightarrow> 0 \<le> tol \<Longrightarrow> tol < 2 ^ 32 \<Longrightarrow>
    tracker_run tk' stored (taken @ map (\<lambda>x. ((k, x), obs, tol)) (filter (due obs tol \<circ> fst) (deque_of (tk_pending tk) k)))"

definition bounded_deques :: "tracker \<Rightarrow> bool" where
  "bounded_deques tk \<longleftrightarrow> (\<forall>k. length (deque_of (tk_history tk) k) \<le> WINDOW_SIZE) \<and>
     (\<forall>k. length (deque_of (tk_components tk) k) \<le> WINDOW_SIZE) \<and> (\<forall>k. length (deque_of (tk_pending tk) k) \<le> PENDING_SIZE)"

definition of_key :: "component_key \<Rightarrow> forecast list \<Rightarrow> (int \<times> pyfloat) multiset" where
  "of_key k fs = mset (map snd (filter (\<lambda>f. fst f = k) fs))"

definition accounted :: "tracker \<Rightarrow> forecast list \<Rightarrow> (forecast \<times> int \<times> int) list \<Rightarrow> bool" where
  "accounted tk stored taken \<longleftrightarrow>
     (\<forall>k. mset (deque_of (tk_pending tk) k) + of_key k (map fst taken) \<subseteq># of_key k stored) \<and>
     (\<forall>((k, target, p), obs, tol) \<in> set taken. due obs tol target)"

lemma deque_of_set: "deque_of (dict_set k xs d) k' = (if k' = k then xs else deque_of d k')"
  by (simp add: deque_of_def dict_get_set)

lemma deque_of_push: "deque_of (push n k x d) k' = (if k' = k then last_n n (deque_of d k @ [x]) else deque_of d k')"
  by (simp add: push_def deque_of_set)

lemma mset_last_n: "mset (last_n n xs) \<subseteq># mset xs"
  by (metis append_take_drop_id last_n_def mset_append mset_subset_eq_add_right subset_mset.order_refl)

lemma length_last_n_le: "0 < n \<Longrightarrow> length (last_n n xs) \<le> n"
  by (simp add: length_last_n)

lemma take_matured_split:
  assumes "take_matured k obs tol tk = (ps, tk')" and "0 \<le> tol" and "tol < 2 ^ 32"
  shows "ps = map snd (filter (due obs tol \<circ> fst) (deque_of (tk_pending tk) k)) \<and>
    tk_history tk' = tk_history tk \<and> tk_components tk' = tk_components tk \<and>
    (\<forall>k'. deque_of (tk_pending tk') k' = (if k' = k then last_n PENDING_SIZE (filter (\<lambda>x. obs < fst x) (deque_of (tk_pending tk) k))
                                     else deque_of (tk_pending tk) k'))"
  using assms(1) unfolding take_matured_def mature_split [OF assms(2,3)]
  by (auto simp: deque_of_set last_n_id split: if_splits)

lemma run_bounded: "tracker_run tk stored taken \<Longrightarrow> bounded_deques tk"
proof (induction rule: tracker_run.induct)
  case (taken tk stored taken k obs tol ps tk')
  then show ?case using take_matured_split [OF taken.hyps(2-4)]
    by (auto simp: bounded_deques_def PENDING_SIZE_def intro!: length_last_n_le)
qed (auto simp: bounded_deques_def new_tracker_def deque_of_def [of "[]"] record_entry_def record_component_def store_prediction_def
  store_forecast_def deque_of_push WINDOW_SIZE_def PENDING_SIZE_def intro!: length_last_n_le)

lemma of_key_append [simp]: "of_key k (xs @ ys) = of_key k xs + of_key k ys"
  by (simp add: of_key_def)

lemma of_key_map [simp]: "of_key k (map (\<lambda>x. (k', x)) xs) = (if k = k' then mset xs else {#})"
  by (simp add: of_key_def filter_map o_def)

lemma disjoint_filters: "(\<And>x. x \<in> set xs \<Longrightarrow> P x \<Longrightarrow> \<not> Q x) \<Longrightarrow> mset (filter P xs) + mset (filter Q xs) \<subseteq># mset xs"
proof -
  assume disj: "\<And>x. x \<in> set xs \<Longrightarrow> P x \<Longrightarrow> \<not> Q x"
  have "filter_mset Q (mset xs) \<subseteq># filter_mset (\<lambda>x. \<not> P x) (mset xs)"
    using disj by (intro filter_mset_mono_strong) auto
  then show ?thesis using multiset_partition [of "mset xs" P] by (metis mset_filter subset_mset.add_left_mono)
qed

lemma mset_account_add:
  assumes "A \<subseteq># B + D" and "B + C \<subseteq># S"
  shows "A + C \<subseteq># S + D"
proof -
  have "A + C \<subseteq># (B + D) + C" using assms(1) by (rule subset_mset.add_right_mono)
  also have "\<dots> = (B + C) + D" by (simp add: ac_simps)
  also have "\<dots> \<subseteq># S + D" using assms(2) by (rule subset_mset.add_right_mono)
  finally show ?thesis .
qed

lemma mset_account_move:
  assumes "A + N \<subseteq># B" and "B + C \<subseteq># S"
  shows "A + (C + N) \<subseteq># S"
proof -
  have "(A + N) + C \<subseteq># B + C" using assms(1) by (rule subset_mset.add_right_mono)
  also note assms(2)
  finally show ?thesis by (simp add: ac_simps)
qed

lemma accounted_key:
  "accounted tk stored taken \<Longrightarrow> mset (deque_of (tk_pending tk) k) + of_key k (map fst taken) \<subseteq># of_key k stored"
  unfolding accounted_def by blast

lemma run_accounted: "tracker_run tk stored taken \<Longrightarrow> accounted tk stored taken"
proof (induction rule: tracker_run.induct)
  case (stored tk stored taken k target p)
  have "mset (deque_of (tk_pending (store_forecast k target p tk)) k') \<subseteq>#
      mset (deque_of (tk_pending tk) k') + of_key k' [(k, target, p)]" for k'
    using mset_last_n [of PENDING_SIZE "deque_of (tk_pending tk) k @ [(target, p)]"]
    by (auto simp: store_forecast_def deque_of_push of_key_def)
  from mset_account_add [OF this accounted_key [OF stored.IH]]
  have "mset (deque_of (tk_pending (store_forecast k target p tk)) k') + of_key k' (map fst taken) \<subseteq>#
      of_key k' (stored @ [(k, target, p)])" for k'
    unfolding of_key_append .
  then show ?case using stored.IH by (simp add: accounted_def)
next
  case (taken tk stored taken k obs tol ps tk')
  let ?xs = "deque_of (tk_pending tk) k" and ?new = "map (\<lambda>x. ((k, x), obs, tol)) (filter (due obs tol \<circ> fst) (deque_of (tk_pending tk) k))"
  note split = take_matured_split [OF taken.hyps(2-4)]
  have pend: "deque_of (tk_pending tk') j = (if j = k then last_n PENDING_SIZE (filter (\<lambda>x. obs < fst x) ?xs) else deque_of (tk_pending tk) j)" for j
    using split by blast
  have new: "map fst ?new = map (\<lambda>x. (k, x)) (filter (due obs tol \<circ> fst) ?xs)" by simp
  have "mset (deque_of (tk_pending tk') k') + of_key k' (map fst ?new) \<subseteq># mset (deque_of (tk_pending tk) k')" for k'
  proof (cases "k' = k")
    case True
    have "mset (filter (\<lambda>x. obs < fst x) ?xs) + mset (filter (due obs tol \<circ> fst) ?xs) \<subseteq># mset ?xs"
      by (rule disjoint_filters) (auto simp: due_def)
    then have "mset (last_n PENDING_SIZE (filter (\<lambda>x. obs < fst x) ?xs)) + mset (filter (due obs tol \<circ> fst) ?xs) \<subseteq># mset ?xs"
      using mset_last_n subset_mset.add_right_mono subset_mset.order_trans by blast
    then show ?thesis unfolding new of_key_map pend using True by simp
  next
    case False
    then show ?thesis unfolding new of_key_map pend by simp
  qed
  from mset_account_move [OF this accounted_key [OF taken.IH]]
  have "mset (deque_of (tk_pending tk') k') + of_key k' (map fst (taken @ ?new)) \<subseteq># of_key k' stored" for k'
    unfolding map_append of_key_append .
  moreover have "\<forall>((k, target, p), obs, tol) \<in> set ?new. due obs tol target" by auto
  moreover have "\<forall>((k, target, p), obs, tol) \<in> set taken. due obs tol target" using taken.IH by (simp add: accounted_def)
  ultimately show ?case unfolding accounted_def set_append by blast
qed (auto simp: accounted_def new_tracker_def deque_of_def [of "[]"] of_key_def record_entry_def record_component_def store_prediction_def)

section \<open>Properties\<close>


text \<open>An unmeasured error has no value. Every error figure counts what it was scored on; it has a value exactly when it was
  measured, which takes at least one entry of the window with enough traffic.\<close>

theorem accuracy_value_is_measured:
  "(ac_value (mape_stats k tk) \<noteq> None \<longleftrightarrow> ac_measured (mape_stats k tk)) \<and>
   (ac_value (mae_stats k tk) \<noteq> None \<longleftrightarrow> deque_of (tk_history tk) k \<noteq> []) \<and>
   ac_scored (mape_stats k tk) = length (filter (\<lambda>(t, p, a). MIN_TRAFFIC_RPM \<le> a) (deque_of (tk_history tk) k)) \<and>
   ac_recorded (mape_stats k tk) = length (deque_of (tk_history tk) k) \<and>
   (ac_scored (mape_stats k tk) = 0 \<longrightarrow> get_mape k tk = None)"
  by (auto simp: mape_stats_def mae_stats_def mape_of_def mae_of_def Let_def get_mape_def)

definition demo_key :: component_key where "demo_key = ((''web'', ''prod'', ''requests''), None)"

lemma demo_run:
  "\<exists>tk. tracker_run tk [(demo_key, 600, Fin 5)] [((demo_key, 600, Fin 5), 900, 300)]"
proof -
  let ?tk = "store_forecast demo_key 600 (Fin 5) new_tracker"
  have pend: "deque_of (tk_pending ?tk) demo_key = [(600, Fin 5)]"
    by (simp add: store_forecast_def deque_of_push new_tracker_def deque_of_def [of "[]"] last_n_def PENDING_SIZE_def)
  obtain ps tk' where t: "take_matured demo_key 900 300 ?tk = (ps, tk')" by fastforce
  have "tracker_run ?tk ([] @ [(demo_key, 600, Fin 5)]) []" by (intro tracker_run.stored tracker_run.start)
  from tracker_run.taken [OF this t] show ?thesis unfolding pend by (auto simp: due_def)
qed


theorem accuracy_value_is_measured_witness: "get_mape (''web'', ''prod'', ''requests'') new_tracker = None"
  using accuracy_value_is_measured [of "(''web'', ''prod'', ''requests'')" new_tracker]
  by (simp add: new_tracker_def deque_of_def)

end
