(* ===== verification/Rate_History.thy ===== *)
theory Rate_History
  imports History Auth
begin

text \<open>
  \<^verbatim>\<open>data/history.py\<close>: the strict request-rate history of the older prediction service, one range query over a window that the
  server chooses, with the answer checked sample by sample and converted to requests per minute. The transport, \<open>json.loads\<close>
  and \<open>float(text)\<close> are arguments, the wall clock is whole seconds, and the calendar text of a sample is left out. The checks
  of one sample's time and rate are those of the reader in \<open>History\<close>.
\<close>

definition STEP_SECONDS :: int where "STEP_SECONDS = 600"
definition HISTORY_HOURS :: int where "HISTORY_HOURS = 168"
definition DEADLINE_S :: pyfloat where "DEADLINE_S = Fin 20"
definition MAX_RESPONSE_BYTES :: int where "MAX_RESPONSE_BYTES = 8 * 2 ^ 20"

definition grid_end :: "int \<Rightarrow> int" where
  "grid_end epoch = epoch div STEP_SECONDS * STEP_SECONDS"

definition rpm_sample :: "(string \<Rightarrow> pyfloat option) \<Rightarrow> int \<Rightarrow> int \<Rightarrow> int option \<Rightarrow> json \<Rightarrow> history_error + int \<times> pyfloat" where
  "rpm_sample float_text lo hi last_ts sample =
     (case sample of
        JList [t, raw] \<Rightarrow>
          bind_res (sample_time t) (\<lambda>ts.
            if ts mod STEP_SECONDS \<noteq> 0 then Inl HistoryRefused
            else if \<not> (lo \<le> ts \<and> ts \<le> hi) then Inl HistoryRefused
            else if (case last_ts of None \<Rightarrow> False | Some l \<Rightarrow> ts \<le> l) then Inl HistoryRefused
            else bind_res (sample_rate float_text raw) (\<lambda>rps.
              let rpm = rps * Fin 60 in
              if \<not> is_finite rpm then Inl HistoryRefused else Inr (ts, rpm)))
      | _ \<Rightarrow> Inl HistoryRefused)"

fun rpm_samples :: "(string \<Rightarrow> pyfloat option) \<Rightarrow> int \<Rightarrow> int \<Rightarrow> int option \<Rightarrow> json list \<Rightarrow> history_error + (int \<times> pyfloat) list" where
  "rpm_samples float_text lo hi last_ts [] = Inr []"
| "rpm_samples float_text lo hi last_ts (s # ss) =
     bind_res (rpm_sample float_text lo hi last_ts s) (\<lambda>p.
       bind_res (rpm_samples float_text lo hi (Some (fst p)) ss) (\<lambda>ps. Inr (p # ps)))"

definition parse_series :: "(string \<Rightarrow> pyfloat option) \<Rightarrow> json \<Rightarrow> int \<Rightarrow> int \<Rightarrow> history_error + (int \<times> pyfloat) list" where
  "parse_series float_text doc lo hi =
     (case doc of
        JObj _ \<Rightarrow>
          if \<not> json_eq (get_obj doc ''status'') (JStr ''success'') then Inl HistoryRefused
          else if truthy (get_obj doc ''isPartial'') then Inl HistoryRefused
          else (case get_obj doc ''data'' of
            JObj data \<Rightarrow>
              if \<not> json_eq (get_obj (JObj data) ''resultType'') (JStr ''matrix'') then Inl HistoryRefused
              else (case get_obj (JObj data) ''result'' of
                JList [JObj r] \<Rightarrow> (case get_obj (JObj r) ''values'' of
                  JList samples \<Rightarrow> rpm_samples float_text lo hi None samples
                | _ \<Rightarrow> Inl HistoryRefused)
              | _ \<Rightarrow> Inl HistoryRefused)
          | _ \<Rightarrow> Inl HistoryRefused)
      | _ \<Rightarrow> Inl HistoryRefused)"

definition query_history ::
  "(range_query \<Rightarrow> fetch_result) \<Rightarrow> (string \<Rightarrow> json option) \<Rightarrow> (string \<Rightarrow> pyfloat option) \<Rightarrow> string \<Rightarrow> int \<Rightarrow> int \<Rightarrow>
     history_error + (int \<times> pyfloat) list" where
  "query_history fetch loads float_text query epoch hours =
     (if strip query = [] then Inl HistoryRefused
      else let hi = grid_end epoch; lo = hi - hours * 3600 in
      case fetch \<lparr> rq_query = query, rq_start = lo, rq_end = hi, rq_step = STEP_SECONDS \<rparr> of
        FetchTooLarge \<Rightarrow> Inl HistoryRefused
      | FetchFailed \<Rightarrow> Inl HistoryUnavailable
      | FetchAnswer status body \<Rightarrow>
          if 500 \<le> status \<or> status \<in> {401, 403, 429} then Inl HistoryUnavailable
          else if status \<noteq> 200 then Inl HistoryRefused
          else (case loads body of None \<Rightarrow> Inl HistoryRefused | Some doc \<Rightarrow> parse_series float_text doc lo hi))"

section \<open>Accepted histories\<close>

definition good_sample :: "int \<Rightarrow> int \<Rightarrow> int \<times> pyfloat \<Rightarrow> bool" where
  "good_sample lo hi p \<longleftrightarrow> lo \<le> fst p \<and> fst p \<le> hi \<and> fst p mod STEP_SECONDS = 0 \<and> is_finite (snd p) \<and> Fin 0 \<le> snd p"

lemma sample_rate_good: "sample_rate ft raw = Inr rps \<Longrightarrow> is_finite rps \<and> Fin 0 \<le> rps"
  by (cases rps) (auto simp: sample_rate_def bind_res_Inr_iff zero_float_Fin not_less split: if_splits)

lemma rpm_sample_good:
  assumes "rpm_sample ft lo hi l s = Inr p"
  shows "good_sample lo hi p \<and> (\<forall>t. l = Some t \<longrightarrow> t < fst p)"
proof -
  obtain t raw ts rps where s: "s = JList [t, raw]" and r: "sample_rate ft raw = Inr rps" "p = (ts, rps * Fin 60)" "is_finite (rps * Fin 60)"
    and ts: "ts mod STEP_SECONDS = 0" "lo \<le> ts" "ts \<le> hi" "\<not> (case l of None \<Rightarrow> False | Some l \<Rightarrow> ts \<le> l)"
    using assms by (auto simp: rpm_sample_def bind_res_Inr_iff Let_def split: json.splits list.splits if_splits)
  have "Fin 0 \<le> rps * Fin 60" using float_mult_nonneg [of rps "Fin 60"] sample_rate_good [OF r(1)] by simp
  then show ?thesis using r ts by (auto simp: good_sample_def split: option.splits)
qed

lemma rpm_samples_good:
  "rpm_samples ft lo hi l ss = Inr ps \<Longrightarrow>
     (\<forall>p \<in> set ps. good_sample lo hi p) \<and> sorted_wrt (<) (map fst ps) \<and> (\<forall>t. l = Some t \<longrightarrow> (\<forall>p \<in> set ps. t < fst p)) \<and> length ps = length ss"
proof (induction ss arbitrary: l ps)
  case (Cons s ss)
  obtain p qs where p: "rpm_sample ft lo hi l s = Inr p" and qs: "rpm_samples ft lo hi (Some (fst p)) ss = Inr qs" and ps: "ps = p # qs"
    using Cons.prems by (auto simp: bind_res_Inr_iff)
  show ?case using rpm_sample_good [OF p] Cons.IH [OF qs] unfolding ps by auto
qed simp

lemma parse_series_samples: "parse_series ft doc lo hi = Inr ps \<Longrightarrow> \<exists>ss. rpm_samples ft lo hi None ss = Inr ps"
  by (auto simp: parse_series_def simp del: get_obj.simps split: json.splits list.splits if_splits)

text \<open>An accepted history is one strict series. Its window ends at the last grid point not after now and has the requested
  length; the samples are in strictly increasing order, on the grid and inside the window, and every value is a finite,
  non-negative number of requests per minute.\<close>

theorem accepted_history_is_strict:
  assumes "query_history fetch loads ft query epoch hours = Inr ps"
  shows "grid_end epoch \<le> epoch \<and> epoch < grid_end epoch + 600 \<and> sorted_wrt (<) (map fst ps) \<and>
    (\<forall>p \<in> set ps. grid_end epoch - hours * 3600 \<le> fst p \<and> fst p \<le> grid_end epoch \<and> fst p mod 600 = 0 \<and>
       (\<exists>x. snd p = Fin x \<and> 0 \<le> x))"
proof -
  obtain doc where "parse_series ft doc (grid_end epoch - hours * 3600) (grid_end epoch) = Inr ps"
    using assms by (auto simp: query_history_def Let_def split: if_splits fetch_result.splits option.splits)
  then obtain ss where "rpm_samples ft (grid_end epoch - hours * 3600) (grid_end epoch) None ss = Inr ps"
    using parse_series_samples by blast
  from rpm_samples_good [OF this] have "sorted_wrt (<) (map fst ps)" "\<forall>p \<in> set ps. good_sample (grid_end epoch - hours * 3600) (grid_end epoch) p"
    by auto
  moreover have "grid_end epoch \<le> epoch" "epoch < grid_end epoch + 600" by (simp_all add: grid_end_def STEP_SECONDS_def)
  ultimately show ?thesis by (auto simp: good_sample_def STEP_SECONDS_def is_finite_iff)
qed

definition demo_doc :: json where
  "demo_doc = JObj [(''status'', JStr ''success''), (''data'', JObj [(''resultType'', JStr ''matrix''),
     (''result'', JList [JObj [(''values'', JList [JList [JInt 600, JInt 0], JList [JInt 1200, JInt 0]])]])])]"

lemma demo_query:
  "query_history (\<lambda>q. FetchAnswer 200 ''doc'') (\<lambda>s. Some demo_doc) (\<lambda>s. None) ''rate'' 1500 1 = Inr [(600, Fin 0), (1200, Fin 0)]"
  using round64_of_int [of 600] round64_of_int [of 1200]
  by (simp add: query_history_def parse_series_def demo_doc_def json_eq_def rpm_sample_def sample_time_def sample_rate_def
      grid_end_def STEP_SECONDS_def float_of_int_def zero_float_Fin strip_def py_space_def Let_def)

theorem accepted_history_is_strict_witness: "grid_end 1500 \<le> 1500 \<and> (1500 :: int) < grid_end 1500 + 600"
  using accepted_history_is_strict [OF demo_query] by simp

end
