(* ===== verification/Spec2Isabelle.thy ===== *)
theory Spec2Isabelle
  imports Clock Contracts_Settings Contracts_Window Contracts_Response Maturation Calibration Trust_Ledger Trust_Policy
    Store Journal Kernels History Timestamps Identity Wire Artifacts Worker Registry Admission Metrics Evidence
    Service_State Service Service_Effects Service_Props Service_Demo Service_Guarantees Auth Statistical_App Gapfill
    Blend Accuracy Rate_History
begin

text \<open>
  A verification library for the forecasting core of the predictive autoscaler (\<^verbatim>\<open>src/ml-engine\<close>).

  The program. An autoscaler object asks the engine for the maximum request rate of the next window. The engine binds
  the request to the live object (settings, signal, lead), reads the history of the metric, builds point forecasts with
  statistical kernels, adds a calibrated upper bound, decides which forecaster may be trusted, commits the whole answer
  to a journal before returning it, and later matures the issued window into a terminal outcome from first receipts of
  the metric. Outcomes feed a rolling calibration and a trust ledger; gates over the ledger decide whether a forecaster
  may act. Fits run in bounded worker processes and are promoted as verified artifacts.

  What the sources use of Python.
  \<^item> \<open>Py_Prelude\<close>, \<open>Py_Float\<close>, \<open>Py_Json\<close>: results (\<open>'e + 'a\<close>, where \<open>Inl\<close> is the exception), insertion-ordered
    dictionaries as association lists, binary64 arithmetic with round-half-even over the rationals, JSON values and
    their canonical text.

  Components, each with its state, its operations, its invariant and their properties.
  \<^item> \<open>Clock\<close>: \<^verbatim>\<open>forecasting/clock.py\<close>, both receipt clocks, against one interface of monotone time.
  \<^item> \<open>Contracts_Settings\<close>, \<open>Contracts_Window\<close>, \<open>Contracts_Response\<close>, \<open>Timestamps\<close>, \<open>Wire\<close>: \<^verbatim>\<open>forecasting/contracts.py\<close>. Accepted
    settings are feasible; an accepted response is coherent and answers its request; times and responses survive the
    wire; a request that binds agrees with the live objects.
  \<^item> \<open>Identity\<close>: \<^verbatim>\<open>api/identity.py\<close>, what a resolved signal agrees with.
  \<^item> \<open>History\<close>: \<^verbatim>\<open>forecasting/history.py\<close>, the chunk plan and the strict reader. \<open>Kernels\<close>: \<^verbatim>\<open>forecasting/statistical.py\<close>:
    no fit and no forecast reads the future.
  \<^item> \<open>Maturation\<close>: \<^verbatim>\<open>forecasting/maturation.py\<close>, with the interface \<open>first_receipts\<close> to the journal. \<open>Evidence\<close>: the payload of
    an outcome and the records made of it (\<^verbatim>\<open>maturation.candidate\<close>, \<^verbatim>\<open>CalibrationRecord.from_journal\<close>,
    \<^verbatim>\<open>EvidenceRecord.from_journal\<close>).
  \<^item> \<open>Calibration\<close>: \<^verbatim>\<open>forecasting/calibration.py\<close>, the conformal bound and the adaptive level.
  \<^item> \<open>Trust_Ledger\<close>, \<open>Trust_Policy\<close>: \<^verbatim>\<open>forecasting/trust.py\<close>, exactly-once evidence, replay counted apart, gates, hysteresis
    and the selection of a challenger.
  \<^item> \<open>Store\<close>: \<^verbatim>\<open>forecasting/store.py\<close>; \<open>Journal\<close>: its step relation over calls, faults and restarts, the reachable journals,
    immutability, recovery and retention.
  \<^item> \<open>Artifacts\<close>: \<^verbatim>\<open>forecasting/artifacts.py\<close>; \<open>Worker\<close>: \<^verbatim>\<open>forecasting/worker.py\<close> as a step relation of its threads, bounded
    in every interleaving and with a shutdown that completes.
  \<^item> \<open>Registry\<close>: \<^verbatim>\<open>api/registry.py\<close>; \<open>Admission\<close>: \<^verbatim>\<open>api/admission.py\<close>; \<open>Metrics\<close>: \<^verbatim>\<open>forecasting/metrics.py\<close>.

  The composition, \<^verbatim>\<open>forecasting/service.py\<close>.
  \<^item> \<open>Service_State\<close>: the state of an epoch, the dictionary a checkpoint stores of it, and its round trip.
  \<^item> \<open>Service\<close>: \<open>predict\<close> with all its steps, on the state of the whole service.
  \<^item> \<open>Service_Effects\<close>: the locale \<open>request_effects\<close>, an invariant relation kept by every effect of a request, and its
    interpretations on the journal, the metrics and the new issuances.
  \<^item> \<open>Service_Props\<close>, \<open>Service_Demo\<close>, \<open>Service_Guarantees\<close>: a retry answers the same, a restart resumes the same state, nothing
    is issued late, every journal failure is a refusal, no answer is eligible before the release gates. A service with one
    held issuance is the concrete case.

  Around the service.
  \<^item> \<open>Auth\<close>: \<^verbatim>\<open>api/auth.py\<close>, the configuration, the token review with its cache, and the middleware. The cache is a step
    relation of its calls; a cached answer never outlives its token or its minute. The middleware is written against the
    locale \<open>token_judge\<close>, interpreted on the reviewer.
  \<^item> \<open>Statistical_App\<close>: \<^verbatim>\<open>api/statistical.py\<close>, the handlers behind the middleware; only an authenticated caller changes the
    service.
  \<^item> \<open>Gapfill\<close>: \<^verbatim>\<open>data/gapfill.py\<close>, the validity mask, the interpolation of bounded interior gaps under a cap with its
    proved measure, and the window an inference of the older models may start from.
  \<^item> \<open>Blend\<close>: \<^verbatim>\<open>training/blend_selection.py\<close>, with the random generator as 64-bit words, the moving-block bootstrap and its
    order statistic, and a decision that a network blend has to earn. \<open>Accuracy\<close>: \<^verbatim>\<open>api/accuracy.py\<close>, as a step relation over
    the calls of the tracker. \<open>Rate_History\<close>: \<^verbatim>\<open>data/history.py\<close>, what an accepted history is.

  Interfaces. Where a component relies on another the laws are a locale, interpreted on the model's own definitions
  (\<open>first_receipts\<close> on the journal, the clocks, the effects of a request on the service, \<open>token_judge\<close> on the token reviewer).

  What is outside is an argument: SHA-256 and the decimal text of a float (\<open>codec\<close>), NumPy and SciPy routines (\<open>numlib\<close>), ZIP,
  JSON and NPY bytes of artifacts, the Kubernetes API (\<open>kube_env\<close>, \<open>review_env\<close>), the HTTP range query
  (\<open>read_env\<close>), the model files of the registry (\<open>model_env\<close>), faults, sizes and times of journal calls (\<open>env\<close>, \<open>request_env\<close>). Nothing is assumed about
  them unless a theorem names it.

  Bounds. There is no fuel: every loop of the modelled code is structural recursion or has a proved measure, and the
  threads of the worker, the pool and the registry are step relations.

  Simplifications. Texts of messages are left out of errors. A checkpoint is read back with its keys in the order they
  were written, while the code reads them in sorted order; the dictionaries of a state are looked up by key, and sums
  over hour buckets may be rounded in another order after a restart of the code.

  Not modelled: the older FastAPI application (\<^verbatim>\<open>api/main.py\<close>) and the text of the metrics endpoint, the LSTM
  and ensemble models and the training jobs (TensorFlow and pandas code), the bounded HTTP client and the collector, the offline
  evaluation, deployment and benchmark scripts, and the operator, which is written in Go.
\<close>

end
